(* ===== verification/Meshloop_Prelude.thy ===== *)
theory Meshloop_Prelude
  imports Complex_Main "HOL-Library.Word" "HOL-Library.List_Lexorder" "HOL-Library.Char_ord"
    "HOL-Library.Product_Lexorder" "HOL-Library.Sublist" "HOL-Library.Multiset"
begin

text \<open>
  Shared vocabulary of the development: the machine integers of the Rust crates, the
  fragment of \<open>std::str\<close> the crates use, ordered sets in the style of \<open>BTreeSet\<close>, and
  the rule collections the component theories extend.

  A Rust \<open>String\<close> is modelled by its UTF-8 bytes: \<open>string\<close> is a list of 8-bit characters,
  \<open>length\<close> is Rust's \<open>len()\<close> and the order on strings is the byte order of \<open>Ord for str\<close>.
  Predicates that Rust evaluates on \<open>char\<close>s and that accept ASCII only are evaluated on
  bytes, because every byte of a multi-byte character is at least 128.
\<close>

named_theorems str_simps \<open>characteristic equations of the string functions\<close>
named_theorems codec_simps \<open>encoders and decoders of the stored enumerations\<close>

unbundle bit_operations_syntax

type_synonym u32 = "32 word"
type_synonym u64 = "64 word"

text \<open>\<open>i32\<close> is the same bit pattern as \<open>u32\<close>, read with \<open>sint\<close>.\<close>

type_synonym i32 = "32 word"

section \<open>Results\<close>

text \<open>The \<open>?\<close> operator on \<open>Result\<close>: an error returns at once, a value continues.\<close>

definition try_res :: "'e + 'a \<Rightarrow> ('a \<Rightarrow> 'e + 'b) \<Rightarrow> 'e + 'b" where
  "try_res r k = (case r of Inl e \<Rightarrow> Inl e | Inr a \<Rightarrow> k a)"

lemma try_res_simps [simp]:
  "try_res (Inl e) k = Inl e"
  "try_res (Inr a) k = k a"
  by (simp_all add: try_res_def)

lemma try_res_eq_Inr:
  "try_res r k = Inr b \<longleftrightarrow> (\<exists>a. r = Inr a \<and> k a = Inr b)"
  by (cases r) auto

lemma try_res_eq_Inl:
  "try_res r k = Inl e \<longleftrightarrow> r = Inl e \<or> (\<exists>a. r = Inr a \<and> k a = Inl e)"
  by (cases r) auto

text \<open>\<open>Result::ok\<close>.\<close>

definition res_ok :: "'e + 'a \<Rightarrow> 'a option" where
  "res_ok r = (case r of Inl _ \<Rightarrow> None | Inr a \<Rightarrow> Some a)"

lemma res_ok_simps [simp]:
  "res_ok (Inl e) = None" "res_ok (Inr a) = Some a"
  by (simp_all add: res_ok_def)

section \<open>Characters\<close>

definition is_ascii_digit :: "char \<Rightarrow> bool" where
  "is_ascii_digit c \<longleftrightarrow> 48 \<le> (of_char c :: nat) \<and> (of_char c :: nat) \<le> 57"

definition is_ascii_lowercase :: "char \<Rightarrow> bool" where
  "is_ascii_lowercase c \<longleftrightarrow> 97 \<le> (of_char c :: nat) \<and> (of_char c :: nat) \<le> 122"

definition is_ascii_uppercase :: "char \<Rightarrow> bool" where
  "is_ascii_uppercase c \<longleftrightarrow> 65 \<le> (of_char c :: nat) \<and> (of_char c :: nat) \<le> 90"

definition is_ascii_alphabetic :: "char \<Rightarrow> bool" where
  "is_ascii_alphabetic c \<longleftrightarrow> is_ascii_lowercase c \<or> is_ascii_uppercase c"

definition is_ascii_alphanumeric :: "char \<Rightarrow> bool" where
  "is_ascii_alphanumeric c \<longleftrightarrow> is_ascii_alphabetic c \<or> is_ascii_digit c"

definition is_ascii_control :: "char \<Rightarrow> bool" where
  "is_ascii_control c \<longleftrightarrow> (of_char c :: nat) < 32 \<or> (of_char c :: nat) = 127"

definition ascii_lower :: "char \<Rightarrow> char" where
  "ascii_lower c = (if is_ascii_uppercase c then char_of ((of_char c :: nat) + 32) else c)"

definition ascii_upper :: "char \<Rightarrow> char" where
  "ascii_upper c = (if is_ascii_lowercase c then char_of ((of_char c :: nat) - 32) else c)"

definition to_ascii_lowercase :: "string \<Rightarrow> string" where
  "to_ascii_lowercase s = map ascii_lower s"

definition to_ascii_uppercase :: "string \<Rightarrow> string" where
  "to_ascii_uppercase s = map ascii_upper s"

lemmas ascii_defs =
  is_ascii_digit_def is_ascii_lowercase_def is_ascii_uppercase_def is_ascii_alphabetic_def
  is_ascii_alphanumeric_def is_ascii_control_def ascii_lower_def ascii_upper_def

lemma of_char_bound: "(of_char c :: nat) < 256"
  by (metis char_of_nat nat_of_char_less_256)

lemma ascii_lower_idem [simp]: "ascii_lower (ascii_lower c) = ascii_lower c"
  by (auto simp: ascii_lower_def is_ascii_uppercase_def of_char_of)

lemma to_ascii_lowercase_idem [simp]:
  "to_ascii_lowercase (to_ascii_lowercase s) = to_ascii_lowercase s"
  by (simp add: to_ascii_lowercase_def)

section \<open>Prefixes, suffixes, substrings\<close>

definition starts_with :: "string \<Rightarrow> string \<Rightarrow> bool" where
  "starts_with s p \<longleftrightarrow> take (length p) s = p"

definition ends_with :: "string \<Rightarrow> string \<Rightarrow> bool" where
  "ends_with s p \<longleftrightarrow> starts_with (rev s) (rev p)"

definition strip_prefix :: "string \<Rightarrow> string \<Rightarrow> string option" where
  "strip_prefix s p = (if starts_with s p then Some (drop (length p) s) else None)"

fun str_contains :: "string \<Rightarrow> string \<Rightarrow> bool" where
  "str_contains [] p = starts_with [] p"
| "str_contains (c # s) p = (starts_with (c # s) p \<or> str_contains s p)"

lemma starts_with_iff_prefix: "starts_with s p \<longleftrightarrow> (\<exists>t. s = p @ t)"
  by (metis append_eq_conv_conj append_take_drop_id starts_with_def)

lemma starts_with_Nil [simp]: "starts_with s []"
  by (simp add: starts_with_def)

lemma starts_with_append [simp]: "starts_with (p @ s) p"
  by (simp add: starts_with_def)

lemma starts_with_self [simp]: "starts_with s s"
  by (simp add: starts_with_def)

lemma strip_prefix_Some: "strip_prefix s p = Some t \<longleftrightarrow> s = p @ t"
  by (auto simp: strip_prefix_def starts_with_iff_prefix)

lemma strip_prefix_append [simp]: "strip_prefix (p @ t) p = Some t"
  by (simp add: strip_prefix_Some)

lemma strip_prefix_None: "strip_prefix s p = None \<longleftrightarrow> \<not> starts_with s p"
  by (simp add: strip_prefix_def)

lemma ends_with_iff: "ends_with s p \<longleftrightarrow> (\<exists>t. s = t @ p)"
proof
  assume "ends_with s p"
  then obtain t where "rev s = rev p @ t"
    by (auto simp: ends_with_def starts_with_iff_prefix)
  then have "s = rev t @ p" by (metis rev_append rev_rev_ident)
  then show "\<exists>t. s = t @ p" ..
next
  assume "\<exists>t. s = t @ p"
  then show "ends_with s p" by (auto simp: ends_with_def)
qed

lemma str_contains_iff: "str_contains s p \<longleftrightarrow> (\<exists>a b. s = a @ p @ b)"
proof (induction s)
  case Nil
  show ?case by (auto simp: starts_with_iff_prefix)
next
  case (Cons c s)
  show ?case
  proof
    assume "str_contains (c # s) p"
    then consider "starts_with (c # s) p" | "str_contains s p" by auto
    then show "\<exists>a b. c # s = a @ p @ b"
    proof cases
      case 1
      then show ?thesis by (metis append_Nil starts_with_iff_prefix)
    next
      case 2
      with Cons.IH show ?thesis by (metis append_Cons)
    qed
  next
    assume "\<exists>a b. c # s = a @ p @ b"
    then obtain a b where ab: "c # s = a @ p @ b" by blast
    show "str_contains (c # s) p"
    proof (cases a)
      case Nil
      with ab have "starts_with (c # s) p" by (auto simp: starts_with_iff_prefix)
      then show ?thesis by simp
    next
      case (Cons x a')
      with ab have "s = a' @ p @ b" by simp
      then have "str_contains s p" using Cons.IH by blast
      then show ?thesis by simp
    qed
  qed
qed

section \<open>Splitting, joining, replacing\<close>

text \<open>\<open>str::split\<close> on one character: never empty, and the separators are dropped.\<close>

fun split_on :: "char \<Rightarrow> string \<Rightarrow> string list" where
  "split_on d [] = [[]]"
| "split_on d (c # s) =
     (if c = d then [] # split_on d s
      else (case split_on d s of [] \<Rightarrow> [[c]] | w # ws \<Rightarrow> (c # w) # ws))"

fun split_once :: "char \<Rightarrow> string \<Rightarrow> (string \<times> string) option" where
  "split_once d [] = None"
| "split_once d (c # s) =
     (if c = d then Some ([], s) else map_option (\<lambda>(a, b). (c # a, b)) (split_once d s))"

fun join_with :: "string \<Rightarrow> string list \<Rightarrow> string" where
  "join_with sep [] = []"
| "join_with sep [x] = x"
| "join_with sep (x # y # ys) = x @ sep @ join_with sep (y # ys)"

definition replace_char :: "char \<Rightarrow> char \<Rightarrow> string \<Rightarrow> string" where
  "replace_char a b s = map (\<lambda>c. if c = a then b else c) s"

lemma split_on_not_Nil [simp]: "split_on d s \<noteq> []"
  by (induction s) (auto split: list.splits)

lemma split_on_pieces: "w \<in> set (split_on d s) \<Longrightarrow> d \<notin> set w"
proof (induction s arbitrary: w)
  case Nil
  then show ?case by simp
next
  case (Cons c s)
  then show ?case by (cases "split_on d s") (auto split: if_splits)
qed

lemma join_split_on: "join_with [d] (split_on d s) = s"
proof (induction s)
  case Nil
  show ?case by simp
next
  case (Cons c s)
  obtain w ws where w: "split_on d s = w # ws"
    by (cases "split_on d s") auto
  with Cons show ?case by (cases ws) auto
qed

lemma split_on_append: "d \<notin> set a \<Longrightarrow> split_on d (a @ d # b) = a # split_on d b"
  by (induction a) auto

lemma split_on_plain: "d \<notin> set a \<Longrightarrow> split_on d a = [a]"
  by (induction a) auto

lemma split_on_join:
  assumes "ws \<noteq> []" and "\<And>w. w \<in> set ws \<Longrightarrow> d \<notin> set w"
  shows "split_on d (join_with [d] ws) = ws"
  using assms
proof (induction "[d]" ws rule: join_with.induct)
  case (3 x y ys)
  then show ?case by (simp add: split_on_append)
qed (auto simp: split_on_plain)

lemma split_once_Some: "split_once d s = Some (a, b) \<longleftrightarrow> d \<notin> set a \<and> s = a @ d # b"
proof (induction s arbitrary: a)
  case Nil
  show ?case by simp
next
  case (Cons c s)
  show ?case
  proof (cases "c = d")
    case True
    then show ?thesis by (cases a) auto
  next
    case False
    then show ?thesis using Cons.IH by (cases a) (auto split: option.splits)
  qed
qed

section \<open>White space\<close>

text \<open>
  \<open>char::is_whitespace\<close> on UTF-8 bytes: \<open>ws_len s\<close> is the number of bytes of the white
  space character at the front of \<open>s\<close>, 0 when the front is no white space (the Unicode
  property \<open>White_Space\<close>). \<open>ws_len_rev\<close> reads the same characters backwards.
\<close>

definition byte_of :: "char \<Rightarrow> nat" where
  "byte_of c = of_char c"

definition ascii_ws :: "nat \<Rightarrow> bool" where
  "ascii_ws b \<longleftrightarrow> (9 \<le> b \<and> b \<le> 13) \<or> b = 32"

definition ws2 :: "nat \<Rightarrow> nat \<Rightarrow> bool" where
  "ws2 b1 b2 \<longleftrightarrow> b1 = 194 \<and> (b2 = 133 \<or> b2 = 160)"

definition ws3 :: "nat \<Rightarrow> nat \<Rightarrow> nat \<Rightarrow> bool" where
  "ws3 b1 b2 b3 \<longleftrightarrow>
     (b1 = 225 \<and> b2 = 154 \<and> b3 = 128) \<or>
     (b1 = 226 \<and> b2 = 128 \<and> ((128 \<le> b3 \<and> b3 \<le> 138) \<or> b3 = 168 \<or> b3 = 169 \<or> b3 = 175)) \<or>
     (b1 = 226 \<and> b2 = 129 \<and> b3 = 159) \<or>
     (b1 = 227 \<and> b2 = 128 \<and> b3 = 128)"

fun ws_len :: "string \<Rightarrow> nat" where
  "ws_len [] = 0"
| "ws_len (a # s) =
     (if ascii_ws (byte_of a) then 1
      else (case s of
          b # t \<Rightarrow>
            (if ws2 (byte_of a) (byte_of b) then 2
             else (case t of c # _ \<Rightarrow> if ws3 (byte_of a) (byte_of b) (byte_of c) then 3 else 0
                   | [] \<Rightarrow> 0))
        | [] \<Rightarrow> 0))"

fun ws_len_rev :: "string \<Rightarrow> nat" where
  "ws_len_rev [] = 0"
| "ws_len_rev (a # s) =
     (if ascii_ws (byte_of a) then 1
      else (case s of
          b # t \<Rightarrow>
            (if ws2 (byte_of b) (byte_of a) then 2
             else (case t of c # _ \<Rightarrow> if ws3 (byte_of c) (byte_of b) (byte_of a) then 3 else 0
                   | [] \<Rightarrow> 0))
        | [] \<Rightarrow> 0))"

function trim_start :: "string \<Rightarrow> string" where
  "trim_start s = (if ws_len s = 0 then s else trim_start (drop (ws_len s) s))"
  by pat_completeness auto
termination
proof (relation "measure length")
  fix s :: string
  assume "ws_len s \<noteq> 0"
  then show "(drop (ws_len s) s, s) \<in> measure length" by (cases s) auto
qed simp

declare trim_start.simps [simp del]

function trim_start_rev :: "string \<Rightarrow> string" where
  "trim_start_rev s = (if ws_len_rev s = 0 then s else trim_start_rev (drop (ws_len_rev s) s))"
  by pat_completeness auto
termination
proof (relation "measure length")
  fix s :: string
  assume "ws_len_rev s \<noteq> 0"
  then show "(drop (ws_len_rev s) s, s) \<in> measure length" by (cases s) auto
qed simp

declare trim_start_rev.simps [simp del]

definition trim_end :: "string \<Rightarrow> string" where
  "trim_end s = rev (trim_start_rev (rev s))"

definition trim :: "string \<Rightarrow> string" where
  "trim s = trim_end (trim_start s)"

lemma trim_start_suffix: "\<exists>p. s = p @ trim_start s"
proof (induction s rule: trim_start.induct)
  case (1 s)
  show ?case
  proof (cases "ws_len s = 0")
    case True
    then show ?thesis by (simp add: trim_start.simps [of s])
  next
    case False
    with 1 obtain p where "drop (ws_len s) s = p @ trim_start (drop (ws_len s) s)" by blast
    with False have "s = (take (ws_len s) s @ p) @ trim_start s"
      by (metis append.assoc append_take_drop_id trim_start.simps)
    then show ?thesis by blast
  qed
qed

lemma trim_start_rev_suffix: "\<exists>p. s = p @ trim_start_rev s"
proof (induction s rule: trim_start_rev.induct)
  case (1 s)
  show ?case
  proof (cases "ws_len_rev s = 0")
    case True
    then show ?thesis by (simp add: trim_start_rev.simps [of s])
  next
    case False
    with 1 obtain p where
      "drop (ws_len_rev s) s = p @ trim_start_rev (drop (ws_len_rev s) s)" by blast
    with False have "s = (take (ws_len_rev s) s @ p) @ trim_start_rev s"
      by (metis append.assoc append_take_drop_id trim_start_rev.simps)
    then show ?thesis by blast
  qed
qed

lemma trim_end_prefix: "\<exists>p. s = trim_end s @ p"
proof -
  obtain p where "rev s = p @ trim_start_rev (rev s)"
    using trim_start_rev_suffix by blast
  then have "s = trim_end s @ rev p"
    by (metis rev_append rev_rev_ident trim_end_def)
  then show ?thesis by blast
qed

lemma trim_infix: "\<exists>a b. s = a @ trim s @ b"
  by (metis trim_def trim_start_suffix trim_end_prefix append.assoc)

lemma set_trim_subset: "set (trim s) \<subseteq> set s"
  by (metis (no_types, lifting) trim_infix set_append Un_commute sup.cobounded2 sup_assoc)

lemma trim_plain:
  assumes "ws_len s = 0" and "ws_len_rev (rev s) = 0"
  shows "trim s = s"
  using assms by (simp add: trim_def trim_end_def trim_start.simps [of s] trim_start_rev.simps [of "rev s"])

text \<open>A printable ASCII character stops trimming on either side.\<close>

definition solid :: "char \<Rightarrow> bool" where
  "solid c \<longleftrightarrow> byte_of c < 128 \<and> \<not> ascii_ws (byte_of c)"

lemma ws_len_solid [simp]: "solid c \<Longrightarrow> ws_len (c # s) = 0"
  by (auto simp: solid_def ws2_def ws3_def split: list.splits)

lemma trim_start_solid: "solid c \<Longrightarrow> trim_start (c # s) = c # s"
  by (simp add: trim_start.simps [of "c # s"] del: ws_len.simps)

lemma ws_len_rev_barrier: "solid c \<Longrightarrow> ws_len_rev (r @ c # q) = ws_len_rev r"
  by (cases r rule: ws_len_rev.cases)
    (auto simp: solid_def ws2_def ws3_def split: list.splits if_splits
      simp: Cons_eq_append_conv append_eq_Cons_conv)

lemma ws_len_rev_le: "ws_len_rev r \<le> length r"
  by (cases r) (auto split: list.splits)

lemma trim_start_rev_barrier: "solid c \<Longrightarrow> trim_start_rev (r @ c # q) = trim_start_rev r @ c # q"
proof (induction r rule: trim_start_rev.induct)
  case (1 r)
  then show ?case
    using ws_len_rev_le [of r]
    by (simp add: trim_start_rev.simps [of "r @ c # q"] trim_start_rev.simps [of r]
        ws_len_rev_barrier)
qed

lemma trim_end_barrier: "solid c \<Longrightarrow> trim_end (q @ c # x) = q @ c # trim_end x"
  by (simp add: trim_end_def trim_start_rev_barrier)

lemma trim_solid_front: "solid a \<Longrightarrow> solid c \<Longrightarrow> trim (a # q @ c # x) = a # q @ c # trim_end x"
  using trim_end_barrier [of c "a # q" x] by (simp add: trim_def trim_start_solid)

lemma trim_solid_ends: "solid a \<Longrightarrow> solid c \<Longrightarrow> trim (a # q @ [c]) = a # q @ [c]"
  using trim_solid_front [of a c q "[]"] by (simp add: trim_end_def trim_start_rev.simps [of "[]"])

section \<open>Lines and words\<close>

text \<open>\<open>str::lines\<close>: the pieces between newlines, without a last empty one and without a trailing CR.\<close>

definition strip_cr :: "string \<Rightarrow> string" where
  "strip_cr l = (if l \<noteq> [] \<and> last l = CHR 0x0D then butlast l else l)"

definition str_lines :: "string \<Rightarrow> string list" where
  "str_lines s =
     (let ps = split_on CHR 0x0A s
      in map strip_cr (if last ps = [] then butlast ps else ps))"

text \<open>Separators that are strings, as in \<open>split_once(": ")\<close> and \<open>split(": ")\<close>.\<close>

fun split_once_str :: "string \<Rightarrow> string \<Rightarrow> (string \<times> string) option" where
  "split_once_str sep [] = (if sep = [] then Some ([], []) else None)"
| "split_once_str sep (c # s) =
     (if starts_with (c # s) sep then Some ([], drop (length sep) (c # s))
      else map_option (\<lambda>(a, b). (c # a, b)) (split_once_str sep s))"

lemma split_once_str_Some: "split_once_str sep s = Some (a, b) \<Longrightarrow> s = a @ sep @ b"
proof (induction s arbitrary: a b)
  case (Cons c s)
  show ?case
  proof (cases "starts_with (c # s) sep")
    case True
    then obtain t where t: "c # s = sep @ t" by (auto simp: starts_with_iff_prefix)
    have "split_once_str sep (c # s) = Some ([], drop (length sep) (c # s))" using True by simp
    then have "split_once_str sep (c # s) = Some ([], t)" using t by simp
    then show ?thesis using Cons.prems t by simp
  next
    case False
    then show ?thesis using Cons by auto
  qed
qed (auto split: if_splits)

function split_str :: "string \<Rightarrow> string \<Rightarrow> string list" where
  "split_str sep s =
     (if sep = [] then [s]
      else case split_once_str sep s of None \<Rightarrow> [s] | Some (a, b) \<Rightarrow> a # split_str sep b)"
  by pat_completeness auto
termination
proof (relation "measure (length \<circ> snd)")
  fix sep s a b and x :: "string \<times> string"
  assume "sep \<noteq> ([] :: string)" "split_once_str sep s = Some x" "(a, b) = x"
  then have "s = a @ sep @ b" by (metis split_once_str_Some)
  then show "((sep, b), sep, s) \<in> measure (length \<circ> snd)" using \<open>sep \<noteq> []\<close> by simp
qed simp

declare split_str.simps [simp del]

text \<open>\<open>split_whitespace\<close>.\<close>

function split_ws_aux :: "string \<Rightarrow> string \<Rightarrow> string list" where
  "split_ws_aux w s =
     (case s of
        [] \<Rightarrow> if w = [] then [] else [w]
      | c # t \<Rightarrow>
          if ws_len s = 0 then split_ws_aux (w @ [c]) t
          else (if w = [] then [] else [w]) @ split_ws_aux [] (drop (ws_len s) s))"
  by pat_completeness auto
termination
  by (relation "measure (length \<circ> snd)") (auto split: if_splits list.splits)

declare split_ws_aux.simps [simp del]

definition split_whitespace :: "string \<Rightarrow> string list" where
  "split_whitespace s = split_ws_aux [] s"

text \<open>\<open>trim_end_matches\<close> with a character and with a string.\<close>

definition trim_end_char :: "char \<Rightarrow> string \<Rightarrow> string" where
  "trim_end_char c s = rev (dropWhile (\<lambda>x. x = c) (rev s))"

function trim_end_str :: "string \<Rightarrow> string \<Rightarrow> string" where
  "trim_end_str suf s =
     (if suf \<noteq> [] \<and> ends_with s suf then trim_end_str suf (take (length s - length suf) s) else s)"
  by pat_completeness auto
termination
  by (relation "measure (length \<circ> snd)") (auto simp: ends_with_iff)

declare trim_end_str.simps [simp del]

section \<open>Ordered sets\<close>

text \<open>
  \<open>BTreeSet\<close>: the strictly increasing list of its elements, which is also the order of
  iteration.
\<close>

fun bt_insert :: "'a::linorder \<Rightarrow> 'a list \<Rightarrow> 'a list" where
  "bt_insert x [] = [x]"
| "bt_insert x (y # ys) =
     (if x < y then x # y # ys else if x = y then y # ys else y # bt_insert x ys)"

definition bt_collect :: "'a::linorder list \<Rightarrow> 'a list" where
  "bt_collect xs = fold bt_insert xs []"

abbreviation bt_invar :: "'a::linorder list \<Rightarrow> bool" where
  "bt_invar xs \<equiv> sorted_wrt (<) xs"

lemma set_bt_insert [simp]: "set (bt_insert x xs) = insert x (set xs)"
  by (induction xs) auto

lemma bt_insert_invar: "bt_invar xs \<Longrightarrow> bt_invar (bt_insert x xs)"
  by (induction xs) auto

lemma fold_bt_insert_set: "set (fold bt_insert xs ys) = set xs \<union> set ys"
  by (induction xs arbitrary: ys) auto

lemma fold_bt_insert_invar: "bt_invar ys \<Longrightarrow> bt_invar (fold bt_insert xs ys)"
  by (induction xs arbitrary: ys) (auto simp: bt_insert_invar)

lemma set_bt_collect [simp]: "set (bt_collect xs) = set xs"
  by (simp add: bt_collect_def fold_bt_insert_set)

lemma bt_collect_invar [simp]: "bt_invar (bt_collect xs)"
  by (simp add: bt_collect_def fold_bt_insert_invar)

lemma bt_invar_distinct: "bt_invar xs \<Longrightarrow> distinct xs"
  by (simp add: strict_sorted_iff)

lemma bt_invar_ext: "bt_invar xs \<Longrightarrow> bt_invar ys \<Longrightarrow> set xs = set ys \<Longrightarrow> xs = ys"
  by (simp add: strict_sorted_equal)

lemma bt_invar_filter: "bt_invar xs \<Longrightarrow> bt_invar (filter P xs)"
  by (rule sorted_wrt_filter)

section \<open>Numbers\<close>

definition digit_char :: "nat \<Rightarrow> char" where
  "digit_char d = char_of (48 + d mod 10)"

fun show_nat :: "nat \<Rightarrow> string" where
  "show_nat n = (if n < 10 then [digit_char n] else show_nat (n div 10) @ [digit_char (n mod 10)])"

declare show_nat.simps [simp del]

definition show_int :: "int \<Rightarrow> string" where
  "show_int i = (if i < 0 then ''-'' @ show_nat (nat (- i)) else show_nat (nat i))"

definition show_word :: "'a::len word \<Rightarrow> string" where
  "show_word w = show_nat (unat w)"

definition hex_digit :: "nat \<Rightarrow> char" where
  "hex_digit d = (if d < 10 then char_of (48 + d) else char_of (87 + d))"

fun hex_pad :: "nat \<Rightarrow> nat \<Rightarrow> string" where
  "hex_pad 0 n = []"
| "hex_pad (Suc k) n = hex_pad k (n div 16) @ [hex_digit (n mod 16)]"

text \<open>The format \<open>{:016x}\<close>.\<close>

definition hex16 :: "u64 \<Rightarrow> string" where
  "hex16 w = hex_pad 16 (unat w)"

lemma length_hex_pad [simp]: "length (hex_pad k n) = k"
  by (induction k arbitrary: n) auto

lemma length_hex16 [simp]: "length (hex16 w) = 16"
  by (simp add: hex16_def)

lemma of_char_hex_digit:
  "d < 16 \<Longrightarrow> (of_char (hex_digit d) :: nat) = (if d < 10 then 48 + d else 87 + d)"
  by (auto simp: hex_digit_def of_char_of)

lemma hex_digit_inj:
  assumes "a < 16" "b < 16" and eq: "hex_digit a = hex_digit b"
  shows "a = b"
proof -
  have "(of_char (hex_digit a) :: nat) = of_char (hex_digit b)" using eq by simp
  then show ?thesis using assms(1,2) by (auto simp: of_char_hex_digit split: if_splits)
qed

lemma hex_pad_inj:
  "a < 16 ^ k \<Longrightarrow> b < 16 ^ k \<Longrightarrow> hex_pad k a = hex_pad k b \<Longrightarrow> a = b"
proof (induction k arbitrary: a b)
  case 0
  then show ?case by simp
next
  case (Suc k)
  have "hex_pad k (a div 16) = hex_pad k (b div 16)"
    and d: "hex_digit (a mod 16) = hex_digit (b mod 16)"
    using Suc.prems(3) by simp_all
  moreover have "a div 16 < 16 ^ k" "b div 16 < 16 ^ k"
    using Suc.prems(1,2) by (simp_all add: less_mult_imp_div_less mult.commute)
  ultimately have "a div 16 = b div 16" using Suc.IH by blast
  moreover have "a mod 16 = b mod 16" by (rule hex_digit_inj [OF _ _ d]) simp_all
  ultimately show ?case by (metis div_mult_mod_eq)
qed

lemma hex16_inj: "hex16 a = hex16 b \<Longrightarrow> a = b"
proof -
  assume "hex16 a = hex16 b"
  then have "hex_pad 16 (unat a) = hex_pad 16 (unat b)" by (simp add: hex16_def)
  moreover have "unat a < 16 ^ 16" "unat b < 16 ^ 16"
    using unsigned_less [of a] unsigned_less [of b] by simp_all
  ultimately have "unat a = unat b" using hex_pad_inj by blast
  then show ?thesis by (simp add: word_unat_eq_iff)
qed

text \<open>\<open>str::parse::<u64>\<close>: decimal digits with an optional plus sign, within range.\<close>

definition digit_value :: "char \<Rightarrow> nat" where
  "digit_value c = of_char c - 48"

definition parse_digits :: "string \<Rightarrow> nat option" where
  "parse_digits s =
     (if s \<noteq> [] \<and> list_all is_ascii_digit s
      then Some (foldl (\<lambda>n c. 10 * n + digit_value c) 0 s) else None)"

definition parse_u64 :: "string \<Rightarrow> nat option" where
  "parse_u64 s =
     (case parse_digits (case s of c # t \<Rightarrow> if c = CHR ''+'' then t else s | [] \<Rightarrow> []) of
        Some n \<Rightarrow> if n < 2 ^ 64 then Some n else None
      | None \<Rightarrow> None)"

lemma digit_char_digit: "k < 10 \<Longrightarrow> is_ascii_digit (digit_char k) \<and> digit_value (digit_char k) = k"
  by (simp add: digit_char_def is_ascii_digit_def digit_value_def of_char_of)

lemma show_nat_digits: "list_all is_ascii_digit (show_nat n) \<and> show_nat n \<noteq> []"
proof (induction n rule: show_nat.induct)
  case (1 n)
  then show ?case by (simp add: show_nat.simps [of n] digit_char_digit)
qed

lemma show_nat_value: "foldl (\<lambda>n c. 10 * n + digit_value c) 0 (show_nat n) = n"
proof (induction n rule: show_nat.induct)
  case (1 n)
  then show ?case by (simp add: show_nat.simps [of n] digit_char_digit)
qed

lemma parse_u64_show [codec_simps]: "n < 2 ^ 64 \<Longrightarrow> parse_u64 (show_nat n) = Some n"
proof -
  assume n: "n < 2 ^ 64"
  obtain c t where ct: "show_nat n = c # t" using show_nat_digits [of n] by (cases "show_nat n") auto
  have "c \<noteq> CHR ''+''" using show_nat_digits [of n] ct by (auto simp: is_ascii_digit_def)
  then show ?thesis
    using n ct show_nat_digits [of n] show_nat_value [of n] by (simp add: parse_u64_def parse_digits_def)
qed

lemma show_nat_inj: "show_nat a = show_nat b \<Longrightarrow> a = b"
  by (metis show_nat_value)

section \<open>Stable codes\<close>

text \<open>
  The crates give many enumerations a stable textual code (\<open>as_str\<close>, \<open>name\<close>, or the
  \<open>Debug\<close> name) and read some of them back. \<open>stable_code\<close> is the contract of the
  writer: distinct variants have distinct codes. \<open>codec\<close> adds a reader that inverts it.
\<close>

locale stable_code =
  fixes code :: "'a \<Rightarrow> string"
  assumes code_inj: "code x = code y \<Longrightarrow> x = y"
begin

lemma code_eq_iff: "code x = code y \<longleftrightarrow> x = y"
  using code_inj by blast

lemma inj_code: "inj code"
  by (rule injI) (rule code_inj)

lemma distinct_codes: "distinct (map code xs) \<longleftrightarrow> distinct xs"
  by (simp add: distinct_map inj_on_def code_eq_iff)

lemma sort_codes_determine:
  "sort (map code xs) = sort (map code ys) \<Longrightarrow> mset xs = mset ys"
proof -
  assume "sort (map code xs) = sort (map code ys)"
  then have "mset (map code xs) = mset (map code ys)" by (metis mset_sort)
  then have "image_mset code (mset xs) = image_mset code (mset ys)" by simp
  then show ?thesis using inj_code by (metis multiset.inj_map injD)
qed

end

locale codec =
  fixes enc :: "'a \<Rightarrow> string" and dec :: "string \<Rightarrow> 'e + 'a"
  assumes dec_enc: "dec (enc x) = Inr x"
begin

lemma enc_inj: "enc x = enc y \<Longrightarrow> x = y"
  by (metis dec_enc sum.inject(2))

lemma dec_error_not_code: "dec s = Inl e \<Longrightarrow> s \<noteq> enc x"
  by (auto simp: dec_enc)

end

sublocale codec \<subseteq> written: stable_code enc
  by unfold_locales (rule enc_inj)

section \<open>Validated values\<close>

text \<open>
  Newtypes with a private field and one checked constructor (\<open>try_new\<close>, \<open>parse\<close>). The
  contract: construction succeeds exactly on acceptable input and stores it unchanged. The
  clients get that reading a value back from its own text always succeeds and yields the
  same value.
\<close>

locale validated =
  fixes parse :: "'a \<Rightarrow> 'e + 'b" and raw :: "'b \<Rightarrow> 'a" and ok :: "'a \<Rightarrow> bool"
  assumes parse_stores: "parse x = Inr v \<Longrightarrow> raw v = x \<and> ok x"
    and parse_accepts: "ok x \<Longrightarrow> \<exists>v. parse x = Inr v"
begin

lemma parse_raw: "parse x = Inr v \<Longrightarrow> parse (raw v) = Inr v"
  using parse_stores by metis

lemma parse_rejects: "(\<exists>e. parse x = Inl e) \<longleftrightarrow> \<not> ok x"
  by (metis parse_accepts parse_stores Inl_Inr_False old.sum.exhaust)

lemma parse_inj: "parse x = Inr v \<Longrightarrow> parse y = Inr v \<Longrightarrow> x = y"
  using parse_stores by metis

lemma parsed_ok: "parse x = Inr v \<Longrightarrow> ok (raw v)"
  using parse_stores by metis

end

end
