(* ===== verification/Domain_State.thy ===== *)
theory Domain_State
  imports Meshloop_Prelude
begin

text \<open>
  \<open>crates/meshloop-domain/src/state.rs\<close>: the table-driven task state machine and the
  plan gate. \<open>transition\<close> and \<open>plan_transition\<close> are the two tables; the step relation
  \<open>task_step\<close> and the runs \<open>run_events\<close> are what the rest of the system observes of them.
\<close>

section \<open>States and events\<close>

datatype task_state =
    Pending | Ready | Running | Verifying | AwaitingReview | Accepted | Integrated
  | Failed | Cancelled | Blocked

datatype plan_state = AwaitingPlanReview | PlanAccepted | PlanDeclined

datatype plan_decision = Accept | Decline | Adjust

datatype event =
    DependencySatisfied | DependencyFailedOrScopeRevoked | AttemptStarted | HarnessExited
  | HarnessCrashedOrTimeout | Cancel | DeterministicChecksPassed | DeterministicChecksFailed
  | ModelReviewPassed | HumanAcceptanceRecorded | ReviewRejected | IntegrationOwnerMerge
  | StaleBaseDetected | RetryAuthorized | LiveWorkerSettled | DependencyCleared
  | GraphMutated | VerifyGatePassed

datatype illegal_transition = IllegalTransition (it_from: task_state) (it_event: event)

datatype illegal_plan_transition =
  IllegalPlanTransition (ipt_from: plan_state) (ipt_decision: plan_decision)

text \<open>The derived \<open>Debug\<close> names, which are also what the store writes.\<close>

definition state_name :: "task_state \<Rightarrow> string" where
  "state_name s =
     (case s of
        Pending \<Rightarrow> ''Pending'' | Ready \<Rightarrow> ''Ready'' | Running \<Rightarrow> ''Running''
      | Verifying \<Rightarrow> ''Verifying'' | AwaitingReview \<Rightarrow> ''AwaitingReview''
      | Accepted \<Rightarrow> ''Accepted'' | Integrated \<Rightarrow> ''Integrated'' | Failed \<Rightarrow> ''Failed''
      | Cancelled \<Rightarrow> ''Cancelled'' | Blocked \<Rightarrow> ''Blocked'')"

definition event_name :: "event \<Rightarrow> string" where
  "event_name e =
     (case e of
        DependencySatisfied \<Rightarrow> ''DependencySatisfied''
      | DependencyFailedOrScopeRevoked \<Rightarrow> ''DependencyFailedOrScopeRevoked''
      | AttemptStarted \<Rightarrow> ''AttemptStarted''
      | HarnessExited \<Rightarrow> ''HarnessExited''
      | HarnessCrashedOrTimeout \<Rightarrow> ''HarnessCrashedOrTimeout''
      | Cancel \<Rightarrow> ''Cancel''
      | DeterministicChecksPassed \<Rightarrow> ''DeterministicChecksPassed''
      | DeterministicChecksFailed \<Rightarrow> ''DeterministicChecksFailed''
      | ModelReviewPassed \<Rightarrow> ''ModelReviewPassed''
      | HumanAcceptanceRecorded \<Rightarrow> ''HumanAcceptanceRecorded''
      | ReviewRejected \<Rightarrow> ''ReviewRejected''
      | IntegrationOwnerMerge \<Rightarrow> ''IntegrationOwnerMerge''
      | StaleBaseDetected \<Rightarrow> ''StaleBaseDetected''
      | RetryAuthorized \<Rightarrow> ''RetryAuthorized''
      | LiveWorkerSettled \<Rightarrow> ''LiveWorkerSettled''
      | DependencyCleared \<Rightarrow> ''DependencyCleared''
      | GraphMutated \<Rightarrow> ''GraphMutated''
      | VerifyGatePassed \<Rightarrow> ''VerifyGatePassed'')"

definition plan_state_name :: "plan_state \<Rightarrow> string" where
  "plan_state_name s =
     (case s of
        AwaitingPlanReview \<Rightarrow> ''AwaitingPlanReview''
      | PlanAccepted \<Rightarrow> ''PlanAccepted''
      | PlanDeclined \<Rightarrow> ''PlanDeclined'')"

section \<open>The transition tables\<close>

definition transition :: "task_state \<Rightarrow> event \<Rightarrow> illegal_transition + task_state" where
  "transition from ev =
     (case (from, ev) of
        (Pending, DependencySatisfied) \<Rightarrow> Inr Ready
      | (Pending, DependencyFailedOrScopeRevoked) \<Rightarrow> Inr Blocked
      | (Ready, AttemptStarted) \<Rightarrow> Inr Running
      | (Running, HarnessExited) \<Rightarrow> Inr Verifying
      | (Running, HarnessCrashedOrTimeout) \<Rightarrow> Inr Failed
      | (Running, Cancel) \<Rightarrow> Inr Cancelled
      | (Verifying, DeterministicChecksPassed) \<Rightarrow> Inr AwaitingReview
      | (Verifying, DeterministicChecksFailed) \<Rightarrow> Inr Failed
      | (AwaitingReview, ModelReviewPassed) \<Rightarrow> Inr Accepted
      | (AwaitingReview, HumanAcceptanceRecorded) \<Rightarrow> Inr Accepted
      | (AwaitingReview, VerifyGatePassed) \<Rightarrow> Inr Accepted
      | (AwaitingReview, ReviewRejected) \<Rightarrow> Inr Failed
      | (Accepted, IntegrationOwnerMerge) \<Rightarrow> Inr Integrated
      | (Accepted, StaleBaseDetected) \<Rightarrow> Inr Failed
      | (Failed, RetryAuthorized) \<Rightarrow> Inr Ready
      | (Failed, LiveWorkerSettled) \<Rightarrow> Inr Verifying
      | (Failed, HarnessExited) \<Rightarrow> Inr Failed
      | (Blocked, DependencyCleared) \<Rightarrow> Inr Pending
      | (Ready, GraphMutated) \<Rightarrow> Inr Pending
      | (Pending, GraphMutated) \<Rightarrow> Inr Pending
      | (Blocked, GraphMutated) \<Rightarrow> Inr Blocked
      | (state, Cancel) \<Rightarrow>
          (if state \<noteq> Integrated \<and> state \<noteq> Cancelled then Inr Cancelled
           else Inl (IllegalTransition from ev))
      | _ \<Rightarrow> Inl (IllegalTransition from ev))"

definition plan_transition ::
    "plan_state \<Rightarrow> plan_decision \<Rightarrow> illegal_plan_transition + plan_state" where
  "plan_transition from decision =
     (case (from, decision) of
        (AwaitingPlanReview, Accept) \<Rightarrow> Inr PlanAccepted
      | (AwaitingPlanReview, Decline) \<Rightarrow> Inr PlanDeclined
      | (AwaitingPlanReview, Adjust) \<Rightarrow> Inr AwaitingPlanReview
      | (PlanAccepted, Accept) \<Rightarrow> Inr PlanAccepted
      | (PlanDeclined, Decline) \<Rightarrow> Inr PlanDeclined
      | (PlanDeclined, Adjust) \<Rightarrow> Inr AwaitingPlanReview
      | _ \<Rightarrow> Inl (IllegalPlanTransition from decision))"

lemma transition_error: "transition s e = Inl x \<Longrightarrow> x = IllegalTransition s e"
  by (cases s; cases e) (auto simp: transition_def)

lemma plan_transition_error: "plan_transition s d = Inl x \<Longrightarrow> x = IllegalPlanTransition s d"
  by (cases s; cases d) (auto simp: plan_transition_def)

section \<open>Runs of the task machine\<close>

inductive task_step :: "task_state \<Rightarrow> event \<Rightarrow> task_state \<Rightarrow> bool" where
  legal: "transition s e = Inr t \<Longrightarrow> task_step s e t"

inductive_simps task_step_iff: "task_step s e t"

fun run_events :: "task_state \<Rightarrow> event list \<Rightarrow> illegal_transition + task_state" where
  "run_events s [] = Inr s"
| "run_events s (e # es) = try_res (transition s e) (\<lambda>t. run_events t es)"

lemma run_events_append:
  "run_events s (xs @ ys) = try_res (run_events s xs) (\<lambda>t. run_events t ys)"
  by (induction xs arbitrary: s) (auto simp: try_res_def split: sum.splits)

lemma run_events_snoc:
  "run_events s (es @ [e]) = Inr t \<longleftrightarrow>
     (\<exists>u. run_events s es = Inr u \<and> transition u e = Inr t)"
  by (auto simp: run_events_append try_res_eq_Inr)

definition acceptance_event :: "event \<Rightarrow> bool" where
  "acceptance_event e \<longleftrightarrow>
     e = ModelReviewPassed \<or> e = HumanAcceptanceRecorded \<or> e = VerifyGatePassed"

text \<open>
  \<open>milestones s es\<close>: the events a run of \<open>es\<close> that ends in \<open>s\<close> must have passed, in
  this order, when it started at \<open>Pending\<close>.
\<close>

fun milestones :: "task_state \<Rightarrow> event list \<Rightarrow> bool" where
  "milestones Ready es = subseq [DependencySatisfied] es"
| "milestones Running es = subseq [DependencySatisfied, AttemptStarted] es"
| "milestones Verifying es = subseq [DependencySatisfied, AttemptStarted] es"
| "milestones Failed es = subseq [DependencySatisfied, AttemptStarted] es"
| "milestones AwaitingReview es =
     subseq [DependencySatisfied, AttemptStarted, DeterministicChecksPassed] es"
| "milestones Accepted es =
     (\<exists>a. acceptance_event a \<and>
        subseq [DependencySatisfied, AttemptStarted, DeterministicChecksPassed, a] es)"
| "milestones Integrated es =
     (\<exists>a. acceptance_event a \<and>
        subseq [DependencySatisfied, AttemptStarted, DeterministicChecksPassed, a,
          IntegrationOwnerMerge] es)"
| "milestones _ es = True"

lemma subseq_snoc_weaken: "subseq xs es \<Longrightarrow> subseq xs (es @ [e])"
  by (rule subseq_rev_drop_many)

lemma subseq_snoc_extend: "subseq xs es \<Longrightarrow> subseq (xs @ [e]) (es @ [e])"
  by (intro list_emb_append_mono) auto

lemma subseq_butlast: "subseq (xs @ [x]) es \<Longrightarrow> subseq xs es"
  by (meson subseq_order.trans subseq_rev_drop_many subseq_order.refl)

lemma milestones_weaken: "milestones s es \<Longrightarrow> milestones s (es @ [e])"
  by (cases s) (auto intro: subseq_snoc_weaken)

lemmas milestone_extend =
  subseq_snoc_extend [where xs = "[]", simplified]
  subseq_snoc_extend [where xs = "[a]" for a, simplified]
  subseq_snoc_extend [where xs = "[a, b]" for a b, simplified]
  subseq_snoc_extend [where xs = "[a, b, c]" for a b c, simplified]
  subseq_snoc_extend [where xs = "[a, b, c, d]" for a b c d, simplified]

lemmas milestone_shorten =
  subseq_butlast [where xs = "[a]" for a, simplified]
  subseq_butlast [where xs = "[a, b]" for a b, simplified]
  subseq_butlast [where xs = "[a, b, c]" for a b c, simplified]

lemma milestones_step:
  assumes "transition u e = Inr t" and "milestones u es"
  shows "milestones t (es @ [e])"
  using assms
  by (cases u; cases e)
    (auto simp: transition_def acceptance_event_def
       intro: subseq_snoc_weaken milestone_extend dest: milestone_shorten)

lemma run_from_Pending_milestones: "run_events Pending es = Inr t \<Longrightarrow> milestones t es"
proof (induction es arbitrary: t rule: rev_induct)
  case Nil
  then show ?case by auto
next
  case (snoc e es)
  then show ?case by (auto simp: run_events_snoc intro: milestones_step)
qed

section \<open>Terminal states\<close>

lemma transition_Integrated: "transition Integrated e = Inl (IllegalTransition Integrated e)"
  by (cases e) (simp_all add: transition_def)

lemma transition_Cancelled: "transition Cancelled e = Inl (IllegalTransition Cancelled e)"
  by (cases e) (simp_all add: transition_def)

lemma transition_Cancel_iff:
  "(\<exists>t. transition s Cancel = Inr t) \<longleftrightarrow> s \<noteq> Integrated \<and> s \<noteq> Cancelled"
  by (cases s) (simp_all add: transition_def)

text \<open>
  Only \<open>Integrated\<close> and \<open>Cancelled\<close> are final: they refuse every event, and every
  other state can still be cancelled. So a legal run never leaves \<open>Integrated\<close>, and no
  state of the machine is a dead end without an operator's way out.
\<close>

theorem final_states:
  "(\<forall>e. \<exists>x. transition s e = Inl x) \<longleftrightarrow> s = Integrated \<or> s = Cancelled"
proof
  assume "\<forall>e. \<exists>x. transition s e = Inl x"
  then show "s = Integrated \<or> s = Cancelled"
    by (metis Inl_Inr_False transition_Cancel_iff)
next
  assume "s = Integrated \<or> s = Cancelled"
  then show "\<forall>e. \<exists>x. transition s e = Inl x"
    by (auto simp: transition_Integrated transition_Cancelled)
qed

text \<open>
  C12. Nothing is integrated on trust: every legal run of the task machine that starts at
  \<open>Pending\<close> and ends in \<open>Integrated\<close> passed, in this order, dependency satisfaction, an
  attempt, passing deterministic checks, an acceptance (human, model review or verify gate)
  and the integration owner's merge, whatever retries, crashes and cancellations lie between.
\<close>

theorem integration_path:
  assumes "run_events Pending es = Inr Integrated"
  shows "\<exists>a. acceptance_event a \<and>
     subseq [DependencySatisfied, AttemptStarted, DeterministicChecksPassed, a,
       IntegrationOwnerMerge] es"
  using run_from_Pending_milestones [OF assms] by simp

theorem integration_path_witness:
  "\<exists>a. acceptance_event a \<and>
     subseq [DependencySatisfied, AttemptStarted, DeterministicChecksPassed, a,
       IntegrationOwnerMerge]
       [DependencySatisfied, AttemptStarted, HarnessCrashedOrTimeout, RetryAuthorized,
        AttemptStarted, HarnessExited, DeterministicChecksPassed, HumanAcceptanceRecorded,
        IntegrationOwnerMerge]"
  by (rule integration_path) (simp add: transition_def)

section \<open>The plan gate\<close>

fun run_decisions :: "plan_state \<Rightarrow> plan_decision list \<Rightarrow> illegal_plan_transition + plan_state" where
  "run_decisions s [] = Inr s"
| "run_decisions s (d # ds) = try_res (plan_transition s d) (\<lambda>t. run_decisions t ds)"

lemma plan_accepted_absorbing:
  "plan_transition PlanAccepted d = Inr t \<Longrightarrow> t = PlanAccepted"
  by (cases d) (simp_all add: plan_transition_def)

lemma run_from_accepted: "run_decisions PlanAccepted ds = Inr t \<Longrightarrow> t = PlanAccepted"
proof (induction ds)
  case (Cons d ds)
  then show ?case by (cases d) (auto simp: plan_transition_def)
qed simp

lemma run_decisions_accept_needed:
  "run_decisions s ds = Inr PlanAccepted \<Longrightarrow> s \<noteq> PlanAccepted \<Longrightarrow> Accept \<in> set ds"
proof (induction ds arbitrary: s)
  case (Cons d ds)
  then show ?case
    by (cases s; cases d) (auto simp: plan_transition_def)
qed simp

end
