(* ===== verification/Rust_Float.thy ===== *)
theory Rust_Float
  imports Meshloop_Prelude
begin

text \<open>
  The part of \<open>f64\<close> that decisions depend on. A finite double is a dyadic rational and is
  represented by that rational, so comparisons are exact; the two zeros, which compare
  equal, are one value. Literals are the doubles nearest to the decimals in the source.
  Comparisons with NaN are false, as IEEE 754 has them.
\<close>

datatype f64 = F_NaN | F_Inf (f_neg: bool) | Fin (f_val: rat)

definition f_is_finite :: "f64 \<Rightarrow> bool" where
  "f_is_finite x \<longleftrightarrow> (case x of Fin _ \<Rightarrow> True | _ \<Rightarrow> False)"

fun f_le :: "f64 \<Rightarrow> f64 \<Rightarrow> bool" where
  "f_le F_NaN _ = False"
| "f_le _ F_NaN = False"
| "f_le (F_Inf True) _ = True"
| "f_le (F_Inf False) y = (y = F_Inf False)"
| "f_le (Fin _) (F_Inf n) = (\<not> n)"
| "f_le (Fin a) (Fin b) = (a \<le> b)"

definition f_lt :: "f64 \<Rightarrow> f64 \<Rightarrow> bool" where
  "f_lt x y \<longleftrightarrow> f_le x y \<and> \<not> f_le y x"

text \<open>\<open>(0.0..=1.0).contains(&value)\<close>.\<close>

definition f_in_unit :: "f64 \<Rightarrow> bool" where
  "f_in_unit x \<longleftrightarrow> f_le (Fin 0) x \<and> f_le x (Fin 1)"

lemma f_in_unit_iff: "f_in_unit x \<longleftrightarrow> (\<exists>q. x = Fin q \<and> 0 \<le> q \<and> q \<le> 1)"
  by (cases x) (auto simp: f_in_unit_def)

lemma f_in_unit_finite: "f_in_unit x \<Longrightarrow> f_is_finite x"
  by (auto simp: f_in_unit_iff f_is_finite_def)

lemma f64_cases:
  obtains "x = F_NaN" | "x = F_Inf True" | "x = F_Inf False" | q where "x = Fin q"
  by (cases x) (metis (full_types))+

lemma f_le_refl_iff [simp]: "f_le x x \<longleftrightarrow> x \<noteq> F_NaN"
  by (cases x rule: f64_cases) auto

lemma f_le_trans: "f_le x y \<Longrightarrow> f_le y z \<Longrightarrow> f_le x z"
  by (cases x rule: f64_cases; cases y rule: f64_cases; cases z rule: f64_cases) auto

lemma f_le_Fin [simp]: "f_le (Fin a) (Fin b) \<longleftrightarrow> a \<le> b"
  by simp

section \<open>Literals of the source\<close>

text \<open>\<open>0.05\<close>, \<open>0.95\<close> (\<open>verify.rs\<close>), \<open>0.70\<close>, \<open>0.20\<close> (\<open>converge.rs\<close>), \<open>0.90\<close> (\<open>planner.rs\<close>).\<close>

definition f64_0_05 :: f64 where "f64_0_05 = Fin (3602879701896397 / 72057594037927936)"
definition f64_0_95 :: f64 where "f64_0_95 = Fin (4278419646001971 / 4503599627370496)"
definition f64_0_70 :: f64 where "f64_0_70 = Fin (3152519739159347 / 4503599627370496)"
definition f64_0_20 :: f64 where "f64_0_20 = Fin (3602879701896397 / 18014398509481984)"
definition f64_0_90 :: f64 where "f64_0_90 = Fin (8106479329266893 / 9007199254740992)"

lemmas f64_literals = f64_0_05_def f64_0_95_def f64_0_70_def f64_0_20_def f64_0_90_def

end
