(* ===== verification/Domain_Graph.thy ===== *)
theory Domain_Graph
  imports Meshloop_Prelude Rust_Float
begin

text \<open>
  \<open>crates/meshloop-domain/src/task_graph.rs\<close> and \<open>policy.rs\<close>: task graphs, their
  structural validation, ready nodes, and the graph mutations of ADR 0028.

  \<open>petgraph\<close> is not part of the repository. \<open>toposort\<close> and the first neighbour of a node
  are parameters (\<open>topo_port\<close>); \<open>topo_spec\<close> states what petgraph documents of them, and
  \<open>ref_toposort\<close> is a function for which that holds.
\<close>

section \<open>Data\<close>

type_synonym task_id = u32

datatype tier = Tier1 | Tier2 | Tier3

datatype acceptance_gate = Human | Verify

record task_node =
  n_id :: task_id
  n_description :: string
  n_depends_on :: "task_id list"
  n_tier :: "tier option"
  n_allowed_paths :: "string list"
  n_empty_diff_ok :: bool
  n_deliverable :: "string option"
  n_gate :: acceptance_gate
  n_risk_q :: "f64 option"
  n_risk_prompt_hash :: "string option"

record task_graph =
  graph_id :: string
  nodes :: "task_node list"

datatype graph_error =
    Cycle "task_id list"
  | DanglingDependency task_id task_id
  | DuplicateId task_id
  | Empty
  | IllegalGraphId string
  | ReservedTaskId task_id
  | IllegalDeliverable task_id string
  | IllegalVerifyGate task_id "tier option"

datatype graph_mutation =
    InsertPrerequisite task_id "task_node list"
  | AppendFollowup task_id "task_node list"

datatype graph_mutation_error =
    TargetNotFound task_id
  | SourceNotFound task_id
  | DuplicateTaskId task_id
  | ReservedNewTaskId task_id
  | EmptyNewTasks
  | Graph graph_error

instantiation tier :: linorder
begin

definition tier_rank :: "tier \<Rightarrow> nat" where
  "tier_rank t = (case t of Tier1 \<Rightarrow> 0 | Tier2 \<Rightarrow> 1 | Tier3 \<Rightarrow> 2)"

definition less_eq_tier :: "tier \<Rightarrow> tier \<Rightarrow> bool" where
  "less_eq_tier a b \<longleftrightarrow> tier_rank a \<le> tier_rank b"

definition less_tier :: "tier \<Rightarrow> tier \<Rightarrow> bool" where
  "less_tier a b \<longleftrightarrow> tier_rank a < tier_rank b"

instance
  by standard (auto simp: less_eq_tier_def less_tier_def tier_rank_def split: tier.splits)

end

definition tier_all :: "tier list" where
  "tier_all = [Tier1, Tier2, Tier3]"

definition tier_name :: "tier \<Rightarrow> string" where
  "tier_name t = (case t of Tier1 \<Rightarrow> ''Tier1'' | Tier2 \<Rightarrow> ''Tier2'' | Tier3 \<Rightarrow> ''Tier3'')"

interpretation tier_codes: stable_code tier_name
proof
  fix x y assume "tier_name x = tier_name y"
  then show "x = y" by (cases x; cases y) (simp_all add: tier_name_def)
qed

section \<open>Structural validation\<close>

definition graph_id_char :: "char \<Rightarrow> bool" where
  "graph_id_char c \<longleftrightarrow>
     is_ascii_alphanumeric c \<or> c = CHR ''.'' \<or> c = CHR ''_'' \<or> c = CHR ''-''"

definition graph_id_is_legal :: "string \<Rightarrow> bool" where
  "graph_id_is_legal s \<longleftrightarrow> s \<noteq> [] \<and> list_all graph_id_char s"

text \<open>The parameter for petgraph: nodes and edges as they were added.\<close>

record topo_port =
  toposort :: "task_id list \<Rightarrow> (task_id \<times> task_id) list \<Rightarrow> task_id + task_id list"
  first_neighbor :: "task_id list \<Rightarrow> (task_id \<times> task_id) list \<Rightarrow> task_id \<Rightarrow> task_id option"

definition verify_gate_illegal :: "task_node \<Rightarrow> bool" where
  "verify_gate_illegal n \<longleftrightarrow>
     n_gate n = Verify \<and> \<not> (n_tier n = Some Tier1 \<or> n_tier n = Some Tier2)"

fun check_nodes :: "task_node list \<Rightarrow> task_id list \<Rightarrow> graph_error option" where
  "check_nodes [] seen = None"
| "check_nodes (n # ns) seen =
     (case (case n_deliverable n of
              Some tag \<Rightarrow> if graph_id_is_legal tag then None
                          else Some (IllegalDeliverable (n_id n) tag)
            | None \<Rightarrow> None) of
        Some e \<Rightarrow> Some e
      | None \<Rightarrow>
          if n_id n = 0 then Some (ReservedTaskId (n_id n))
          else if verify_gate_illegal n then Some (IllegalVerifyGate (n_id n) (n_tier n))
          else if n_id n \<in> set seen then Some (DuplicateId (n_id n))
          else check_nodes ns (n_id n # seen))"

fun first_missing :: "task_id list \<Rightarrow> task_id list \<Rightarrow> task_id option" where
  "first_missing ids [] = None"
| "first_missing ids (d # ds) = (if d \<in> set ids then first_missing ids ds else Some d)"

fun check_deps :: "task_id list \<Rightarrow> task_node list \<Rightarrow> graph_error option" where
  "check_deps ids [] = None"
| "check_deps ids (n # ns) =
     (case first_missing ids (n_depends_on n) of
        Some d \<Rightarrow> Some (DanglingDependency (n_id n) d)
      | None \<Rightarrow> check_deps ids ns)"

definition node_edges :: "task_node \<Rightarrow> (task_id \<times> task_id) list" where
  "node_edges n = map (\<lambda>d. (d, n_id n)) (n_depends_on n)"

definition graph_edges :: "task_graph \<Rightarrow> (task_id \<times> task_id) list" where
  "graph_edges g = concat (map node_edges (nodes g))"

abbreviation node_ids :: "task_graph \<Rightarrow> task_id list" where
  "node_ids g \<equiv> map n_id (nodes g)"

text \<open>
  The walk that turns petgraph's cycle node into a path. \<open>visited\<close> grows in every round,
  so it ends: task ids are 32-bit.
\<close>

function cycle_walk ::
    "(task_id \<Rightarrow> task_id option) \<Rightarrow> task_id \<Rightarrow> task_id \<Rightarrow> task_id list \<Rightarrow> task_id list \<Rightarrow> task_id list"
where
  "cycle_walk nb start cur visited path =
     (if cur \<in> set visited then path
      else (case nb cur of
              None \<Rightarrow> path
            | Some nx \<Rightarrow>
                if nx = start then path @ [nx]
                else cycle_walk nb start nx (cur # visited) (path @ [nx])))"
  by pat_completeness auto
termination
proof (relation "measure (\<lambda>(nb, start, cur, visited, path). card (UNIV - set visited))")
  fix nb :: "task_id \<Rightarrow> task_id option" and start cur nx :: task_id
    and visited path :: "task_id list"
  assume "cur \<notin> set visited"
  then have "UNIV - set (cur # visited) \<subset> UNIV - set visited" by auto
  then have "card (UNIV - set (cur # visited)) < card (UNIV - set visited)"
    by (rule psubset_card_mono [rotated]) simp
  then show "((nb, start, nx, cur # visited, path @ [nx]), (nb, start, cur, visited, path))
      \<in> measure (\<lambda>(nb, start, cur, visited, path). card (UNIV - set visited))"
    by simp
qed simp

declare cycle_walk.simps [simp del]

definition try_topological_order :: "topo_port \<Rightarrow> task_graph \<Rightarrow> graph_error + task_id list" where
  "try_topological_order tp g =
     (if nodes g = [] then Inl Empty
      else if \<not> graph_id_is_legal (graph_id g) then Inl (IllegalGraphId (graph_id g))
      else case check_nodes (nodes g) [] of
        Some e \<Rightarrow> Inl e
      | None \<Rightarrow>
          (case check_deps (node_ids g) (nodes g) of
             Some e \<Rightarrow> Inl e
           | None \<Rightarrow>
               (case toposort tp (node_ids g) (graph_edges g) of
                  Inr order \<Rightarrow> Inr order
                | Inl start \<Rightarrow>
                    Inl (Cycle (cycle_walk (first_neighbor tp (node_ids g) (graph_edges g))
                       start start [] [start])))))"

definition validate :: "topo_port \<Rightarrow> task_graph \<Rightarrow> graph_error + unit" where
  "validate tp g = try_res (try_topological_order tp g) (\<lambda>_. Inr ())"

definition topological_order :: "topo_port \<Rightarrow> task_graph \<Rightarrow> task_id list" where
  "topological_order tp g =
     (case try_topological_order tp g of Inr order \<Rightarrow> order | Inl _ \<Rightarrow> [])"

definition ready_nodes :: "task_graph \<Rightarrow> task_id set \<Rightarrow> task_node list" where
  "ready_nodes g integrated =
     filter (\<lambda>n. list_all (\<lambda>d. d \<in> integrated) (n_depends_on n))
       (filter (\<lambda>n. n_id n \<notin> integrated) (nodes g))"

section \<open>Mutations\<close>

fun check_new_ids :: "task_id list \<Rightarrow> task_id list \<Rightarrow> task_node list \<Rightarrow> graph_mutation_error option" where
  "check_new_ids existing new [] = None"
| "check_new_ids existing new (t # ts) =
     (if n_id t = 0 then Some (ReservedNewTaskId (n_id t))
      else if n_id t \<in> set existing \<or> n_id t \<in> set new then Some (DuplicateTaskId (n_id t))
      else check_new_ids existing (n_id t # new) ts)"

definition terminals :: "task_node list \<Rightarrow> task_id list" where
  "terminals new =
     (let new_ids = map n_id new;
          depended = filter (\<lambda>d. d \<in> set new_ids) (concat (map n_depends_on new))
      in map n_id (filter (\<lambda>t. n_id t \<notin> set depended) new))"

fun push_missing :: "task_id list \<Rightarrow> task_id list \<Rightarrow> task_id list" where
  "push_missing deps [] = deps"
| "push_missing deps (t # ts) =
     push_missing (if t \<in> set deps then deps else deps @ [t]) ts"

text \<open>\<open>nodes.iter_mut().find(..)\<close>: the first node with this id is updated in place.\<close>

fun update_node :: "task_id \<Rightarrow> (task_node \<Rightarrow> task_node) \<Rightarrow> task_node list \<Rightarrow> task_node list" where
  "update_node i f [] = []"
| "update_node i f (n # ns) = (if n_id n = i then f n # ns else n # update_node i f ns)"

definition add_deps :: "task_id list \<Rightarrow> task_node \<Rightarrow> task_node" where
  "add_deps ts n = n\<lparr>n_depends_on := push_missing (n_depends_on n) ts\<rparr>"

definition followup_node :: "task_id list \<Rightarrow> task_id \<Rightarrow> task_node \<Rightarrow> task_node" where
  "followup_node new_ids src t =
     (let has_internal_dep = list_ex (\<lambda>d. d \<in> set new_ids) (n_depends_on t)
      in if \<not> has_internal_dep \<and> src \<notin> set (n_depends_on t)
         then t\<lparr>n_depends_on := n_depends_on t @ [src]\<rparr> else t)"

definition mutation_candidate ::
    "task_graph \<Rightarrow> graph_mutation \<Rightarrow> graph_mutation_error + task_graph" where
  "mutation_candidate g m =
     (case m of
        InsertPrerequisite target new \<Rightarrow>
          if new = [] then Inl EmptyNewTasks
          else if \<not> list_ex (\<lambda>n. n_id n = target) (nodes g) then Inl (TargetNotFound target)
          else (case check_new_ids (node_ids g) [] new of
                  Some e \<Rightarrow> Inl e
                | None \<Rightarrow>
                    Inr (g\<lparr>nodes := update_node target (add_deps (terminals new)) (nodes g) @ new\<rparr>))
      | AppendFollowup src new \<Rightarrow>
          if new = [] then Inl EmptyNewTasks
          else if \<not> list_ex (\<lambda>n. n_id n = src) (nodes g) then Inl (SourceNotFound src)
          else (case check_new_ids (node_ids g) [] new of
                  Some e \<Rightarrow> Inl e
                | None \<Rightarrow>
                    Inr (g\<lparr>nodes := nodes g @ map (followup_node (map n_id new) src) new\<rparr>)))"

text \<open>
  \<open>apply_mutation\<close> works on a clone and stores it only after validation, so an error
  carries no new graph.
\<close>

definition apply_mutation ::
    "topo_port \<Rightarrow> task_graph \<Rightarrow> graph_mutation \<Rightarrow> graph_mutation_error + task_graph" where
  "apply_mutation tp g m =
     try_res (mutation_candidate g m) (\<lambda>candidate.
       case validate tp candidate of
         Inl e \<Rightarrow> Inl (Graph e)
       | Inr _ \<Rightarrow> Inr candidate)"

section \<open>Routing policy\<close>

datatype model_capability_tier = Lightweight | MidTier | TopTier

definition model_rank :: "model_capability_tier \<Rightarrow> nat" where
  "model_rank m = (case m of Lightweight \<Rightarrow> 0 | MidTier \<Rightarrow> 1 | TopTier \<Rightarrow> 2)"

definition coupling_penalty :: "string set \<Rightarrow> string set \<Rightarrow> u32" where
  "coupling_penalty a b = of_nat (card (a \<inter> b))"

definition tier_fits :: "tier \<Rightarrow> model_capability_tier \<Rightarrow> bool" where
  "tier_fits t m =
     (case t of
        Tier1 \<Rightarrow> True
      | Tier2 \<Rightarrow> model_rank m \<ge> model_rank MidTier
      | Tier3 \<Rightarrow> m = TopTier)"

definition requires_human_acceptance :: "tier \<Rightarrow> bool" where
  "requires_human_acceptance t \<longleftrightarrow> t = Tier3"

section \<open>What petgraph documents\<close>

definition before :: "'a list \<Rightarrow> 'a \<Rightarrow> 'a \<Rightarrow> bool" where
  "before xs a b \<longleftrightarrow> (\<exists>i j. i < j \<and> j < length xs \<and> xs ! i = a \<and> xs ! j = b)"

definition edges_within :: "'a list \<Rightarrow> ('a \<times> 'a) list \<Rightarrow> bool" where
  "edges_within ns es \<longleftrightarrow> fst ` set es \<subseteq> set ns \<and> snd ` set es \<subseteq> set ns"

definition topo_result_ok ::
    "'a list \<Rightarrow> ('a \<times> 'a) list \<Rightarrow> 'a + 'a list \<Rightarrow> bool" where
  "topo_result_ok ns es r =
     (case r of
        Inr order \<Rightarrow> distinct order \<and> set order = set ns \<and> (\<forall>(a, b) \<in> set es. before order a b)
      | Inl x \<Rightarrow> (x, x) \<in> (set es)\<^sup>+)"

definition neighbor_ok ::
    "('a \<times> 'a) list \<Rightarrow> 'a \<Rightarrow> 'a option \<Rightarrow> bool" where
  "neighbor_ok es x r =
     (case r of Some y \<Rightarrow> (x, y) \<in> set es | None \<Rightarrow> \<forall>y. (x, y) \<notin> set es)"

definition topo_spec :: "topo_port \<Rightarrow> bool" where
  "topo_spec tp \<longleftrightarrow>
     (\<forall>ns es. distinct ns \<and> edges_within ns es \<longrightarrow>
        topo_result_ok ns es (toposort tp ns es) \<and>
        (\<forall>x. neighbor_ok es x (first_neighbor tp ns es x)))"

lemma before_trans:
  assumes "distinct xs" "before xs a b" "before xs b c"
  shows "before xs a c"
proof -
  obtain i j where ij: "i < j" "j < length xs" "xs ! i = a" "xs ! j = b"
    using assms(2) by (auto simp: before_def)
  obtain k l where kl: "k < l" "l < length xs" "xs ! k = b" "xs ! l = c"
    using assms(3) by (auto simp: before_def)
  have "j = k" using assms(1) ij kl by (auto simp: nth_eq_iff_index_eq)
  then have "i < l" using ij kl by simp
  then show ?thesis using ij kl by (auto simp: before_def)
qed

lemma before_irrefl: "distinct xs \<Longrightarrow> \<not> before xs a a"
  by (auto simp: before_def nth_eq_iff_index_eq)

lemma ordered_acyclic:
  assumes d: "distinct xs" and b: "\<forall>(x, y) \<in> r. before xs x y"
  shows "acyclic r"
proof -
  have "(x, y) \<in> r\<^sup>+ \<Longrightarrow> before xs x y" for x y
    by (induction rule: trancl_induct) (use b in \<open>auto intro: before_trans [OF d]\<close>)
  then show ?thesis using before_irrefl [OF d] by (auto simp: acyclic_def)
qed

lemma before_Cons:
  assumes "b \<in> set xs" shows "before (a # xs) a b"
proof -
  from assms obtain j where "j < length xs" "xs ! j = b" by (auto simp: in_set_conv_nth)
  then show ?thesis unfolding before_def by (intro exI [of _ 0] exI [of _ "Suc j"]) simp
qed

lemma before_tl: "before xs b c \<Longrightarrow> before (a # xs) b c"
  unfolding before_def by (metis Suc_less_eq length_Cons nth_Cons_Suc)

section \<open>Valid graphs\<close>

definition node_ok :: "task_node \<Rightarrow> bool" where
  "node_ok n \<longleftrightarrow>
     (case n_deliverable n of Some tag \<Rightarrow> graph_id_is_legal tag | None \<Rightarrow> True) \<and>
     n_id n \<noteq> 0 \<and> \<not> verify_gate_illegal n"

definition graph_wf :: "task_graph \<Rightarrow> bool" where
  "graph_wf g \<longleftrightarrow>
     nodes g \<noteq> [] \<and> graph_id_is_legal (graph_id g) \<and> distinct (node_ids g) \<and>
     (\<forall>n \<in> set (nodes g). node_ok n \<and> set (n_depends_on n) \<subseteq> set (node_ids g)) \<and>
     acyclic (set (graph_edges g))"

lemma check_nodes_None:
  "check_nodes ns seen = None \<longleftrightarrow>
     distinct (map n_id ns) \<and> set (map n_id ns) \<inter> set seen = {} \<and> (\<forall>n \<in> set ns. node_ok n)"
  by (induction ns arbitrary: seen) (auto simp: node_ok_def split: option.splits)

lemma first_missing_None: "first_missing ids ds = None \<longleftrightarrow> set ds \<subseteq> set ids"
  by (induction ds) auto

lemma check_deps_None:
  "check_deps ids ns = None \<longleftrightarrow> (\<forall>n \<in> set ns. set (n_depends_on n) \<subseteq> set ids)"
  by (induction ns) (auto simp: first_missing_None [symmetric] split: option.splits)

lemma set_graph_edges:
  "set (graph_edges g) = {(d, n_id n) | d n. n \<in> set (nodes g) \<and> d \<in> set (n_depends_on n)}"
  by (auto simp: graph_edges_def node_edges_def)

lemma graph_edgeI:
  "n \<in> set (nodes g) \<Longrightarrow> d \<in> set (n_depends_on n) \<Longrightarrow> (d, n_id n) \<in> set (graph_edges g)"
  by (auto simp: set_graph_edges)

lemma graph_edges_within:
  assumes "\<forall>n \<in> set (nodes g). set (n_depends_on n) \<subseteq> set (node_ids g)"
  shows "edges_within (node_ids g) (graph_edges g)"
  using assms by (force simp: edges_within_def set_graph_edges)

lemma try_topological_order_Inr:
  assumes "topo_spec tp" and "try_topological_order tp g = Inr order"
  shows "graph_wf g \<and> distinct order \<and> set order = set (node_ids g) \<and>
     (\<forall>(a, b) \<in> set (graph_edges g). before order a b)"
proof -
  have ts: "toposort tp (node_ids g) (graph_edges g) = Inr order"
    and ok: "nodes g \<noteq> []" "graph_id_is_legal (graph_id g)" "distinct (node_ids g)"
      "\<forall>n \<in> set (nodes g). node_ok n"
      "\<forall>n \<in> set (nodes g). set (n_depends_on n) \<subseteq> set (node_ids g)"
    using assms(2)
    by (auto simp: try_topological_order_def check_nodes_None check_deps_None
        split: if_splits option.splits sum.splits)
  have "topo_result_ok (node_ids g) (graph_edges g) (Inr order)"
    using assms(1) ok graph_edges_within ts unfolding topo_spec_def by metis
  then have "distinct order \<and> set order = set (node_ids g) \<and>
      (\<forall>(a, b) \<in> set (graph_edges g). before order a b)"
    by (simp add: topo_result_ok_def)
  moreover from this have "acyclic (set (graph_edges g))" by (blast intro: ordered_acyclic)
  ultimately show ?thesis using ok by (simp add: graph_wf_def)
qed

lemma graph_wf_try_topological_order:
  assumes "topo_spec tp" and "graph_wf g"
  shows "\<exists>order. try_topological_order tp g = Inr order"
proof -
  have "edges_within (node_ids g) (graph_edges g)"
    using assms(2) graph_edges_within by (auto simp: graph_wf_def)
  then have "topo_result_ok (node_ids g) (graph_edges g)
      (toposort tp (node_ids g) (graph_edges g))"
    using assms by (auto simp: topo_spec_def graph_wf_def)
  then have "\<exists>order. toposort tp (node_ids g) (graph_edges g) = Inr order"
    using assms(2)
    by (auto simp: topo_result_ok_def graph_wf_def acyclic_def split: sum.splits)
  moreover have "check_nodes (nodes g) [] = None" "check_deps (node_ids g) (nodes g) = None"
    using assms(2) by (auto simp: check_nodes_None check_deps_None graph_wf_def)
  ultimately show ?thesis
    using assms(2) by (auto simp: try_topological_order_def graph_wf_def)
qed

lemma validate_graph_wf: "topo_spec tp \<Longrightarrow> validate tp g = Inr () \<longleftrightarrow> graph_wf g"
  using try_topological_order_Inr graph_wf_try_topological_order
  by (fastforce simp: validate_def try_res_eq_Inr)

lemma wf_graph_edges: "graph_wf g \<Longrightarrow> wf (set (graph_edges g))"
  by (simp add: graph_wf_def finite_acyclic_wf)

lemma wf_graph_edges_converse: "graph_wf g \<Longrightarrow> wf ((set (graph_edges g))\<inverse>)"
  by (simp add: graph_wf_def finite_acyclic_wf_converse)

lemma ready_nodes_iff:
  "n \<in> set (ready_nodes g done) \<longleftrightarrow>
     n \<in> set (nodes g) \<and> n_id n \<notin> done \<and> set (n_depends_on n) \<subseteq> done"
  by (auto simp: ready_nodes_def list_all_iff)

lemma ready_nodes_progress:
  assumes wf: "graph_wf g" and n: "n \<in> set (nodes g)" "n_id n \<notin> done"
  shows "ready_nodes g done \<noteq> []"
proof -
  define Q where "Q = {n_id m | m. m \<in> set (nodes g) \<and> n_id m \<notin> done}"
  have "n_id n \<in> Q" using n by (auto simp: Q_def)
  then obtain z where z: "z \<in> Q" "\<And>y. (y, z) \<in> set (graph_edges g) \<Longrightarrow> y \<notin> Q"
    using wf_graph_edges [OF wf] by (metis wfE_min)
  then obtain m where m: "m \<in> set (nodes g)" "z = n_id m" "n_id m \<notin> done"
    by (auto simp: Q_def)
  have "d \<in> done" if d: "d \<in> set (n_depends_on m)" for d
  proof -
    have "(d, z) \<in> set (graph_edges g)" using d m by (auto intro: graph_edgeI)
    then have "d \<notin> Q" by (rule z(2))
    moreover have "d \<in> set (node_ids g)" using wf m(1) d by (auto simp: graph_wf_def)
    ultimately show ?thesis by (auto simp: Q_def)
  qed
  then have "m \<in> set (ready_nodes g done)" using m by (auto simp: ready_nodes_iff)
  then show ?thesis by auto
qed

section \<open>Graph mutations\<close>

lemma check_new_ids_None:
  "check_new_ids existing seen ts = None \<longleftrightarrow>
     distinct (map n_id ts) \<and> 0 \<notin> set (map n_id ts) \<and>
     set (map n_id ts) \<inter> (set existing \<union> set seen) = {}"
  by (induction ts arbitrary: seen) auto

lemma set_push_missing [simp]: "set (push_missing deps ts) = set deps \<union> set ts"
  by (induction ts arbitrary: deps) auto

lemma n_id_add_deps [simp]: "n_id (add_deps ts n) = n_id n"
  by (simp add: add_deps_def)

lemma map_n_id_update_node:
  "(\<And>n. n_id (f n) = n_id n) \<Longrightarrow> map n_id (update_node i f ns) = map n_id ns"
  by (induction ns) auto

lemma update_node_hit: "i \<in> set (map n_id ns) \<Longrightarrow> \<exists>n \<in> set ns. n_id n = i \<and> f n \<in> set (update_node i f ns)"
  by (induction ns) auto

lemma n_id_followup_node [simp]: "n_id (followup_node ids src t) = n_id t"
  by (simp add: followup_node_def Let_def)

lemma terminals_iff:
  "i \<in> set (terminals new) \<longleftrightarrow>
     i \<in> set (map n_id new) \<and> (\<forall>t \<in> set new. i \<notin> set (n_depends_on t))"
  by (auto simp: terminals_def Let_def)

lemma apply_mutation_Inr:
  "apply_mutation tp g m = Inr g' \<longleftrightarrow>
     mutation_candidate g m = Inr g' \<and> validate tp g' = Inr ()"
proof (cases "mutation_candidate g m")
  case (Inr c)
  then show ?thesis by (cases "validate tp c") (auto simp: apply_mutation_def)
qed (simp add: apply_mutation_def)

lemma apply_mutation_wf:
  "topo_spec tp \<Longrightarrow> apply_mutation tp g m = Inr g' \<Longrightarrow> graph_wf g'"
  by (simp add: apply_mutation_Inr validate_graph_wf)

lemma candidate_insert:
  assumes "mutation_candidate g (InsertPrerequisite target new) = Inr g'"
  shows "nodes g' = update_node target (add_deps (terminals new)) (nodes g) @ new"
    and "target \<in> set (node_ids g)" and "graph_id g' = graph_id g"
  using assms by (auto simp: mutation_candidate_def list_ex_iff split: if_splits option.splits)

lemma candidate_followup:
  assumes "mutation_candidate g (AppendFollowup src new) = Inr g'"
  shows "nodes g' = nodes g @ map (followup_node (map n_id new) src) new"
    and "src \<in> set (node_ids g)" and "graph_id g' = graph_id g"
  using assms by (auto simp: mutation_candidate_def list_ex_iff split: if_splits option.splits)

text \<open>The edges the two mutations add.\<close>

lemma insert_terminal_edge:
  assumes "mutation_candidate g (InsertPrerequisite target new) = Inr g'"
    and "i \<in> set (terminals new)"
  shows "(i, target) \<in> set (graph_edges g')"
proof -
  obtain n where "n_id n = target"
    "add_deps (terminals new) n \<in> set (update_node target (add_deps (terminals new)) (nodes g))"
    using update_node_hit candidate_insert(2) [OF assms(1)] by blast
  then have "add_deps (terminals new) n \<in> set (nodes g')" "n_id (add_deps (terminals new) n) = target"
    using candidate_insert(1) [OF assms(1)] by auto
  then show ?thesis
    using assms(2) graph_edgeI [of "add_deps (terminals new) n" g' i]
    by (simp add: add_deps_def)
qed

lemma insert_reaches_target:
  assumes c: "mutation_candidate g (InsertPrerequisite target new) = Inr g'" and wf: "graph_wf g'"
  shows "t \<in> set new \<Longrightarrow> (n_id t, target) \<in> (set (graph_edges g'))\<^sup>+"
  using wf_graph_edges_converse [OF wf]
proof (induction "n_id t" arbitrary: t rule: wf_induct_rule)
  case less
  show ?case
  proof (cases "n_id t \<in> set (terminals new)")
    case True
    then show ?thesis by (blast intro: insert_terminal_edge [OF c])
  next
    case False
    then obtain u where u: "u \<in> set new" "n_id t \<in> set (n_depends_on u)"
      using less.prems by (auto simp: terminals_iff)
    then have e: "(n_id t, n_id u) \<in> set (graph_edges g')"
      using candidate_insert(1) [OF c] by (auto intro: graph_edgeI)
    moreover have "(n_id u, target) \<in> (set (graph_edges g'))\<^sup>+"
      using less.hyps [of u] e u(1) by simp
    ultimately show ?thesis by (rule trancl_into_trancl2)
  qed
qed

lemma followup_reaches_source:
  assumes c: "mutation_candidate g (AppendFollowup src new) = Inr g'" and wf: "graph_wf g'"
  shows "t \<in> set new \<Longrightarrow> (src, n_id t) \<in> (set (graph_edges g'))\<^sup>+"
  using wf_graph_edges [OF wf]
proof (induction "n_id t" arbitrary: t rule: wf_induct_rule)
  case less
  let ?t = "followup_node (map n_id new) src t"
  have t: "?t \<in> set (nodes g')"
    using less.prems candidate_followup(1) [OF c] by simp
  show ?case
  proof (cases "list_ex (\<lambda>d. d \<in> set (map n_id new)) (n_depends_on t)")
    case True
    then obtain u where u: "u \<in> set new" "n_id u \<in> set (n_depends_on t)"
      by (auto simp: list_ex_iff)
    then have "n_id u \<in> set (n_depends_on ?t)"
      by (simp add: followup_node_def Let_def)
    then have e: "(n_id u, n_id t) \<in> set (graph_edges g')"
      using graph_edgeI [OF t] by simp
    then have "(src, n_id u) \<in> (set (graph_edges g'))\<^sup>+"
      using less.hyps [of u] u(1) by simp
    then show ?thesis using e by (rule trancl_into_trancl)
  next
    case False
    then have "src \<in> set (n_depends_on ?t)" by (simp add: followup_node_def Let_def)
    then show ?thesis using graph_edgeI [OF t] by (force intro: r_into_trancl)
  qed
qed

text \<open>A graph order is linear for reachability.\<close>

lemma order_reachable:
  assumes "distinct order" "\<forall>(a, b) \<in> r. before order a b" "(a, b) \<in> r\<^sup>+"
  shows "before order a b"
  using assms(3) by (induction rule: trancl_induct) (use assms in \<open>auto intro: before_trans\<close>)

section \<open>A concrete topological sort\<close>

text \<open>
  Kahn's algorithm with one round per node, so the node list is also the fuel; it shows that \<open>topo_spec\<close> can hold
  and evaluates the graph functions on concrete graphs.
\<close>

fun kahn :: "'a list \<Rightarrow> ('a \<times> 'a) list \<Rightarrow> 'a list \<Rightarrow> 'a list \<times> 'a list" where
  "kahn [] es ns = ([], ns)"
| "kahn (_ # k) es ns =
     (case filter (\<lambda>n. list_all (\<lambda>(a, b). b = n \<longrightarrow> a \<notin> set ns) es) ns of
        [] \<Rightarrow> ([], ns)
      | x # _ \<Rightarrow> (case kahn k es (removeAll x ns) of (out, rest) \<Rightarrow> (x # out, rest)))"

definition ref_toposort :: "task_id list \<Rightarrow> (task_id \<times> task_id) list \<Rightarrow> task_id + task_id list" where
  "ref_toposort ns es =
     (case kahn ns es ns of
        (out, []) \<Rightarrow> Inr out
      | (_, r # rs) \<Rightarrow>
          (case find (\<lambda>x. (x, x) \<in> (set es)\<^sup>+) (r # rs) of Some x \<Rightarrow> Inl x | None \<Rightarrow> Inl r))"

definition ref_neighbor :: "task_id list \<Rightarrow> (task_id \<times> task_id) list \<Rightarrow> task_id \<Rightarrow> task_id option" where
  "ref_neighbor ns es x = map_option snd (find (\<lambda>e. fst e = x) es)"

definition ref_port :: topo_port where
  "ref_port = \<lparr>toposort = ref_toposort, first_neighbor = ref_neighbor\<rparr>"

lemma kahn_sound:
  "kahn k es ns = (out, rest) \<Longrightarrow> distinct ns \<Longrightarrow>
     distinct out \<and> set out \<inter> set rest = {} \<and> set out \<union> set rest = set ns \<and> distinct rest \<and>
     (\<forall>(a, b) \<in> set es. b \<in> set out \<and> a \<in> set ns \<longrightarrow> before out a b)"
proof (induction k arbitrary: ns out rest)
  case Nil
  then show ?case by auto
next
  case fuel: (Cons f k)
  show ?case
  proof (cases "filter (\<lambda>n. list_all (\<lambda>(a, b). b = n \<longrightarrow> a \<notin> set ns) es) ns")
    case Nil
    then show ?thesis using fuel.prems by auto
  next
    case (Cons x xs)
    then have "x \<in> set (filter (\<lambda>n. list_all (\<lambda>(a, b). b = n \<longrightarrow> a \<notin> set ns) es) ns)" by simp
    then have x: "x \<in> set ns" "\<forall>(a, b) \<in> set es. b = x \<longrightarrow> a \<notin> set ns"
      by (auto simp: list_all_iff)
    obtain out' where k: "kahn k es (removeAll x ns) = (out', rest)" "out = x # out'"
      using fuel.prems(1) Cons by (auto split: prod.splits)
    note IH = fuel.IH [OF k(1) distinct_removeAll [OF fuel.prems(2)]]
    have "before out a b" if "(a, b) \<in> set es" "b \<in> set out" "a \<in> set ns" for a b
    proof -
      have "b \<in> set out'" using that x k(2) by auto
      then show ?thesis
        using that IH k(2) by (cases "a = x") (auto intro: before_Cons before_tl)
    qed
    then show ?thesis using IH x k(2) by auto
  qed
qed

lemma kahn_stuck:
  "kahn k es ns = (out, rest) \<Longrightarrow> length ns \<le> length k \<Longrightarrow> distinct ns \<Longrightarrow> n \<in> set rest \<Longrightarrow>
     \<exists>a \<in> set rest. (a, n) \<in> set es"
proof (induction k arbitrary: ns out rest)
  case Nil
  then show ?case by auto
next
  case fuel: (Cons f k)
  show ?case
  proof (cases "filter (\<lambda>n. list_all (\<lambda>(a, b). b = n \<longrightarrow> a \<notin> set ns) es) ns")
    case Nil
    then show ?thesis using fuel.prems by (fastforce simp: filter_empty_conv list_all_iff)
  next
    case (Cons x xs)
    then have "x \<in> set (filter (\<lambda>n. list_all (\<lambda>(a, b). b = n \<longrightarrow> a \<notin> set ns) es) ns)" by simp
    then have "x \<in> set ns" by simp
    then have "length (removeAll x ns) < length ns" by (rule length_removeAll_less)
    moreover obtain out' where "kahn k es (removeAll x ns) = (out', rest)"
      using fuel.prems(1) Cons by (auto split: prod.splits)
    ultimately show ?thesis
      using fuel.IH [of "removeAll x ns" out' rest] fuel.prems by (simp add: distinct_removeAll)
  qed
qed

lemma stuck_has_cycle:
  assumes "finite A" "A \<noteq> {}" "\<forall>n \<in> A. \<exists>a \<in> A. (a, n) \<in> r"
  shows "\<exists>x \<in> A. (x, x) \<in> r\<^sup>+"
proof (rule ccontr)
  let ?s = "r \<inter> A \<times> A"
  assume "\<not> ?thesis"
  then have "(x, x) \<notin> ?s\<^sup>+" for x
  proof -
    have "?s\<^sup>+ \<subseteq> r\<^sup>+" by (rule trancl_mono_subset) simp
    moreover have "?s\<^sup>+ \<subseteq> A \<times> A" by (rule trancl_subset_Sigma) simp
    ultimately show ?thesis using \<open>\<not> (\<exists>x \<in> A. (x, x) \<in> r\<^sup>+)\<close> by blast
  qed
  moreover have "finite ?s" using assms(1) by simp
  ultimately have "wf ?s" by (simp add: finite_acyclic_wf acyclic_def)
  then obtain z where "z \<in> A" "\<And>y. (y, z) \<in> ?s \<Longrightarrow> y \<notin> A"
    using assms(2) by (metis equals0I wfE_min)
  then show False using assms(3) by blast
qed

lemma ref_port_spec: "topo_spec ref_port"
proof -
  have "topo_result_ok ns es (ref_toposort ns es)"
    if d: "distinct ns" "edges_within ns es" for ns :: "task_id list" and es
  proof (cases "kahn ns es ns")
    case (Pair out rest)
    note snd = kahn_sound [OF Pair d(1)]
    show ?thesis
    proof (cases rest)
      case Nil
      then show ?thesis
        using snd Pair d(2)
        by (fastforce simp: ref_toposort_def topo_result_ok_def edges_within_def)
    next
      case (Cons r rs)
      then have "\<exists>x \<in> set rest. (x, x) \<in> (set es)\<^sup>+"
        using kahn_stuck [OF Pair _ d(1)] by (intro stuck_has_cycle) auto
      then have "find (\<lambda>x. (x, x) \<in> (set es)\<^sup>+) rest \<noteq> None"
        by (auto simp: find_None_iff)
      then obtain x where x: "find (\<lambda>x. (x, x) \<in> (set es)\<^sup>+) rest = Some x" by blast
      then have "(x, x) \<in> (set es)\<^sup>+" by (auto simp: find_Some_iff)
      then show ?thesis
        using Pair Cons x by (simp add: ref_toposort_def topo_result_ok_def del: find.simps)
    qed
  qed
  moreover have "neighbor_ok es x (ref_neighbor ns es x)" for ns es x
    by (induction es) (auto simp: neighbor_ok_def ref_neighbor_def split: option.splits)
  ultimately show ?thesis by (simp add: topo_spec_def ref_port_def)
qed

section \<open>Graph properties\<close>

text \<open>
  C16. Validation is exact: \<open>validate\<close> succeeds on precisely the graphs that are non-empty,
  carry a legal graph id, have distinct non-zero task ids, legal deliverable tags, a verify
  gate only on tier 1 and 2, only dependencies on nodes of the graph, and no cycle.
\<close>

theorem validate_iff_graph_wf:
  assumes "topo_spec tp"
  shows "(validate tp g = Inr ()) = graph_wf g"
  using assms by (rule validate_graph_wf)

definition sample_node :: "task_id \<Rightarrow> task_id list \<Rightarrow> task_node" where
  "sample_node i deps = \<lparr>n_id = i, n_description = ''work'', n_depends_on = deps,
     n_tier = Some Tier2, n_allowed_paths = [''crates/''], n_empty_diff_ok = False,
     n_deliverable = None, n_gate = Human, n_risk_q = None, n_risk_prompt_hash = None\<rparr>"

definition sample_graph :: task_graph where
  "sample_graph = \<lparr>graph_id = ''g-1'',
     nodes = [sample_node 3 [1, 2], sample_node 1 [], sample_node 2 [1]]\<rparr>"

lemmas graph_eval =
  sample_graph_def sample_node_def graph_id_is_legal_def graph_id_char_def ascii_defs
  verify_gate_illegal_def graph_edges_def node_edges_def

lemma sample_graph_order: "try_topological_order ref_port sample_graph = Inr [1, 2, 3]"
  by (simp add: graph_eval try_topological_order_def ref_port_def ref_toposort_def)

theorem validate_iff_graph_wf_witness:
  "validate ref_port sample_graph = Inr () \<and> graph_wf sample_graph"
  using validate_iff_graph_wf [OF ref_port_spec, of sample_graph]
  by (simp add: validate_def sample_graph_order)

lemma sample_graph_wf: "graph_wf sample_graph"
  using try_topological_order_Inr [OF ref_port_spec sample_graph_order] by blast

text \<open>
  C26. The scheduler is never stuck on dependencies: in a valid graph, as long as some task is
  not integrated, some task that is not integrated has all of its dependencies integrated.
\<close>

theorem ready_nodes_nonempty:
  assumes "graph_wf g" and "\<not> set (node_ids g) \<subseteq> integrated"
  shows "\<exists>n. n \<in> set (ready_nodes g integrated) \<and> n_id n \<notin> integrated \<and>
     set (n_depends_on n) \<subseteq> integrated"
proof -
  obtain n where "n \<in> set (nodes g)" "n_id n \<notin> integrated" using assms(2) by auto
  then have "ready_nodes g integrated \<noteq> []" by (rule ready_nodes_progress [OF assms(1)])
  then obtain m where "m \<in> set (ready_nodes g integrated)" using hd_in_set by blast
  then show ?thesis using ready_nodes_iff by blast
qed

theorem ready_nodes_nonempty_witness:
  "\<exists>n. n \<in> set (ready_nodes sample_graph {1}) \<and> n_id n \<notin> {1} \<and> set (n_depends_on n) \<subseteq> {1}"
  by (rule ready_nodes_nonempty [OF sample_graph_wf]) (simp add: sample_graph_def sample_node_def)

text \<open>
  An inserted prerequisite is a prerequisite: after a successful \<open>InsertPrerequisite\<close>
  the graph is valid, keeps every node of the old graph under its id with at least its old
  dependencies, and the target waits, directly or through other new tasks, for every one of
  the new tasks, not only for those nothing else depends on.
\<close>

theorem insert_prerequisite_gates_target:
  assumes "topo_spec tp"
    and "apply_mutation tp g (InsertPrerequisite target new) = Inr g'"
  shows "graph_wf g' \<and> node_ids g' = node_ids g @ map n_id new \<and>
     (\<forall>t. t \<in> set new \<longrightarrow> (n_id t, target) \<in> (set (graph_edges g'))\<^sup>+)"
proof -
  have c: "mutation_candidate g (InsertPrerequisite target new) = Inr g'"
    using assms(2) by (simp add: apply_mutation_Inr)
  have wf: "graph_wf g'" using assms by (rule apply_mutation_wf)
  have "node_ids g' = node_ids g @ map n_id new"
    using candidate_insert(1) [OF c] by (simp add: map_n_id_update_node)
  then show ?thesis using wf insert_reaches_target [OF c wf] by blast
qed

lemma sample_insert_applied:
  "\<exists>g'. apply_mutation ref_port sample_graph
     (InsertPrerequisite 2 [sample_node 4 [], sample_node 5 [4]]) = Inr g'"
  by (simp add: apply_mutation_def mutation_candidate_def terminals_def add_deps_def Let_def
      validate_def try_topological_order_def ref_port_def ref_toposort_def
      graph_eval)

theorem insert_prerequisite_gates_target_witness:
  "\<exists>g'. apply_mutation ref_port sample_graph
       (InsertPrerequisite 2 [sample_node 4 [], sample_node 5 [4]]) = Inr g' \<and>
     graph_wf g' \<and> (4, 2) \<in> (set (graph_edges g'))\<^sup>+"
proof -
  obtain g' where g': "apply_mutation ref_port sample_graph
      (InsertPrerequisite 2 [sample_node 4 [], sample_node 5 [4]]) = Inr g'"
    using sample_insert_applied by blast
  show ?thesis
    using insert_prerequisite_gates_target [OF ref_port_spec g'] g' by (auto simp: sample_node_def)
qed

text \<open>
  A follow-up follows: after a successful \<open>AppendFollowup\<close> the graph is valid, the old
  nodes are unchanged, and every new task waits, directly or through other new tasks, for the
  source task.
\<close>

theorem append_followup_waits_for_source:
  assumes "topo_spec tp"
    and "apply_mutation tp g (AppendFollowup src new) = Inr g'"
  shows "graph_wf g' \<and> (\<exists>added. nodes g' = nodes g @ added \<and> map n_id added = map n_id new) \<and>
     (\<forall>t. t \<in> set new \<longrightarrow> (src, n_id t) \<in> (set (graph_edges g'))\<^sup>+)"
proof -
  have c: "mutation_candidate g (AppendFollowup src new) = Inr g'"
    using assms(2) by (simp add: apply_mutation_Inr)
  have wf: "graph_wf g'" using assms by (rule apply_mutation_wf)
  have "nodes g' = nodes g @ map (followup_node (map n_id new) src) new"
    by (rule candidate_followup(1) [OF c])
  moreover have "map n_id (map (followup_node (map n_id new) src) new) = map n_id new" by simp
  ultimately show ?thesis using wf followup_reaches_source [OF c wf] by blast
qed

lemma sample_followup_applied:
  "\<exists>g'. apply_mutation ref_port sample_graph
     (AppendFollowup 2 [sample_node 4 [], sample_node 5 [4]]) = Inr g'"
  by (simp add: apply_mutation_def mutation_candidate_def followup_node_def Let_def
      validate_def try_topological_order_def ref_port_def ref_toposort_def
      graph_eval)

theorem append_followup_waits_for_source_witness:
  "\<exists>g'. apply_mutation ref_port sample_graph
       (AppendFollowup 2 [sample_node 4 [], sample_node 5 [4]]) = Inr g' \<and>
     graph_wf g' \<and> (2, 5) \<in> (set (graph_edges g'))\<^sup>+"
proof -
  obtain g' where g': "apply_mutation ref_port sample_graph
      (AppendFollowup 2 [sample_node 4 [], sample_node 5 [4]]) = Inr g'"
    using sample_followup_applied by blast
  show ?thesis
    using append_followup_waits_for_source [OF ref_port_spec g'] g' by (auto simp: sample_node_def)
qed

end
