(* ===== verification/Domain_Decision.thy ===== *)
theory Domain_Decision
  imports Domain_Graph
begin

text \<open>
  \<open>crates/meshloop-domain/src/decision.rs\<close>: the values a decision port may return. Each
  newtype has a private field and one checked constructor, and is an instance of the
  \<open>validated\<close> interface.
\<close>

datatype decision_error =
  ConfidenceOutOfRange | EmptyReason | ControlInReason | EmptySelection | NonFiniteScore

datatype confidence = Confidence (confidence_get: f64)

definition confidence_try_new :: "f64 \<Rightarrow> decision_error + confidence" where
  "confidence_try_new value =
     (if f_is_finite value \<and> f_in_unit value then Inr (Confidence value)
      else Inl ConfidenceOutOfRange)"

datatype sanitized_reason = SanitizedReason (reason_str: string)

definition sanitized_reason_try_new :: "string \<Rightarrow> decision_error + sanitized_reason" where
  "sanitized_reason_try_new value =
     (if value = [] then Inl EmptyReason
      else if list_ex is_ascii_control value then Inl ControlInReason
      else Inr (SanitizedReason value))"

datatype choice_id = ChoiceId (choice_str: string)

definition choice_id_try_new :: "string \<Rightarrow> decision_error + choice_id" where
  "choice_id_try_new value =
     (if value = [] then Inl EmptySelection else Inr (ChoiceId value))"

datatype finite_score = FiniteScore (score_get: f64)

definition finite_score_try_new :: "f64 \<Rightarrow> decision_error + finite_score" where
  "finite_score_try_new value =
     (if f_is_finite value then Inr (FiniteScore value) else Inl NonFiniteScore)"

datatype decision_outcome =
    Selected choice_id
  | Boolean bool
  | Score finite_score
  | Abstain sanitized_reason

definition try_selected :: "string \<Rightarrow> decision_error + decision_outcome" where
  "try_selected choice = try_res (choice_id_try_new choice) (\<lambda>c. Inr (Selected c))"

definition try_score :: "f64 \<Rightarrow> decision_error + decision_outcome" where
  "try_score score = try_res (finite_score_try_new score) (\<lambda>s. Inr (Score s))"

definition outcome_abstain :: "sanitized_reason \<Rightarrow> decision_outcome" where
  "outcome_abstain reason = Abstain reason"

datatype risk_floor = RiskFloor (floor_tier: tier)

definition risk_floor_apply :: "risk_floor \<Rightarrow> tier \<Rightarrow> tier" where
  "risk_floor_apply f declared = max declared (floor_tier f)"

interpretation confidences: validated confidence_try_new confidence_get f_in_unit
  by unfold_locales
    (auto simp: confidence_try_new_def f_in_unit_finite split: if_splits)

interpretation reasons: validated sanitized_reason_try_new reason_str
    "\<lambda>s. s \<noteq> [] \<and> \<not> list_ex is_ascii_control s"
  by unfold_locales (auto simp: sanitized_reason_try_new_def split: if_splits)

interpretation choices: validated choice_id_try_new choice_str "\<lambda>s. s \<noteq> []"
  by unfold_locales (auto simp: choice_id_try_new_def split: if_splits)

interpretation scores: validated finite_score_try_new score_get f_is_finite
  by unfold_locales (auto simp: finite_score_try_new_def split: if_splits)

lemma risk_floor_raises: "declared \<le> risk_floor_apply f declared"
  by (simp add: risk_floor_apply_def)

lemma risk_floor_reaches: "floor_tier f \<le> risk_floor_apply f declared"
  by (simp add: risk_floor_apply_def)

end
