(* ===== verification/Domain_Evidence.thy ===== *)
theory Domain_Evidence
  imports Domain_Graph
begin

text \<open>
  \<open>crates/meshloop-domain/src/evidence.rs\<close>: the three evidence kinds of ADR 0007, each
  bound to the candidate revision it validates, and the mechanical half of the gate.
\<close>

type_synonym attempt_id = u32

record candidate_ref =
  cr_task_id :: task_id
  cr_attempt_id :: attempt_id
  cr_revision :: string

record deterministic_evidence =
  de_candidate :: candidate_ref
  de_tool :: string
  de_tool_version :: string
  de_exit_code :: i32
  de_output_redacted :: string

datatype review_verdict = Pass | Fail

record model_review_evidence =
  mr_candidate :: candidate_ref
  mr_harness :: string
  mr_model_ref :: string
  mr_verdict :: review_verdict
  mr_rationale_redacted :: string

record human_acceptance_evidence =
  ha_candidate :: candidate_ref
  ha_accepted_by :: string
  ha_accepted_at :: string

record git_export =
  ge_worktree_path :: string
  ge_branch_ref :: string
  ge_commit_sha :: string
  ge_patch_sha256 :: string

datatype evidence =
    Deterministic deterministic_evidence
  | ModelReview model_review_evidence
  | HumanAcceptance human_acceptance_evidence

fun evidence_candidate :: "evidence \<Rightarrow> candidate_ref" where
  "evidence_candidate (Deterministic e) = de_candidate e"
| "evidence_candidate (ModelReview e) = mr_candidate e"
| "evidence_candidate (HumanAcceptance e) = ha_candidate e"

datatype required_evidence =
  DeterministicOnly | DeterministicAndModelReview | DeterministicAndHumanAcceptance

definition deterministic_row :: "evidence \<Rightarrow> deterministic_evidence option" where
  "deterministic_row e = (case e of Deterministic d \<Rightarrow> Some d | _ \<Rightarrow> None)"

definition all_deterministic_passed :: "evidence list \<Rightarrow> bool" where
  "all_deterministic_passed evs =
     (let rows = List.map_filter deterministic_row evs
      in rows \<noteq> [] \<and> list_all (\<lambda>d. de_exit_code d = 0) rows)"

definition satisfies :: "required_evidence \<Rightarrow> evidence list \<Rightarrow> bool" where
  "satisfies required evs =
     (if \<not> list_ex (\<lambda>e. case e of Deterministic _ \<Rightarrow> True | _ \<Rightarrow> False) evs then False
      else case required of
        DeterministicOnly \<Rightarrow> True
      | DeterministicAndModelReview \<Rightarrow>
          list_ex (\<lambda>e. case e of ModelReview r \<Rightarrow> mr_verdict r = Pass | _ \<Rightarrow> False) evs
      | DeterministicAndHumanAcceptance \<Rightarrow>
          list_ex (\<lambda>e. case e of HumanAcceptance _ \<Rightarrow> True | _ \<Rightarrow> False) evs)"

lemma deterministic_row_Some: "deterministic_row e = Some d \<longleftrightarrow> e = Deterministic d"
  by (cases e) (simp_all add: deterministic_row_def)

lemma deterministic_rows_mem:
  "d \<in> set (List.map_filter deterministic_row evs) \<longleftrightarrow> Deterministic d \<in> set evs"
  by (induction evs)
    (auto simp: List.map_filter_simps deterministic_row_def split: option.splits evidence.splits)

lemma all_deterministic_passed_iff:
  "all_deterministic_passed evs \<longleftrightarrow>
     (\<exists>d. Deterministic d \<in> set evs) \<and> (\<forall>d. Deterministic d \<in> set evs \<longrightarrow> de_exit_code d = 0)"
proof -
  have "List.map_filter deterministic_row evs \<noteq> [] \<longleftrightarrow> (\<exists>d. Deterministic d \<in> set evs)"
    by (metis deterministic_rows_mem empty_iff empty_set list.set_intros(1) neq_Nil_conv)
  then show ?thesis
    by (simp add: all_deterministic_passed_def Let_def list_all_iff Ball_def deterministic_rows_mem)
qed

lemma has_deterministic_iff:
  "list_ex (\<lambda>e. case e of Deterministic _ \<Rightarrow> True | _ \<Rightarrow> False) evs \<longleftrightarrow>
     (\<exists>d. Deterministic d \<in> set evs)"
  by (induction evs) (auto split: evidence.splits)

lemma has_human_iff:
  "list_ex (\<lambda>e. case e of HumanAcceptance _ \<Rightarrow> True | _ \<Rightarrow> False) evs \<longleftrightarrow>
     (\<exists>h. HumanAcceptance h \<in> set evs)"
  by (induction evs) (auto split: evidence.splits)

lemma has_pass_review_iff:
  "list_ex (\<lambda>e. case e of ModelReview r \<Rightarrow> mr_verdict r = Pass | _ \<Rightarrow> False) evs \<longleftrightarrow>
     (\<exists>r. ModelReview r \<in> set evs \<and> mr_verdict r = Pass)"
  by (induction evs) (auto split: evidence.splits)

lemma all_deterministic_passed_satisfies:
  "all_deterministic_passed evs \<Longrightarrow> satisfies DeterministicOnly evs"
  by (simp add: all_deterministic_passed_iff satisfies_def has_deterministic_iff)

lemma satisfies_human_iff:
  "satisfies DeterministicAndHumanAcceptance evs \<longleftrightarrow>
     (\<exists>d. Deterministic d \<in> set evs) \<and> (\<exists>h. HumanAcceptance h \<in> set evs)"
  by (simp add: satisfies_def has_deterministic_iff has_human_iff)

lemma satisfies_mono: "satisfies r evs \<Longrightarrow> set evs \<subseteq> set evs' \<Longrightarrow> satisfies r evs'"
  by (cases r)
    (auto simp: satisfies_def has_deterministic_iff has_human_iff has_pass_review_iff
      split: if_splits)

end
