(* ===== verification/Domain_Capability.thy ===== *)
theory Domain_Capability
  imports Meshloop_Prelude
begin

text \<open>
  \<open>crates/meshloop-domain/src/capability.rs\<close>: harness profiles, the error taxonomy of
  ADR 0003 and the circuit breaker. \<open>SystemTime\<close> is a signed number of nanoseconds,
  \<open>Duration\<close> an unsigned one.
\<close>

type_synonym system_time = int
type_synonym duration = nat

datatype compatibility = Compatible | Degraded | Unsupported

record harness_profile =
  hp_harness :: string
  hp_version :: string
  hp_compatibility :: compatibility
  hp_noninteractive :: bool
  hp_structured_output :: bool
  hp_cancellation :: bool
  hp_reason :: "string option"

definition profile_unsupported :: "string \<Rightarrow> string \<Rightarrow> harness_profile" where
  "profile_unsupported harness reason =
     \<lparr>hp_harness = harness, hp_version = [], hp_compatibility = Unsupported,
      hp_noninteractive = False, hp_structured_output = False, hp_cancellation = False,
      hp_reason = Some reason\<rparr>"

definition is_dispatchable :: "harness_profile \<Rightarrow> bool" where
  "is_dispatchable p \<longleftrightarrow>
     hp_compatibility p \<noteq> Unsupported \<and> hp_noninteractive p \<and> hp_cancellation p"

definition rejection_reason :: "harness_profile \<Rightarrow> string option" where
  "rejection_reason p =
     (if is_dispatchable p then None
      else case hp_reason p of
        Some r \<Rightarrow> Some r
      | None \<Rightarrow>
          Some (if hp_compatibility p = Unsupported then ''unsupported''
                else if \<not> hp_noninteractive p then ''no non-interactive invocation''
                else ''cancellation not supported''))"

datatype harness_error =
    CapacityExhausted (retry_after: duration)
  | HarnessUnsupported
  | Timeout
  | ProcessFault (fault_detail: string)

datatype breaker = Closed | Open | HalfOpen

record quota_state =
  q_state :: breaker
  q_opened_at :: "system_time option"
  q_cooldown :: duration

definition quota_default :: quota_state where
  "quota_default = \<lparr>q_state = Closed, q_opened_at = None, q_cooldown = 0\<rparr>"

definition quota_from_parts :: "breaker \<Rightarrow> system_time option \<Rightarrow> duration \<Rightarrow> quota_state" where
  "quota_from_parts b opened cooldown =
     \<lparr>q_state = b, q_opened_at = opened, q_cooldown = cooldown\<rparr>"

text \<open>\<open>now.duration_since(opened).unwrap_or(Duration::ZERO)\<close>: zero when the clock went back.\<close>

definition duration_since :: "system_time \<Rightarrow> system_time \<Rightarrow> duration" where
  "duration_since now opened = nat (now - opened)"

definition is_available :: "quota_state \<Rightarrow> system_time \<Rightarrow> bool" where
  "is_available q now =
     (case q_state q of
        Closed \<Rightarrow> True
      | HalfOpen \<Rightarrow> True
      | Open \<Rightarrow>
          (case q_opened_at q of
             Some opened \<Rightarrow> duration_since now opened \<ge> q_cooldown q
           | None \<Rightarrow> True))"

definition on_capacity_exhausted :: "quota_state \<Rightarrow> system_time \<Rightarrow> duration \<Rightarrow> quota_state" where
  "on_capacity_exhausted q now after =
     q\<lparr>q_state := Open, q_opened_at := Some now, q_cooldown := after\<rparr>"

definition on_success :: "quota_state \<Rightarrow> quota_state" where
  "on_success q = q\<lparr>q_state := Closed, q_opened_at := None\<rparr>"

definition refresh :: "quota_state \<Rightarrow> system_time \<Rightarrow> quota_state" where
  "refresh q now =
     (if q_state q = Open \<and>
         (case q_opened_at q of
            Some opened \<Rightarrow> duration_since now opened \<ge> q_cooldown q
          | None \<Rightarrow> False)
      then q\<lparr>q_state := HalfOpen\<rparr> else q)"

lemmas breaker_defs =
  is_available_def on_capacity_exhausted_def on_success_def refresh_def duration_since_def
  quota_default_def

lemma dispatchable_iff_no_rejection: "rejection_reason p = None \<longleftrightarrow> is_dispatchable p"
  by (simp add: rejection_reason_def split: option.splits)

lemma unsupported_not_dispatchable: "\<not> is_dispatchable (profile_unsupported h r)"
  by (simp add: is_dispatchable_def profile_unsupported_def)

lemma available_after_success: "is_available (on_success q) now"
  by (simp add: breaker_defs)

lemma exhausted_window:
  "is_available (on_capacity_exhausted q t after) now \<longleftrightarrow> int after \<le> max 0 (now - t)"
  by (auto simp: breaker_defs)

lemma refresh_keeps_availability: "is_available (refresh q now) now = is_available q now"
  by (auto simp: breaker_defs split: breaker.splits option.splits)

lemma refresh_idem: "refresh (refresh q now) now = refresh q now"
  by (simp add: breaker_defs)

text \<open>A breaker that is open and stamped becomes a probe exactly when it is available.\<close>

lemma refresh_probe:
  "q_state q = Open \<Longrightarrow> q_opened_at q = Some t \<Longrightarrow>
     q_state (refresh q now) = (if is_available q now then HalfOpen else Open)"
  by (simp add: breaker_defs)

end
