(* ===== verification/Domain_Digest.thy ===== *)
theory Domain_Digest
  imports Meshloop_Prelude
begin

text \<open>
  \<open>crates/meshloop-domain/src/digest.rs\<close>: FNV-1a and SplitMix64 on 64-bit words, and the
  digests built on hash functions of other crates. SHA-256 (\<open>sha2\<close>) and Rust's
  \<open>DefaultHasher\<close> are parameters.
\<close>

definition FNV_OFFSET :: u64 where "FNV_OFFSET = 0xcbf29ce484222325"
definition FNV_PRIME :: u64 where "FNV_PRIME = 0x100000001b3"

definition fnv_step :: "u64 \<Rightarrow> char \<Rightarrow> u64" where
  "fnv_step h b = (h XOR of_nat (byte_of b)) * FNV_PRIME"

definition fnv1a64 :: "string \<Rightarrow> u64" where
  "fnv1a64 bytes = foldl fnv_step FNV_OFFSET bytes"

definition splitmix64 :: "u64 \<Rightarrow> u64" where
  "splitmix64 state0 =
     (let state = state0 + 0x9e3779b97f4a7c15;
          z = (state XOR drop_bit 30 state) * 0xbf58476d1ce4e5b9;
          z = (z XOR drop_bit 27 z) * 0x94d049bb133111eb
      in z XOR drop_bit 31 z)"

record artifact_digest =
  ad_algo :: string
  ad_digest :: string

definition artifact_digest_new :: "string \<Rightarrow> string \<Rightarrow> artifact_digest" where
  "artifact_digest_new algo digest = \<lparr>ad_algo = algo, ad_digest = digest\<rparr>"

definition artifact_digest_sha256 :: "(string \<Rightarrow> string) \<Rightarrow> string \<Rightarrow> artifact_digest" where
  "artifact_digest_sha256 sha256_hex bytes =
     \<lparr>ad_algo = ''sha256'', ad_digest = sha256_hex bytes\<rparr>"

text \<open>\<open>compute_plan_id\<close>: the 16-digit hexadecimal form of a 64-bit hash of the plan text.\<close>

definition compute_plan_id :: "(string \<Rightarrow> u64) \<Rightarrow> string \<Rightarrow> string" where
  "compute_plan_id default_hash json = hex16 (default_hash json)"

text \<open>
  The multiplier of FNV-1a is odd, so each step is a bijection on the hash for a given byte:
  no step loses state, and two inputs that differ only before a common tail collide only if
  they collide before it.
\<close>

definition FNV_PRIME_INV :: u64 where "FNV_PRIME_INV = 14886173955864302971"

lemma FNV_PRIME_inverse: "FNV_PRIME * FNV_PRIME_INV = 1"
  by (simp add: FNV_PRIME_def FNV_PRIME_INV_def)

lemma fnv_step_inj_hash: "fnv_step h b = fnv_step h' b \<Longrightarrow> h = h'"
proof -
  assume "fnv_step h b = fnv_step h' b"
  then have "(h XOR of_nat (byte_of b)) * (FNV_PRIME * FNV_PRIME_INV) =
      (h' XOR of_nat (byte_of b)) * (FNV_PRIME * FNV_PRIME_INV)"
    by (simp add: fnv_step_def flip: mult.assoc)
  then have "h XOR of_nat (byte_of b) = h' XOR of_nat (byte_of b)"
    by (simp add: FNV_PRIME_inverse)
  then show "h = h'" by (metis bit.xor_left_self xor.commute)
qed

lemma fnv1a64_common_tail: "fnv1a64 (a @ t) = fnv1a64 (b @ t) \<longleftrightarrow> fnv1a64 a = fnv1a64 b"
proof -
  have "foldl fnv_step h t = foldl fnv_step h' t \<Longrightarrow> h = h'" for h h'
    by (induction t arbitrary: h h') (auto dest: fnv_step_inj_hash)
  then show ?thesis by (auto simp: fnv1a64_def)
qed

end
