(* ===== verification/Domain_Role.thy ===== *)
theory Domain_Role
  imports Meshloop_Prelude
begin

text \<open>
  \<open>crates/meshloop-domain/src/role.rs\<close>: prefixed role and command ids (ADR 0017) in their
  three spellings, and the bundled roles and commands.
\<close>

definition PREFIX :: string where "PREFIX = ''meshloop:''"

datatype meshloop_id = MeshloopId (id_str: string)

datatype role_kind = Supervisor | Coordinator | Leaf

datatype spawn_policy = Never | LeavesOnly

record role_definition =
  role_id :: meshloop_id
  role_kind :: role_kind
  role_spawn :: spawn_policy
  role_responsibility :: string
  role_source :: string

datatype id_error = EmptyId | Unprefixed string | UnknownId string

definition id_char :: "char \<Rightarrow> bool" where
  "id_char c \<longleftrightarrow> is_ascii_lowercase c \<or> is_ascii_digit c \<or> c = CHR ''-''"

lemma trim_PREFIX: "starts_with (trim (PREFIX @ x)) PREFIX"
proof -
  have "trim (PREFIX @ x) = PREFIX @ trim_end x"
    using trim_solid_front [of "CHR ''m''" "CHR '':''" "''eshloop''" x]
    by (simp add: PREFIX_def solid_def byte_of_def ascii_ws_def)
  then show ?thesis by simp
qed

text \<open>The recursive calls are on prefixed text, so the recursion has depth one.\<close>

function parse_id :: "string \<Rightarrow> id_error + meshloop_id" where
  "parse_id raw =
     (let trimmed = trim raw in
      if trimmed = [] then Inl EmptyId
      else case strip_prefix trimmed PREFIX of
        Some rest \<Rightarrow>
          if rest = [] \<or> \<not> list_all id_char rest then Inl (UnknownId trimmed)
          else Inr (MeshloopId (PREFIX @ rest))
      | None \<Rightarrow>
          (case strip_prefix trimmed ''meshloop_'' of
             Some rest \<Rightarrow> parse_id (PREFIX @ replace_char CHR ''_'' CHR ''-'' rest)
           | None \<Rightarrow>
               (case strip_prefix trimmed ''meshloop-'' of
                  Some rest \<Rightarrow> parse_id (PREFIX @ rest)
                | None \<Rightarrow> Inl (Unprefixed trimmed))))"
  by pat_completeness auto
termination
  by (relation "measure (\<lambda>raw. if starts_with (trim raw) PREFIX then 0 else 1)")
    (auto simp: trim_PREFIX strip_prefix_None)

declare parse_id.simps [simp del]

definition id_slash :: "meshloop_id \<Rightarrow> string" where
  "id_slash i = ''/'' @ id_str i"

definition mcp_tool :: "meshloop_id \<Rightarrow> string" where
  "mcp_tool i = map (\<lambda>c. if c = CHR '':'' \<or> c = CHR ''-'' then CHR ''_'' else c) (id_str i)"

definition cli_verb :: "meshloop_id \<Rightarrow> string" where
  "cli_verb i = (case strip_prefix (id_str i) PREFIX of Some v \<Rightarrow> v | None \<Rightarrow> id_str i)"

definition bundled_role :: "string \<Rightarrow> role_kind \<Rightarrow> spawn_policy \<Rightarrow> string \<Rightarrow> role_definition" where
  "bundled_role name kind spawn resp =
     \<lparr>role_id = MeshloopId name, role_kind = kind, role_spawn = spawn,
      role_responsibility = resp, role_source = ''bundled''\<rparr>"

definition bundled_roles :: "role_definition list" where
  "bundled_roles =
     [bundled_role ''meshloop:origin'' Supervisor Never
        ''Originating agent session: intent, accept, inspect. Never a worker.'',
      bundled_role ''meshloop:planner'' Coordinator LeavesOnly
        ''Turn origin intent into an executable multi-model graph. Does not implement.'',
      bundled_role ''meshloop:scout'' Leaf Never
        ''Map code and constraints. Report-only.'',
      bundled_role ''meshloop:worker'' Leaf Never
        ''Implement one task node in one worktree. No merge/push/spawn.'',
      bundled_role ''meshloop:reviewer'' Leaf Never
        ''Review parent-pinned evidence. No edits, no spawn.'']"

definition bundled_commands :: "string list" where
  "bundled_commands =
     [''meshloop:plan'', ''meshloop:review-plan'', ''meshloop:run'', ''meshloop:status'',
      ''meshloop:accept'', ''meshloop:resume'', ''meshloop:cancel'', ''meshloop:inspect'',
      ''meshloop:integrate'', ''meshloop:roles'', ''meshloop:doctor'', ''meshloop:orchestrate'',
      ''meshloop:mutate-plan'', ''meshloop:mcp'', ''meshloop:bundle'',
      ''meshloop:ast-skeleton'', ''meshloop:symbol-lookup'']"

definition lookup_role :: "meshloop_id \<Rightarrow> role_definition option" where
  "lookup_role i = find (\<lambda>r. role_id r = i) bundled_roles"

section \<open>Canonical ids\<close>

definition id_canonical :: "string \<Rightarrow> bool" where
  "id_canonical s \<longleftrightarrow> (\<exists>v. s = PREFIX @ v \<and> v \<noteq> [] \<and> list_all id_char v)"

lemma id_char_solid: "id_char c \<Longrightarrow> solid c"
  by (auto simp: id_char_def solid_def byte_of_def ascii_ws_def ascii_defs)

lemma trim_canonical:
  assumes "v \<noteq> []" "list_all id_char v"
  shows "trim (PREFIX @ v) = PREFIX @ v"
proof -
  obtain w c where v: "v = w @ [c]" using assms(1) by (metis rev_exhaust)
  then have "solid c" using assms(2) by (simp add: id_char_solid)
  then show ?thesis
    using trim_solid_ends [of "CHR ''m''" c "''eshloop:'' @ w"] v
    by (simp add: PREFIX_def solid_def byte_of_def ascii_ws_def)
qed

lemma parse_canonical:
  assumes "v \<noteq> []" "list_all id_char v"
  shows "parse_id (PREFIX @ v) = Inr (MeshloopId (PREFIX @ v))"
  using assms by (simp add: parse_id.simps [of "PREFIX @ v"] Let_def trim_canonical)

lemma parse_id_canonical: "parse_id raw = Inr i \<Longrightarrow> id_canonical (id_str i)"
proof (induction raw rule: parse_id.induct)
  case (1 raw)
  then show ?case
    by (subst (asm) (3) parse_id.simps)
      (auto simp: Let_def id_canonical_def split: if_splits option.splits)
qed

lemma parse_canonical_str: "id_canonical s \<Longrightarrow> parse_id s = Inr (MeshloopId s)"
  by (auto simp: id_canonical_def parse_canonical)

lemma parse_id_idem: "parse_id raw = Inr i \<Longrightarrow> parse_id (id_str i) = Inr i"
  by (frule parse_id_canonical) (simp add: parse_canonical_str)

text \<open>Undoing the MCP spelling: canonical ids have no underscore.\<close>

lemma id_char_no_underscore: "id_char c \<Longrightarrow> c \<noteq> CHR ''_'' \<and> c \<noteq> CHR '':''"
  by (auto simp: id_char_def ascii_defs)

lemma mcp_tool_canonical:
  assumes "list_all id_char v"
  shows "mcp_tool (MeshloopId (PREFIX @ v)) = ''meshloop_'' @ replace_char CHR ''-'' CHR ''_'' v"
    and "replace_char CHR ''_'' CHR ''-'' (replace_char CHR ''-'' CHR ''_'' v) = v"
  using assms
  by (induction v)
    (auto simp: mcp_tool_def PREFIX_def replace_char_def dest: id_char_no_underscore)

lemma trim_meshloop:
  assumes "w \<noteq> []" "solid (last w)"
  shows "trim (''meshloop'' @ w) = ''meshloop'' @ w"
proof -
  obtain u c where w: "w = u @ [c]" using assms(1) by (metis rev_exhaust)
  then show ?thesis
    using trim_solid_ends [of "CHR ''m''" c "''eshloop'' @ u"] assms(2)
    by (simp add: solid_def byte_of_def ascii_ws_def)
qed

text \<open>
  One id, one meaning in every surface: whatever spelling an id was read from, reading
  back its stored text or its MCP tool name gives the same id, and its CLI verb is what
  follows the prefix.
\<close>

theorem id_spellings_agree:
  assumes "parse_id raw = Inr i"
  shows "parse_id (id_str i) = Inr i \<and> parse_id (mcp_tool i) = Inr i \<and>
     id_str i = PREFIX @ cli_verb i"
proof -
  obtain v where v: "id_str i = PREFIX @ v" "v \<noteq> []" "list_all id_char v"
    using parse_id_canonical [OF assms] by (auto simp: id_canonical_def)
  then have i: "i = MeshloopId (PREFIX @ v)" by (cases i) simp
  let ?u = "replace_char CHR ''-'' CHR ''_'' v"
  have "id_char (last v)" using v(2,3) by (simp add: list_all_iff)
  then have "solid (last ?u)" "?u \<noteq> []"
    using v(2) id_char_solid [of "last v"]
    by (simp_all add: replace_char_def last_map solid_def byte_of_def ascii_ws_def)
  then have t: "trim (''meshloop_'' @ ?u) = ''meshloop_'' @ ?u"
    using trim_meshloop [of "CHR ''_'' # ?u"] by simp
  have "parse_id (mcp_tool i) = parse_id (PREFIX @ v)"
    unfolding i mcp_tool_canonical(1) [OF v(3)]
    using t mcp_tool_canonical(2) [OF v(3)]
    by (subst parse_id.simps) (simp add: Let_def strip_prefix_def starts_with_def PREFIX_def)
  then show ?thesis using v i by (simp add: parse_canonical cli_verb_def)
qed

theorem id_spellings_agree_witness:
  "parse_id (id_str (MeshloopId ''meshloop:review-plan'')) = Inr (MeshloopId ''meshloop:review-plan'') \<and>
   parse_id (mcp_tool (MeshloopId ''meshloop:review-plan'')) = Inr (MeshloopId ''meshloop:review-plan'') \<and>
   id_str (MeshloopId ''meshloop:review-plan'') =
     PREFIX @ cli_verb (MeshloopId ''meshloop:review-plan'')"
proof (rule id_spellings_agree)
  show "parse_id (PREFIX @ ''review-plan'') = Inr (MeshloopId ''meshloop:review-plan'')"
    by (subst parse_canonical) (simp_all add: id_char_def ascii_defs PREFIX_def)
qed

end
