(* ===== verification/Domain_Diagnostic.thy ===== *)
theory Domain_Diagnostic
  imports Domain_Digest
begin

text \<open>
  \<open>crates/meshloop-domain/src/diagnostic.rs\<close>: the lattice of compiler and test diagnostics
  the repair loop compares, its progress vector and fingerprint, and the parser that reads
  diagnostics from tool output.
\<close>

section \<open>Severities and atoms\<close>

datatype diagnostic_severity = Syntax | Type | Test | Error | Warning

definition severity_rank :: "diagnostic_severity \<Rightarrow> nat" where
  "severity_rank s =
     (case s of Syntax \<Rightarrow> 0 | Type \<Rightarrow> 1 | Test \<Rightarrow> 2 | Error \<Rightarrow> 3 | Warning \<Rightarrow> 4)"

instantiation diagnostic_severity :: linorder
begin

definition less_eq_diagnostic_severity ::
    "diagnostic_severity \<Rightarrow> diagnostic_severity \<Rightarrow> bool" where
  "less_eq_diagnostic_severity a b \<longleftrightarrow> severity_rank a \<le> severity_rank b"

definition less_diagnostic_severity ::
    "diagnostic_severity \<Rightarrow> diagnostic_severity \<Rightarrow> bool" where
  "less_diagnostic_severity a b \<longleftrightarrow> severity_rank a < severity_rank b"

instance
  by standard
    (auto simp: less_eq_diagnostic_severity_def less_diagnostic_severity_def severity_rank_def
      split: diagnostic_severity.splits)

end

definition severity_as_str :: "diagnostic_severity \<Rightarrow> string" where
  "severity_as_str s =
     (case s of Syntax \<Rightarrow> ''syntax'' | Type \<Rightarrow> ''type'' | Test \<Rightarrow> ''test''
      | Error \<Rightarrow> ''error'' | Warning \<Rightarrow> ''warning'')"

interpretation severity_codes: stable_code severity_as_str
proof
  fix x y assume "severity_as_str x = severity_as_str y"
  then show "x = y" by (cases x; cases y) (simp_all add: severity_as_str_def)
qed

datatype diagnostic_atom =
  DiagnosticAtom (da_severity: diagnostic_severity) (da_code: string) (da_path: string)
    (da_template: u64)

text \<open>The derived \<open>Ord\<close>: lexicographic in declaration order.\<close>

definition atom_key :: "diagnostic_atom \<Rightarrow> diagnostic_severity \<times> string \<times> string \<times> u64" where
  "atom_key a = (da_severity a, da_code a, da_path a, da_template a)"

lemma atom_key_inj: "atom_key a = atom_key b \<Longrightarrow> a = b"
  by (cases a; cases b) (simp add: atom_key_def)

instantiation diagnostic_atom :: linorder
begin

definition less_eq_diagnostic_atom :: "diagnostic_atom \<Rightarrow> diagnostic_atom \<Rightarrow> bool" where
  "less_eq_diagnostic_atom a b \<longleftrightarrow> atom_key a \<le> atom_key b"

definition less_diagnostic_atom :: "diagnostic_atom \<Rightarrow> diagnostic_atom \<Rightarrow> bool" where
  "less_diagnostic_atom a b \<longleftrightarrow> atom_key a < atom_key b"

instance
  by standard
    (auto simp: less_eq_diagnostic_atom_def less_diagnostic_atom_def atom_key_inj)

end

section \<open>The lattice\<close>

datatype diagnostic_lattice = DiagnosticLattice (atoms: "diagnostic_atom list")

definition lattice_new :: "diagnostic_atom list \<Rightarrow> diagnostic_lattice" where
  "lattice_new as = DiagnosticLattice (bt_collect as)"

definition lattice_empty :: diagnostic_lattice where
  "lattice_empty = DiagnosticLattice []"

definition lattice_is_empty :: "diagnostic_lattice \<Rightarrow> bool" where
  "lattice_is_empty l \<longleftrightarrow> atoms l = []"

definition lattice_len :: "diagnostic_lattice \<Rightarrow> nat" where
  "lattice_len l = length (atoms l)"

definition lattice_count :: "diagnostic_lattice \<Rightarrow> diagnostic_severity \<Rightarrow> nat" where
  "lattice_count l s = length (filter (\<lambda>a. da_severity a = s) (atoms l))"

definition blocking :: "diagnostic_lattice \<Rightarrow> nat" where
  "blocking l = length (filter (\<lambda>a. da_severity a < Warning) (atoms l))"

datatype progress =
  Progress (p_syntax: u32) (p_type_errors: u32) (p_tests: u32) (p_errors: u32) (p_atoms: u32)

definition progress_key :: "progress \<Rightarrow> u32 \<times> u32 \<times> u32 \<times> u32 \<times> u32" where
  "progress_key p = (p_syntax p, p_type_errors p, p_tests p, p_errors p, p_atoms p)"

lemma progress_key_inj: "progress_key a = progress_key b \<Longrightarrow> a = b"
  by (cases a; cases b) (simp add: progress_key_def)

instantiation progress :: linorder
begin

definition less_eq_progress :: "progress \<Rightarrow> progress \<Rightarrow> bool" where
  "less_eq_progress a b \<longleftrightarrow> progress_key a \<le> progress_key b"

definition less_progress :: "progress \<Rightarrow> progress \<Rightarrow> bool" where
  "less_progress a b \<longleftrightarrow> progress_key a < progress_key b"

instance
  by standard (auto simp: less_eq_progress_def less_progress_def progress_key_inj)

end

text \<open>The counts are cast with \<open>as u32\<close>, which keeps the low 32 bits.\<close>

definition lattice_progress :: "diagnostic_lattice \<Rightarrow> progress" where
  "lattice_progress l =
     Progress (of_nat (lattice_count l Syntax)) (of_nat (lattice_count l Type))
       (of_nat (lattice_count l Test)) (of_nat (lattice_count l Error)) (of_nat (blocking l))"

definition mix :: "u64 \<Rightarrow> u64 \<Rightarrow> u64" where
  "mix acc h = (acc XOR h) * FNV_PRIME"

definition fingerprint_atom :: "u64 \<Rightarrow> diagnostic_atom \<Rightarrow> u64" where
  "fingerprint_atom acc a =
     mix (mix (mix (mix acc (fnv1a64 (severity_as_str (da_severity a))))
       (fnv1a64 (da_code a))) (fnv1a64 (da_path a))) (da_template a)"

definition fingerprint :: "diagnostic_lattice \<Rightarrow> u64" where
  "fingerprint l =
     foldl fingerprint_atom (fnv1a64 ''meshloop.diagnostic.lattice.v1'') (atoms l)"

definition contains_all :: "diagnostic_lattice \<Rightarrow> diagnostic_lattice \<Rightarrow> bool" where
  "contains_all l other \<longleftrightarrow> set (atoms other) \<subseteq> set (atoms l)"

definition introduced_since ::
    "diagnostic_lattice \<Rightarrow> diagnostic_lattice \<Rightarrow> diagnostic_atom list" where
  "introduced_since l baseline = filter (\<lambda>a. a \<notin> set (atoms baseline)) (atoms l)"

datatype lattice_order = Equal | Improves | Regresses

definition compare_lattices ::
    "diagnostic_lattice \<Rightarrow> diagnostic_lattice \<Rightarrow> lattice_order" where
  "compare_lattices previous nxt =
     (if fingerprint previous = fingerprint nxt then Equal
      else if lattice_progress nxt < lattice_progress previous then Improves
      else Regresses)"

definition syntax_regressed :: "diagnostic_lattice \<Rightarrow> diagnostic_lattice \<Rightarrow> bool" where
  "syntax_regressed previous nxt \<longleftrightarrow>
     p_syntax (lattice_progress nxt) > p_syntax (lattice_progress previous)"

section \<open>Message templates\<close>

text \<open>\<open>strip_ansi\<close>: an escape drops the control sequence up to its final letter.\<close>

fun after_letter :: "string \<Rightarrow> string" where
  "after_letter [] = []"
| "after_letter (n # s) = (if is_ascii_alphabetic n then s else after_letter s)"

lemma length_after_letter: "length (after_letter s) \<le> length s"
  by (induction s) auto

function strip_ansi :: "string \<Rightarrow> string" where
  "strip_ansi [] = []"
| "strip_ansi (c # s) =
     (if c = CHR 0x1B then
        (case s of
           b # t \<Rightarrow> if b = CHR ''['' then strip_ansi (after_letter t) else strip_ansi s
         | [] \<Rightarrow> [])
      else c # strip_ansi s)"
  by pat_completeness auto
termination
  by (relation "measure length") (auto simp: le_imp_less_Suc le_SucI length_after_letter)

fun after_tick :: "string \<Rightarrow> string" where
  "after_tick [] = []"
| "after_tick (n # s) = (if n = CHR ''`'' then s else after_tick s)"

lemma length_after_tick: "length (after_tick s) \<le> length s"
  by (induction s) auto

definition out_ends :: "string \<Rightarrow> char \<Rightarrow> bool" where
  "out_ends out c \<longleftrightarrow> out \<noteq> [] \<and> last out = c"

function norm_loop :: "string \<Rightarrow> string \<Rightarrow> string" where
  "norm_loop [] out = out"
| "norm_loop (c # s) out =
     (if c = CHR ''`'' then norm_loop (after_tick s) (out @ ''`_`'')
      else if is_ascii_digit c then
        (if out_ends out CHR ''#'' then norm_loop s out
         else norm_loop (dropWhile is_ascii_digit s) (out @ ''#''))
      else if ws_len (c # s) \<noteq> 0 then
        norm_loop (drop (ws_len (c # s)) (c # s))
          (if out_ends out CHR '' '' then out else out @ '' '')
      else norm_loop s (out @ [ascii_lower c]))"
  by pat_completeness auto
termination
  by (relation "measure (length \<circ> fst)")
    (auto simp: le_imp_less_Suc length_after_tick length_dropWhile_le simp del: ws_len.simps)

declare norm_loop.simps(2) [simp del]

definition normalize_template :: "string \<Rightarrow> string" where
  "normalize_template message = trim (norm_loop (strip_ansi message) [])"

definition template_hash :: "string \<Rightarrow> u64" where
  "template_hash message = fnv1a64 (normalize_template message)"

definition basename :: "string \<Rightarrow> string" where
  "basename path = last (split_on CHR ''/'' (replace_char CHR 0x5C CHR ''/'' path))"

section \<open>Parsing tool output\<close>

definition is_rustc_trailer :: "string \<Rightarrow> bool" where
  "is_rustc_trailer message =
     (let m = to_ascii_lowercase (trim message)
      in str_contains m ''aborting due to'' \<or> str_contains m ''detailed explanations'' \<or>
         str_contains m ''for more information about an error'')"

definition is_syntax_code :: "string \<Rightarrow> bool" where
  "is_syntax_code code \<longleftrightarrow>
     code \<in> set [''E0426'', ''E0428'', ''E0753'', ''E0761'', ''E0110'', ''E0758''] \<or>
     starts_with code ''S''"

definition is_syntax_message :: "string \<Rightarrow> bool" where
  "is_syntax_message message =
     (let m = to_ascii_lowercase message
      in (str_contains m ''expected'' \<and> (str_contains m ''found'' \<or> str_contains m ''one of'')) \<or>
         str_contains m ''unexpected token'' \<or> str_contains m ''invalid syntax'' \<or>
         str_contains m ''unterminated'' \<or> str_contains m ''expected item'' \<or>
         str_contains m ''this file contains an unclosed delimiter'')"

definition syntax_or_error_code :: "diagnostic_severity \<Rightarrow> string" where
  "syntax_or_error_code s = (case s of Syntax \<Rightarrow> ''syntax'' | _ \<Rightarrow> ''error'')"

text \<open>
  \<open>loc.rsplitn(3, ':')\<close> has three parts when there are two colons: the last two pieces and
  all before them.
\<close>

definition path_from_rustc_loc :: "string \<Rightarrow> string" where
  "path_from_rustc_loc loc =
     (let ps = rev (split_on CHR '':'' loc)
      in basename
        (case ps of
           col # line # p # rest \<Rightarrow>
             if list_all is_ascii_digit col \<and> list_all is_ascii_digit line
             then join_with '':'' (rev (p # rest)) else loc
         | _ \<Rightarrow> loc))"

fun first_arrow :: "string list \<Rightarrow> string option" where
  "first_arrow [] = None"
| "first_arrow (line # ls) =
     (case strip_prefix (trim line) ''-->'' of
        Some rest \<Rightarrow> Some (path_from_rustc_loc (trim rest))
      | None \<Rightarrow> first_arrow ls)"

definition find_rustc_path :: "string list \<Rightarrow> nat \<Rightarrow> string option" where
  "find_rustc_path ls i = first_arrow (take 6 (drop i ls))"

definition after_colon :: "string \<Rightarrow> string" where
  "after_colon rest = trim (case strip_prefix rest '':'' of Some r \<Rightarrow> r | None \<Rightarrow> rest)"

definition parse_rustc_head :: "string \<Rightarrow> (diagnostic_severity \<times> string \<times> string) option" where
  "parse_rustc_head line =
     (case strip_prefix line ''error['' of
        Some rest \<Rightarrow>
          (case split_once CHR '']'' rest of
             None \<Rightarrow> None
           | Some (code, rest) \<Rightarrow>
               (let message = after_colon rest;
                    sev = (if is_syntax_code code \<or> is_syntax_message message then Syntax else Type)
                in Some (sev, code, message)))
      | None \<Rightarrow>
     (case strip_prefix line ''error:'' of
        Some rest \<Rightarrow>
          (let message = trim rest in
           if is_rustc_trailer message then None
           else let sev = (if is_syntax_message message then Syntax else Error)
                in Some (sev, syntax_or_error_code sev, message))
      | None \<Rightarrow>
     (case strip_prefix line ''warning['' of
        Some rest \<Rightarrow>
          (case split_once CHR '']'' rest of
             None \<Rightarrow> None
           | Some (code, rest) \<Rightarrow> Some (Warning, code, after_colon rest))
      | None \<Rightarrow>
     (case strip_prefix line ''warning:'' of
        Some rest \<Rightarrow> Some (Warning, ''warning'', trim rest)
      | None \<Rightarrow> None))))"

definition parse_rustc_error :: "string \<Rightarrow> string list \<Rightarrow> nat \<Rightarrow> diagnostic_atom option" where
  "parse_rustc_error line ls i =
     (case parse_rustc_head line of
        None \<Rightarrow> None
      | Some (severity, code, message) \<Rightarrow>
          (let path = (case find_rustc_path ls i of Some p \<Rightarrow> p | None \<Rightarrow> [])
           in Some (DiagnosticAtom severity code path (template_hash message))))"

definition is_ts_code :: "string \<Rightarrow> bool" where
  "is_ts_code t \<longleftrightarrow> starts_with t ''TS'' \<and> length t > 2 \<and> is_ascii_digit (t ! 2)"

definition parse_tsc_error :: "string \<Rightarrow> diagnostic_atom option" where
  "parse_tsc_error line =
     (let lower = to_ascii_lowercase line in
      if \<not> str_contains lower ''error ts'' \<and> \<not> str_contains lower '': error ts'' then None
      else
        let code = trim_end_char CHR '':''
              (case find is_ts_code (split_whitespace line) of Some t \<Rightarrow> t | None \<Rightarrow> ''TS'');
            path = basename (hd (split_on CHR ''('' line));
            pieces = split_str '': '' line;
            message = (if length pieces > 2 then pieces ! 2 else line);
            severity = (if code = ''TS1005'' \<or> is_syntax_message message then Syntax else Type)
        in Some (DiagnosticAtom severity code path (template_hash message)))"

fun first_file_line :: "string list \<Rightarrow> string" where
  "first_file_line [] = []"
| "first_file_line (l # ls) =
     (case strip_prefix (trim l) (''File '' @ [CHR 0x22]) of
        Some rest \<Rightarrow> basename (hd (split_on CHR 0x22 rest))
      | None \<Rightarrow> first_file_line ls)"

definition parse_python_syntax :: "string \<Rightarrow> string list \<Rightarrow> nat \<Rightarrow> diagnostic_atom option" where
  "parse_python_syntax line ls i =
     (if \<not> str_contains line ''SyntaxError'' \<and> \<not> str_contains line ''IndentationError'' then None
      else Some (DiagnosticAtom Syntax ''SyntaxError'' (first_file_line (take 4 (rev (take i ls))))
             (template_hash line)))"

definition parse_go_error :: "string \<Rightarrow> diagnostic_atom option" where
  "parse_go_error line =
     (let trimmed = trim line in
      if \<not> str_contains trimmed ''.go:'' then None
      else case split_once_str '': '' trimmed of
        None \<Rightarrow> None
      | Some (path_part, message) \<Rightarrow>
          (let path = basename (hd (split_on CHR '':'' path_part));
               severity = (if is_syntax_message message then Syntax else Type)
           in Some (DiagnosticAtom severity (if severity = Syntax then ''syntax'' else ''go'') path
                (template_hash message))))"

definition parse_cargo_test_fail :: "string \<Rightarrow> diagnostic_atom option" where
  "parse_cargo_test_fail line =
     (let trimmed = trim line in
      if \<not> (starts_with trimmed ''test '' \<and> ends_with trimmed ''FAILED'') then None
      else case strip_prefix trimmed ''test '' of
        None \<Rightarrow> None
      | Some rest \<Rightarrow>
          (let name = trim (trim_end_char CHR ''.'' (trim (trim_end_str ''FAILED'' rest)))
           in Some (DiagnosticAtom Test ''test'' [] (template_hash name))))"

definition parse_generic_error :: "string \<Rightarrow> diagnostic_atom option" where
  "parse_generic_error line =
     (let lower = to_ascii_lowercase line in
      if \<not> (str_contains lower ''error:'' \<or> str_contains lower ''error '') then None
      else if str_contains lower ''warning'' then None
      else if is_rustc_trailer line then None
      else Some (DiagnosticAtom Error ''error'' [] (template_hash line)))"

definition or_else :: "'a option \<Rightarrow> 'a option \<Rightarrow> 'a option" where
  "or_else a b = (case a of Some x \<Rightarrow> Some x | None \<Rightarrow> b)"

text \<open>One round of the loop of \<open>parse_diagnostics\<close>: every branch moves on to the next line.\<close>

definition parse_line :: "string list \<Rightarrow> nat \<Rightarrow> diagnostic_atom option" where
  "parse_line ls i =
     (let line = trim (ls ! i) in
      if line = [] then None
      else or_else (parse_rustc_error line ls i)
        (or_else (parse_tsc_error line)
        (or_else (parse_python_syntax line ls i)
        (or_else (parse_go_error line)
        (or_else (parse_cargo_test_fail line)
          (parse_generic_error line))))))"

definition parse_diagnostics :: "string \<Rightarrow> diagnostic_lattice" where
  "parse_diagnostics stderr =
     (let ls = str_lines (strip_ansi stderr)
      in DiagnosticLattice
        (foldl (\<lambda>acc i. case parse_line ls i of Some a \<Rightarrow> bt_insert a acc | None \<Rightarrow> acc) []
          [0..<length ls]))"

section \<open>Laws\<close>

abbreviation lattice_invar :: "diagnostic_lattice \<Rightarrow> bool" where
  "lattice_invar l \<equiv> bt_invar (atoms l)"

lemma lattice_new_invar [simp]: "lattice_invar (lattice_new as)"
  by (simp add: lattice_new_def)

lemma parse_diagnostics_invar [simp]: "lattice_invar (parse_diagnostics stderr)"
proof -
  have "bt_invar acc \<Longrightarrow> bt_invar (foldl (\<lambda>acc i. case parse_line ls i of
      Some a \<Rightarrow> bt_insert a acc | None \<Rightarrow> acc) acc is)" for acc ls "is"
    by (induction "is" arbitrary: acc) (auto intro: bt_insert_invar split: option.splits)
  then show ?thesis by (simp add: parse_diagnostics_def Let_def)
qed

lemma parse_diagnostics_atoms:
  "a \<in> set (atoms (parse_diagnostics stderr)) \<longleftrightarrow>
     (\<exists>i < length (str_lines (strip_ansi stderr)).
        parse_line (str_lines (strip_ansi stderr)) i = Some a)"
proof -
  have "set (foldl (\<lambda>acc i. case parse_line ls i of Some a \<Rightarrow> bt_insert a acc | None \<Rightarrow> acc) acc is) =
      set acc \<union> {a. \<exists>i \<in> set is. parse_line ls i = Some a}" for acc ls "is"
    by (induction "is" arbitrary: acc) (auto split: option.splits)
  then show ?thesis by (auto simp: parse_diagnostics_def Let_def)
qed

lemma lattice_ext:
  "lattice_invar a \<Longrightarrow> lattice_invar b \<Longrightarrow> set (atoms a) = set (atoms b) \<Longrightarrow> a = b"
  by (cases a; cases b) (auto dest: bt_invar_ext)

lemma contains_all_antisym:
  "lattice_invar a \<Longrightarrow> lattice_invar b \<Longrightarrow> contains_all a b \<Longrightarrow> contains_all b a \<Longrightarrow> a = b"
  by (rule lattice_ext) (auto simp: contains_all_def)

lemma introduced_since_Nil: "introduced_since l b = [] \<longleftrightarrow> contains_all b l"
  by (auto simp: introduced_since_def contains_all_def filter_empty_conv)

lemma severity_less_Warning: "s < Warning \<longleftrightarrow> s \<noteq> Warning"
  by (cases s) (simp_all add: less_diagnostic_severity_def severity_rank_def)

lemma blocking_0: "blocking l = 0 \<longleftrightarrow> (\<forall>a \<in> set (atoms l). da_severity a = Warning)"
  by (simp add: blocking_def filter_empty_conv severity_less_Warning)

lemma blocking_sum:
  "blocking l = lattice_count l Syntax + lattice_count l Type + lattice_count l Test +
     lattice_count l Error"
proof -
  have "length (filter (\<lambda>a. da_severity a < Warning) as) =
      length (filter (\<lambda>a. da_severity a = Syntax) as) +
      length (filter (\<lambda>a. da_severity a = Type) as) +
      length (filter (\<lambda>a. da_severity a = Test) as) +
      length (filter (\<lambda>a. da_severity a = Error) as)" for as
  proof (induction as)
    case (Cons a as)
    then show ?case by (cases "da_severity a") (simp_all add: severity_less_Warning)
  qed simp
  then show ?thesis by (simp add: blocking_def lattice_count_def)
qed

lemma syntax_regressed_progress:
  "syntax_regressed p n \<Longrightarrow> \<not> lattice_progress n < lattice_progress p"
  by (auto simp: syntax_regressed_def less_progress_def progress_key_def)

section \<open>Locations\<close>

lemma split_on_concat: "split_on d (a @ d # b) = split_on d a @ split_on d b"
proof (induction a)
  case (Cons c a)
  then show ?case using split_on_not_Nil [of d a] by (cases "split_on d a") auto
qed simp

lemma basename_strips_dir:
  assumes "CHR ''/'' \<notin> set f" "CHR 0x5C \<notin> set f" "s = CHR ''/'' \<or> s = CHR 0x5C"
  shows "basename (dir @ s # f) = f"
proof -
  let ?r = "replace_char CHR 0x5C CHR ''/''"
  have f: "?r f = f" using assms(2) by (auto simp: replace_char_def intro!: map_idI)
  have "?r (dir @ s # f) = ?r dir @ CHR ''/'' # f"
    using assms(3) f by (auto simp: replace_char_def)
  then show ?thesis using assms(1) by (simp add: basename_def split_on_concat split_on_plain)
qed

lemma digits_no_colon: "list_all is_ascii_digit l \<Longrightarrow> CHR '':'' \<notin> set l"
  by (auto simp: list_all_iff ascii_defs)

lemma path_from_rustc_loc_location:
  assumes "list_all is_ascii_digit line" "list_all is_ascii_digit col"
  shows "path_from_rustc_loc (p @ '':'' @ line @ '':'' @ col) = basename p"
proof -
  have s: "split_on CHR '':'' (p @ '':'' @ line @ '':'' @ col) = split_on CHR '':'' p @ [line, col]"
    using assms by (simp add: split_on_concat split_on_plain digits_no_colon)
  obtain w ws where w: "rev (split_on CHR '':'' p) = w # ws"
    using split_on_not_Nil [of "CHR '':''" p] by (cases "rev (split_on CHR '':'' p)") auto
  then have "rev (w # ws) = split_on CHR '':'' p" by (metis rev_swap)
  then have "join_with '':'' (rev (w # ws)) = p" by (simp add: join_split_on del: rev.simps)
  then show ?thesis using assms s w by (simp add: path_from_rustc_loc_def Let_def)
qed

text \<open>
  Diagnostics survive a move of the worktree and of the line: from a rustc location the
  atom keeps the file name only, whatever the directory, the separator and the position, so
  the same error found in two worktrees gives one atom.
\<close>

theorem rustc_location_independent:
  assumes "CHR ''/'' \<notin> set f" "CHR 0x5C \<notin> set f" "s = CHR ''/'' \<or> s = CHR 0x5C"
    and "list_all is_ascii_digit line" "list_all is_ascii_digit col"
  shows "path_from_rustc_loc (dir @ s # f @ '':'' @ line @ '':'' @ col) = f"
  using path_from_rustc_loc_location [OF assms(4,5), of "dir @ s # f"]
    basename_strips_dir [OF assms(1-3), of dir] by simp

theorem rustc_location_independent_witness:
  "path_from_rustc_loc (''C:/work/t7/src'' @ CHR 0x5C # ''lib.rs'' @ '':'' @ ''12'' @ '':'' @ ''5'') =
     ''lib.rs''"
  by (rule rustc_location_independent) (simp_all add: ascii_defs)

text \<open>
  The lattice is a set: the fingerprint and the progress vector of collected atoms do not
  depend on the order in which the tool printed them nor on repetitions, and equal lattices
  compare as \<open>Equal\<close>; a comparison never calls a change with more syntax errors an improvement.
\<close>

theorem lattice_is_a_set:
  "(set as = set bs \<longrightarrow> lattice_new as = lattice_new bs) \<and>
   compare_lattices l l = Equal \<and>
   (syntax_regressed p n \<longrightarrow> compare_lattices p n \<noteq> Improves)"
proof (intro conjI impI)
  show "set as = set bs \<Longrightarrow> lattice_new as = lattice_new bs"
    by (intro lattice_ext) (simp_all add: lattice_new_def)
  show "syntax_regressed p n \<Longrightarrow> compare_lattices p n \<noteq> Improves"
    by (simp add: compare_lattices_def syntax_regressed_progress)
qed (simp add: compare_lattices_def)

theorem lattice_is_a_set_witness:
  "lattice_new [DiagnosticAtom Type ''E0308'' ''a.rs'' 1, DiagnosticAtom Syntax ''syntax'' ''b.rs'' 2,
       DiagnosticAtom Type ''E0308'' ''a.rs'' 1] =
     lattice_new [DiagnosticAtom Syntax ''syntax'' ''b.rs'' 2, DiagnosticAtom Type ''E0308'' ''a.rs'' 1] \<and>
   compare_lattices lattice_empty (lattice_new [DiagnosticAtom Syntax ''syntax'' ''b.rs'' 2]) \<noteq> Improves"
proof -
  have r: "syntax_regressed lattice_empty (lattice_new [DiagnosticAtom Syntax ''syntax'' ''b.rs'' 2])"
    by (simp add: syntax_regressed_def lattice_progress_def lattice_count_def lattice_new_def
        lattice_empty_def bt_collect_def)
  show ?thesis
    using lattice_is_a_set [of
        "[DiagnosticAtom Type ''E0308'' ''a.rs'' 1, DiagnosticAtom Syntax ''syntax'' ''b.rs'' 2,
          DiagnosticAtom Type ''E0308'' ''a.rs'' 1]"
        "[DiagnosticAtom Syntax ''syntax'' ''b.rs'' 2, DiagnosticAtom Type ''E0308'' ''a.rs'' 1]"
        lattice_empty lattice_empty "lattice_new [DiagnosticAtom Syntax ''syntax'' ''b.rs'' 2]"] r
    by auto
qed

end
