(* ===== verification/Engine_Converge.thy ===== *)
theory Engine_Converge
  imports Domain_Decision Domain_Diagnostic
begin

text \<open>
  \<open>crates/meshloop-engine/src/converge.rs\<close>: the repair session of one attempt. \<open>decide\<close>
  compares a new diagnostic lattice with the recorded rounds; \<open>observe\<close> records it. The
  micro-repair asks a decision port for two scores and tries one closed edit. The decision
  port, the actuator and the host are parameters that act on a world \<open>'w\<close>.
\<close>

section \<open>Sessions\<close>

record repair_budget =
  max_rounds :: u32

definition default_budget :: repair_budget where
  "default_budget = \<lparr>max_rounds = 3\<rparr>"

datatype stop_reason =
    Converged
  | Oscillation (cycle_at: u32)
  | BudgetExhausted
  | SyntaxRegression
  | Unrecoverable

datatype repair_action =
    AcceptRepair
  | Continue (cont_round: u32) (cont_constraint: string)
  | Rollback (to_round: u32) (to_rev: string) (roll_constraint: string)
  | Stop (stop_reason: stop_reason)

record round_record =
  rr_round :: u32
  rr_fingerprint :: u64
  rr_snapshot_rev :: string
  rr_lattice :: diagnostic_lattice
  rr_diag :: string
  rr_action :: repair_action

record repair_session =
  budget :: repair_budget
  rounds :: "round_record list"

definition session_new :: "repair_budget \<Rightarrow> repair_session" where
  "session_new b = \<lparr>budget = b, rounds = []\<rparr>"

definition round_count :: "repair_session \<Rightarrow> u32" where
  "round_count s = of_nat (length (rounds s))"

definition record_at :: "repair_session \<Rightarrow> u32 \<Rightarrow> round_record option" where
  "record_at s r = find (\<lambda>x. rr_round x = r) (rounds s)"

definition last_action :: "repair_session \<Rightarrow> repair_action option" where
  "last_action s = (if rounds s = [] then None else Some (rr_action (last (rounds s))))"

section \<open>Constraints for the next prompt\<close>

definition atom_line :: "diagnostic_atom \<Rightarrow> string" where
  "atom_line a =
     ''  - '' @ severity_as_str (da_severity a) @ '' '' @ da_code a @ '' '' @ da_path a"

definition remaining_constraint :: "diagnostic_lattice \<Rightarrow> string" where
  "remaining_constraint l =
     join_with [CHR 0x0A]
       (''REMAINING DIAGNOSTICS (fix these, introduce nothing new):'' # map atom_line (atoms l))"

definition negative_constraint :: "diagnostic_lattice \<Rightarrow> diagnostic_lattice \<Rightarrow> string" where
  "negative_constraint baseline nxt =
     (let syntax_lines =
            (if syntax_regressed baseline nxt
             then [''NEGATIVE CONSTRAINT: do not introduce new syntax/parse errors. '' @
                   ''Restore a parseable tree before attempting other fixes.'']
             else []);
          introduced = introduced_since nxt baseline;
          introduced_lines =
            (if introduced = [] then []
             else ''NEGATIVE CONSTRAINT: do not reintroduce:'' # map atom_line introduced);
          lines = syntax_lines @ introduced_lines
      in if lines = [] then remaining_constraint nxt else join_with [CHR 0x0A] lines)"

section \<open>Decisions\<close>

definition decide ::
    "round_record list \<Rightarrow> repair_budget \<Rightarrow> diagnostic_lattice \<Rightarrow> repair_action" where
  "decide history b l =
     (let fp = fingerprint l;
          round = of_nat (length history) :: u32
      in case find (\<lambda>r. rr_fingerprint r = fp) history of
        Some prev \<Rightarrow> Stop (Oscillation (rr_round prev))
      | None \<Rightarrow>
          if blocking l = 0 then AcceptRepair
          else if round + 1 \<ge> max_rounds b then Stop BudgetExhausted
          else if history = [] then Continue 1 (negative_constraint lattice_empty l)
          else
            let previous = last history in
            if syntax_regressed (rr_lattice previous) l
            then Rollback (rr_round previous) (rr_snapshot_rev previous)
                   (negative_constraint (rr_lattice previous) l)
            else case compare_lattices (rr_lattice previous) l of
                Improves \<Rightarrow> Continue (round + 1) (remaining_constraint l)
              | Equal \<Rightarrow> Stop (Oscillation round)
              | Regresses \<Rightarrow>
                  Rollback (rr_round previous) (rr_snapshot_rev previous)
                    (negative_constraint (rr_lattice previous) l))"

definition observe ::
    "repair_session \<Rightarrow> diagnostic_lattice \<Rightarrow> string \<Rightarrow> string \<Rightarrow> repair_action \<times> repair_session" where
  "observe s l snap diag =
     (let action = decide (rounds s) (budget s) l
      in (action,
          s\<lparr>rounds := rounds s @
              [\<lparr>rr_round = of_nat (length (rounds s)), rr_fingerprint = fingerprint l,
                rr_snapshot_rev = snap, rr_lattice = l, rr_diag = diag, rr_action = action\<rparr>]\<rparr>))"

definition show_stop_reason :: "stop_reason \<Rightarrow> string" where
  "show_stop_reason r =
     (case r of
        Converged \<Rightarrow> ''Converged''
      | Oscillation k \<Rightarrow> ''Oscillation { cycle_at: '' @ show_word k @ '' }''
      | BudgetExhausted \<Rightarrow> ''BudgetExhausted''
      | SyntaxRegression \<Rightarrow> ''SyntaxRegression''
      | Unrecoverable \<Rightarrow> ''Unrecoverable'')"

definition action_summary :: "repair_action \<Rightarrow> string" where
  "action_summary a =
     (case a of
        AcceptRepair \<Rightarrow> ''Accept''
      | Continue r _ \<Rightarrow> ''Continue:'' @ show_word r
      | Rollback r to _ \<Rightarrow> ''Rollback:'' @ show_word r @ '':'' @ to
      | Stop reason \<Rightarrow> ''Stop:'' @ show_stop_reason reason)"

definition trajectory_line :: "round_record \<Rightarrow> string" where
  "trajectory_line r =
     (let p = lattice_progress (rr_lattice r)
      in ''round='' @ show_word (rr_round r) @ '' rev='' @ rr_snapshot_rev r @
         '' fingerprint='' @ hex16 (rr_fingerprint r) @
         '' phi='' @ show_nat (blocking (rr_lattice r)) @
         '' syntax='' @ show_word (p_syntax p) @ '' type='' @ show_word (p_type_errors p) @
         '' test='' @ show_word (p_tests p) @
         '' blocking='' @ show_nat (blocking (rr_lattice r)) @
         '' action='' @ action_summary (rr_action r))"

definition trajectory_redacted :: "repair_session \<Rightarrow> string" where
  "trajectory_redacted s =
     join_with [CHR 0x0A]
       ((''repair-session rounds='' @ show_nat (length (rounds s))) #
        map trajectory_line (rounds s))"

section \<open>Micro-repair\<close>

definition ATOM_ALLOWLIST :: "string list" where
  "ATOM_ALLOWLIST = [''E0425'', ''unused_imports'']"

definition MECHANICAL_MIN :: f64 where "MECHANICAL_MIN = f64_0_70"
definition SEMANTIC_MAX :: f64 where "SEMANTIC_MAX = f64_0_20"

definition unit_interval :: "f64 \<Rightarrow> bool" where
  "unit_interval x \<longleftrightarrow> f_is_finite x \<and> f_in_unit x"

definition micro_repair_eligible :: "diagnostic_lattice \<Rightarrow> f64 \<Rightarrow> f64 \<Rightarrow> bool" where
  "micro_repair_eligible l mechanical semantic =
     (if lattice_count l Syntax \<noteq> 0 \<or> blocking l = 0 then False
      else
        let codes_allowed =
          list_all (\<lambda>a. da_code a \<in> set ATOM_ALLOWLIST)
            (filter (\<lambda>a. da_severity a < Warning) (atoms l))
        in codes_allowed \<and> unit_interval mechanical \<and> f_le MECHANICAL_MIN mechanical \<and>
           unit_interval semantic \<and> f_le semantic SEMANTIC_MAX)"

type_synonym ('e, 'w) score_port = "string \<Rightarrow> 'w \<Rightarrow> ('e + decision_outcome) \<times> 'w"

definition unit_score :: "('e, 'w) score_port \<Rightarrow> string \<Rightarrow> 'w \<Rightarrow> f64 option \<times> 'w" where
  "unit_score port subject w =
     (case port subject w of
        (Inl _, w) \<Rightarrow> (None, w)
      | (Inr (Score score), w) \<Rightarrow>
          (map_option confidence_get (res_ok (confidence_try_new (score_get score))), w)
      | (Inr _, w) \<Rightarrow> (None, w))"

definition repair_probabilities ::
    "('e, 'w) score_port \<Rightarrow> string \<Rightarrow> 'w \<Rightarrow> (f64 \<times> f64) option \<times> 'w" where
  "repair_probabilities port description w =
     (case unit_score port (''mechanical'' @ [CHR 0x0A] @ description) w of
        (mechanical, w) \<Rightarrow>
          (case unit_score port (''semantic'' @ [CHR 0x0A] @ description) w of
             (semantic, w) \<Rightarrow>
               ((case (mechanical, semantic) of
                   (Some m, Some s) \<Rightarrow> Some (m, s)
                 | _ \<Rightarrow> None), w)))"

datatype micro_repair_report =
    Improved repair_action diagnostic_lattice string string
  | Heavy
  | Abort

datatype micro_repair_host = Rerun | ResetTo string

datatype micro_repair_reply =
    Reran diagnostic_lattice string string
  | Unavailable
  | ResetDone
  | ResetFailed

definition micro_observation ::
    "repair_session \<Rightarrow> diagnostic_lattice \<Rightarrow> diagnostic_lattice \<Rightarrow> string \<Rightarrow> string \<Rightarrow>
       repair_action \<times> repair_session" where
  "micro_observation s before_l after_l snap diag = observe s after_l snap diag"

definition reset_micro_edit ::
    "(micro_repair_host \<Rightarrow> 'w \<Rightarrow> micro_repair_reply \<times> 'w) \<Rightarrow> string \<Rightarrow> 'w \<Rightarrow>
       micro_repair_report \<times> 'w" where
  "reset_micro_edit host prior w =
     (case host (ResetTo prior) w of
        (ResetFailed, w) \<Rightarrow> (Abort, w)
      | (_, w) \<Rightarrow> (Heavy, w))"

definition consider_micro_repair ::
    "repair_session \<Rightarrow> diagnostic_lattice \<Rightarrow> string \<Rightarrow> string \<Rightarrow> ('e, 'w) score_port \<Rightarrow>
     (diagnostic_lattice \<Rightarrow> 'w \<Rightarrow> bool \<times> 'w) \<Rightarrow>
     (micro_repair_host \<Rightarrow> 'w \<Rightarrow> micro_repair_reply \<times> 'w) \<Rightarrow> 'w \<Rightarrow>
       micro_repair_report \<times> repair_session \<times> 'w" where
  "consider_micro_repair s before_l prior description port actuator host w =
     (case repair_probabilities port description w of
        (None, w) \<Rightarrow> (Heavy, s, w)
      | (Some (mechanical, semantic), w) \<Rightarrow>
          if \<not> micro_repair_eligible before_l mechanical semantic then (Heavy, s, w)
          else case actuator before_l w of
            (False, w) \<Rightarrow> (Heavy, s, w)
          | (True, w) \<Rightarrow>
              (case host Rerun w of
                 (Reran after_l after_rev after_diag, w) \<Rightarrow>
                   (case micro_observation s before_l after_l after_rev after_diag of
                      (action, s) \<Rightarrow>
                        if compare_lattices before_l after_l = Improves
                        then (Improved action after_l after_diag after_rev, s, w)
                        else case reset_micro_edit host prior w of (r, w) \<Rightarrow> (r, s, w))
               | (_, w) \<Rightarrow> (case reset_micro_edit host prior w of (r, w) \<Rightarrow> (r, s, w))))"

section \<open>Laws of a decision\<close>

lemma decide_cases:
  obtains
    (oscillation) prev where "prev \<in> set history" "rr_fingerprint prev = fingerprint l"
      "fingerprint l \<in> rr_fingerprint ` set history"
      "decide history b l = Stop (Oscillation (rr_round prev))"
  | (accept) "fingerprint l \<notin> rr_fingerprint ` set history" "blocking l = 0"
      "decide history b l = AcceptRepair"
  | (exhausted) "fingerprint l \<notin> rr_fingerprint ` set history" "blocking l \<noteq> 0" "max_rounds b \<le> of_nat (length history) + 1"
      "decide history b l = Stop BudgetExhausted"
  | (first) "history = []" "blocking l \<noteq> 0" "of_nat (length history) + 1 < max_rounds b"
      "decide history b l = Continue 1 (negative_constraint lattice_empty l)"
  | (regressed) "history \<noteq> []" "fingerprint l \<notin> rr_fingerprint ` set history" "blocking l \<noteq> 0" "of_nat (length history) + 1 < max_rounds b"
      "\<not> lattice_progress l < lattice_progress (rr_lattice (last history))"
      "decide history b l =
         Rollback (rr_round (last history)) (rr_snapshot_rev (last history))
           (negative_constraint (rr_lattice (last history)) l)"
  | (improved) "history \<noteq> []" "blocking l \<noteq> 0" "of_nat (length history) + 1 < max_rounds b"
      "fingerprint l \<notin> rr_fingerprint ` set history"
      "lattice_progress l < lattice_progress (rr_lattice (last history))"
      "decide history b l =
         Continue (of_nat (length history) + 1) (remaining_constraint l)"
  | (equal) "history \<noteq> []" "blocking l \<noteq> 0"
      "fingerprint l = fingerprint (rr_lattice (last history))"
      "decide history b l = Stop (Oscillation (of_nat (length history)))"
proof (cases "find (\<lambda>r. rr_fingerprint r = fingerprint l) history")
  case (Some prev)
  then have "prev \<in> set history" "rr_fingerprint prev = fingerprint l"
    by (auto simp: find_Some_iff)
  then show ?thesis using Some oscillation [of prev] by (simp add: decide_def rev_image_eqI)
next
  case None
  then have new: "fingerprint l \<notin> rr_fingerprint ` set history"
    by (auto simp: find_None_iff)
  show ?thesis
  proof (cases "blocking l = 0 \<or> max_rounds b \<le> of_nat (length history) + 1 \<or> history = []")
    case True
    then show ?thesis
      using None new accept exhausted first
      by (cases "blocking l = 0"; cases "max_rounds b \<le> of_nat (length history) + 1")
        (auto simp: decide_def Let_def not_le)
  next
    case False
    show ?thesis
    proof (cases "syntax_regressed (rr_lattice (last history)) l")
      case True
      then show ?thesis
        using None False new regressed
        by (simp add: decide_def Let_def syntax_regressed_progress not_le)
    next
      case no: False
      then show ?thesis
        using None False new regressed improved equal
        by (cases "compare_lattices (rr_lattice (last history)) l")
          (auto simp: decide_def Let_def compare_lattices_def not_le split: if_splits)
    qed
  qed
qed

definition final_action :: "repair_action \<Rightarrow> bool" where
  "final_action a = (case a of AcceptRepair \<Rightarrow> True | Stop _ \<Rightarrow> True | _ \<Rightarrow> False)"

lemma decide_open_budget:
  "\<not> final_action (decide history b l) \<Longrightarrow> of_nat (length history) + 1 < max_rounds b"
  by (rule decide_cases [of history l b]) (auto simp: final_action_def)

lemma decide_accept_iff:
  "decide history b l = AcceptRepair \<longleftrightarrow>
     fingerprint l \<notin> rr_fingerprint ` set history \<and> blocking l = 0"
  by (rule decide_cases [of history l b]) auto

lemma decide_continue_progress:
  "decide history b l = Continue r c \<Longrightarrow> history \<noteq> [] \<Longrightarrow>
     lattice_progress l < lattice_progress (rr_lattice (last history)) \<and>
     fingerprint l \<notin> rr_fingerprint ` set history"
  by (rule decide_cases [of history l b]) auto

lemma decide_rollback_target:
  "decide history b l = Rollback r to c \<Longrightarrow>
     history \<noteq> [] \<and> r = rr_round (last history) \<and> to = rr_snapshot_rev (last history)"
  by (rule decide_cases [of history l b]) auto

section \<open>Sessions as sequences of observations\<close>

definition session_wf :: "repair_session \<Rightarrow> bool" where
  "session_wf s \<longleftrightarrow>
     (\<forall>i < length (rounds s). let r = rounds s ! i in
        rr_round r = of_nat i \<and> rr_fingerprint r = fingerprint (rr_lattice r) \<and>
        rr_action r = decide (take i (rounds s)) (budget s) (rr_lattice r))"

lemma session_wf_new: "session_wf (session_new b)"
  by (simp add: session_wf_def session_new_def)

lemma session_wf_observe:
  "session_wf s \<Longrightarrow> observe s l snap diag = (a, s') \<Longrightarrow> session_wf s'"
  by (auto simp: session_wf_def observe_def Let_def nth_append less_Suc_eq)

lemma observe_rounds:
  assumes "observe s l snap diag = (a, s')"
  shows "budget s' = budget s" "a = decide (rounds s) (budget s) l"
    "\<exists>r. rounds s' = rounds s @ [r] \<and> rr_action r = a \<and> rr_lattice r = l \<and> rr_snapshot_rev r = snap"
  using assms by (auto simp: observe_def Let_def)

text \<open>The repair loop as the run loop drives it: observations until a final action.\<close>

fun drive :: "repair_session \<Rightarrow> (diagnostic_lattice \<times> string \<times> string) list \<Rightarrow> repair_session" where
  "drive s [] = s"
| "drive s ((l, snap, diag) # obs) =
     (case observe s l snap diag of (a, s') \<Rightarrow> if final_action a then s' else drive s' obs)"

lemma decide_open_length:
  assumes "\<not> final_action (decide history b l)"
    and "length history < unat (max_rounds b) \<or> history = []"
  shows "Suc (length history) < unat (max_rounds b)"
proof -
  let ?n = "length history"
  have "unat (max_rounds b) < 2 ^ 32" using unsigned_less [of "max_rounds b"] by simp
  then have "Suc ?n < 2 ^ 32" using assms(2) by auto
  then have "unat (of_nat (Suc ?n) :: u32) = Suc ?n"
    by (simp add: unsigned_of_nat take_bit_nat_eq_self del: of_nat_Suc)
  then show ?thesis
    using decide_open_budget [OF assms(1)] by (simp add: word_less_nat_alt add.commute)
qed

lemma drive_length:
  "length (rounds s) < unat (max_rounds (budget s)) \<or> rounds s = [] \<Longrightarrow>
     length (rounds (drive s obs)) \<le> max 1 (unat (max_rounds (budget s)))"
proof (induction s obs rule: drive.induct)
  case (2 s l snap diag obs)
  obtain a s' where o: "observe s l snap diag = (a, s')" by (cases "observe s l snap diag")
  note r = observe_rounds [OF o]
  have len: "length (rounds s') = Suc (length (rounds s))" using r(3) by auto
  show ?case
  proof (cases "final_action a")
    case True
    then show ?thesis using o len 2 by auto
  next
    case False
    then have "Suc (length (rounds s)) < unat (max_rounds (budget s))"
      using 2 r(2) by (intro decide_open_length) auto
    then show ?thesis using 2 o False len r(1) by auto
  qed
qed auto

lemma drive_final:
  "length (rounds s) < unat (max_rounds (budget s)) \<or> rounds s = [] \<Longrightarrow> obs \<noteq> [] \<Longrightarrow>
     unat (max_rounds (budget s)) \<le> length (rounds s) + length obs \<Longrightarrow>
     \<exists>a. last_action (drive s obs) = Some a \<and> final_action a"
proof (induction s obs rule: drive.induct)
  case (2 s l snap diag obs)
  obtain a s' where o: "observe s l snap diag = (a, s')" by (cases "observe s l snap diag")
  note r = observe_rounds [OF o]
  have len: "length (rounds s') = Suc (length (rounds s))" using r(3) by auto
  show ?case
  proof (cases "final_action a")
    case True
    then show ?thesis using o r(3) by (auto simp: last_action_def)
  next
    case False
    then have lt: "Suc (length (rounds s)) < unat (max_rounds (budget s))"
      using 2 r(2) by (intro decide_open_length) auto
    then have "obs \<noteq> []" using 2 by auto
    then show ?thesis using 2 o False len r(1) lt by auto
  qed
qed auto

text \<open>
  C19. The repair loop ends: however the observations turn out, a session records at most
  \<open>max_rounds\<close> rounds (one when the budget is 0), and as soon as that many observations are
  offered its last action is final (\<open>Accept\<close> or \<open>Stop\<close>).
\<close>

theorem repair_session_bounded:
  "length (rounds (drive (session_new b) obs)) \<le> max 1 (unat (max_rounds b)) \<and>
   (obs \<noteq> [] \<and> unat (max_rounds b) \<le> length obs \<longrightarrow>
      (\<exists>a. last_action (drive (session_new b) obs) = Some a \<and> final_action a))"
  using drive_length [of "session_new b" obs] drive_final [of "session_new b" obs]
  by (auto simp: session_new_def)

definition sample_lattice :: "u64 \<Rightarrow> diagnostic_lattice" where
  "sample_lattice t = lattice_new [DiagnosticAtom Type ''E0308'' ''a.rs'' t]"

theorem repair_session_bounded_witness:
  "\<exists>a. last_action (drive (session_new default_budget)
     [(sample_lattice 1, ''r0'', []), (sample_lattice 2, ''r1'', []), (sample_lattice 3, ''r2'', [])])
       = Some a \<and> final_action a"
  using repair_session_bounded [of default_budget
      "[(sample_lattice 1, ''r0'', []), (sample_lattice 2, ''r1'', []), (sample_lattice 3, ''r2'', [])]"]
  by (simp add: default_budget_def)

text \<open>
  What each decision of the repair loop is allowed to be, in any session: \<open>Accept\<close> exactly
  when nothing blocks and the lattice is new; \<open>Continue\<close> after a round only when the progress
  vector strictly decreases from the last recorded round and the lattice is new; \<open>Rollback\<close>
  only when it does not decrease, and to the revision of the last recorded round; a lattice whose
  fingerprint was seen before always stops the loop.
\<close>

theorem repair_decision_sound:
  "(decide history b l = AcceptRepair) =
      (fingerprint l \<notin> rr_fingerprint ` set history \<and> blocking l = 0) \<and>
   (decide history b l = Continue r c \<and> history \<noteq> [] \<longrightarrow>
      lattice_progress l < lattice_progress (rr_lattice (last history)) \<and>
      fingerprint l \<notin> rr_fingerprint ` set history) \<and>
   (decide history b l = Rollback r to c \<longrightarrow>
      history \<noteq> [] \<and> to = rr_snapshot_rev (last history) \<and>
      \<not> lattice_progress l < lattice_progress (rr_lattice (last history))) \<and>
   (fingerprint l \<in> rr_fingerprint ` set history \<longrightarrow>
      (\<exists>k. decide history b l = Stop (Oscillation k)))"
  by (rule decide_cases [of history l b]) auto

definition sample_round :: "u32 \<Rightarrow> string \<Rightarrow> diagnostic_lattice \<Rightarrow> round_record" where
  "sample_round i snap l = \<lparr>rr_round = i, rr_fingerprint = fingerprint l, rr_snapshot_rev = snap,
     rr_lattice = l, rr_diag = [], rr_action = Continue 1 []\<rparr>"

lemmas lattice_eval =
  lattice_new_def bt_collect_def lattice_progress_def lattice_count_def blocking_def
  less_progress_def progress_key_def less_diagnostic_severity_def severity_rank_def

theorem repair_decision_sound_witness:
  "\<exists>k. decide [sample_round 0 ''r0'' (sample_lattice 7)] default_budget (sample_lattice 7) =
     Stop (Oscillation k)"
  using repair_decision_sound
    [of "[sample_round 0 ''r0'' (sample_lattice 7)]" default_budget "sample_lattice 7" 0 "[]" "[]"]
  by (simp add: sample_round_def)

section \<open>Micro-repair\<close>

lemma unit_score_in_unit: "unit_score port subj w = (Some x, w') \<Longrightarrow> f_in_unit x"
  by (auto simp: unit_score_def confidence_try_new_def split: sum.splits prod.splits
      decision_outcome.splits if_splits)

text \<open>
  A micro-repair keeps an edit only when it helps, and only on mechanical errors: an
  \<open>Improved\<close> report means that the lattice before had no syntax error, only allow-listed
  blocking codes, that the check was rerun after the edit and that the result improves on it.
  When the edit was applied and is not kept, the host was asked, as its last call, to reset to
  the prior revision; \<open>Abort\<close> says that this reset failed.
\<close>

theorem micro_repair_keeps_only_improvements:
  assumes "consider_micro_repair s before_l prior descr port actuator host w = (report, s', w')"
  shows "(\<forall>act after_l diag after_rev. report = Improved act after_l diag after_rev \<longrightarrow>
       lattice_count before_l Syntax = 0 \<and>
       (\<forall>a. a \<in> set (atoms before_l) \<and> da_severity a < Warning \<longrightarrow> da_code a \<in> set ATOM_ALLOWLIST) \<and>
       compare_lattices before_l after_l = Improves \<and>
       (\<exists>w1. host Rerun w1 = (Reran after_l after_rev diag, w'))) \<and>
     (\<forall>w1 probs w2. repair_probabilities port descr w = (Some probs, w1) \<and>
        micro_repair_eligible before_l (fst probs) (snd probs) \<and> actuator before_l w1 = (True, w2) \<and>
        (report = Heavy \<or> report = Abort) \<longrightarrow>
       (\<exists>w3 reply. host (ResetTo prior) w3 = (reply, w') \<and> (report = Abort) = (reply = ResetFailed)))"
proof (cases "repair_probabilities port descr w")
  case (Pair probs w1)
  show ?thesis
  proof (cases "\<exists>m sem. probs = Some (m, sem) \<and> micro_repair_eligible before_l m sem")
    case False
    then have "report = Heavy" using assms Pair
      by (auto simp: consider_micro_repair_def split: option.splits prod.splits if_splits)
    then show ?thesis using Pair False by auto
  next
    case True
    then obtain m sem where ms: "probs = Some (m, sem)" "micro_repair_eligible before_l m sem"
      by blast
    have el: "lattice_count before_l Syntax = 0"
      "\<And>a. a \<in> set (atoms before_l) \<Longrightarrow> da_severity a < Warning \<Longrightarrow> da_code a \<in> set ATOM_ALLOWLIST"
      using ms(2) by (auto simp: micro_repair_eligible_def list_all_iff Let_def split: if_splits)
    obtain ok w2 where act: "actuator before_l w1 = (ok, w2)" by (cases "actuator before_l w1")
    have reset: "\<exists>w3 reply. host (ResetTo prior) w3 = (reply, w') \<and>
        (r = Abort) = (reply = ResetFailed) \<and> (r = Heavy \<or> r = Abort)"
      if "reset_micro_edit host prior w3 = (r, w')" for w3 r
      using that by (cases "host (ResetTo prior) w3")
        (auto simp: reset_micro_edit_def split: micro_repair_reply.splits)
    obtain reply w3 where rr: "host Rerun w2 = (reply, w3)" by (cases "host Rerun w2")
    show ?thesis
      using assms Pair ms act rr el
      by (auto simp: consider_micro_repair_def split: prod.splits bool.splits
          micro_repair_reply.splits if_splits dest!: reset)
  qed
qed

definition sample_unused :: diagnostic_lattice where
  "sample_unused = lattice_new [DiagnosticAtom Type ''E0425'' ''a.rs'' 1]"

definition sample_scores :: "(unit, unit) score_port" where
  "sample_scores subj w =
     (Inr (Score (FiniteScore (Fin (if starts_with subj ''mech'' then 1 else 0)))), w)"

lemma sample_unused_improves: "compare_lattices sample_unused lattice_empty = Improves"
  by code_simp

lemma sample_micro_run:
  "\<exists>act s'. consider_micro_repair (session_new default_budget) sample_unused ''r0'' ''fix''
     sample_scores (\<lambda>l w. (True, w)) (\<lambda>req w. (Reran lattice_empty ''r1'' [], w)) () =
     (Improved act lattice_empty [] ''r1'', s', ())"
proof -
  have "repair_probabilities sample_scores ''fix'' () = (Some (Fin 1, Fin 0), ())" by code_simp
  moreover have "micro_repair_eligible sample_unused (Fin 1) (Fin 0)" by code_simp
  ultimately show ?thesis
    by (simp add: consider_micro_repair_def sample_unused_improves split: prod.splits)
qed

theorem micro_repair_keeps_only_improvements_witness:
  "lattice_count sample_unused Syntax = 0 \<and> compare_lattices sample_unused lattice_empty = Improves"
proof -
  obtain act s' where run:
    "consider_micro_repair (session_new default_budget) sample_unused ''r0'' ''fix''
       sample_scores (\<lambda>l w. (True, w)) (\<lambda>req w. (Reran lattice_empty ''r1'' [], w)) () =
       (Improved act lattice_empty [] ''r1'', s', ())"
    using sample_micro_run by blast
  show ?thesis using micro_repair_keeps_only_improvements [OF run] by simp
qed

end
