(* ===== verification/Engine_Ports.thy ===== *)
theory Engine_Ports
  imports Domain_State Domain_Decision Domain_Evidence Domain_Capability Domain_Digest
begin

text \<open>
  \<open>crates/meshloop-engine/src/ports.rs\<close>: the records and errors the engine exchanges with
  its ports, the interfaces of the stores as locales, and the in-memory stores and decision
  port of that file.
\<close>

section \<open>Records and errors\<close>

record transition_record =
  tr_graph_id :: string
  tr_task_id :: task_id
  tr_attempt_id :: "attempt_id option"
  tr_from :: task_state
  tr_to :: task_state
  tr_event :: event
  tr_reason :: "string option"
  tr_executor :: string
  tr_occurred_at :: string

record harness_handle =
  hh_attempt_id :: attempt_id
  hh_pid :: "u32 option"
  hh_pane_id :: "string option"

record harness_outcome =
  ho_exit_code :: i32
  ho_output_redacted :: string
  ho_stderr_redacted :: string
  ho_worktree_changed :: bool

datatype store_error =
    ReadOnly
  | SchemaUpgradeRequired
  | LegacyOwnershipUnresolved
  | PlanRevisionMismatch
  | LifecycleBusy
  | StoreIo string
  | Corrupt string

datatype workspace_error =
    CommandFailed (cmd_stderr: string)
  | WorkspaceIo string
  | Conflict
  | Dirty

datatype check_error = CheckIo string | CheckTimeout

record diff_summary =
  ds_base :: string
  ds_head :: string
  ds_files :: "string list"
  ds_stat_redacted :: string

record process_hint =
  ph_pid :: u32
  ph_image_name :: "string option"

datatype live_check = Live | Dead | Ambiguous

record run_row =
  run_graph_id :: string
  run_plan_state :: plan_state
  run_base :: string
  run_integrate_ref :: string
  run_plan_json :: string
  run_plan_id :: string
  run_created_at :: string
  run_review_note :: "string option"

record attempt_row =
  at_attempt_id :: attempt_id
  at_graph_id :: string
  at_task_id :: task_id
  at_harness :: "string option"
  at_model_ref :: "string option"
  at_worktree_path :: "string option"
  at_pid :: "u32 option"
  at_image_name :: "string option"
  at_pane_id :: "string option"
  at_started_at :: "string option"
  at_ended_at :: "string option"
  at_outcome :: "string option"

datatype tier_key = KTier1 | KTier2 | KTier3

definition tier_key_of :: "tier \<Rightarrow> tier_key" where
  "tier_key_of t = (case t of Tier1 \<Rightarrow> KTier1 | Tier2 \<Rightarrow> KTier2 | Tier3 \<Rightarrow> KTier3)"

datatype feedback_key =
  FeedbackKey (fk_harness: string) (fk_model_ref: string) (fk_tier: tier_key)

record feedback_counters =
  fc_success :: u32
  fc_failure :: u32

definition counters_default :: feedback_counters where
  "counters_default = \<lparr>fc_success = 0, fc_failure = 0\<rparr>"

definition count_outcome :: "bool \<Rightarrow> feedback_counters \<Rightarrow> feedback_counters" where
  "count_outcome ok c =
     (if ok then c\<lparr>fc_success := fc_success c + 1\<rparr> else c\<lparr>fc_failure := fc_failure c + 1\<rparr>)"

section \<open>The spend ledger\<close>

record session_spend_ledger =
  remaining :: u64
  ledger_cost :: u64

definition ledger_new :: "u64 \<Rightarrow> u64 \<Rightarrow> session_spend_ledger" where
  "ledger_new b c = \<lparr>remaining = b, ledger_cost = c\<rparr>"

definition try_charge :: "session_spend_ledger \<Rightarrow> bool \<times> session_spend_ledger" where
  "try_charge l =
     (if ledger_cost l = 0 then (True, l)
      else if remaining l < ledger_cost l then (False, l)
      else (True, l\<lparr>remaining := remaining l - ledger_cost l\<rparr>))"

fun charge_times :: "nat \<Rightarrow> session_spend_ledger \<Rightarrow> nat \<times> session_spend_ledger" where
  "charge_times 0 l = (0, l)"
| "charge_times (Suc k) l =
     (case try_charge l of (ok, l') \<Rightarrow>
        (case charge_times k l' of (n, l'') \<Rightarrow> (if ok then Suc n else n, l'')))"

lemma try_charge_unat:
  "try_charge l = (ok, l') \<Longrightarrow>
     ledger_cost l' = ledger_cost l \<and>
     unat (remaining l) = unat (remaining l') + (if ok then unat (ledger_cost l) else 0)"
  by (auto simp: try_charge_def unat_sub not_less word_le_nat_alt split: if_splits)

lemma charge_times_exact:
  "charge_times k l = (n, l') \<Longrightarrow>
     unat (remaining l) = unat (remaining l') + n * unat (ledger_cost l) \<and>
     ledger_cost l' = ledger_cost l \<and> n \<le> k"
proof (induction k arbitrary: n l l')
  case (Suc k)
  obtain ok l1 where c: "try_charge l = (ok, l1)" by (cases "try_charge l")
  obtain m l2 where r: "charge_times k l1 = (m, l2)" by (cases "charge_times k l1")
  show ?case using Suc.prems Suc.IH [OF r] try_charge_unat [OF c] c r by (auto split: if_splits)
qed simp

section \<open>Store interfaces\<close>

text \<open>\<open>RoutingFeedbackStore\<close>: a recorded outcome moves one counter of one key.\<close>

locale feedback_store =
  fixes record_outcome :: "feedback_key \<Rightarrow> bool \<Rightarrow> 's \<Rightarrow> 's"
    and counters :: "'s \<Rightarrow> feedback_key \<Rightarrow> feedback_counters"
  assumes counters_record:
    "counters (record_outcome k ok s) k' =
       (if k' = k then count_outcome ok (counters s k) else counters s k')"
begin

definition record_all :: "(feedback_key \<times> bool) list \<Rightarrow> 's \<Rightarrow> 's" where
  "record_all os s = fold (\<lambda>(k, ok). record_outcome k ok) os s"

lemma counters_record_all:
  "fc_success (counters (record_all os s) k) =
     fc_success (counters s k) + of_nat (length (filter (\<lambda>x. x = (k, True)) os)) \<and>
   fc_failure (counters (record_all os s) k) =
     fc_failure (counters s k) + of_nat (length (filter (\<lambda>x. x = (k, False)) os))"
  by (induction os arbitrary: s)
    (auto simp: record_all_def counters_record count_outcome_def)

lemma counters_record_commute:
  "counters (record_outcome k a (record_outcome k' b s)) =
   counters (record_outcome k' b (record_outcome k a s))"
  by (auto simp: counters_record count_outcome_def fun_eq_iff)

end

text \<open>\<open>EvidenceStore\<close>: a row is found again under its exact candidate, in recording order.\<close>

locale evidence_store =
  fixes record_evidence :: "evidence \<Rightarrow> 's \<Rightarrow> 's"
    and evidence_for :: "'s \<Rightarrow> candidate_ref \<Rightarrow> evidence list"
  assumes evidence_record:
    "evidence_for (record_evidence e s) c =
       evidence_for s c @ (if evidence_candidate e = c then [e] else [])"
begin

lemma evidence_recorded: "e \<in> set (evidence_for (record_evidence e s) (evidence_candidate e))"
  by (simp add: evidence_record)

lemma evidence_kept: "set (evidence_for s c) \<subseteq> set (evidence_for (record_evidence e s) c)"
  by (simp add: evidence_record)

lemma satisfies_kept:
  "satisfies r (evidence_for s c) \<Longrightarrow> satisfies r (evidence_for (record_evidence e s) c)"
  by (rule satisfies_mono [OF _ evidence_kept])

lemma evidence_fold:
  "evidence_for (fold record_evidence es s) c =
     evidence_for s c @ filter (\<lambda>e. evidence_candidate e = c) es"
  by (induction es arbitrary: s) (simp_all add: evidence_record)

end

section \<open>In-memory stores\<close>

type_synonym mem_feedback = "feedback_key \<rightharpoonup> feedback_counters"

definition mem_counters :: "mem_feedback \<Rightarrow> feedback_key \<Rightarrow> feedback_counters" where
  "mem_counters m k = (case m k of Some c \<Rightarrow> c | None \<Rightarrow> counters_default)"

definition mem_record_outcome :: "feedback_key \<Rightarrow> bool \<Rightarrow> mem_feedback \<Rightarrow> mem_feedback" where
  "mem_record_outcome k ok m = m(k \<mapsto> count_outcome ok (mem_counters m k))"

interpretation mem_feedback: feedback_store mem_record_outcome mem_counters
  by unfold_locales (simp add: mem_record_outcome_def mem_counters_def)

type_synonym mem_evidence = "evidence list"

definition mem_record :: "evidence \<Rightarrow> mem_evidence \<Rightarrow> mem_evidence" where
  "mem_record e s = s @ [e]"

definition mem_evidence_for :: "mem_evidence \<Rightarrow> candidate_ref \<Rightarrow> evidence list" where
  "mem_evidence_for s c = filter (\<lambda>e. evidence_candidate e = c) s"

definition mem_evidence_for_attempt ::
    "mem_evidence \<Rightarrow> task_id \<Rightarrow> attempt_id \<Rightarrow> evidence list" where
  "mem_evidence_for_attempt s t a =
     filter (\<lambda>e. cr_task_id (evidence_candidate e) = t \<and> cr_attempt_id (evidence_candidate e) = a) s"

interpretation mem_evidence: evidence_store mem_record mem_evidence_for
  by unfold_locales (simp add: mem_record_def mem_evidence_for_def)

section \<open>The scripted decision port\<close>

datatype decision_port_error =
    EmptyQuery
  | BatchTooLarge nat
  | Unscripted string

definition MAX_BATCH_PROPOSITIONS :: nat where
  "MAX_BATCH_PROPOSITIONS = 24"

definition fingerprint_bytes :: "string \<Rightarrow> string list \<Rightarrow> string" where
  "fingerprint_bytes label parts = label @ concat (map (\<lambda>p. CHR 0x0A # p) parts)"

definition decision_fingerprint :: "(string \<Rightarrow> string) \<Rightarrow> string \<Rightarrow> string list \<Rightarrow> string" where
  "decision_fingerprint sha label parts =
     ad_digest (artifact_digest_sha256 sha (fingerprint_bytes label parts))"

record scripted_port =
  sp_outcomes :: "string \<rightharpoonup> decision_outcome"
  sp_oracles :: "string \<rightharpoonup> confidence"

definition scripted :: "scripted_port \<Rightarrow> string \<Rightarrow> decision_port_error + decision_outcome" where
  "scripted p fp = (case sp_outcomes p fp of Some o' \<Rightarrow> Inr o' | None \<Rightarrow> Inl (Unscripted fp))"

definition evaluate_choice ::
    "(string \<Rightarrow> string) \<Rightarrow> scripted_port \<Rightarrow> string \<Rightarrow> string list \<Rightarrow>
       decision_port_error + decision_outcome" where
  "evaluate_choice sha p prompt opts =
     (if prompt = [] \<or> opts = [] \<or> list_ex (\<lambda>o'. o' = []) opts then Inl EmptyQuery
      else scripted p (decision_fingerprint sha ''choice'' (prompt # opts)))"

definition evaluate_noul ::
    "(string \<Rightarrow> string) \<Rightarrow> scripted_port \<Rightarrow> string \<Rightarrow> decision_port_error + decision_outcome" where
  "evaluate_noul sha p proposition =
     (if proposition = [] then Inl EmptyQuery
      else scripted p (decision_fingerprint sha ''noul'' [proposition]))"

definition evaluate_score ::
    "(string \<Rightarrow> string) \<Rightarrow> scripted_port \<Rightarrow> string \<Rightarrow> decision_port_error + decision_outcome" where
  "evaluate_score sha p subject =
     (if subject = [] then Inl EmptyQuery
      else scripted p (decision_fingerprint sha ''score'' [subject]))"

definition evaluate_batch_noul ::
    "(string \<Rightarrow> string) \<Rightarrow> scripted_port \<Rightarrow> string list \<Rightarrow>
       decision_port_error + decision_outcome list" where
  "evaluate_batch_noul sha p props =
     (if props = [] \<or> list_ex (\<lambda>q. q = []) props then Inl EmptyQuery
      else if length props > MAX_BATCH_PROPOSITIONS then Inl (BatchTooLarge (length props))
      else try_res (scripted p (decision_fingerprint sha ''batch-noul'' props))
        (\<lambda>o'. Inr (replicate (length props) o')))"

definition oracle_predict ::
    "(string \<Rightarrow> string) \<Rightarrow> scripted_port \<Rightarrow> string \<Rightarrow> u64 \<Rightarrow> decision_port_error + confidence" where
  "oracle_predict sha p arm pulls =
     (if arm = [] then Inl EmptyQuery
      else let fp = decision_fingerprint sha ''oracle'' [arm, show_word pulls]
           in case sp_oracles p fp of Some c \<Rightarrow> Inr c | None \<Rightarrow> Inl (Unscripted fp))"

text \<open>
  The fingerprint input is injective on parts without newlines, so different questions meet in
  one script entry only through a SHA-256 collision or a newline in a part.
\<close>

lemma fingerprint_bytes_inj:
  assumes "fingerprint_bytes label ps = fingerprint_bytes label' qs"
    and "CHR 0x0A \<notin> set label" "CHR 0x0A \<notin> set label'"
    and "\<forall>p \<in> set ps \<union> set qs. CHR 0x0A \<notin> set p"
  shows "label = label' \<and> ps = qs"
proof -
  have b: "fingerprint_bytes l rs = join_with [CHR 0x0A] (l # rs)" for l rs
  proof (induction rs arbitrary: l)
    case (Cons r rs)
    then show ?case by (cases rs) (simp_all add: fingerprint_bytes_def)
  qed (simp add: fingerprint_bytes_def)
  have "split_on CHR 0x0A (join_with [CHR 0x0A] (label # ps)) = label # ps"
    "split_on CHR 0x0A (join_with [CHR 0x0A] (label' # qs)) = label' # qs"
    using assms(2-4) by (intro split_on_join; auto)+
  then have "label # ps = label' # qs" using assms(1) b by metis
  then show ?thesis by simp
qed

end
