(* ===== verification/Engine_Agent.thy ===== *)
theory Engine_Agent
  imports Engine_Ports
begin

text \<open>
  \<open>crates/meshloop-engine/src/agent.rs\<close> and \<open>origin.rs\<close>: the work orders handed to a
  harness, their prompts, and the rule that the originating session is never a worker. The
  prompt of a spec with source skeletons is built by \<open>meshloop-context\<close> and is an argument here;
  \<open>serde_json\<close> is a parameter.
\<close>

record agent_spec =
  as_task_id :: task_id
  as_attempt_id :: attempt_id
  as_harness :: string
  as_model_ref :: string
  as_worktree_path :: string
  as_prompt :: string
  as_timeout :: duration

record prompt_envelope =
  situation :: string
  complication :: string
  question :: string
  output_contract :: string

definition NL :: string where "NL = [CHR 0x0A]"

definition render_prompt :: "prompt_envelope \<Rightarrow> string" where
  "render_prompt e =
     ''SITUATION:'' @ NL @ situation e @ NL @ NL @ ''COMPLICATION:'' @ NL @ complication e @
     NL @ NL @ ''QUESTION:'' @ NL @ question e @ NL @ NL @ ''OUTPUT CONTRACT:'' @ NL @
     output_contract e @ NL"

definition dependency_context :: "task_graph \<Rightarrow> task_node \<Rightarrow> string" where
  "dependency_context g n =
     join_with NL
       (map n_description
         (List.map_filter (\<lambda>d. find (\<lambda>m. n_id m = d) (nodes g)) (n_depends_on n)))"

definition DEFAULT_OUTPUT_CONTRACT :: string where
  "DEFAULT_OUTPUT_CONTRACT =
     ''Touch only paths relevant to this task. Leave the worktree in a buildable state.''"

definition build_agent_spec ::
    "task_graph \<Rightarrow> task_node \<Rightarrow> attempt_id \<Rightarrow> string \<Rightarrow> string \<Rightarrow> string \<Rightarrow> duration \<Rightarrow> agent_spec" where
  "build_agent_spec g n attempt harness model worktree timeout =
     \<lparr>as_task_id = n_id n, as_attempt_id = attempt, as_harness = harness, as_model_ref = model,
      as_worktree_path = worktree,
      as_prompt = render_prompt
        \<lparr>situation = dependency_context g n, complication = n_description n,
         question = ''Implement this change and leave evidence of what was done.'',
         output_contract = DEFAULT_OUTPUT_CONTRACT\<rparr>,
      as_timeout = timeout\<rparr>"

definition build_repair_spec ::
    "task_node \<Rightarrow> attempt_id \<Rightarrow> string \<Rightarrow> string \<Rightarrow> string \<Rightarrow> duration \<Rightarrow> string \<Rightarrow> string \<Rightarrow> agent_spec" where
  "build_repair_spec n attempt harness model worktree timeout diagnostics constraint =
     (let compl =
        (if constraint = []
         then n_description n @ NL @ NL @ ''[PREVIOUS ATTEMPT FAILED CHECKS. DIAGNOSTICS:]'' @ NL @
              diagnostics
         else n_description n @ NL @ NL @ ''[PREVIOUS ATTEMPT FAILED CHECKS. DIAGNOSTICS:]'' @ NL @
              diagnostics @ NL @ NL @
              ''[NEGATIVE CONSTRAINTS - DO NOT INTRODUCE THESE CODES:]'' @ NL @ constraint)
      in \<lparr>as_task_id = n_id n, as_attempt_id = attempt, as_harness = harness,
          as_model_ref = model, as_worktree_path = worktree,
          as_prompt = render_prompt
            \<lparr>situation = ''A previous attempt introduced errors or failed deterministic checks. Fix the errors.'',
             complication = compl,
             question = ''Fix the diagnostics while preserving existing behavior. Touch only allowed paths.'',
             output_contract = DEFAULT_OUTPUT_CONTRACT\<rparr>,
          as_timeout = timeout\<rparr>)"

section \<open>Origin\<close>

record origin =
  o_harness :: "string option"
  o_session :: "string option"

definition origin_from_flags :: "string option \<Rightarrow> string option \<Rightarrow> origin" where
  "origin_from_flags h s = \<lparr>o_harness = h, o_session = s\<rparr>"

text \<open>\<open>env\<close> is the process environment; blank values count as unset.\<close>

definition env_nonempty :: "(string \<rightharpoonup> string) \<Rightarrow> string \<Rightarrow> string option" where
  "env_nonempty env key =
     (case env key of Some v \<Rightarrow> if trim v \<noteq> [] then Some v else None | None \<Rightarrow> None)"

definition origin_from_flags_or_env ::
    "(string \<rightharpoonup> string) \<Rightarrow> string option \<Rightarrow> string option \<Rightarrow> origin" where
  "origin_from_flags_or_env env h s =
     \<lparr>o_harness = (case h of Some x \<Rightarrow> Some x | None \<Rightarrow> env_nonempty env ''MESHLOOP_ORIGIN_HARNESS''),
      o_session = (case s of Some x \<Rightarrow> Some x | None \<Rightarrow> env_nonempty env ''MESHLOOP_ORIGIN_SESSION'')\<rparr>"

definition origin_is_set :: "origin \<Rightarrow> bool" where
  "origin_is_set o' \<longleftrightarrow> o_harness o' \<noteq> None \<or> o_session o' \<noteq> None"

definition blocks_worker :: "origin \<Rightarrow> string \<Rightarrow> string option \<Rightarrow> bool" where
  "blocks_worker o' worker worker_session =
     (case (o_harness o', o_session o', worker_session) of
        (Some oh, Some os, Some ws) \<Rightarrow> oh = worker \<and> os = ws
      | (Some oh, None, None) \<Rightarrow> oh = worker
      | _ \<Rightarrow> False)"

lemma unset_origin_blocks_nothing: "\<not> origin_is_set o' \<Longrightarrow> \<not> blocks_worker o' w ws"
  by (auto simp: origin_is_set_def blocks_worker_def split: option.splits)

lemma blocks_only_own_harness: "blocks_worker o' w ws \<Longrightarrow> o_harness o' = Some w"
  by (auto simp: blocks_worker_def split: option.splits)

text \<open>A prompt shows a worker only its declared dependencies.\<close>

lemma dependency_context_cong:
  assumes "\<And>d. d \<in> set (n_depends_on n) \<Longrightarrow>
      find (\<lambda>m. n_id m = d) (nodes g) = find (\<lambda>m. n_id m = d) (nodes g')"
  shows "dependency_context g n = dependency_context g' n"
proof -
  have "List.map_filter (\<lambda>d. find (\<lambda>m. n_id m = d) (nodes g)) (n_depends_on n) =
      List.map_filter (\<lambda>d. find (\<lambda>m. n_id m = d) (nodes g')) (n_depends_on n)"
    using assms by (auto simp: map_filter_def intro!: map_cong filter_cong)
  then show ?thesis by (simp add: dependency_context_def)
qed

end
