(* ===== verification/Engine_Router.thy ===== *)
theory Engine_Router
  imports Engine_Agent
begin

text \<open>
  \<open>crates/meshloop-engine/src/router.rs\<close> and \<open>orchestrator.rs\<close>: selection of candidates and
  dispatch with fallback. The sum of the signal scores is an argument of \<open>select\<close>, evaluated in
  order on the candidates that pass the filters (a signal may spend from the ledger); the
  routing theorems hold for every such score. Harness processes and the feedback store are
  parameters that act on a world \<open>'w\<close>.
\<close>

section \<open>Selection\<close>

record candidate =
  c_harness :: string
  c_model_ref :: string
  c_model_tier :: model_capability_tier

record rejection =
  rej_harness :: string
  rej_reason :: string

definition tier_efficiency_score :: "tier \<Rightarrow> candidate \<Rightarrow> f64" where
  "tier_efficiency_score t c =
     Fin (- (case (t, c_model_tier c) of
              (Tier1, TopTier) \<Rightarrow> 1
            | (Tier1, MidTier) \<Rightarrow> 1 / 2
            | (Tier2, TopTier) \<Rightarrow> 1 / 2
            | _ \<Rightarrow> 0))"

definition load_balance_score :: "(string \<rightharpoonup> f64) \<Rightarrow> candidate \<Rightarrow> f64" where
  "load_balance_score headroom c =
     (case headroom (c_harness c) of Some h \<Rightarrow> h | None \<Rightarrow> Fin 0)"

definition passes_filters ::
    "(string \<rightharpoonup> harness_profile) \<Rightarrow> (string \<rightharpoonup> quota_state) \<Rightarrow> system_time \<Rightarrow> tier \<Rightarrow> candidate \<Rightarrow> bool" where
  "passes_filters profiles quotas now t c \<longleftrightarrow>
     tier_fits t (c_model_tier c) \<and>
     (case profiles (c_harness c) of Some p \<Rightarrow> is_dispatchable p | None \<Rightarrow> False) \<and>
     (case quotas (c_harness c) of Some q \<Rightarrow> is_available q now | None \<Rightarrow> True)"

fun score_all :: "('c \<Rightarrow> 'w \<Rightarrow> f64 \<times> 'w) \<Rightarrow> 'c list \<Rightarrow> 'w \<Rightarrow> ('c \<times> f64) list \<times> 'w" where
  "score_all score [] w = ([], w)"
| "score_all score (c # cs) w =
     (case score c w of (s, w) \<Rightarrow>
        (case score_all score cs w of (rest, w) \<Rightarrow> ((c, s) # rest, w)))"

text \<open>
  \<open>sort_by\<close> with \<open>b.partial_cmp(a).unwrap_or(Equal)\<close>: a stable sort, best first. A candidate
  moves behind another only when that one has a strictly larger score.
\<close>

fun insert_scored :: "'c \<times> f64 \<Rightarrow> ('c \<times> f64) list \<Rightarrow> ('c \<times> f64) list" where
  "insert_scored x [] = [x]"
| "insert_scored x (y # ys) =
     (if f_lt (snd x) (snd y) then y # insert_scored x ys else x # y # ys)"

definition sort_scored :: "('c \<times> f64) list \<Rightarrow> ('c \<times> f64) list" where
  "sort_scored xs = foldr insert_scored xs []"

definition select ::
    "(candidate \<Rightarrow> 'w \<Rightarrow> f64 \<times> 'w) \<Rightarrow> candidate list \<Rightarrow> (string \<rightharpoonup> harness_profile) \<Rightarrow>
     (string \<rightharpoonup> quota_state) \<Rightarrow> system_time \<Rightarrow> tier \<Rightarrow> 'w \<Rightarrow> candidate list \<times> 'w" where
  "select score configured profiles quotas now t w =
     (case score_all score (filter (passes_filters profiles quotas now t) configured) w of
        (scored, w) \<Rightarrow> (map fst (sort_scored scored), w))"

definition model_tier_name :: "model_capability_tier \<Rightarrow> string" where
  "model_tier_name m =
     (case m of Lightweight \<Rightarrow> ''Lightweight'' | MidTier \<Rightarrow> ''MidTier'' | TopTier \<Rightarrow> ''TopTier'')"

definition rejection_for ::
    "(string \<rightharpoonup> harness_profile) \<Rightarrow> (string \<rightharpoonup> quota_state) \<Rightarrow> system_time \<Rightarrow> tier \<Rightarrow> candidate \<Rightarrow>
       rejection option" where
  "rejection_for profiles quotas now t c =
     (if \<not> tier_fits t (c_model_tier c)
      then Some \<lparr>rej_harness = c_harness c, rej_reason =
        ''model_tier '' @ model_tier_name (c_model_tier c) @ '' does not fit task '' @ tier_name t\<rparr>
      else case (case profiles (c_harness c) of
                   Some p \<Rightarrow> rejection_reason p | None \<Rightarrow> Some ''not probed'') of
        Some r \<Rightarrow> Some \<lparr>rej_harness = c_harness c, rej_reason = r\<rparr>
      | None \<Rightarrow>
          if (case quotas (c_harness c) of Some q \<Rightarrow> \<not> is_available q now | None \<Rightarrow> False)
          then Some \<lparr>rej_harness = c_harness c, rej_reason = ''in quota cooldown''\<rparr>
          else None)"

definition rejections ::
    "candidate list \<Rightarrow> (string \<rightharpoonup> harness_profile) \<Rightarrow> (string \<rightharpoonup> quota_state) \<Rightarrow> system_time \<Rightarrow> tier \<Rightarrow>
       rejection list" where
  "rejections configured profiles quotas now t =
     List.map_filter (rejection_for profiles quotas now t) configured"

section \<open>Dispatch with fallback\<close>

datatype dispatch_error = UnknownHarness string | DispatchUnsupported

record dispatch_result =
  dr_state :: task_state
  dr_outcome :: "harness_outcome option"
  dr_used_harness :: "string option"

record 'w harness =
  h_invoke :: "agent_spec \<Rightarrow> 'w \<Rightarrow> (harness_error + harness_handle) \<times> 'w"
  h_collect :: "harness_handle \<Rightarrow> 'w \<Rightarrow> (harness_error + harness_outcome) \<times> 'w"

definition run_harness ::
    "'w harness \<Rightarrow> agent_spec \<Rightarrow> 'w \<Rightarrow> (harness_error + harness_outcome) \<times> 'w" where
  "run_harness h spec w =
     (case h_invoke h spec w of
        (Inr handle, w) \<Rightarrow> h_collect h handle w
      | (Inl e, w) \<Rightarrow> (Inl e, w))"

definition feedback_key_for :: "candidate \<Rightarrow> tier \<Rightarrow> feedback_key" where
  "feedback_key_for c t = FeedbackKey (c_harness c) (c_model_ref c) (tier_key_of t)"

text \<open>A failed write of feedback is ignored (\<open>let _ =\<close>), so \<open>rec\<close> returns only the world.\<close>

fun dispatch_with_fallback ::
    "(string \<rightharpoonup> 'w harness) \<Rightarrow> candidate list \<Rightarrow> tier \<Rightarrow> (candidate \<Rightarrow> agent_spec) \<Rightarrow>
     (feedback_key \<Rightarrow> bool \<Rightarrow> 'w \<Rightarrow> 'w) \<Rightarrow> 'w \<Rightarrow> (dispatch_error + dispatch_result) \<times> 'w" where
  "dispatch_with_fallback harnesses [] t spec_for rec w =
     (Inr \<lparr>dr_state = Blocked, dr_outcome = None, dr_used_harness = None\<rparr>, w)"
| "dispatch_with_fallback harnesses (c # cs) t spec_for rec w =
     (case harnesses (c_harness c) of
        None \<Rightarrow> (Inl (UnknownHarness (c_harness c)), w)
      | Some h \<Rightarrow>
          (case run_harness h (spec_for c) w of
             (Inr out, w) \<Rightarrow>
               (Inr \<lparr>dr_state = Verifying, dr_outcome = Some out, dr_used_harness = Some (c_harness c)\<rparr>,
                rec (feedback_key_for c t) True w)
           | (Inl HarnessUnsupported, w) \<Rightarrow> (Inl DispatchUnsupported, w)
           | (Inl _, w) \<Rightarrow>
               dispatch_with_fallback harnesses cs t spec_for rec
                 (rec (feedback_key_for c t) False w)))"

section \<open>Laws of selection\<close>

lemma score_all_fst: "score_all score cs w = (xs, w') \<Longrightarrow> map fst xs = cs"
  by (induction score cs w arbitrary: xs w' rule: score_all.induct) (auto split: prod.splits)

lemma mset_insert_scored: "mset (insert_scored x ys) = add_mset x (mset ys)"
  by (induction ys) auto

lemma mset_sort_scored: "mset (sort_scored xs) = mset xs"
  by (induction xs) (auto simp: sort_scored_def mset_insert_scored)

definition best_first :: "('c \<times> f64) list \<Rightarrow> bool" where
  "best_first xs \<longleftrightarrow> sorted_wrt (\<lambda>a b. \<not> f_lt (snd a) (snd b)) xs"

lemma f_lt_cases: "x \<noteq> F_NaN \<Longrightarrow> y \<noteq> F_NaN \<Longrightarrow> f_lt x y \<or> f_le y x"
  by (cases x rule: f64_cases; cases y rule: f64_cases) (auto simp: f_lt_def)

lemma not_f_lt_iff: "x \<noteq> F_NaN \<Longrightarrow> y \<noteq> F_NaN \<Longrightarrow> \<not> f_lt x y \<longleftrightarrow> f_le y x"
  using f_lt_cases by (auto simp: f_lt_def)

lemma insert_scored_sorted:
  assumes "best_first ys" "\<forall>y \<in> set (x # ys). snd y \<noteq> F_NaN"
  shows "best_first (insert_scored x ys)"
  using assms
proof (induction ys)
  case (Cons y ys)
  have s: "set (insert_scored x ys) = insert x (set ys)"
    by (metis mset_insert_scored set_mset_add_mset_insert set_mset_mset)
  show ?case
  proof (cases "f_lt (snd x) (snd y)")
    case True
    then have "\<not> f_lt (snd y) (snd x)" by (simp add: f_lt_def)
    then show ?thesis using True Cons s by (auto simp: best_first_def)
  next
    case False
    have "\<not> f_lt (snd x) (snd z)" if "z \<in> set ys" for z
    proof -
      have "f_le (snd y) (snd x)" "f_le (snd z) (snd y)"
        using False Cons.prems that by (auto simp: best_first_def not_f_lt_iff)
      then have "f_le (snd z) (snd x)" by (rule f_le_trans [rotated])
      then show ?thesis by (simp add: f_lt_def)
    qed
    then show ?thesis using False Cons.prems by (auto simp: best_first_def)
  qed
qed (simp add: best_first_def)

lemma sort_scored_sorted: "\<forall>x \<in> set xs. snd x \<noteq> F_NaN \<Longrightarrow> best_first (sort_scored xs)"
proof (induction xs)
  case (Cons x xs)
  have "set (sort_scored xs) = set xs" by (metis mset_sort_scored set_mset_mset)
  then show ?case
    using Cons insert_scored_sorted [of "sort_scored xs" x] by (auto simp: sort_scored_def)
qed (simp add: sort_scored_def best_first_def)

lemma rejection_iff: "rejection_for ps qs now t c = None \<longleftrightarrow> passes_filters ps qs now t c"
  by (auto simp: rejection_for_def passes_filters_def dispatchable_iff_no_rejection [symmetric]
      split: option.splits)

lemma length_map_filter_complement:
  assumes "\<And>x. f x = None \<longleftrightarrow> P x"
  shows "length (filter P xs) + length (List.map_filter f xs) = length xs"
  by (induction xs) (auto simp: List.map_filter_simps assms [symmetric] split: option.splits)


definition sample_candidate :: "string \<Rightarrow> model_capability_tier \<Rightarrow> candidate" where
  "sample_candidate h m = \<lparr>c_harness = h, c_model_ref = ''m'', c_model_tier = m\<rparr>"

definition sample_profile :: harness_profile where
  "sample_profile = \<lparr>hp_harness = ''pi'', hp_version = ''1'', hp_compatibility = Compatible,
     hp_noninteractive = True, hp_structured_output = True, hp_cancellation = True, hp_reason = None\<rparr>"


text \<open>
  When no score is NaN, the selected list is best first: no candidate precedes one with a
  strictly larger score.
\<close>

theorem sort_scored_best_first:
  assumes "\<forall>x \<in> set xs. snd x \<noteq> F_NaN"
  shows "sorted_wrt (\<lambda>a b. \<not> f_lt (snd a) (snd b)) (sort_scored xs) \<and> mset (sort_scored xs) = mset xs"
  using sort_scored_sorted [OF assms] by (simp add: best_first_def mset_sort_scored)

theorem sort_scored_best_first_witness:
  "sorted_wrt (\<lambda>a b. \<not> f_lt (snd a) (snd b))
     (sort_scored [(1::nat, Fin (1/2)), (2, F_Inf True), (3, Fin 2)])"
proof -
  have "\<forall>x \<in> set [(1::nat, Fin (1/2)), (2, F_Inf True), (3, Fin 2)]. snd x \<noteq> F_NaN" by simp
  then show ?thesis by (rule conjunct1 [OF sort_scored_best_first])
qed

section \<open>Laws of dispatch\<close>

text \<open>What a dispatch that goes on to the next candidate has done.\<close>

fun all_recoverable ::
    "(string \<rightharpoonup> 'w harness) \<Rightarrow> candidate list \<Rightarrow> tier \<Rightarrow> (candidate \<Rightarrow> agent_spec) \<Rightarrow>
     (feedback_key \<Rightarrow> bool \<Rightarrow> 'w \<Rightarrow> 'w) \<Rightarrow> 'w \<Rightarrow> 'w \<Rightarrow> bool" where
  "all_recoverable harnesses [] t spec_for rec w w' \<longleftrightarrow> w' = w"
| "all_recoverable harnesses (c # cs) t spec_for rec w w' \<longleftrightarrow>
     (\<exists>h e w1. harnesses (c_harness c) = Some h \<and> run_harness h (spec_for c) w = (Inl e, w1) \<and>
        e \<noteq> HarnessUnsupported \<and>
        all_recoverable harnesses cs t spec_for rec (rec (feedback_key_for c t) False w1) w')"

lemma dispatch_skip:
  "all_recoverable hs pre t spec_for rec w w1 \<Longrightarrow>
     dispatch_with_fallback hs (pre @ cs) t spec_for rec w =
     dispatch_with_fallback hs cs t spec_for rec w1"
proof (induction hs pre t spec_for rec w w1 rule: all_recoverable.induct)
  case (2 hs c cs' t spec_for rec w w')
  then obtain h e w1 where
    "hs (c_harness c) = Some h" "run_harness h (spec_for c) w = (Inl e, w1)" "e \<noteq> HarnessUnsupported"
    "all_recoverable hs cs' t spec_for rec (rec (feedback_key_for c t) False w1) w'"
    by auto
  then show ?case using 2 by (cases e) auto
qed simp

text \<open>
  Fallback is visible and total: \<open>dispatch_with_fallback\<close> answers \<open>Verifying\<close> exactly
  through the first candidate whose harness returns an outcome, after every earlier candidate
  failed recoverably and had its failure recorded; it answers \<open>Blocked\<close> only when every
  candidate failed recoverably.
\<close>

theorem dispatch_outcome:
  assumes "dispatch_with_fallback hs cs t spec_for rec w = (Inr r, w')"
  shows "(dr_state r = Blocked \<and> dr_outcome r = None \<and> all_recoverable hs cs t spec_for rec w w') \<or>
     (dr_state r = Verifying \<and>
      (\<exists>pre c post h out w1 w2. cs = pre @ c # post \<and> all_recoverable hs pre t spec_for rec w w1 \<and>
         hs (c_harness c) = Some h \<and> run_harness h (spec_for c) w1 = (Inr out, w2) \<and>
         dr_outcome r = Some out \<and> dr_used_harness r = Some (c_harness c) \<and>
         w' = rec (feedback_key_for c t) True w2))"
  using assms
proof (induction cs arbitrary: w)
  case Nil
  then show ?case by auto
next
  case (Cons c cs)
  then obtain h where h: "hs (c_harness c) = Some h" by (auto split: option.splits)
  obtain res w1 where run: "run_harness h (spec_for c) w = (res, w1)"
    by (cases "run_harness h (spec_for c) w")
  show ?case
  proof (cases res)
    case (Inr out)
    then have "dr_state r = Verifying \<and> dr_outcome r = Some out \<and>
        dr_used_harness r = Some (c_harness c) \<and> w' = rec (feedback_key_for c t) True w1"
      using Cons.prems h run by auto
    moreover have "all_recoverable hs [] t spec_for rec w w" by simp
    ultimately show ?thesis using h run Inr by (metis append_Nil)
  next
    case (Inl e)
    then have ne: "e \<noteq> HarnessUnsupported" using Cons.prems h run by auto
    let ?w = "rec (feedback_key_for c t) False w1"
    have step: "dispatch_with_fallback hs cs t spec_for rec ?w = (Inr r, w')"
      using Cons.prems h run Inl ne by (cases e) auto
    have cons: "all_recoverable hs (c # pre) t spec_for rec w v"
      if "all_recoverable hs pre t spec_for rec ?w v" for pre v
      using that h run Inl ne by auto
    note IH = Cons.IH [OF step]
    show ?thesis
    proof (cases "dr_state r = Blocked")
      case True
      then show ?thesis using IH cons by auto
    next
      case False
      then obtain pre c' post h' out w2 w3 where "cs = pre @ c' # post"
        "all_recoverable hs pre t spec_for rec ?w w2" "hs (c_harness c') = Some h'"
        "run_harness h' (spec_for c') w2 = (Inr out, w3)" "dr_outcome r = Some out"
        "dr_used_harness r = Some (c_harness c')" "w' = rec (feedback_key_for c' t) True w3"
        "dr_state r = Verifying"
        using IH by auto
      then show ?thesis using cons [of pre w2] by (metis append_Cons)
    qed
  qed
qed

definition sample_outcome :: harness_outcome where
  "sample_outcome = \<lparr>ho_exit_code = 0, ho_output_redacted = [], ho_stderr_redacted = [],
     ho_worktree_changed = True\<rparr>"

text \<open>The world of the sample is the list of recorded outcomes.\<close>

definition sample_harnesses :: "string \<rightharpoonup> (feedback_key \<times> bool) list harness" where
  "sample_harnesses =
     [''down'' \<mapsto> \<lparr>h_invoke = (\<lambda>_ w. (Inl Timeout, w)), h_collect = (\<lambda>_ w. (Inl Timeout, w))\<rparr>,
      ''up'' \<mapsto> \<lparr>h_invoke = (\<lambda>s w. (Inr \<lparr>hh_attempt_id = 1, hh_pid = None, hh_pane_id = None\<rparr>, w)),
                 h_collect = (\<lambda>_ w. (Inr sample_outcome, w))\<rparr>]"

theorem dispatch_outcome_witness:
  "\<exists>r w'. dispatch_with_fallback sample_harnesses
       [sample_candidate ''down'' MidTier, sample_candidate ''up'' MidTier] Tier1
       (\<lambda>c. build_agent_spec sample_graph (sample_node 1 []) 1 (c_harness c) [] [] 0)
       (\<lambda>k ok w. w @ [(k, ok)]) [] = (Inr r, w') \<and>
     dr_state r = Verifying \<and> dr_used_harness r = Some ''up''"
  (is "\<exists>r w'. ?run = (Inr r, w') \<and> _")
proof -
  obtain r w' where run: "?run = (Inr r, w')" "dr_state r = Verifying"
    by (simp add: sample_harnesses_def sample_candidate_def run_harness_def)
  then show ?thesis
    using dispatch_outcome [OF run(1)] run
    by (auto simp: sample_harnesses_def sample_candidate_def run_harness_def Cons_eq_append_conv)
qed

end
