(* ===== verification/Engine_Planner.thy ===== *)
theory Engine_Planner
  imports Engine_Agent
begin

text \<open>
  \<open>crates/meshloop-engine/src/planner.rs\<close>: decomposition through a harness, tier assignment
  and the raise-only risk ratchet. \<open>serde_json\<close>, the plan file on disk, SHA-256 and the decision
  port are parameters. The owned planner driver (\<open>decompose_owned\<close>) is not modelled here.
\<close>

section \<open>Decomposition\<close>

datatype plan_error =
    Control string
  | Ownership store_error
  | Preservation
  | PlanDispatch harness_error
  | Malformed string
  | Invalid graph_error
  | Exhausted u32 plan_error "string option"

text \<open>
  \<open>plan_file\<close> is what reading \<open>meshloop-plan.json\<close> in the worktree gives: no such file, an
  I/O error, or its text.
\<close>

definition parse_graph ::
    "(string \<Rightarrow> string + task_graph) \<Rightarrow> topo_port \<Rightarrow> (string + string) option \<Rightarrow> harness_outcome \<Rightarrow>
       plan_error + task_graph" where
  "parse_graph from_json tp plan_file out =
     try_res
       (case plan_file of
          Some (Inr text) \<Rightarrow> Inr text
        | Some (Inl e) \<Rightarrow> Inl (Malformed e)
        | None \<Rightarrow> Inr (ho_output_redacted out))
       (\<lambda>raw.
     (case from_json raw of
        Inl e \<Rightarrow> Inl (Malformed e)
      | Inr g \<Rightarrow>
          (case validate tp g of
             Inl e \<Rightarrow> Inl (Invalid e)
           | Inr _ \<Rightarrow> Inr g)))"

text \<open>
  \<open>invoke\<close> and \<open>collect\<close> are the harness; \<open>plan_file\<close> is read in the world after them.
\<close>

definition decompose ::
    "(string \<Rightarrow> string + task_graph) \<Rightarrow> topo_port \<Rightarrow>
     (agent_spec \<Rightarrow> 'w \<Rightarrow> (harness_error + harness_handle) \<times> 'w) \<Rightarrow>
     (harness_handle \<Rightarrow> 'w \<Rightarrow> (harness_error + harness_outcome) \<times> 'w) \<Rightarrow>
     (string \<Rightarrow> 'w \<Rightarrow> (string + string) option) \<Rightarrow> agent_spec \<Rightarrow> 'w \<Rightarrow> (plan_error + task_graph) \<times> 'w" where
  "decompose from_json tp invoke collect plan_file spec w =
     (case invoke spec w of
        (Inr handle, w) \<Rightarrow>
          (case collect handle w of
             (Inl e, w) \<Rightarrow> (Inl (PlanDispatch e), w)
           | (Inr out, w) \<Rightarrow> (parse_graph from_json tp (plan_file (as_worktree_path spec) w) out, w))
      | (Inl e, w) \<Rightarrow>
          (case plan_file (as_worktree_path spec) w of
             None \<Rightarrow> (Inl (PlanDispatch e), w)
           | Some f \<Rightarrow>
               (case parse_graph from_json tp (Some f)
                   \<lparr>ho_exit_code = 0, ho_output_redacted = [], ho_stderr_redacted = [],
                    ho_worktree_changed = True\<rparr> of
                  Inr g \<Rightarrow> (Inr g, w)
                | Inl _ \<Rightarrow> (Inl (PlanDispatch e), w))))"

lemma parse_graph_Inr:
  assumes "parse_graph from_json tp pf out = Inr g"
  shows "validate tp g = Inr ()"
proof -
  obtain raw where r: "(case from_json raw of
        Inl e \<Rightarrow> Inl (Malformed e)
      | Inr g \<Rightarrow> (case validate tp g of Inl e \<Rightarrow> Inl (Invalid e) | Inr _ \<Rightarrow> Inr g)) = Inr g"
    using assms unfolding parse_graph_def try_res_eq_Inr by blast
  then obtain g0 where "from_json raw = Inr g0" by (cases "from_json raw") auto
  then show ?thesis using r by (cases "validate tp g0") auto
qed

lemma decompose_Inr: "decompose from_json tp invoke collect pf spec w = (Inr g, w') \<Longrightarrow> validate tp g = Inr ()"
  by (auto simp: decompose_def split: sum.splits prod.splits option.splits dest: parse_graph_Inr)

section \<open>Tier assignment\<close>

definition find_node :: "task_graph \<Rightarrow> task_id \<Rightarrow> task_node option" where
  "find_node g i = find (\<lambda>n. n_id n = i) (nodes g)"

definition default_assign_tier :: "task_graph \<Rightarrow> task_id \<Rightarrow> tier" where
  "default_assign_tier g i =
     (let dep_count = (case find_node g i of Some n \<Rightarrow> length (n_depends_on n) | None \<Rightarrow> 0);
          has_dependents = list_ex (\<lambda>n. i \<in> set (n_depends_on n)) (nodes g)
      in if dep_count \<ge> 2 then Tier3 else if has_dependents then Tier2 else Tier1)"

definition fill_tier :: "tier \<Rightarrow> task_node \<Rightarrow> task_node" where
  "fill_tier t n = (if n_tier n = None then n\<lparr>n_tier := Some t\<rparr> else n)"

fun assign_tiers_loop :: "(task_graph \<Rightarrow> task_id \<Rightarrow> tier) \<Rightarrow> task_id list \<Rightarrow> task_graph \<Rightarrow> task_graph" where
  "assign_tiers_loop assigner [] g = g"
| "assign_tiers_loop assigner (i # is) g =
     assign_tiers_loop assigner is
       (g\<lparr>nodes := update_node i (fill_tier (assigner g i)) (nodes g)\<rparr>)"

definition assign_tiers :: "(task_graph \<Rightarrow> task_id \<Rightarrow> tier) \<Rightarrow> task_graph \<Rightarrow> task_graph" where
  "assign_tiers assigner g = assign_tiers_loop assigner (node_ids g) g"

section \<open>The risk ratchet\<close>

definition RISK_TIER3_AT :: f64 where "RISK_TIER3_AT = f64_0_90"

definition risk_subject :: "string \<Rightarrow> string" where
  "risk_subject description = ''risk'' @ NL @ description"

definition risk_prompt_hash :: "(string \<Rightarrow> string) \<Rightarrow> string \<Rightarrow> string" where
  "risk_prompt_hash sha subject = decision_fingerprint sha ''risk'' [subject]"

definition stored_risk_q :: "task_node \<Rightarrow> string \<Rightarrow> f64 option" where
  "stored_risk_q n h =
     (if n_risk_prompt_hash n \<noteq> Some h then None
      else case n_risk_q n of
        None \<Rightarrow> None
      | Some q \<Rightarrow> map_option confidence_get (res_ok (confidence_try_new q)))"

definition base_tier :: "task_graph \<Rightarrow> task_id \<Rightarrow> tier option \<Rightarrow> tier" where
  "base_tier g i declared =
     (case declared of Some t \<Rightarrow> t | None \<Rightarrow> default_assign_tier g i)"

definition raised_tier :: "tier \<Rightarrow> f64 option \<Rightarrow> tier" where
  "raised_tier base q =
     (case q of
        Some q \<Rightarrow>
          if res_ok (confidence_try_new q) \<noteq> None \<and> f_le RISK_TIER3_AT q
          then risk_floor_apply (RiskFloor Tier3) base else base
      | None \<Rightarrow> base)"

definition jev_assign_tier :: "(string \<Rightarrow> string) \<Rightarrow> task_graph \<Rightarrow> task_id \<Rightarrow> tier" where
  "jev_assign_tier sha g i =
     (case find_node g i of
        None \<Rightarrow> base_tier g i None
      | Some n \<Rightarrow>
          raised_tier (base_tier g i (n_tier n))
            (stored_risk_q n (risk_prompt_hash sha (risk_subject (n_description n)))))"

datatype risk_sample = Reused f64 | RiskAccepted f64 | Ignored

definition sample_q :: "risk_sample \<Rightarrow> f64 option" where
  "sample_q s = (case s of Reused q \<Rightarrow> Some q | RiskAccepted q \<Rightarrow> Some q | Ignored \<Rightarrow> None)"

definition outcome_sample :: "decision_outcome \<Rightarrow> risk_sample" where
  "outcome_sample o' =
     (case o' of
        Score s \<Rightarrow>
          (case confidence_try_new (score_get s) of
             Inr c \<Rightarrow> RiskAccepted (confidence_get c)
           | Inl _ \<Rightarrow> Ignored)
      | _ \<Rightarrow> Ignored)"

definition store_sample :: "risk_sample \<Rightarrow> string \<Rightarrow> tier \<Rightarrow> task_node \<Rightarrow> task_node" where
  "store_sample s h t n =
     (case s of
        RiskAccepted q \<Rightarrow> n\<lparr>n_risk_q := Some q, n_risk_prompt_hash := Some h, n_tier := Some t\<rparr>
      | _ \<Rightarrow> n\<lparr>n_tier := Some t\<rparr>)"

text \<open>
  The loop mutates the graph in place, so an error leaves the nodes before it already raised:
  the graph is returned with the error.
\<close>

fun risk_ratchet_loop ::
    "(string \<Rightarrow> string) \<Rightarrow> (string \<Rightarrow> 'w \<Rightarrow> (decision_port_error + decision_outcome) \<times> 'w) \<Rightarrow>
     task_id list \<Rightarrow> task_graph \<Rightarrow> 'w \<Rightarrow> decision_port_error option \<times> task_graph \<times> 'w" where
  "risk_ratchet_loop sha score [] g w = (None, g, w)"
| "risk_ratchet_loop sha score (i # is) g w =
     (case find_node g i of
        None \<Rightarrow> risk_ratchet_loop sha score is g w
      | Some n \<Rightarrow>
          (let subject = risk_subject (n_description n);
               h = risk_prompt_hash sha subject;
               raise = (\<lambda>s. g\<lparr>nodes := update_node i
                 (store_sample s h (raised_tier (base_tier g i (n_tier n)) (sample_q s))) (nodes g)\<rparr>)
           in case stored_risk_q n h of
             Some q \<Rightarrow> risk_ratchet_loop sha score is (raise (Reused q)) w
           | None \<Rightarrow>
               (case score subject w of
                  (Inl e, w) \<Rightarrow> (Some e, g, w)
                | (Inr o', w) \<Rightarrow> risk_ratchet_loop sha score is (raise (outcome_sample o')) w)))"

definition apply_risk_ratchet ::
    "(string \<Rightarrow> string) \<Rightarrow> (string \<Rightarrow> 'w \<Rightarrow> (decision_port_error + decision_outcome) \<times> 'w) \<Rightarrow>
     task_graph \<Rightarrow> 'w \<Rightarrow> decision_port_error option \<times> task_graph \<times> 'w" where
  "apply_risk_ratchet sha score g w = risk_ratchet_loop sha score (node_ids g) g w"

section \<open>Laws of tier assignment\<close>

lemma fill_tier_simps [simp]:
  "n_id (fill_tier t n) = n_id n" "n_depends_on (fill_tier t n) = n_depends_on n"
  by (simp_all add: fill_tier_def)

lemma update_node_map:
  "distinct (map n_id ns) \<Longrightarrow> update_node i f ns = map (\<lambda>n. if n_id n = i then f n else n) ns"
proof (induction ns)
  case (Cons n ns)
  show ?case
  proof (cases "n_id n = i")
    case True
    then have "map (\<lambda>n. if n_id n = i then f n else n) ns = ns"
      using Cons.prems by (intro map_idI) (auto simp: rev_image_eqI)
    then show ?thesis using True by simp
  next
    case False
    then show ?thesis using Cons by simp
  qed
qed simp

text \<open>The default assigner reads ids and dependencies only, which the loop never changes.\<close>

lemma default_assign_tier_cong:
  assumes "map n_id (nodes g) = map n_id (nodes g')"
    and "map n_depends_on (nodes g) = map n_depends_on (nodes g')"
  shows "default_assign_tier g i = default_assign_tier g' i"
proof -
  have "map_option (\<lambda>n. length (n_depends_on n)) (find (\<lambda>n. n_id n = i) xs) =
      map_option (\<lambda>n. length (n_depends_on n)) (find (\<lambda>n. n_id n = i) ys)"
    if "map n_id xs = map n_id ys" "map n_depends_on xs = map n_depends_on ys" for xs ys
    using that
  proof (induction xs arbitrary: ys)
    case (Cons x xs)
    then show ?case by (cases ys) auto
  qed simp
  then have "map_option (\<lambda>n. length (n_depends_on n)) (find_node g i) =
      map_option (\<lambda>n. length (n_depends_on n)) (find_node g' i)"
    using assms by (simp add: find_node_def)
  then have "(case find_node g i of Some n \<Rightarrow> length (n_depends_on n) | None \<Rightarrow> 0) =
      (case find_node g' i of Some n \<Rightarrow> length (n_depends_on n) | None \<Rightarrow> 0)"
    by (auto split: option.splits)
  moreover have "list_ex (\<lambda>n. i \<in> set (n_depends_on n)) ns =
      list_ex (\<lambda>ds. i \<in> set ds) (map n_depends_on ns)" for ns
    by (induction ns) simp_all
  then have "list_ex (\<lambda>n. i \<in> set (n_depends_on n)) (nodes g) =
      list_ex (\<lambda>n. i \<in> set (n_depends_on n)) (nodes g')"
    using assms(2) by metis
  ultimately show ?thesis by (simp add: default_assign_tier_def Let_def)
qed

lemma assign_tiers_loop_default:
  assumes "distinct (node_ids g)"
  shows "assign_tiers_loop default_assign_tier is g =
     g\<lparr>nodes := map (\<lambda>n. if n_id n \<in> set is then fill_tier (default_assign_tier g (n_id n)) n else n)
         (nodes g)\<rparr>"
  using assms
proof (induction "is" arbitrary: g)
  case (Cons i "is")
  let ?f = "fill_tier (default_assign_tier g i)"
  let ?g = "g\<lparr>nodes := update_node i ?f (nodes g)\<rparr>"
  have n: "nodes ?g = map (\<lambda>n. if n_id n = i then ?f n else n) (nodes g)"
    using Cons.prems by (simp add: update_node_map)
  have ids: "node_ids ?g = node_ids g" "map n_depends_on (nodes ?g) = map n_depends_on (nodes g)"
    unfolding n by (simp_all add: comp_def)
  then have d: "default_assign_tier ?g = default_assign_tier g"
    by (intro ext default_assign_tier_cong)
  have "assign_tiers_loop default_assign_tier (i # is) g =
      ?g\<lparr>nodes := map (\<lambda>n. if n_id n \<in> set is then fill_tier (default_assign_tier g (n_id n)) n else n)
        (nodes ?g)\<rparr>"
    using Cons.IH [of ?g] Cons.prems ids(1) d by simp
  also have "\<dots> = g\<lparr>nodes := map (\<lambda>n. if n_id n \<in> set (i # is)
      then fill_tier (default_assign_tier g (n_id n)) n else n) (nodes g)\<rparr>"
    unfolding n by (auto simp: comp_def fill_tier_def)
  finally show ?case .
qed simp

text \<open>
  Tier assignment completes a plan and changes nothing else: in a graph with distinct ids,
  every node ends with a tier; a declared tier, and every other field of the graph, is kept; an
  omitted tier becomes 3 for two or more dependencies, else 2 with dependents, else 1.
\<close>

theorem assign_tiers_default_exact:
  assumes "distinct (node_ids g)"
  shows "assign_tiers default_assign_tier g =
     g\<lparr>nodes := map (\<lambda>n. case n_tier n of
         Some t \<Rightarrow> n
       | None \<Rightarrow> n\<lparr>n_tier := Some (default_assign_tier g (n_id n))\<rparr>) (nodes g)\<rparr>"
  using assign_tiers_loop_default [OF assms, of "node_ids g"]
  by (auto simp: assign_tiers_def fill_tier_def split: option.splits)

theorem assign_tiers_default_exact_witness:
  "assign_tiers default_assign_tier sample_graph =
     sample_graph\<lparr>nodes := map (\<lambda>n. case n_tier n of
         Some t \<Rightarrow> n
       | None \<Rightarrow> n\<lparr>n_tier := Some (default_assign_tier sample_graph (n_id n))\<rparr>) (nodes sample_graph)\<rparr>"
  by (rule assign_tiers_default_exact) (simp add: sample_graph_def sample_node_def)

section \<open>Laws of the ratchet\<close>

lemma raised_tier_ge: "base \<le> raised_tier base q"
  by (auto simp: raised_tier_def intro: risk_floor_raises split: option.splits)

text \<open>What the ratchet may do to one node.\<close>

definition ratchet_ok :: "task_node \<Rightarrow> task_node \<Rightarrow> bool" where
  "ratchet_ok n m \<longleftrightarrow>
     n_id m = n_id n \<and> n_description m = n_description n \<and> n_depends_on m = n_depends_on n \<and>
     n_gate m = n_gate n \<and> n_allowed_paths m = n_allowed_paths n \<and>
     (\<forall>t. n_tier n = Some t \<longrightarrow> (\<exists>t'. n_tier m = Some t' \<and> t \<le> t'))"

lemma ratchet_ok_refl [simp]: "ratchet_ok n n"
  by (simp add: ratchet_ok_def)

lemma ratchet_ok_trans: "ratchet_ok a b \<Longrightarrow> ratchet_ok b c \<Longrightarrow> ratchet_ok a c"
  by (fastforce simp: ratchet_ok_def)

lemma ratchet_ok_store:
  "\<forall>t. n_tier n = Some t \<longrightarrow> t \<le> t' \<Longrightarrow> ratchet_ok n (store_sample s h t' n)"
  by (auto simp: ratchet_ok_def store_sample_def split: risk_sample.splits)

lemma list_all2_update_node:
  "(\<And>n. find (\<lambda>n. n_id n = i) ns = Some n \<Longrightarrow> ratchet_ok n (f n)) \<Longrightarrow>
     list_all2 ratchet_ok ns (update_node i f ns)"
  by (induction ns) (auto simp: list_all2_refl)

lemma risk_ratchet_loop_ok:
  "risk_ratchet_loop sha score is g w = (e, g', w') \<Longrightarrow>
     graph_id g' = graph_id g \<and> list_all2 ratchet_ok (nodes g) (nodes g')"
proof (induction "is" arbitrary: g w)
  case Nil
  then show ?case by (auto simp: list_all2_refl)
next
  case (Cons i "is")
  show ?case
  proof (cases "find_node g i")
    case None
    then show ?thesis using Cons by simp
  next
    case (Some n)
    let ?h = "risk_prompt_hash sha (risk_subject (n_description n))"
    let ?raise = "\<lambda>s. g\<lparr>nodes := update_node i (store_sample s ?h
      (raised_tier (base_tier g i (n_tier n)) (sample_q s))) (nodes g)\<rparr>"
    have raise: "list_all2 ratchet_ok (nodes g) (nodes (?raise s))" for s
    proof -
      have "ratchet_ok n (store_sample s ?h (raised_tier (base_tier g i (n_tier n)) (sample_q s)) n)"
        using raised_tier_ge [of "base_tier g i (n_tier n)" "sample_q s"]
        by (intro ratchet_ok_store) (auto simp: base_tier_def)
      then show ?thesis
        using Some by (auto simp: find_node_def intro!: list_all2_update_node)
    qed
    have "g' = g \<or> (\<exists>s w1. risk_ratchet_loop sha score is (?raise s) w1 = (e, g', w'))"
      using Cons.prems Some
      by (cases "stored_risk_q n ?h"; cases "score (risk_subject (n_description n)) w")
        (auto simp: Let_def split: sum.split_asm)
    then show ?thesis
    proof
      assume "\<exists>s w1. risk_ratchet_loop sha score is (?raise s) w1 = (e, g', w')"
      then obtain s w1 where "risk_ratchet_loop sha score is (?raise s) w1 = (e, g', w')" by blast
      from Cons.IH [OF this] show ?thesis
        using list_all2_trans [OF ratchet_ok_trans raise [of s]] by auto
    qed (simp add: list_all2_refl)
  qed
qed

text \<open>
  The risk ratchet only raises: whatever the decision port answers, and also when it fails
  half way, no declared tier is lowered, and no id, description, dependency, gate or path rule
  of the plan changes.
\<close>

theorem risk_ratchet_never_lowers:
  assumes "apply_risk_ratchet sha score g w = (e, g', w')"
  shows "graph_id g' = graph_id g \<and> length (nodes g') = length (nodes g) \<and>
     (\<forall>i. i < length (nodes g) \<longrightarrow>
        ratchet_ok (nodes g ! i) (nodes g' ! i))"
  using risk_ratchet_loop_ok [OF assms [unfolded apply_risk_ratchet_def]]
  by (auto simp: list_all2_conv_all_nth)

theorem risk_ratchet_never_lowers_witness:
  "\<exists>e g'. apply_risk_ratchet (\<lambda>x. x) (\<lambda>s w. (Inr (Score (FiniteScore (Fin 1))), w)) sample_graph ()
       = (e, g', ()) \<and> ratchet_ok (nodes sample_graph ! 0) (nodes g' ! 0)"
proof -
  obtain e g' where run: "apply_risk_ratchet (\<lambda>x. x) (\<lambda>s w. (Inr (Score (FiniteScore (Fin 1))), w))
      sample_graph () = (e, g', ())" by (metis prod.exhaust unit.exhaust)
  moreover have "0 < length (nodes sample_graph)" by (simp add: sample_graph_def)
  ultimately show ?thesis using risk_ratchet_never_lowers [OF run] by blast
qed

end
