(* ===== verification/Engine_Verify.thy ===== *)
theory Engine_Verify
  imports Engine_Ports Domain_Diagnostic
begin

text \<open>
  \<open>crates/meshloop-engine/src/verify.rs\<close> and the comparison of \<open>slice.rs\<close>: the checks on a
  candidate diff and the dual-threshold model review. The decimal form of an \<open>f64\<close> is a
  parameter.
\<close>

section \<open>Diff checks\<close>

definition annotate_with_lattice :: "string \<Rightarrow> diagnostic_lattice \<times> string" where
  "annotate_with_lattice output =
     (let l = parse_diagnostics output; p = lattice_progress l
      in (l, ''lattice='' @ hex16 (fingerprint l) @ '' syntax='' @ show_word (p_syntax p) @
             '' type='' @ show_word (p_type_errors p) @ '' test='' @ show_word (p_tests p) @
             '' blocking='' @ show_nat (blocking l) @ [CHR 0x0A] @ output))"

definition git_diff_exit_code :: "diff_summary \<Rightarrow> bool \<Rightarrow> i32" where
  "git_diff_exit_code d empty_ok = (if ds_files d = [] \<and> \<not> empty_ok then 1 else 0)"

definition slashed :: "string \<Rightarrow> string" where
  "slashed s = replace_char CHR 0x5C CHR ''/'' s"

definition path_allowed :: "string \<Rightarrow> string list \<Rightarrow> bool" where
  "path_allowed changed allowed =
     (if allowed = [] then True
      else list_ex (\<lambda>rule. if ends_with (slashed rule) ''/''
             then starts_with (slashed changed) (slashed rule)
             else slashed changed = slashed rule) allowed)"

definition all_paths_allowed :: "string list \<Rightarrow> string list \<Rightarrow> bool" where
  "all_paths_allowed files allowed \<longleftrightarrow> allowed = [] \<or> list_all (\<lambda>f. path_allowed f allowed) files"

definition verification_passed :: "evidence list \<Rightarrow> bool" where
  "verification_passed rows \<longleftrightarrow> all_deterministic_passed rows \<and> satisfies DeterministicOnly rows"

section \<open>Model review\<close>

datatype candidate_review = ReviewPass evidence | ReviewFail evidence | ReviewAbstain

definition model_review ::
    "(f64 \<Rightarrow> string) \<Rightarrow> candidate_ref \<Rightarrow> review_verdict \<Rightarrow> f64 \<Rightarrow> evidence" where
  "model_review show_f64 c verdict p =
     ModelReview \<lparr>mr_candidate = c, mr_harness = ''noul'', mr_model_ref = ''scripted'',
       mr_verdict = verdict, mr_rationale_redacted = ''p='' @ show_f64 p\<rparr>"

definition evaluate_candidate_diff ::
    "(f64 \<Rightarrow> string) \<Rightarrow> tier \<Rightarrow> bool \<Rightarrow> confidence option \<Rightarrow> candidate_ref \<Rightarrow> candidate_review" where
  "evaluate_candidate_diff show_f64 t checks_passed acceptability c =
     (case t of
        Tier3 \<Rightarrow> ReviewAbstain
      | _ \<Rightarrow>
          (case acceptability of
             None \<Rightarrow> ReviewAbstain
           | Some conf \<Rightarrow>
               (let p = confidence_get conf in
                if f_le p f64_0_05 then ReviewFail (model_review show_f64 c Fail p)
                else if checks_passed \<and> f_le f64_0_95 p
                then ReviewPass (model_review show_f64 c Pass p)
                else ReviewAbstain)))"

definition acceptability_from_noul ::
    "(string \<Rightarrow> decision_port_error + decision_outcome) \<Rightarrow> string \<Rightarrow>
       decision_port_error + confidence option" where
  "acceptability_from_noul noul proposition =
     try_res (noul proposition) (\<lambda>o'. Inr
       (case o' of
          Score s \<Rightarrow> res_ok (confidence_try_new (score_get s))
        | _ \<Rightarrow> None))"

section \<open>Signature impact\<close>

text \<open>A snapshot's \<open>BTreeMap\<close> is the list of its entries in key order.\<close>

type_synonym signature_snapshot = "(string \<times> u64) list"

datatype impact =
    BodyOnly
  | SignatureChanged "string list"
  | MembershipChanged "string list" "string list"

definition snapshot_impact :: "signature_snapshot \<Rightarrow> signature_snapshot \<Rightarrow> impact" where
  "snapshot_impact before_s after_s =
     (let added = filter (\<lambda>p. p \<notin> fst ` set before_s) (map fst after_s);
          removed = filter (\<lambda>p. p \<notin> fst ` set after_s) (map fst before_s)
      in if added \<noteq> [] \<or> removed \<noteq> [] then MembershipChanged added removed
         else
           let changed = map fst (filter (\<lambda>(p, h). map_of before_s p \<noteq> Some h) after_s)
           in if changed = [] then BodyOnly else SignatureChanged changed)"

definition skip_full_compile :: "impact \<Rightarrow> diagnostic_lattice \<Rightarrow> bool" where
  "skip_full_compile i l \<longleftrightarrow>
     i = BodyOnly \<and> lattice_count l Syntax = 0 \<and> lattice_count l Type = 0"

lemma snapshot_impact_BodyOnly:
  assumes "distinct (map fst b)" "distinct (map fst a)"
  shows "snapshot_impact b a = BodyOnly \<longleftrightarrow> map_of b = map_of a"
proof
  assume i: "snapshot_impact b a = BodyOnly"
  then have m: "fst ` set a = fst ` set b"
    by (force simp: snapshot_impact_def Let_def filter_empty_conv split: if_splits)
  have "\<forall>(p, h) \<in> set a. map_of b p = Some h"
    using i by (auto simp: snapshot_impact_def Let_def filter_empty_conv split: if_splits)
  then have "map_of a p = Some h \<Longrightarrow> map_of b p = Some h" for p h
    by (auto dest: map_of_SomeD)
  moreover have "map_of a p = None \<longleftrightarrow> map_of b p = None" for p
    using m by (simp add: map_of_eq_None_iff)
  ultimately show "map_of b = map_of a" by (metis ext not_Some_eq)
next
  assume e: "map_of b = map_of a"
  then have "fst ` set a = fst ` set b" by (metis dom_map_of_conv_image_fst)
  moreover have "\<forall>(p, h) \<in> set a. map_of b p = Some h" using e assms by auto
  ultimately show "snapshot_impact b a = BodyOnly"
    by (auto simp: snapshot_impact_def Let_def filter_empty_conv)
qed

section \<open>Laws\<close>

lemma verification_passed_iff: "verification_passed rows \<longleftrightarrow> all_deterministic_passed rows"
  using all_deterministic_passed_satisfies by (auto simp: verification_passed_def)

lemma thresholds_disjoint: "\<not> (f_le p f64_0_05 \<and> f_le f64_0_95 p)"
  using f_le_trans [of f64_0_95 p f64_0_05] by (auto simp: f64_literals)

lemma path_allowed_iff:
  "path_allowed f allowed \<longleftrightarrow> allowed = [] \<or>
     (\<exists>rule \<in> set allowed. slashed f = slashed rule \<or>
        (ends_with (slashed rule) ''/'' \<and> (\<exists>rest. slashed f = slashed rule @ rest)))"
proof -
  have "(if ends_with (slashed rule) ''/'' then starts_with (slashed f) (slashed rule)
      else slashed f = slashed rule) \<longleftrightarrow>
    slashed f = slashed rule \<or>
      (ends_with (slashed rule) ''/'' \<and> (\<exists>rest. slashed f = slashed rule @ rest))" for rule
    by (auto simp: starts_with_iff_prefix)
  then show ?thesis by (simp add: path_allowed_def list_ex_iff)
qed

text \<open>
  Model review never accepts what needs a human: a passing review has a tier below 3,
  passed deterministic checks and a probability of at least 0.95; a failing one has at most
  0.05; both rows are bound to the candidate, and Tier 3 always abstains.
\<close>

theorem model_review_gate:
  "evaluate_candidate_diff show_f64 Tier3 checks acc c = ReviewAbstain \<and>
   (evaluate_candidate_diff show_f64 t checks acc c = ReviewPass e \<longrightarrow>
      t \<noteq> Tier3 \<and> checks \<and> evidence_candidate e = c \<and>
      (\<exists>conf. acc = Some conf \<and> f_le f64_0_95 (confidence_get conf) \<and>
        \<not> f_le (confidence_get conf) f64_0_05)) \<and>
   (evaluate_candidate_diff show_f64 t checks acc c = ReviewFail e \<longrightarrow>
      t \<noteq> Tier3 \<and> evidence_candidate e = c \<and>
      (\<exists>conf. acc = Some conf \<and> f_le (confidence_get conf) f64_0_05))"
  by (auto simp: evaluate_candidate_diff_def Let_def model_review_def
      split: tier.splits option.splits if_splits)

theorem model_review_gate_witness:
  "f_le f64_0_95 (Fin 1) \<and>
   evaluate_candidate_diff (\<lambda>_. []) Tier3 True (Some (Confidence (Fin 1)))
     \<lparr>cr_task_id = 1, cr_attempt_id = 1, cr_revision = ''abc''\<rparr> = ReviewAbstain"
proof -
  let ?c = "\<lparr>cr_task_id = 1, cr_attempt_id = 1, cr_revision = ''abc''\<rparr>"
  have run: "evaluate_candidate_diff (\<lambda>_. []) Tier1 True (Some (Confidence (Fin 1))) ?c =
      ReviewPass (model_review (\<lambda>_. []) ?c Pass (Fin 1))"
    by (simp add: evaluate_candidate_diff_def Let_def f64_literals)
  show ?thesis
    using model_review_gate [of "\<lambda>_. []" True "Some (Confidence (Fin 1))" ?c Tier1
        "model_review (\<lambda>_. []) ?c Pass (Fin 1)"] run by simp
qed

text \<open>
  A path outside the declared scope fails the scope check: with a non-empty list of rules,
  every changed file, with backslashes read as slashes, is named by a rule exactly or lies below
  a rule that ends in a slash.
\<close>

theorem scope_check_sound:
  assumes "all_paths_allowed files allowed" and "allowed \<noteq> []" and "f \<in> set files"
  shows "\<exists>rule. rule \<in> set allowed \<and>
     (slashed f = slashed rule \<or>
      ends_with (slashed rule) ''/'' \<and> (\<exists>rest. slashed f = slashed rule @ rest))"
proof -
  have "path_allowed f allowed" using assms by (auto simp: all_paths_allowed_def list_all_iff)
  then show ?thesis using assms(2) by (auto simp: path_allowed_iff)
qed

theorem scope_check_sound_witness:
  "\<exists>rule. rule \<in> set [''crates/a/''] \<and>
     (slashed ''crates/a/x.rs'' = slashed rule \<or>
      ends_with (slashed rule) ''/'' \<and> (\<exists>rest. slashed ''crates/a/x.rs'' = slashed rule @ rest))"
  by (rule scope_check_sound [of "[''crates/a/x.rs'']"])
    (simp_all add: all_paths_allowed_def path_allowed_def slashed_def replace_char_def
      ends_with_def starts_with_def)

end
