(* ===== verification/Engine_Recovery.thy ===== *)
theory Engine_Recovery
  imports Engine_Ports
begin

text \<open>
  \<open>crates/meshloop-engine/src/recovery.rs\<close>: the state of a run is a fold of its event log.
  \<open>replay_tasks\<close> is the per-task fold that \<open>tick\<close>, \<open>status\<close> and \<open>resume\<close> read; it is
  compared with the runs of the task machine, task by task.
\<close>

type_synonym attempt_key = "task_id \<times> attempt_id"

definition replay :: "transition_record list \<Rightarrow> (attempt_key \<rightharpoonup> task_state)" where
  "replay records =
     foldl (\<lambda>p r. case tr_attempt_id r of
                 Some a \<Rightarrow> p((tr_task_id r, a) \<mapsto> tr_to r)
               | None \<Rightarrow> p) Map.empty records"

definition fold_mismatch :: "task_id \<Rightarrow> task_state \<Rightarrow> event \<Rightarrow> task_state \<Rightarrow> task_state \<Rightarrow> store_error" where
  "fold_mismatch t from ev other recorded =
     Corrupt (''illegal fold for task '' @ show_word t @ '': '' @ state_name from @ '' + '' @
       event_name ev @ '' => '' @ state_name other @ '' (recorded '' @ state_name recorded @ '')'')"

definition fold_illegal :: "task_id \<Rightarrow> task_state \<Rightarrow> event \<Rightarrow> store_error" where
  "fold_illegal t from ev =
     Corrupt (''illegal transition for task '' @ show_word t @ '': '' @ state_name from @ '' + '' @
       event_name ev)"

definition replay_step ::
    "(task_id \<rightharpoonup> task_state) \<Rightarrow> transition_record \<Rightarrow> store_error + (task_id \<rightharpoonup> task_state)" where
  "replay_step p r =
     (let from = (case p (tr_task_id r) of Some s \<Rightarrow> s | None \<Rightarrow> tr_from r)
      in case transition from (tr_event r) of
        Inr to \<Rightarrow>
          if to = tr_to r then Inr (p(tr_task_id r \<mapsto> to))
          else Inl (fold_mismatch (tr_task_id r) from (tr_event r) to (tr_to r))
      | Inl _ \<Rightarrow> Inl (fold_illegal (tr_task_id r) from (tr_event r)))"

fun replay_from ::
    "(task_id \<rightharpoonup> task_state) \<Rightarrow> transition_record list \<Rightarrow> store_error + (task_id \<rightharpoonup> task_state)" where
  "replay_from p [] = Inr p"
| "replay_from p (r # rs) = try_res (replay_step p r) (\<lambda>p'. replay_from p' rs)"

definition replay_tasks :: "transition_record list \<Rightarrow> store_error + (task_id \<rightharpoonup> task_state)" where
  "replay_tasks records = replay_from Map.empty records"

definition reconcile ::
    "transition_record list \<Rightarrow> attempt_key set \<Rightarrow> (attempt_key \<rightharpoonup> task_state)" where
  "reconcile records live =
     (\<lambda>k. case replay records k of
            Some s \<Rightarrow> Some (if s = Running \<and> k \<notin> live then Blocked else s)
          | None \<Rightarrow> None)"

section \<open>The per-task reading of a log\<close>

definition task_log :: "task_id \<Rightarrow> transition_record list \<Rightarrow> transition_record list" where
  "task_log t rs = filter (\<lambda>r. tr_task_id r = t) rs"

text \<open>\<open>chain s rs\<close>: from \<open>s\<close>, every record is the step the transition table prescribes.\<close>

fun chain :: "task_state \<Rightarrow> transition_record list \<Rightarrow> bool" where
  "chain s [] = True"
| "chain s (r # rs) \<longleftrightarrow> transition s (tr_event r) = Inr (tr_to r) \<and> chain (tr_to r) rs"

definition chain_end :: "task_state option \<Rightarrow> transition_record list \<Rightarrow> task_state option" where
  "chain_end s rs = (if rs = [] then s else Some (tr_to (last rs)))"

definition legal_from :: "task_state option \<Rightarrow> transition_record list \<Rightarrow> bool" where
  "legal_from s rs =
     (case rs of [] \<Rightarrow> True | r # _ \<Rightarrow> chain (case s of Some x \<Rightarrow> x | None \<Rightarrow> tr_from r) rs)"

lemma chain_run: "chain s rs \<longleftrightarrow>
    (\<forall>i < length rs. run_events s (map tr_event (take (Suc i) rs)) = Inr (tr_to (rs ! i)))"
proof (induction rs arbitrary: s)
  case (Cons r rs)
  show ?case
  proof
    assume c: "chain s (r # rs)"
    show "\<forall>i < length (r # rs). run_events s (map tr_event (take (Suc i) (r # rs))) =
        Inr (tr_to ((r # rs) ! i))"
    proof (intro allI impI)
      fix i assume "i < length (r # rs)"
      then show "run_events s (map tr_event (take (Suc i) (r # rs))) = Inr (tr_to ((r # rs) ! i))"
        using c Cons.IH [of "tr_to r"] by (cases i) auto
    qed
  next
    assume a: "\<forall>i < length (r # rs). run_events s (map tr_event (take (Suc i) (r # rs))) =
        Inr (tr_to ((r # rs) ! i))"
    then have t: "transition s (tr_event r) = Inr (tr_to r)" by (force simp: try_res_eq_Inr)
    have "run_events (tr_to r) (map tr_event (take (Suc i) rs)) = Inr (tr_to (rs ! i))"
      if "i < length rs" for i
      using a [rule_format, of "Suc i"] that t by simp
    then show "chain s (r # rs)" using t Cons.IH by simp
  qed
qed simp

lemma chain_append: "chain s (rs @ [r]) \<longleftrightarrow>
    chain s rs \<and> transition (if rs = [] then s else tr_to (last rs)) (tr_event r) = Inr (tr_to r)"
  by (induction rs arbitrary: s) auto

lemma replay_step_Inr:
  "replay_step p r = Inr q \<longleftrightarrow>
     transition (case p (tr_task_id r) of Some s \<Rightarrow> s | None \<Rightarrow> tr_from r) (tr_event r) = Inr (tr_to r) \<and>
     q = p(tr_task_id r \<mapsto> tr_to r)"
  by (auto simp: replay_step_def Let_def split: sum.splits)

lemma replay_from_Inr:
  "replay_from p rs = Inr q \<longleftrightarrow>
     (\<forall>t. legal_from (p t) (task_log t rs)) \<and> q = (\<lambda>t. chain_end (p t) (task_log t rs))"
proof (induction rs arbitrary: p)
  case Nil
  then show ?case by (auto simp: task_log_def legal_from_def chain_end_def)
next
  case (Cons r rs)
  let ?t = "tr_task_id r"
  let ?from = "case p ?t of Some s \<Rightarrow> s | None \<Rightarrow> tr_from r"
  let ?p = "p(?t \<mapsto> tr_to r)"
  have legal: "(\<forall>t. legal_from (p t) (task_log t (r # rs))) \<longleftrightarrow>
      transition ?from (tr_event r) = Inr (tr_to r) \<and> (\<forall>t. legal_from (?p t) (task_log t rs))"
  proof -
    have "legal_from (p ?t) (task_log ?t (r # rs)) \<longleftrightarrow>
        transition ?from (tr_event r) = Inr (tr_to r) \<and> legal_from (?p ?t) (task_log ?t rs)"
      by (cases "task_log ?t rs") (auto simp: task_log_def legal_from_def)
    moreover have "legal_from (p t) (task_log t (r # rs)) = legal_from (?p t) (task_log t rs)"
      if "t \<noteq> ?t" for t using that by (simp add: task_log_def)
    ultimately show ?thesis by metis
  qed
  have ends: "chain_end (p t) (task_log t (r # rs)) = chain_end (?p t) (task_log t rs)" for t
    by (simp add: task_log_def chain_end_def)
  have "replay_from p (r # rs) = Inr q \<longleftrightarrow>
      transition ?from (tr_event r) = Inr (tr_to r) \<and> replay_from ?p rs = Inr q"
    by (auto simp: try_res_eq_Inr replay_step_Inr)
  then show ?case by (simp only: Cons.IH legal ends simp_thms conj_assoc)
qed

lemma replay_tasks_Inr:
  "replay_tasks rs = Inr q \<longleftrightarrow>
     (\<forall>t. legal_from None (task_log t rs)) \<and> q = (\<lambda>t. chain_end None (task_log t rs))"
  by (simp add: replay_tasks_def replay_from_Inr)

lemma replay_from_append:
  "replay_from p (xs @ ys) = try_res (replay_from p xs) (\<lambda>q. replay_from q ys)"
  by (induction xs arbitrary: p) (auto simp: try_res_def split: sum.splits)

lemma replay_tasks_snoc:
  assumes "replay_tasks rs = Inr p"
  shows "replay_tasks (rs @ [r]) = replay_step p r"
  using assms by (auto simp: replay_tasks_def replay_from_append try_res_def split: sum.splits)

section \<open>Properties of recovery\<close>

lemma replay_snoc:
  "replay (rs @ [r]) =
     (case tr_attempt_id r of Some a \<Rightarrow> (replay rs)((tr_task_id r, a) \<mapsto> tr_to r) | None \<Rightarrow> replay rs)"
  by (simp add: replay_def split: option.splits)

lemma replay_last:
  "replay rs (t, a) =
     (case filter (\<lambda>r. tr_task_id r = t \<and> tr_attempt_id r = Some a) rs of
        [] \<Rightarrow> None | l \<Rightarrow> Some (tr_to (last l)))"
proof (induction rs rule: rev_induct)
  case Nil
  then show ?case by (simp add: replay_def)
next
  case (snoc r rs)
  then show ?case
    by (auto simp: replay_snoc split: option.splits list.splits)
qed

text \<open>
  C14. Replay is the task machine, task by task: it succeeds exactly when, for every task, the
  records of that task alone form a legal run of \<open>transition\<close> from the state the task's first
  record names, each record carrying the state the run is in after it; the result is the state
  after the last record. Records of other tasks never matter.
\<close>

theorem replay_is_per_task_run:
  "(replay_tasks rs = Inr q) =
     ((\<forall>t. case task_log t rs of
             [] \<Rightarrow> True
           | r # l \<Rightarrow> (\<forall>i < length (r # l).
               run_events (tr_from r) (map tr_event (take (Suc i) (r # l))) = Inr (tr_to ((r # l) ! i)))) \<and>
      q = (\<lambda>t. if task_log t rs = [] then None else Some (tr_to (last (task_log t rs)))))"
proof -
  have "legal_from None (task_log t rs) =
      (case task_log t rs of [] \<Rightarrow> True | r # l \<Rightarrow> (\<forall>i < length (r # l).
         run_events (tr_from r) (map tr_event (take (Suc i) (r # l))) = Inr (tr_to ((r # l) ! i))))" for t
    by (cases "task_log t rs")
      (simp_all only: legal_from_def chain_run list.case option.case)
  then show ?thesis by (simp add: replay_tasks_Inr chain_end_def)
qed

definition sample_record :: "task_id \<Rightarrow> task_state \<Rightarrow> event \<Rightarrow> task_state \<Rightarrow> transition_record" where
  "sample_record t from ev to =
     \<lparr>tr_graph_id = ''g-1'', tr_task_id = t, tr_attempt_id = Some 1, tr_from = from, tr_to = to,
      tr_event = ev, tr_reason = None, tr_executor = ''meshloop'', tr_occurred_at = []\<rparr>"

theorem replay_is_per_task_run_witness:
  "replay_tasks [sample_record 1 Pending DependencySatisfied Ready,
     sample_record 2 Pending DependencySatisfied Ready,
     sample_record 1 Ready AttemptStarted Running] = Inr [1 \<mapsto> Running, 2 \<mapsto> Ready]"
  (is "replay_tasks ?rs = Inr ?q")
proof (rule iffD2 [OF replay_is_per_task_run], intro conjI allI)
  fix t :: task_id
  consider "t = 1" | "t = 2" | "t \<noteq> 1" "t \<noteq> 2" by blast
  then show "case task_log t ?rs of [] \<Rightarrow> True
     | r # l \<Rightarrow> (\<forall>i < length (r # l).
         run_events (tr_from r) (map tr_event (take (Suc i) (r # l))) = Inr (tr_to ((r # l) ! i)))"
    by cases
      (auto simp: task_log_def sample_record_def transition_def less_Suc_eq take_Cons split: nat.splits)
next
  show "?q = (\<lambda>t. if task_log t ?rs = [] then None else Some (tr_to (last (task_log t ?rs))))"
    by (auto simp: task_log_def sample_record_def fun_eq_iff)
qed

lemma reconcile_dom: "dom (reconcile rs live) = dom (replay rs)"
  by (auto simp: reconcile_def split: option.splits)

lemma reconcile_all_live: "reconcile rs (dom (replay rs)) = replay rs"
  by (auto simp: reconcile_def dom_def fun_eq_iff split: option.splits)

section \<open>The event log interface\<close>

text \<open>
  \<open>EventLog\<close>: what a successful append adds to a graph's records. Reading and writing may fail;
  a failed write says nothing of the store, so the laws are about successful ones.
\<close>

locale event_log =
  fixes append :: "transition_record \<Rightarrow> 's \<Rightarrow> store_error + 's"
    and records_for_graph :: "'s \<Rightarrow> string \<Rightarrow> store_error + transition_record list"
  assumes records_append:
    "append r s = Inr s' \<Longrightarrow> records_for_graph s g = Inr rs \<Longrightarrow>
       records_for_graph s' g = Inr (rs @ (if tr_graph_id r = g then [r] else []))"
begin

definition replays_to :: "'s \<Rightarrow> string \<Rightarrow> (task_id \<rightharpoonup> task_state) \<Rightarrow> bool" where
  "replays_to s g p \<longleftrightarrow> (\<exists>rs. records_for_graph s g = Inr rs \<and> replay_tasks rs = Inr p)"

lemma append_replays:
  assumes "replays_to s g p" "append r s = Inr s'" "tr_graph_id r = g"
    and "transition (case p (tr_task_id r) of Some x \<Rightarrow> x | None \<Rightarrow> tr_from r) (tr_event r) = Inr (tr_to r)"
  shows "replays_to s' g (p(tr_task_id r \<mapsto> tr_to r))"
proof -
  obtain rs where rs: "records_for_graph s g = Inr rs" "replay_tasks rs = Inr p"
    using assms(1) by (auto simp: replays_to_def)
  have "records_for_graph s' g = Inr (rs @ [r])"
    using records_append [OF assms(2) rs(1)] assms(3) by simp
  moreover have "replay_tasks (rs @ [r]) = Inr (p(tr_task_id r \<mapsto> tr_to r))"
    using replay_tasks_snoc [OF rs(2), of r] replay_step_Inr assms(4) by metis
  ultimately show ?thesis by (auto simp: replays_to_def)
qed

lemma append_other_graph:
  assumes "replays_to s g p" "append r s = Inr s'" "tr_graph_id r \<noteq> g"
  shows "replays_to s' g p"
  using assms records_append [OF assms(2)] by (fastforce simp: replays_to_def)

end

end
