(* ===== verification/Adapter_Store.thy ===== *)
theory Adapter_Store
  imports Engine_Recovery
begin

text \<open>
  \<open>crates/meshloop-adapters/src/store.rs\<close>: the SQLite store, as its tables. A row holds what
  the column holds: states and events are text and are parsed when they are read. A statement
  that SQLite refuses (I/O, locking) is not an operation here; the run loop decides before each
  call whether the database fails (\<open>Engine_Run_State\<close>). Evidence payloads are stored as JSON and
  read back with \<open>serde_json\<close>; a row is the evidence value itself.
\<close>

section \<open>Stored text\<close>

definition state_table :: "(string \<times> task_state) list" where
  "state_table =
     [(''Pending'', Pending), (''Ready'', Ready), (''Running'', Running), (''Verifying'', Verifying),
      (''AwaitingReview'', AwaitingReview), (''Accepted'', Accepted), (''Integrated'', Integrated),
      (''Failed'', Failed), (''Cancelled'', Cancelled), (''Blocked'', Blocked)]"

definition parse_state :: "string \<Rightarrow> store_error + task_state" where
  "parse_state s =
     (case map_of state_table s of
        Some x \<Rightarrow> Inr x
      | None \<Rightarrow> Inl (Corrupt (''unknown state '' @ s)))"

definition event_table :: "(string \<times> event) list" where
  "event_table =
     [(''DependencySatisfied'', DependencySatisfied),
      (''DependencyFailedOrScopeRevoked'', DependencyFailedOrScopeRevoked),
      (''AttemptStarted'', AttemptStarted), (''HarnessExited'', HarnessExited),
      (''HarnessCrashedOrTimeout'', HarnessCrashedOrTimeout), (''Cancel'', Cancel),
      (''DeterministicChecksPassed'', DeterministicChecksPassed),
      (''DeterministicChecksFailed'', DeterministicChecksFailed),
      (''ModelReviewPassed'', ModelReviewPassed),
      (''HumanAcceptanceRecorded'', HumanAcceptanceRecorded), (''ReviewRejected'', ReviewRejected),
      (''IntegrationOwnerMerge'', IntegrationOwnerMerge), (''StaleBaseDetected'', StaleBaseDetected),
      (''RetryAuthorized'', RetryAuthorized), (''LiveWorkerSettled'', LiveWorkerSettled),
      (''DependencyCleared'', DependencyCleared), (''GraphMutated'', GraphMutated),
      (''VerifyGatePassed'', VerifyGatePassed)]"

definition parse_event :: "string \<Rightarrow> store_error + event" where
  "parse_event s =
     (case map_of event_table s of
        Some x \<Rightarrow> Inr x
      | None \<Rightarrow> Inl (Corrupt (''unknown event '' @ s)))"

definition plan_state_table :: "(string \<times> plan_state) list" where
  "plan_state_table =
     [(''AwaitingPlanReview'', AwaitingPlanReview), (''PlanAccepted'', PlanAccepted),
      (''PlanDeclined'', PlanDeclined)]"

definition parse_plan_state :: "string \<Rightarrow> store_error + plan_state" where
  "parse_plan_state s =
     (case map_of plan_state_table s of
        Some x \<Rightarrow> Inr x
      | None \<Rightarrow> Inl (Corrupt (''unknown plan state '' @ s)))"

lemma parse_state_name [codec_simps]: "parse_state (state_name s) = Inr s"
  by (cases s) (simp_all add: parse_state_def state_table_def state_name_def)

lemma parse_event_name [codec_simps]: "parse_event (event_name e) = Inr e"
  by (cases e) (simp_all add: parse_event_def event_table_def event_name_def)

lemma parse_plan_state_name [codec_simps]: "parse_plan_state (plan_state_name s) = Inr s"
  by (cases s) (simp_all add: parse_plan_state_def plan_state_table_def plan_state_name_def)

interpretation state_codec: codec state_name parse_state
  by unfold_locales (rule parse_state_name)

interpretation event_codec: codec event_name parse_event
  by unfold_locales (rule parse_event_name)

interpretation plan_state_codec: codec plan_state_name parse_plan_state
  by unfold_locales (rule parse_plan_state_name)

section \<open>Tables\<close>

record event_row =
  er_graph_id :: string
  er_task_id :: task_id
  er_attempt_id :: "attempt_id option"
  er_from :: string
  er_to :: string
  er_event :: string
  er_reason :: "string option"
  er_executor :: string
  er_occurred_at :: string

record run_db =
  rd_graph_id :: string
  rd_plan_state :: string
  rd_run_base :: string
  rd_integrate_ref :: string
  rd_plan_json :: string
  rd_plan_id :: string
  rd_created_at :: string
  rd_review_note :: "string option"

record driver_liveness =
  dl_graph_id :: string
  dl_pid :: u32
  dl_started_at :: string
  dl_heartbeat_at :: string
  dl_exit_code :: "i32 option"
  dl_log_path :: string

record sqlite_store =
  db_read_only :: bool
  db_events :: "event_row list"
  db_attempts :: "attempt_row list"
  db_evidence :: "evidence list"
  db_feedback :: "feedback_key \<rightharpoonup> nat \<times> nat"
  db_quota :: "string \<rightharpoonup> string \<times> string option \<times> u64"
  db_runs :: "run_db list"
  db_drivers :: "driver_liveness list"
  db_bindings :: "string list"
  db_legacy_runs :: "string list"
  db_legacy_attempts :: "string list"

section \<open>Ownership checks\<close>

definition legacy_ownership_unresolved :: "sqlite_store \<Rightarrow> string \<Rightarrow> bool" where
  "legacy_ownership_unresolved db g \<longleftrightarrow>
     g \<in> set (db_legacy_runs db) \<or>
     list_ex (\<lambda>a. at_graph_id a = g \<and> show_word (at_attempt_id a) \<in> set (db_legacy_attempts db))
       (db_attempts db)"

definition persistence_error :: store_error where
  "persistence_error = Corrupt ''lifecycle persistence constraint or operation failed''"

definition reject_bound_graph :: "sqlite_store \<Rightarrow> string \<Rightarrow> store_error + unit" where
  "reject_bound_graph db g =
     (if db_read_only db then Inl ReadOnly
      else if \<not> graph_id_is_legal g then Inl persistence_error
      else if g \<in> set (db_bindings db) \<or> legacy_ownership_unresolved db g
      then Inl LegacyOwnershipUnresolved
      else Inr ())"

definition find_attempt :: "sqlite_store \<Rightarrow> attempt_id \<Rightarrow> attempt_row option" where
  "find_attempt db a = find (\<lambda>r. at_attempt_id r = a) (db_attempts db)"

definition reject_legacy_attempt :: "sqlite_store \<Rightarrow> attempt_id \<Rightarrow> store_error + unit" where
  "reject_legacy_attempt db a =
     (if db_read_only db then Inl ReadOnly
      else if show_word a \<in> set (db_legacy_attempts db) then Inl LegacyOwnershipUnresolved
      else case find_attempt db a of
        Some r \<Rightarrow> reject_bound_graph db (at_graph_id r)
      | None \<Rightarrow> Inr ())"

section \<open>Event log\<close>

definition event_row_of :: "transition_record \<Rightarrow> event_row" where
  "event_row_of r =
     \<lparr>er_graph_id = tr_graph_id r, er_task_id = tr_task_id r, er_attempt_id = tr_attempt_id r,
      er_from = state_name (tr_from r), er_to = state_name (tr_to r),
      er_event = event_name (tr_event r), er_reason = tr_reason r, er_executor = tr_executor r,
      er_occurred_at = tr_occurred_at r\<rparr>"

definition record_of_row :: "event_row \<Rightarrow> store_error + transition_record" where
  "record_of_row e =
     try_res (parse_state (er_from e)) (\<lambda>from.
     try_res (parse_state (er_to e)) (\<lambda>to.
     try_res (parse_event (er_event e)) (\<lambda>ev.
       Inr \<lparr>tr_graph_id = er_graph_id e, tr_task_id = er_task_id e, tr_attempt_id = er_attempt_id e,
            tr_from = from, tr_to = to, tr_event = ev, tr_reason = er_reason e,
            tr_executor = er_executor e, tr_occurred_at = er_occurred_at e\<rparr>)))"

definition check_record :: "sqlite_store \<Rightarrow> transition_record \<Rightarrow> store_error + unit" where
  "check_record db r =
     try_res (reject_bound_graph db (tr_graph_id r)) (\<lambda>_.
       case tr_attempt_id r of Some a \<Rightarrow> reject_legacy_attempt db a | None \<Rightarrow> Inr ())"

definition db_append :: "transition_record \<Rightarrow> sqlite_store \<Rightarrow> store_error + sqlite_store" where
  "db_append r db =
     try_res (check_record db r) (\<lambda>_. Inr (db\<lparr>db_events := db_events db @ [event_row_of r]\<rparr>))"

fun map_res :: "('a \<Rightarrow> 'e + 'b) \<Rightarrow> 'a list \<Rightarrow> 'e + 'b list" where
  "map_res f [] = Inr []"
| "map_res f (x # xs) = try_res (f x) (\<lambda>y. try_res (map_res f xs) (\<lambda>ys. Inr (y # ys)))"

definition db_records_for_graph :: "sqlite_store \<Rightarrow> string \<Rightarrow> store_error + transition_record list" where
  "db_records_for_graph db g =
     map_res record_of_row (filter (\<lambda>e. er_graph_id e = g) (db_events db))"

lemma map_res_append:
  "map_res f (xs @ ys) = try_res (map_res f xs) (\<lambda>a. try_res (map_res f ys) (\<lambda>b. Inr (a @ b)))"
proof (induction xs)
  case (Cons x xs)
  then show ?case by (cases "f x"; cases "map_res f xs"; cases "map_res f ys") simp_all
qed (cases "map_res f ys"; simp)

lemma record_of_event_row [codec_simps]: "record_of_row (event_row_of r) = Inr r"
  by (simp add: record_of_row_def event_row_of_def codec_simps)

lemma db_append_Inr:
  "db_append r db = Inr db' \<longleftrightarrow>
     check_record db r = Inr () \<and> db' = db\<lparr>db_events := db_events db @ [event_row_of r]\<rparr>"
  by (auto simp: db_append_def try_res_eq_Inr)

interpretation sqlite_log: event_log db_append db_records_for_graph
proof
  fix r s s' g rs
  assume "db_append r s = Inr s'" "db_records_for_graph s g = Inr rs"
  then show "db_records_for_graph s' g = Inr (rs @ (if tr_graph_id r = g then [r] else []))"
    by (auto simp: db_append_Inr db_records_for_graph_def map_res_append codec_simps)
      (simp_all add: event_row_of_def)
qed

section \<open>Evidence and feedback\<close>

definition db_record :: "evidence \<Rightarrow> sqlite_store \<Rightarrow> store_error + sqlite_store" where
  "db_record e db =
     (let a = cr_attempt_id (evidence_candidate e) in
      try_res (reject_legacy_attempt db a) (\<lambda>_.
      try_res (case find_attempt db a of
                 Some r \<Rightarrow> reject_bound_graph db (at_graph_id r)
               | None \<Rightarrow> Inr ()) (\<lambda>_.
        Inr (db\<lparr>db_evidence := db_evidence db @ [e]\<rparr>))))"

definition db_evidence_for :: "sqlite_store \<Rightarrow> candidate_ref \<Rightarrow> evidence list" where
  "db_evidence_for db c =
     filter (\<lambda>e. cr_task_id (evidence_candidate e) = cr_task_id c \<and>
         cr_attempt_id (evidence_candidate e) = cr_attempt_id c \<and>
         cr_revision (evidence_candidate e) = cr_revision c) (db_evidence db)"

definition db_evidence_for_attempt :: "sqlite_store \<Rightarrow> task_id \<Rightarrow> attempt_id \<Rightarrow> evidence list" where
  "db_evidence_for_attempt db t a =
     filter (\<lambda>e. cr_task_id (evidence_candidate e) = t \<and> cr_attempt_id (evidence_candidate e) = a)
       (db_evidence db)"

definition db_record_row :: "evidence \<Rightarrow> sqlite_store \<Rightarrow> sqlite_store" where
  "db_record_row e db = db\<lparr>db_evidence := db_evidence db @ [e]\<rparr>"

lemma db_record_Inr: "db_record e db = Inr db' \<Longrightarrow> db' = db_record_row e db"
  by (auto simp: db_record_def db_record_row_def Let_def try_res_eq_Inr)

interpretation sqlite_evidence: evidence_store db_record_row db_evidence_for
proof
  fix e s c
  have "(cr_task_id (evidence_candidate e) = cr_task_id c \<and>
      cr_attempt_id (evidence_candidate e) = cr_attempt_id c \<and>
      cr_revision (evidence_candidate e) = cr_revision c) \<longleftrightarrow> evidence_candidate e = c"
    by (cases c; cases "evidence_candidate e") auto
  then show "db_evidence_for (db_record_row e s) c =
      db_evidence_for s c @ (if evidence_candidate e = c then [e] else [])"
    by (auto simp: db_evidence_for_def db_record_row_def)
qed

definition db_record_outcome :: "feedback_key \<Rightarrow> bool \<Rightarrow> sqlite_store \<Rightarrow> sqlite_store" where
  "db_record_outcome k ok db =
     (let inc = (if ok then (1, 0) else (0, 1));
          row = (case db_feedback db k of
                   Some (s, f) \<Rightarrow> (s + fst inc, f + snd inc)
                 | None \<Rightarrow> inc)
      in db\<lparr>db_feedback := (db_feedback db)(k \<mapsto> row)\<rparr>)"

text \<open>
  Columns are 64-bit; reading one that does not fit \<open>u32\<close> is an error of the driver, whose text is
  left empty.
\<close>

definition db_counters :: "sqlite_store \<Rightarrow> feedback_key \<Rightarrow> store_error + feedback_counters" where
  "db_counters db k =
     (case db_feedback db k of
        None \<Rightarrow> Inr counters_default
      | Some (s, f) \<Rightarrow>
          if s < 2 ^ 32 \<and> f < 2 ^ 32 then Inr \<lparr>fc_success = of_nat s, fc_failure = of_nat f\<rparr>
          else Inl (StoreIo []))"

definition db_counters_low :: "sqlite_store \<Rightarrow> feedback_key \<Rightarrow> feedback_counters" where
  "db_counters_low db k =
     (case db_feedback db k of
        None \<Rightarrow> counters_default
      | Some (s, f) \<Rightarrow> \<lparr>fc_success = of_nat s, fc_failure = of_nat f\<rparr>)"

lemma db_counters_Inr: "db_counters db k = Inr c \<Longrightarrow> c = db_counters_low db k"
  by (auto simp: db_counters_def db_counters_low_def split: option.splits if_splits)

interpretation sqlite_feedback: feedback_store db_record_outcome db_counters_low
proof
  fix k ok s k'
  show "db_counters_low (db_record_outcome k ok s) k' =
      (if k' = k then count_outcome ok (db_counters_low s k) else db_counters_low s k')"
    by (cases ok; cases "db_feedback s k")
      (auto simp: db_counters_low_def db_record_outcome_def count_outcome_def counters_default_def
        Let_def split: option.splits prod.splits)
qed

section \<open>Quota\<close>

definition breaker_name :: "breaker \<Rightarrow> string" where
  "breaker_name b = (case b of Closed \<Rightarrow> ''Closed'' | Open \<Rightarrow> ''Open'' | HalfOpen \<Rightarrow> ''HalfOpen'')"

definition parse_breaker :: "string \<Rightarrow> breaker" where
  "parse_breaker s = (if s = ''Open'' then Open else if s = ''HalfOpen'' then HalfOpen else Closed)"

text \<open>Times are nanoseconds since the epoch; the columns keep whole seconds and milliseconds.\<close>

definition db_load_quota :: "sqlite_store \<Rightarrow> string \<Rightarrow> quota_state" where
  "db_load_quota db h =
     (case db_quota db h of
        None \<Rightarrow> quota_default
      | Some (b, opened, cooldown_ms) \<Rightarrow>
          quota_from_parts (parse_breaker b)
            (case opened of
               Some s \<Rightarrow> map_option (\<lambda>secs. int secs * 1000000000) (parse_u64 s)
             | None \<Rightarrow> None)
            (unat cooldown_ms * 1000000))"

definition db_save_quota :: "string \<Rightarrow> quota_state \<Rightarrow> sqlite_store \<Rightarrow> sqlite_store" where
  "db_save_quota h q db =
     (let opened = (case q_opened_at q of
                      Some t \<Rightarrow> if 0 \<le> t then Some (show_nat (nat t div 1000000000)) else None
                    | None \<Rightarrow> None)
      in db\<lparr>db_quota := (db_quota db)(h \<mapsto>
           (breaker_name (q_state q), opened, of_nat (q_cooldown q div 1000000)))\<rparr>)"

section \<open>Runs\<close>

definition run_db_of :: "run_row \<Rightarrow> run_db" where
  "run_db_of r =
     \<lparr>rd_graph_id = run_graph_id r, rd_plan_state = plan_state_name (run_plan_state r),
      rd_run_base = run_base r, rd_integrate_ref = run_integrate_ref r,
      rd_plan_json = run_plan_json r, rd_plan_id = run_plan_id r,
      rd_created_at = run_created_at r, rd_review_note = run_review_note r\<rparr>"

definition run_of_db :: "run_db \<Rightarrow> store_error + run_row" where
  "run_of_db d =
     try_res (parse_plan_state (rd_plan_state d)) (\<lambda>ps.
       Inr \<lparr>run_graph_id = rd_graph_id d, run_plan_state = ps, run_base = rd_run_base d,
            run_integrate_ref = rd_integrate_ref d, run_plan_json = rd_plan_json d,
            run_plan_id = rd_plan_id d, run_created_at = rd_created_at d,
            run_review_note = rd_review_note d\<rparr>)"

text \<open>\<open>ON CONFLICT(graph_id) DO UPDATE\<close> keeps \<open>created_at\<close>.\<close>

definition upsert_run :: "run_db \<Rightarrow> run_db list \<Rightarrow> run_db list" where
  "upsert_run d ds =
     (if rd_graph_id d \<in> set (map rd_graph_id ds) then
        map (\<lambda>x. if rd_graph_id x = rd_graph_id d
                 then d\<lparr>rd_created_at := rd_created_at x\<rparr> else x) ds
      else ds @ [d])"

definition db_save_run :: "run_row \<Rightarrow> sqlite_store \<Rightarrow> store_error + sqlite_store" where
  "db_save_run r db =
     try_res (reject_bound_graph db (run_graph_id r)) (\<lambda>_.
       Inr (db\<lparr>db_runs := upsert_run (run_db_of r) (db_runs db)\<rparr>))"

definition db_save_run_and_events ::
    "run_row \<Rightarrow> transition_record list \<Rightarrow> sqlite_store \<Rightarrow> store_error + sqlite_store" where
  "db_save_run_and_events r evs db =
     try_res (reject_bound_graph db (run_graph_id r)) (\<lambda>_.
     try_res (map_res (check_record db) evs) (\<lambda>_.
       Inr (db\<lparr>db_runs := upsert_run (run_db_of r) (db_runs db),
               db_events := db_events db @ map event_row_of evs\<rparr>)))"

definition db_load_run :: "sqlite_store \<Rightarrow> string \<Rightarrow> store_error + run_row option" where
  "db_load_run db g =
     (case find (\<lambda>d. rd_graph_id d = g) (db_runs db) of
        None \<Rightarrow> Inr None
      | Some d \<Rightarrow> try_res (run_of_db d) (\<lambda>r. Inr (Some r)))"

text \<open>\<open>ORDER BY created_at DESC\<close>, rows with the same stamp in insertion order.\<close>

definition runs_newest_first :: "sqlite_store \<Rightarrow> run_db list" where
  "runs_newest_first db = rev (sort_key rd_created_at (rev (db_runs db)))"

definition db_latest_run :: "sqlite_store \<Rightarrow> store_error + run_row option" where
  "db_latest_run db =
     (case runs_newest_first db of
        [] \<Rightarrow> Inr None
      | d # _ \<Rightarrow> db_load_run db (rd_graph_id d))"

definition db_list_runs :: "sqlite_store \<Rightarrow> store_error + run_row list" where
  "db_list_runs db =
     try_res (map_res (\<lambda>d. db_load_run db (rd_graph_id d)) (runs_newest_first db)) (\<lambda>os.
       Inr (List.map_filter (\<lambda>x. x) os))"

section \<open>Attempts\<close>

definition db_next_attempt_id :: "sqlite_store \<Rightarrow> attempt_id" where
  "db_next_attempt_id db = foldl max 0 (map at_attempt_id (db_attempts db)) + 1"

text \<open>\<open>ON CONFLICT(attempt_id) DO UPDATE\<close> keeps the graph and the task of the row.\<close>

definition upsert_attempt :: "attempt_row \<Rightarrow> attempt_row list \<Rightarrow> attempt_row list" where
  "upsert_attempt a as =
     (if at_attempt_id a \<in> set (map at_attempt_id as) then
        map (\<lambda>x. if at_attempt_id x = at_attempt_id a
                 then a\<lparr>at_graph_id := at_graph_id x, at_task_id := at_task_id x\<rparr> else x) as
      else as @ [a])"

definition db_save_attempt :: "attempt_row \<Rightarrow> sqlite_store \<Rightarrow> store_error + sqlite_store" where
  "db_save_attempt a db =
     try_res (reject_bound_graph db (at_graph_id a)) (\<lambda>_.
     try_res (reject_legacy_attempt db (at_attempt_id a)) (\<lambda>_.
       Inr (db\<lparr>db_attempts := upsert_attempt a (db_attempts db)\<rparr>)))"

definition db_record_transition_and_attempt ::
    "transition_record \<Rightarrow> attempt_row option \<Rightarrow> sqlite_store \<Rightarrow> store_error + sqlite_store" where
  "db_record_transition_and_attempt r att db =
     try_res (check_record db r) (\<lambda>_.
     try_res (case att of
                Some a \<Rightarrow> try_res (reject_bound_graph db (at_graph_id a)) (\<lambda>_.
                  reject_legacy_attempt db (at_attempt_id a))
              | None \<Rightarrow> Inr ()) (\<lambda>_.
       Inr (db\<lparr>db_events := db_events db @ [event_row_of r],
               db_attempts := (case att of
                  Some a \<Rightarrow> upsert_attempt a (db_attempts db)
                | None \<Rightarrow> db_attempts db)\<rparr>)))"

definition db_attempts_for_task :: "sqlite_store \<Rightarrow> string \<Rightarrow> task_id \<Rightarrow> attempt_row list" where
  "db_attempts_for_task db g t =
     sort_key at_attempt_id (filter (\<lambda>a. at_graph_id a = g \<and> at_task_id a = t) (db_attempts db))"

definition db_latest_attempt_for_task :: "sqlite_store \<Rightarrow> string \<Rightarrow> task_id \<Rightarrow> attempt_row option" where
  "db_latest_attempt_for_task db g t =
     (let as = db_attempts_for_task db g t in if as = [] then None else Some (last as))"

definition db_attempts_for_graph :: "sqlite_store \<Rightarrow> string \<Rightarrow> attempt_row list" where
  "db_attempts_for_graph db g =
     sort_key at_attempt_id (filter (\<lambda>a. at_graph_id a = g) (db_attempts db))"

text \<open>The three statements of \<open>reset_graph_execution\<close>, which run without a transaction.\<close>

definition reset_evidence :: "string \<Rightarrow> sqlite_store \<Rightarrow> sqlite_store" where
  "reset_evidence g db =
     db\<lparr>db_evidence := filter (\<lambda>e. cr_attempt_id (evidence_candidate e) \<notin>
          at_attempt_id ` {a \<in> set (db_attempts db). at_graph_id a = g}) (db_evidence db)\<rparr>"

definition reset_events :: "string \<Rightarrow> sqlite_store \<Rightarrow> sqlite_store" where
  "reset_events g db = db\<lparr>db_events := filter (\<lambda>e. er_graph_id e \<noteq> g) (db_events db)\<rparr>"

definition reset_attempts :: "string \<Rightarrow> sqlite_store \<Rightarrow> sqlite_store" where
  "reset_attempts g db = db\<lparr>db_attempts := filter (\<lambda>a. at_graph_id a \<noteq> g) (db_attempts db)\<rparr>"

definition db_reset_graph_execution :: "string \<Rightarrow> sqlite_store \<Rightarrow> store_error + sqlite_store" where
  "db_reset_graph_execution g db =
     try_res (reject_bound_graph db g) (\<lambda>_.
       Inr (reset_attempts g (reset_events g (reset_evidence g db))))"

definition update_attempt ::
    "attempt_id \<Rightarrow> (attempt_row \<Rightarrow> attempt_row) \<Rightarrow> sqlite_store \<Rightarrow> store_error + sqlite_store" where
  "update_attempt a f db =
     try_res (reject_legacy_attempt db a) (\<lambda>_.
       case find_attempt db a of
         None \<Rightarrow> Inl (Corrupt ''attempt missing'')
       | Some r \<Rightarrow>
           try_res (reject_bound_graph db (at_graph_id r)) (\<lambda>_.
             Inr (db\<lparr>db_attempts :=
               map (\<lambda>x. if at_attempt_id x = a then f x else x) (db_attempts db)\<rparr>)))"

definition db_update_attempt_pid ::
    "attempt_id \<Rightarrow> u32 option \<Rightarrow> string option \<Rightarrow> sqlite_store \<Rightarrow> store_error + sqlite_store" where
  "db_update_attempt_pid a pid img db =
     update_attempt a (\<lambda>x. x\<lparr>at_pid := pid, at_image_name := img\<rparr>) db"

definition db_update_attempt_pane ::
    "attempt_id \<Rightarrow> string option \<Rightarrow> sqlite_store \<Rightarrow> store_error + sqlite_store" where
  "db_update_attempt_pane a pane db = update_attempt a (\<lambda>x. x\<lparr>at_pane_id := pane\<rparr>) db"

section \<open>Drivers\<close>

definition db_upsert_driver :: "driver_liveness \<Rightarrow> sqlite_store \<Rightarrow> store_error + sqlite_store" where
  "db_upsert_driver d db =
     try_res (reject_bound_graph db (dl_graph_id d)) (\<lambda>_.
       Inr (db\<lparr>db_drivers :=
         (if dl_graph_id d \<in> set (map dl_graph_id (db_drivers db))
          then map (\<lambda>x. if dl_graph_id x = dl_graph_id d then d else x) (db_drivers db)
          else db_drivers db @ [d])\<rparr>))"

definition db_record_driver_heartbeat ::
    "string \<Rightarrow> u32 \<Rightarrow> string \<Rightarrow> sqlite_store \<Rightarrow> store_error + sqlite_store" where
  "db_record_driver_heartbeat g pid now db =
     try_res (reject_bound_graph db g) (\<lambda>_.
       Inr (db\<lparr>db_drivers :=
         map (\<lambda>x. if dl_graph_id x = g \<and> dl_pid x = pid \<and> dl_exit_code x = None
                  then x\<lparr>dl_heartbeat_at := now\<rparr> else x) (db_drivers db)\<rparr>))"

definition db_record_driver_exit ::
    "string \<Rightarrow> u32 \<Rightarrow> i32 \<Rightarrow> string \<Rightarrow> sqlite_store \<Rightarrow> store_error + sqlite_store" where
  "db_record_driver_exit g pid code now db =
     try_res (reject_bound_graph db g) (\<lambda>_.
       Inr (db\<lparr>db_drivers :=
         map (\<lambda>x. if dl_graph_id x = g \<and> dl_pid x = pid
                  then x\<lparr>dl_exit_code := Some code, dl_heartbeat_at := now\<rparr> else x) (db_drivers db)\<rparr>))"

definition db_load_driver :: "sqlite_store \<Rightarrow> string \<Rightarrow> driver_liveness option" where
  "db_load_driver db g = find (\<lambda>d. dl_graph_id d = g) (db_drivers db)"

section \<open>Laws of the store\<close>

text \<open>Which tables the run-loop operations leave alone.\<close>

lemma db_save_run_Inr:
  "db_save_run r db = Inr db' \<longleftrightarrow>
     reject_bound_graph db (run_graph_id r) = Inr () \<and>
     db' = db\<lparr>db_runs := upsert_run (run_db_of r) (db_runs db)\<rparr>"
  by (auto simp: db_save_run_def try_res_eq_Inr)

lemma db_save_attempt_Inr:
  "db_save_attempt a db = Inr db' \<Longrightarrow> db' = db\<lparr>db_attempts := upsert_attempt a (db_attempts db)\<rparr>"
  by (auto simp: db_save_attempt_def try_res_eq_Inr)

lemma update_attempt_Inr:
  "update_attempt a f db = Inr db' \<Longrightarrow>
     db' = db\<lparr>db_attempts := map (\<lambda>x. if at_attempt_id x = a then f x else x) (db_attempts db)\<rparr>"
  by (auto simp: update_attempt_def try_res_eq_Inr split: option.split_asm)

lemma run_of_run_db [codec_simps]: "run_of_db (run_db_of r) = Inr r"
  by (simp add: run_of_db_def run_db_of_def codec_simps)

lemma find_upsert_run:
  "find (\<lambda>x. rd_graph_id x = g) (upsert_run d ds) =
     (if g = rd_graph_id d then
        Some (case find (\<lambda>x. rd_graph_id x = g) ds of
                Some x \<Rightarrow> d\<lparr>rd_created_at := rd_created_at x\<rparr> | None \<Rightarrow> d)
      else find (\<lambda>x. rd_graph_id x = g) ds)"
proof -
  have m: "find (\<lambda>x. rd_graph_id x = g)
      (map (\<lambda>x. if rd_graph_id x = rd_graph_id d then d\<lparr>rd_created_at := rd_created_at x\<rparr> else x) ds) =
    (if g = rd_graph_id d then
       map_option (\<lambda>x. d\<lparr>rd_created_at := rd_created_at x\<rparr>) (find (\<lambda>x. rd_graph_id x = g) ds)
     else find (\<lambda>x. rd_graph_id x = g) ds)"
    by (induction ds) auto
  have app: "find P (xs @ ys) = (case find P xs of Some x \<Rightarrow> Some x | None \<Rightarrow> find P ys)" for P and xs ys :: "run_db list"
    by (induction xs) auto
  have none: "find (\<lambda>x. rd_graph_id x = g) ds = None \<longleftrightarrow> g \<notin> rd_graph_id ` set ds"
    by (auto simp: find_None_iff)
  show ?thesis
  proof (cases "rd_graph_id d \<in> rd_graph_id ` set ds")
    case True
    then have "g = rd_graph_id d \<Longrightarrow> find (\<lambda>x. rd_graph_id x = g) ds \<noteq> None" using none by simp
    then show ?thesis using m True by (auto simp: upsert_run_def)
  next
    case False
    then have "g = rd_graph_id d \<Longrightarrow> find (\<lambda>x. rd_graph_id x = g) ds = None" using none by simp
    then show ?thesis using False by (auto simp: upsert_run_def app split: option.splits)
  qed
qed

lemma append_all_records:
  "foldl (\<lambda>s r. try_res s (db_append r)) (Inr db) rs = Inr db' \<Longrightarrow>
     db_records_for_graph db g = Inr old \<Longrightarrow>
     db_records_for_graph db' g = Inr (old @ filter (\<lambda>r. tr_graph_id r = g) rs)"
proof (induction rs arbitrary: db old)
  case (Cons r rs)
  have err: "foldl (\<lambda>s r. try_res s (db_append r)) (Inl e) rs = Inl e" for e
    by (induction rs) auto
  then obtain db1 where a: "db_append r db = Inr db1"
    using Cons.prems(1) by (cases "db_append r db") auto
  have "db_records_for_graph db1 g = Inr (old @ (if tr_graph_id r = g then [r] else []))"
    by (rule sqlite_log.records_append [OF a Cons.prems(2)])
  then show ?case
    using Cons.IH [of db1] Cons.prems(1) a by auto
qed simp

text \<open>
  C27. The event log is read back as it was written: after any sequence of successful appends,
  the records of a graph are its old records followed by exactly the appended records of that
  graph, in order and unchanged, although states and events are stored as text.
\<close>

theorem event_log_roundtrip:
  assumes "foldl (\<lambda>s r. try_res s (db_append r)) (Inr db) rs = Inr db'"
    and "db_records_for_graph db g = Inr old"
  shows "db_records_for_graph db' g = Inr (old @ filter (\<lambda>r. tr_graph_id r = g) rs)"
  using assms by (rule append_all_records)

definition empty_store :: sqlite_store where
  "empty_store = \<lparr>db_read_only = False, db_events = [], db_attempts = [], db_evidence = [],
     db_feedback = Map.empty, db_quota = Map.empty, db_runs = [], db_drivers = [],
     db_bindings = [], db_legacy_runs = [], db_legacy_attempts = []\<rparr>"

lemmas store_eval =
  empty_store_def db_append_def check_record_def reject_bound_graph_def reject_legacy_attempt_def
  legacy_ownership_unresolved_def find_attempt_def graph_id_is_legal_def graph_id_char_def ascii_defs

theorem event_log_roundtrip_witness:
  "\<exists>db'. foldl (\<lambda>s r. try_res s (db_append r)) (Inr empty_store)
       [sample_record 1 Pending DependencySatisfied Ready, sample_record 2 Failed RetryAuthorized Ready] =
     Inr db' \<and>
     db_records_for_graph db' ''g-1'' =
       Inr ([] @ filter (\<lambda>r. tr_graph_id r = ''g-1'')
         [sample_record 1 Pending DependencySatisfied Ready, sample_record 2 Failed RetryAuthorized Ready])"
proof -
  obtain db' where a: "foldl (\<lambda>s r. try_res s (db_append r)) (Inr empty_store)
       [sample_record 1 Pending DependencySatisfied Ready, sample_record 2 Failed RetryAuthorized Ready] =
     Inr db'"
    by (simp add: store_eval sample_record_def)
  have "db_records_for_graph empty_store ''g-1'' = Inr []"
    by (simp add: empty_store_def db_records_for_graph_def)
  then show ?thesis using event_log_roundtrip [OF a] a by blast
qed

lemma load_upsert_run:
  assumes db': "db_runs db' = upsert_run (run_db_of r) (db_runs db)"
  shows "db_load_run db' (run_graph_id r) =
      Inr (Some (case find (\<lambda>d. rd_graph_id d = run_graph_id r) (db_runs db) of
                   Some d \<Rightarrow> r\<lparr>run_created_at := rd_created_at d\<rparr> | None \<Rightarrow> r))"
    and "g \<noteq> run_graph_id r \<Longrightarrow> db_load_run db' g = db_load_run db g"
proof -
  have gid: "rd_graph_id (run_db_of r) = run_graph_id r" by (simp add: run_db_of_def)
  have upd: "run_of_db ((run_db_of r)\<lparr>rd_created_at := c\<rparr>) = Inr (r\<lparr>run_created_at := c\<rparr>)" for c
    by (simp add: run_of_db_def run_db_of_def codec_simps)
  show "db_load_run db' (run_graph_id r) =
      Inr (Some (case find (\<lambda>d. rd_graph_id d = run_graph_id r) (db_runs db) of
                   Some d \<Rightarrow> r\<lparr>run_created_at := rd_created_at d\<rparr> | None \<Rightarrow> r))"
    "g \<noteq> run_graph_id r \<Longrightarrow> db_load_run db' g = db_load_run db g"
    by (auto simp: db_load_run_def db' find_upsert_run gid upd codec_simps split: option.splits)
qed

text \<open>
  A run row is read back as it was saved, except that the creation stamp of a row that
  already existed is kept; rows of other graphs are not touched.
\<close>

theorem save_run_roundtrip:
  assumes "db_save_run r db = Inr db'"
  shows "db_load_run db' (run_graph_id r) =
      Inr (Some (case find (\<lambda>d. rd_graph_id d = run_graph_id r) (db_runs db) of
                   Some d \<Rightarrow> r\<lparr>run_created_at := rd_created_at d\<rparr> | None \<Rightarrow> r)) \<and>
    (\<forall>g. g \<noteq> run_graph_id r \<longrightarrow> db_load_run db' g = db_load_run db g)"
  using assms load_upsert_run [of db' r db] by (simp add: db_save_run_Inr)

definition sample_run :: run_row where
  "sample_run = \<lparr>run_graph_id = ''g-1'', run_plan_state = PlanAccepted, run_base = ''abc'',
     run_integrate_ref = ''meshloop/g-1/integrate'', run_plan_json = ''{}'', run_plan_id = ''0'',
     run_created_at = ''1'', run_review_note = None\<rparr>"

theorem save_run_roundtrip_witness:
  "\<exists>db'. db_save_run sample_run empty_store = Inr db' \<and>
     db_load_run db' ''g-1'' = Inr (Some sample_run)"
proof -
  obtain db' where a: "db_save_run sample_run empty_store = Inr db'"
    by (simp add: db_save_run_def store_eval sample_run_def)
  show ?thesis using save_run_roundtrip [OF a] a by (simp add: empty_store_def sample_run_def)
qed

section \<open>Quota across processes\<close>

lemma breaker_roundtrip [codec_simps]: "parse_breaker (breaker_name b) = b"
  by (cases b) (simp_all add: parse_breaker_def breaker_name_def)

lemma load_saved_quota:
  assumes "\<And>t. q_opened_at q = Some t \<Longrightarrow> 0 \<le> t \<and> t div 1000000000 < 2 ^ 64"
    and "q_cooldown q div 1000000 < 2 ^ 64"
  shows "db_load_quota (db_save_quota h q db) h =
     \<lparr>q_state = q_state q,
      q_opened_at = map_option (\<lambda>t. t div 1000000000 * 1000000000) (q_opened_at q),
      q_cooldown = q_cooldown q div 1000000 * 1000000\<rparr>"
proof -
  have c: "unat (of_nat (q_cooldown q div 1000000) :: u64) = q_cooldown q div 1000000"
    using assms(2) by (simp add: unsigned_of_nat take_bit_nat_eq_self)
  show ?thesis
  proof (cases "q_opened_at q")
    case None
    then show ?thesis
      using c by (simp add: db_load_quota_def db_save_quota_def quota_from_parts_def codec_simps Let_def)
  next
    case (Some t)
    have t: "0 \<le> t" "t div 1000000000 < 2 ^ 64" using assms(1) [OF Some] by auto
    then have n: "nat t div 1000000000 < 2 ^ 64" by (simp add: nat_div_distrib flip: nat_less_iff)
    have "int (nat t div 1000000000) = t div 1000000000" using t(1) by (simp add: zdiv_int)
    then show ?thesis
      using Some t(1) c parse_u64_show [OF n]
      by (simp add: db_load_quota_def db_save_quota_def quota_from_parts_def codec_simps Let_def)
  qed
qed

text \<open>
  Saving a breaker and loading it in another process never locks a harness out for longer:
  whatever was available stays available at the same time, and the reloaded breaker lets a
  request through at most a second and a millisecond early (the clock not before the opening).
\<close>

theorem quota_reload_never_stricter:
  assumes "\<And>t. q_opened_at q = Some t \<Longrightarrow> 0 \<le> t \<and> t div 1000000000 < 2 ^ 64"
    and "q_cooldown q div 1000000 < 2 ^ 64"
  shows "(is_available q now \<longrightarrow> is_available (db_load_quota (db_save_quota h q db) h) now) \<and>
     (is_available (db_load_quota (db_save_quota h q db) h) now \<and>
        (\<forall>t. q_opened_at q = Some t \<longrightarrow> t \<le> now) \<longrightarrow>
        is_available q (now + 1001000000))"
proof -
  have l: "db_load_quota (db_save_quota h q db) h =
      \<lparr>q_state = q_state q,
       q_opened_at = map_option (\<lambda>t. t div 1000000000 * 1000000000) (q_opened_at q),
       q_cooldown = q_cooldown q div 1000000 * 1000000\<rparr>"
    using assms by (rule load_saved_quota)
  show ?thesis
  proof (cases "q_opened_at q")
    case None
    then show ?thesis by (simp add: l is_available_def split: breaker.splits)
  next
    case (Some t)
    have t: "t div 1000000000 * 1000000000 \<le> t" "t < t div 1000000000 * 1000000000 + 1000000000"
      by linarith+
    have c: "q_cooldown q div 1000000 * 1000000 \<le> q_cooldown q"
      "q_cooldown q < q_cooldown q div 1000000 * 1000000 + 1000000" by linarith+
    show ?thesis
      using Some t c by (auto simp: l is_available_def duration_since_def split: breaker.splits)
  qed
qed

theorem quota_reload_never_stricter_witness:
  "is_available (db_load_quota (db_save_quota ''pi''
       \<lparr>q_state = Open, q_opened_at = Some 5500000000, q_cooldown = 2000000000\<rparr> empty_store) ''pi'')
     8000000000"
  using quota_reload_never_stricter
    [of "\<lparr>q_state = Open, q_opened_at = Some 5500000000, q_cooldown = 2000000000\<rparr>" 8000000000
      "''pi''" empty_store]
  by (simp add: is_available_def duration_since_def)

section \<open>Attempts and resets\<close>

lemma foldl_max_ge: "(x :: 'a::linorder) \<in> set xs \<Longrightarrow> x \<le> foldl max a xs"
proof (induction xs arbitrary: a)
  case (Cons y ys)
  have mono: "a \<le> foldl max a zs" for a :: 'a and zs
    by (induction zs arbitrary: a) (auto intro: order_trans [OF max.cobounded1])
  show ?case using Cons mono [of "max a y" ys] by auto
qed simp

text \<open>
  A new attempt id is new and the largest, as long as 32 bits are not exhausted; and a reset
  of one graph removes its events and attempts and the evidence of those attempts, and nothing of
  any other graph.
\<close>

theorem attempt_ids_and_reset:
  shows "(foldl max 0 (map at_attempt_id (db_attempts db)) \<noteq> - 1 \<longrightarrow>
       (\<forall>a. a \<in> set (db_attempts db) \<longrightarrow> at_attempt_id a < db_next_attempt_id db)) \<and>
     (db_reset_graph_execution g db = Inr db' \<longrightarrow>
       db_records_for_graph db' g = Inr [] \<and> db_attempts_for_graph db' g = [] \<and>
       (\<forall>h. h \<noteq> g \<longrightarrow> db_records_for_graph db' h = db_records_for_graph db h \<and>
          db_attempts_for_graph db' h = db_attempts_for_graph db h) \<and>
       (\<forall>e. e \<in> set (db_evidence db) \<longrightarrow> e \<notin> set (db_evidence db') \<longrightarrow>
          (\<exists>a. a \<in> set (db_attempts db) \<and> at_graph_id a = g \<and>
             at_attempt_id a = cr_attempt_id (evidence_candidate e))))"
proof (intro conjI impI)
  assume m: "foldl max 0 (map at_attempt_id (db_attempts db)) \<noteq> - 1"
  have "at_attempt_id a < db_next_attempt_id db" if "a \<in> set (db_attempts db)" for a
  proof -
    let ?m = "foldl max 0 (map at_attempt_id (db_attempts db))"
    have "at_attempt_id a \<le> ?m" using that by (intro foldl_max_ge) simp
    moreover have "?m < ?m + 1" 
      using m inc_less_eq_triv_imp [of ?m] by (auto simp: not_le [symmetric])
    ultimately show ?thesis by (simp add: db_next_attempt_id_def)
  qed
  then show "\<forall>a. a \<in> set (db_attempts db) \<longrightarrow> at_attempt_id a < db_next_attempt_id db" by blast
next
  assume "db_reset_graph_execution g db = Inr db'"
  then have db': "db' = reset_attempts g (reset_events g (reset_evidence g db))"
    by (auto simp: db_reset_graph_execution_def try_res_eq_Inr)
  have ev: "db_events db' = filter (\<lambda>e. er_graph_id e \<noteq> g) (db_events db)"
    and at: "db_attempts db' = filter (\<lambda>a. at_graph_id a \<noteq> g) (db_attempts db)"
    by (simp_all add: db' reset_attempts_def reset_events_def reset_evidence_def)
  have other: "filter (\<lambda>x. f x \<noteq> g \<and> f x = h) xs = (if h = g then [] else filter (\<lambda>x. f x = h) xs)"
    for f :: "'x \<Rightarrow> string" and h xs
    by (induction xs) auto
  show "db_records_for_graph db' g = Inr []" by (simp add: db_records_for_graph_def ev)
  show "db_attempts_for_graph db' g = []" by (simp add: db_attempts_for_graph_def at)
  show "\<forall>h. h \<noteq> g \<longrightarrow> db_records_for_graph db' h = db_records_for_graph db h \<and>
      db_attempts_for_graph db' h = db_attempts_for_graph db h"
    by (simp add: db_records_for_graph_def db_attempts_for_graph_def ev at other)
  show "\<forall>e. e \<in> set (db_evidence db) \<longrightarrow> e \<notin> set (db_evidence db') \<longrightarrow>
      (\<exists>a. a \<in> set (db_attempts db) \<and> at_graph_id a = g \<and>
         at_attempt_id a = cr_attempt_id (evidence_candidate e))"
    by (auto simp: db' reset_attempts_def reset_events_def reset_evidence_def)
qed

definition sample_attempt :: "attempt_id \<Rightarrow> string \<Rightarrow> task_id \<Rightarrow> attempt_row" where
  "sample_attempt a g t = \<lparr>at_attempt_id = a, at_graph_id = g, at_task_id = t,
     at_harness = Some ''pi'', at_model_ref = Some ''m'', at_worktree_path = Some ''/w'',
     at_pid = Some 7, at_image_name = None, at_pane_id = None, at_started_at = Some ''1'',
     at_ended_at = None, at_outcome = Some ''base:abc''\<rparr>"

theorem attempt_ids_and_reset_witness:
  "\<exists>db'. db_reset_graph_execution ''g-1''
       (empty_store\<lparr>db_attempts := [sample_attempt 4 ''g-1'' 1, sample_attempt 5 ''g-2'' 1]\<rparr>) = Inr db' \<and>
     db_attempts_for_graph db' ''g-1'' = [] \<and>
     db_attempts_for_graph db' ''g-2'' = [sample_attempt 5 ''g-2'' 1]"
proof -
  let ?db = "empty_store\<lparr>db_attempts := [sample_attempt 4 ''g-1'' 1, sample_attempt 5 ''g-2'' 1]\<rparr>"
  obtain db' where r: "db_reset_graph_execution ''g-1'' ?db = Inr db'"
    by (simp add: db_reset_graph_execution_def store_eval sample_attempt_def)
  have "db_attempts_for_graph ?db ''g-2'' = [sample_attempt 5 ''g-2'' 1]"
    by (simp add: db_attempts_for_graph_def sample_attempt_def)
  then show ?thesis using attempt_ids_and_reset [of ?db "''g-1''" db'] r by simp
qed

end
