(* ===== verification/Engine_Run_State.thy ===== *)
theory Engine_Run_State
  imports Adapter_Store Engine_Router Engine_Planner Engine_Verify Engine_Converge
begin

text \<open>
  The state and the ports of \<open>crates/meshloop-engine/src/run_loop.rs\<close>. A \<open>RunLoop\<close> is split into
  what its methods change (\<open>run_state\<close>: the store, the outcomes held in memory, the active graph,
  and the world) and what they only use (\<open>run_env\<close>: configuration and ports). The world \<open>'w\<close> is
  everything outside the engine: git, the harness processes, the clock, the disk. A port is a
  function on it, so it may answer differently every time it is asked.

  A method is a function from states to a result and a state, and keeps its effects when it returns
  an error. SQLite may refuse any statement: \<open>env_store_fault\<close> is asked before each one. One process
  writes at a time.
\<close>

section \<open>Errors, limits, results\<close>

datatype orchestrator_error =
    UnknownHarnessErr string
  | UnsupportedErr
  | LiveHarnessRefused string
  | StoreErr store_error
  | WorkspaceErr workspace_error
  | PlanErr plan_error
  | IllegalErr string
  | DuplicateGraph (dup_graph_id: string) (dup_resume: bool)
  | MissingGraph string
  | PlanDeclinedErr string
  | PlanAlreadyAccepted string
  | NotAwaitingReview task_id
  | AlreadyAccepted task_id
  | EmptyIdentity
  | SnapshotMismatch
  | NoCandidate "rejection list"
  | UnknownDeliverable string
  | DeliverableNotReady (dnr_task: task_id) (dnr_state: task_state)
  | DeliverableConflict task_id

record run_limits =
  max_retries :: u32
  task_timeout :: duration
  max_concurrent_workers :: u32

definition limits_clamped :: "run_limits \<Rightarrow> run_limits" where
  "limits_clamped l =
     l\<lparr>max_concurrent_workers := max 1 (min 16 (max_concurrent_workers l)),
       max_retries := (if max_retries l = 0 then 1 else max_retries l)\<rparr>"

datatype idle_reason =
    GraphComplete | AwaitingHumanAcceptance | NoCapableCandidate | FailedTerminal
  | WaitingOnLiveWorker

datatype tick =
    Transition (tk_task: task_id) (tk_attempt: "attempt_id option") (tk_from: task_state)
      (tk_to: task_state) (tk_event: event)
  | Idle (idle_reason: idle_reason)

datatype waiting_for = Acceptance | Dependency | PlanAcceptance | RetryBudgetExhausted

definition waiting_for_as_str :: "waiting_for \<Rightarrow> string" where
  "waiting_for_as_str w =
     (case w of Acceptance \<Rightarrow> ''acceptance'' | Dependency \<Rightarrow> ''dependency''
      | PlanAcceptance \<Rightarrow> ''plan_acceptance'' | RetryBudgetExhausted \<Rightarrow> ''retry_budget_exhausted'')"

record node_status =
  ns_task_id :: task_id
  ns_waiting_for :: "waiting_for option"
  ns_blocked_by :: "task_id list"
  ns_description :: string
  ns_state :: task_state
  ns_note :: "string option"
  ns_worktree :: "string option"
  ns_revision :: "string option"
  ns_pane_id :: "string option"
  ns_live :: "string option"
  ns_deliverable :: "string option"

record run_status =
  rst_graph_id :: string
  rst_plan_state :: plan_state
  rst_nodes :: "node_status list"

definition idle_exit_code :: "idle_reason \<Rightarrow> run_status \<Rightarrow> i32" where
  "idle_exit_code reason st =
     (case reason of
        GraphComplete \<Rightarrow> 0
      | AwaitingHumanAcceptance \<Rightarrow>
          if list_ex (\<lambda>n. ns_state n = Failed \<or> ns_state n = Blocked) (rst_nodes st) then 1 else 0
      | WaitingOnLiveWorker \<Rightarrow> 0
      | NoCapableCandidate \<Rightarrow> 1
      | FailedTerminal \<Rightarrow> 1)"

definition terminal :: "task_state \<Rightarrow> bool" where
  "terminal s \<longleftrightarrow> s = Integrated \<or> s = Failed \<or> s = Cancelled \<or> s = Blocked"

text \<open>A task without a record is \<open>Pending\<close>.\<close>

definition state_of :: "(task_id \<rightharpoonup> task_state) \<Rightarrow> task_id \<Rightarrow> task_state" where
  "state_of ts t = (case ts t of Some s \<Rightarrow> s | None \<Rightarrow> Pending)"

section \<open>Ports\<close>

type_synonym ('w, 'a) act = "'w \<Rightarrow> 'a \<times> 'w"

text \<open>\<open>HarnessCapabilities\<close>. A probe that panics its thread answers \<open>None\<close>.\<close>

record 'w harness_capabilities = "'w harness" +
  h_probe :: "('w, (harness_error + harness_profile) option) act"
  h_try_collect :: "harness_handle \<Rightarrow> ('w, harness_error + harness_outcome option) act"
  h_cancel :: "harness_handle \<Rightarrow> ('w, harness_error + unit) act"
  h_session_live :: "harness_handle \<Rightarrow> ('w, live_check) act"
  h_pane_for_worktree :: "string \<Rightarrow> ('w, string option) act"
  h_process_image :: "('w, string option) act"

record 'w workspace_port =
  ws_repo_root :: string
  ws_add_worktree_from :: "string \<Rightarrow> string \<Rightarrow> string \<Rightarrow> ('w, workspace_error + unit) act"
  ws_head :: "string \<Rightarrow> ('w, workspace_error + string) act"
  ws_diff_against :: "string \<Rightarrow> string \<Rightarrow> ('w, workspace_error + diff_summary) act"
  ws_status_porcelain :: "string \<Rightarrow> ('w, workspace_error + string) act"
  ws_commit_all :: "string \<Rightarrow> string \<Rightarrow> ('w, workspace_error + string) act"
  ws_merge_in_worktree :: "string \<Rightarrow> string \<Rightarrow> ('w, workspace_error + unit) act"
  ws_cherry_pick_range :: "string \<Rightarrow> string \<Rightarrow> string \<Rightarrow> ('w, workspace_error + unit) act"
  ws_branch_exists :: "string \<Rightarrow> ('w, workspace_error + bool) act"
  ws_worktree_exists :: "string \<Rightarrow> ('w, bool) act"
  ws_prune :: "('w, workspace_error + unit) act"
  ws_is_ancestor :: "string \<Rightarrow> string \<Rightarrow> ('w, workspace_error + bool) act"
  ws_checkout_ref :: "string \<Rightarrow> ('w, workspace_error + unit) act"
  ws_merge_ff_only :: "string \<Rightarrow> ('w, workspace_error + unit) act"
  ws_merge_no_ff :: "string \<Rightarrow> ('w, workspace_error + unit) act"
  ws_reset_hard :: "string \<Rightarrow> string \<Rightarrow> ('w, workspace_error + unit) act"
  ws_remove_file :: "string \<Rightarrow> string \<Rightarrow> ('w, workspace_error + unit) act"
  ws_unified_diff :: "string \<Rightarrow> string \<Rightarrow> ('w, workspace_error + string) act"
  ws_remove_worktree :: "string \<Rightarrow> ('w, workspace_error + unit) act"
  ws_delete_branch :: "string \<Rightarrow> ('w, workspace_error + unit) act"

record 'w micro_repair =
  mi_port :: "(string, 'w) score_port"
  mi_actuator :: "diagnostic_lattice \<Rightarrow> ('w, bool) act"

text \<open>
  What the run loop takes from outside the repository or from the process it runs in: the JSON
  form of a plan (\<open>serde_json\<close>), \<open>DefaultHasher\<close> and SHA-256, petgraph, the clock, the file system,
  and the text of \<open>{:?}\<close> for values that only reach a reason or a message.
\<close>

record 'w platform =
  pf_to_json :: "task_graph \<Rightarrow> string + string"
  pf_from_json :: "string \<Rightarrow> string + task_graph"
  pf_default_hash :: "string \<Rightarrow> u64"
  pf_sha256 :: "string \<Rightarrow> string"
  pf_topo :: topo_port
  pf_now :: "('w, system_time) act"
  pf_create_dir_all :: "string \<Rightarrow> 'w \<Rightarrow> 'w"
  pf_write_file :: "string \<Rightarrow> string \<Rightarrow> 'w \<Rightarrow> 'w"
  pf_heartbeat_due :: "('w, bool) act"
  pf_sleep :: "'w \<Rightarrow> 'w"
  pf_elapsed_ms :: "('w, string) act"
  pf_pid :: u32
  dbg_harness_error :: "harness_error \<Rightarrow> string"
  dbg_workspace_error :: "workspace_error \<Rightarrow> string"
  dbg_check_error :: "check_error \<Rightarrow> string"
  dbg_graph_error :: "graph_error \<Rightarrow> string"
  dbg_mutation_error :: "graph_mutation_error \<Rightarrow> string"
  dbg_plan_decision :: "plan_decision \<Rightarrow> string"
  dbg_strings :: "string list \<Rightarrow> string"

record 'w run_env =
  env_harnesses :: "(string \<times> 'w harness_capabilities) list"
  env_candidates :: "candidate list"
  env_workspace :: "'w workspace_port"
  env_is_live :: "process_hint \<Rightarrow> ('w, live_check) act"
  env_check_run :: "string \<Rightarrow> string list \<Rightarrow> duration \<Rightarrow> ('w, check_error + deterministic_evidence) act"
  env_score :: "sqlite_store \<Rightarrow> string option \<Rightarrow> tier \<Rightarrow> candidate \<Rightarrow> ('w, f64) act"
  env_limits :: run_limits
  env_fixture_only :: bool
  env_verify_command :: "string list"
  env_worktree_base :: string
  env_micro_repair :: "'w micro_repair option"
  env_store_fault :: "('w, string option) act"
  env_platform :: "'w platform"

record 'w run_state =
  st_store :: sqlite_store
  st_pending :: "attempt_id \<rightharpoonup> harness_outcome"
  st_active :: "string option"
  st_world :: 'w

section \<open>Methods\<close>

type_synonym ('w, 'a) run = "'w run_state \<Rightarrow> (orchestrator_error + 'a) \<times> 'w run_state"

definition ret :: "'a \<Rightarrow> ('w, 'a) run" where
  "ret a s = (Inr a, s)"

definition throw :: "orchestrator_error \<Rightarrow> ('w, 'a) run" where
  "throw e s = (Inl e, s)"

text \<open>\<open>m?\<close> followed by the rest of the method.\<close>

definition bindR :: "('w, 'a) run \<Rightarrow> ('a \<Rightarrow> ('w, 'b) run) \<Rightarrow> ('w, 'b) run" where
  "bindR m k s = (case m s of (Inl e, s') \<Rightarrow> (Inl e, s') | (Inr a, s') \<Rightarrow> k a s')"

text \<open>A call whose \<open>Result\<close> is matched on or dropped instead of being passed on.\<close>

definition handled :: "('w, 'a) run \<Rightarrow> ('w, orchestrator_error + 'a) run" where
  "handled m s = (case m s of (r, s') \<Rightarrow> (Inr r, s'))"

definition port :: "('w, 'a) act \<Rightarrow> ('w, 'a) run" where
  "port f s = (case f (st_world s) of (a, w) \<Rightarrow> (Inr a, s\<lparr>st_world := w\<rparr>))"

definition effect :: "('w \<Rightarrow> 'w) \<Rightarrow> ('w, unit) run" where
  "effect f s = (Inr (), s\<lparr>st_world := f (st_world s)\<rparr>)"

definition of_res :: "('e \<Rightarrow> orchestrator_error) \<Rightarrow> 'e + 'a \<Rightarrow> ('w, 'a) run" where
  "of_res f r = (case r of Inl e \<Rightarrow> throw (f e) | Inr a \<Rightarrow> ret a)"

definition of_option :: "orchestrator_error \<Rightarrow> 'a option \<Rightarrow> ('w, 'a) run" where
  "of_option e x = (case x of None \<Rightarrow> throw e | Some a \<Rightarrow> ret a)"

definition workspace :: "('w, workspace_error + 'a) act \<Rightarrow> ('w, 'a) run" where
  "workspace f = bindR (port f) (of_res WorkspaceErr)"

definition store_fault :: "'w run_env \<Rightarrow> ('w, unit) run" where
  "store_fault env =
     bindR (port (env_store_fault env)) (\<lambda>x.
       case x of None \<Rightarrow> ret () | Some m \<Rightarrow> throw (StoreErr (StoreIo m)))"

definition get_store :: "('w, sqlite_store) run" where
  "get_store s = (Inr (st_store s), s)"

definition put_store :: "sqlite_store \<Rightarrow> ('w, unit) run" where
  "put_store db s = (Inr (), s\<lparr>st_store := db\<rparr>)"

definition store_read :: "'w run_env \<Rightarrow> (sqlite_store \<Rightarrow> store_error + 'a) \<Rightarrow> ('w, 'a) run" where
  "store_read env f =
     bindR (store_fault env) (\<lambda>_. bindR get_store (\<lambda>db. of_res StoreErr (f db)))"

definition store_write ::
    "'w run_env \<Rightarrow> (sqlite_store \<Rightarrow> store_error + sqlite_store) \<Rightarrow> ('w, unit) run" where
  "store_write env f =
     bindR (store_fault env) (\<lambda>_. bindR get_store (\<lambda>db.
       bindR (of_res StoreErr (f db)) put_store))"

definition set_active :: "string option \<Rightarrow> ('w, unit) run" where
  "set_active g s = (Inr (), s\<lparr>st_active := g\<rparr>)"

definition get_active :: "('w, string option) run" where
  "get_active s = (Inr (st_active s), s)"

definition take_pending :: "attempt_id \<Rightarrow> ('w, harness_outcome option) run" where
  "take_pending a s = (Inr (st_pending s a), s\<lparr>st_pending := (st_pending s)(a := None)\<rparr>)"

definition insert_pending :: "attempt_id \<Rightarrow> harness_outcome \<Rightarrow> ('w, unit) run" where
  "insert_pending a out s = (Inr (), s\<lparr>st_pending := (st_pending s)(a \<mapsto> out)\<rparr>)"

definition clear_pending :: "('w, unit) run" where
  "clear_pending s = (Inr (), s\<lparr>st_pending := Map.empty\<rparr>)"

definition stamp :: "'w run_env \<Rightarrow> ('w, string) run" where
  "stamp env =
     bindR (port (pf_now (env_platform env))) (\<lambda>t.
       ret (if 0 \<le> t then show_nat (nat t div 1000000000) else ''0''))"

text \<open>\<open>for x in xs\<close> whose body may leave the method with a value.\<close>

fun first_some :: "('x \<Rightarrow> ('w, 'a option) run) \<Rightarrow> 'x list \<Rightarrow> ('w, 'a option) run" where
  "first_some f [] = ret None"
| "first_some f (x # xs) =
     bindR (f x) (\<lambda>r. case r of Some a \<Rightarrow> ret (Some a) | None \<Rightarrow> first_some f xs)"

fun for_each :: "('x \<Rightarrow> ('w, unit) run) \<Rightarrow> 'x list \<Rightarrow> ('w, unit) run" where
  "for_each f [] = ret ()"
| "for_each f (x # xs) = bindR (f x) (\<lambda>_. for_each f xs)"

fun map_run :: "('x \<Rightarrow> ('w, 'y) run) \<Rightarrow> 'x list \<Rightarrow> ('w, 'y list) run" where
  "map_run f [] = ret []"
| "map_run f (x # xs) = bindR (f x) (\<lambda>y. bindR (map_run f xs) (\<lambda>ys. ret (y # ys)))"

section \<open>A sample environment\<close>

text \<open>
  A world without memory in which every port succeeds, used to run the methods on concrete inputs.
  The JSON form knows one plan.
\<close>

definition sample_harness :: "unit harness_capabilities" where
  "sample_harness =
     \<lparr>h_invoke = (\<lambda>spec w. (Inr \<lparr>hh_attempt_id = as_attempt_id spec, hh_pid = Some 7, hh_pane_id = None\<rparr>, w)),
      h_collect = (\<lambda>_ w. (Inr \<lparr>ho_exit_code = 0, ho_output_redacted = [], ho_stderr_redacted = [],
         ho_worktree_changed = True\<rparr>, w)),
      h_probe = (\<lambda>w. (Some (Inr \<lparr>hp_harness = ''fixture'', hp_version = ''1'',
         hp_compatibility = Compatible, hp_noninteractive = True, hp_structured_output = True,
         hp_cancellation = True, hp_reason = None\<rparr>), w)),
      h_try_collect = (\<lambda>_ w. (Inr (Some \<lparr>ho_exit_code = 0, ho_output_redacted = [],
         ho_stderr_redacted = [], ho_worktree_changed = True\<rparr>), w)),
      h_cancel = (\<lambda>_ w. (Inr (), w)), h_session_live = (\<lambda>_ w. (Live, w)),
      h_pane_for_worktree = (\<lambda>_ w. (None, w)), h_process_image = (\<lambda>w. (None, w))\<rparr>"

definition sample_workspace :: "unit workspace_port" where
  "sample_workspace =
     \<lparr>ws_repo_root = ''/repo'', ws_add_worktree_from = (\<lambda>_ _ _ w. (Inr (), w)),
      ws_head = (\<lambda>_ w. (Inr ''abc'', w)),
      ws_diff_against = (\<lambda>_ base w. (Inr \<lparr>ds_base = base, ds_head = ''abc'',
         ds_files = [''crates/a.rs''], ds_stat_redacted = []\<rparr>, w)),
      ws_status_porcelain = (\<lambda>_ w. (Inr [], w)), ws_commit_all = (\<lambda>_ _ w. (Inr ''abc'', w)),
      ws_merge_in_worktree = (\<lambda>_ _ w. (Inr (), w)),
      ws_cherry_pick_range = (\<lambda>_ _ _ w. (Inr (), w)),
      ws_branch_exists = (\<lambda>_ w. (Inr False, w)), ws_worktree_exists = (\<lambda>_ w. (False, w)),
      ws_prune = (\<lambda>w. (Inr (), w)), ws_is_ancestor = (\<lambda>_ _ w. (Inr True, w)),
      ws_checkout_ref = (\<lambda>_ w. (Inr (), w)), ws_merge_ff_only = (\<lambda>_ w. (Inr (), w)),
      ws_merge_no_ff = (\<lambda>_ w. (Inr (), w)), ws_reset_hard = (\<lambda>_ _ w. (Inr (), w)),
      ws_remove_file = (\<lambda>_ _ w. (Inr (), w)), ws_unified_diff = (\<lambda>_ _ w. (Inr [], w)),
      ws_remove_worktree = (\<lambda>_ w. (Inr (), w)), ws_delete_branch = (\<lambda>_ w. (Inr (), w))\<rparr>"

definition sample_platform :: "unit platform" where
  "sample_platform =
     \<lparr>pf_to_json = (\<lambda>g. if g = sample_graph then Inr ''plan'' else Inl ''unsupported''),
      pf_from_json = (\<lambda>s. if s = ''plan'' then Inr sample_graph else Inl ''syntax''),
      pf_default_hash = (\<lambda>_. 0), pf_sha256 = (\<lambda>_. []), pf_topo = ref_port,
      pf_now = (\<lambda>w. (0, w)), pf_create_dir_all = (\<lambda>_ w. w), pf_write_file = (\<lambda>_ _ w. w),
      pf_heartbeat_due = (\<lambda>w. (False, w)), pf_sleep = (\<lambda>w. w), pf_elapsed_ms = (\<lambda>w. (''0.0'', w)),
      pf_pid = 1, dbg_harness_error = (\<lambda>_. []), dbg_workspace_error = (\<lambda>_. []),
      dbg_check_error = (\<lambda>_. []), dbg_graph_error = (\<lambda>_. []), dbg_mutation_error = (\<lambda>_. []),
      dbg_plan_decision = (\<lambda>_. []), dbg_strings = (\<lambda>_. [])\<rparr>"

definition sample_env :: "unit run_env" where
  "sample_env =
     \<lparr>env_harnesses = [(''fixture'', sample_harness)],
      env_candidates = [\<lparr>c_harness = ''fixture'', c_model_ref = ''m'', c_model_tier = TopTier\<rparr>],
      env_workspace = sample_workspace, env_is_live = (\<lambda>_ w. (Live, w)),
      env_check_run = (\<lambda>_ _ _ w. (Inl CheckTimeout, w)), env_score = (\<lambda>_ _ _ _ w. (Fin 0, w)),
      env_limits = \<lparr>max_retries = 2, task_timeout = 60, max_concurrent_workers = 1\<rparr>,
      env_fixture_only = True, env_verify_command = [], env_worktree_base = ''/wt'',
      env_micro_repair = None, env_store_fault = (\<lambda>w. (None, w)), env_platform = sample_platform\<rparr>"

lemmas env_eval = sample_env_def sample_harness_def sample_workspace_def sample_platform_def

definition accepted_run :: run_db where
  "accepted_run = \<lparr>rd_graph_id = ''g-1'', rd_plan_state = ''PlanAccepted'', rd_run_base = ''base'',
     rd_integrate_ref = ''meshloop/g-1/integrate'', rd_plan_json = ''plan'', rd_plan_id = [],
     rd_created_at = ''0'', rd_review_note = None\<rparr>"

definition sample_state :: "event_row list \<Rightarrow> unit run_state" where
  "sample_state evs =
     \<lparr>st_store = empty_store\<lparr>db_runs := [accepted_run], db_events := evs\<rparr>,
      st_pending = Map.empty, st_active = Some ''g-1'', st_world = ()\<rparr>"

end
