(* ===== verification/Engine_Run_Logic.thy ===== *)
theory Engine_Run_Logic
  imports Engine_Run_State
begin

text \<open>
  How the methods of the run loop are reasoned about. \<open>emits P m\<close>: whatever \<open>m\<close> does, it adds to
  the event log only records that satisfy \<open>P\<close>, and it leaves the table of runs alone.
  \<open>runs g p m Q\<close>: started when the log of graph \<open>g\<close> says \<open>p\<close>, method \<open>m\<close> leaves a sound log,
  also when it fails, and when it returns \<open>a\<close> the log says some \<open>p'\<close> with \<open>Q a p'\<close>.
\<close>

named_theorems emits \<open>rules for the records a method may add\<close>
named_theorems runs \<open>rules for the states a method leaves in the log\<close>

section \<open>Sound logs\<close>

lemma state_of_update [simp]: "state_of (p(t \<mapsto> x)) u = (if u = t then x else state_of p u)"
  by (simp add: state_of_def)

lemma state_of_Some: "p t = Some x \<Longrightarrow> state_of p t = x"
  by (simp add: state_of_def)

lemma state_of_empty [simp]: "state_of Map.empty t = Pending"
  by (simp add: state_of_def)

text \<open>
  A sound log names the state a task is really in as the origin of every record; a task without
  records is \<open>Pending\<close>. This is stricter than what \<open>replay_tasks\<close> accepts.
\<close>

definition advance :: "(task_id \<rightharpoonup> task_state) \<Rightarrow> transition_record \<Rightarrow> (task_id \<rightharpoonup> task_state) option" where
  "advance p r =
     (if tr_from r = state_of p (tr_task_id r) \<and> transition (tr_from r) (tr_event r) = Inr (tr_to r)
      then Some (p(tr_task_id r \<mapsto> tr_to r)) else None)"

fun advance_all ::
    "(task_id \<rightharpoonup> task_state) \<Rightarrow> transition_record list \<Rightarrow> (task_id \<rightharpoonup> task_state) option" where
  "advance_all p [] = Some p"
| "advance_all p (r # rs) = (case advance p r of Some q \<Rightarrow> advance_all q rs | None \<Rightarrow> None)"

lemma advance_all_append:
  "advance_all p (rs @ ls) =
     (case advance_all p rs of Some q \<Rightarrow> advance_all q ls | None \<Rightarrow> None)"
  by (induction rs arbitrary: p) (auto split: option.splits)

lemma advance_all_replay:
  "advance_all p rs = Some q \<Longrightarrow> replay_from p rs = Inr q"
proof (induction rs arbitrary: p)
  case (Cons r rs)
  then obtain p1 where a: "advance p r = Some p1" "advance_all p1 rs = Some q"
    by (auto split: option.splits)
  then have "replay_step p r = Inr p1"
    by (auto simp: replay_step_Inr advance_def state_of_def split: option.splits if_splits)
  then show ?case using Cons.IH [OF a(2)] by simp
qed simp

lemma advance_all_run:
  assumes "advance_all p rs = Some q"
  shows "run_events (state_of p t) (map tr_event (task_log t rs)) = Inr (state_of q t)"
  using assms
proof (induction rs arbitrary: p)
  case Nil
  then show ?case by (simp add: task_log_def)
next
  case (Cons r rs)
  then obtain p1 where a: "advance p r = Some p1" "advance_all p1 rs = Some q"
    by (auto split: option.splits)
  show ?case
    using Cons.IH [OF a(2)] a(1)
    by (auto simp: task_log_def advance_def simp del: fun_upd_apply split: if_splits)
qed

definition log_at :: "sqlite_store \<Rightarrow> string \<Rightarrow> (task_id \<rightharpoonup> task_state) \<Rightarrow> bool" where
  "log_at db g p \<longleftrightarrow>
     (\<exists>rs. db_records_for_graph db g = Inr rs \<and> advance_all Map.empty rs = Some p)"

definition log_sound :: "sqlite_store \<Rightarrow> bool" where
  "log_sound db \<longleftrightarrow> (\<forall>g. \<exists>p. log_at db g p)"

lemma log_at_replays: "log_at db g p \<Longrightarrow> sqlite_log.replays_to db g p"
  by (auto simp: log_at_def sqlite_log.replays_to_def replay_tasks_def advance_all_replay)

lemma log_at_unique: "log_at db g p \<Longrightarrow> log_at db g q \<Longrightarrow> p = q"
  by (auto simp: log_at_def)

lemma records_cong:
  "db_events db' = db_events db \<Longrightarrow> db_records_for_graph db' g = db_records_for_graph db g"
  by (simp add: db_records_for_graph_def)

lemma log_at_cong: "db_events db' = db_events db \<Longrightarrow> log_at db' g p = log_at db g p"
  using records_cong [of db' db] by (simp add: log_at_def)

lemma map_res_event_rows: "map_res record_of_row (map event_row_of rs) = Inr rs"
  by (induction rs) (simp_all add: codec_simps)

lemma records_event_rows:
  assumes "db_events db' = db_events db @ map event_row_of rs"
    and "db_records_for_graph db g = Inr old"
  shows "db_records_for_graph db' g = Inr (old @ filter (\<lambda>r. tr_graph_id r = g) rs)"
proof -
  have "filter (\<lambda>e. er_graph_id e = g) (map event_row_of rs) =
      map event_row_of (filter (\<lambda>r. tr_graph_id r = g) rs)"
    by (induction rs) (simp_all add: event_row_of_def)
  then show ?thesis
    using assms by (simp add: db_records_for_graph_def map_res_append map_res_event_rows)
qed

section \<open>Records a method adds\<close>

definition grows :: "(transition_record \<Rightarrow> bool) \<Rightarrow> sqlite_store \<Rightarrow> sqlite_store \<Rightarrow> bool" where
  "grows P db db' \<longleftrightarrow>
     (\<exists>rs. list_all P rs \<and> db_events db' = db_events db @ map event_row_of rs) \<and>
     db_runs db' = db_runs db"

lemma grows_refl: "grows P db db"
  by (auto simp: grows_def intro: exI [of _ "[]"])

lemma grows_trans:
  assumes "grows P a b" "grows P b c" shows "grows P a c"
proof -
  obtain rs ls where "list_all P rs" "db_events b = db_events a @ map event_row_of rs"
    "list_all P ls" "db_events c = db_events b @ map event_row_of ls"
    using assms by (auto simp: grows_def)
  then have "list_all P (rs @ ls) \<and> db_events c = db_events a @ map event_row_of (rs @ ls)"
    by simp
  moreover have "db_runs c = db_runs a" using assms by (simp add: grows_def)
  ultimately show ?thesis unfolding grows_def by blast
qed

lemma grows_mono: "grows P a b \<Longrightarrow> (\<And>r. P r \<Longrightarrow> Q r) \<Longrightarrow> grows Q a b"
  by (fastforce simp: grows_def list_all_iff)

definition emits :: "(transition_record \<Rightarrow> bool) \<Rightarrow> ('w, 'a) run \<Rightarrow> bool" where
  "emits P m \<longleftrightarrow> (\<forall>s. grows P (st_store s) (st_store (snd (m s))))"

definition quiet :: "('w, 'a) run \<Rightarrow> bool" where
  "quiet m \<longleftrightarrow>
     (\<forall>s. db_events (st_store (snd (m s))) = db_events (st_store s) \<and>
          db_runs (st_store (snd (m s))) = db_runs (st_store s))"

lemma quiet_emits: "quiet m \<Longrightarrow> emits P m"
  by (auto simp: quiet_def emits_def grows_def intro: exI [of _ "[]"])

lemma emits_mono: "emits P m \<Longrightarrow> (\<And>r. P r \<Longrightarrow> Q r) \<Longrightarrow> emits Q m"
  unfolding emits_def by (blast intro: grows_mono)

lemma snd_bindR:
  "st_store (snd (bindR m k s)) =
     (case m s of (Inl e, s') \<Rightarrow> st_store s' | (Inr a, s') \<Rightarrow> st_store (snd (k a s')))"
  by (auto simp: bindR_def split: sum.split prod.split)

lemma emits_bind [emits]:
  assumes "emits P m" "\<And>a. emits P (k a)"
  shows "emits P (bindR m k)"
  unfolding emits_def
proof
  fix s
  obtain r s' where m: "m s = (r, s')" by (cases "m s")
  then have "grows P (st_store s) (st_store s')"
    using assms(1) unfolding emits_def by (metis snd_conv)
  then show "grows P (st_store s) (st_store (snd (bindR m k s)))"
    using assms(2) grows_trans unfolding emits_def snd_bindR m
    by (cases r) auto
qed

lemma quiet_bind [emits]:
  assumes "quiet m" "\<And>a. quiet (k a)"
  shows "quiet (bindR m k)"
  unfolding quiet_def
proof
  fix s
  obtain r s' where m: "m s = (r, s')" by (cases "m s")
  then have "db_events (st_store s') = db_events (st_store s) \<and> db_runs (st_store s') = db_runs (st_store s)"
    using assms(1) unfolding quiet_def by (metis snd_conv)
  then show "db_events (st_store (snd (bindR m k s))) = db_events (st_store s) \<and>
      db_runs (st_store (snd (bindR m k s))) = db_runs (st_store s)"
    using assms(2) unfolding quiet_def snd_bindR m by (cases r) auto
qed

lemma control_emits [emits]:
  "(b \<Longrightarrow> emits P x) \<Longrightarrow> (\<not> b \<Longrightarrow> emits P y) \<Longrightarrow> emits P (if b then x else y)"
  "(\<And>e. r = Inl e \<Longrightarrow> emits P (f e)) \<Longrightarrow> (\<And>a. r = Inr a \<Longrightarrow> emits P (h a)) \<Longrightarrow>
     emits P (case r of Inl e \<Rightarrow> f e | Inr a \<Rightarrow> h a)"
  "(x' = None \<Longrightarrow> emits P n) \<Longrightarrow> (\<And>a. x' = Some a \<Longrightarrow> emits P (sm a)) \<Longrightarrow>
     emits P (case x' of None \<Rightarrow> n | Some a \<Rightarrow> sm a)"
  "(\<And>a b. pr = (a, b) \<Longrightarrow> emits P (pk a b)) \<Longrightarrow> emits P (case pr of (a, b) \<Rightarrow> pk a b)"
  "(\<And>v. emits P (lf v)) \<Longrightarrow> emits P (let v = lv in lf v)"
  by (auto split: sum.splits option.splits prod.splits)

lemma control_quiet [emits]:
  "(b \<Longrightarrow> quiet x) \<Longrightarrow> (\<not> b \<Longrightarrow> quiet y) \<Longrightarrow> quiet (if b then x else y)"
  "(\<And>e. r = Inl e \<Longrightarrow> quiet (f e)) \<Longrightarrow> (\<And>a. r = Inr a \<Longrightarrow> quiet (h a)) \<Longrightarrow>
     quiet (case r of Inl e \<Rightarrow> f e | Inr a \<Rightarrow> h a)"
  "(x' = None \<Longrightarrow> quiet n) \<Longrightarrow> (\<And>a. x' = Some a \<Longrightarrow> quiet (sm a)) \<Longrightarrow>
     quiet (case x' of None \<Rightarrow> n | Some a \<Rightarrow> sm a)"
  "(\<And>a b. pr = (a, b) \<Longrightarrow> quiet (pk a b)) \<Longrightarrow> quiet (case pr of (a, b) \<Rightarrow> pk a b)"
  "(\<And>v. quiet (lf v)) \<Longrightarrow> quiet (let v = lv in lf v)"
  by (auto split: sum.splits option.splits prod.splits)

lemma quiet_handled [emits]: "quiet m \<Longrightarrow> quiet (handled m)"
  by (auto simp: quiet_def handled_def split: prod.splits) (metis snd_conv)+

lemma emits_handled [emits]: "emits P m \<Longrightarrow> emits P (handled m)"
  by (auto simp: emits_def handled_def split: prod.splits) (metis snd_conv)

lemma quiet_prims [emits]:
  "quiet (ret a)" "quiet (throw e)" "quiet (port f)" "quiet (effect h)" "quiet (of_res c r)"
  "quiet (of_option e x)" "quiet get_store" "quiet (set_active g)" "quiet get_active"
  "quiet (take_pending i)" "quiet (insert_pending i out)" "quiet clear_pending"
  by (auto simp: quiet_def ret_def throw_def port_def effect_def of_res_def of_option_def
      get_store_def set_active_def get_active_def take_pending_def insert_pending_def
      clear_pending_def split: prod.splits sum.splits option.splits)

lemma quiet_derived [emits]:
  "quiet (workspace f)" "quiet (store_fault env)" "quiet (store_read env rd)" "quiet (stamp env)"
  by (auto simp: workspace_def store_fault_def store_read_def stamp_def intro!: emits)

lemma quiet_store_write:
  assumes "\<And>db db'. f db = Inr db' \<Longrightarrow> db_events db' = db_events db \<and> db_runs db' = db_runs db"
  shows "quiet (store_write env f)"
proof -
  have "quiet (bindR get_store (\<lambda>db. bindR (of_res StoreErr (f db)) put_store))"
    using assms
    by (auto simp: quiet_def bindR_def get_store_def of_res_def put_store_def ret_def throw_def
        split: sum.splits)
  then show ?thesis unfolding store_write_def by (rule quiet_bind [OF quiet_derived(2)])
qed

lemma emits_store_write:
  assumes "\<And>db db'. f db = Inr db' \<Longrightarrow> grows P db db'"
  shows "emits P (store_write env f)"
proof -
  have "emits P (bindR get_store (\<lambda>db. bindR (of_res StoreErr (f db)) put_store))"
    using assms
    by (auto simp: emits_def bindR_def get_store_def of_res_def put_store_def ret_def throw_def
        grows_refl split: sum.splits)
  then show ?thesis
    unfolding store_write_def by (rule emits_bind [OF quiet_emits [OF quiet_derived(2)]])
qed

lemma emits_first_some [emits]:
  "(\<And>x. x \<in> set xs \<Longrightarrow> emits P (f x)) \<Longrightarrow> emits P (first_some f xs)"
  by (induction xs) (auto intro!: emits quiet_emits [OF quiet_prims(1)])

lemma emits_for_each [emits]:
  "(\<And>x. x \<in> set xs \<Longrightarrow> emits P (f x)) \<Longrightarrow> emits P (for_each f xs)"
  by (induction xs) (auto intro!: emits quiet_emits [OF quiet_prims(1)])

lemma quiet_loops [emits]:
  "(\<And>x. x \<in> set xs \<Longrightarrow> quiet (f x)) \<Longrightarrow> quiet (first_some f xs)"
  "(\<And>x. x \<in> set ys \<Longrightarrow> quiet (h x)) \<Longrightarrow> quiet (for_each h ys)"
  "(\<And>x. x \<in> set zs \<Longrightarrow> quiet (l x)) \<Longrightarrow> quiet (map_run l zs)"
  by (induction xs, auto intro!: emits) (induction ys, auto intro!: emits, induction zs, auto intro!: emits)

section \<open>States a method leaves\<close>

definition runs ::
    "string \<Rightarrow> (task_id \<rightharpoonup> task_state) \<Rightarrow> ('w, 'a) run \<Rightarrow>
     ('a \<Rightarrow> (task_id \<rightharpoonup> task_state) \<Rightarrow> bool) \<Rightarrow> bool" where
  "runs g p m Q \<longleftrightarrow>
     (\<forall>s. log_at (st_store s) g p \<longrightarrow>
        (case m s of
           (Inl e, s') \<Rightarrow> \<exists>p'. log_at (st_store s') g p'
         | (Inr a, s') \<Rightarrow> \<exists>p'. log_at (st_store s') g p' \<and> Q a p'))"

lemma runs_ret [runs]: "Q a p \<Longrightarrow> runs g p (ret a) Q"
  by (auto simp: runs_def ret_def)

lemma runs_throw [runs]: "runs g p (throw e) Q"
  by (auto simp: runs_def throw_def)

lemma runs_bind:
  assumes "runs g p m R" "\<And>a p'. R a p' \<Longrightarrow> runs g p' (k a) Q"
  shows "runs g p (bindR m k) Q"
  unfolding runs_def
proof (intro allI impI)
  fix s :: "'a run_state" assume l: "log_at (st_store s) g p"
  show "case bindR m k s of (Inl e, s') \<Rightarrow> \<exists>p'. log_at (st_store s') g p'
      | (Inr a, s') \<Rightarrow> \<exists>p'. log_at (st_store s') g p' \<and> Q a p'"
  proof (cases "m s")
    case (Pair r s')
    show ?thesis
    proof (cases r)
      case (Inl e)
      then show ?thesis
        using assms(1) l Pair by (fastforce simp: runs_def bindR_def)
    next
      case (Inr a)
      then obtain p' where "log_at (st_store s') g p'" "R a p'"
        using assms(1) l Pair by (fastforce simp: runs_def)
      then show ?thesis
        using assms(2) Pair Inr by (fastforce simp: runs_def bindR_def)
    qed
  qed
qed

lemma runs_quiet: "quiet m \<Longrightarrow> (\<And>a. Q a p) \<Longrightarrow> runs g p m Q"
  unfolding runs_def
  by (auto simp: quiet_def split: prod.splits sum.splits) (metis log_at_cong snd_conv)+

lemma runs_quiet_bind:
  "quiet m \<Longrightarrow> (\<And>a. runs g p (k a) Q) \<Longrightarrow> runs g p (bindR m k) Q"
  by (rule runs_bind [OF runs_quiet [where Q = "\<lambda>_ p'. p' = p"]]) auto

lemma runs_weaken: "runs g p m R \<Longrightarrow> (\<And>a p'. R a p' \<Longrightarrow> Q a p') \<Longrightarrow> runs g p m Q"
  unfolding runs_def by (fastforce split: prod.splits sum.splits)

lemma runs_control [runs]:
  "(b \<Longrightarrow> runs g p x Q) \<Longrightarrow> (\<not> b \<Longrightarrow> runs g p y Q) \<Longrightarrow> runs g p (if b then x else y) Q"
  "(\<And>e. r = Inl e \<Longrightarrow> runs g p (f e) Q) \<Longrightarrow> (\<And>a. r = Inr a \<Longrightarrow> runs g p (h a) Q) \<Longrightarrow>
     runs g p (case r of Inl e \<Rightarrow> f e | Inr a \<Rightarrow> h a) Q"
  "(x' = None \<Longrightarrow> runs g p n Q) \<Longrightarrow> (\<And>a. x' = Some a \<Longrightarrow> runs g p (sm a) Q) \<Longrightarrow>
     runs g p (case x' of None \<Rightarrow> n | Some a \<Rightarrow> sm a) Q"
  "(\<And>a b. pr = (a, b) \<Longrightarrow> runs g p (pk a b) Q) \<Longrightarrow> runs g p (case pr of (a, b) \<Rightarrow> pk a b) Q"
  "(\<And>v. v = lv \<Longrightarrow> runs g p (lf v) Q) \<Longrightarrow> runs g p (let v = lv in lf v) Q"
  by (auto split: sum.splits option.splits prod.splits)

text \<open>
  A loop that leaves with the first answer: as long as every step that answers nothing also
  changes nothing, each step starts from the same states.
\<close>

lemma runs_first_some:
  assumes "\<And>x. x \<in> set xs \<Longrightarrow> runs g p (f x) (\<lambda>r p'. case r of None \<Rightarrow> p' = p | Some a \<Rightarrow> Q a p')"
  shows "runs g p (first_some f xs) (\<lambda>r p'. case r of None \<Rightarrow> p' = p | Some a \<Rightarrow> Q a p')"
  using assms
proof (induction xs)
  case Nil
  then show ?case by (auto intro: runs_ret)
next
  case (Cons x xs)
  have fx: "runs g p (f x) (\<lambda>r p'. case r of None \<Rightarrow> p' = p | Some a \<Rightarrow> Q a p')"
    using Cons.prems by simp
  have rest: "runs g p (first_some f xs) (\<lambda>r p'. case r of None \<Rightarrow> p' = p | Some a \<Rightarrow> Q a p')"
    using Cons by simp
  show ?case
    unfolding first_some.simps
  proof (rule runs_bind [OF fx])
    fix r p' assume "case r of None \<Rightarrow> p' = p | Some a \<Rightarrow> Q a p'"
    then show "runs g p' (case r of Some a \<Rightarrow> ret (Some a) | None \<Rightarrow> first_some f xs)
        (\<lambda>r p'. case r of None \<Rightarrow> p' = p | Some a \<Rightarrow> Q a p')"
      using rest by (cases r) (auto intro: runs_ret)
  qed
qed

end
