(* ===== verification/Engine_Run_Attempt.thy ===== *)
theory Engine_Run_Attempt
  imports Engine_Run_Logic
begin

text \<open>
  The lower half of \<open>crates/meshloop-engine/src/run_loop.rs\<close>: admission, the event log as the run
  loop writes it, the deterministic checks of an attempt, the repair loop and the verification that
  ends an attempt.
\<close>

section \<open>Paths and branches\<close>

text \<open>\<open>Path::join\<close> on a Unix system.\<close>

definition path_join :: "string \<Rightarrow> string \<Rightarrow> string" where
  "path_join a b =
     (if starts_with b ''/'' then b
      else if a = [] \<or> ends_with a ''/'' then a @ b
      else a @ ''/'' @ b)"

definition graph_dir :: "'w run_env \<Rightarrow> string \<Rightarrow> string" where
  "graph_dir env g = path_join (env_worktree_base env) g"

definition integrate_path :: "'w run_env \<Rightarrow> string \<Rightarrow> string" where
  "integrate_path env g = path_join (graph_dir env g) ''integrate''"

definition attempt_path :: "'w run_env \<Rightarrow> string \<Rightarrow> task_id \<Rightarrow> attempt_id \<Rightarrow> string" where
  "attempt_path env g t a =
     path_join (graph_dir env g) (''task-'' @ show_word t @ ''-attempt-'' @ show_word a)"

definition integrate_branch :: "string \<Rightarrow> string" where
  "integrate_branch g = ''meshloop/'' @ g @ ''/integrate''"

definition attempt_branch :: "string \<Rightarrow> task_id \<Rightarrow> attempt_id \<Rightarrow> string" where
  "attempt_branch g t a =
     ''meshloop/'' @ g @ ''/task-'' @ show_word t @ ''/attempt-'' @ show_word a"

definition deliverable_path :: "'w run_env \<Rightarrow> string \<Rightarrow> string \<Rightarrow> string" where
  "deliverable_path env g tag = path_join (graph_dir env g) (''integrate-'' @ tag)"

definition deliverable_branch :: "string \<Rightarrow> string \<Rightarrow> string" where
  "deliverable_branch g tag = ''meshloop/'' @ g @ ''/integrate-'' @ tag"

definition is_fixture :: "string \<Rightarrow> bool" where
  "is_fixture name \<longleftrightarrow> name = ''fixture''"

definition require_dispatch_ok :: "'w run_env \<Rightarrow> string \<Rightarrow> ('w, unit) run" where
  "require_dispatch_ok env harness =
     (if env_fixture_only env \<and> \<not> is_fixture harness then throw (LiveHarnessRefused harness)
      else ret ())"

section \<open>Admission and reads\<close>

definition require_unbound_graph :: "'w run_env \<Rightarrow> string \<Rightarrow> ('w, unit) run" where
  "require_unbound_graph env g =
     bindR (store_read env (\<lambda>db. Inr (g \<in> set (db_bindings db)))) (\<lambda>bound.
       if bound then throw (StoreErr LegacyOwnershipUnresolved) else ret ())"

definition require_legacy_mutation :: "'w run_env \<Rightarrow> string \<Rightarrow> ('w, unit) run" where
  "require_legacy_mutation env g =
     (if \<not> graph_id_is_legal g then throw (StoreErr PlanRevisionMismatch)
      else bindR (store_read env (\<lambda>db. Inr (legacy_ownership_unresolved db g))) (\<lambda>unresolved.
        if unresolved then throw (StoreErr LegacyOwnershipUnresolved)
        else require_unbound_graph env g))"

definition tasks :: "'w run_env \<Rightarrow> string \<Rightarrow> ('w, task_id \<rightharpoonup> task_state) run" where
  "tasks env g = store_read env (\<lambda>db. try_res (db_records_for_graph db g) replay_tasks)"

definition graph_from_run ::
    "(string \<Rightarrow> string + task_graph) \<Rightarrow> sqlite_store \<Rightarrow> string \<Rightarrow> store_error + task_graph" where
  "graph_from_run from_json db g =
     try_res (db_load_run db g) (\<lambda>row.
       case row of
         None \<Rightarrow> Inl (Corrupt (''no run '' @ g))
       | Some r \<Rightarrow> (case from_json (run_plan_json r) of Inl e \<Rightarrow> Inl (Corrupt e) | Inr x \<Rightarrow> Inr x))"

definition graph_of :: "'w run_env \<Rightarrow> string \<Rightarrow> ('w, task_graph) run" where
  "graph_of env g = store_read env (\<lambda>db. graph_from_run (pf_from_json (env_platform env)) db g)"

definition load_run :: "'w run_env \<Rightarrow> string \<Rightarrow> ('w, run_row option) run" where
  "load_run env g = store_read env (\<lambda>db. db_load_run db g)"

definition latest_attempt :: "'w run_env \<Rightarrow> string \<Rightarrow> task_id \<Rightarrow> ('w, attempt_row option) run" where
  "latest_attempt env g t = store_read env (\<lambda>db. Inr (db_latest_attempt_for_task db g t))"

definition attempts_for_task :: "'w run_env \<Rightarrow> string \<Rightarrow> task_id \<Rightarrow> ('w, attempt_row list) run" where
  "attempts_for_task env g t = store_read env (\<lambda>db. Inr (db_attempts_for_task db g t))"

definition record_evidence_row :: "'w run_env \<Rightarrow> evidence \<Rightarrow> ('w, unit) run" where
  "record_evidence_row env e = store_write env (db_record e)"

definition record_outcome_of :: "'w run_env \<Rightarrow> feedback_key \<Rightarrow> bool \<Rightarrow> ('w, unit) run" where
  "record_outcome_of env k ok = store_write env (\<lambda>db. Inr (db_record_outcome k ok db))"

section \<open>Writing the event log\<close>

definition ends_attempt :: "event \<Rightarrow> bool" where
  "ends_attempt e \<longleftrightarrow> e = HarnessExited \<or> e = HarnessCrashedOrTimeout \<or> e = Cancel"

text \<open>An exit, a crash or a cancellation closes the attempt row once.\<close>

definition close_attempt ::
    "'w run_env \<Rightarrow> attempt_id option \<Rightarrow> event \<Rightarrow> string \<Rightarrow> ('w, unit) run" where
  "close_attempt env attempt ev occurred_at =
     (if ends_attempt ev then
        (case attempt of
           None \<Rightarrow> ret ()
         | Some a \<Rightarrow>
             bindR (store_read env (\<lambda>db. Inr (find_attempt db a))) (\<lambda>row.
               case row of
                 None \<Rightarrow> ret ()
               | Some r \<Rightarrow>
                   if at_ended_at r = None
                   then store_write env (db_save_attempt (r\<lparr>at_ended_at := Some occurred_at\<rparr>))
                   else ret ()))
      else ret ())"

definition append_as ::
    "'w run_env \<Rightarrow> string \<Rightarrow> task_id \<Rightarrow> attempt_id option \<Rightarrow> task_state \<Rightarrow> event \<Rightarrow> string option \<Rightarrow>
       string \<Rightarrow> ('w, transition_record) run" where
  "append_as env g t attempt from ev reason executor =
     (case transition from ev of
        Inl _ \<Rightarrow> throw (IllegalErr (state_name from @ '' + '' @ event_name ev @ '' is illegal''))
      | Inr to \<Rightarrow>
          bindR (stamp env) (\<lambda>now.
            let r = \<lparr>tr_graph_id = g, tr_task_id = t, tr_attempt_id = attempt, tr_from = from,
                     tr_to = to, tr_event = ev, tr_reason = reason, tr_executor = executor,
                     tr_occurred_at = now\<rparr>
            in bindR (store_write env (db_append r)) (\<lambda>_.
               bindR (close_attempt env attempt ev now) (\<lambda>_. ret r))))"

definition append_ev ::
    "'w run_env \<Rightarrow> string \<Rightarrow> task_id \<Rightarrow> attempt_id option \<Rightarrow> task_state \<Rightarrow> event \<Rightarrow> string option \<Rightarrow>
       ('w, transition_record) run" where
  "append_ev env g t attempt from ev reason =
     append_as env g t attempt from ev reason ''meshloop''"

definition tick_of :: "task_id \<Rightarrow> attempt_id option \<Rightarrow> transition_record \<Rightarrow> tick" where
  "tick_of t a r = Transition t a (tr_from r) (tr_to r) (tr_event r)"

definition verify_gate_eligible :: "task_node \<Rightarrow> bool" where
  "verify_gate_eligible n \<longleftrightarrow>
     n_gate n = Verify \<and> (n_tier n = Some Tier1 \<or> n_tier n = Some Tier2)"

definition append_verify_gate ::
    "'w run_env \<Rightarrow> string \<Rightarrow> task_node \<Rightarrow> attempt_id \<Rightarrow> ('w, transition_record option) run" where
  "append_verify_gate env g n attempt =
     bindR (tasks env g) (\<lambda>ts.
       let state = state_of ts (n_id n) in
       if state = Accepted \<or> state = Integrated then ret None
       else if state \<noteq> AwaitingReview \<or> \<not> verify_gate_eligible n then ret None
       else bindR (append_as env g (n_id n) (Some attempt) AwaitingReview VerifyGatePassed None
                     ''meshloop:verify-gate'') (\<lambda>r. ret (Some r)))"

definition append_deterministic_result ::
    "'w run_env \<Rightarrow> string \<Rightarrow> task_node \<Rightarrow> attempt_id \<Rightarrow> bool \<Rightarrow> string option \<Rightarrow>
       ('w, transition_record) run" where
  "append_deterministic_result env g n attempt passed failure_reason =
     bindR (tasks env g) (\<lambda>ts.
       let state = state_of ts (n_id n) in
       if state = Accepted \<or> state = Integrated then throw (AlreadyAccepted (n_id n))
       else if state = AwaitingReview then
         (if \<not> passed then throw (IllegalErr ''deterministic checks already passed'')
          else bindR (append_verify_gate env g n attempt) (\<lambda>r.
                 of_option (IllegalErr ''verify gate is not eligible'') r))
       else
         bindR (append_ev env g (n_id n) (Some attempt) Verifying
                  (if passed then DeterministicChecksPassed else DeterministicChecksFailed)
                  (if passed then None else failure_reason)) (\<lambda>r.
           if \<not> passed then ret r
           else bindR (append_verify_gate env g n attempt) (\<lambda>gate.
                  ret (case gate of Some r' \<Rightarrow> r' | None \<Rightarrow> r))))"

section \<open>Liveness of an attempt\<close>

definition resolve_pane :: "'w run_env \<Rightarrow> attempt_row \<Rightarrow> ('w, string option) run" where
  "resolve_pane env a =
     (case at_pane_id a of
        Some pane \<Rightarrow> ret (Some pane)
      | None \<Rightarrow>
          (case at_worktree_path a of
             None \<Rightarrow> ret None
           | Some wt \<Rightarrow>
               (case at_harness a of
                  None \<Rightarrow> ret None
                | Some name \<Rightarrow>
                    (case map_of (env_harnesses env) name of
                       None \<Rightarrow> ret None
                     | Some h \<Rightarrow> port (h_pane_for_worktree h wt)))))"

definition attempt_handle :: "attempt_row \<Rightarrow> string option \<Rightarrow> harness_handle" where
  "attempt_handle a pane =
     \<lparr>hh_attempt_id = at_attempt_id a, hh_pid = at_pid a, hh_pane_id = pane\<rparr>"

definition attempt_live :: "'w run_env \<Rightarrow> attempt_row \<Rightarrow> ('w, live_check) run" where
  "attempt_live env a =
     (case at_harness a of
        None \<Rightarrow> ret Dead
      | Some name \<Rightarrow>
          (case map_of (env_harnesses env) name of
             None \<Rightarrow> ret Ambiguous
           | Some h \<Rightarrow>
               bindR (resolve_pane env a) (\<lambda>pane. port (h_session_live h (attempt_handle a pane)))))"

definition attempt_driver_dead :: "'w run_env \<Rightarrow> attempt_row \<Rightarrow> ('w, bool) run" where
  "attempt_driver_dead env a =
     (if at_pane_id a \<noteq> None then bindR (attempt_live env a) (\<lambda>l. ret (l = Dead))
      else case at_pid a of
        None \<Rightarrow> ret True
      | Some pid \<Rightarrow>
          bindR (port (env_is_live env \<lparr>ph_pid = pid, ph_image_name = at_image_name a\<rparr>)) (\<lambda>l.
            ret (l = Dead)))"

definition base_of :: "attempt_row \<Rightarrow> string option" where
  "base_of a = (case at_outcome a of Some s \<Rightarrow> strip_prefix s ''base:'' | None \<Rightarrow> None)"

definition or_empty :: "string option \<Rightarrow> string" where
  "or_empty x = (case x of Some s \<Rightarrow> s | None \<Rightarrow> [])"

section \<open>Deterministic checks\<close>

definition SKIPPED_VERIFY_SUMMARY :: string where
  "SKIPPED_VERIFY_SUMMARY = ''skipped: empty verify_command''"

definition skipped_verify_evidence :: "candidate_ref \<Rightarrow> evidence" where
  "skipped_verify_evidence c =
     Deterministic \<lparr>de_candidate = c, de_tool = ''verify'', de_tool_version = ''n/a'',
       de_exit_code = 0, de_output_redacted = SKIPPED_VERIFY_SUMMARY\<rparr>"

text \<open>The sign of an \<open>i32\<close> in \<open>format!\<close>.\<close>

definition show_i32 :: "i32 \<Rightarrow> string" where
  "show_i32 x = (if sint x < 0 then ''-'' @ show_nat (nat (- sint x)) else show_nat (nat (sint x)))"

definition harness_output_evidence :: "candidate_ref \<Rightarrow> harness_outcome \<Rightarrow> evidence" where
  "harness_output_evidence c out =
     Deterministic \<lparr>de_candidate = c, de_tool = ''harness-output'', de_tool_version = ''n/a'',
       de_exit_code = 0,
       de_output_redacted = ''exit='' @ show_i32 (ho_exit_code out) @ NL @ ''stdout:'' @ NL @
         ho_output_redacted out @ NL @ ''stderr:'' @ NL @ ho_stderr_redacted out\<rparr>"

definition run_deterministic_checks ::
    "'w run_env \<Rightarrow> task_node \<Rightarrow> attempt_id \<Rightarrow> string \<Rightarrow> string \<Rightarrow> string \<Rightarrow>
       ('w, workspace_error + (evidence list \<times> diagnostic_lattice option \<times> string)) act" where
  "run_deterministic_checks env n attempt wt base revision w =
     (case ws_diff_against (env_workspace env) wt base w of
        (Inl e, w) \<Rightarrow> (Inl e, w)
      | (Inr diff, w) \<Rightarrow>
          (let c = \<lparr>cr_task_id = n_id n, cr_attempt_id = attempt, cr_revision = revision\<rparr>;
               git_row = Deterministic \<lparr>de_candidate = c, de_tool = ''git-diff'',
                 de_tool_version = ''n/a'', de_exit_code = git_diff_exit_code diff (n_empty_diff_ok n),
                 de_output_redacted = ds_stat_redacted diff\<rparr>;
               scope_rows =
                 (if all_paths_allowed (ds_files diff) (n_allowed_paths n) then []
                  else [Deterministic \<lparr>de_candidate = c, de_tool = ''allowed-paths'',
                    de_tool_version = ''n/a'', de_exit_code = 1,
                    de_output_redacted =
                      ''changed '' @ dbg_strings (env_platform env) (ds_files diff)\<rparr>]);
               rows = git_row # scope_rows
           in case env_verify_command env of
                [] \<Rightarrow> (Inr (rows @ [skipped_verify_evidence c], None, []), w)
              | tool # _ \<Rightarrow>
                  (case env_check_run env wt (env_verify_command env) (task_timeout (env_limits env)) w of
                     (Inr ev, w) \<Rightarrow>
                       (case annotate_with_lattice (de_output_redacted ev) of (l, annotated) \<Rightarrow>
                          (Inr (rows @ [Deterministic
                              (ev\<lparr>de_candidate := c, de_output_redacted := annotated\<rparr>)],
                            Some l, de_output_redacted ev), w))
                   | (Inl e, w) \<Rightarrow>
                       (let diag = dbg_check_error (env_platform env) e
                        in (Inr (rows @ [Deterministic \<lparr>de_candidate = c, de_tool = tool,
                              de_tool_version = ''n/a'', de_exit_code = 1,
                              de_output_redacted = diag\<rparr>], None, diag), w)))))"

section \<open>Repair\<close>

record repair_tick =
  rt_rows :: "evidence list"
  rt_lattice :: "diagnostic_lattice option"
  rt_diag :: string
  rt_revision :: string

definition dispatch_repair_round ::
    "'w run_env \<Rightarrow> task_node \<Rightarrow> attempt_id \<Rightarrow> string \<Rightarrow> string \<Rightarrow> candidate \<Rightarrow> string \<Rightarrow> string \<Rightarrow> string \<Rightarrow>
       string \<Rightarrow> ('w, repair_tick option) run" where
  "dispatch_repair_round env n attempt wt base c prompt commit_message diagnostics constraint =
     (case map_of (env_harnesses env) (c_harness c) of
        None \<Rightarrow> ret None
      | Some h \<Rightarrow>
          bindR (port (h_invoke h (build_repair_spec n attempt (c_harness c) (c_model_ref c) wt
                   (task_timeout (env_limits env)) diagnostics constraint))) (\<lambda>inv.
          case inv of
            Inl _ \<Rightarrow> ret None
          | Inr handle \<Rightarrow>
              bindR (port (h_collect h handle)) (\<lambda>coll.
              case coll of
                Inl _ \<Rightarrow> ret None
              | Inr _ \<Rightarrow>
                  bindR (port (ws_remove_file (env_workspace env) wt prompt)) (\<lambda>_.
                  bindR (port (ws_commit_all (env_workspace env) wt commit_message)) (\<lambda>cm.
                  case cm of
                    Inl _ \<Rightarrow> ret None
                  | Inr revision \<Rightarrow>
                      bindR (port (run_deterministic_checks env n attempt wt base revision)) (\<lambda>res.
                      case res of
                        Inl _ \<Rightarrow> ret None
                      | Inr (rows, lattice, diag) \<Rightarrow>
                          bindR (for_each (\<lambda>row.
                            bindR (handled (record_evidence_row env row)) (\<lambda>_. ret ())) rows) (\<lambda>_.
                            ret (Some \<lparr>rt_rows = rows, rt_lattice = lattice, rt_diag = diag,
                                       rt_revision = revision\<rparr>))))))))"

definition show_bool :: "bool \<Rightarrow> string" where
  "show_bool b = (if b then ''true'' else ''false'')"

definition persist_repair_session ::
    "'w run_env \<Rightarrow> task_node \<Rightarrow> attempt_id \<Rightarrow> string \<Rightarrow> repair_session \<Rightarrow> bool \<Rightarrow> string \<Rightarrow>
       ('w, unit) run" where
  "persist_repair_session env n attempt revision session passed elapsed_ms =
     (if round_count session = 0 then ret ()
      else
        let lst = last_action session;
            accepted = (lst = Some AcceptRepair \<and> passed);
            stop = (case lst of Some a \<Rightarrow> action_summary a | None \<Rightarrow> ''none'')
        in bindR (handled (record_evidence_row env (Deterministic
             \<lparr>de_candidate = \<lparr>cr_task_id = n_id n, cr_attempt_id = attempt, cr_revision = revision\<rparr>,
              de_tool = ''repair-session'', de_tool_version = ''n/a'',
              de_exit_code = (if accepted then 0 else 1),
              de_output_redacted = ''stop='' @ stop @ '' passed='' @ show_bool passed @
                '' elapsed_ms='' @ elapsed_ms @ NL @ trajectory_redacted session\<rparr>))) (\<lambda>_. ret ()))"

definition persist_rollback_fidelity ::
    "'w run_env \<Rightarrow> task_node \<Rightarrow> attempt_id \<Rightarrow> string \<Rightarrow> string \<Rightarrow> ('w, unit) run" where
  "persist_rollback_fidelity env n attempt wt target =
     bindR (port (ws_head (env_workspace env) wt)) (\<lambda>hd'.
     bindR (port (ws_status_porcelain (env_workspace env) wt)) (\<lambda>pc.
       let head = or_empty (res_ok hd'); porcelain = or_empty (res_ok pc);
           sha_match = (head \<noteq> [] \<and>
             (head = target \<or> starts_with head target \<or> starts_with target head));
           porcelain_clean = (trim porcelain = []);
           fidelity_ok = (sha_match \<and> porcelain_clean);
           bit = (\<lambda>b. if b then ''1'' else ''0'')
       in bindR (handled (record_evidence_row env (Deterministic
            \<lparr>de_candidate = \<lparr>cr_task_id = n_id n, cr_attempt_id = attempt, cr_revision = target\<rparr>,
             de_tool = ''repair-rollback'', de_tool_version = ''n/a'',
             de_exit_code = (if fidelity_ok then 0 else 1),
             de_output_redacted = ''to_rev='' @ target @ '' head='' @ head @ '' sha_match='' @
               bit sha_match @ '' porcelain_clean='' @ bit porcelain_clean @ '' fidelity='' @
               bit fidelity_ok\<rparr>))) (\<lambda>_. ret ())))"

datatype micro_repair_follow =
    FollowImproved repair_action diagnostic_lattice string string "evidence list"
  | FollowHeavy
  | FollowAbort

text \<open>
  The host closure of \<open>try_micro_repair\<close>: it acts on the world and remembers the rows of its last
  successful rerun.
\<close>

definition micro_host ::
    "'w run_env \<Rightarrow> task_node \<Rightarrow> attempt_id \<Rightarrow> string \<Rightarrow> string \<Rightarrow> micro_repair_host \<Rightarrow>
       'w \<times> evidence list option \<Rightarrow> micro_repair_reply \<times> 'w \<times> evidence list option" where
  "micro_host env n attempt wt base request wx =
     (case wx of (w, fresh) \<Rightarrow>
        (case request of
           Rerun \<Rightarrow>
             (case ws_commit_all (env_workspace env) wt
                     (''meshloop: micro-repair for task '' @ show_word (n_id n)) w of
                (Inl _, w) \<Rightarrow> (Unavailable, w, fresh)
              | (Inr revision, w) \<Rightarrow>
                  (case run_deterministic_checks env n attempt wt base revision w of
                     (Inr (rows, Some lattice, diag), w) \<Rightarrow> (Reran lattice revision diag, w, Some rows)
                   | (_, w) \<Rightarrow> (Unavailable, w, fresh)))
         | ResetTo revision \<Rightarrow>
             (case ws_reset_hard (env_workspace env) wt revision w of
                (Inr _, w) \<Rightarrow> (ResetDone, w, fresh)
              | (Inl _, w) \<Rightarrow> (ResetFailed, w, fresh))))"

definition beside :: "('w, 'a) act \<Rightarrow> ('w \<times> 'f, 'a) act" where
  "beside f wx = (case wx of (w, x) \<Rightarrow> (case f w of (a, w) \<Rightarrow> (a, w, x)))"

definition try_micro_repair ::
    "'w run_env \<Rightarrow> task_node \<Rightarrow> attempt_id \<Rightarrow> string \<Rightarrow> string \<Rightarrow> repair_session \<Rightarrow>
       diagnostic_lattice \<Rightarrow> string \<Rightarrow> ('w, micro_repair_follow \<times> repair_session) run" where
  "try_micro_repair env n attempt wt base session before_l prior =
     (case env_micro_repair env of
        None \<Rightarrow> ret (FollowHeavy, session)
      | Some micro \<Rightarrow>
          bindR (port (\<lambda>w.
            case consider_micro_repair session before_l prior (n_description n)
                   (\<lambda>subject. beside (mi_port micro subject))
                   (\<lambda>l. beside (mi_actuator micro l))
                   (micro_host env n attempt wt base) (w, None) of
              (report, session', w, fresh) \<Rightarrow> ((report, session', fresh), w))) (\<lambda>(report, session', fresh).
          case report of
            Heavy \<Rightarrow> ret (FollowHeavy, session')
          | Abort \<Rightarrow> ret (FollowAbort, session')
          | Improved action lattice diag revision \<Rightarrow>
              (case fresh of
                 None \<Rightarrow> ret (FollowAbort, session')
               | Some rows \<Rightarrow>
                   bindR (for_each (record_evidence_row env) rows) (\<lambda>_.
                     ret (FollowImproved action lattice diag revision rows, session')))))"

section \<open>The repair loop\<close>

record repair_state =
  rl_session :: repair_session
  rl_lat :: diagnostic_lattice
  rl_rows :: "evidence list"
  rl_diag :: string
  rl_revision :: string
  rl_passed :: bool
  rl_queued :: "repair_action option"

text \<open>
  The part the \<open>Continue\<close> and the \<open>Rollback\<close> arm share: a micro-repair, or else a repair round.
  The flag says whether the loop goes on.
\<close>

definition repair_once ::
    "'w run_env \<Rightarrow> task_node \<Rightarrow> attempt_id \<Rightarrow> string \<Rightarrow> string \<Rightarrow> candidate \<Rightarrow> string \<Rightarrow> string \<Rightarrow> string \<Rightarrow>
       diagnostic_lattice \<Rightarrow> repair_state \<Rightarrow> ('w, bool \<times> repair_state) run" where
  "repair_once env n attempt wt base c prompt commit_msg constraint before_l l =
     bindR (try_micro_repair env n attempt wt base (rl_session l) before_l (rl_revision l))
       (\<lambda>(follow, session).
       let l = l\<lparr>rl_session := session\<rparr> in
       case follow of
         FollowImproved action lattice diag revision rows \<Rightarrow>
           ret (True, l\<lparr>rl_rows := rows, rl_diag := diag, rl_revision := revision,
                        rl_lat := lattice, rl_queued := Some action\<rparr>)
       | FollowAbort \<Rightarrow> ret (False, l)
       | FollowHeavy \<Rightarrow>
           bindR (dispatch_repair_round env n attempt wt base c prompt commit_msg (rl_diag l) constraint)
             (\<lambda>r. case r of
                None \<Rightarrow> ret (False, l)
              | Some t \<Rightarrow>
                  (let l = l\<lparr>rl_rows := rt_rows t, rl_diag := rt_diag t, rl_revision := rt_revision t\<rparr>
                   in case rt_lattice t of
                        Some x \<Rightarrow> ret (True, l\<lparr>rl_lat := x\<rparr>)
                      | None \<Rightarrow> ret (False, l))))"

text \<open>The action of an iteration: a queued one, or a new observation.\<close>

definition next_action :: "repair_state \<Rightarrow> repair_action \<times> repair_state" where
  "next_action l =
     (case rl_queued l of
        Some action \<Rightarrow> (action, l\<lparr>rl_queued := None\<rparr>)
      | None \<Rightarrow>
          (case observe (rl_session l) (rl_lat l) (rl_revision l) (rl_diag l) of
             (action, session) \<Rightarrow> (action, l\<lparr>rl_session := session\<rparr>)))"

definition repair_step ::
    "'w run_env \<Rightarrow> task_node \<Rightarrow> attempt_id \<Rightarrow> string \<Rightarrow> string \<Rightarrow> candidate \<Rightarrow> string \<Rightarrow> repair_state \<Rightarrow>
       ('w, bool \<times> repair_state) run" where
  "repair_step env n attempt wt base c prompt l =
     (case next_action l of (action, l) \<Rightarrow>
        (case action of
           AcceptRepair \<Rightarrow> ret (False, l\<lparr>rl_passed := verification_passed (rl_rows l)\<rparr>)
         | Continue k constraint \<Rightarrow>
             repair_once env n attempt wt base c prompt
               (''meshloop: repair round '' @ show_word k @ '' for task '' @ show_word (n_id n))
               constraint (rl_lat l) l
         | Rollback rnd target constraint \<Rightarrow>
             bindR (port (ws_reset_hard (env_workspace env) wt target)) (\<lambda>res.
             case res of
               Inl _ \<Rightarrow> ret (False, l)
             | Inr _ \<Rightarrow>
                 bindR (persist_rollback_fidelity env n attempt wt target) (\<lambda>_.
                   let restored = record_at (rl_session l) rnd;
                       l = l\<lparr>rl_diag := (case restored of Some r \<Rightarrow> rr_diag r | None \<Rightarrow> rl_diag l),
                             rl_revision := target\<rparr>;
                       before_l = (case restored of Some r \<Rightarrow> rr_lattice r | None \<Rightarrow> rl_lat l)
                   in repair_once env n attempt wt base c prompt
                        (''meshloop: repair rollback retry for task '' @ show_word (n_id n))
                        constraint before_l l))
         | Stop _ \<Rightarrow> ret (False, l)))"

text \<open>
  The \<open>loop\<close> of \<open>verify_attempt\<close>, with fuel; \<open>None\<close> when the fuel does not suffice
  (\<open>repair_loop_total\<close>: a session of three rounds needs at most four iterations).
\<close>

primrec repair_loop ::
    "nat \<Rightarrow> 'w run_env \<Rightarrow> task_node \<Rightarrow> attempt_id \<Rightarrow> string \<Rightarrow> string \<Rightarrow> candidate \<Rightarrow> string \<Rightarrow>
       repair_state \<Rightarrow> ('w, repair_state option) run" where
  "repair_loop 0 env n attempt wt base c prompt l = ret None"
| "repair_loop (Suc k) env n attempt wt base c prompt l =
     bindR (repair_step env n attempt wt base c prompt l) (\<lambda>(more, l).
       if more then repair_loop k env n attempt wt base c prompt l else ret (Some l))"

definition repair_fuel :: nat where
  "repair_fuel = unat (max_rounds default_budget) + 1"

section \<open>Verification of an attempt\<close>

definition retry_unused :: "attempt_row list \<Rightarrow> candidate list \<Rightarrow> bool" where
  "retry_unused attempts selected =
     (let used = List.map_filter at_harness attempts
      in list_ex (\<lambda>c. c_harness c \<notin> set used) selected)"

definition maybe_fallback ::
    "'w run_env \<Rightarrow> string \<Rightarrow> task_id \<Rightarrow> transition_record \<Rightarrow> candidate list \<Rightarrow> ('w, tick) run" where
  "maybe_fallback env g t fail selected =
     bindR (attempts_for_task env g t) (\<lambda>attempts.
     bindR (first_some (\<lambda>a.
       bindR (resolve_pane env a) (\<lambda>pane.
         if pane = None then ret None
         else bindR (attempt_live env a) (\<lambda>l. ret (if l = Dead then None else Some ())))) attempts) (\<lambda>live.
       if live \<noteq> None then ret (tick_of t (tr_attempt_id fail) fail)
       else if tr_to fail = Failed \<and> of_nat (length attempts) < max_retries (env_limits env) \<and>
               retry_unused attempts selected
       then bindR (append_ev env g t (tr_attempt_id fail) Failed RetryAuthorized None) (\<lambda>r.
              ret (tick_of t (tr_attempt_id r) r))
       else ret (tick_of t (tr_attempt_id fail) fail)))"

text \<open>The repair of an attempt whose checks failed and produced a lattice; the final verdict.\<close>

definition repair_attempt ::
    "'w run_env \<Rightarrow> task_node \<Rightarrow> attempt_id \<Rightarrow> string \<Rightarrow> string \<Rightarrow> candidate \<Rightarrow> string \<Rightarrow>
       evidence list \<Rightarrow> diagnostic_lattice option \<Rightarrow> string \<Rightarrow> string \<Rightarrow> bool \<Rightarrow> ('w, bool) run" where
  "repair_attempt env n attempt wt base c prompt rows lattice diag revision passed =
     (case (if passed then None else lattice) of
        None \<Rightarrow> ret passed
      | Some lat \<Rightarrow>
          (let l0 = \<lparr>rl_session = session_new default_budget, rl_lat = lat, rl_rows = rows,
                     rl_diag = diag, rl_revision = revision, rl_passed = passed,
                     rl_queued = None\<rparr>
           in bindR (repair_loop repair_fuel env n attempt wt base c prompt l0) (\<lambda>l'.
                let l = (case l' of Some l \<Rightarrow> l | None \<Rightarrow> l0) in
                bindR (port (pf_elapsed_ms (env_platform env))) (\<lambda>elapsed.
                bindR (persist_repair_session env n attempt (rl_revision l) (rl_session l)
                         (rl_passed l) elapsed) (\<lambda>_.
                  ret (rl_passed l))))))"

definition verify_attempt ::
    "'w run_env \<Rightarrow> string \<Rightarrow> task_node \<Rightarrow> attempt_id \<Rightarrow> string \<Rightarrow> string \<Rightarrow> tier \<Rightarrow> candidate \<Rightarrow>
       harness_outcome \<Rightarrow> ('w, tick) run" where
  "verify_attempt env g n attempt wt base t c out =
     (let prompt = ''.meshloop-prompt-'' @ show_word attempt in
      bindR (port (ws_remove_file (env_workspace env) wt prompt)) (\<lambda>_.
      bindR (workspace (ws_commit_all (env_workspace env) wt
               (''meshloop: attempt '' @ show_word attempt @ '' for task '' @ show_word (n_id n))))
        (\<lambda>revision.
      bindR (workspace (run_deterministic_checks env n attempt wt base revision))
        (\<lambda>(check_rows, lattice, diag).
        let rows = check_rows @ [harness_output_evidence
              \<lparr>cr_task_id = n_id n, cr_attempt_id = attempt, cr_revision = revision\<rparr> out] in
      bindR (for_each (record_evidence_row env) rows) (\<lambda>_.
        let passed = verification_passed rows in
      bindR (repair_attempt env n attempt wt base c prompt rows lattice diag revision passed) (\<lambda>passed.
      bindR (handled (record_outcome_of env (feedback_key_for c t) passed)) (\<lambda>_.
      bindR (append_deterministic_result env g n attempt passed None) (\<lambda>r.
        if passed then ret (tick_of (n_id n) (Some attempt) r)
        else maybe_fallback env g (n_id n) r []))))))))"

section \<open>What the attempt leaves alone\<close>

lemma quiet_reads [emits]:
  "quiet (require_dispatch_ok env h)" "quiet (require_unbound_graph env g)"
  "quiet (require_legacy_mutation env g)" "quiet (tasks env g)" "quiet (graph_of env g)"
  "quiet (load_run env g)" "quiet (latest_attempt env g t)" "quiet (attempts_for_task env g t)"
  by (auto simp: require_dispatch_ok_def require_unbound_graph_def require_legacy_mutation_def
      tasks_def graph_of_def load_run_def latest_attempt_def attempts_for_task_def intro!: emits)

lemma quiet_writes [emits]:
  "quiet (record_evidence_row env e)" "quiet (record_outcome_of env k ok)"
  "quiet (store_write env (db_save_attempt r))"
  "quiet (store_write env (db_update_attempt_pid a pid img))"
  "quiet (store_write env (db_update_attempt_pane a pane))"
  by (auto simp: record_evidence_row_def record_outcome_of_def db_record_outcome_def Let_def
      db_record_row_def db_update_attempt_pid_def db_update_attempt_pane_def
      dest!: db_record_Inr db_save_attempt_Inr update_attempt_Inr intro!: quiet_store_write)

lemma quiet_close_attempt [emits]: "quiet (close_attempt env a ev now)"
  by (auto simp: close_attempt_def intro!: emits)

lemma quiet_liveness [emits]:
  "quiet (resolve_pane env a)" "quiet (attempt_live env a)" "quiet (attempt_driver_dead env a)"
proof -
  show 1: "quiet (resolve_pane env a)" by (auto simp: resolve_pane_def intro!: emits)
  show 2: "quiet (attempt_live env a)" by (auto simp: attempt_live_def intro!: emits 1)
  show "quiet (attempt_driver_dead env a)" by (auto simp: attempt_driver_dead_def intro!: emits 2)
qed

lemma quiet_repair_round [emits]:
  "quiet (dispatch_repair_round env n a wt base c prompt msg diags constraint)"
  by (auto simp: dispatch_repair_round_def intro!: emits)

lemma quiet_persist [emits]:
  "quiet (persist_repair_session env n a rv session passed ms)"
  "quiet (persist_rollback_fidelity env n a wt target)"
  by (auto simp: persist_repair_session_def persist_rollback_fidelity_def intro!: emits)

lemma quiet_micro_repair [emits]: "quiet (try_micro_repair env n a wt base session l prior)"
  by (auto simp: try_micro_repair_def intro!: emits split: micro_repair_report.splits)

lemma quiet_repair_once [emits]:
  "quiet (repair_once env n a wt base c prompt msg constraint before_l l)"
  by (auto simp: repair_once_def Let_def intro!: emits split: micro_repair_follow.splits)

lemma quiet_repair_loop [emits]: "quiet (repair_loop k env n a wt base c prompt l)"
proof -
  have "quiet (repair_step env n a wt base c prompt l)" for l
    by (auto simp: repair_step_def Let_def intro!: emits split: repair_action.splits)
  then show ?thesis by (induction k arbitrary: l) (auto intro!: emits)
qed

lemma quiet_repair_attempt [emits]:
  "quiet (repair_attempt env n a wt base c prompt rows lattice diag rv passed)"
  unfolding repair_attempt_def Let_def by (intro emits)

section \<open>What appending does to the log\<close>

lemma emits_append_as:
  assumes "\<And>r. tr_graph_id r = g \<Longrightarrow> tr_task_id r = t \<Longrightarrow> tr_attempt_id r = a \<Longrightarrow> tr_from r = from \<Longrightarrow>
      tr_event r = ev \<Longrightarrow> transition from ev = Inr (tr_to r) \<Longrightarrow> tr_executor r = executor \<Longrightarrow> P r"
  shows "emits P (append_as env g t a from ev reason executor)"
proof (cases "transition from ev")
  case (Inl e)
  then show ?thesis by (simp add: append_as_def quiet_emits quiet_prims)
next
  case (Inr to)
  have w: "emits P (store_write env (db_append r))" if "P r" for r
    using that by (auto intro!: emits_store_write exI [of _ "[r]"] simp: grows_def db_append_Inr)
  show ?thesis
    unfolding append_as_def Inr sum.case Let_def
    by (intro emits_bind w assms quiet_emits quiet_derived quiet_close_attempt quiet_prims)
      (simp_all add: Inr)
qed

lemma log_at_append:
  assumes "log_at db g p" "db_append r db = Inr db'" "tr_graph_id r = g"
    and "tr_from r = state_of p (tr_task_id r)" "transition (tr_from r) (tr_event r) = Inr (tr_to r)"
  shows "log_at db' g (p(tr_task_id r \<mapsto> tr_to r))"
proof -
  obtain rs where rs: "db_records_for_graph db g = Inr rs" "advance_all Map.empty rs = Some p"
    using assms(1) by (auto simp: log_at_def)
  have "db_records_for_graph db' g = Inr (rs @ [r])"
    using sqlite_log.records_append [OF assms(2) rs(1)] assms(3) by simp
  then show ?thesis
    using rs(2) assms(4,5) by (auto simp: log_at_def advance_all_append advance_def)
qed

lemma runs_store_append:
  assumes "tr_graph_id r = g" "tr_from r = state_of p (tr_task_id r)"
    and "transition (tr_from r) (tr_event r) = Inr (tr_to r)"
  shows "runs g p (store_write env (db_append r)) (\<lambda>_ p'. p' = p(tr_task_id r \<mapsto> tr_to r))"
proof -
  have "runs g p (bindR get_store (\<lambda>db. bindR (of_res StoreErr (db_append r db)) put_store))
      (\<lambda>_ p'. p' = p(tr_task_id r \<mapsto> tr_to r))"
    using assms
    by (auto simp: runs_def bindR_def get_store_def of_res_def put_store_def ret_def throw_def
        intro: log_at_append split: sum.split)
  then show ?thesis
    unfolding store_write_def by (rule runs_quiet_bind [OF quiet_derived(2)])
qed

lemma runs_append_as_bind [runs]:
  assumes "from = state_of p t"
    and "\<And>r. tr_graph_id r = g \<Longrightarrow> tr_task_id r = t \<Longrightarrow> tr_attempt_id r = a \<Longrightarrow> tr_from r = from \<Longrightarrow>
      tr_event r = ev \<Longrightarrow> transition from ev = Inr (tr_to r) \<Longrightarrow>
      runs g (p(t \<mapsto> tr_to r)) (k r) Q"
  shows "runs g p (bindR (append_as env g t a from ev reason executor) k) Q"
proof -
  have "runs g p (append_as env g t a from ev reason executor) (\<lambda>r p'.
      p' = p(t \<mapsto> tr_to r) \<and> tr_graph_id r = g \<and> tr_task_id r = t \<and> tr_attempt_id r = a \<and>
      tr_from r = from \<and> tr_event r = ev \<and> transition from ev = Inr (tr_to r))"
  proof (cases "transition from ev")
    case (Inl e)
    then show ?thesis by (simp add: append_as_def runs_throw)
  next
    case (Inr to)
    show ?thesis
      unfolding append_as_def Inr sum.case Let_def
      by (intro runs_quiet_bind quiet_derived runs_bind [OF runs_store_append] quiet_close_attempt runs_ret)
        (auto simp: assms(1) Inr [unfolded assms(1)])
  qed
  then show ?thesis by (rule runs_bind) (use assms(2) in blast)
qed

lemma runs_tasks_bind [runs]:
  assumes "runs g p (k p) Q"
  shows "runs g p (bindR (tasks env g) k) Q"
proof -
  have read: "try_res (db_records_for_graph db g) replay_tasks = Inr p" if "log_at db g p" for db
    using log_at_replays [OF that] by (auto simp: sqlite_log.replays_to_def)
  have "runs g p (bindR get_store (\<lambda>db.
      of_res StoreErr (try_res (db_records_for_graph db g) replay_tasks))) (\<lambda>q p'. q = p \<and> p' = p)"
    using read by (auto simp: runs_def bindR_def get_store_def of_res_def ret_def)
  then have "runs g p (tasks env g) (\<lambda>q p'. q = p \<and> p' = p)"
    unfolding tasks_def store_read_def by (rule runs_quiet_bind [OF quiet_derived(2)])
  then show ?thesis by (rule runs_bind) (use assms in auto)
qed

section \<open>Gates\<close>

text \<open>
  What the engine itself may write: legal steps of one graph, none of them a human's or a
  reviewer's, and an acceptance only through the verify gate of a node that allows it.
\<close>

definition auto_record :: "string \<Rightarrow> task_node list \<Rightarrow> transition_record \<Rightarrow> bool" where
  "auto_record g ns r \<longleftrightarrow>
     tr_graph_id r = g \<and> transition (tr_from r) (tr_event r) = Inr (tr_to r) \<and>
     tr_event r \<notin> {Cancel, GraphMutated, ReviewRejected} \<and>
     (acceptance_event (tr_event r) \<longrightarrow>
        tr_event r = VerifyGatePassed \<and> tr_executor r = ''meshloop:verify-gate'' \<and>
        (\<exists>n \<in> set ns. n_id n = tr_task_id r \<and> verify_gate_eligible n))"

lemma emits_append_ev:
  "\<not> acceptance_event ev \<Longrightarrow> ev \<notin> {Cancel, GraphMutated, ReviewRejected} \<Longrightarrow>
     emits (auto_record g ns) (append_ev env g t a from ev reason)"
  unfolding append_ev_def by (rule emits_append_as) (auto simp: auto_record_def)

lemma emits_verify_gate [emits]:
  assumes "n \<in> set ns"
  shows "emits (auto_record g ns) (append_verify_gate env g n a)"
  unfolding append_verify_gate_def Let_def
  by (intro emits quiet_emits emits_append_as)
    (use assms in \<open>auto simp: auto_record_def acceptance_event_def\<close>)

lemma emits_deterministic_result [emits]:
  assumes "n \<in> set ns"
  shows "emits (auto_record g ns) (append_deterministic_result env g n a passed reason)"
  unfolding append_deterministic_result_def Let_def
  by (intro emits_bind control_emits emits_verify_gate [OF assms] emits_append_ev
      quiet_emits [OF quiet_reads(4)] quiet_emits [OF quiet_prims(1)]
      quiet_emits [OF quiet_prims(2)] quiet_emits [OF quiet_prims(6)])
    (auto simp: acceptance_event_def)

lemma emits_fallback [emits]: "emits (auto_record g ns) (maybe_fallback env g t fail sel)"
proof -
  have q: "quiet (first_some (\<lambda>a. bindR (resolve_pane env a) (\<lambda>pane.
         if pane = None then ret None
         else bindR (attempt_live env a) (\<lambda>l. ret (if l = Dead then None else Some ())))) as)" for as
    by (intro emits)
  show ?thesis
    unfolding maybe_fallback_def
    by (intro emits_bind control_emits quiet_emits [OF q] quiet_emits [OF quiet_reads(8)]
        quiet_emits [OF quiet_prims(1)] emits_append_ev) (auto simp: acceptance_event_def)
qed

lemma emits_verify_attempt [emits]:
  assumes "n \<in> set ns"
  shows "emits (auto_record g ns) (verify_attempt env g n a wt base t c out)"
  unfolding verify_attempt_def Let_def
  apply (intro emits_bind control_emits emits_deterministic_result [OF assms] emits_fallback)
  apply (rule quiet_emits, intro emits)+
  done

lemma runs_verify_gate:
  "runs g p (append_verify_gate env g n a) (\<lambda>r p'.
     case r of
       None \<Rightarrow> p' = p \<and> (state_of p (n_id n) = AwaitingReview \<longrightarrow> \<not> verify_gate_eligible n)
     | Some x \<Rightarrow> state_of p (n_id n) = AwaitingReview \<and> verify_gate_eligible n \<and>
         tr_event x = VerifyGatePassed \<and> tr_from x = AwaitingReview \<and> tr_to x = Accepted \<and>
         tr_attempt_id x = Some a \<and> p' = p(n_id n \<mapsto> Accepted))"
  unfolding append_verify_gate_def Let_def
  by (intro runs) (auto simp: transition_def)

lemma runs_deterministic_result:
  assumes "state_of p (n_id n) = Verifying"
  shows "runs g p (append_deterministic_result env g n a passed reason) (\<lambda>r p'.
     p' = p(n_id n \<mapsto> tr_to r) \<and> tr_attempt_id r = Some a \<and>
     (if passed then tr_to r = (if verify_gate_eligible n then Accepted else AwaitingReview)
      else tr_to r = Failed))"
proof -
  let ?Q = "\<lambda>r p'. p' = p(n_id n \<mapsto> tr_to r) \<and> tr_attempt_id r = Some a \<and>
     (if passed then tr_to r = (if verify_gate_eligible n then Accepted else AwaitingReview)
      else tr_to r = Failed)"
  have gate: "runs g (p(n_id n \<mapsto> AwaitingReview)) (bindR (append_verify_gate env g n a)
      (\<lambda>gate. ret (case gate of Some r' \<Rightarrow> r' | None \<Rightarrow> r))) ?Q"
    if "passed" "tr_to r = AwaitingReview" "tr_attempt_id r = Some a" for r
    by (rule runs_bind [OF runs_verify_gate], rule runs_ret)
      (use that in \<open>auto split: option.splits\<close>)
  have verdict: "runs g (p(n_id n \<mapsto> tr_to r)) (if \<not> passed then ret r
      else bindR (append_verify_gate env g n a) (\<lambda>gate. ret (case gate of Some r' \<Rightarrow> r' | None \<Rightarrow> r))) ?Q"
    if "tr_attempt_id r = Some a"
      "transition Verifying (if passed then DeterministicChecksPassed else DeterministicChecksFailed) =
        Inr (tr_to r)" for r
    using that gate [of r] by (cases passed) (auto simp: transition_def intro: runs_ret)
  show ?thesis
    unfolding append_deterministic_result_def append_ev_def Let_def
    by (rule runs_tasks_bind)
      (simp only: assms task_state.distinct simp_thms if_False, rule runs_append_as_bind,
        simp add: assms, rule verdict)
qed

lemma runs_fallback:
  assumes "tr_to fail = Failed \<Longrightarrow> state_of p t = Failed"
  shows "runs g p (maybe_fallback env g t fail sel) (\<lambda>k p'.
     p' = p \<and> k = tick_of t (tr_attempt_id fail) fail \<or>
     sel \<noteq> [] \<and> tr_to fail = Failed \<and> p' = p(t \<mapsto> Ready) \<and>
       k = Transition t (tr_attempt_id fail) Failed Ready RetryAuthorized)"
proof -
  have q: "quiet (first_some (\<lambda>a. bindR (resolve_pane env a) (\<lambda>pane.
         if pane = None then ret None
         else bindR (attempt_live env a) (\<lambda>l. ret (if l = Dead then None else Some ())))) as)" for as
    by (intro emits)
  show ?thesis
    unfolding maybe_fallback_def append_ev_def
    apply (rule runs_quiet_bind [OF quiet_reads(8)])
    apply (rule runs_quiet_bind [OF q])
    apply (intro runs)
    using assms
       apply (auto simp: transition_def tick_of_def retry_unused_def)
    done
qed

lemma runs_verify_attempt:
  assumes "state_of p (n_id n) = Verifying"
  shows "runs g p (verify_attempt env g n a wt base t c out) (\<lambda>k p'.
     \<exists>x i from ev. p' = p(n_id n \<mapsto> x) \<and> k = Transition (n_id n) i from x ev \<and>
       (x = Failed \<or> x = (if verify_gate_eligible n then Accepted else AwaitingReview)))"
  (is "runs g p _ ?Q")
proof -
  have finish: "runs g p (bindR (append_deterministic_result env g n a passed None) (\<lambda>r.
      if passed then ret (tick_of (n_id n) (Some a) r)
      else maybe_fallback env g (n_id n) r [])) ?Q" for passed
  proof (rule runs_bind [OF runs_deterministic_result [OF assms]])
    fix r :: transition_record and p'
    assume r: "p' = p(n_id n \<mapsto> tr_to r) \<and> tr_attempt_id r = Some a \<and>
      (if passed then tr_to r = (if verify_gate_eligible n then Accepted else AwaitingReview)
       else tr_to r = Failed)"
    show "runs g p' (if passed then ret (tick_of (n_id n) (Some a) r)
        else maybe_fallback env g (n_id n) r []) ?Q"
    proof (rule runs_control(1))
      assume "passed"
      then show "runs g p' (ret (tick_of (n_id n) (Some a) r)) ?Q"
        using r by (intro runs_ret) (auto simp: tick_of_def)
    next
      assume "\<not> passed"
      then have "state_of p' (n_id n) = Failed" using r by simp
      then show "runs g p' (maybe_fallback env g (n_id n) r []) ?Q"
        by (intro runs_weaken [OF runs_fallback]) (use r \<open>\<not> passed\<close> in \<open>auto simp: tick_of_def\<close>)
    qed
  qed
  show ?thesis
    unfolding verify_attempt_def Let_def
    by (rule runs_quiet_bind, (intro emits)[1])+
      (intro runs_control(4) runs_quiet_bind quiet_derived quiet_prims quiet_loops quiet_writes
        quiet_repair_attempt quiet_handled finish)
qed

section \<open>The repair loop ends\<close>

text \<open>\<open>yields m Q\<close>: when \<open>m\<close> returns a value, \<open>Q\<close> holds of it.\<close>

definition yields :: "('w, 'a) run \<Rightarrow> ('a \<Rightarrow> bool) \<Rightarrow> bool" where
  "yields m Q \<longleftrightarrow> (\<forall>s a. fst (m s) = Inr a \<longrightarrow> Q a)"

lemma yields_ret [simp]: "yields (ret a) Q \<longleftrightarrow> Q a"
  by (auto simp: yields_def ret_def)

lemma yields_throw [simp]: "yields (throw e) Q"
  by (auto simp: yields_def throw_def)

lemma yields_bind: "yields m R \<Longrightarrow> (\<And>a. R a \<Longrightarrow> yields (k a) Q) \<Longrightarrow> yields (bindR m k) Q"
proof -
  assume m: "yields m R" and k: "\<And>a. R a \<Longrightarrow> yields (k a) Q"
  show "yields (bindR m k) Q"
    unfolding yields_def
  proof (intro allI impI)
    fix s b assume b: "fst (bindR m k s) = Inr b"
    then obtain a s' where ms: "m s = (Inr a, s')"
      by (auto simp: bindR_def split: prod.splits sum.splits)
    then have "R a" using m unfolding yields_def by (metis fst_conv)
    then show "Q b" using k b ms unfolding yields_def by (auto simp: bindR_def)
  qed
qed

lemma yields_any: "(\<And>a. yields (k a) Q) \<Longrightarrow> yields (bindR m k) Q"
  by (rule yields_bind [of m "\<lambda>_. True"]) (auto simp: yields_def)

lemma yields_port: "(\<And>w. Q (fst (f w))) \<Longrightarrow> yields (port f) Q"
  by (auto simp: yields_def port_def split: prod.splits) (metis fst_conv)

text \<open>A micro-repair observes at most once, and hands back the action it observed.\<close>

lemma consider_micro_repair_session:
  assumes "consider_micro_repair s l prior d pt act host w = (rep, s', w')"
  shows "s' = s \<and> (rep = Heavy \<or> rep = Abort) \<or>
    (\<exists>l' snap dg a. observe s l' snap dg = (a, s') \<and>
       (rep = Heavy \<or> rep = Abort \<or> (\<exists>x y z. rep = Improved a x y z)))"
proof -
  have reset: "fst (reset_micro_edit host prior w) = Heavy \<or> fst (reset_micro_edit host prior w) = Abort" for w
    by (auto simp: reset_micro_edit_def split: prod.splits micro_repair_reply.splits)
  show ?thesis
    using assms
    by (auto simp: consider_micro_repair_def micro_observation_def
        split: prod.splits option.splits if_splits bool.splits micro_repair_reply.splits)
      (metis fst_conv reset)+
qed

lemma micro_repair_yields:
  "yields (try_micro_repair env n a wt base s l prior) (\<lambda>(f, s').
     s' = s \<and> (f = FollowHeavy \<or> f = FollowAbort) \<or>
     (\<exists>l' snap dg act. observe s l' snap dg = (act, s') \<and>
        (f = FollowHeavy \<or> f = FollowAbort \<or> (\<exists>x y z rows. f = FollowImproved act x y z rows))))"
proof (cases "env_micro_repair env")
  case None
  then show ?thesis by (simp add: try_micro_repair_def)
next
  case (Some micro)
  let ?c = "\<lambda>w. consider_micro_repair s l prior (n_description n)
       (\<lambda>subject. beside (mi_port micro subject)) (\<lambda>l. beside (mi_actuator micro l))
       (micro_host env n a wt base) (w, None)"
  have port: "yields (port (\<lambda>w. case ?c w of (report, session', w, fresh) \<Rightarrow> ((report, session', fresh), w)))
     (\<lambda>(rep, s', fresh). s' = s \<and> (rep = Heavy \<or> rep = Abort) \<or>
       (\<exists>l' snap dg act. observe s l' snap dg = (act, s') \<and>
          (rep = Heavy \<or> rep = Abort \<or> (\<exists>x y z. rep = Improved act x y z))))"
  proof (rule yields_port)
    fix w
    obtain rep s' w' fresh where c: "?c w = (rep, s', w', fresh)" by (metis prod_cases4)
    show "case fst (case ?c w of (report, session', w, fresh) \<Rightarrow> ((report, session', fresh), w)) of
        (rep, s', fresh) \<Rightarrow> s' = s \<and> (rep = Heavy \<or> rep = Abort) \<or>
       (\<exists>l' snap dg act. observe s l' snap dg = (act, s') \<and>
          (rep = Heavy \<or> rep = Abort \<or> (\<exists>x y z. rep = Improved act x y z)))"
      using consider_micro_repair_session [OF c] unfolding c by simp
  qed
  show ?thesis
    unfolding try_micro_repair_def Some option.case
    by (rule yields_bind [OF port])
      (auto split: micro_repair_report.splits option.splits intro!: yields_any, blast+)
qed

definition repair_need :: "repair_state \<Rightarrow> nat" where
  "repair_need l =
     (let left = unat (max_rounds default_budget) - length (rounds (rl_session l))
      in case rl_queued l of
           None \<Rightarrow> left + 1
         | Some act \<Rightarrow> if final_action act then 1 else left + 2)"

definition repair_ok :: "repair_state \<Rightarrow> bool" where
  "repair_ok l \<longleftrightarrow>
     budget (rl_session l) = default_budget \<and>
     length (rounds (rl_session l)) \<le> unat (max_rounds default_budget) \<and>
     (\<forall>act. rl_queued l = Some act \<longrightarrow> \<not> final_action act \<longrightarrow>
        length (rounds (rl_session l)) < unat (max_rounds default_budget))"

lemma open_default:
  "\<not> final_action (decide h default_budget l) \<Longrightarrow> length h \<le> 3 \<Longrightarrow> Suc (length h) < 3"
  using decide_open_budget [of h default_budget l]
  by (cases "length h = 3") (auto simp: default_budget_def dest!: decide_open_length)

lemma observe_default:
  assumes "observe s l snap dg = (act, s')" "budget s = default_budget" "length (rounds s) \<le> 3"
  shows "budget s' = default_budget \<and> length (rounds s') = Suc (length (rounds s)) \<and>
    (\<not> final_action act \<longrightarrow> length (rounds s') < 3)"
  using observe_rounds [OF assms(1)] open_default assms(2,3) by fastforce

lemma repair_once_yields:
  assumes "rl_queued l = None" "budget (rl_session l) = default_budget"
    and "length (rounds (rl_session l)) < 3"
  shows "yields (repair_once env n a wt base c prompt msg constraint before_l l) (\<lambda>(more, l').
    more \<longrightarrow> repair_ok l' \<and> repair_need l' < 3 - length (rounds (rl_session l)) + 2)"
proof -
  have K: "unat (max_rounds default_budget) = 3" by (simp add: default_budget_def)
  have heavy: "yields (bindR m (\<lambda>r. case r of
        None \<Rightarrow> ret (False, l')
      | Some t \<Rightarrow> (case rt_lattice t of
          Some x \<Rightarrow> ret (True, l'\<lparr>rl_rows := rt_rows t, rl_diag := rt_diag t,
              rl_revision := rt_revision t, rl_lat := x\<rparr>)
        | None \<Rightarrow> ret (False, l'\<lparr>rl_rows := rt_rows t, rl_diag := rt_diag t,
              rl_revision := rt_revision t\<rparr>)))) (\<lambda>(more, l'').
      more \<longrightarrow> repair_ok l'' \<and> repair_need l'' < 3 - length (rounds (rl_session l)) + 2)"
    if "rl_queued l' = None" "budget (rl_session l') = default_budget"
      "length (rounds (rl_session l')) \<le> 3"
      "length (rounds (rl_session l)) \<le> length (rounds (rl_session l'))"
    for m :: "('w, repair_tick option) run" and l'
    by (rule yields_any) (use that in \<open>auto simp: repair_ok_def repair_need_def K split: option.splits\<close>)
  show ?thesis
    unfolding repair_once_def Let_def
  proof (rule yields_bind [OF micro_repair_yields], clarify)
    fix f s'
    assume f: "s' = rl_session l \<and> (f = FollowHeavy \<or> f = FollowAbort) \<or>
      (\<exists>l' snap dg act. observe (rl_session l) l' snap dg = (act, s') \<and>
        (f = FollowHeavy \<or> f = FollowAbort \<or> (\<exists>x y z rows. f = FollowImproved act x y z rows)))"
    have s': "budget s' = default_budget" "length (rounds s') \<le> 3"
      "length (rounds (rl_session l)) \<le> length (rounds s')"
      using f assms observe_default [of "rl_session l"] by (auto simp: less_Suc_eq_le)
    show "yields (case f of
         FollowImproved action lattice diag rv rows \<Rightarrow>
           ret (True, l\<lparr>rl_session := s', rl_rows := rows, rl_diag := diag, rl_revision := rv,
                        rl_lat := lattice, rl_queued := Some action\<rparr>)
       | FollowHeavy \<Rightarrow> bindR (dispatch_repair_round env n a wt base c prompt msg
             (rl_diag (l\<lparr>rl_session := s'\<rparr>)) constraint) (\<lambda>r. case r of
           None \<Rightarrow> ret (False, l\<lparr>rl_session := s'\<rparr>)
         | Some t \<Rightarrow> (case rt_lattice t of
             Some x \<Rightarrow> ret (True, l\<lparr>rl_session := s', rl_rows := rt_rows t, rl_diag := rt_diag t,
                 rl_revision := rt_revision t, rl_lat := x\<rparr>)
           | None \<Rightarrow> ret (False, l\<lparr>rl_session := s', rl_rows := rt_rows t, rl_diag := rt_diag t,
                 rl_revision := rt_revision t\<rparr>)))
       | FollowAbort \<Rightarrow> ret (False, l\<lparr>rl_session := s'\<rparr>))
     (\<lambda>(more, l'). more \<longrightarrow> repair_ok l' \<and> repair_need l' < 3 - length (rounds (rl_session l)) + 2)"
    proof (cases f)
      case (FollowImproved act x y z rows)
      then obtain l' snap dg where "observe (rl_session l) l' snap dg = (act, s')" using f by auto
      then show ?thesis
        using observe_default [of "rl_session l"] assms FollowImproved
        by (fastforce simp: repair_ok_def repair_need_def K)
    next
      case FollowHeavy
      then show ?thesis using heavy [of "l\<lparr>rl_session := s'\<rparr>"] s' assms(1) by simp
    qed simp
  qed
qed

lemma yields_conj: "yields m P \<Longrightarrow> yields m Q \<Longrightarrow> yields m (\<lambda>a. P a \<and> Q a)"
  by (auto simp: yields_def)

lemma yields_weaken: "yields m P \<Longrightarrow> (\<And>a. P a \<Longrightarrow> Q a) \<Longrightarrow> yields m Q"
  by (auto simp: yields_def)

lemma repair_once_passed:
  "yields (repair_once env n a wt base c prompt msg constraint before_l l)
     (\<lambda>(more, l'). rl_passed l' = rl_passed l)"
  unfolding repair_once_def Let_def
  by (rule yields_any)
    (auto split: micro_repair_follow.splits option.splits intro!: yields_any)

text \<open>An iteration either goes on with less to do, or ends with an honest verdict.\<close>

definition repair_result :: "repair_state \<Rightarrow> bool \<times> repair_state \<Rightarrow> bool" where
  "repair_result l r =
     (case r of (cont, l') \<Rightarrow>
        if cont then repair_ok l' \<and> repair_need l' < repair_need l \<and> \<not> rl_passed l'
        else rl_passed l' \<longrightarrow> verification_passed (rl_rows l'))"

lemma repair_step_yields:
  assumes ok: "repair_ok l" and np: "\<not> rl_passed l"
  shows "yields (repair_step env n a wt base c prompt l) (repair_result l)"
proof -
  have K: "unat (max_rounds default_budget) = 3" by (simp add: default_budget_def)
  obtain act l1 where na: "next_action l = (act, l1)" by (cases "next_action l")
  have l1: "rl_queued l1 = None \<and> rl_passed l1 = rl_passed l \<and> budget (rl_session l1) = default_budget \<and>
      (\<not> final_action act \<longrightarrow> length (rounds (rl_session l1)) < 3 \<and>
         3 - length (rounds (rl_session l1)) + 2 \<le> repair_need l)"
  proof (cases "rl_queued l")
    case None
    then obtain s' where o: "observe (rl_session l) (rl_lat l) (rl_revision l) (rl_diag l) = (act, s')"
      "l1 = l\<lparr>rl_session := s'\<rparr>"
      using na by (auto simp: next_action_def split: prod.splits)
    then show ?thesis
      using observe_default [OF o(1)] ok None by (auto simp: repair_ok_def repair_need_def K)
  next
    case (Some q)
    then show ?thesis
      using na ok by (auto simp: next_action_def repair_ok_def repair_need_def K)
  qed
  have once: "yields (repair_once env n a wt base c prompt msg constraint before_l l2) (repair_result l)"
    if "\<not> final_action act" "rl_queued l2 = None" "rl_session l2 = rl_session l1" "rl_passed l2 = rl_passed l"
    for msg constraint before_l l2
    by (rule yields_weaken [OF yields_conj [OF repair_once_yields [of l2] repair_once_passed]])
      (use that l1 np in \<open>auto simp: repair_result_def\<close>)
  have stop: "repair_result l (False, l2)" if "rl_passed l2 \<longrightarrow> verification_passed (rl_rows l2)" for l2
    using that by (simp add: repair_result_def)
  show ?thesis
    unfolding repair_step_def na prod.case Let_def
    using l1 np
    by (cases act) (auto simp: final_action_def intro!: once stop yields_any split: sum.splits)
qed

lemma repair_loop_yields:
  "repair_ok l \<Longrightarrow> \<not> rl_passed l \<Longrightarrow> repair_need l \<le> k \<Longrightarrow>
     yields (repair_loop k env n a wt base c prompt l) (\<lambda>r. \<exists>l'. r = Some l' \<and>
       (rl_passed l' \<longrightarrow> verification_passed (rl_rows l')))"
proof (induction k arbitrary: l)
  case 0
  then show ?case by (auto simp: repair_need_def Let_def split: option.splits if_splits)
next
  case (Suc k)
  show ?case
    unfolding repair_loop.simps
    by (rule yields_bind [OF repair_step_yields [OF Suc.prems(1,2)]])
      (use Suc in \<open>auto simp: repair_result_def split: if_splits\<close>)
qed

lemma repair_loop_more_fuel:
  "fst (repair_loop k env n a wt base c prompt l s) \<noteq> Inr None \<Longrightarrow>
     repair_loop (k + j) env n a wt base c prompt l s = repair_loop k env n a wt base c prompt l s"
proof (induction k arbitrary: l s)
  case 0
  then show ?case by (simp add: ret_def)
next
  case (Suc k)
  obtain r s' where st: "repair_step env n a wt base c prompt l s = (r, s')"
    by (cases "repair_step env n a wt base c prompt l s")
  then show ?case
    using Suc by (cases r) (auto simp: bindR_def split: prod.splits if_splits)
qed

text \<open>
  C20. The repair loop of an attempt ends and is honest: started with a fresh session of the
  default budget, \<open>repair_fuel\<close> iterations always suffice, so more fuel changes nothing, and the
  loop reports success only for check rows that all passed, whatever the harness, the micro-repair
  and the workspace do.
\<close>

theorem repair_loop_total:
  "let l0 = \<lparr>rl_session = session_new default_budget, rl_lat = lat, rl_rows = rows, rl_diag = diag,
             rl_revision = revision, rl_passed = False, rl_queued = None\<rparr>;
       result = repair_loop repair_fuel env n a wt base c prompt l0 s
   in fst result \<noteq> Inr None \<and>
      repair_loop (repair_fuel + extra) env n a wt base c prompt l0 s = result \<and>
      (\<forall>l. fst result = Inr (Some l) \<longrightarrow> rl_passed l \<longrightarrow> verification_passed (rl_rows l))"
proof -
  let ?l0 = "\<lparr>rl_session = session_new default_budget, rl_lat = lat, rl_rows = rows, rl_diag = diag,
             rl_revision = revision, rl_passed = False, rl_queued = None\<rparr>"
  have "yields (repair_loop repair_fuel env n a wt base c prompt ?l0) (\<lambda>r. \<exists>l'. r = Some l' \<and>
       (rl_passed l' \<longrightarrow> verification_passed (rl_rows l')))"
    by (rule repair_loop_yields)
      (simp_all add: repair_ok_def repair_need_def session_new_def repair_fuel_def)
  then have "fst (repair_loop repair_fuel env n a wt base c prompt ?l0 s) \<noteq> Inr None"
    "\<forall>l. fst (repair_loop repair_fuel env n a wt base c prompt ?l0 s) = Inr (Some l) \<longrightarrow>
       rl_passed l \<longrightarrow> verification_passed (rl_rows l)"
    by (auto simp: yields_def)
  then show ?thesis unfolding Let_def by (simp add: repair_loop_more_fuel)
qed

text \<open>The repair loop on rows that pass and a lattice without blocking diagnostics.\<close>

definition clean_rows :: "evidence list" where
  "clean_rows = [skipped_verify_evidence \<lparr>cr_task_id = 1, cr_attempt_id = 1, cr_revision = ''abc''\<rparr>]"

theorem repair_loop_total_witness:
  "let l0 = \<lparr>rl_session = session_new default_budget, rl_lat = lattice_empty, rl_rows = clean_rows,
             rl_diag = [], rl_revision = ''abc'', rl_passed = False, rl_queued = None\<rparr>;
       result = repair_loop repair_fuel sample_env (sample_node 1 []) 1 [] []
         \<lparr>c_harness = [], c_model_ref = [], c_model_tier = TopTier\<rparr> [] l0 (sample_state [])
   in \<exists>l. fst result = Inr (Some l) \<and> rl_passed l \<and> verification_passed (rl_rows l)"
proof -
  let ?l0 = "\<lparr>rl_session = session_new default_budget, rl_lat = lattice_empty, rl_rows = clean_rows,
             rl_diag = [], rl_revision = ''abc'', rl_passed = False, rl_queued = None\<rparr>"
  let ?c = "\<lparr>c_harness = [], c_model_ref = [], c_model_tier = TopTier\<rparr> :: candidate"
  let ?r = "repair_loop repair_fuel sample_env (sample_node 1 []) 1 [] [] ?c [] ?l0 (sample_state [])"
  have pass: "verification_passed clean_rows"
    by code_simp
  have "blocking lattice_empty = 0" by code_simp
  then have "\<exists>l. fst ?r = Inr (Some l) \<and> rl_passed l"
    using pass
    by (simp add: repair_fuel_def repair_step_def next_action_def observe_def Let_def session_new_def
        decide_def bindR_def ret_def)
  then show ?thesis
    using repair_loop_total [of lattice_empty clean_rows "[]" "''abc''" sample_env "sample_node 1 []" 1
        "[]" "[]" ?c "[]" "sample_state []" 0]
    unfolding Let_def by blast
qed

end
