(* ===== verification/Engine_Run_Tick.thy ===== *)
theory Engine_Run_Tick
  imports Engine_Run_Attempt
begin

text \<open>
  \<open>tick\<close> of \<open>crates/meshloop-engine/src/run_loop.rs\<close> and its phases, in the order the method runs
  them, and \<open>loop_until_idle\<close>. A phase that loops over the nodes of the graph is a function of one
  node and \<open>first_some\<close>.
\<close>

section \<open>Phases over running, failed, blocked and pending nodes\<close>

definition defer_harness_exit ::
    "'w run_env \<Rightarrow> string \<Rightarrow> task_id \<Rightarrow> attempt_id \<Rightarrow> harness_outcome \<Rightarrow> string option \<Rightarrow> ('w, tick) run" where
  "defer_harness_exit env g t a out reason =
     bindR (append_ev env g t (Some a) Running HarnessExited reason) (\<lambda>r.
     bindR (insert_pending a out) (\<lambda>_. ret (tick_of t (Some a) r)))"

definition crash_tick ::
    "'w run_env \<Rightarrow> string \<Rightarrow> task_id \<Rightarrow> attempt_id \<Rightarrow> string \<Rightarrow> ('w, tick option) run" where
  "crash_tick env g t a reason =
     bindR (append_ev env g t (Some a) Running HarnessCrashedOrTimeout (Some reason)) (\<lambda>r.
       ret (Some (tick_of t (Some a) r)))"

definition reattach_node ::
    "'w run_env \<Rightarrow> string \<Rightarrow> (task_id \<rightharpoonup> task_state) \<Rightarrow> task_node \<Rightarrow> ('w, tick option) run" where
  "reattach_node env g ts n =
     (if ts (n_id n) \<noteq> Some Running then ret None
      else bindR (latest_attempt env g (n_id n)) (\<lambda>att.
        case att of
          None \<Rightarrow> ret None
        | Some a \<Rightarrow>
            bindR (attempt_live env a) (\<lambda>live.
              if live = Dead then
                bindR (case Option.bind (at_harness a) (map_of (env_harnesses env)) of
                         None \<Rightarrow> ret ()
                       | Some h \<Rightarrow>
                           bindR (resolve_pane env a) (\<lambda>pane.
                           bindR (port (h_cancel h (attempt_handle a pane))) (\<lambda>_. ret ()))) (\<lambda>_.
                  crash_tick env g (n_id n) (at_attempt_id a) ''reattach: pane/process gone'')
              else
                (case Option.bind (at_harness a) (map_of (env_harnesses env)) of
                   None \<Rightarrow> ret None
                 | Some h \<Rightarrow>
                     bindR (resolve_pane env a) (\<lambda>pane.
                     bindR (port (h_try_collect h (attempt_handle a pane))) (\<lambda>res.
                     case res of
                       Inr (Some out) \<Rightarrow>
                         bindR (defer_harness_exit env g (n_id n) (at_attempt_id a) out
                                  (Some ''reattach: live pane settled'')) (\<lambda>k. ret (Some k))
                     | Inr None \<Rightarrow> ret None
                     | Inl e \<Rightarrow>
                         bindR (attempt_live env a) (\<lambda>live.
                           if live = Live then ret None
                           else crash_tick env g (n_id n) (at_attempt_id a)
                                  (''reattach: '' @ dbg_harness_error (env_platform env) e))))))))"

definition reattach_running ::
    "'w run_env \<Rightarrow> string \<Rightarrow> task_graph \<Rightarrow> (task_id \<rightharpoonup> task_state) \<Rightarrow> ('w, tick option) run" where
  "reattach_running env g graph ts = first_some (reattach_node env g ts) (nodes graph)"

definition attempt_candidate :: "string \<Rightarrow> attempt_row \<Rightarrow> candidate" where
  "attempt_candidate harness a =
     \<lparr>c_harness = harness, c_model_ref = or_empty (at_model_ref a), c_model_tier = TopTier\<rparr>"

definition node_tier :: "task_node \<Rightarrow> tier" where
  "node_tier n = (case n_tier n of Some t \<Rightarrow> t | None \<Rightarrow> Tier2)"

definition last_event_of :: "transition_record list \<Rightarrow> task_id \<Rightarrow> event option" where
  "last_event_of rs t = map_option tr_event (find (\<lambda>r. tr_task_id r = t) (rev rs))"

definition harvest_node ::
    "'w run_env \<Rightarrow> string \<Rightarrow> (task_id \<rightharpoonup> task_state) \<Rightarrow> task_node \<Rightarrow> ('w, tick option) run" where
  "harvest_node env g ts n =
     (if ts (n_id n) \<noteq> Some Failed then ret None
      else bindR (latest_attempt env g (n_id n)) (\<lambda>att.
        case att of
          None \<Rightarrow> ret None
        | Some a \<Rightarrow>
            bindR (resolve_pane env a) (\<lambda>pane.
            if pane = None then ret None
            else bindR (attempt_live env a) (\<lambda>live.
            if live = Dead then ret None
            else bindR (store_read env (\<lambda>db. db_records_for_graph db g)) (\<lambda>recs.
            let lst = last_event_of recs (n_id n) in
            if lst = Some DeterministicChecksFailed \<or> lst = Some LiveWorkerSettled then ret None
            else if lst \<noteq> Some HarnessCrashedOrTimeout then ret None
            else case at_harness a of
              None \<Rightarrow> ret None
            | Some name \<Rightarrow>
                (case map_of (env_harnesses env) name of
                   None \<Rightarrow> ret None
                 | Some h \<Rightarrow>
                     bindR (resolve_pane env a) (\<lambda>pane.
                     bindR (port (h_try_collect h (attempt_handle a pane))) (\<lambda>res.
                     case res of
                       Inr (Some out) \<Rightarrow>
                         bindR (append_ev env g (n_id n) (Some (at_attempt_id a)) Failed LiveWorkerSettled
                                  (Some ''harvest: live pane settled after premature fail'')) (\<lambda>_.
                         bindR (verify_attempt env g n (at_attempt_id a) (or_empty (at_worktree_path a))
                                  (or_empty (base_of a)) (node_tier n) (attempt_candidate name a) out)
                           (\<lambda>k. ret (Some k)))
                     | _ \<Rightarrow> ret None))))))))"

definition harvest_live_failures ::
    "'w run_env \<Rightarrow> string \<Rightarrow> task_graph \<Rightarrow> (task_id \<rightharpoonup> task_state) \<Rightarrow> ('w, tick option) run" where
  "harvest_live_failures env g graph ts = first_some (harvest_node env g ts) (nodes graph)"

definition dep_unsat :: "(task_id \<rightharpoonup> task_state) \<Rightarrow> task_node \<Rightarrow> bool" where
  "dep_unsat ts n \<longleftrightarrow>
     list_ex (\<lambda>d. ts d = Some Failed \<or> ts d = Some Cancelled \<or> ts d = Some Blocked) (n_depends_on n)"

definition plain_tick ::
    "'w run_env \<Rightarrow> string \<Rightarrow> task_id \<Rightarrow> task_state \<Rightarrow> event \<Rightarrow> string option \<Rightarrow> ('w, tick option) run" where
  "plain_tick env g t from ev reason =
     bindR (append_ev env g t None from ev reason) (\<lambda>r. ret (Some (tick_of t None r)))"

definition clear_blocked_node ::
    "'w run_env \<Rightarrow> string \<Rightarrow> (task_id \<rightharpoonup> task_state) \<Rightarrow> task_node \<Rightarrow> ('w, tick option) run" where
  "clear_blocked_node env g ts n =
     (if ts (n_id n) \<noteq> Some Blocked then ret None
      else if dep_unsat ts n then ret None
      else plain_tick env g (n_id n) Blocked DependencyCleared (Some ''upstream no longer failed''))"

definition clear_blocked ::
    "'w run_env \<Rightarrow> string \<Rightarrow> task_graph \<Rightarrow> (task_id \<rightharpoonup> task_state) \<Rightarrow> ('w, tick option) run" where
  "clear_blocked env g graph ts = first_some (clear_blocked_node env g ts) (nodes graph)"

definition integrated_set :: "task_graph \<Rightarrow> (task_id \<rightharpoonup> task_state) \<Rightarrow> task_id set" where
  "integrated_set graph ts =
     set (map n_id (filter (\<lambda>n. ts (n_id n) = Some Integrated) (nodes graph)))"

definition promote_node ::
    "'w run_env \<Rightarrow> string \<Rightarrow> (task_id \<rightharpoonup> task_state) \<Rightarrow> task_id set \<Rightarrow> task_node \<Rightarrow> ('w, tick option) run" where
  "promote_node env g ts integrated n =
     (if state_of ts (n_id n) \<noteq> Pending then ret None
      else if dep_unsat ts n
      then plain_tick env g (n_id n) Pending DependencyFailedOrScopeRevoked None
      else if list_all (\<lambda>d. d \<in> integrated) (n_depends_on n)
      then plain_tick env g (n_id n) Pending DependencySatisfied None
      else ret None)"

definition promote_pending ::
    "'w run_env \<Rightarrow> string \<Rightarrow> task_graph \<Rightarrow> (task_id \<rightharpoonup> task_state) \<Rightarrow> ('w, tick option) run" where
  "promote_pending env g graph ts =
     first_some (promote_node env g ts (integrated_set graph ts)) (nodes graph)"

definition merge_accepted ::
    "'w run_env \<Rightarrow> string \<Rightarrow> task_graph \<Rightarrow> (task_id \<rightharpoonup> task_state) \<Rightarrow> ('w, tick option) run" where
  "merge_accepted env g graph ts =
     (case find (\<lambda>n. ts (n_id n) = Some Accepted) (nodes graph) of
        None \<Rightarrow> ret None
      | Some n \<Rightarrow>
          bindR (latest_attempt env g (n_id n)) (\<lambda>att.
          bindR (of_option (IllegalErr ''accepted without attempt'') att) (\<lambda>a.
          bindR (port (ws_merge_in_worktree (env_workspace env) (integrate_path env g)
                   (attempt_branch g (n_id n) (at_attempt_id a)))) (\<lambda>res.
          bindR (case res of
                   Inr _ \<Rightarrow>
                     append_ev env g (n_id n) (Some (at_attempt_id a)) Accepted IntegrationOwnerMerge None
                 | Inl _ \<Rightarrow>
                     append_ev env g (n_id n) (Some (at_attempt_id a)) Accepted StaleBaseDetected
                       (Some ''merge conflict or dirty integrate worktree'')) (\<lambda>r.
            ret (Some (tick_of (n_id n) (Some (at_attempt_id a)) r)))))))"

section \<open>Orphaned verification\<close>

definition fail_orphaned_verification ::
    "'w run_env \<Rightarrow> string \<Rightarrow> task_id \<Rightarrow> attempt_id option \<Rightarrow> ('w, tick) run" where
  "fail_orphaned_verification env g t att =
     bindR (append_ev env g t att Verifying DeterministicChecksFailed
              (Some ''driver died during verification'')) (\<lambda>r.
       ret (tick_of t (tr_attempt_id r) r))"

definition finish_orphaned_verification ::
    "'w run_env \<Rightarrow> string \<Rightarrow> task_node \<Rightarrow> attempt_row option \<Rightarrow> ('w, tick) run" where
  "finish_orphaned_verification env g n att =
     bindR (tasks env g) (\<lambda>ts.
       let state = state_of ts (n_id n) in
       if state = Accepted \<or> state = Integrated then throw (AlreadyAccepted (n_id n))
       else if state = AwaitingReview then
         (case att of
            None \<Rightarrow> throw (IllegalErr ''verify gate without attempt'')
          | Some a \<Rightarrow>
              bindR (append_verify_gate env g n (at_attempt_id a)) (\<lambda>gate.
              bindR (of_option (IllegalErr ''verify gate is not eligible'') gate) (\<lambda>r.
                ret (tick_of (n_id n) (tr_attempt_id r) r))))
       else case att of
         None \<Rightarrow> fail_orphaned_verification env g (n_id n) None
       | Some a \<Rightarrow>
           bindR (case at_worktree_path a of
                    None \<Rightarrow> ret None
                  | Some wt \<Rightarrow>
                      bindR (port (ws_worktree_exists (env_workspace env) wt)) (\<lambda>ex.
                        ret (if ex then Some wt else None))) (\<lambda>wt'.
           case wt' of
             None \<Rightarrow> fail_orphaned_verification env g (n_id n) (Some (at_attempt_id a))
           | Some wt \<Rightarrow>
               bindR (port (ws_commit_all (env_workspace env) wt
                        (''meshloop: resume verification '' @ show_word (at_attempt_id a) @
                         '' for task '' @ show_word (n_id n)))) (\<lambda>_.
               bindR (port (ws_head (env_workspace env) wt)) (\<lambda>hd'.
               case hd' of
                 Inl _ \<Rightarrow> fail_orphaned_verification env g (n_id n) (Some (at_attempt_id a))
               | Inr revision \<Rightarrow>
                   bindR (port (run_deterministic_checks env n (at_attempt_id a) wt
                            (or_empty (base_of a)) revision)) (\<lambda>res.
                   case res of
                     Inl _ \<Rightarrow> fail_orphaned_verification env g (n_id n) (Some (at_attempt_id a))
                   | Inr (rows, _, _) \<Rightarrow>
                       (let passed = verification_passed rows in
                        bindR (for_each (record_evidence_row env) rows) (\<lambda>_.
                        bindR (handled (record_outcome_of env
                          (FeedbackKey (or_empty (at_harness a)) (or_empty (at_model_ref a))
                             (tier_key_of (node_tier n))) passed)) (\<lambda>_.
                        bindR (append_deterministic_result env g n (at_attempt_id a) passed None) (\<lambda>r.
                          ret (tick_of (n_id n) (tr_attempt_id r) r))))))))))"

definition resume_gate_node ::
    "'w run_env \<Rightarrow> string \<Rightarrow> (task_id \<rightharpoonup> task_state) \<Rightarrow> task_node \<Rightarrow> ('w, tick option) run" where
  "resume_gate_node env g ts n =
     (if ts (n_id n) \<noteq> Some AwaitingReview then ret None
      else if \<not> verify_gate_eligible n then ret None
      else bindR (latest_attempt env g (n_id n)) (\<lambda>att.
           bindR (finish_orphaned_verification env g n att) (\<lambda>k. ret (Some k))))"

definition resume_orphaned_verify_gate ::
    "'w run_env \<Rightarrow> string \<Rightarrow> task_graph \<Rightarrow> (task_id \<rightharpoonup> task_state) \<Rightarrow> ('w, tick option) run" where
  "resume_orphaned_verify_gate env g graph ts = first_some (resume_gate_node env g ts) (nodes graph)"

definition recover_verifying ::
    "'w run_env \<Rightarrow> string \<Rightarrow> task_graph \<Rightarrow> (task_id \<rightharpoonup> task_state) \<Rightarrow> ('w, tick option) run" where
  "recover_verifying env g graph ts =
     bindR (first_some (\<lambda>n.
       if ts (n_id n) \<noteq> Some Verifying then ret None
       else bindR (latest_attempt env g (n_id n)) (\<lambda>att.
         bindR (case att of
                  None \<Rightarrow> ret True
                | Some a \<Rightarrow> if at_ended_at a \<noteq> None then ret True else attempt_driver_dead env a) (\<lambda>gone.
           ret (if gone then Some (n, att) else None)))) (nodes graph)) (\<lambda>chosen.
     case chosen of
       None \<Rightarrow> ret None
     | Some (n, att) \<Rightarrow>
         bindR (finish_orphaned_verification env g n att) (\<lambda>k. ret (Some k)))"

definition verify_deferred ::
    "'w run_env \<Rightarrow> string \<Rightarrow> task_graph \<Rightarrow> (task_id \<rightharpoonup> task_state) \<Rightarrow> ('w, tick option) run" where
  "verify_deferred env g graph ts =
     bindR (first_some (\<lambda>n.
       if ts (n_id n) \<noteq> Some Verifying then ret None
       else bindR (latest_attempt env g (n_id n)) (\<lambda>att.
         case att of
           None \<Rightarrow> ret None
         | Some a \<Rightarrow>
             bindR (take_pending (at_attempt_id a)) (\<lambda>out.
               ret (case out of Some x \<Rightarrow> Some (n_id n, a, x) | None \<Rightarrow> None)))) (nodes graph)) (\<lambda>staged.
     case staged of
       None \<Rightarrow> recover_verifying env g graph ts
     | Some (t, a, out) \<Rightarrow>
         bindR (of_option (IllegalErr ''missing node'') (find (\<lambda>n. n_id n = t) (nodes graph))) (\<lambda>n.
         bindR (verify_attempt env g n (at_attempt_id a) (or_empty (at_worktree_path a))
                  (or_empty (base_of a)) (node_tier n)
                  (attempt_candidate (or_empty (at_harness a)) a) out) (\<lambda>k. ret (Some k))))"

section \<open>Dispatch\<close>

definition probe_all :: "'w run_env \<Rightarrow> ('w, string \<rightharpoonup> harness_profile) run" where
  "probe_all env =
     bindR (map_run (\<lambda>(name, h).
       bindR (port (h_probe h)) (\<lambda>res.
         ret (name,
           case res of
             Some (Inr p) \<Rightarrow> p
           | Some (Inl e) \<Rightarrow>
               profile_unsupported name (''probe failed: '' @ dbg_harness_error (env_platform env) e)
           | None \<Rightarrow> profile_unsupported name ''probe panicked''))) (env_harnesses env)) (\<lambda>ps.
     ret (map_of ps))"

definition load_quotas :: "'w run_env \<Rightarrow> ('w, string \<rightharpoonup> quota_state) run" where
  "load_quotas env =
     bindR (map_run (\<lambda>(name, _).
       bindR (handled (store_read env (\<lambda>db. Inr (db_load_quota db name)))) (\<lambda>r.
         ret (name, r))) (env_harnesses env)) (\<lambda>qs.
     ret (\<lambda>name. case map_of qs name of Some r \<Rightarrow> res_ok r | None \<Rightarrow> None))"

definition last_success_harness :: "'w run_env \<Rightarrow> string \<Rightarrow> ('w, string option) run" where
  "last_success_harness env g =
     bindR (handled (store_read env (\<lambda>db. db_records_for_graph db g))) (\<lambda>recs.
       case recs of
         Inl _ \<Rightarrow> ret None
       | Inr rs \<Rightarrow>
           (case Option.bind (find (\<lambda>r. tr_event r = DeterministicChecksPassed) (rev rs)) tr_attempt_id of
              None \<Rightarrow> ret None
            | Some a \<Rightarrow>
                bindR (handled (store_read env (\<lambda>db. Inr (find_attempt db a)))) (\<lambda>row.
                  ret (case row of Inr (Some r) \<Rightarrow> at_harness r | _ \<Rightarrow> None))))"

definition record_quota :: "'w run_env \<Rightarrow> string \<Rightarrow> harness_error \<Rightarrow> ('w, unit) run" where
  "record_quota env harness e =
     (case e of
        CapacityExhausted after \<Rightarrow>
          bindR (store_read env (\<lambda>db. Inr (db_load_quota db harness))) (\<lambda>q.
          bindR (port (pf_now (env_platform env))) (\<lambda>now.
            store_write env (\<lambda>db. Inr (db_save_quota harness (on_capacity_exhausted q now after) db))))
      | _ \<Rightarrow> ret ())"

definition start_point :: "'w run_env \<Rightarrow> string \<Rightarrow> ('w, string) run" where
  "start_point env g =
     bindR (port (ws_worktree_exists (env_workspace env) (integrate_path env g))) (\<lambda>ex.
       if ex then workspace (ws_head (env_workspace env) (integrate_path env g))
       else bindR (load_run env g) (\<lambda>row. ret (case row of Some r \<Rightarrow> run_base r | None \<Rightarrow> [])))"

text \<open>A failed attempt: logged, then perhaps retried with another candidate.\<close>

definition crash_fallback ::
    "'w run_env \<Rightarrow> string \<Rightarrow> task_id \<Rightarrow> attempt_id \<Rightarrow> string \<Rightarrow> candidate list \<Rightarrow> ('w, tick) run" where
  "crash_fallback env g t a reason selected =
     bindR (append_ev env g t (Some a) Running HarnessCrashedOrTimeout (Some reason)) (\<lambda>fail.
       maybe_fallback env g t fail selected)"

definition invoke_attempt ::
    "'w run_env \<Rightarrow> string \<Rightarrow> task_graph \<Rightarrow> task_node \<Rightarrow> candidate \<Rightarrow> attempt_id \<Rightarrow> string \<Rightarrow>
       candidate list \<Rightarrow> ('w, tick) run" where
  "invoke_attempt env g graph n c a wt selected =
     bindR (of_option (UnknownHarnessErr (c_harness c)) (map_of (env_harnesses env) (c_harness c))) (\<lambda>h.
     bindR (port (h_invoke h (build_agent_spec graph n a (c_harness c) (c_model_ref c) wt
              (task_timeout (env_limits env))))) (\<lambda>inv.
     case inv of
       Inl e \<Rightarrow>
         if e = HarnessUnsupported then throw UnsupportedErr
         else
           bindR (record_quota env (c_harness c) e) (\<lambda>_.
           bindR (handled (record_outcome_of env (feedback_key_for c (node_tier n)) False)) (\<lambda>_.
             crash_fallback env g (n_id n) a (dbg_harness_error (env_platform env) e) selected))
     | Inr handle \<Rightarrow>
         bindR (port (h_process_image h)) (\<lambda>img.
         bindR (store_write env (db_update_attempt_pid a (hh_pid handle) img)) (\<lambda>_.
         bindR (store_write env (db_update_attempt_pane a (hh_pane_id handle))) (\<lambda>_.
         bindR (port (h_try_collect h handle)) (\<lambda>res.
         case res of
           Inl e \<Rightarrow>
             bindR (record_quota env (c_harness c) e) (\<lambda>_.
               crash_fallback env g (n_id n) a (dbg_harness_error (env_platform env) e) selected)
         | Inr (Some out) \<Rightarrow> defer_harness_exit env g (n_id n) a out None
         | Inr None \<Rightarrow> ret (Transition (n_id n) (Some a) Ready Running AttemptStarted)))))))"

definition start_attempt ::
    "'w run_env \<Rightarrow> string \<Rightarrow> task_graph \<Rightarrow> task_node \<Rightarrow> candidate \<Rightarrow> candidate list \<Rightarrow> ('w, tick) run" where
  "start_attempt env g graph n c selected =
     bindR (store_read env (\<lambda>db. Inr (db_next_attempt_id db))) (\<lambda>a.
     let wt = attempt_path env g (n_id n) a; branch = attempt_branch g (n_id n) a in
     bindR (port (ws_worktree_exists (env_workspace env) wt)) (\<lambda>wt_there.
     bindR (if wt_there then ret True
            else workspace (ws_branch_exists (env_workspace env) branch)) (\<lambda>leftover.
     if leftover then
       throw (IllegalErr (''leftover worktree or branch for attempt '' @ show_word a))
     else
       bindR (append_ev env g (n_id n) (Some a) Ready AttemptStarted None) (\<lambda>_.
       bindR (start_point env g) (\<lambda>start.
       bindR (port (ws_add_worktree_from (env_workspace env) wt branch start)) (\<lambda>added.
       case added of
         Inl e \<Rightarrow>
           crash_fallback env g (n_id n) a (dbg_workspace_error (env_platform env) e) selected
       | Inr _ \<Rightarrow>
           bindR (stamp env) (\<lambda>now.
           bindR (store_write env (db_save_attempt
             \<lparr>at_attempt_id = a, at_graph_id = g, at_task_id = n_id n,
              at_harness = Some (c_harness c), at_model_ref = Some (c_model_ref c),
              at_worktree_path = Some wt, at_pid = None, at_image_name = None, at_pane_id = None,
              at_started_at = Some now, at_ended_at = None,
              at_outcome = Some (''base:'' @ start)\<rparr>)) (\<lambda>_.
             invoke_attempt env g graph n c a wt selected))))))))"

definition route ::
    "'w run_env \<Rightarrow> string option \<Rightarrow> tier \<Rightarrow> candidate list \<Rightarrow> (string \<rightharpoonup> harness_profile) \<Rightarrow>
       (string \<rightharpoonup> quota_state) \<Rightarrow> ('w, candidate list) run" where
  "route env preferred t pool profiles quotas =
     bindR get_store (\<lambda>db.
     bindR (port (pf_now (env_platform env))) (\<lambda>now.
       port (select (env_score env db preferred t) pool profiles quotas now t)))"

definition dispatch_ready ::
    "'w run_env \<Rightarrow> string \<Rightarrow> task_graph \<Rightarrow> task_id \<Rightarrow> ('w, tick) run" where
  "dispatch_ready env g graph t =
     bindR (of_option (IllegalErr ''missing node'') (find (\<lambda>n. n_id n = t) (nodes graph))) (\<lambda>n.
     bindR (probe_all env) (\<lambda>profiles.
     bindR (load_quotas env) (\<lambda>quotas.
     bindR (last_success_harness env g) (\<lambda>preferred.
     bindR (route env preferred (node_tier n) (env_candidates env) profiles quotas) (\<lambda>selected.
     case selected of
       [] \<Rightarrow> ret (Idle NoCapableCandidate)
     | best # _ \<Rightarrow>
         bindR (attempts_for_task env g t) (\<lambda>attempts.
           let used = List.map_filter at_harness attempts;
               c = (case find (\<lambda>c. c_harness c \<notin> set used) selected of Some c \<Rightarrow> c | None \<Rightarrow> best)
           in bindR (require_dispatch_ok env (c_harness c)) (\<lambda>_.
                start_attempt env g graph n c selected)))))))"

section \<open>The tick\<close>

definition any_in :: "task_graph \<Rightarrow> (task_id \<rightharpoonup> task_state) \<Rightarrow> task_state \<Rightarrow> bool" where
  "any_in graph ts s \<longleftrightarrow> list_ex (\<lambda>n. ts (n_id n) = Some s) (nodes graph)"

definition occupied :: "task_graph \<Rightarrow> (task_id \<rightharpoonup> task_state) \<Rightarrow> nat" where
  "occupied graph ts =
     length (filter (\<lambda>n. ts (n_id n) = Some Running \<or> ts (n_id n) = Some Verifying) (nodes graph))"

text \<open>\<open>if let Some(tick) = phase? { return Ok(tick) }\<close>\<close>

definition or_tick :: "('w, tick option) run \<Rightarrow> ('w, tick) run \<Rightarrow> ('w, tick) run" where
  "or_tick m rest = bindR m (\<lambda>r. case r of Some k \<Rightarrow> ret k | None \<Rightarrow> rest)"

definition dispatch_phase ::
    "'w run_env \<Rightarrow> string \<Rightarrow> task_graph \<Rightarrow> task_id list \<Rightarrow> ('w, tick option) run" where
  "dispatch_phase env g graph ready =
     first_some (\<lambda>t. bindR (dispatch_ready env g graph t) (\<lambda>k.
       ret (if k = Idle NoCapableCandidate then None else Some k))) ready"

definition ready_ids :: "task_graph \<Rightarrow> (task_id \<rightharpoonup> task_state) \<Rightarrow> task_id list" where
  "ready_ids graph ts =
     map n_id (filter (\<lambda>n. ts (n_id n) = Some Ready) (ready_nodes graph (integrated_set graph ts)))"

definition idle_tail :: "task_graph \<Rightarrow> (task_id \<rightharpoonup> task_state) \<Rightarrow> idle_reason" where
  "idle_tail graph ts =
     (if ready_ids graph ts = [] then
        (if list_all (\<lambda>n. ts (n_id n) = Some Integrated) (nodes graph) then GraphComplete
         else if any_in graph ts Running then WaitingOnLiveWorker
         else FailedTerminal)
      else WaitingOnLiveWorker)"

definition tick_work ::
    "'w run_env \<Rightarrow> string \<Rightarrow> task_graph \<Rightarrow> (task_id \<rightharpoonup> task_state) \<Rightarrow> ('w, tick) run" where
  "tick_work env g graph ts =
     or_tick (merge_accepted env g graph ts)
     (if ready_ids graph ts \<noteq> [] \<and>
         occupied graph ts < unat (max_concurrent_workers (env_limits env)) then
        or_tick (dispatch_phase env g graph (ready_ids graph ts))
        (or_tick (verify_deferred env g graph ts) (ret (Idle NoCapableCandidate)))
      else or_tick (verify_deferred env g graph ts) (ret (Idle (idle_tail graph ts))))"

definition tick_phases ::
    "'w run_env \<Rightarrow> string \<Rightarrow> task_graph \<Rightarrow> (task_id \<rightharpoonup> task_state) \<Rightarrow> ('w, tick) run" where
  "tick_phases env g graph ts =
     or_tick (reattach_running env g graph ts)
     (or_tick (harvest_live_failures env g graph ts)
     (or_tick (clear_blocked env g graph ts)
     (or_tick (promote_pending env g graph ts)
     (or_tick (resume_orphaned_verify_gate env g graph ts)
     (if any_in graph ts AwaitingReview \<and> \<not> any_in graph ts Ready \<and>
         \<not> any_in graph ts Accepted \<and> \<not> any_in graph ts Running \<and> \<not> any_in graph ts Verifying
      then ret (Idle AwaitingHumanAcceptance)
      else tick_work env g graph ts)))))"

definition run_tick :: "'w run_env \<Rightarrow> ('w, tick) run" where
  "run_tick env =
     bindR get_active (\<lambda>active.
     bindR (of_option (MissingGraph ''no active graph'') active) (\<lambda>g.
     bindR (require_legacy_mutation env g) (\<lambda>_.
     bindR (load_run env g) (\<lambda>found.
     bindR (of_option (MissingGraph g) found) (\<lambda>row.
       if run_plan_state row \<noteq> PlanAccepted then throw (IllegalErr ''plan has not been accepted'')
       else
         bindR (graph_of env g) (\<lambda>graph.
         bindR (tasks env g) (\<lambda>ts.
           tick_phases env g graph ts)))))))"

section \<open>The driver loop\<close>

definition heartbeat :: "'w run_env \<Rightarrow> ('w, unit) run" where
  "heartbeat env =
     bindR (port (pf_heartbeat_due (env_platform env))) (\<lambda>due.
     if \<not> due then ret ()
     else bindR get_active (\<lambda>active.
       case active of
         None \<Rightarrow> ret ()
       | Some g \<Rightarrow>
           bindR (handled (store_read env (\<lambda>db. Inr (db_load_driver db g)))) (\<lambda>d.
             case d of
               Inr (Some _) \<Rightarrow>
                 bindR (stamp env) (\<lambda>now.
                 bindR (handled (store_write env
                   (db_record_driver_heartbeat g (pf_pid (env_platform env)) now))) (\<lambda>_. ret ()))
             | _ \<Rightarrow> ret ())))"

text \<open>The loop may wait for a worker for ever; \<open>None\<close> means that the fuel ran out.\<close>

primrec loop_until_idle :: "nat \<Rightarrow> 'w run_env \<Rightarrow> ('w, idle_reason option) run" where
  "loop_until_idle 0 env = ret None"
| "loop_until_idle (Suc k) env =
     bindR (heartbeat env) (\<lambda>_.
     bindR (run_tick env) (\<lambda>t.
     case t of
       Idle reason \<Rightarrow>
         if reason = WaitingOnLiveWorker
         then bindR (effect (pf_sleep (env_platform env))) (\<lambda>_. loop_until_idle k env)
         else ret (Some reason)
     | Transition _ _ _ _ _ \<Rightarrow> loop_until_idle k env))"

section \<open>What a tick may write\<close>

lemma auto_events:
  "\<not> acceptance_event AttemptStarted" "\<not> acceptance_event HarnessExited"
  "\<not> acceptance_event HarnessCrashedOrTimeout" "\<not> acceptance_event LiveWorkerSettled"
  "\<not> acceptance_event DependencyCleared" "\<not> acceptance_event DependencySatisfied"
  "\<not> acceptance_event DependencyFailedOrScopeRevoked" "\<not> acceptance_event IntegrationOwnerMerge"
  "\<not> acceptance_event StaleBaseDetected" "\<not> acceptance_event DeterministicChecksFailed"
  by (simp_all add: acceptance_event_def)

lemma emits_steps [emits]:
  "emits (auto_record g ns) (defer_harness_exit env g t a out reason)"
  "emits (auto_record g ns) (crash_tick env g t a msg)"
  "emits (auto_record g ns) (fail_orphaned_verification env g t att)"
  "emits (auto_record g ns) (crash_fallback env g t a msg sel)"
  unfolding defer_harness_exit_def crash_tick_def fail_orphaned_verification_def crash_fallback_def
  by (intro emits_bind emits_append_ev emits_fallback quiet_emits [OF quiet_prims(1)]
      quiet_emits [OF quiet_prims(11)]; simp add: auto_events)+

lemma emits_plain_tick:
  "\<not> acceptance_event ev \<Longrightarrow> ev \<notin> {Cancel, GraphMutated, ReviewRejected} \<Longrightarrow>
     emits (auto_record g ns) (plain_tick env g t from ev reason)"
  unfolding plain_tick_def by (intro emits_bind emits_append_ev quiet_emits [OF quiet_prims(1)])

lemmas emits_qs = quiet_emits [OF quiet_prims(1)] quiet_emits [OF quiet_prims(2)]
  quiet_emits [OF quiet_prims(3)] quiet_emits [OF quiet_prims(6)] quiet_emits [OF quiet_reads(4)]
  quiet_emits [OF quiet_reads(6)] quiet_emits [OF quiet_reads(7)] quiet_emits [OF quiet_reads(8)]
  quiet_emits [OF quiet_liveness(1)] quiet_emits [OF quiet_liveness(2)]
  quiet_emits [OF quiet_liveness(3)] quiet_emits [OF quiet_derived(3)]
  quiet_emits [OF quiet_derived(1)] quiet_emits [OF quiet_derived(4)]
  quiet_emits [OF quiet_prims(10)] quiet_emits [OF quiet_handled [OF quiet_writes(2)]]
  quiet_emits [OF quiet_writes(1)] quiet_emits [OF quiet_writes(3)] quiet_emits [OF quiet_writes(4)]
  quiet_emits [OF quiet_writes(5)]

lemma emits_reattach_node: "emits (auto_record g ns) (reattach_node env g ts n)"
  unfolding reattach_node_def
  by (intro emits_bind control_emits emits_steps emits_qs)

lemma emits_harvest_node:
  "n \<in> set ns \<Longrightarrow> emits (auto_record g ns) (harvest_node env g ts n)"
  unfolding harvest_node_def
  by (intro emits_bind control_emits emits_append_ev emits_verify_attempt emits_qs)
    (simp_all add: auto_events)

lemma emits_clear_blocked_node: "emits (auto_record g ns) (clear_blocked_node env g ts n)"
  unfolding clear_blocked_node_def
  by (intro control_emits emits_plain_tick emits_qs) (simp_all add: auto_events)

lemma emits_promote_node: "emits (auto_record g ns) (promote_node env g ts i n)"
  unfolding promote_node_def
  by (intro control_emits emits_plain_tick emits_qs) (simp_all add: auto_events)

lemma emits_merge_accepted: "emits (auto_record g ns) (merge_accepted env g graph ts)"
  unfolding merge_accepted_def
  by (intro emits_bind control_emits emits_append_ev emits_qs) (simp_all add: auto_events)

lemma emits_finish_orphaned:
  "n \<in> set ns \<Longrightarrow> emits (auto_record g ns) (finish_orphaned_verification env g n att)"
  unfolding finish_orphaned_verification_def
  by (intro emits_bind control_emits emits_verify_gate emits_deterministic_result emits_steps
      emits_for_each emits_qs)

lemma emits_resume_gate_node:
  "n \<in> set ns \<Longrightarrow> emits (auto_record g ns) (resume_gate_node env g ts n)"
  unfolding resume_gate_node_def
  by (intro emits_bind control_emits emits_finish_orphaned emits_qs)

text \<open>A quiet choice followed by work on what was chosen.\<close>

lemma emits_choice:
  assumes "quiet m" "yields m R" "\<And>a. R a \<Longrightarrow> emits P (k a)"
  shows "emits P (bindR m k)"
  unfolding emits_def
proof
  fix s
  obtain r s' where m: "m s = (r, s')" by (cases "m s")
  have 1: "grows P (st_store s) (st_store s')"
    using quiet_emits [OF assms(1)] m unfolding emits_def by (metis snd_conv)
  show "grows P (st_store s) (st_store (snd (bindR m k s)))"
  proof (cases r)
    case (Inr a)
    then have "R a" using assms(2) m unfolding yields_def by (metis fst_conv)
    then show ?thesis
      using 1 assms(3) grows_trans Inr m unfolding emits_def snd_bindR by fastforce
  qed (use 1 m in \<open>simp add: snd_bindR\<close>)
qed

lemma runs_choice:
  assumes "quiet m" "yields m R" "\<And>a. R a \<Longrightarrow> runs g p (k a) Q"
  shows "runs g p (bindR m k) Q"
proof (rule runs_bind)
  have "runs g p m (\<lambda>_ p'. p' = p)" by (rule runs_quiet [OF assms(1)]) simp
  then show "runs g p m (\<lambda>a p'. R a \<and> p' = p)"
    unfolding runs_def
  proof (intro allI impI)
    fix s :: "'a run_state"
    assume r: "\<forall>s. log_at (st_store s) g p \<longrightarrow> (case m s of
        (Inl e, s') \<Rightarrow> \<exists>p'. log_at (st_store s') g p' | (Inr a, s') \<Rightarrow> \<exists>p'. log_at (st_store s') g p' \<and> p' = p)"
      and l: "log_at (st_store s) g p"
    obtain x s' where m: "m s = (x, s')" by (cases "m s")
    then have "R a" if "x = Inr a" for a using assms(2) that unfolding yields_def by (metis fst_conv)
    then show "case m s of (Inl e, s') \<Rightarrow> \<exists>p'. log_at (st_store s') g p'
        | (Inr a, s') \<Rightarrow> \<exists>p'. log_at (st_store s') g p' \<and> R a \<and> p' = p"
      using r [rule_format, OF l] m by (cases x) auto
  qed
qed (use assms(3) in auto)

lemma yields_first_some:
  assumes "\<And>x. x \<in> set xs \<Longrightarrow> yields (f x) (\<lambda>r. \<forall>a. r = Some a \<longrightarrow> R a)"
  shows "yields (first_some f xs) (\<lambda>r. \<forall>a. r = Some a \<longrightarrow> R a)"
  using assms
proof (induction xs)
  case (Cons x xs)
  show ?case
    unfolding first_some.simps
    by (rule yields_bind [OF Cons.prems [of x]]) (use Cons in \<open>auto split: option.splits\<close>)
qed simp

text \<open>The two choices among the \<open>Verifying\<close> nodes.\<close>

lemma recover_choice:
  "yields (first_some (\<lambda>n.
       if ts (n_id n) \<noteq> Some Verifying then ret None
       else bindR (latest_attempt env g (n_id n)) (\<lambda>att.
         bindR (case att of
                  None \<Rightarrow> ret True
                | Some a \<Rightarrow> if at_ended_at a \<noteq> None then ret True else attempt_driver_dead env a) (\<lambda>gone.
           ret (if gone then Some (n, att) else None)))) ns)
     (\<lambda>r. \<forall>x. r = Some x \<longrightarrow> fst x \<in> set ns \<and> ts (n_id (fst x)) = Some Verifying)"
  by (rule yields_first_some) (auto intro!: yields_any)

lemma deferred_choice:
  "yields (first_some (\<lambda>n.
       if ts (n_id n) \<noteq> Some Verifying then ret None
       else bindR (latest_attempt env g (n_id n)) (\<lambda>att.
         case att of
           None \<Rightarrow> ret None
         | Some a \<Rightarrow>
             bindR (take_pending (at_attempt_id a)) (\<lambda>out.
               ret (case out of Some x \<Rightarrow> Some (n_id n, a, x) | None \<Rightarrow> None)))) ns)
     (\<lambda>r. \<forall>x. r = Some x \<longrightarrow> ts (fst x) = Some Verifying)"
  by (rule yields_first_some) (auto intro!: yields_any split: option.splits)

lemma quiet_choices:
  "quiet (first_some (\<lambda>n.
       if ts (n_id n) \<noteq> Some Verifying then ret None
       else bindR (latest_attempt env g (n_id n)) (\<lambda>att.
         bindR (case att of
                  None \<Rightarrow> ret True
                | Some a \<Rightarrow> if at_ended_at a \<noteq> None then ret True else attempt_driver_dead env a) (\<lambda>gone.
           ret (if gone then Some (n, att) else None)))) ns)"
  "quiet (first_some (\<lambda>n.
       if ts (n_id n) \<noteq> Some Verifying then ret None
       else bindR (latest_attempt env g (n_id n)) (\<lambda>att.
         case att of
           None \<Rightarrow> ret None
         | Some a \<Rightarrow>
             bindR (take_pending (at_attempt_id a)) (\<lambda>out.
               ret (case out of Some x \<Rightarrow> Some (n_id n, a, x) | None \<Rightarrow> None)))) ns)"
  by (intro emits)+

lemma yields_of_option: "yields (of_option e x) (\<lambda>a. x = Some a)"
  by (auto simp: of_option_def split: option.splits)

lemma emits_recover_verifying: "emits (auto_record g (nodes graph)) (recover_verifying env g graph ts)"
  unfolding recover_verifying_def
  by (rule emits_choice [OF quiet_choices(1) recover_choice])
    (intro control_emits emits_bind emits_finish_orphaned emits_qs, auto)

lemma emits_verify_deferred: "emits (auto_record g (nodes graph)) (verify_deferred env g graph ts)"
proof -
  have "emits (auto_record g (nodes graph))
      (bindR (of_option (IllegalErr ''missing node'') (find (\<lambda>n. n_id n = t) (nodes graph))) (\<lambda>n.
         bindR (verify_attempt env g n (at_attempt_id a) (or_empty (at_worktree_path a))
                  (or_empty (base_of a)) (node_tier n)
                  (attempt_candidate (or_empty (at_harness a)) a) out) (\<lambda>k. ret (Some k))))" for t a out
    by (rule emits_choice [OF quiet_prims(6) yields_of_option])
      (intro emits_bind emits_verify_attempt emits_qs, auto simp: find_Some_iff)
  then show ?thesis
    unfolding verify_deferred_def
    by (intro emits_bind [OF quiet_emits [OF quiet_choices(2)]] control_emits emits_recover_verifying)
qed

lemma quiet_dispatch_reads:
  "quiet (probe_all env)" "quiet (load_quotas env)" "quiet (last_success_harness env g)"
  "quiet (record_quota env h e)" "quiet (start_point env g)" "quiet (route env pr t pool ps qs)"
proof -
  have "quiet (store_write env (\<lambda>db. Inr (db_save_quota h q db)))" for q
    by (rule quiet_store_write) (auto simp: db_save_quota_def Let_def)
  then show "quiet (record_quota env h e)"
    unfolding record_quota_def by (cases e) (auto intro!: emits)
qed (auto simp: probe_all_def load_quotas_def last_success_harness_def start_point_def route_def
    intro!: emits)

lemma emits_invoke_attempt: "emits (auto_record g ns) (invoke_attempt env g graph n c a wt sel)"
  unfolding invoke_attempt_def
  by (intro emits_bind control_emits emits_steps emits_qs quiet_emits [OF quiet_dispatch_reads(4)])

lemma emits_start_attempt: "emits (auto_record g ns) (start_attempt env g graph n c sel)"
  unfolding start_attempt_def
  by (intro emits_bind control_emits emits_steps emits_append_ev emits_invoke_attempt emits_qs
      quiet_emits [OF quiet_dispatch_reads(5)]) (simp_all add: auto_events)

lemma emits_dispatch_ready: "emits (auto_record g ns) (dispatch_ready env g graph t)"
proof -
  have "emits (auto_record g ns) (case sel of [] \<Rightarrow> ret (Idle NoCapableCandidate)
      | best # _ \<Rightarrow> bindR (attempts_for_task env g t) (\<lambda>attempts.
           let used = List.map_filter at_harness attempts;
               c = (case find (\<lambda>c. c_harness c \<notin> set used) sel of Some c \<Rightarrow> c | None \<Rightarrow> best)
           in bindR (require_dispatch_ok env (c_harness c)) (\<lambda>_.
                start_attempt env g graph n c sel)))" for sel n
    by (cases sel) (auto intro!: emits_bind control_emits emits_start_attempt emits_qs
      quiet_emits [OF quiet_reads(1)])
  then show ?thesis
    unfolding dispatch_ready_def
    by (intro emits_bind emits_qs quiet_dispatch_reads [THEN quiet_emits])
qed

lemma emits_or_else: "emits P m \<Longrightarrow> emits P rest \<Longrightarrow> emits P (or_tick m rest)"
  unfolding or_tick_def by (intro emits_bind control_emits emits_qs)

lemma emits_tick_phases: "emits (auto_record g (nodes graph)) (tick_phases env g graph ts)"
  unfolding tick_phases_def tick_work_def reattach_running_def harvest_live_failures_def
    clear_blocked_def promote_pending_def resume_orphaned_verify_gate_def dispatch_phase_def
  by (intro emits_or_else control_emits emits_first_some emits_reattach_node emits_harvest_node
      emits_clear_blocked_node emits_promote_node emits_resume_gate_node emits_merge_accepted
      emits_verify_deferred emits_bind emits_dispatch_ready emits_qs)

section \<open>What a tick does to the states\<close>

text \<open>
  A tick that idles changes nothing. Otherwise one task of the graph ends in the state the tick
  reports: it becomes accepted only through its verify gate, integrated only from accepted, and it
  occupies a worker only if it did before or a slot was free.
\<close>

definition tick_effect ::
    "task_graph \<Rightarrow> nat \<Rightarrow> (task_id \<rightharpoonup> task_state) \<Rightarrow> tick \<Rightarrow> (task_id \<rightharpoonup> task_state) \<Rightarrow> bool" where
  "tick_effect graph cap p k p' \<longleftrightarrow>
     (case k of
        Idle r \<Rightarrow>
          p' = p \<and>
          (r = GraphComplete \<longrightarrow> list_all (\<lambda>n. p (n_id n) = Some Integrated) (nodes graph)) \<and>
          (r = AwaitingHumanAcceptance \<longrightarrow> any_in graph p AwaitingReview)
      | Transition t a from to ev \<Rightarrow>
          p' = p(t \<mapsto> to) \<and>
          (\<exists>n \<in> set (nodes graph). n_id n = t \<and> (to = Accepted \<longrightarrow> verify_gate_eligible n)) \<and>
          (to = Running \<or> to = Verifying \<longrightarrow>
             p t = Some Running \<or> p t = Some Ready \<and> occupied graph p < cap) \<and>
          (to = Integrated \<longrightarrow> p t = Some Accepted))"

definition phase_effect ::
    "task_graph \<Rightarrow> nat \<Rightarrow> (task_id \<rightharpoonup> task_state) \<Rightarrow> tick option \<Rightarrow> (task_id \<rightharpoonup> task_state) \<Rightarrow> bool" where
  "phase_effect graph cap p r p' = (case r of None \<Rightarrow> p' = p | Some k \<Rightarrow> tick_effect graph cap p k p')"

lemma phase_effect_simps [simp]:
  "phase_effect graph cap p None p' \<longleftrightarrow> p' = p"
  "phase_effect graph cap p (Some k) p' \<longleftrightarrow> tick_effect graph cap p k p'"
  by (simp_all add: phase_effect_def)

lemma runs_phase:
  "(\<And>n. n \<in> set (nodes graph) \<Longrightarrow> runs g p (f n) (phase_effect graph cap p)) \<Longrightarrow>
     runs g p (first_some f (nodes graph)) (phase_effect graph cap p)"
  unfolding phase_effect_def by (rule runs_first_some)

lemma runs_append_ev_bind:
  assumes "from = state_of p t"
    and "\<And>r. tr_attempt_id r = a \<Longrightarrow> tr_from r = from \<Longrightarrow> tr_event r = ev \<Longrightarrow>
      transition from ev = Inr (tr_to r) \<Longrightarrow> runs g (p(t \<mapsto> tr_to r)) (k r) Q"
  shows "runs g p (bindR (append_ev env g t a from ev reason) k) Q"
  unfolding append_ev_def by (rule runs_append_as_bind) (use assms in blast)+

lemma runs_crash_tick:
  assumes "n \<in> set (nodes graph)" "state_of p (n_id n) = Running"
  shows "runs g p (crash_tick env g (n_id n) a msg) (phase_effect graph cap p)"
  unfolding crash_tick_def
  by (rule runs_append_ev_bind, simp add: assms(2), rule runs_ret)
    (use assms(1) in \<open>auto simp: tick_effect_def tick_of_def transition_def\<close>)

lemma runs_defer:
  assumes "state_of p (n_id n) = Running"
  shows "runs g p (defer_harness_exit env g (n_id n) a out reason) (\<lambda>k p'.
     k = Transition (n_id n) (Some a) Running Verifying HarnessExited \<and> p' = p(n_id n \<mapsto> Verifying))"
  unfolding defer_harness_exit_def
  by (rule runs_append_ev_bind, simp add: assms,
      rule runs_quiet_bind [OF quiet_prims(11)], rule runs_ret)
    (auto simp: tick_of_def transition_def)

lemma runs_reattach_node:
  assumes "n \<in> set (nodes graph)"
  shows "runs g p (reattach_node env g p n) (phase_effect graph cap p)"
proof (cases "p (n_id n) = Some Running")
  case True
  note running = state_of_Some [where p = p, OF True]
  have settled: "runs g p (bindR (defer_harness_exit env g (n_id n) a out reason) (\<lambda>k. ret (Some k)))
      (phase_effect graph cap p)" for a out reason
    by (rule runs_bind [OF runs_defer [OF running]], rule runs_ret)
      (use assms True in \<open>auto simp: tick_effect_def\<close>)
  have cancel: "quiet (case x of None \<Rightarrow> ret () | Some h \<Rightarrow>
      bindR (resolve_pane env a) (\<lambda>pane. bindR (port (h_cancel h (attempt_handle a pane))) (\<lambda>_. ret ())))"
    for x a by (intro emits)
  have none: "runs g p (ret None) (phase_effect graph cap p)" by (rule runs_ret) simp
  show ?thesis
    unfolding reattach_node_def
    by (intro runs_control none runs_quiet_bind [OF quiet_reads(7)]
        runs_quiet_bind [OF quiet_liveness(1)] runs_quiet_bind [OF quiet_liveness(2)]
        runs_quiet_bind [OF cancel] runs_quiet_bind [OF quiet_prims(3)]
        runs_crash_tick [OF assms running] settled)
next
  case False
  then show ?thesis by (auto simp: reattach_node_def intro: runs_ret)
qed

lemma runs_harvest_node:
  assumes "n \<in> set (nodes graph)"
  shows "runs g p (harvest_node env g p n) (phase_effect graph cap p)"
proof (cases "p (n_id n) = Some Failed")
  case True
  have none: "runs g p (ret None) (phase_effect graph cap p)" by (rule runs_ret) simp
  have settle: "runs g p (bindR (append_ev env g (n_id n) (Some a) Failed LiveWorkerSettled reason) (\<lambda>_.
      bindR (verify_attempt env g n a wt base t c out) (\<lambda>k. ret (Some k)))) (phase_effect graph cap p)"
    for a wt base t c out reason
  proof (rule runs_append_ev_bind)
    fix r :: transition_record
    assume "transition Failed LiveWorkerSettled = Inr (tr_to r)"
    then have to: "tr_to r = Verifying" by (simp add: transition_def)
    show "runs g (p(n_id n \<mapsto> tr_to r)) (bindR (verify_attempt env g n a wt base t c out) (\<lambda>k. ret (Some k)))
        (phase_effect graph cap p)"
      by (rule runs_bind [OF runs_verify_attempt], simp add: to, rule runs_ret)
        (use assms in \<open>auto simp: tick_effect_def to split: tick.splits if_splits\<close>)
  qed (simp add: state_of_Some [where p = p, OF True])
  show ?thesis
    unfolding harvest_node_def Let_def
    by (intro runs_control none settle runs_quiet_bind [OF quiet_reads(7)]
        runs_quiet_bind [OF quiet_liveness(1)] runs_quiet_bind [OF quiet_liveness(2)]
        runs_quiet_bind [OF quiet_derived(3)] runs_quiet_bind [OF quiet_prims(3)])
next
  case False
  then show ?thesis by (auto simp: harvest_node_def intro: runs_ret)
qed

lemma runs_plain_tick:
  assumes "n \<in> set (nodes graph)" "state_of p (n_id n) = from"
    and "\<And>to. transition from ev = Inr to \<Longrightarrow> to \<notin> {Running, Verifying, Accepted, Integrated}"
  shows "runs g p (plain_tick env g (n_id n) from ev reason) (phase_effect graph cap p)"
  unfolding plain_tick_def
  by (rule runs_append_ev_bind, simp add: assms(2), rule runs_ret)
    (use assms(1,3) in \<open>auto simp: tick_effect_def tick_of_def\<close>)

lemma runs_phase_none: "runs g p (ret None) (phase_effect graph cap p)"
  by (rule runs_ret) simp

lemma runs_clear_blocked_node:
  "n \<in> set (nodes graph) \<Longrightarrow> runs g p (clear_blocked_node env g p n) (phase_effect graph cap p)"
  unfolding clear_blocked_node_def
  by (intro runs_control runs_phase_none runs_plain_tick)
    (auto simp: transition_def state_of_def)

lemma runs_promote_node:
  "n \<in> set (nodes graph) \<Longrightarrow> runs g p (promote_node env g p i n) (phase_effect graph cap p)"
  unfolding promote_node_def
  by (intro runs_control runs_phase_none runs_plain_tick) (auto simp: transition_def)

lemma runs_merge_accepted: "runs g p (merge_accepted env g graph p) (phase_effect graph cap p)"
proof (cases "find (\<lambda>n. p (n_id n) = Some Accepted) (nodes graph)")
  case None
  then show ?thesis by (simp add: merge_accepted_def runs_phase_none)
next
  case (Some n)
  then have n: "n \<in> set (nodes graph)" "p (n_id n) = Some Accepted"
    by (auto simp: find_Some_iff)
  have finish: "runs g p (bindR (append_ev env g (n_id n) (Some a) Accepted ev reason) (\<lambda>r.
      ret (Some (tick_of (n_id n) (Some a) r)))) (phase_effect graph cap p)"
    if "ev = IntegrationOwnerMerge \<or> ev = StaleBaseDetected" for a ev reason
    by (rule runs_append_ev_bind, simp add: state_of_Some [where p = p, OF n(2)], rule runs_ret)
      (use n that in \<open>auto simp: tick_effect_def tick_of_def transition_def\<close>)
  have merged: "runs g p (bindR (case res of
        Inr _ \<Rightarrow> append_ev env g (n_id n) (Some a) Accepted IntegrationOwnerMerge None
      | Inl _ \<Rightarrow> append_ev env g (n_id n) (Some a) Accepted StaleBaseDetected
                   (Some ''merge conflict or dirty integrate worktree''))
      (\<lambda>r. ret (Some (tick_of (n_id n) (Some a) r)))) (phase_effect graph cap p)"
    for res :: "workspace_error + unit" and a
    by (cases res) (simp_all add: finish)
  show ?thesis
    unfolding merge_accepted_def Some option.case
    by (rule runs_quiet_bind [OF quiet_reads(7)], rule runs_quiet_bind [OF quiet_prims(6)],
        rule runs_quiet_bind [OF quiet_prims(3)], rule merged)
qed

lemma tick_effect_verdict:
  assumes "n \<in> set (nodes graph)" "x \<in> {Failed, AwaitingReview, Accepted}"
    and "x = Accepted \<longrightarrow> verify_gate_eligible n"
  shows "tick_effect graph cap p (Transition (n_id n) i from x ev) (p(n_id n \<mapsto> x))"
  using assms by (auto simp: tick_effect_def)

lemma runs_fail_orphaned:
  assumes "n \<in> set (nodes graph)" "state_of p (n_id n) = Verifying"
  shows "runs g p (fail_orphaned_verification env g (n_id n) att) (tick_effect graph cap p)"
  unfolding fail_orphaned_verification_def
  by (rule runs_append_ev_bind, simp add: assms(2), rule runs_ret)
    (use assms(1) in \<open>auto simp: tick_effect_def tick_of_def transition_def\<close>)

lemma runs_finish_orphaned:
  assumes n: "n \<in> set (nodes graph)"
    and st: "state_of p (n_id n) = Verifying \<or> state_of p (n_id n) = AwaitingReview"
  shows "runs g p (finish_orphaned_verification env g n att) (tick_effect graph cap p)"
proof (cases "state_of p (n_id n) = AwaitingReview")
  case True
  have gate: "runs g p (bindR (append_verify_gate env g n a) (\<lambda>gate.
      bindR (of_option e gate) (\<lambda>r. ret (tick_of (n_id n) (tr_attempt_id r) r)))) (tick_effect graph cap p)"
    for a e
  proof (rule runs_bind [OF runs_verify_gate])
    fix r :: "transition_record option" and p'
    assume r: "case r of None \<Rightarrow> p' = p \<and> (state_of p (n_id n) = AwaitingReview \<longrightarrow> \<not> verify_gate_eligible n)
      | Some x \<Rightarrow> state_of p (n_id n) = AwaitingReview \<and> verify_gate_eligible n \<and>
         tr_event x = VerifyGatePassed \<and> tr_from x = AwaitingReview \<and> tr_to x = Accepted \<and>
         tr_attempt_id x = Some a \<and> p' = p(n_id n \<mapsto> Accepted)"
    show "runs g p' (bindR (of_option e r) (\<lambda>r. ret (tick_of (n_id n) (tr_attempt_id r) r)))
        (tick_effect graph cap p)"
      by (rule runs_choice [OF quiet_prims(6) yields_of_option], rule runs_ret)
        (use r n in \<open>auto simp: tick_of_def intro!: tick_effect_verdict split: option.splits\<close>)
  qed
  show ?thesis
    unfolding finish_orphaned_verification_def Let_def
    by (rule runs_tasks_bind, simp only: True task_state.distinct simp_thms if_False if_True)
      (intro runs_control runs_throw gate)
next
  case False
  then have v: "state_of p (n_id n) = Verifying" using st by simp
  have checked: "runs g p (bindR (append_deterministic_result env g n a passed None) (\<lambda>r.
      ret (tick_of (n_id n) (tr_attempt_id r) r))) (tick_effect graph cap p)" for a passed
    by (rule runs_bind [OF runs_deterministic_result [OF v]], rule runs_ret)
      (use n in \<open>auto simp: tick_of_def intro!: tick_effect_verdict split: if_splits\<close>)
  have find_wt: "quiet (case x of None \<Rightarrow> ret None | Some wt \<Rightarrow>
      bindR (port (ws_worktree_exists (env_workspace env) wt)) (\<lambda>ex. ret (if ex then Some wt else None)))" for x
    by (intro emits)
  have rows: "quiet (for_each (record_evidence_row env) rows)" for rows by (intro emits)
  show ?thesis
    unfolding finish_orphaned_verification_def Let_def
    by (rule runs_tasks_bind, simp only: v task_state.distinct simp_thms if_False if_True)
      (intro runs_control runs_fail_orphaned [OF n v] runs_quiet_bind [OF find_wt]
        runs_quiet_bind [OF quiet_prims(3)] runs_quiet_bind [OF rows]
        runs_quiet_bind [OF quiet_handled [OF quiet_writes(2)]] checked)
qed

lemma runs_some_tick:
  "runs g p m (tick_effect graph cap p) \<Longrightarrow>
     runs g p (bindR m (\<lambda>k. ret (Some k))) (phase_effect graph cap p)"
  by (rule runs_bind, assumption, rule runs_ret) simp

lemma runs_resume_gate_node:
  assumes "n \<in> set (nodes graph)"
  shows "runs g p (resume_gate_node env g p n) (phase_effect graph cap p)"
  unfolding resume_gate_node_def
  by (intro runs_control runs_phase_none runs_quiet_bind [OF quiet_reads(7)] runs_some_tick
      runs_finish_orphaned assms) (simp add: state_of_def)

lemma runs_recover_verifying: "runs g p (recover_verifying env g graph p) (phase_effect graph cap p)"
  unfolding recover_verifying_def
proof (rule runs_choice [OF quiet_choices(1) recover_choice])
  fix r :: "(task_node \<times> attempt_row option) option"
  assume r: "\<forall>x. r = Some x \<longrightarrow> fst x \<in> set (nodes graph) \<and> p (n_id (fst x)) = Some Verifying"
  show "runs g p (case r of None \<Rightarrow> ret None | Some (n, att) \<Rightarrow>
      bindR (finish_orphaned_verification env g n att) (\<lambda>k. ret (Some k))) (phase_effect graph cap p)"
    by (intro runs_control runs_phase_none runs_some_tick runs_finish_orphaned)
      (use r in \<open>auto simp: state_of_def\<close>)
qed

lemma runs_verify_deferred: "runs g p (verify_deferred env g graph p) (phase_effect graph cap p)"
  unfolding verify_deferred_def
proof (rule runs_choice [OF quiet_choices(2) deferred_choice])
  fix r :: "(task_id \<times> attempt_row \<times> harness_outcome) option"
  assume r: "\<forall>x. r = Some x \<longrightarrow> p (fst x) = Some Verifying"
  have "runs g p (bindR (of_option e (find (\<lambda>n. n_id n = t) (nodes graph))) (\<lambda>n.
      bindR (verify_attempt env g n (at_attempt_id a) (or_empty (at_worktree_path a))
        (or_empty (base_of a)) (node_tier n) (attempt_candidate (or_empty (at_harness a)) a) out)
        (\<lambda>k. ret (Some k)))) (phase_effect graph cap p)"
    if "p t = Some Verifying" for t a out e
  proof (rule runs_choice [OF quiet_prims(6) yields_of_option])
    fix n assume "find (\<lambda>n. n_id n = t) (nodes graph) = Some n"
    then have n: "n \<in> set (nodes graph)" "n_id n = t" by (auto simp: find_Some_iff)
    show "runs g p (bindR (verify_attempt env g n (at_attempt_id a) (or_empty (at_worktree_path a))
        (or_empty (base_of a)) (node_tier n) (attempt_candidate (or_empty (at_harness a)) a) out)
        (\<lambda>k. ret (Some k))) (phase_effect graph cap p)"
      by (rule runs_some_tick, rule runs_weaken [OF runs_verify_attempt])
        (use n that in \<open>auto simp: state_of_def intro!: tick_effect_verdict split: if_splits\<close>)
  qed
  then show "runs g p (case r of None \<Rightarrow> recover_verifying env g graph p | Some (t, a, out) \<Rightarrow>
      bindR (of_option (IllegalErr ''missing node'') (find (\<lambda>n. n_id n = t) (nodes graph))) (\<lambda>n.
         bindR (verify_attempt env g n (at_attempt_id a) (or_empty (at_worktree_path a))
                  (or_empty (base_of a)) (node_tier n)
                  (attempt_candidate (or_empty (at_harness a)) a) out) (\<lambda>k. ret (Some k))))
      (phase_effect graph cap p)"
    using r by (intro runs_control runs_recover_verifying) auto
qed

text \<open>Dispatching: the task was \<open>Ready\<close> and a slot was free.\<close>

lemma runs_crash_fallback:
  assumes n: "n \<in> set (nodes graph)"
  shows "runs g (p(n_id n \<mapsto> Running)) (crash_fallback env g (n_id n) a msg sel) (tick_effect graph cap p)"
  unfolding crash_fallback_def
proof (rule runs_append_ev_bind)
  fix r :: transition_record
  assume "transition Running HarnessCrashedOrTimeout = Inr (tr_to r)"
  then have to: "tr_to r = Failed" by (simp add: transition_def)
  show "runs g (p(n_id n \<mapsto> Running, n_id n \<mapsto> tr_to r)) (maybe_fallback env g (n_id n) r sel)
      (tick_effect graph cap p)"
    by (rule runs_weaken [OF runs_fallback])
      (use n in \<open>auto simp: tick_effect_def tick_of_def to\<close>)
qed simp

lemma runs_invoke_attempt:
  assumes n: "n \<in> set (nodes graph)"
    and slot: "p (n_id n) = Some Ready" "occupied graph p < cap"
  shows "runs g (p(n_id n \<mapsto> Running)) (invoke_attempt env g graph' n c a wt sel) (tick_effect graph cap p)"
proof -
  have exited: "runs g (p(n_id n \<mapsto> Running)) (defer_harness_exit env g (n_id n) a out reason)
      (tick_effect graph cap p)" for out reason
    by (rule runs_weaken [OF runs_defer]) (use n slot in \<open>auto simp: tick_effect_def\<close>)
  have started: "runs g (p(n_id n \<mapsto> Running)) (ret (Transition (n_id n) (Some a) Ready Running AttemptStarted))
      (tick_effect graph cap p)"
    by (rule runs_ret) (use n slot in \<open>auto simp: tick_effect_def\<close>)
  show ?thesis
    unfolding invoke_attempt_def
    by (intro runs_control runs_throw exited started runs_crash_fallback [OF n]
        runs_quiet_bind [OF quiet_prims(6)] runs_quiet_bind [OF quiet_prims(3)]
        runs_quiet_bind [OF quiet_dispatch_reads(4)] runs_quiet_bind [OF quiet_writes(4)]
        runs_quiet_bind [OF quiet_writes(5)] runs_quiet_bind [OF quiet_handled [OF quiet_writes(2)]])
qed

lemma runs_start_attempt:
  assumes n: "n \<in> set (nodes graph)"
    and slot: "p (n_id n) = Some Ready" "occupied graph p < cap"
  shows "runs g p (start_attempt env g graph' n c sel) (tick_effect graph cap p)"
proof -
  have opened: "runs g p (bindR (append_ev env g (n_id n) (Some a) Ready AttemptStarted None) (\<lambda>_. m))
      (tick_effect graph cap p)"
    if "runs g (p(n_id n \<mapsto> Running)) m (tick_effect graph cap p)" for a m
    by (rule runs_append_ev_bind, simp add: state_of_Some [where p = p, OF slot(1)])
      (use that in \<open>simp add: transition_def\<close>)
  have leftover: "quiet (if b then ret True else workspace f)" for b and f :: "('a, workspace_error + bool) act"
    by (intro emits)
  show ?thesis
    unfolding start_attempt_def Let_def
    by (intro runs_control runs_throw opened runs_crash_fallback [OF n] runs_invoke_attempt [OF n slot]
        runs_quiet_bind [OF quiet_derived(3)] runs_quiet_bind [OF quiet_prims(3)]
        runs_quiet_bind [OF leftover] runs_quiet_bind [OF quiet_dispatch_reads(5)]
        runs_quiet_bind [OF quiet_derived(4)] runs_quiet_bind [OF quiet_writes(3)])
qed

lemma runs_dispatch_ready:
  assumes slot: "p t = Some Ready" "occupied graph p < cap"
  shows "runs g p (dispatch_ready env g graph t) (tick_effect graph cap p)"
    (is "runs g p _ ?Q")
proof -
  have go: "runs g p (bindR (require_dispatch_ok env h) (\<lambda>_. start_attempt env g graph n c sel)) ?Q"
    if "n \<in> set (nodes graph)" "n_id n = t" for n c sel h
    by (rule runs_quiet_bind [OF quiet_reads(1)], rule runs_start_attempt [OF that(1)])
      (use slot that in auto)
  have pick: "runs g p (case sel of [] \<Rightarrow> ret (Idle NoCapableCandidate)
      | best # _ \<Rightarrow> bindR (attempts_for_task env g t) (\<lambda>attempts.
           let used = List.map_filter at_harness attempts;
               c = (case find (\<lambda>c. c_harness c \<notin> set used) sel of Some c \<Rightarrow> c | None \<Rightarrow> best)
           in bindR (require_dispatch_ok env (c_harness c)) (\<lambda>_.
                start_attempt env g graph n c sel))) ?Q"
    if "n \<in> set (nodes graph)" "n_id n = t" for sel n
    by (cases sel)
      (auto simp: Let_def tick_effect_def [of _ _ _ "Idle _"] intro!: runs_ret
        runs_quiet_bind [OF quiet_reads(8)] go [OF that])
  show ?thesis
    unfolding dispatch_ready_def
    by (rule runs_choice [OF quiet_prims(6) yields_of_option])
      (intro runs_quiet_bind [OF quiet_dispatch_reads(1)] runs_quiet_bind [OF quiet_dispatch_reads(2)]
        runs_quiet_bind [OF quiet_dispatch_reads(3)] runs_quiet_bind [OF quiet_dispatch_reads(6)] pick,
        auto simp: find_Some_iff)
qed

lemma runs_dispatch_phase:
  assumes "\<And>t. t \<in> set ready \<Longrightarrow> p t = Some Ready" "occupied graph p < cap"
  shows "runs g p (dispatch_phase env g graph ready) (phase_effect graph cap p)"
  unfolding dispatch_phase_def phase_effect_def
proof (rule runs_first_some)
  fix t assume "t \<in> set ready"
  then show "runs g p (bindR (dispatch_ready env g graph t) (\<lambda>k.
      ret (if k = Idle NoCapableCandidate then None else Some k)))
      (\<lambda>r p'. case r of None \<Rightarrow> p' = p | Some k \<Rightarrow> tick_effect graph cap p k p')"
    by (intro runs_bind [OF runs_dispatch_ready [where t = t and p = p, OF _ assms(2)]] runs_ret)
      (auto simp: assms(1) tick_effect_def)
qed

lemma runs_or_else:
  "runs g p m (phase_effect graph cap p) \<Longrightarrow> runs g p rest (tick_effect graph cap p) \<Longrightarrow>
     runs g p (or_tick m rest) (tick_effect graph cap p)"
  unfolding or_tick_def by (rule runs_bind, assumption) (auto intro!: runs_control runs_ret)

lemma runs_idle:
  assumes "r = GraphComplete \<Longrightarrow> list_all (\<lambda>n. p (n_id n) = Some Integrated) (nodes graph)"
    and "r = AwaitingHumanAcceptance \<Longrightarrow> any_in graph p AwaitingReview"
  shows "runs g p (ret (Idle r)) (tick_effect graph cap p)"
  by (rule runs_ret) (use assms in \<open>auto simp: tick_effect_def\<close>)

lemma runs_tick_phases:
  "runs g p (tick_phases env g graph p)
     (tick_effect graph (unat (max_concurrent_workers (env_limits env))) p)"
proof -
  have ready: "t \<in> set (ready_ids graph p) \<Longrightarrow> p t = Some Ready" for t
    by (auto simp: ready_ids_def)
  have work: "runs g p (tick_work env g graph p)
      (tick_effect graph (unat (max_concurrent_workers (env_limits env))) p)"
    unfolding tick_work_def
    by (intro runs_or_else runs_merge_accepted runs_control runs_dispatch_phase runs_verify_deferred
        runs_idle ready) (auto simp: idle_tail_def split: if_splits)
  show ?thesis
    unfolding tick_phases_def reattach_running_def harvest_live_failures_def clear_blocked_def
      promote_pending_def resume_orphaned_verify_gate_def
    by (intro runs_or_else runs_phase runs_reattach_node runs_harvest_node runs_clear_blocked_node
        runs_promote_node runs_resume_gate_node runs_control work runs_idle) simp_all
qed

section \<open>Methods that only read\<close>

text \<open>
  \<open>reads m Q\<close>: \<open>m\<close> leaves the store and the active graph alone, and a value it returns stands in
  relation \<open>Q\<close> to the store.
\<close>

definition reads :: "('w, 'a) run \<Rightarrow> (sqlite_store \<Rightarrow> 'a \<Rightarrow> bool) \<Rightarrow> bool" where
  "reads m Q \<longleftrightarrow>
     (\<forall>s. st_store (snd (m s)) = st_store s \<and> st_active (snd (m s)) = st_active s \<and>
        (\<forall>a. fst (m s) = Inr a \<longrightarrow> Q (st_store s) a))"

lemma reads_bindE:
  assumes "bindR m k s = (r, s')" "reads m Q"
  obtains (error) e where "r = Inl e" "st_store s' = st_store s" "st_active s' = st_active s"
  | (go) a s1 where "Q (st_store s) a" "st_store s1 = st_store s" "st_active s1 = st_active s"
      "k a s1 = (r, s')"
proof -
  obtain x s1 where m: "m s = (x, s1)" by (cases "m s")
  have st: "st_store s1 = st_store s" "st_active s1 = st_active s" "\<forall>a. x = Inr a \<longrightarrow> Q (st_store s) a"
    using assms(2) m unfolding reads_def by (metis fst_conv snd_conv)+
  show thesis
    using assms(1) m st error go by (cases x) (auto simp: bindR_def)
qed

lemma reads_bind:
  assumes "reads m R" "\<And>a. reads (k a) (\<lambda>db b. R db a \<longrightarrow> Q db b)"
  shows "reads (bindR m k) Q"
  unfolding reads_def
proof (intro allI conjI impI)
  fix s
  obtain r s' where b: "bindR m k s = (r, s')" by (cases "bindR m k s")
  have "st_store s' = st_store s \<and> st_active s' = st_active s \<and> (\<forall>b. r = Inr b \<longrightarrow> Q (st_store s) b)"
    using b assms(1)
  proof (cases rule: reads_bindE)
    case (go a s1)
    then show ?thesis using assms(2) [of a] unfolding reads_def by (metis fst_conv snd_conv)
  qed simp
  then show "st_store (snd (bindR m k s)) = st_store s" "st_active (snd (bindR m k s)) = st_active s"
    "\<And>b. fst (bindR m k s) = Inr b \<Longrightarrow> Q (st_store s) b"
    using b by auto
qed

lemma reads_weaken: "reads m R \<Longrightarrow> (\<And>db a. R db a \<Longrightarrow> Q db a) \<Longrightarrow> reads m Q"
  by (auto simp: reads_def)

lemma reads_prims:
  "reads (ret a) (\<lambda>_ b. b = a)" "reads (throw e) (\<lambda>_ _. False)" "reads (port f) (\<lambda>_ _. True)"
  "reads (of_option e x) (\<lambda>_ a. x = Some a)" "reads (of_res c y) (\<lambda>_ a. y = Inr a)"
  "reads get_store (\<lambda>db a. a = db)"
  by (auto simp: reads_def ret_def throw_def port_def of_option_def of_res_def get_store_def
      split: prod.splits option.splits sum.splits)

lemma reads_handled: "reads m (\<lambda>_ _. True) \<Longrightarrow> reads (handled m) (\<lambda>_ _. True)"
  by (simp add: reads_def handled_def case_prod_beta)

lemma reads_store_read: "reads (store_read env f) (\<lambda>db a. f db = Inr a)"
  by (auto simp: reads_def store_read_def store_fault_def bindR_def port_def get_store_def of_res_def
      ret_def throw_def split: prod.splits sum.splits option.splits)

lemma reads_tasks:
  "reads (tasks env g) (\<lambda>db ts. try_res (db_records_for_graph db g) replay_tasks = Inr ts)"
  unfolding tasks_def by (rule reads_store_read)

lemma reads_graph_of:
  "reads (graph_of env g) (\<lambda>db x. graph_from_run (pf_from_json (env_platform env)) db g = Inr x)"
  unfolding graph_of_def by (rule reads_store_read)

lemma reads_load_run: "reads (load_run env g) (\<lambda>db x. db_load_run db g = Inr x)"
  unfolding load_run_def by (rule reads_store_read)

lemma reads_latest_attempt:
  "reads (latest_attempt env g t) (\<lambda>db x. x = db_latest_attempt_for_task db g t)"
  unfolding latest_attempt_def by (rule reads_weaken [OF reads_store_read]) simp

lemma reads_if: "reads x Q \<Longrightarrow> reads y Q \<Longrightarrow> reads (if b then x else y) Q"
  by simp

lemma reads_require:
  "reads (require_legacy_mutation env g) (\<lambda>db _. graph_id_is_legal g \<and>
     \<not> legacy_ownership_unresolved db g \<and> g \<notin> set (db_bindings db))"
proof -
  have 1: "reads (require_unbound_graph env g) (\<lambda>db _. g \<notin> set (db_bindings db))"
    unfolding require_unbound_graph_def
    by (rule reads_bind [OF reads_store_read])
      (auto intro: reads_weaken [OF reads_prims(1)] reads_weaken [OF reads_prims(2)])
  show ?thesis
    unfolding require_legacy_mutation_def
    by (auto intro!: reads_bind [OF reads_store_read] intro: reads_weaken [OF reads_prims(2)]
        reads_weaken [OF 1])
qed

section \<open>The tick as a whole\<close>

lemma run_tick_cases:
  assumes "run_tick env s = (r, s')"
  obtains (refused) e where "r = Inl e" "st_store s' = st_store s"
  | (ran) g row graph ts s1 where "st_active s = Some g"
      "db_load_run (st_store s) g = Inr (Some row)" "run_plan_state row = PlanAccepted"
      "graph_from_run (pf_from_json (env_platform env)) (st_store s) g = Inr graph"
      "try_res (db_records_for_graph (st_store s) g) replay_tasks = Inr ts"
      "st_store s1 = st_store s" "tick_phases env g graph ts s1 = (r, s')"
proof -
  have get: "bindR get_active k s = k (st_active s) s" for k :: "string option \<Rightarrow> ('a, tick) run"
    by (simp add: bindR_def get_active_def)
  show thesis
    using assms unfolding run_tick_def get
    by (auto elim!: reads_bindE [OF _ reads_prims(4)] reads_bindE [OF _ reads_require]
        reads_bindE [OF _ reads_load_run] reads_bindE [OF _ reads_graph_of]
        reads_bindE [OF _ reads_tasks] simp: throw_def split: if_splits)
      ((rule refused; assumption) | (rule ran; assumption))+
qed

section \<open>Phases with nothing to do\<close>

lemma bindR_ret [simp]: "bindR (ret a) k = k a"
  by (simp add: bindR_def ret_def fun_eq_iff)

lemma bindR_throw [simp]: "bindR (throw e) k = throw e"
  by (simp add: bindR_def throw_def fun_eq_iff)

lemma or_tick_ret [simp]: "or_tick (ret None) rest = rest" "or_tick (ret (Some k)) rest = ret k"
  by (simp_all add: or_tick_def)

lemma first_some_none: "(\<And>x. x \<in> set xs \<Longrightarrow> f x = ret None) \<Longrightarrow> first_some f xs = ret None"
  by (induction xs) simp_all

lemma first_some_guard:
  "\<not> any_in graph ts x \<Longrightarrow>
     first_some (\<lambda>n. if ts (n_id n) \<noteq> Some x then ret None else f n) (nodes graph) = ret None"
  by (rule first_some_none) (auto simp: any_in_def list_ex_iff)

lemma find_none_in:
  "\<not> any_in graph ts x \<Longrightarrow> find (\<lambda>n. ts (n_id n) = Some x) (nodes graph) = None"
  by (auto simp: any_in_def list_ex_iff find_None_iff)

lemma phases_skip:
  "\<not> any_in graph ts Running \<Longrightarrow> reattach_running env g graph ts = ret None"
  "\<not> any_in graph ts Failed \<Longrightarrow> harvest_live_failures env g graph ts = ret None"
  "\<not> any_in graph ts Blocked \<Longrightarrow> clear_blocked env g graph ts = ret None"
  "\<not> any_in graph ts AwaitingReview \<Longrightarrow> resume_orphaned_verify_gate env g graph ts = ret None"
  "\<not> any_in graph ts Accepted \<Longrightarrow> merge_accepted env g graph ts = ret None"
  "\<not> any_in graph ts Verifying \<Longrightarrow> verify_deferred env g graph ts = ret None"
  unfolding reattach_running_def harvest_live_failures_def clear_blocked_def
    resume_orphaned_verify_gate_def merge_accepted_def verify_deferred_def recover_verifying_def
    reattach_node_def harvest_node_def clear_blocked_node_def resume_gate_node_def
  by (simp_all only: first_some_guard [where ts = ts] find_none_in [where ts = ts] bindR_ret option.case
      not_False_eq_True)

text \<open>A graph whose tasks are all integrated has nothing left to do, and the tick says so.\<close>

lemma tick_phases_complete:
  assumes "list_all (\<lambda>n. ts (n_id n) = Some Integrated) (nodes graph)"
  shows "tick_phases env g graph ts = ret (Idle GraphComplete)"
proof -
  have none: "\<not> any_in graph ts x" if "x \<noteq> Integrated" for x
    using assms that by (auto simp: any_in_def list_ex_iff list_all_iff)
  have promote: "promote_pending env g graph ts = ret None"
    using assms unfolding promote_pending_def
    by (intro first_some_none) (auto simp: promote_node_def state_of_def list_all_iff)
  have ready: "ready_ids graph ts = []"
    using assms by (auto simp: ready_ids_def ready_nodes_def list_all_iff)
  show ?thesis
    unfolding tick_phases_def tick_work_def
    using assms by (simp add: none phases_skip promote ready idle_tail_def)
qed

section \<open>The sample environment\<close>

lemma sample_env_fields [simp]:
  "env_harnesses sample_env = [(''fixture'', sample_harness)]"
  "env_workspace sample_env = sample_workspace" "env_platform sample_env = sample_platform"
  "env_limits sample_env = \<lparr>max_retries = 2, task_timeout = 60, max_concurrent_workers = 1\<rparr>"
  "env_verify_command sample_env = []" "env_micro_repair sample_env = None"
  "env_store_fault sample_env w = (None, w)" "env_fixture_only sample_env"
  "pf_from_json sample_platform = (\<lambda>s. if s = ''plan'' then Inr sample_graph else Inl ''syntax'')"
  "pf_topo sample_platform = ref_port" "pf_now sample_platform w = (0, w)"
  by (simp_all add: sample_env_def sample_platform_def)

lemma sample_fault [simp]: "store_fault sample_env s = (Inr (), s)"
  by (simp add: store_fault_def bindR_def port_def ret_def)

lemma sample_read: "store_read sample_env f s =
    (case f (st_store s) of Inl e \<Rightarrow> (Inl (StoreErr e), s) | Inr a \<Rightarrow> (Inr a, s))"
  by (simp add: store_read_def bindR_def get_store_def of_res_def ret_def throw_def split: sum.split)

lemma sample_write: "store_write sample_env f s =
    (case f (st_store s) of Inl e \<Rightarrow> (Inl (StoreErr e), s) | Inr db \<Rightarrow> (Inr (), s\<lparr>st_store := db\<rparr>))"
  by (simp add: store_write_def bindR_def get_store_def of_res_def ret_def throw_def put_store_def
      split: sum.split)

lemma sample_stamp: "stamp sample_env s = (Inr ''0'', s)"
proof -
  have "show_nat 0 = ''0''" by code_simp
  then show ?thesis by (simp add: stamp_def bindR_def port_def ret_def)
qed

lemma sample_store_admits:
  "require_legacy_mutation sample_env ''g-1'' (sample_state evs) = (Inr (), sample_state evs)"
  "load_run sample_env ''g-1'' (sample_state evs) = (Inr (res_ok (run_of_db accepted_run)), sample_state evs)"
  "graph_of sample_env ''g-1'' (sample_state evs) = (Inr sample_graph, sample_state evs)"
  by (simp_all add: require_legacy_mutation_def require_unbound_graph_def load_run_def graph_of_def
      graph_from_run_def db_load_run_def run_of_db_def accepted_run_def parse_plan_state_def
      plan_state_table_def sample_read sample_state_def store_eval bindR_def ret_def)

lemma sample_tick:
  assumes "try_res (db_records_for_graph (st_store (sample_state evs)) ''g-1'') replay_tasks = Inr ts"
  shows "run_tick sample_env (sample_state evs) =
    tick_phases sample_env ''g-1'' sample_graph ts (sample_state evs)"
proof -
  have active: "bindR get_active k (sample_state evs) = k (Some ''g-1'') (sample_state evs)"
    for k :: "string option \<Rightarrow> (unit, tick) run"
    by (simp add: bindR_def get_active_def sample_state_def)
  have run: "res_ok (run_of_db accepted_run) \<noteq> None"
    "run_plan_state (the (res_ok (run_of_db accepted_run))) = PlanAccepted"
    by (simp_all add: run_of_db_def accepted_run_def parse_plan_state_def plan_state_table_def)
  have ts: "tasks sample_env ''g-1'' (sample_state evs) = (Inr ts, sample_state evs)"
    using assms by (simp add: tasks_def sample_read)
  show ?thesis
    unfolding run_tick_def active
    using run ts by (auto simp: of_option_def bindR_def [of "require_legacy_mutation _ _"]
        bindR_def [of "load_run _ _"] bindR_def [of "graph_of _ _"] bindR_def [of "tasks _ _"]
        sample_store_admits)
qed

lemma sample_first_tick:
  "run_tick sample_env (sample_state []) =
     (Inr (Transition 1 None Pending Ready DependencySatisfied),
      sample_state [event_row_of \<lparr>tr_graph_id = ''g-1'', tr_task_id = 1, tr_attempt_id = None,
        tr_from = Pending, tr_to = Ready, tr_event = DependencySatisfied, tr_reason = None,
        tr_executor = ''meshloop'', tr_occurred_at = ''0''\<rparr>])"
proof -
  have none: "\<not> any_in sample_graph Map.empty x" for x by (simp add: any_in_def list_ex_iff)
  have "run_tick sample_env (sample_state []) =
      tick_phases sample_env ''g-1'' sample_graph Map.empty (sample_state [])"
    by (rule sample_tick) (simp add: sample_state_def empty_store_def db_records_for_graph_def
        replay_tasks_def)
  also have "\<dots> = or_tick (promote_pending sample_env ''g-1'' sample_graph Map.empty)
      (tick_work sample_env ''g-1'' sample_graph Map.empty) (sample_state [])"
    by (simp add: tick_phases_def phases_skip none)
  also have "promote_pending sample_env ''g-1'' sample_graph Map.empty =
      plain_tick sample_env ''g-1'' 1 Pending DependencySatisfied None"
    (is "_ = ?p")
  proof -
    have "bindR ?p (\<lambda>r. case r of None \<Rightarrow> m | Some a \<Rightarrow> ret (Some a)) = ?p" for m
      by (auto simp: plain_tick_def bindR_def ret_def fun_eq_iff split: prod.splits sum.splits)
    then show ?thesis
      by (simp add: promote_pending_def promote_node_def sample_graph_def sample_node_def
          integrated_set_def dep_unsat_def state_of_def)
  qed
  finally show ?thesis
    by (simp add: or_tick_def plain_tick_def append_ev_def append_as_def close_attempt_def
        ends_attempt_def transition_def tick_of_def bindR_def ret_def Let_def sample_stamp sample_write
        sample_state_def store_eval)
qed

lemma sample_first_log: "log_at (st_store (sample_state [])) ''g-1'' Map.empty"
  by (simp add: log_at_def sample_state_def empty_store_def db_records_for_graph_def)

lemma runs_D:
  assumes "runs g p m Q" "log_at (st_store s) g p" "m s = (r, s')"
  shows "(\<exists>p'. log_at (st_store s') g p') \<and> (\<forall>a. r = Inr a \<longrightarrow> (\<exists>p'. log_at (st_store s') g p' \<and> Q a p'))"
proof -
  have "case m s of (Inl e, s') \<Rightarrow> \<exists>p'. log_at (st_store s') g p'
      | (Inr a, s') \<Rightarrow> \<exists>p'. log_at (st_store s') g p' \<and> Q a p'"
    using assms(1,2) by (simp add: runs_def)
  then show ?thesis using assms(3) by (cases r) auto
qed

lemma log_at_tasks:
  assumes "log_at db g p" "try_res (db_records_for_graph db g) replay_tasks = Inr ts"
  shows "ts = p"
proof -
  obtain rs where "db_records_for_graph db g = Inr rs" "replay_tasks rs = Inr p"
    using log_at_replays [OF assms(1)] unfolding sqlite_log.replays_to_def by blast
  then show ?thesis using assms(2) by simp
qed

lemma run_tick_effect:
  assumes "run_tick env s = (r, s')" "st_active s = Some g" "log_at (st_store s) g p"
  shows "(\<exists>p'. log_at (st_store s') g p') \<and>
    (st_store s' = st_store s \<and> (\<exists>e. r = Inl e) \<or>
     (\<exists>row graph. db_load_run (st_store s) g = Inr (Some row) \<and> run_plan_state row = PlanAccepted \<and>
        graph_from_run (pf_from_json (env_platform env)) (st_store s) g = Inr graph \<and>
        (\<forall>k. r = Inr k \<longrightarrow> (\<exists>p'. log_at (st_store s') g p' \<and>
           tick_effect graph (unat (max_concurrent_workers (env_limits env))) p k p'))))"
  using assms(1)
proof (cases rule: run_tick_cases)
  case (refused e)
  then show ?thesis using assms(3) by auto
next
  case (ran g' row graph ts s1)
  then have g: "g' = g" using assms(2) by simp
  have ts: "ts = p" using log_at_tasks [OF assms(3)] ran(5) g by simp
  have l: "log_at (st_store s1) g p" using assms(3) ran(6) by simp
  show ?thesis
    using runs_D [OF runs_tick_phases l ran(7) [unfolded g ts]] ran(2,3,4) g by blast
qed

section \<open>Properties of the tick\<close>

text \<open>
  C2. A tick only works on an accepted plan and never corrupts the log: whatever the ports answer,
  it refuses without touching the store unless the stored plan of the active graph is accepted, it
  leaves a log that names the true state of every task before each step, and when it answers, the
  states changed exactly as the answer says: not at all for \<open>Idle\<close>, and otherwise in one task of
  the plan, which is accepted only through its own verify gate and integrated only when it was
  accepted. \<open>GraphComplete\<close> is said only of a graph whose tasks are all integrated.
\<close>

theorem tick_is_sound:
  assumes "run_tick env s = (r, s')" "st_active s = Some g" "log_at (st_store s) g p"
  shows "(\<exists>p'. log_at (st_store s') g p') \<and>
    (st_store s' = st_store s \<and> (\<exists>e. r = Inl e) \<or>
     (\<exists>row graph. db_load_run (st_store s) g = Inr (Some row) \<and> run_plan_state row = PlanAccepted \<and>
        graph_from_run (pf_from_json (env_platform env)) (st_store s) g = Inr graph \<and>
        (\<forall>k. r = Inr k \<longrightarrow> (\<exists>p'. log_at (st_store s') g p' \<and>
           tick_effect graph (unat (max_concurrent_workers (env_limits env))) p k p'))))"
  using run_tick_effect [OF assms] .

theorem tick_is_sound_witness:
  "\<exists>p'. log_at (st_store (snd (run_tick sample_env (sample_state [])))) ''g-1'' p' \<and>
     tick_effect sample_graph 1 Map.empty (Transition 1 None Pending Ready DependencySatisfied) p'"
proof -
  have st: "st_active (sample_state []) = Some ''g-1''" by (simp add: sample_state_def)
  obtain s1 where run: "run_tick sample_env (sample_state []) =
      (Inr (Transition 1 None Pending Ready DependencySatisfied), s1)"
    using sample_first_tick by blast
  have gr: "graph_from_run (pf_from_json (env_platform sample_env)) (st_store (sample_state [])) ''g-1'' =
      Inr graph \<Longrightarrow> graph = sample_graph" for graph
    by (simp add: graph_from_run_def db_load_run_def sample_state_def run_of_db_def accepted_run_def
        parse_plan_state_def plan_state_table_def)
  have cap: "unat (max_concurrent_workers (env_limits sample_env)) = 1" by simp
  have "\<exists>graph p'. graph = sample_graph \<and> log_at (st_store s1) ''g-1'' p' \<and>
      tick_effect graph 1 Map.empty (Transition 1 None Pending Ready DependencySatisfied) p'"
    using tick_is_sound [OF run st sample_first_log] gr unfolding cap by blast
  then show ?thesis unfolding run by simp
qed

lemma count_update:
  assumes "distinct (map key xs)"
  shows "length (filter (\<lambda>n. P ((f(t := y)) (key n))) xs) \<le>
    length (filter (\<lambda>n. P (f (key n))) xs) + (if P y \<and> \<not> P (f t) then 1 else 0)"
  using assms
proof (induction xs)
  case (Cons n xs)
  show ?case
  proof (cases "key n = t")
    case True
    then have "filter (\<lambda>n. P ((f(t := y)) (key n))) xs = filter (\<lambda>n. P (f (key n))) xs"
      using Cons.prems by (intro filter_cong) (auto simp: image_iff)
    then show ?thesis using True by auto
  next
    case False
    then have "(f(t := y)) (key n) = f (key n)" by simp
    then show ?thesis using Cons by (auto simp del: fun_upd_apply split: if_splits)
  qed
qed simp

definition busy :: "task_state option \<Rightarrow> bool" where
  "busy x \<longleftrightarrow> x = Some Running \<or> x = Some Verifying"

lemma occupied_busy: "occupied graph p = length (filter (\<lambda>n. busy (p (n_id n))) (nodes graph))"
  by (simp add: occupied_def busy_def)

lemma occupied_update:
  "distinct (map n_id (nodes graph)) \<Longrightarrow>
     occupied graph (p(t \<mapsto> x)) \<le>
       occupied graph p + (if busy (Some x) \<and> \<not> busy (p t) then 1 else 0)"
  unfolding occupied_busy by (rule count_update)

text \<open>
  C18. The worker limit holds: a tick that answers never raises the number of running and verifying
  tasks of the active graph above the configured limit, nor above what it was.
\<close>

theorem tick_respects_worker_limit:
  assumes "run_tick env s = (Inr k, s')" "st_active s = Some g" "log_at (st_store s) g p"
    and "graph_from_run (pf_from_json (env_platform env)) (st_store s) g = Inr graph"
    and "distinct (map n_id (nodes graph))" "log_at (st_store s') g p'"
  shows "occupied graph p' \<le> max (occupied graph p) (unat (max_concurrent_workers (env_limits env)))"
proof -
  let ?cap = "unat (max_concurrent_workers (env_limits env))"
  have "\<exists>p'. log_at (st_store s') g p' \<and> tick_effect graph ?cap p k p'"
    using run_tick_effect [OF assms(1-3)] assms(4) by auto
  then have eff: "tick_effect graph ?cap p k p'" using log_at_unique assms(6) by blast
  show ?thesis
  proof (cases k)
    case (Transition t a fr tk ev)
    then have "p' = p(t \<mapsto> tk)" "(tk = Running \<or> tk = Verifying) \<longrightarrow>
        p t = Some Running \<or> p t = Some Ready \<and> occupied graph p < ?cap"
      using eff by (auto simp: tick_effect_def)
    then show ?thesis
      using occupied_update [OF assms(5), of p t tk] by (auto simp: busy_def split: if_splits)
  next
    case (Idle r)
    then show ?thesis using eff by (simp add: tick_effect_def)
  qed
qed

theorem tick_respects_worker_limit_witness:
  "occupied sample_graph [1 \<mapsto> Ready] \<le> max (occupied sample_graph Map.empty) 1"
proof -
  have st: "st_active (sample_state []) = Some ''g-1''" by (simp add: sample_state_def)
  have gr: "graph_from_run (pf_from_json (env_platform sample_env)) (st_store (sample_state [])) ''g-1'' =
      Inr sample_graph"
    by (simp add: graph_from_run_def db_load_run_def sample_state_def run_of_db_def accepted_run_def
        parse_plan_state_def plan_state_table_def)
  have d: "distinct (map n_id (nodes sample_graph))" by (simp add: sample_graph_def sample_node_def)
  have "log_at (st_store (sample_state [event_row_of \<lparr>tr_graph_id = ''g-1'', tr_task_id = 1,
        tr_attempt_id = None, tr_from = Pending, tr_to = Ready, tr_event = DependencySatisfied,
        tr_reason = None, tr_executor = ''meshloop'', tr_occurred_at = ''0''\<rparr>])) ''g-1'' [1 \<mapsto> Ready]"
    by (simp add: log_at_def sample_state_def empty_store_def db_records_for_graph_def codec_simps
        event_row_of_def [THEN arg_cong [where f = er_graph_id]] advance_def transition_def)
  then show ?thesis
    using tick_respects_worker_limit [OF sample_first_tick st sample_first_log gr d] by simp
qed

lemma run_tick_grows:
  assumes "run_tick env s = (r, s')"
  shows "st_store s' = st_store s \<or>
    (\<exists>g graph. st_active s = Some g \<and>
       graph_from_run (pf_from_json (env_platform env)) (st_store s) g = Inr graph \<and>
       grows (auto_record g (nodes graph)) (st_store s) (st_store s'))"
  using assms
proof (cases rule: run_tick_cases)
  case (ran g row graph ts s1)
  then have "grows (auto_record g (nodes graph)) (st_store s1) (st_store s')"
    using emits_tick_phases [of g graph env ts] unfolding emits_def by (metis snd_conv)
  then show ?thesis using ran by auto
qed simp

text \<open>
  C3. No tick stands in for a human: every record a tick adds belongs to the active graph and is a
  legal step; none is a cancellation, a mutation or a review verdict; and the only acceptance among
  them is the verify gate of a node whose plan entry asks for it with tier 1 or 2. A task of tier 3,
  of no tier, or with the human gate is therefore never accepted by a tick.
\<close>

theorem tick_never_accepts_for_a_human:
  assumes "run_tick env s = (r, s')"
  shows "\<exists>rs. db_events (st_store s') = db_events (st_store s) @ map event_row_of rs \<and>
    db_runs (st_store s') = db_runs (st_store s) \<and>
    (\<forall>x \<in> set rs. \<exists>g graph. st_active s = Some g \<and>
       graph_from_run (pf_from_json (env_platform env)) (st_store s) g = Inr graph \<and>
       tr_graph_id x = g \<and> transition (tr_from x) (tr_event x) = Inr (tr_to x) \<and>
       tr_event x \<notin> {Cancel, GraphMutated, ReviewRejected} \<and>
       (tr_to x = Accepted \<longrightarrow> tr_event x = VerifyGatePassed \<and>
          (\<exists>n \<in> set (nodes graph). n_id n = tr_task_id x \<and> n_gate n = Verify \<and>
             (n_tier n = Some Tier1 \<or> n_tier n = Some Tier2))))"
  using run_tick_grows [OF assms]
proof (elim disjE exE conjE)
  assume "st_store s' = st_store s"
  then show ?thesis by (intro exI [of _ "[]"]) simp
next
  fix g graph
  assume a: "st_active s = Some g"
    "graph_from_run (pf_from_json (env_platform env)) (st_store s) g = Inr graph"
    "grows (auto_record g (nodes graph)) (st_store s) (st_store s')"
  have acc: "transition x ev = Inr Accepted \<Longrightarrow> acceptance_event ev" for x ev
    by (cases x; cases ev) (auto simp: transition_def acceptance_event_def)
  obtain rs where rs: "list_all (auto_record g (nodes graph)) rs"
    "db_events (st_store s') = db_events (st_store s) @ map event_row_of rs"
    "db_runs (st_store s') = db_runs (st_store s)"
    using a(3) by (auto simp: grows_def)
  have ok: "tr_graph_id x = g \<and> transition (tr_from x) (tr_event x) = Inr (tr_to x) \<and>
       tr_event x \<notin> {Cancel, GraphMutated, ReviewRejected} \<and>
       (tr_to x = Accepted \<longrightarrow> tr_event x = VerifyGatePassed \<and>
          (\<exists>n \<in> set (nodes graph). n_id n = tr_task_id x \<and> n_gate n = Verify \<and>
             (n_tier n = Some Tier1 \<or> n_tier n = Some Tier2)))" if "x \<in> set rs" for x
  proof -
    have "auto_record g (nodes graph) x" using rs(1) that by (auto simp: list_all_iff)
    then show ?thesis using acc [of "tr_from x" "tr_event x"]
      by (auto simp: auto_record_def verify_gate_eligible_def)
  qed
  show ?thesis
    using rs(2,3)
    by (intro exI [of _ rs] conjI ballI exI [of _ g] exI [of _ graph] a(1,2)) (use ok in blast)+
qed

theorem tick_never_accepts_for_a_human_witness:
  "\<exists>rs. db_events (st_store (snd (run_tick sample_env (sample_state [])))) = map event_row_of rs \<and>
     (\<forall>x \<in> set rs. tr_to x \<noteq> Accepted)"
proof -
  obtain s1 where run: "run_tick sample_env (sample_state []) =
      (Inr (Transition 1 None Pending Ready DependencySatisfied), s1)"
    using sample_first_tick by blast
  have gr: "graph_from_run (pf_from_json (env_platform sample_env)) (st_store (sample_state [])) ''g-1'' =
      Inr graph \<Longrightarrow> graph = sample_graph" for graph
    by (simp add: graph_from_run_def db_load_run_def sample_state_def run_of_db_def accepted_run_def
        parse_plan_state_def plan_state_table_def)
  have human: "n \<in> set (nodes sample_graph) \<Longrightarrow> n_gate n \<noteq> Verify" for n
    by (auto simp: sample_graph_def sample_node_def)
  have evs: "db_events (st_store (sample_state [])) = []" by (simp add: sample_state_def)
  have act: "st_active (sample_state []) = Some g \<Longrightarrow> g = ''g-1''" for g by (simp add: sample_state_def)
  show ?thesis
    using tick_never_accepts_for_a_human [OF run] human gr act unfolding evs run append_Nil snd_conv
    by metis
qed

end
