(* ===== verification/Engine_Run_Control.thy ===== *)
theory Engine_Run_Control
  imports Engine_Run_Tick
begin

text \<open>
  The operations of \<open>crates/meshloop-engine/src/run_loop.rs\<close> that an operator calls: staging,
  starting and deciding a plan, mutating it, cancelling, accepting, resuming, restarting, and
  landing the result or one deliverable of it.
\<close>

section \<open>Plans\<close>

datatype planner_selection = Route tier | PlannerHarness string

definition default_planner :: planner_selection where
  "default_planner = Route Tier3"

definition planner_pool ::
    "candidate list \<Rightarrow> planner_selection \<Rightarrow> orchestrator_error + (candidate list \<times> tier)" where
  "planner_pool candidates sel =
     (case sel of
        Route t \<Rightarrow> Inr (candidates, t)
      | PlannerHarness name \<Rightarrow>
          (case find (\<lambda>c. c_harness c = name) candidates of
             None \<Rightarrow> Inl (UnknownHarnessErr name)
           | Some c \<Rightarrow> Inr ([c], Tier1)))"

definition require_valid :: "'w run_env \<Rightarrow> task_graph \<Rightarrow> ('w, unit) run" where
  "require_valid env graph =
     of_res (\<lambda>e. IllegalErr (dbg_graph_error (env_platform env) e))
       (validate (pf_topo (env_platform env)) graph)"

definition plan_json :: "'w run_env \<Rightarrow> task_graph \<Rightarrow> ('w, string) run" where
  "plan_json env graph = of_res IllegalErr (pf_to_json (env_platform env) graph)"

definition plan_id_of :: "'w run_env \<Rightarrow> string \<Rightarrow> string" where
  "plan_id_of env json = compute_plan_id (pf_default_hash (env_platform env)) json"

definition write_plan_file :: "'w run_env \<Rightarrow> string \<Rightarrow> ('w, unit) run" where
  "write_plan_file env json =
     (let mesh = path_join (ws_repo_root (env_workspace env)) ''.meshloop'' in
      bindR (effect (pf_create_dir_all (env_platform env) mesh)) (\<lambda>_.
        effect (pf_write_file (env_platform env) (path_join mesh ''plan.json'') json)))"

definition ensure_integrate :: "'w run_env \<Rightarrow> string \<Rightarrow> string \<Rightarrow> ('w, unit) run" where
  "ensure_integrate env g base =
     bindR (port (ws_worktree_exists (env_workspace env) (integrate_path env g))) (\<lambda>there.
     if there then ret ()
     else bindR (workspace (ws_branch_exists (env_workspace env) (integrate_branch g))) (\<lambda>branch.
       if branch then throw (IllegalErr
         ''integrate branch exists without a worktree; remove leftover meshloop worktrees and retry'')
       else bindR (effect (pf_create_dir_all (env_platform env) (graph_dir env g))) (\<lambda>_.
         workspace (ws_add_worktree_from (env_workspace env) (integrate_path env g)
           (integrate_branch g) base))))"

definition start_new :: "'w run_env \<Rightarrow> task_graph \<Rightarrow> string \<Rightarrow> ('w, unit) run" where
  "start_new env graph base =
     (let g = graph_id graph in
      bindR (port (ws_worktree_exists (env_workspace env) (integrate_path env g))) (\<lambda>there.
      bindR (if there then ret True
             else workspace (ws_branch_exists (env_workspace env) (integrate_branch g))) (\<lambda>leftover.
      if leftover then throw (IllegalErr ''integrate worktree/branch exists without a runs row'')
      else
        bindR (effect (pf_create_dir_all (env_platform env) (graph_dir env g))) (\<lambda>_.
        bindR (workspace (ws_add_worktree_from (env_workspace env) (integrate_path env g)
                 (integrate_branch g) base)) (\<lambda>_.
        bindR (plan_json env graph) (\<lambda>json.
        bindR (stamp env) (\<lambda>now.
        bindR (store_write env (db_save_run
          \<lparr>run_graph_id = g, run_plan_state = AwaitingPlanReview, run_base = base,
           run_integrate_ref = integrate_branch g, run_plan_json = json,
           run_plan_id = plan_id_of env json, run_created_at = now, run_review_note = None\<rparr>)) (\<lambda>_.
        bindR (write_plan_file env json) (\<lambda>_.
          set_active (Some g))))))))))"

definition start_existing ::
    "'w run_env \<Rightarrow> task_graph \<Rightarrow> run_row \<Rightarrow> ('w, unit) run" where
  "start_existing env graph row =
     (let g = graph_id graph in
      if run_plan_state row = PlanDeclined then throw (PlanDeclinedErr g)
      else
        bindR (handled (tasks env g)) (\<lambda>res.
          let ts = (case res of Inr ts \<Rightarrow> ts | Inl _ \<Rightarrow> Map.empty) in
          if ts = Map.empty then
            bindR (ensure_integrate env g (run_base row)) (\<lambda>_. set_active (Some g))
          else
            throw (DuplicateGraph g
              (list_ex (\<lambda>n. case ts (n_id n) of Some s \<Rightarrow> \<not> terminal s | None \<Rightarrow> True) (nodes graph)))))"

definition start_run :: "'w run_env \<Rightarrow> task_graph \<Rightarrow> string \<Rightarrow> ('w, unit) run" where
  "start_run env graph0 base =
     bindR (require_legacy_mutation env (graph_id graph0)) (\<lambda>_.
     bindR (require_valid env graph0) (\<lambda>_.
       let graph = assign_tiers default_assign_tier graph0 in
       bindR (load_run env (graph_id graph)) (\<lambda>existing.
         case existing of
           Some row \<Rightarrow> start_existing env graph row
         | None \<Rightarrow> start_new env graph base)))"

definition stage_plan :: "'w run_env \<Rightarrow> task_graph \<Rightarrow> string \<Rightarrow> ('w, string) run" where
  "stage_plan env graph0 base =
     bindR (require_legacy_mutation env (graph_id graph0)) (\<lambda>_.
     bindR (require_valid env graph0) (\<lambda>_.
       let graph = assign_tiers default_assign_tier graph0; g = graph_id graph in
       bindR (plan_json env graph) (\<lambda>json.
       bindR (load_run env g) (\<lambda>existing.
       bindR (case existing of
                Some row \<Rightarrow>
                  if run_plan_state row = PlanAccepted then throw (PlanAlreadyAccepted g)
                  else store_write env (db_save_run
                    (row\<lparr>run_plan_json := json, run_plan_id := plan_id_of env json,
                         run_plan_state := AwaitingPlanReview, run_base := base\<rparr>))
              | None \<Rightarrow>
                  bindR (stamp env) (\<lambda>now.
                    store_write env (db_save_run
                      \<lparr>run_graph_id = g, run_plan_state = AwaitingPlanReview, run_base = base,
                       run_integrate_ref = integrate_branch g, run_plan_json = json,
                       run_plan_id = plan_id_of env json, run_created_at = now,
                       run_review_note = None\<rparr>))) (\<lambda>_.
       bindR (write_plan_file env json) (\<lambda>_.
       bindR (set_active (Some g)) (\<lambda>_. ret g)))))))"

definition decide_plan ::
    "'w run_env \<Rightarrow> string \<Rightarrow> plan_decision \<Rightarrow> string option \<Rightarrow> ('w, plan_state) run" where
  "decide_plan env g decision note =
     bindR (require_legacy_mutation env g) (\<lambda>_.
     bindR (load_run env g) (\<lambda>found.
     bindR (of_option (MissingGraph g) found) (\<lambda>row.
     bindR (of_res (\<lambda>_. IllegalErr (''illegal plan decision '' @
                dbg_plan_decision (env_platform env) decision @ '' from '' @
                plan_state_name (run_plan_state row)))
              (plan_transition (run_plan_state row) decision)) (\<lambda>nxt.
     bindR (store_write env (db_save_run
              (row\<lparr>run_plan_state := nxt,
                   run_review_note := (if note = None then run_review_note row else note)\<rparr>))) (\<lambda>_.
     bindR (set_active (Some g)) (\<lambda>_. ret nxt))))))"

definition accept_plan :: "'w run_env \<Rightarrow> string \<Rightarrow> ('w, unit) run" where
  "accept_plan env g = bindR (decide_plan env g Accept None) (\<lambda>_. ret ())"

section \<open>Mutation of a plan\<close>

definition frozen :: "task_state \<Rightarrow> bool" where
  "frozen s \<longleftrightarrow>
     s = Running \<or> s = Verifying \<or> s = AwaitingReview \<or> s = Accepted \<or> s = Integrated"

definition mutation_guard ::
    "task_graph \<Rightarrow> (task_id \<rightharpoonup> task_state) \<Rightarrow> graph_mutation \<Rightarrow> ('w, unit) run" where
  "mutation_guard graph ts m =
     (case m of
        InsertPrerequisite target _ \<Rightarrow>
          (case ts target of
             Some s \<Rightarrow>
               if frozen s then
                 throw (IllegalErr (''cannot insert prerequisite for task '' @ show_word target @
                   '' in active state '' @ state_name s))
               else ret ()
           | None \<Rightarrow> ret ())
      | AppendFollowup src _ \<Rightarrow>
          if list_ex (\<lambda>n. n_id n = src) (nodes graph) then ret ()
          else throw (IllegalErr (''source task '' @ show_word src @ '' not found in graph'')))"

definition mutation_events ::
    "'w run_env \<Rightarrow> string \<Rightarrow> (task_id \<rightharpoonup> task_state) \<Rightarrow> graph_mutation \<Rightarrow>
     ('w, transition_record list) run" where
  "mutation_events env g ts m =
     (case m of
        InsertPrerequisite target _ \<Rightarrow>
          if ts target = Some Ready then
            bindR (of_res (\<lambda>_. IllegalErr ''Ready + GraphMutated is illegal'')
                     (transition Ready GraphMutated)) (\<lambda>next_state.
            bindR (stamp env) (\<lambda>now.
              ret [\<lparr>tr_graph_id = g, tr_task_id = target, tr_attempt_id = None, tr_from = Ready,
                tr_to = next_state, tr_event = GraphMutated,
                tr_reason = Some ''prerequisite inserted; reverting to pending'',
                tr_executor = ''meshloop'', tr_occurred_at = now\<rparr>]))
          else ret []
      | AppendFollowup _ _ \<Rightarrow> ret [])"

definition mutate_plan ::
    "'w run_env \<Rightarrow> string \<Rightarrow> graph_mutation \<Rightarrow> bool \<Rightarrow> ('w, task_graph) run" where
  "mutate_plan env g m require_review =
     bindR (require_legacy_mutation env g) (\<lambda>_.
     bindR (load_run env g) (\<lambda>found.
     bindR (of_option (MissingGraph g) found) (\<lambda>row.
     bindR (graph_of env g) (\<lambda>graph.
     bindR (tasks env g) (\<lambda>ts.
     bindR (mutation_guard graph ts m) (\<lambda>_.
     bindR (of_res (\<lambda>e. IllegalErr (''mutation rejected: '' @ dbg_mutation_error (env_platform env) e))
              (apply_mutation (pf_topo (env_platform env)) graph m)) (\<lambda>mutated.
       let graph' = assign_tiers default_assign_tier mutated in
     bindR (mutation_events env g ts m) (\<lambda>evs.
     bindR (plan_json env graph') (\<lambda>json.
     bindR (store_write env (db_save_run_and_events
              (row\<lparr>run_plan_json := json, run_plan_id := plan_id_of env json,
                   run_plan_state := (if require_review then AwaitingPlanReview else run_plan_state row)\<rparr>)
              evs)) (\<lambda>_.
     bindR (write_plan_file env json) (\<lambda>_.
       ret graph')))))))))))"

section \<open>Recovery by an operator\<close>

definition crash_fail_node ::
    "'w run_env \<Rightarrow> string \<Rightarrow> (task_id \<rightharpoonup> task_state) \<Rightarrow> task_node \<Rightarrow> ('w, unit) run" where
  "crash_fail_node env g ts n =
     (if ts (n_id n) \<noteq> Some Running then ret ()
      else bindR (latest_attempt env g (n_id n)) (\<lambda>att.
        bindR (case att of Some a \<Rightarrow> attempt_driver_dead env a | None \<Rightarrow> ret True) (\<lambda>dead.
          if dead then
            bindR (append_ev env g (n_id n) (map_option at_attempt_id att) Running
                     HarnessCrashedOrTimeout (Some ''resume: no live process'')) (\<lambda>_. ret ())
          else ret ())))"

definition crash_fail :: "'w run_env \<Rightarrow> string \<Rightarrow> ('w, unit) run" where
  "crash_fail env g =
     bindR (tasks env g) (\<lambda>ts.
     bindR (graph_of env g) (\<lambda>graph.
       for_each (crash_fail_node env g ts) (nodes graph)))"

definition retry_failed_node ::
    "'w run_env \<Rightarrow> string \<Rightarrow> (task_id \<rightharpoonup> task_state) \<Rightarrow> task_node \<Rightarrow> ('w, unit) run" where
  "retry_failed_node env g ts n =
     (if ts (n_id n) \<noteq> Some Failed then ret ()
      else bindR (attempts_for_task env g (n_id n)) (\<lambda>as.
        if of_nat (length as) < max_retries (env_limits env) then
          bindR (append_ev env g (n_id n) None Failed RetryAuthorized (Some ''resume --retry'')) (\<lambda>_.
            ret ())
        else ret ()))"

definition retry_failed :: "'w run_env \<Rightarrow> string \<Rightarrow> ('w, unit) run" where
  "retry_failed env g =
     bindR (graph_of env g) (\<lambda>graph.
     bindR (tasks env g) (\<lambda>ts.
       for_each (retry_failed_node env g ts) (nodes graph)))"

definition wipe_attempt :: "'w run_env \<Rightarrow> string \<Rightarrow> attempt_row \<Rightarrow> ('w, unit) run" where
  "wipe_attempt env g a =
     bindR (case Option.bind (at_harness a) (map_of (env_harnesses env)) of
              None \<Rightarrow> ret ()
            | Some h \<Rightarrow>
                bindR (resolve_pane env a) (\<lambda>pane.
                bindR (port (h_session_live h (attempt_handle a pane))) (\<lambda>live.
                  if live = Dead then ret ()
                  else bindR (port (h_cancel h (attempt_handle a pane))) (\<lambda>_. ret ())))) (\<lambda>_.
     bindR (case at_worktree_path a of
              None \<Rightarrow> ret ()
            | Some wt \<Rightarrow>
                bindR (port (ws_remove_worktree (env_workspace env) wt)) (\<lambda>_. ret ())) (\<lambda>_.
     bindR (port (ws_delete_branch (env_workspace env)
              (attempt_branch g (at_task_id a) (at_attempt_id a)))) (\<lambda>_. ret ())))"

text \<open>\<open>reset_graph_execution\<close>: three statements, each of which SQLite may refuse.\<close>

definition reset_execution :: "'w run_env \<Rightarrow> string \<Rightarrow> ('w, unit) run" where
  "reset_execution env g =
     bindR (store_read env (\<lambda>db. reject_bound_graph db g)) (\<lambda>_.
     bindR (store_write env (\<lambda>db. Inr (reset_evidence g db))) (\<lambda>_.
     bindR (store_write env (\<lambda>db. Inr (reset_events g db))) (\<lambda>_.
       store_write env (\<lambda>db. Inr (reset_attempts g db)))))"

definition restart :: "'w run_env \<Rightarrow> string \<Rightarrow> ('w, unit) run" where
  "restart env g =
     bindR (require_legacy_mutation env g) (\<lambda>_.
     bindR (load_run env g) (\<lambda>found.
     bindR (of_option (MissingGraph g) found) (\<lambda>row.
     if run_plan_state row \<noteq> PlanAccepted then
       throw (IllegalErr ''resume --restart requires a PlanAccepted graph'')
     else
       bindR clear_pending (\<lambda>_.
       bindR (store_read env (\<lambda>db. Inr (db_attempts_for_graph db g))) (\<lambda>as.
       bindR (for_each (wipe_attempt env g) as) (\<lambda>_.
       bindR (port (ws_worktree_exists (env_workspace env) (integrate_path env g))) (\<lambda>there.
       bindR (if there then
                bindR (port (ws_reset_hard (env_workspace env) (integrate_path env g) (run_base row)))
                  (\<lambda>_. ret ())
              else ret ()) (\<lambda>_.
       bindR (reset_execution env g) (\<lambda>_.
         set_active (Some g))))))))))"

definition resume ::
    "nat \<Rightarrow> 'w run_env \<Rightarrow> string \<Rightarrow> bool \<Rightarrow> bool \<Rightarrow> ('w, idle_reason option) run" where
  "resume fuel env g retry restart_run =
     bindR (require_legacy_mutation env g) (\<lambda>_.
     if retry \<and> restart_run then
       throw (IllegalErr ''use either --retry or --restart, not both'')
     else
       bindR (set_active (Some g)) (\<lambda>_.
       bindR (if restart_run then restart env g
              else bindR (crash_fail env g) (\<lambda>_.
                if retry then retry_failed env g else ret ())) (\<lambda>_.
         loop_until_idle fuel env)))"

section \<open>Cancelling and accepting\<close>

definition cancel_worker ::
    "'w run_env \<Rightarrow> attempt_row option \<Rightarrow> task_state \<Rightarrow> ('w, unit) run" where
  "cancel_worker env att state =
     (case (if state = Running then att else None) of
        None \<Rightarrow> ret ()
      | Some a \<Rightarrow>
          (case Option.bind (at_harness a) (map_of (env_harnesses env)) of
             None \<Rightarrow> ret ()
           | Some h \<Rightarrow>
               bindR (if at_pane_id a \<noteq> None then ret True
                      else case at_pid a of
                        None \<Rightarrow> ret False
                      | Some pid \<Rightarrow>
                          bindR (port (env_is_live env \<lparr>ph_pid = pid, ph_image_name = at_image_name a\<rparr>))
                            (\<lambda>l. ret (l = Live))) (\<lambda>should.
                 if should then
                   bindR (port (h_cancel h \<lparr>hh_attempt_id = at_attempt_id a, hh_pid = at_pid a,
                                  hh_pane_id = at_pane_id a\<rparr>)) (\<lambda>_. ret ())
                 else ret ())))"

definition cancel_one ::
    "'w run_env \<Rightarrow> string \<Rightarrow> (task_id \<rightharpoonup> task_state) \<Rightarrow> task_id \<Rightarrow> ('w, unit) run" where
  "cancel_one env g ts t =
     (let state = state_of ts t in
      if state = Cancelled \<or> state = Integrated then ret ()
      else
        (case transition state Cancel of
           Inl _ \<Rightarrow> ret ()
         | Inr _ \<Rightarrow>
             bindR (latest_attempt env g t) (\<lambda>att.
             bindR (cancel_worker env att state) (\<lambda>_.
             bindR (append_ev env g t (map_option at_attempt_id att) state Cancel None) (\<lambda>_.
               ret ())))))"

definition cancel_run :: "'w run_env \<Rightarrow> string \<Rightarrow> task_id option \<Rightarrow> ('w, unit) run" where
  "cancel_run env g task =
     bindR (require_legacy_mutation env g) (\<lambda>_.
     bindR (set_active (Some g)) (\<lambda>_.
     bindR (graph_of env g) (\<lambda>graph.
     bindR (tasks env g) (\<lambda>ts.
       for_each (cancel_one env g ts)
         (case task of Some t \<Rightarrow> [t] | None \<Rightarrow> map n_id (nodes graph))))))"

definition accept_human :: "'w run_env \<Rightarrow> task_id \<Rightarrow> string \<Rightarrow> ('w, unit) run" where
  "accept_human env t who =
     (if trim who = [] then throw EmptyIdentity
      else
        bindR get_active (\<lambda>active.
        bindR (of_option (MissingGraph ''no active graph'') active) (\<lambda>g.
        bindR (require_legacy_mutation env g) (\<lambda>_.
        bindR (tasks env g) (\<lambda>ts.
          let state = state_of ts t in
          if state = Accepted \<or> state = Integrated then throw (AlreadyAccepted t)
          else if state \<noteq> AwaitingReview then throw (NotAwaitingReview t)
          else
            bindR (latest_attempt env g t) (\<lambda>att.
            bindR (of_option (IllegalErr ''no attempt to accept'') att) (\<lambda>a.
            bindR (case at_worktree_path a of
                     None \<Rightarrow> ret None
                   | Some wt \<Rightarrow>
                       bindR (port (ws_head (env_workspace env) wt)) (\<lambda>h. ret (res_ok h))) (\<lambda>hd'.
            bindR (stamp env) (\<lambda>now.
            bindR (record_evidence_row env (HumanAcceptance
              \<lparr>ha_candidate = \<lparr>cr_task_id = t, cr_attempt_id = at_attempt_id a,
                 cr_revision = (case hd' of Some r \<Rightarrow> r | None \<Rightarrow> ''unknown'')\<rparr>,
               ha_accepted_by = who, ha_accepted_at = now\<rparr>)) (\<lambda>_.
            bindR (append_ev env g t (Some (at_attempt_id a)) AwaitingReview HumanAcceptanceRecorded
                     (Some (''accepted-by:'' @ who))) (\<lambda>_. ret ())))))))))))"

section \<open>Landing\<close>

definition land_worktree :: "'w run_env \<Rightarrow> string \<Rightarrow> string \<Rightarrow> ('w, unit) run" where
  "land_worktree env worktree git_ref =
     bindR (workspace (ws_status_porcelain (env_workspace env) (ws_repo_root (env_workspace env)))) (\<lambda>dirty.
     if trim dirty \<noteq> [] then throw (WorkspaceErr Dirty)
     else
       bindR (workspace (ws_head (env_workspace env) worktree)) (\<lambda>head.
       bindR (workspace (ws_checkout_ref (env_workspace env) git_ref)) (\<lambda>_.
       bindR (workspace (ws_is_ancestor (env_workspace env) git_ref head)) (\<lambda>anc.
         if anc then workspace (ws_merge_ff_only (env_workspace env) head)
         else workspace (ws_merge_no_ff (env_workspace env) head)))))"

definition integrate_into :: "'w run_env \<Rightarrow> string \<Rightarrow> string \<Rightarrow> ('w, unit) run" where
  "integrate_into env g git_ref =
     bindR (require_legacy_mutation env g) (\<lambda>_. land_worktree env (integrate_path env g) git_ref)"

text \<open>
  The worklist of \<open>deliverable_closure\<close>. The code takes the tagged nodes off a hash set, in an
  order of its own; here it is the order of the plan, which decides nothing but the order in which
  the worklist grows. \<open>fresh\<close> is the inner loop over the dependencies of one
  node, and \<open>closure_loop\<close> the outer loop, with fuel. \<open>None\<close> when the fuel does not suffice.
\<close>

fun fresh :: "task_id list \<Rightarrow> task_id list \<Rightarrow> task_id list" where
  "fresh needed [] = []"
| "fresh needed (d # ds) =
     (if d \<in> set needed then fresh needed ds else d # fresh (d # needed) ds)"

primrec closure_loop ::
    "nat \<Rightarrow> (task_id \<Rightarrow> task_id list) \<Rightarrow> task_id list \<Rightarrow> task_id list \<Rightarrow> task_id list option" where
  "closure_loop 0 deps stack needed = (if stack = [] then Some needed else None)"
| "closure_loop (Suc k) deps stack needed =
     (case stack of
        [] \<Rightarrow> Some needed
      | i # rest \<Rightarrow>
          (let pushed = fresh needed (deps i)
           in closure_loop k deps (rev pushed @ rest) (needed @ pushed)))"

definition deps_of :: "task_graph \<Rightarrow> task_id \<Rightarrow> task_id list" where
  "deps_of graph i =
     (case map_of (rev (map (\<lambda>n. (n_id n, n_depends_on n)) (nodes graph))) i of
        Some ds \<Rightarrow> ds | None \<Rightarrow> [])"

definition tagged :: "task_graph \<Rightarrow> string \<Rightarrow> task_id list" where
  "tagged graph tag =
     remdups (map n_id (filter (\<lambda>n. n_deliverable n = Some tag) (nodes graph)))"

definition closure_fuel :: "task_graph \<Rightarrow> string \<Rightarrow> nat" where
  "closure_fuel graph tag =
     length (tagged graph tag) + length (concat (map n_depends_on (nodes graph)))"

definition deliverable_closure ::
    "'w run_env \<Rightarrow> task_graph \<Rightarrow> string \<Rightarrow> orchestrator_error + (task_id list \<times> task_id list)" where
  "deliverable_closure env graph tag =
     (if tagged graph tag = [] then Inl (UnknownDeliverable tag)
      else
        let needed = (case closure_loop (closure_fuel graph tag) (deps_of graph) (tagged graph tag)
                             (tagged graph tag) of
                        Some ns \<Rightarrow> ns | None \<Rightarrow> [])
        in case try_topological_order (pf_topo (env_platform env)) graph of
             Inl e \<Rightarrow> Inl (IllegalErr (dbg_graph_error (env_platform env) e))
           | Inr all \<Rightarrow>
               (let order = filter (\<lambda>i. i \<in> set needed) all
                in Inr (order, filter (\<lambda>i. i \<notin> set (tagged graph tag)) order)))"

record deliverable_view =
  dv_tag :: string
  dv_worktree :: string
  dv_branch :: string
  dv_head :: string
  dv_nodes :: "task_id list"
  dv_outside_dependencies :: "task_id list"

definition replay_node ::
    "'w run_env \<Rightarrow> string \<Rightarrow> string \<Rightarrow> task_id \<Rightarrow> ('w, unit) run" where
  "replay_node env g wt i =
     bindR (latest_attempt env g i) (\<lambda>att.
     bindR (of_option (IllegalErr (''task '' @ show_word i @ '' has no attempt'')) att) (\<lambda>a.
     bindR (of_option (IllegalErr (''task '' @ show_word i @ '' attempt '' @
              show_word (at_attempt_id a) @ '' has no recorded base revision'')) (base_of a)) (\<lambda>base.
     bindR (port (ws_cherry_pick_range (env_workspace env) wt base
              (attempt_branch g i (at_attempt_id a)))) (\<lambda>res.
       of_res (\<lambda>e. if e = Conflict then DeliverableConflict i else WorkspaceErr e) res))))"

definition deliverable_ready ::
    "(task_id \<rightharpoonup> task_state) \<Rightarrow> task_id \<Rightarrow> ('w, unit) run" where
  "deliverable_ready ts i =
     (let state = state_of ts i in
      if state = Accepted \<or> state = Integrated then ret ()
      else throw (DeliverableNotReady i state))"

definition prepare_deliverable ::
    "'w run_env \<Rightarrow> string \<Rightarrow> string \<Rightarrow> ('w, deliverable_view) run" where
  "prepare_deliverable env g tag =
     bindR (require_legacy_mutation env g) (\<lambda>_.
     if \<not> graph_id_is_legal tag then throw (UnknownDeliverable tag)
     else
       bindR (load_run env g) (\<lambda>found.
       bindR (of_option (MissingGraph g) found) (\<lambda>row.
       bindR (graph_of env g) (\<lambda>graph.
       bindR (of_res (\<lambda>e. e) (deliverable_closure env graph tag)) (\<lambda>(order, outside).
       bindR (tasks env g) (\<lambda>ts.
       bindR (for_each (deliverable_ready ts) order) (\<lambda>_.
         let wt = deliverable_path env g tag; branch = deliverable_branch g tag in
       bindR (workspace (ws_remove_worktree (env_workspace env) wt)) (\<lambda>_.
       bindR (workspace (ws_prune (env_workspace env))) (\<lambda>_.
       bindR (workspace (ws_delete_branch (env_workspace env) branch)) (\<lambda>_.
       bindR (effect (pf_create_dir_all (env_platform env) (graph_dir env g))) (\<lambda>_.
       bindR (workspace (ws_add_worktree_from (env_workspace env) wt branch (run_base row))) (\<lambda>_.
       bindR (for_each (replay_node env g wt) order) (\<lambda>_.
       bindR (workspace (ws_head (env_workspace env) wt)) (\<lambda>head.
         ret \<lparr>dv_tag = tag, dv_worktree = wt, dv_branch = branch, dv_head = head,
              dv_nodes = order, dv_outside_dependencies = outside\<rparr>))))))))))))))"

definition integrate_deliverable_into ::
    "'w run_env \<Rightarrow> string \<Rightarrow> string \<Rightarrow> string \<Rightarrow> ('w, unit) run" where
  "integrate_deliverable_into env g tag git_ref =
     bindR (require_legacy_mutation env g) (\<lambda>_.
       let wt = deliverable_path env g tag in
       bindR (port (ws_worktree_exists (env_workspace env) wt)) (\<lambda>there.
       bindR (if there then ret () else bindR (prepare_deliverable env g tag) (\<lambda>_. ret ())) (\<lambda>_.
         land_worktree env wt git_ref)))"

section \<open>Selection and export\<close>

definition resolve_graph_id :: "'w run_env \<Rightarrow> string option \<Rightarrow> ('w, string) run" where
  "resolve_graph_id env requested =
     (case requested of
        Some i \<Rightarrow> ret i
      | None \<Rightarrow>
          bindR (store_read env db_list_runs) (\<lambda>_.
          bindR (store_read env db_latest_run) (\<lambda>row.
            case row of
              Some r \<Rightarrow> ret (run_graph_id r)
            | None \<Rightarrow> throw (MissingGraph ''no runs''))))"

definition export_from ::
    "'w run_env \<Rightarrow> string \<Rightarrow> string \<Rightarrow> string \<Rightarrow> ('w, git_export option) run" where
  "export_from env base wt branch =
     bindR (port (ws_head (env_workspace env) wt)) (\<lambda>h.
       case h of
         Inl _ \<Rightarrow> ret None
       | Inr head \<Rightarrow>
           if trim head = [] then ret None
           else bindR (port (ws_unified_diff (env_workspace env) wt base)) (\<lambda>d.
             ret (Some \<lparr>ge_worktree_path = wt, ge_branch_ref = ''refs/heads/'' @ branch,
               ge_commit_sha = to_ascii_lowercase head,
               ge_patch_sha256 = pf_sha256 (env_platform env) (or_empty (res_ok d))\<rparr>)))"

definition export_attempt ::
    "'w run_env \<Rightarrow> string \<Rightarrow> string \<Rightarrow> task_node \<Rightarrow> ('w, git_export option) run" where
  "export_attempt env g base n =
     bindR (handled (latest_attempt env g (n_id n))) (\<lambda>res.
       case res of
         Inr (Some a) \<Rightarrow>
           (case at_worktree_path a of
              None \<Rightarrow> ret None
            | Some wt \<Rightarrow>
                bindR (port (ws_worktree_exists (env_workspace env) wt)) (\<lambda>there.
                  if there then export_from env base wt (attempt_branch g (n_id n) (at_attempt_id a))
                  else ret None))
       | _ \<Rightarrow> ret None)"

text \<open>The commit id is hexadecimal, so lower-casing it is lower-casing ASCII.\<close>

definition export_git_metadata :: "'w run_env \<Rightarrow> string \<Rightarrow> ('w, git_export option) run" where
  "export_git_metadata env g =
     (if \<not> graph_id_is_legal g then throw (StoreErr PlanRevisionMismatch)
      else
        bindR (require_unbound_graph env g) (\<lambda>_.
        bindR (load_run env g) (\<lambda>found.
        bindR (of_option (MissingGraph g) found) (\<lambda>row.
        bindR (port (ws_worktree_exists (env_workspace env) (integrate_path env g))) (\<lambda>there.
        bindR (if there then export_from env (run_base row) (integrate_path env g) (integrate_branch g)
               else ret None) (\<lambda>ex.
          case ex of
            Some x \<Rightarrow> ret (Some x)
          | None \<Rightarrow>
              bindR (handled (graph_of env g)) (\<lambda>res.
                case res of
                  Inl _ \<Rightarrow> ret None
                | Inr graph \<Rightarrow>
                    first_some (export_attempt env g (run_base row)) (rev (nodes graph)))))))))"

section \<open>What a deliverable needs\<close>

lemma set_fresh: "set (fresh needed ds) = set ds - set needed"
  by (induction ds arbitrary: needed) auto

lemma distinct_fresh: "distinct (fresh needed ds)"
  by (induction ds arbitrary: needed) (auto simp: set_fresh)

text \<open>Every turn of the outer loop takes one node off the stack, and a node is pushed once.\<close>

lemma closure_loop_total:
  assumes "finite U" "\<And>i. set (deps i) \<subseteq> U" "length stack + card (U - set needed) \<le> k"
  shows "\<exists>ns. closure_loop k deps stack needed = Some ns"
  using assms(3)
proof (induction k arbitrary: stack needed)
  case (Suc k)
  show ?case
  proof (cases stack)
    case (Cons i rest)
    define pushed where "pushed = fresh needed (deps i)"
    have sub: "set pushed \<subseteq> U - set needed"
      unfolding pushed_def set_fresh using assms(2) by blast
    have "card (U - set (needed @ pushed)) + card (set pushed) = card (U - set needed)"
    proof -
      have "U - set needed = (U - set (needed @ pushed)) \<union> set pushed" using sub by auto
      moreover have "(U - set (needed @ pushed)) \<inter> set pushed = {}" by auto
      ultimately show ?thesis using assms(1) by (metis card_Un_disjoint finite_Diff finite_set)
    qed
    moreover have "card (set pushed) = length pushed"
      by (simp add: pushed_def distinct_card distinct_fresh)
    ultimately have "length (rev pushed @ rest) + card (U - set (needed @ pushed)) \<le> k"
      using Suc.prems Cons by simp
    then have "\<exists>ns. closure_loop k deps (rev pushed @ rest) (needed @ pushed) = Some ns"
      by (rule Suc.IH)
    then show ?thesis by (simp add: Cons pushed_def Let_def)
  qed simp
qed simp

definition dep_edges :: "(task_id \<Rightarrow> task_id list) \<Rightarrow> (task_id \<times> task_id) set" where
  "dep_edges deps = {(i, d). d \<in> set (deps i)}"

lemma closure_loop_within:
  assumes "closure_loop k deps stack needed = Some ns" "set stack \<subseteq> set needed"
  shows "set needed \<subseteq> set ns \<and> set ns \<subseteq> (dep_edges deps)\<^sup>* `` set needed"
  using assms
proof (induction k arbitrary: stack needed)
  case 0
  then show ?case by (auto split: if_splits)
next
  case (Suc k)
  show ?case
  proof (cases stack)
    case Nil
    then show ?thesis using Suc.prems by auto
  next
    case (Cons i rest)
    define pushed where "pushed = fresh needed (deps i)"
    have run: "closure_loop k deps (rev pushed @ rest) (needed @ pushed) = Some ns"
      using Suc.prems Cons by (simp add: pushed_def Let_def)
    have edges: "x \<in> set pushed \<Longrightarrow> (i, x) \<in> dep_edges deps" for x
      by (simp add: pushed_def set_fresh dep_edges_def)
    have IH: "set (needed @ pushed) \<subseteq> set ns \<and> set ns \<subseteq> (dep_edges deps)\<^sup>* `` set (needed @ pushed)"
      by (rule Suc.IH [OF run]) (use Suc.prems Cons in auto)
    have "(dep_edges deps)\<^sup>* `` set (needed @ pushed) \<subseteq> (dep_edges deps)\<^sup>* `` set needed"
      using edges Suc.prems(2) Cons by (auto intro: converse_rtrancl_into_rtrancl)
    then show ?thesis using IH by auto
  qed
qed

lemma closure_loop_closed:
  assumes "closure_loop k deps stack needed = Some ns" "set stack \<subseteq> set needed"
    and "\<forall>i \<in> set needed - set stack. set (deps i) \<subseteq> set needed"
  shows "\<forall>i \<in> set ns. set (deps i) \<subseteq> set ns"
  using assms
proof (induction k arbitrary: stack needed)
  case 0
  then show ?case by (auto split: if_splits)
next
  case (Suc k)
  show ?case
  proof (cases stack)
    case Nil
    then show ?thesis using Suc.prems by auto
  next
    case (Cons i rest)
    define pushed where "pushed = fresh needed (deps i)"
    have "closure_loop k deps (rev pushed @ rest) (needed @ pushed) = Some ns"
      using Suc.prems Cons by (simp add: pushed_def Let_def)
    then show ?thesis
      by (rule Suc.IH) (use Suc.prems Cons in \<open>auto simp: pushed_def set_fresh\<close>)
  qed
qed

lemma closure_loop_exact:
  assumes "closure_loop k deps start start = Some ns"
  shows "set ns = (dep_edges deps)\<^sup>* `` set start"
proof
  show "set ns \<subseteq> (dep_edges deps)\<^sup>* `` set start"
    using closure_loop_within [OF assms] by simp
  have closed: "\<forall>i \<in> set ns. set (deps i) \<subseteq> set ns" "set start \<subseteq> set ns"
    using closure_loop_closed [OF assms] closure_loop_within [OF assms] by simp_all
  have "(t, d) \<in> (dep_edges deps)\<^sup>* \<Longrightarrow> t \<in> set start \<Longrightarrow> d \<in> set ns" for t d
    by (induction rule: rtrancl_induct) (use closed in \<open>auto simp: dep_edges_def\<close>)
  then show "(dep_edges deps)\<^sup>* `` set start \<subseteq> set ns" by blast
qed

lemma dep_edges_graph:
  assumes "distinct (node_ids graph)"
  shows "dep_edges (deps_of graph) = (set (graph_edges graph))\<inverse>"
proof -
  let ?ps = "map (\<lambda>n. (n_id n, n_depends_on n)) (nodes graph)"
  have "distinct (map fst (rev ?ps))"
    using assms by (simp add: rev_map [symmetric] comp_def)
  then have m: "map_of (rev ?ps) i = Some ds \<longleftrightarrow>
      (\<exists>n \<in> set (nodes graph). n_id n = i \<and> n_depends_on n = ds)" for i ds
    using map_of_eq_Some_iff [of "rev ?ps" i ds] by auto
  have "d \<in> set (deps_of graph i) \<longleftrightarrow> (\<exists>n \<in> set (nodes graph). n_id n = i \<and> d \<in> set (n_depends_on n))"
    for d i
  proof -
    have "d \<in> set (deps_of graph i) \<longleftrightarrow> (\<exists>ds. map_of (rev ?ps) i = Some ds \<and> d \<in> set ds)"
      by (cases "map_of (rev ?ps) i") (auto simp: deps_of_def)
    then show ?thesis unfolding m by blast
  qed
  then show ?thesis by (auto simp: dep_edges_def set_graph_edges)
qed

lemma before_filter:
  assumes "before xs a b" "P a" "P b"
  shows "before (filter P xs) a b"
  using assms(1)
proof (induction xs)
  case (Cons x xs)
  show ?case
  proof (cases "before xs a b")
    case True
    then show ?thesis using Cons.IH before_tl by auto
  next
    case False
    then have "x = a \<and> b \<in> set xs"
      using Cons.prems unfolding before_def
      by (metis Suc_less_eq length_Cons less_Suc_eq_0_disj nth_Cons' nth_mem diff_Suc_1' not_less_zero
          less_nat_zero_code nat.distinct(1) not0_implies_Suc nth_Cons_Suc nth_Cons_0)
    then show ?thesis using assms(2,3) by (simp add: before_Cons)
  qed
qed (simp add: before_def)

lemma needed_found:
  "\<exists>ns. closure_loop (closure_fuel graph tag) (deps_of graph) (tagged graph tag) (tagged graph tag) = Some ns"
proof (rule closure_loop_total)
  let ?U = "set (concat (map n_depends_on (nodes graph)))"
  show "finite ?U" by simp
  show "set (deps_of graph i) \<subseteq> ?U" for i
  proof (cases "map_of (rev (map (\<lambda>n. (n_id n, n_depends_on n)) (nodes graph))) i")
    case (Some ds)
    then have "(i, ds) \<in> set (rev (map (\<lambda>n. (n_id n, n_depends_on n)) (nodes graph)))"
      by (rule map_of_SomeD)
    then show ?thesis using Some by (auto simp: deps_of_def)
  qed (simp add: deps_of_def)
  have "card (?U - set (tagged graph tag)) \<le> card ?U" by (rule card_mono) auto
  also have "\<dots> \<le> length (concat (map n_depends_on (nodes graph)))" by (rule card_length)
  finally show "length (tagged graph tag) + card (?U - set (tagged graph tag)) \<le> closure_fuel graph tag"
    by (simp add: closure_fuel_def)
qed

lemma deliverable_closure_Inr:
  assumes "topo_spec (pf_topo (env_platform env))"
    and "deliverable_closure env graph tag = Inr (order, outside)"
  shows "graph_wf graph \<and> distinct order \<and>
    set order = ((set (graph_edges graph))\<inverse>)\<^sup>* `` set (tagged graph tag) \<and>
    (\<forall>(d, i) \<in> set (graph_edges graph). i \<in> set order \<longrightarrow> before order d i) \<and>
    outside = filter (\<lambda>i. i \<notin> set (tagged graph tag)) order"
proof -
  obtain ns where ns: "closure_loop (closure_fuel graph tag) (deps_of graph) (tagged graph tag)
      (tagged graph tag) = Some ns"
    using needed_found by blast
  obtain every where ord: "try_topological_order (pf_topo (env_platform env)) graph = Inr every"
      "order = filter (\<lambda>i. i \<in> set ns) every"
      "outside = filter (\<lambda>i. i \<notin> set (tagged graph tag)) order"
    using assms(2) by (auto simp: deliverable_closure_def ns split: if_splits sum.splits)
  let ?R = "((set (graph_edges graph))\<inverse>)\<^sup>*"
  have topo: "graph_wf graph" "distinct every" "set every = set (node_ids graph)"
      "\<forall>(a, b) \<in> set (graph_edges graph). before every a b"
    using try_topological_order_Inr [OF assms(1) ord(1)] by auto
  have nsR: "set ns = ?R `` set (tagged graph tag)"
    using closure_loop_exact [OF ns] dep_edges_graph topo(1) by (simp add: graph_wf_def)
  have edge: "d \<in> set (node_ids graph)" if "(d, i) \<in> set (graph_edges graph)" for d i
    using that topo(1) by (auto simp: set_graph_edges graph_wf_def)
  have "(t, d) \<in> ?R \<Longrightarrow> t \<in> set (node_ids graph) \<Longrightarrow> d \<in> set (node_ids graph)" for t d
    by (induction rule: rtrancl_induct) (use edge in auto)
  then have "?R `` set (tagged graph tag) \<subseteq> set (node_ids graph)"
    by (auto simp: tagged_def)
  then have set: "set order = ?R `` set (tagged graph tag)"
    using ord(2) topo(3) nsR by auto
  have "before order d i" if "(d, i) \<in> set (graph_edges graph)" "i \<in> set order" for d i
  proof -
    have "d \<in> set order" using that set by (auto intro: rtrancl_into_rtrancl)
    then show ?thesis using that topo(4) ord(2) by (auto intro: before_filter)
  qed
  then show ?thesis using topo(1,2) set ord(3) ord(2) distinct_filter [OF topo(2)] by blast
qed

lemma closure_as_set:
  "((set (graph_edges graph))\<inverse>)\<^sup>* `` set (tagged graph tag) =
     {d. \<exists>n \<in> set (nodes graph). n_deliverable n = Some tag \<and> (d, n_id n) \<in> (set (graph_edges graph))\<^sup>*}"
proof -
  have "i \<in> set (tagged graph tag) \<longleftrightarrow>
      (\<exists>n \<in> set (nodes graph). n_id n = i \<and> n_deliverable n = Some tag)" for i
    by (auto simp: tagged_def)
  then show ?thesis by (auto simp: rtrancl_converse Image_iff)
qed

lemma deliverable_closure_defined:
  assumes "topo_spec (pf_topo (env_platform env))"
  shows "(\<exists>x. deliverable_closure env graph tag = Inr x) \<longleftrightarrow>
    graph_wf graph \<and> (\<exists>n \<in> set (nodes graph). n_deliverable n = Some tag)"
proof -
  have "tagged graph tag \<noteq> [] \<longleftrightarrow> (\<exists>n \<in> set (nodes graph). n_deliverable n = Some tag)"
    by (auto simp: tagged_def filter_empty_conv)
  moreover have "(\<exists>x. deliverable_closure env graph tag = Inr x) \<longleftrightarrow>
      tagged graph tag \<noteq> [] \<and> (\<exists>o'. try_topological_order (pf_topo (env_platform env)) graph = Inr o')"
    by (auto simp: deliverable_closure_def Let_def split: sum.split)
  ultimately show ?thesis
    using try_topological_order_Inr [OF assms] graph_wf_try_topological_order [OF assms] by blast
qed

text \<open>
  C15. A deliverable takes with it exactly what it needs, in an order that can be replayed: the
  worklist loop ends, an answer is given exactly for a valid plan in which the tag occurs, the
  answer lists each node once, it consists of the tagged nodes and everything they transitively
  depend on, no node comes before one of its dependencies, and the nodes reported as coming from
  outside the deliverable are those among them that do not carry the tag.
\<close>

theorem deliverable_closure_exact:
  assumes "topo_spec (pf_topo (env_platform env))"
  shows "((\<exists>x. deliverable_closure env graph tag = Inr x) \<longleftrightarrow>
      graph_wf graph \<and> (\<exists>n \<in> set (nodes graph). n_deliverable n = Some tag)) \<and>
    (deliverable_closure env graph tag = Inr (order, outside) \<longrightarrow>
      distinct order \<and>
      set order = {d. \<exists>n \<in> set (nodes graph). n_deliverable n = Some tag \<and>
        (d, n_id n) \<in> (set (graph_edges graph))\<^sup>*} \<and>
      (\<forall>n \<in> set (nodes graph). \<forall>d \<in> set (n_depends_on n).
        n_id n \<in> set order \<longrightarrow> before order d (n_id n)) \<and>
      outside = filter (\<lambda>i. \<forall>n \<in> set (nodes graph). n_id n = i \<longrightarrow> n_deliverable n \<noteq> Some tag) order)"
proof (intro conjI impI)
  show "(\<exists>x. deliverable_closure env graph tag = Inr x) \<longleftrightarrow>
      graph_wf graph \<and> (\<exists>n \<in> set (nodes graph). n_deliverable n = Some tag)"
    by (rule deliverable_closure_defined [OF assms])
next
  assume run: "deliverable_closure env graph tag = Inr (order, outside)"
  note c = deliverable_closure_Inr [OF assms run]
  have tag: "i \<in> set (tagged graph tag) \<longleftrightarrow>
      (\<exists>n \<in> set (nodes graph). n_id n = i \<and> n_deliverable n = Some tag)" for i
    by (auto simp: tagged_def)
  show "distinct order" using c by simp
  show "set order = {d. \<exists>n \<in> set (nodes graph). n_deliverable n = Some tag \<and>
      (d, n_id n) \<in> (set (graph_edges graph))\<^sup>*}"
    using c closure_as_set by simp
  show "\<forall>n \<in> set (nodes graph). \<forall>d \<in> set (n_depends_on n).
      n_id n \<in> set order \<longrightarrow> before order d (n_id n)"
    using c graph_edgeI by fast
  show "outside = filter (\<lambda>i. \<forall>n \<in> set (nodes graph). n_id n = i \<longrightarrow> n_deliverable n \<noteq> Some tag) order"
    using c by (auto simp: tag intro: filter_cong)
qed

definition tagged_graph :: task_graph where
  "tagged_graph = sample_graph\<lparr>nodes := update_node 2 (\<lambda>n. n\<lparr>n_deliverable := Some ''docs''\<rparr>) (nodes sample_graph)\<rparr>"

theorem deliverable_closure_exact_witness:
  "deliverable_closure sample_env tagged_graph ''docs'' = Inr ([1, 2], [1]) \<and>
   before [1, 2] (1 :: task_id) 2"
proof -
  have t: "topo_spec (pf_topo (env_platform sample_env))" by (simp add: env_eval ref_port_spec)
  have top: "pf_topo (env_platform sample_env) = ref_port" by (simp add: env_eval)
  have "try_topological_order ref_port tagged_graph = Inr [1, 2, 3]"
    by (simp add: tagged_graph_def graph_eval try_topological_order_def ref_port_def ref_toposort_def)
  moreover have tags: "tagged tagged_graph ''docs'' = [2]" "closure_fuel tagged_graph ''docs'' = 4"
      "deps_of tagged_graph 2 = [1]" "deps_of tagged_graph 1 = []"
    by (simp_all add: tagged_def closure_fuel_def deps_of_def tagged_graph_def sample_graph_def sample_node_def)
  moreover have "closure_loop 4 (deps_of tagged_graph) [2] [2] = Some [2, 1]"
    by (simp add: eval_nat_numeral tags)
  ultimately have run: "deliverable_closure sample_env tagged_graph ''docs'' = Inr ([1, 2], [1])"
    by (simp add: deliverable_closure_def top)
  have c: "\<forall>n \<in> set (nodes tagged_graph). \<forall>d \<in> set (n_depends_on n).
      n_id n \<in> set [1, 2] \<longrightarrow> before [1, 2] d (n_id n)"
    using deliverable_closure_exact [OF t, of tagged_graph "''docs''" "[1, 2]" "[1]"] run by blast
  have "sample_node 2 [1]\<lparr>n_deliverable := Some ''docs''\<rparr> \<in> set (nodes tagged_graph)"
    by (simp add: tagged_graph_def sample_graph_def sample_node_def)
  from bspec [OF c this] show ?thesis using run by (simp add: sample_node_def)
qed

end
