(* ===== verification/Engine_Run_Session.thy ===== *)
theory Engine_Run_Session
  imports Engine_Run_Control
begin

text \<open>
  The run loop over its lifetime: the operations of \<open>run_loop.rs\<close> as the steps of a session over one
  database, and what every session keeps true of the database.
\<close>

section \<open>Properties of the store kept by a method\<close>

text \<open>
  \<open>hoare I m J\<close>: a method started with a store that satisfies \<open>I\<close> leaves one that satisfies \<open>J\<close>,
  whether it returns or fails.
\<close>

definition hoare :: "(sqlite_store \<Rightarrow> bool) \<Rightarrow> ('w, 'a) run \<Rightarrow> (sqlite_store \<Rightarrow> bool) \<Rightarrow> bool" where
  "hoare I m J \<longleftrightarrow> (\<forall>s. I (st_store s) \<longrightarrow> J (st_store (snd (m s))))"

lemma hoare_bind: "hoare I m K \<Longrightarrow> (\<And>a. hoare K (k a) J) \<Longrightarrow> (\<And>db. K db \<Longrightarrow> J db) \<Longrightarrow> hoare I (bindR m k) J"
  unfolding hoare_def snd_bindR by (fastforce split: prod.splits sum.splits)

lemma hoare_reads_bind:
  assumes "reads m R" "\<And>a. hoare (\<lambda>db. I db \<and> R db a) (k a) J" "\<And>db. I db \<Longrightarrow> J db"
  shows "hoare I (bindR m k) J"
  unfolding hoare_def
proof (intro allI impI)
  fix s :: "'a run_state" assume i: "I (st_store s)"
  obtain r s' where b: "bindR m k s = (r, s')" by (cases "bindR m k s")
  have "J (st_store s')"
    using b assms(1)
  proof (cases rule: reads_bindE)
    case (error e)
    then show ?thesis using assms(3) i by simp
  next
    case (go a s1)
    then have "I (st_store s1) \<and> R (st_store s1) a" using i by simp
    then have "J (st_store (snd (k a s1)))" using assms(2) unfolding hoare_def by blast
    then show ?thesis using go by simp
  qed
  then show "J (st_store (snd (bindR m k s)))" using b by simp
qed

lemma hoare_fact: "(\<And>db. I db \<Longrightarrow> F) \<Longrightarrow> (F \<Longrightarrow> hoare I m J) \<Longrightarrow> hoare I m J"
  by (auto simp: hoare_def)

lemma hoare_cons: "hoare I m J \<Longrightarrow> (\<And>db. I' db \<Longrightarrow> I db) \<Longrightarrow> (\<And>db. J db \<Longrightarrow> J' db) \<Longrightarrow> hoare I' m J'"
  by (auto simp: hoare_def)

lemma hoare_control:
  "(b \<Longrightarrow> hoare I x J) \<Longrightarrow> (\<not> b \<Longrightarrow> hoare I y J) \<Longrightarrow> hoare I (if b then x else y) J"
  "(\<And>e. r = Inl e \<Longrightarrow> hoare I (f e) J) \<Longrightarrow> (\<And>a. r = Inr a \<Longrightarrow> hoare I (h a) J) \<Longrightarrow>
     hoare I (case r of Inl e \<Rightarrow> f e | Inr a \<Rightarrow> h a) J"
  "(x' = None \<Longrightarrow> hoare I n J) \<Longrightarrow> (\<And>a. x' = Some a \<Longrightarrow> hoare I (sm a) J) \<Longrightarrow>
     hoare I (case x' of None \<Rightarrow> n | Some a \<Rightarrow> sm a) J"
  "(\<And>v. v = lv \<Longrightarrow> hoare I (lf v) J) \<Longrightarrow> hoare I (let v = lv in lf v) J"
  by (auto split: sum.splits option.splits)

lemma hoare_write:
  "(\<And>db db'. I db \<Longrightarrow> f db = Inr db' \<Longrightarrow> J db') \<Longrightarrow> (\<And>db. I db \<Longrightarrow> J db) \<Longrightarrow> hoare I (store_write env f) J"
  by (auto simp: hoare_def store_write_def store_fault_def bindR_def port_def get_store_def put_store_def
      of_res_def ret_def throw_def split: prod.splits sum.splits option.splits)

section \<open>The invariant of the store\<close>

text \<open>
  Every log is sound, and every stored plan that can be read back names each task once. The second
  half rests on what \<open>serde_json\<close> is used for: text produced from a graph, if it is read at all, is
  read as a graph with the same task ids.
\<close>

definition plan_codec_ok :: "'w platform \<Rightarrow> bool" where
  "plan_codec_ok pf \<longleftrightarrow>
     (\<forall>graph json graph'. pf_to_json pf graph = Inr json \<longrightarrow> pf_from_json pf json = Inr graph' \<longrightarrow>
        node_ids graph' = node_ids graph)"

definition plan_text_ok :: "'w platform \<Rightarrow> string \<Rightarrow> bool" where
  "plan_text_ok pf json \<longleftrightarrow> (\<forall>graph. pf_from_json pf json = Inr graph \<longrightarrow> distinct (node_ids graph))"

definition store_ok :: "'w platform \<Rightarrow> sqlite_store \<Rightarrow> bool" where
  "store_ok pf db \<longleftrightarrow> log_sound db \<and> (\<forall>d \<in> set (db_runs db). plan_text_ok pf (rd_plan_json d))"

abbreviation keeps :: "'w platform \<Rightarrow> ('w, 'a) run \<Rightarrow> bool" where
  "keeps pf m \<equiv> hoare (store_ok pf) m (store_ok pf)"

lemma store_ok_cong:
  "db_events db' = db_events db \<Longrightarrow> db_runs db' = db_runs db \<Longrightarrow> store_ok pf db' = store_ok pf db"
  using log_at_cong [of db' db] by (simp add: store_ok_def log_sound_def)

lemma hoare_quiet:
  assumes "quiet m" "\<And>db. I db \<Longrightarrow> store_ok pf db"
  shows "hoare I m (store_ok pf)"
  using assms store_ok_cong unfolding hoare_def quiet_def by metis

lemma keeps_quiet_bind: "quiet m \<Longrightarrow> (\<And>a. keeps pf (k a)) \<Longrightarrow> keeps pf (bindR m k)"
  by (rule hoare_bind [OF hoare_quiet]) auto

lemma keeps_fact_bind:
  assumes "reads m (\<lambda>_. F)" "\<And>a. F a \<Longrightarrow> keeps pf (k a)"
  shows "keeps pf (bindR m k)"
  by (rule hoare_reads_bind [OF assms(1)]) (use assms(2) in \<open>auto simp: hoare_def\<close>)

lemma log_at_extend:
  assumes "db_events db' = db_events db @ map event_row_of rs" "log_at db h p"
    and "advance_all p (filter (\<lambda>r. tr_graph_id r = h) rs) = Some q"
  shows "log_at db' h q"
  using assms(2,3) records_event_rows [OF assms(1), of h]
  by (auto simp: log_at_def advance_all_append)

lemma log_at_elsewhere:
  assumes "grows (\<lambda>r. tr_graph_id r = g) db db'" "h \<noteq> g" "log_at db h p"
  shows "log_at db' h p"
proof -
  obtain rs where rs: "list_all (\<lambda>r. tr_graph_id r = g) rs" "db_events db' = db_events db @ map event_row_of rs"
    using assms(1) by (auto simp: grows_def)
  have "filter (\<lambda>r. tr_graph_id r = h) rs = []"
    using rs(1) assms(2) by (auto simp: filter_empty_conv list_all_iff)
  then show ?thesis using log_at_extend [OF rs(2) assms(3)] by simp
qed

text \<open>The states a method read are those the log says, so a method that follows them keeps it sound.\<close>

lemma hoare_runs:
  assumes "emits (\<lambda>r. tr_graph_id r = g) m" "runs g ts m (\<lambda>_ _. True)"
    and "\<And>db. I db \<Longrightarrow> store_ok pf db" "\<And>db. I db \<Longrightarrow> try_res (db_records_for_graph db g) replay_tasks = Inr ts"
  shows "hoare I m (store_ok pf)"
  unfolding hoare_def
proof (intro allI impI)
  fix s :: "'a run_state" assume i: "I (st_store s)"
  then have ok: "store_ok pf (st_store s)" using assms(3) by blast
  obtain r s' where m: "m s = (r, s')" by (cases "m s")
  have gr: "grows (\<lambda>r. tr_graph_id r = g) (st_store s) (st_store s')"
    using assms(1) m unfolding emits_def by (metis snd_conv)
  have "\<exists>p. log_at (st_store s') h p" for h
  proof (cases "h = g")
    case True
    obtain p where p: "log_at (st_store s) g p" using ok by (auto simp: store_ok_def log_sound_def)
    then have "ts = p" using assms(4) [OF i] log_at_tasks by blast
    then show ?thesis using runs_D [OF assms(2) _ m] p True by blast
  next
    case False
    then show ?thesis
      using ok log_at_elsewhere [OF gr False] unfolding store_ok_def log_sound_def by blast
  qed
  then show "store_ok pf (st_store (snd (m s)))"
    using ok gr m by (auto simp: store_ok_def log_sound_def grows_def)
qed

lemma upsert_run_mem:
  "x \<in> set (upsert_run d ds) \<Longrightarrow> x \<in> set ds \<or> rd_plan_json x = rd_plan_json d"
  by (auto simp: upsert_run_def split: if_splits)

lemma store_ok_save_run:
  assumes "store_ok pf db" "db_save_run row db = Inr db'" "plan_text_ok pf (run_plan_json row)"
  shows "store_ok pf db'"
proof -
  have db': "db' = db\<lparr>db_runs := upsert_run (run_db_of row) (db_runs db)\<rparr>"
    using assms(2) by (simp add: db_save_run_Inr)
  have "log_sound db'" using assms(1) log_at_cong [of db' db] by (simp add: db' store_ok_def log_sound_def)
  moreover have "rd_plan_json (run_db_of row) = run_plan_json row" by (simp add: run_db_of_def)
  ultimately show ?thesis
    using assms(1,3) upsert_run_mem [of _ "run_db_of row" "db_runs db"]
    unfolding db' store_ok_def by simp metis
qed

lemma store_ok_row:
  "store_ok pf db \<Longrightarrow> db_load_run db g = Inr (Some row) \<Longrightarrow> plan_text_ok pf (run_plan_json row)"
  by (auto simp: store_ok_def db_load_run_def try_res_eq_Inr run_of_db_def find_Some_iff
      split: option.splits)

lemma graph_from_run_Inr:
  "graph_from_run from_json db g = Inr graph \<longleftrightarrow>
     (\<exists>row. db_load_run db g = Inr (Some row) \<and> from_json (run_plan_json row) = Inr graph)"
proof (cases "db_load_run db g")
  case (Inr found)
  then show ?thesis
    by (cases found) (auto simp: graph_from_run_def split: sum.split)
qed (simp add: graph_from_run_def)

lemma store_ok_graph:
  "store_ok pf db \<Longrightarrow> graph_from_run (pf_from_json pf) db g = Inr graph \<Longrightarrow> distinct (node_ids graph)"
  unfolding graph_from_run_Inr using store_ok_row plan_text_ok_def by blast

lemma node_ids_assign_tiers [simp]: "node_ids (assign_tiers f g) = node_ids g"
proof -
  have "node_ids (assign_tiers_loop f is g) = node_ids g" for "is"
    by (induction "is" arbitrary: g) (simp_all add: map_n_id_update_node)
  then show ?thesis by (simp add: assign_tiers_def)
qed

lemma saved_plan_ok:
  assumes "plan_codec_ok pf" "validate tp graph = Inr ()"
    and "pf_to_json pf (assign_tiers f graph) = Inr json"
  shows "plan_text_ok pf json"
proof -
  have "distinct (node_ids graph)"
    using assms(2) by (auto simp: validate_def try_res_eq_Inr try_topological_order_def check_nodes_None
        split: if_splits option.splits)
  then show ?thesis using assms(1,3) unfolding plan_codec_ok_def plan_text_ok_def
    by (metis node_ids_assign_tiers)
qed

section \<open>Operations on plans\<close>

lemma reads_any: "reads m Q \<Longrightarrow> reads m (\<lambda>_ _. True)"
  by (erule reads_weaken) simp

lemma reads_more:
  "reads (stamp env) (\<lambda>_ _. True)" "reads (workspace f) (\<lambda>_ _. True)" "reads (effect h) (\<lambda>_ _. True)"
  "reads (require_valid env graph) (\<lambda>_ _. validate (pf_topo (env_platform env)) graph = Inr ())"
  "reads (plan_json env graph) (\<lambda>_ json. pf_to_json (env_platform env) graph = Inr json)"
  "reads (mutation_guard graph ts m) (\<lambda>_ _. True)"
proof -
  show "reads (stamp env) (\<lambda>_ _. True)"
    unfolding stamp_def by (rule reads_bind [OF reads_prims(3)]) (auto intro: reads_weaken [OF reads_prims(1)])
  show "reads (workspace f) (\<lambda>_ _. True)"
    unfolding workspace_def by (rule reads_bind [OF reads_prims(3)]) (auto intro: reads_weaken [OF reads_prims(5)])
  show "reads (effect h) (\<lambda>_ _. True)" by (simp add: reads_def effect_def)
  show "reads (require_valid env graph) (\<lambda>_ _. validate (pf_topo (env_platform env)) graph = Inr ())"
    unfolding require_valid_def by (rule reads_weaken [OF reads_prims(5)]) simp
  show "reads (plan_json env graph) (\<lambda>_ json. pf_to_json (env_platform env) graph = Inr json)"
    unfolding plan_json_def by (rule reads_prims(5))
  show "reads (mutation_guard graph ts m) (\<lambda>_ _. True)"
    by (auto simp: mutation_guard_def reads_def ret_def throw_def split: graph_mutation.split option.split)
qed

lemma quiet_plan_steps [emits]:
  "quiet (write_plan_file env json)" "quiet (ensure_integrate env g base)"
  "quiet (require_valid env graph)" "quiet (plan_json env graph)"
  unfolding write_plan_file_def ensure_integrate_def require_valid_def plan_json_def Let_def
  by (intro emits)+

lemma quiet_landing [emits]:
  "quiet (land_worktree env wt ref)" "quiet (integrate_into env g ref)"
proof -
  show 1: "quiet (land_worktree env wt ref)" for wt unfolding land_worktree_def by (intro emits)
  show "quiet (integrate_into env g ref)" unfolding integrate_into_def by (intro emits 1)
qed

lemma quiet_deliverable [emits]:
  "quiet (prepare_deliverable env g tag)" "quiet (integrate_deliverable_into env g tag ref)"
proof -
  have 1: "quiet (replay_node env g wt i)" "quiet (deliverable_ready ts i)" for wt i ts
    unfolding replay_node_def deliverable_ready_def Let_def by (intro emits)+
  show 2: "quiet (prepare_deliverable env g tag)"
    unfolding prepare_deliverable_def Let_def by (intro emits 1)
  show "quiet (integrate_deliverable_into env g tag ref)"
    unfolding integrate_deliverable_into_def Let_def by (intro emits 2)
qed

lemma quiet_export [emits]: "quiet (export_git_metadata env g)"
proof -
  have 1: "quiet (export_from env base wt branch)" for base wt branch
    unfolding export_from_def by (intro emits)
  have 2: "quiet (export_attempt env g base n)" for base n
    unfolding export_attempt_def by (intro emits 1)
  show ?thesis unfolding export_git_metadata_def by (intro emits 1 2)
qed

lemma quiet_workers [emits]: "quiet (wipe_attempt env g a)" "quiet (cancel_worker env att state)"
  unfolding wipe_attempt_def cancel_worker_def by (intro emits)+

text \<open>
  A method that reads, saves one plan and then only tells the world about it: the saved plan is a
  valid one with its tiers filled in, or the one that was loaded.
\<close>

lemma hoare_save_run:
  assumes "\<And>db. I db \<Longrightarrow> store_ok pf db" "\<And>db. I db \<Longrightarrow> plan_text_ok pf (run_plan_json row)"
  shows "hoare I (store_write env (db_save_run row)) (store_ok pf)"
  by (rule hoare_write) (use assms store_ok_save_run in blast)+

lemma hoare_then_quiet:
  "hoare I m (store_ok pf) \<Longrightarrow> (\<And>a. quiet (k a)) \<Longrightarrow> hoare I (bindR m k) (store_ok pf)"
  by (rule hoare_bind) (auto intro: hoare_quiet)

lemma keeps_start_new:
  assumes "plan_codec_ok (env_platform env)" "validate tp graph0 = Inr ()"
    and "graph = assign_tiers default_assign_tier graph0"
  shows "keeps (env_platform env) (start_new env graph base)"
proof -
  have save: "keeps (env_platform env) (bindR (stamp env) (\<lambda>now.
        bindR (store_write env (db_save_run
          \<lparr>run_graph_id = graph_id graph, run_plan_state = AwaitingPlanReview, run_base = base,
           run_integrate_ref = integrate_branch (graph_id graph), run_plan_json = json,
           run_plan_id = plan_id_of env json, run_created_at = now, run_review_note = None\<rparr>)) (\<lambda>_.
        bindR (write_plan_file env json) (\<lambda>_. set_active (Some (graph_id graph))))))"
    if "pf_to_json (env_platform env) graph = Inr json" for json
    by (rule keeps_quiet_bind [OF quiet_derived(4)], rule hoare_then_quiet [OF hoare_save_run], assumption)
      (use saved_plan_ok [OF assms(1,2)] assms(3) that in \<open>auto intro!: emits\<close>)
  show ?thesis
    unfolding start_new_def Let_def
    apply (rule keeps_quiet_bind, (intro emits)[1])+
    apply (intro hoare_control keeps_quiet_bind [OF quiet_prims(4)] keeps_quiet_bind [OF quiet_derived(1)]
        keeps_fact_bind [OF reads_more(5)] save hoare_quiet [OF quiet_prims(2)])
     apply assumption+
    done
qed

lemma keeps_start_run:
  assumes "plan_codec_ok (env_platform env)"
  shows "keeps (env_platform env) (start_run env graph base)"
proof -
  have ex: "quiet (start_existing env g row)" for g row
    unfolding start_existing_def Let_def by (intro emits)
  show ?thesis
    unfolding start_run_def Let_def
    by (intro keeps_quiet_bind [OF quiet_reads(3)] keeps_fact_bind [OF reads_more(4)]
        keeps_quiet_bind [OF quiet_reads(6)] hoare_control hoare_quiet [OF ex] keeps_start_new [OF assms])
      auto
qed

lemma keeps_stage_plan:
  assumes "plan_codec_ok (env_platform env)"
  shows "keeps (env_platform env) (stage_plan env graph base)"
proof -
  let ?g = "graph_id (assign_tiers default_assign_tier graph)"
  have fresh: "keeps (env_platform env) (bindR (stamp env) (\<lambda>now. store_write env (db_save_run (row now))))"
    if "\<And>now. plan_text_ok (env_platform env) (run_plan_json (row now))" for row
    by (intro keeps_quiet_bind [OF quiet_derived(4)] hoare_save_run) (use that in auto)
  have staged: "keeps (env_platform env) (case existing of
        Some row \<Rightarrow>
          if run_plan_state row = PlanAccepted then throw (PlanAlreadyAccepted ?g)
          else store_write env (db_save_run
            (row\<lparr>run_plan_json := json, run_plan_id := plan_id_of env json,
                 run_plan_state := AwaitingPlanReview, run_base := base\<rparr>))
      | None \<Rightarrow>
          bindR (stamp env) (\<lambda>now. store_write env (db_save_run
            \<lparr>run_graph_id = ?g, run_plan_state = AwaitingPlanReview, run_base = base,
             run_integrate_ref = integrate_branch ?g, run_plan_json = json,
             run_plan_id = plan_id_of env json, run_created_at = now, run_review_note = None\<rparr>)))"
    if "validate (pf_topo (env_platform env)) graph = Inr ()"
      "pf_to_json (env_platform env) (assign_tiers default_assign_tier graph) = Inr json" for existing json
    by (intro hoare_control fresh hoare_save_run hoare_quiet [OF quiet_prims(2)])
      (use saved_plan_ok [OF assms that] in simp_all)
  show ?thesis
    unfolding stage_plan_def Let_def
    by (intro keeps_quiet_bind [OF quiet_reads(3)] keeps_fact_bind [OF reads_more(4)]
        keeps_fact_bind [OF reads_more(5)] keeps_quiet_bind [OF quiet_reads(6)]
        hoare_then_quiet [OF staged] emits) assumption+
qed

lemma keeps_decide_plan: "keeps (env_platform env) (decide_plan env g decision note)"
  unfolding decide_plan_def
  by (rule keeps_quiet_bind [OF quiet_reads(3)], rule hoare_reads_bind [OF reads_load_run],
      rule hoare_reads_bind [OF reads_prims(4)], rule hoare_reads_bind [OF reads_prims(5)],
      rule hoare_then_quiet [OF hoare_save_run])
    (auto dest: store_ok_row intro!: emits)

lemma store_ok_save_run_and_events:
  assumes "store_ok pf db" "db_save_run_and_events row evs db = Inr db'" "plan_text_ok pf (run_plan_json row)"
    and "try_res (db_records_for_graph db g) replay_tasks = Inr ts"
    and "evs = [] \<or> (\<exists>r. evs = [r] \<and> tr_graph_id r = g \<and> ts (tr_task_id r) = Some (tr_from r) \<and>
      transition (tr_from r) (tr_event r) = Inr (tr_to r))"
  shows "store_ok pf db'"
proof -
  have db': "db' = db\<lparr>db_runs := upsert_run (run_db_of row) (db_runs db),
      db_events := db_events db @ map event_row_of evs\<rparr>"
    using assms(2) by (auto simp: db_save_run_and_events_def try_res_eq_Inr)
  have "\<exists>q. log_at db' h q" for h
  proof -
    obtain p where p: "log_at db h p" using assms(1) by (auto simp: store_ok_def log_sound_def)
    have "\<exists>q. advance_all p (filter (\<lambda>r. tr_graph_id r = h) evs) = Some q"
    proof (cases "evs \<noteq> [] \<and> h = g")
      case True
      then have "ts = p" using log_at_tasks p assms(4) by blast
      then show ?thesis using assms(5) True by (auto simp: advance_def state_of_def)
    next
      case False
      then show ?thesis using assms(5) by auto
    qed
    then obtain q where q: "advance_all p (filter (\<lambda>r. tr_graph_id r = h) evs) = Some q" by blast
    have "db_events db' = db_events db @ map event_row_of evs" by (simp add: db')
    from log_at_extend [OF this p q] show ?thesis by blast
  qed
  moreover have "rd_plan_json (run_db_of row) = run_plan_json row" by (simp add: run_db_of_def)
  ultimately show ?thesis
    using assms(1,3) upsert_run_mem [of _ "run_db_of row" "db_runs db"]
    unfolding store_ok_def log_sound_def db' by simp metis
qed

lemma reads_mutation_events:
  "reads (mutation_events env g ts m) (\<lambda>_ evs. evs = [] \<or> (\<exists>r. evs = [r] \<and> tr_graph_id r = g \<and>
     ts (tr_task_id r) = Some (tr_from r) \<and> transition (tr_from r) (tr_event r) = Inr (tr_to r)))"
proof (cases m)
  case (InsertPrerequisite target new)
  then show ?thesis
    by (auto simp: mutation_events_def of_res_def transition_def
        intro!: reads_bind [OF reads_more(1)] intro: reads_weaken [OF reads_prims(1)])
qed (auto simp: mutation_events_def intro: reads_weaken [OF reads_prims(1)])

lemma keeps_mutate_plan:
  assumes "plan_codec_ok (env_platform env)"
  shows "keeps (env_platform env) (mutate_plan env g m review)"
  unfolding mutate_plan_def Let_def
  apply (rule keeps_quiet_bind [OF quiet_reads(3)], rule hoare_reads_bind [OF reads_load_run],
      rule hoare_reads_bind [OF reads_prims(4)], rule hoare_reads_bind [OF reads_graph_of],
      rule hoare_reads_bind [OF reads_tasks], rule hoare_reads_bind [OF reads_more(6)],
      rule hoare_reads_bind [OF reads_prims(5)], rule hoare_reads_bind [OF reads_mutation_events],
      rule hoare_reads_bind [OF reads_more(5)], rule hoare_then_quiet [OF hoare_write])
  apply (elim conjE)
  apply (rule store_ok_save_run_and_events, assumption, assumption)
  using saved_plan_ok [OF assms] apply (auto simp: apply_mutation_Inr)[1]
  apply assumption
  apply assumption
  apply (auto intro!: emits)
  done

section \<open>Operations on tasks\<close>

text \<open>
  A loop over tasks that decides from the states read before it: when each task comes once, the
  state of a task is still the one that was read when its turn comes.
\<close>

lemma runs_for_each:
  assumes "distinct (map key xs)" "\<forall>x \<in> set xs. q (key x) = p (key x)"
    and "\<And>x q. x \<in> set xs \<Longrightarrow> q (key x) = p (key x) \<Longrightarrow>
      runs g q (f x) (\<lambda>_ q'. (\<forall>t. t \<noteq> key x \<longrightarrow> q' t = q t) \<and> R x (q' (key x)))"
  shows "runs g q (for_each f xs) (\<lambda>_ q'. (\<forall>x \<in> set xs. R x (q' (key x))) \<and>
    (\<forall>t. t \<notin> key ` set xs \<longrightarrow> q' t = q t))"
  using assms
proof (induction xs arbitrary: q)
  case Nil
  then show ?case by (auto intro: runs_ret)
next
  case (Cons x xs)
  have new: "key y \<noteq> key x" if "y \<in> set xs" for y using Cons.prems(1) that by (auto simp: image_iff)
  show ?case
    unfolding for_each.simps
  proof (rule runs_bind [OF Cons.prems(3)])
    fix u q'
    assume q': "(\<forall>t. t \<noteq> key x \<longrightarrow> q' t = q t) \<and> R x (q' (key x))"
    have "runs g q' (for_each f xs) (\<lambda>_ q''. (\<forall>x \<in> set xs. R x (q'' (key x))) \<and>
        (\<forall>t. t \<notin> key ` set xs \<longrightarrow> q'' t = q' t))"
      by (rule Cons.IH) (use Cons.prems q' new in \<open>auto\<close>)
    then show "runs g q' (for_each f xs) (\<lambda>_ q''. (\<forall>x \<in> set (x # xs). R x (q'' (key x))) \<and>
        (\<forall>t. t \<notin> key ` set (x # xs) \<longrightarrow> q'' t = q t))"
      by (rule runs_weaken) (use q' Cons.prems(1) in \<open>auto\<close>)
  qed (use Cons.prems in auto)
qed

lemma of_graph_emits:
  "emits (\<lambda>r. tr_graph_id r = g) (append_ev env g t a from ev reason)"
  unfolding append_ev_def by (rule emits_append_as)

lemma emits_operator [emits]:
  "emits (\<lambda>r. tr_graph_id r = g) (crash_fail_node env g ts n)"
  "emits (\<lambda>r. tr_graph_id r = g) (retry_failed_node env g ts n)"
  "emits (\<lambda>r. tr_graph_id r = g) (cancel_one env g ts t)"
  unfolding crash_fail_node_def retry_failed_node_def cancel_one_def Let_def
  by (intro emits_bind control_emits of_graph_emits emits_qs quiet_emits [OF quiet_reads(7)]
      quiet_emits [OF quiet_reads(8)] quiet_emits [OF quiet_liveness(3)] quiet_emits [OF quiet_workers(2)])+

lemma runs_crash_fail_node:
  assumes "q (n_id n) = p (n_id n)"
  shows "runs g q (crash_fail_node env g p n) (\<lambda>_ q'. (\<forall>t. t \<noteq> n_id n \<longrightarrow> q' t = q t) \<and> True)"
proof -
  have d: "quiet (case a of Some a \<Rightarrow> attempt_driver_dead env a | None \<Rightarrow> ret True)" for a
    by (intro emits)
  show ?thesis
    unfolding crash_fail_node_def
    by (intro runs_control runs_ret runs_quiet_bind [OF quiet_reads(7)] runs_quiet_bind [OF d]
        runs_append_ev_bind) (use assms in \<open>auto simp: state_of_def\<close>)
qed

lemma runs_retry_failed_node:
  assumes "q (n_id n) = p (n_id n)"
  shows "runs g q (retry_failed_node env g p n) (\<lambda>_ q'. (\<forall>t. t \<noteq> n_id n \<longrightarrow> q' t = q t) \<and> True)"
  unfolding retry_failed_node_def
  by (intro runs_control runs_ret runs_quiet_bind [OF quiet_reads(8)] runs_append_ev_bind)
    (use assms in \<open>auto simp: state_of_def\<close>)

lemma runs_cancel_one:
  assumes "q t = p t"
  shows "runs g q (cancel_one env g p t) (\<lambda>_ q'. (\<forall>u. u \<noteq> t \<longrightarrow> q' u = q u) \<and>
    q' t = Some (if p t = Some Integrated then Integrated else Cancelled))"
proof -
  have legal: "transition x Cancel = Inr y \<Longrightarrow> y = Cancelled" "x \<noteq> Cancelled \<Longrightarrow> x \<noteq> Integrated \<Longrightarrow>
      transition x Cancel = Inr Cancelled" for x y
    by (cases x; simp add: transition_def)+
  show ?thesis
    unfolding cancel_one_def Let_def
    by (intro runs_control runs_ret runs_quiet_bind [OF quiet_reads(7)] runs_quiet_bind [OF quiet_workers(2)]
        runs_append_ev_bind)
      (use assms legal in \<open>auto simp: state_of_def split: option.splits if_splits\<close>)
qed

lemma hoare_task_loop:
  assumes "\<And>db. I db \<Longrightarrow> store_ok pf db \<and> graph_from_run (pf_from_json pf) db g = Inr graph \<and>
      try_res (db_records_for_graph db g) replay_tasks = Inr p"
    and "distinct (node_ids graph) \<Longrightarrow> distinct (map key xs)"
    and "\<And>x. emits (\<lambda>r. tr_graph_id r = g) (f x)"
    and "\<And>x q. q (key x) = p (key x) \<Longrightarrow>
      runs g q (f x) (\<lambda>_ q'. (\<forall>t. t \<noteq> key x \<longrightarrow> q' t = q t) \<and> R x (q' (key x)))"
  shows "hoare I (for_each f xs) (store_ok pf)"
proof (rule hoare_fact)
  show "distinct (node_ids graph)" if "I db" for db using assms(1) [OF that] store_ok_graph by blast
next
  assume "distinct (node_ids graph)"
  then have "runs g p (for_each f xs) (\<lambda>_ _. True)"
    by (intro runs_weaken [OF runs_for_each [of key xs p p g f R]]) (use assms in auto)
  then show "hoare I (for_each f xs) (store_ok pf)"
    by (intro hoare_runs [of g _ p] emits_for_each) (use assms in auto)
qed

lemma keeps_crash_fail: "keeps (env_platform env) (crash_fail env g)"
  unfolding crash_fail_def
  by (rule hoare_reads_bind [OF reads_tasks], rule hoare_reads_bind [OF reads_graph_of],
      rule hoare_task_loop [where key = n_id, OF _ _ _ runs_crash_fail_node]) (auto intro: emits)

lemma keeps_retry_failed: "keeps (env_platform env) (retry_failed env g)"
  unfolding retry_failed_def
  by (rule hoare_reads_bind [OF reads_graph_of], rule hoare_reads_bind [OF reads_tasks],
      rule hoare_task_loop [where key = n_id, OF _ _ _ runs_retry_failed_node]) (auto intro: emits)

lemma keeps_cancel_run: "keeps (env_platform env) (cancel_run env g task)"
  unfolding cancel_run_def
  by (rule keeps_quiet_bind [OF quiet_reads(3)], rule keeps_quiet_bind [OF quiet_prims(8)],
      rule hoare_reads_bind [OF reads_graph_of], rule hoare_reads_bind [OF reads_tasks],
      rule hoare_task_loop [where key = "\<lambda>x. x", OF _ _ _ runs_cancel_one])
    (auto intro: emits split: option.split)

lemma runs_accept_step:
  assumes "state_of p t = AwaitingReview"
  shows "runs g p (bindR (append_ev env g t a AwaitingReview HumanAcceptanceRecorded why) (\<lambda>_. ret ()))
    (\<lambda>_ p'. p' = p(t \<mapsto> Accepted))"
  by (intro runs_append_ev_bind runs_ret) (use assms in \<open>auto simp: transition_def\<close>)

lemma keeps_accept_human: "keeps (env_platform env) (accept_human env t who)"
proof -
  have get: "reads get_active (\<lambda>_ _. True)" by (simp add: reads_def get_active_def)
  have hd: "reads (case x of None \<Rightarrow> ret None
      | Some wt \<Rightarrow> bindR (port (ws_head (env_workspace env) wt)) (\<lambda>h. ret (res_ok h))) (\<lambda>_ _. True)" for x
    by (auto split: option.split intro!: reads_bind [OF reads_prims(3)] intro: reads_weaken [OF reads_prims(1)])
  have rec: "hoare I (bindR (record_evidence_row env e)
      (\<lambda>_. bindR (append_ev env g t a AwaitingReview HumanAcceptanceRecorded why) (\<lambda>_. ret ())))
      (store_ok (env_platform env))"
    if "\<And>db. I db \<Longrightarrow> store_ok (env_platform env) db \<and>
        try_res (db_records_for_graph db g) replay_tasks = Inr ts" "state_of ts t = AwaitingReview"
    for I g e a why ts
    by (rule hoare_runs [of g _ ts],
        intro emits_bind quiet_emits [OF quiet_writes(1)] of_graph_emits quiet_emits [OF quiet_prims(1)],
        rule runs_quiet_bind [OF quiet_writes(1)], rule runs_weaken [OF runs_accept_step])
      (use that in auto)
  show ?thesis
    unfolding accept_human_def Let_def
    apply (intro hoare_control hoare_quiet [OF quiet_prims(2)])
     apply assumption
    apply (rule keeps_fact_bind [OF get], rule keeps_fact_bind [OF reads_prims(4)],
        rule keeps_quiet_bind [OF quiet_reads(3)], rule hoare_reads_bind [OF reads_tasks])
     apply (intro hoare_control hoare_quiet [OF quiet_prims(2)])
       apply (auto)[1]
      apply (auto)[1]
     apply (rule hoare_reads_bind [OF reads_latest_attempt], rule hoare_reads_bind [OF reads_prims(4)],
        rule hoare_reads_bind [OF hd], rule hoare_reads_bind [OF reads_more(1)], rule rec)
    apply auto
    done
qed

lemma log_at_reset:
  assumes "store_ok pf db"
  shows "store_ok pf (reset_events g db)" "log_at (reset_events g db) g Map.empty"
    "h \<noteq> g \<Longrightarrow> log_at (reset_events g db) h p = log_at db h p"
proof -
  have same: "db_records_for_graph (reset_events g db) h =
      (if h = g then Inr [] else db_records_for_graph db h)" for h
    by (auto simp: reset_events_def db_records_for_graph_def intro!: arg_cong [of _ _ "map_res record_of_row"]
        filter_cong)
  show 1: "log_at (reset_events g db) g Map.empty" by (simp add: log_at_def same)
  show 2: "log_at (reset_events g db) h p = log_at db h p" if "h \<noteq> g" for h p
    using that by (simp add: log_at_def same)
  have "\<exists>p. log_at (reset_events g db) h p" for h
    using 1 2 [of h] assms unfolding store_ok_def log_sound_def by (cases "h = g") auto
  then show "store_ok pf (reset_events g db)"
    using assms by (simp add: store_ok_def log_sound_def reset_events_def)
qed

lemma keeps_quiet: "quiet m \<Longrightarrow> keeps pf m"
  by (erule hoare_quiet)

lemma keeps_restart: "keeps (env_platform env) (restart env g)"
proof -
  have reset: "keeps (env_platform env) (reset_execution env g)"
    unfolding reset_execution_def
    apply (rule keeps_quiet_bind [OF quiet_derived(3)])
    apply (rule keeps_quiet_bind [OF quiet_store_write], simp add: reset_evidence_def)
    apply (rule hoare_then_quiet [OF hoare_write])
      apply (auto simp: log_at_reset)[1]
     apply assumption
    apply (rule quiet_store_write, auto simp: reset_attempts_def)
    done
  have int: "quiet (if there then bindR (port (ws_reset_hard ws path base)) (\<lambda>_. ret ()) else ret ())"
    for there ws path base
    by (intro emits)
  show ?thesis
    unfolding restart_def
    by (intro keeps_quiet_bind [OF quiet_reads(3)] keeps_quiet_bind [OF quiet_reads(6)]
        keeps_quiet_bind [OF quiet_prims(6)] hoare_control hoare_quiet [OF quiet_prims(2)]
        keeps_quiet_bind [OF quiet_prims(12)] keeps_quiet_bind [OF quiet_derived(3)]
        keeps_quiet_bind [OF quiet_loops(2)] keeps_quiet_bind [OF quiet_prims(3)] quiet_workers
        keeps_quiet_bind [OF int] hoare_then_quiet [OF reset] quiet_prims(8)) assumption
qed

lemma keeps_tick: "keeps (env_platform env) (run_tick env)"
  unfolding hoare_def
proof (intro allI impI)
  fix s :: "'a run_state" assume ok: "store_ok (env_platform env) (st_store s)"
  obtain r s' where run: "run_tick env s = (r, s')" by (cases "run_tick env s")
  from run have "store_ok (env_platform env) (st_store s')"
  proof (cases rule: run_tick_cases)
    case (refused e)
    then show ?thesis using ok by simp
  next
    case (ran g row graph ts s1)
    have "hoare (\<lambda>db. store_ok (env_platform env) db \<and> try_res (db_records_for_graph db g) replay_tasks = Inr ts)
        (tick_phases env g graph ts) (store_ok (env_platform env))"
      by (rule hoare_runs [of g _ ts], rule emits_mono [OF emits_tick_phases], simp add: auto_record_def,
          rule runs_weaken [OF runs_tick_phases]) auto
    then show ?thesis using ok ran unfolding hoare_def by (metis snd_conv)
  qed
  then show "store_ok (env_platform env) (st_store (snd (run_tick env s)))" using run by simp
qed

lemma quiet_heartbeat: "quiet (heartbeat env)"
proof -
  have "quiet (store_write env (db_record_driver_heartbeat g pid now))" for g pid now
    by (rule quiet_store_write) (auto simp: db_record_driver_heartbeat_def try_res_eq_Inr)
  then show ?thesis unfolding heartbeat_def by (intro emits)
qed

lemma keeps_loop: "keeps (env_platform env) (loop_until_idle k env)"
proof (induction k)
  case (Suc k)
  have "hoare (store_ok (env_platform env)) (case t of
      Idle reason \<Rightarrow>
         if reason = WaitingOnLiveWorker
         then bindR (effect (pf_sleep (env_platform env))) (\<lambda>_. loop_until_idle k env)
         else ret (Some reason)
     | Transition _ _ _ _ _ \<Rightarrow> loop_until_idle k env) (store_ok (env_platform env))" for t
    using Suc by (auto intro!: hoare_control keeps_quiet_bind [OF quiet_prims(4)]
        hoare_quiet [OF quiet_prims(1)] split: tick.split)
  then show ?case
    by (auto intro!: keeps_quiet_bind [OF quiet_heartbeat] hoare_bind [OF keeps_tick])
qed (auto intro: hoare_quiet quiet_prims)

lemma keeps_resume: "keeps (env_platform env) (resume k env g retry again)"
proof -
  have prep: "keeps (env_platform env) (if again then restart env g
      else bindR (crash_fail env g) (\<lambda>_. if retry then retry_failed env g else ret ()))"
    by (intro hoare_control keeps_restart hoare_bind [OF keeps_crash_fail] keeps_retry_failed
        keeps_quiet quiet_prims(1))
  show ?thesis
    unfolding resume_def
    by (intro keeps_quiet_bind [OF quiet_reads(3)] hoare_control(1) keeps_quiet [OF quiet_prims(2)]
        keeps_quiet_bind [OF quiet_prims(8)] hoare_bind [OF prep keeps_loop])
qed

section \<open>Sessions\<close>

datatype operation =
  OpStart task_graph string
| OpStage task_graph string
| OpDecide string plan_decision "string option"
| OpMutate string graph_mutation bool
| OpTick
| OpResume nat string bool bool
| OpRestart string
| OpCancel string "task_id option"
| OpAccept task_id string
| OpIntegrate string string
| OpPrepare string string
| OpIntegrateDeliverable string string string
| OpExport string

definition ignoring :: "('w, 'a) run \<Rightarrow> ('w, unit) run" where
  "ignoring m = bindR m (\<lambda>_. ret ())"

definition perform :: "'w run_env \<Rightarrow> operation \<Rightarrow> ('w, unit) run" where
  "perform env op =
     (case op of
        OpStart graph base \<Rightarrow> start_run env graph base
      | OpStage graph base \<Rightarrow> ignoring (stage_plan env graph base)
      | OpDecide g decision note \<Rightarrow> ignoring (decide_plan env g decision note)
      | OpMutate g m review \<Rightarrow> ignoring (mutate_plan env g m review)
      | OpTick \<Rightarrow> ignoring (run_tick env)
      | OpResume k g retry again \<Rightarrow> ignoring (resume k env g retry again)
      | OpRestart g \<Rightarrow> restart env g
      | OpCancel g task \<Rightarrow> cancel_run env g task
      | OpAccept t who \<Rightarrow> accept_human env t who
      | OpIntegrate g ref \<Rightarrow> integrate_into env g ref
      | OpPrepare g tag \<Rightarrow> ignoring (prepare_deliverable env g tag)
      | OpIntegrateDeliverable g tag ref \<Rightarrow> integrate_deliverable_into env g tag ref
      | OpExport g \<Rightarrow> ignoring (export_git_metadata env g))"

text \<open>
  A session begins with an empty database. At every point an operation may run in an environment
  whose harnesses, ports, limits and configuration are arbitrary, and its outcome, also an error, is
  the next point; or the process ends and another opens the same database.
\<close>

inductive session :: "'w platform \<Rightarrow> 'w run_state \<Rightarrow> bool" for pf where
  first: "session pf \<lparr>st_store = empty_store, st_pending = Map.empty, st_active = None, st_world = w\<rparr>"
| operate: "session pf s \<Longrightarrow> env_platform env = pf \<Longrightarrow> perform env op s = (r, s') \<Longrightarrow> session pf s'"
| reopen: "session pf s \<Longrightarrow> session pf (s\<lparr>st_pending := Map.empty, st_active := active, st_world := w\<rparr>)"

lemma keeps_ignoring: "keeps pf m \<Longrightarrow> keeps pf (ignoring m)"
  unfolding ignoring_def by (rule hoare_then_quiet) (auto intro: emits)

lemma keeps_perform:
  assumes "plan_codec_ok (env_platform env)"
  shows "keeps (env_platform env) (perform env op)"
  using keeps_start_run [OF assms] keeps_ignoring [OF keeps_stage_plan [OF assms]]
    keeps_ignoring [OF keeps_decide_plan] keeps_ignoring [OF keeps_mutate_plan [OF assms]]
    keeps_ignoring [OF keeps_tick] keeps_ignoring [OF keeps_resume] keeps_restart keeps_cancel_run
    keeps_accept_human keeps_quiet [OF quiet_landing(2)] keeps_quiet [OF quiet_deliverable(2)]
    keeps_ignoring [OF keeps_quiet [OF quiet_deliverable(1)]]
    keeps_ignoring [OF keeps_quiet [OF quiet_export]]
  by (cases op) (simp_all add: perform_def)

lemma store_ok_log:
  "store_ok pf db \<Longrightarrow> \<exists>rs p. db_records_for_graph db g = Inr rs \<and> advance_all Map.empty rs = Some p"
  unfolding store_ok_def log_sound_def log_at_def by blast

lemma session_store_ok:
  assumes "plan_codec_ok pf" "session pf s"
  shows "store_ok pf (st_store s)"
  using assms(2)
proof (induction rule: session.induct)
  case (first w)
  show ?case
    by (auto simp: store_ok_def log_sound_def log_at_def empty_store_def db_records_for_graph_def)
next
  case (operate s env op r s')
  then show ?case
    using keeps_perform [of env op] assms(1) unfolding hoare_def by (metis snd_conv)
qed simp

text \<open>
  Whatever operations run, in whatever order, with whatever answers from harnesses, checks, git
  and the database, and across restarts of the process, the event log stays sound: the records of
  every graph decode, each names as its origin the state its task was really in and as its target
  the state the transition table gives, so that replaying them always succeeds; and every stored
  plan that can be read names each task once.
\<close>

theorem session_log_sound:
  assumes "plan_codec_ok pf" "session pf s"
  shows "\<exists>rs p. db_records_for_graph (st_store s) g = Inr rs \<and> advance_all Map.empty rs = Some p \<and>
    replay_tasks rs = Inr p \<and>
    (\<forall>graph. graph_from_run (pf_from_json pf) (st_store s) g = Inr graph \<longrightarrow> distinct (node_ids graph))"
proof -
  have ok: "store_ok pf (st_store s)" by (rule session_store_ok [OF assms])
  then obtain rs p where "db_records_for_graph (st_store s) g = Inr rs" "advance_all Map.empty rs = Some p"
    using store_ok_log by blast
  then show ?thesis
    using ok store_ok_graph advance_all_replay unfolding replay_tasks_def by blast
qed

lemma sample_codec: "plan_codec_ok sample_platform"
  by (auto simp: plan_codec_ok_def sample_platform_def split: if_splits)

definition blank :: "unit run_state" where
  "blank = \<lparr>st_store = empty_store, st_pending = Map.empty, st_active = None, st_world = ()\<rparr>"

lemma blank_session: "session sample_platform (snd (perform sample_env op blank))"
  by (rule session.operate [OF session.first [of sample_platform "()"], of sample_env op
        "fst (perform sample_env op blank)"]) (simp_all add: blank_def sample_env_def)

theorem session_log_sound_witness:
  "\<exists>rs p. db_records_for_graph (st_store (snd (perform sample_env (OpStage sample_graph ''base'') blank)))
      ''g-1'' = Inr rs \<and> advance_all Map.empty rs = Some p"
  using session_log_sound [OF sample_codec blank_session] by blast

text \<open>
  C1. Every task earned its state: in every session, the records of a graph replay, and whatever
  state a task is in, its own records contain, in order, the steps that state stands for. A task is
  running, verifying or failed only after its dependencies were satisfied and an attempt started,
  awaits review only after passing its checks, is accepted only after an acceptance that follows
  them, and is integrated only after the merge that follows the acceptance.
\<close>

theorem session_states_are_earned:
  assumes "plan_codec_ok pf" "session pf s" "db_records_for_graph (st_store s) g = Inr rs"
  shows "\<exists>p. replay_tasks rs = Inr p \<and>
    (\<forall>t. milestones (state_of p t) (map tr_event (filter (\<lambda>r. tr_task_id r = t) rs)))"
proof -
  obtain p where p: "advance_all Map.empty rs = Some p"
    using store_ok_log [OF session_store_ok [OF assms(1,2)], of g] assms(3) by auto
  then have "run_events Pending (map tr_event (task_log t rs)) = Inr (state_of p t)" for t
    using advance_all_run [OF p, of t] by (simp add: state_of_def)
  then show ?thesis
    using run_from_Pending_milestones advance_all_replay [OF p]
    by (auto simp: task_log_def replay_tasks_def)
qed

theorem session_states_are_earned_witness:
  "\<exists>rs p. db_records_for_graph (st_store (snd (perform sample_env (OpStage sample_graph ''base'') blank)))
      ''g-1'' = Inr rs \<and> replay_tasks rs = Inr p \<and>
     milestones (state_of p 1) (map tr_event (filter (\<lambda>r. tr_task_id r = 1) rs))"
proof -
  have s: "session sample_platform (snd (perform sample_env (OpStage sample_graph ''base'') blank))"
    by (rule blank_session)
  obtain rs where "db_records_for_graph (st_store (snd (perform sample_env (OpStage sample_graph ''base'') blank)))
      ''g-1'' = Inr rs"
    using store_ok_log [OF session_store_ok [OF sample_codec s]] by blast
  then show ?thesis using session_states_are_earned [OF sample_codec s] by blast
qed

end
