(* ===== verification/Engine_Run_Gate.thy ===== *)
theory Engine_Run_Gate
  imports Engine_Run_Session
begin

text \<open>
  The decisions on plans as an abstract machine, and that every operation of the run loop implements
  the step the machine allows it.
\<close>

section \<open>The plan gate as an abstract machine\<close>

text \<open>
  What an operation may do to the decisions on plans, told without a database: \<open>plan_of\<close> abstracts
  the store to the state of each plan, and \<open>plan_spec\<close> is the contract of each operation.
\<close>

definition plan_of :: "sqlite_store \<Rightarrow> string \<Rightarrow> plan_state option" where
  "plan_of db g = (case db_load_run db g of Inr (Some row) \<Rightarrow> Some (run_plan_state row) | _ \<Rightarrow> None)"

definition plan_spec ::
    "operation \<Rightarrow> (string \<Rightarrow> plan_state option) \<Rightarrow> (string \<Rightarrow> plan_state option) \<Rightarrow> bool" where
  "plan_spec op P P' \<longleftrightarrow>
     P' = P \<or>
     (case op of
        OpStart graph _ \<Rightarrow> P (graph_id graph) = None \<and> P' = P(graph_id graph \<mapsto> AwaitingPlanReview)
      | OpStage graph _ \<Rightarrow>
          P (graph_id graph) \<noteq> Some PlanAccepted \<and> P' = P(graph_id graph \<mapsto> AwaitingPlanReview)
      | OpDecide g decision _ \<Rightarrow>
          (\<exists>x y. P g = Some x \<and> plan_transition x decision = Inr y \<and> P' = P(g \<mapsto> y))
      | OpMutate g _ review \<Rightarrow> review \<and> P g \<noteq> None \<and> P' = P(g \<mapsto> AwaitingPlanReview)
      | _ \<Rightarrow> False)"

lemma plan_of_upsert:
  assumes "db_runs db' = upsert_run (run_db_of row) (db_runs db)"
  shows "plan_of db' = (plan_of db)(run_graph_id row \<mapsto> run_plan_state row)"
  using load_upsert_run [OF assms] by (auto simp: plan_of_def fun_eq_iff split: option.split)

lemma db_load_run_id: "db_load_run db g = Inr (Some row) \<Longrightarrow> run_graph_id row = g"
  by (auto simp: db_load_run_def try_res_eq_Inr run_of_db_def find_Some_iff split: option.splits)

lemma plan_of_cong: "db_runs db' = db_runs db \<Longrightarrow> plan_of db' = plan_of db"
  by (simp add: plan_of_def db_load_run_def fun_eq_iff)

definition same_plans :: "('w, 'a) run \<Rightarrow> bool" where
  "same_plans m \<longleftrightarrow> (\<forall>s. db_runs (st_store (snd (m s))) = db_runs (st_store s))"

lemma same_plans_emits: "emits P m \<Longrightarrow> same_plans m"
  by (auto simp: emits_def same_plans_def grows_def)

lemma same_plans_quiet: "quiet m \<Longrightarrow> same_plans m"
  by (auto simp: quiet_def same_plans_def)

lemma same_plans_bind: "same_plans m \<Longrightarrow> (\<And>a. same_plans (k a)) \<Longrightarrow> same_plans (bindR m k)"
  by (auto simp: same_plans_def snd_bindR split: prod.splits sum.splits) (metis snd_conv)+

lemma same_plans_write:
  "(\<And>db db'. f db = Inr db' \<Longrightarrow> db_runs db' = db_runs db) \<Longrightarrow> same_plans (store_write env f)"
  by (auto simp: same_plans_def store_write_def store_fault_def bindR_def port_def get_store_def put_store_def
      of_res_def ret_def throw_def split: prod.splits sum.splits option.splits)

lemma same_plans_if: "same_plans x \<Longrightarrow> same_plans y \<Longrightarrow> same_plans (if b then x else y)"
  by simp

lemma emits_operators:
  "emits (\<lambda>r. tr_graph_id r = g) (crash_fail env g)" "emits (\<lambda>r. tr_graph_id r = g) (retry_failed env g)"
  "emits (\<lambda>r. tr_graph_id r = g) (cancel_run env g task)"
  unfolding crash_fail_def retry_failed_def cancel_run_def
  by (intro emits_bind emits_for_each emits_operator quiet_emits [OF quiet_reads(4)]
      quiet_emits [OF quiet_reads(5)] quiet_emits [OF quiet_reads(3)] quiet_emits [OF quiet_prims(8)])+

lemma same_plans_accept: "same_plans (accept_human env t who)"
proof -
  have hd: "quiet (case x of None \<Rightarrow> ret None
      | Some wt \<Rightarrow> bindR (port (ws_head (env_workspace env) wt)) (\<lambda>h. ret (res_ok h)))" for x
    by (intro emits)
  show ?thesis
    unfolding accept_human_def Let_def
    by (intro same_plans_bind same_plans_if same_plans_quiet [OF quiet_prims(2)]
        same_plans_quiet [OF quiet_prims(9)] same_plans_quiet [OF quiet_prims(6)]
        same_plans_quiet [OF quiet_prims(1)] same_plans_quiet [OF quiet_reads(3)]
        same_plans_quiet [OF quiet_reads(4)] same_plans_quiet [OF quiet_reads(7)] same_plans_quiet [OF hd]
        same_plans_quiet [OF quiet_derived(4)] same_plans_quiet [OF quiet_writes(1)]
        same_plans_emits [OF of_graph_emits])
qed

lemma same_plans_tick: "same_plans (run_tick env)"
  unfolding same_plans_def
proof
  fix s obtain r s' where run: "run_tick env s = (r, s')" by (cases "run_tick env s")
  then show "db_runs (st_store (snd (run_tick env s))) = db_runs (st_store s)"
    using run_tick_grows [OF run] by (auto simp: grows_def)
qed

lemma same_plans_restart: "same_plans (restart env g)"
proof -
  have reset: "same_plans (reset_execution env g)"
    unfolding reset_execution_def
    by (intro same_plans_bind same_plans_write same_plans_quiet [OF quiet_derived(3)])
      (auto simp: reset_evidence_def reset_events_def reset_attempts_def)
  have int: "quiet (if there then bindR (port (ws_reset_hard ws path base)) (\<lambda>_. ret ()) else ret ())"
    for there ws path base
    by (intro emits)
  show ?thesis
    unfolding restart_def
    by (intro same_plans_bind same_plans_if same_plans_quiet [OF int] reset
        same_plans_quiet [OF quiet_prims(2)] same_plans_quiet [OF quiet_prims(6)]
        same_plans_quiet [OF quiet_prims(12)] same_plans_quiet [OF quiet_prims(3)]
        same_plans_quiet [OF quiet_prims(8)] same_plans_quiet [OF quiet_reads(3)]
        same_plans_quiet [OF quiet_reads(6)] same_plans_quiet [OF quiet_derived(3)]
        same_plans_quiet [OF quiet_loops(2)] quiet_workers)
qed

lemma same_plans_loop: "same_plans (loop_until_idle k env)"
proof (induction k)
  case (Suc k)
  then have "same_plans (case t of
      Idle reason \<Rightarrow>
         if reason = WaitingOnLiveWorker
         then bindR (effect (pf_sleep (env_platform env))) (\<lambda>_. loop_until_idle k env)
         else ret (Some reason)
     | Transition _ _ _ _ _ \<Rightarrow> loop_until_idle k env)" for t
    by (cases t) (auto intro: same_plans_bind same_plans_quiet [OF quiet_prims(4)]
        same_plans_quiet [OF quiet_prims(1)])
  then show ?case
    by (auto intro!: same_plans_bind same_plans_quiet [OF quiet_heartbeat] same_plans_tick)
qed (simp add: same_plans_quiet quiet_prims)

lemma same_plans_resume: "same_plans (resume k env g retry again)"
  unfolding resume_def
  by (intro same_plans_bind same_plans_if same_plans_restart same_plans_loop
      emits_operators [THEN same_plans_emits] same_plans_quiet [OF quiet_reads(3)]
      same_plans_quiet [OF quiet_prims(2)] same_plans_quiet [OF quiet_prims(8)]
      same_plans_quiet [OF quiet_prims(1)])

lemma graph_id_assign_tiers [simp]: "graph_id (assign_tiers f g) = graph_id g"
proof -
  have "graph_id (assign_tiers_loop f is g) = graph_id g" for "is"
    by (induction "is" arbitrary: g) simp_all
  then show ?thesis by (simp add: assign_tiers_def)
qed

text \<open>The operations that write plans.\<close>

definition plan_step :: "operation \<Rightarrow> ('w, 'a) run \<Rightarrow> bool" where
  "plan_step op m \<longleftrightarrow> (\<forall>P. hoare (\<lambda>db. plan_of db = P) m (\<lambda>db. plan_spec op P (plan_of db)))"

lemma plan_step_same: "same_plans m \<Longrightarrow> plan_step op m"
  unfolding plan_step_def hoare_def same_plans_def plan_spec_def using plan_of_cong by metis

lemma hoare_plan_quiet:
  assumes "quiet m" "\<And>db. I db \<Longrightarrow> plan_spec op P (plan_of db)"
  shows "hoare I m (\<lambda>db. plan_spec op P (plan_of db))"
  using assms plan_of_cong unfolding hoare_def quiet_def by metis

lemma hoare_plan_tail:
  "hoare I m (\<lambda>db. plan_spec op P (plan_of db)) \<Longrightarrow> (\<And>a. quiet (k a)) \<Longrightarrow>
     hoare I (bindR m k) (\<lambda>db. plan_spec op P (plan_of db))"
  by (erule hoare_bind) (auto intro: hoare_plan_quiet)

lemma hoare_plan_write:
  assumes "\<And>db db'. f db = Inr db' \<Longrightarrow> db_runs db' = upsert_run (run_db_of row) (db_runs db)"
    and "\<And>db. I db \<Longrightarrow> plan_spec op P ((plan_of db)(run_graph_id row \<mapsto> run_plan_state row))"
    and "\<And>db. I db \<Longrightarrow> plan_spec op P (plan_of db)"
  shows "hoare I (store_write env f) (\<lambda>db. plan_spec op P (plan_of db))"
  by (rule hoare_write) (use assms plan_of_upsert in auto)

lemma plan_writes:
  "db_save_run row db = Inr db' \<Longrightarrow> db_runs db' = upsert_run (run_db_of row) (db_runs db)"
  "db_save_run_and_events row evs db = Inr db' \<Longrightarrow> db_runs db' = upsert_run (run_db_of row) (db_runs db)"
  by (auto simp: db_save_run_Inr db_save_run_and_events_def try_res_eq_Inr)

lemma plan_step_decide: "plan_step (OpDecide g decision note) (decide_plan env g decision note)"
  unfolding plan_step_def decide_plan_def
  by (rule allI, rule hoare_reads_bind [OF reads_require], rule hoare_reads_bind [OF reads_load_run],
      rule hoare_reads_bind [OF reads_prims(4)], rule hoare_reads_bind [OF reads_prims(5)],
      rule hoare_plan_tail [OF hoare_plan_write [OF plan_writes(1)]])
    (auto simp: plan_spec_def plan_of_def dest: db_load_run_id intro!: emits)

lemma plan_of_row:
  "db_load_run db g = Inr (Some row) \<Longrightarrow> plan_of db g = Some (run_plan_state row) \<and> run_graph_id row = g"
  by (simp add: plan_of_def db_load_run_id)

lemma plan_spec_mutate:
  assumes "plan_of db = P" "db_load_run db g = Inr (Some row)" "run_graph_id row' = run_graph_id row"
    and "run_plan_state row' = (if review then AwaitingPlanReview else run_plan_state row)"
  shows "plan_spec (OpMutate g m review) P ((plan_of db)(run_graph_id row' \<mapsto> run_plan_state row'))"
  using plan_of_row [OF assms(2)] assms by (auto simp: plan_spec_def)

lemma plan_step_mutate: "plan_step (OpMutate g m review) (mutate_plan env g m review)"
proof -
  have refl: "plan_of db = P \<Longrightarrow> plan_spec op P (plan_of db)" for db P op by (simp add: plan_spec_def)
  show ?thesis
    unfolding plan_step_def mutate_plan_def Let_def
    apply (rule allI, rule hoare_reads_bind [OF reads_require], rule hoare_reads_bind [OF reads_load_run],
        rule hoare_reads_bind [OF reads_prims(4)], rule hoare_reads_bind [OF reads_graph_of],
        rule hoare_reads_bind [OF reads_tasks], rule hoare_reads_bind [OF reads_more(6)],
        rule hoare_reads_bind [OF reads_prims(5)], rule hoare_reads_bind [OF reads_mutation_events],
        rule hoare_reads_bind [OF reads_more(5)],
        rule hoare_plan_tail [OF hoare_plan_write [OF plan_writes(2)]])
               apply assumption
              apply (elim conjE, rule plan_spec_mutate, assumption, simp, simp, simp)
             apply (elim conjE, erule refl)
            apply (intro emits)
    by ((elim conjE)?, erule refl)+
qed

lemma plan_step_stage: "plan_step (OpStage graph base) (stage_plan env graph base)"
proof -
  let ?g = "graph_id (assign_tiers default_assign_tier graph)"
  have "hoare (\<lambda>db. plan_of db = P \<and> db_load_run db ?g = Inr existing) (case existing of
        Some row \<Rightarrow>
          if run_plan_state row = PlanAccepted then throw (PlanAlreadyAccepted ?g)
          else store_write env (db_save_run
            (row\<lparr>run_plan_json := json, run_plan_id := plan_id_of env json,
                 run_plan_state := AwaitingPlanReview, run_base := base\<rparr>))
      | None \<Rightarrow>
          bindR (stamp env) (\<lambda>now. store_write env (db_save_run
            \<lparr>run_graph_id = ?g, run_plan_state = AwaitingPlanReview, run_base = base,
             run_integrate_ref = integrate_branch ?g, run_plan_json = json,
             run_plan_id = plan_id_of env json, run_created_at = now, run_review_note = None\<rparr>)))
      (\<lambda>db. plan_spec (OpStage graph base) P (plan_of db))" for P existing json
    by (intro hoare_control hoare_reads_bind [OF reads_more(1)] hoare_plan_write [OF plan_writes(1)]
        hoare_plan_quiet [OF quiet_prims(2)])
      (auto simp: plan_spec_def plan_of_def dest: db_load_run_id)
  then have put: "hoare I (case existing of
        Some row \<Rightarrow>
          if run_plan_state row = PlanAccepted then throw (PlanAlreadyAccepted ?g)
          else store_write env (db_save_run
            (row\<lparr>run_plan_json := json, run_plan_id := plan_id_of env json,
                 run_plan_state := AwaitingPlanReview, run_base := base\<rparr>))
      | None \<Rightarrow>
          bindR (stamp env) (\<lambda>now. store_write env (db_save_run
            \<lparr>run_graph_id = ?g, run_plan_state = AwaitingPlanReview, run_base = base,
             run_integrate_ref = integrate_branch ?g, run_plan_json = json,
             run_plan_id = plan_id_of env json, run_created_at = now, run_review_note = None\<rparr>)))
      (\<lambda>db. plan_spec (OpStage graph base) P (plan_of db))"
    if "\<And>db. I db \<Longrightarrow> plan_of db = P \<and> db_load_run db ?g = Inr existing" for P existing json I
    using that unfolding hoare_def by blast
  show ?thesis
    unfolding plan_step_def stage_plan_def Let_def
    by (rule allI, rule hoare_reads_bind [OF reads_require], rule hoare_reads_bind [OF reads_more(4)],
        rule hoare_reads_bind [OF reads_more(5)], rule hoare_reads_bind [OF reads_load_run],
        rule hoare_plan_tail [OF put])
      (auto simp: plan_spec_def intro!: emits)
qed

lemma plan_step_start: "plan_step (OpStart graph base) (start_run env graph base)"
proof -
  have ex: "quiet (start_existing env g row)" for g row
    unfolding start_existing_def Let_def by (intro emits)
  have left: "reads (if there then ret True else workspace f) (\<lambda>_ _. True)" for there and f :: "('w, workspace_error + bool) act"
    by (intro reads_if reads_more(2) reads_any [OF reads_prims(1)])
  have same: "plan_of db = P \<and> F \<Longrightarrow> plan_spec op P (plan_of db)" for db P F op by (simp add: plan_spec_def)
  have new: "hoare I (start_new env (assign_tiers default_assign_tier graph) base)
      (\<lambda>db. plan_spec (OpStart graph base) P (plan_of db))"
    if "\<And>db. I db \<Longrightarrow> plan_of db = P \<and> P (graph_id graph) = None" for P and I
    unfolding start_new_def Let_def
    by (rule hoare_reads_bind [OF reads_prims(3)], rule hoare_reads_bind [OF left], rule hoare_control(1),
        rule hoare_plan_quiet [OF quiet_prims(2)], erule same [OF that, OF conjunct1, OF conjunct1],
        rule hoare_reads_bind [OF reads_more(3)], rule hoare_reads_bind [OF reads_more(2)],
        rule hoare_reads_bind [OF reads_more(5)], rule hoare_reads_bind [OF reads_more(1)],
        rule hoare_plan_tail [OF hoare_plan_write [OF plan_writes(1)]])
      (use that in \<open>auto simp: plan_spec_def intro!: emits\<close>)
  show ?thesis
    unfolding plan_step_def start_run_def Let_def
    by (rule allI, rule hoare_reads_bind [OF reads_require], rule hoare_reads_bind [OF reads_more(4)],
        rule hoare_reads_bind [OF reads_load_run], rule hoare_control(3), rule new)
      (auto simp: plan_of_def intro!: hoare_plan_quiet [OF ex] same)
qed

lemma plan_step_ignoring: "plan_step op m \<Longrightarrow> plan_step op (ignoring m)"
  unfolding plan_step_def ignoring_def by (auto intro!: hoare_plan_tail emits)

lemma sample_tiers: "assign_tiers default_assign_tier sample_graph = sample_graph"
  by (simp add: assign_tiers_def sample_graph_def sample_node_def fill_tier_def)

lemma sample_legal: "graph_id_is_legal ''g-1''"
  by (simp add: graph_eval)

lemma blank_admits:
  "require_legacy_mutation sample_env ''g-1'' blank = (Inr (), blank)"
  "load_run sample_env ''g-1'' blank = (Inr None, blank)"
  by (simp_all add: require_legacy_mutation_def require_unbound_graph_def sample_read bindR_def ret_def
      sample_legal blank_def empty_store_def legacy_ownership_unresolved_def load_run_def db_load_run_def)

lemma sample_staged:
  "plan_of (st_store (snd (perform sample_env (OpStage sample_graph ''base'') blank))) ''g-1'' =
     Some AwaitingPlanReview"
proof -
  have v: "validate ref_port sample_graph = Inr ()" by (simp add: validate_def sample_graph_order)
  have gid: "graph_id sample_graph = ''g-1''" by (simp add: sample_graph_def)
  have json: "pf_to_json sample_platform sample_graph = Inr ''plan''" by (simp add: sample_platform_def)
  have w: "reject_bound_graph (st_store blank) ''g-1'' = Inr ()"
    by (simp add: reject_bound_graph_def sample_legal blank_def empty_store_def
        legacy_ownership_unresolved_def)
  have db: "db_runs (st_store blank) = []" by (simp add: blank_def empty_store_def)
  show ?thesis
    by (simp add: perform_def ignoring_def stage_plan_def sample_tiers require_valid_def plan_json_def gid
        bindR_def blank_admits v json of_res_def ret_def sample_stamp sample_write db_save_run_def w db Let_def
        upsert_run_def write_plan_file_def effect_def set_active_def plan_of_def db_load_run_def)
      (simp add: run_db_of_def run_of_db_def codec_simps)
qed

text \<open>
  C4. The plan gate is implemented as specified: seen through \<open>plan_of\<close>, every operation, whatever
  its ports answer and whether it succeeds or fails, either leaves all plan decisions as they were
  or does to one plan what its contract says. Staging or starting puts a plan up for review, staging
  never touches an accepted one, a mutation under review sends the plan back to review, and only a
  decision moves a plan along the plan machine. In particular no plan becomes accepted except by
  a decision on it.
\<close>

theorem plan_gate_refines_spec:
  assumes "perform env op s = (r, s')"
  shows "plan_spec op (plan_of (st_store s)) (plan_of (st_store s'))"
proof -
  note same = plan_step_same [OF same_plans_restart] plan_step_same [OF same_plans_accept]
    plan_step_same [OF same_plans_emits [OF emits_operators(3)]]
    plan_step_same [OF same_plans_quiet [OF quiet_landing(2)]]
    plan_step_same [OF same_plans_quiet [OF quiet_deliverable(2)]]
    plan_step_ignoring [OF plan_step_same [OF same_plans_tick]]
    plan_step_ignoring [OF plan_step_same [OF same_plans_resume]]
    plan_step_ignoring [OF plan_step_same [OF same_plans_quiet [OF quiet_deliverable(1)]]]
    plan_step_ignoring [OF plan_step_same [OF same_plans_quiet [OF quiet_export]]]
  have "plan_step op (perform env op)"
    using plan_step_start plan_step_ignoring [OF plan_step_stage] plan_step_ignoring [OF plan_step_decide]
      plan_step_ignoring [OF plan_step_mutate] same
    by (cases op) (simp_all add: perform_def)
  then show ?thesis using assms unfolding plan_step_def hoare_def by (metis snd_conv)
qed

theorem plan_gate_refines_spec_witness:
  "plan_spec (OpStage sample_graph ''base'') (plan_of empty_store)
     (plan_of (st_store (snd (perform sample_env (OpStage sample_graph ''base'') blank)))) \<and>
   plan_of (st_store (snd (perform sample_env (OpStage sample_graph ''base'') blank))) ''g-1'' =
     Some AwaitingPlanReview"
  using sample_staged plan_gate_refines_spec [of sample_env "OpStage sample_graph ''base''" blank, OF prod.collapse [symmetric]]
  by (simp add: blank_def)

end
