(* ===== verification/Engine_Run_Operator.thy ===== *)
theory Engine_Run_Operator
  imports Engine_Run_Gate
begin

text \<open>
  What each operation an operator calls does to the database, on success and on failure: cancelling,
  accepting, mutating, restarting, preparing a deliverable, and that plan operations fail cleanly.
\<close>

section \<open>Cancelling and accepting\<close>

lemma store_writeE:
  assumes "store_write env f s = (r, s')"
  obtains (error) e where "r = Inl e" "st_store s' = st_store s" "st_active s' = st_active s"
  | (written) db where "r = Inr ()" "f (st_store s) = Inr db" "st_store s' = db" "st_active s' = st_active s"
  using assms
  by (auto simp: store_write_def store_fault_def bindR_def port_def get_store_def put_store_def
      of_res_def ret_def throw_def split: prod.splits sum.splits option.splits)

lemma bind_writeE:
  assumes "bindR (store_write env f) k s = (r, s')"
  obtains (error) e where "r = Inl e" "st_store s' = st_store s" "st_active s' = st_active s"
  | (go) s1 where "f (st_store s) = Inr (st_store s1)" "st_active s1 = st_active s" "k () s1 = (r, s')"
proof -
  obtain x s1 where w: "store_write env f s = (x, s1)" by (cases "store_write env f s")
  from w show thesis
    by (cases rule: store_writeE) (use assms w error go in \<open>auto simp: bindR_def\<close>)
qed

lemma cancel_run_states:
  assumes "cancel_run env g task s = (r, s')" "log_at (st_store s) g p"
    and "graph_from_run (pf_from_json (env_platform env)) (st_store s) g = Inr graph"
    and "distinct (node_ids graph)" "ids = (case task of Some t \<Rightarrow> [t] | None \<Rightarrow> node_ids graph)"
  shows "(\<exists>p'. log_at (st_store s') g p') \<and> (r = Inr () \<longrightarrow> (\<exists>p'. log_at (st_store s') g p' \<and>
    (\<forall>t. p' t = (if t \<in> set ids then Some (if p t = Some Integrated then Integrated else Cancelled) else p t))))"
proof -
  have act: "bindR (set_active a) k s = k () (s\<lparr>st_active := a\<rparr>)"
    for a s and k :: "unit \<Rightarrow> ('a, unit) run"
    by (simp add: bindR_def set_active_def)
  have loop: "runs g p (for_each (cancel_one env g p) ids) (\<lambda>_ q'.
      (\<forall>t \<in> set ids. q' t = Some (if p t = Some Integrated then Integrated else Cancelled)) \<and>
      (\<forall>t. t \<notin> (\<lambda>x. x) ` set ids \<longrightarrow> q' t = p t))"
  proof (rule runs_for_each [of "\<lambda>x. x" ids p p g _
        "\<lambda>t x. x = Some (if p t = Some Integrated then Integrated else Cancelled)"])
    show "distinct (map (\<lambda>x. x) ids)" using assms(4,5) by (auto split: option.split)
  qed (use runs_cancel_one in blast)+
  show ?thesis
    using assms(1) [unfolded cancel_run_def] reads_require
  proof (cases rule: reads_bindE)
    case (error e)
    then show ?thesis using assms(2) by auto
  next
    case (go u s1)
    have rest: "bindR (graph_of env g) (\<lambda>graph. bindR (tasks env g) (\<lambda>ts.
        for_each (cancel_one env g ts) (case task of Some t \<Rightarrow> [t] | None \<Rightarrow> node_ids graph)))
        (s1\<lparr>st_active := Some g\<rparr>) = (r, s')"
      using go(4) unfolding act .
    from rest reads_graph_of show ?thesis
    proof (cases rule: reads_bindE)
      case (error e)
      then show ?thesis using assms(2) go by auto
    next
      case g2: (go graph' s2)
      then have graph: "graph' = graph" using assms(3) go by simp
      from g2(4) reads_tasks show ?thesis
      proof (cases rule: reads_bindE)
        case (error e)
        then show ?thesis using assms(2) go g2 by auto
      next
        case g3: (go ts s3)
        have l: "log_at (st_store s3) g p" using assms(2) go g2 g3 by simp
        have ts: "ts = p" using log_at_tasks [OF l] g3(1,2) by simp
        have "for_each (cancel_one env g p) ids s3 = (r, s')"
          using g3(4) unfolding ts graph assms(5) .
        note out = runs_D [OF loop l this]
        show ?thesis
        proof (intro conjI impI)
          show "\<exists>p'. log_at (st_store s') g p'" using out by blast
          assume "r = Inr ()"
          then obtain p' where "log_at (st_store s') g p'" "\<forall>t. t \<notin> set ids \<longrightarrow> p' t = p t"
              "\<forall>t \<in> set ids. p' t = Some (if p t = Some Integrated then Integrated else Cancelled)"
            using out by auto
          then show "\<exists>p'. log_at (st_store s') g p' \<and> (\<forall>t. p' t = (if t \<in> set ids
              then Some (if p t = Some Integrated then Integrated else Cancelled) else p t))"
            by (intro exI [of _ p']) simp
        qed
      qed
    qed
  qed
qed

text \<open>
  C22. Cancelling a run settles it: when \<open>cancel\<close> returns without an error, every task of the plan
  (or the one task named) is cancelled, except those already integrated, which stay integrated; no
  other task changes state; and also a cancellation that fails half-way leaves a sound log.
\<close>

theorem cancel_settles_the_run:
  assumes "cancel_run env g task s = (r, s')" "log_at (st_store s) g p"
    and "graph_from_run (pf_from_json (env_platform env)) (st_store s) g = Inr graph"
    and "distinct (node_ids graph)"
  shows "(\<exists>p'. log_at (st_store s') g p') \<and>
    (r = Inr () \<longrightarrow> (\<exists>p'. log_at (st_store s') g p' \<and>
      (\<forall>t. p' t =
        (if t \<in> set (case task of Some t \<Rightarrow> [t] | None \<Rightarrow> node_ids graph)
         then Some (if p t = Some Integrated then Integrated else Cancelled) else p t))))"
  by (rule cancel_run_states [OF assms refl])

theorem cancel_settles_the_run_witness:
  "\<exists>p'. log_at (st_store (snd (cancel_run sample_env ''g-1'' (Some 2) (sample_state [])))) ''g-1'' p'"
proof -
  have gr: "graph_from_run (pf_from_json (env_platform sample_env)) (st_store (sample_state [])) ''g-1'' =
      Inr sample_graph"
    by (simp add: graph_from_run_def db_load_run_def sample_state_def run_of_db_def accepted_run_def
        parse_plan_state_def plan_state_table_def)
  have d: "distinct (node_ids sample_graph)" by (simp add: sample_graph_def sample_node_def)
  show ?thesis
    using cancel_settles_the_run [OF prod.collapse [symmetric] sample_first_log gr d] by blast
qed

lemma append_acceptE:
  assumes "append_ev env g t a AwaitingReview HumanAcceptanceRecorded why s = (r, s')"
  obtains (error) e where "r = Inl e" "st_store s' = st_store s"
  | (written) rec where "r = Inr rec" "db_append rec (st_store s) = Inr (st_store s')" "tr_graph_id rec = g"
      "tr_task_id rec = t" "tr_from rec = AwaitingReview" "tr_to rec = Accepted"
      "tr_event rec = HumanAcceptanceRecorded"
proof -
  have tr: "transition AwaitingReview HumanAcceptanceRecorded = Inr Accepted" by (simp add: transition_def)
  have close: "close_attempt env a HumanAcceptanceRecorded now = ret ()" for now
    by (simp add: close_attempt_def ends_attempt_def)
  show thesis
    using assms unfolding append_ev_def append_as_def tr sum.case Let_def close bindR_ret
    by (auto elim!: reads_bindE [OF _ reads_more(1)] bind_writeE simp: ret_def intro: error written)
qed

lemma record_then_acceptE:
  assumes "bindR (record_evidence_row env ev) (\<lambda>_.
      bindR (append_ev env g t a AwaitingReview HumanAcceptanceRecorded why) (\<lambda>_. ret ())) s = (r, s')"
    and "log_at (st_store s) g p" "state_of p t = AwaitingReview"
  shows "(\<exists>e. r = Inl e) \<and> log_at (st_store s') g p \<or>
    r = Inr () \<and> log_at (st_store s') g (p(t \<mapsto> Accepted)) \<and> ev \<in> set (db_evidence (st_store s'))"
  using assms(1) unfolding record_evidence_row_def
proof (cases rule: bind_writeE)
  case (error e)
  then show ?thesis using assms(2) by auto
next
  case (go s1)
  have ev: "db_events (st_store s1) = db_events (st_store s)" "ev \<in> set (db_evidence (st_store s1))"
    using db_record_Inr [OF go(1)] by (simp_all add: db_record_row_def)
  then have l: "log_at (st_store s1) g p" using log_at_cong assms(2) by blast
  obtain x s2 where app: "append_ev env g t a AwaitingReview HumanAcceptanceRecorded why s1 = (x, s2)"
    by (cases "append_ev env g t a AwaitingReview HumanAcceptanceRecorded why s1")
  from app show ?thesis
  proof (cases rule: append_acceptE)
    case (error e)
    then show ?thesis using go(3) app l by (auto simp: bindR_def)
  next
    case (written rec)
    have "log_at (st_store s2) g (p(tr_task_id rec \<mapsto> tr_to rec))"
      by (rule log_at_append [OF l written(2,3)]) (use written assms(3) in \<open>simp_all add: transition_def\<close>)
    moreover have "db_evidence (st_store s2) = db_evidence (st_store s1)"
      using written(2) by (simp add: db_append_Inr)
    ultimately show ?thesis using go(3) app written ev(2) by (simp add: bindR_def ret_def)
  qed
qed

lemma accept_human_outcome:
  assumes "accept_human env t who s = (r, s')" "st_active s = Some g" "log_at (st_store s) g p"
  shows "(\<exists>e. r = Inl e) \<and> log_at (st_store s') g p \<or>
    r = Inr () \<and> trim who \<noteq> [] \<and> state_of p t = AwaitingReview \<and>
    log_at (st_store s') g (p(t \<mapsto> Accepted)) \<and>
    (\<exists>a rev now. HumanAcceptance
       \<lparr>ha_candidate = \<lparr>cr_task_id = t, cr_attempt_id = a, cr_revision = rev\<rparr>,
        ha_accepted_by = who, ha_accepted_at = now\<rparr> \<in> set (db_evidence (st_store s')))"
proof (cases "trim who = []")
  case True
  then show ?thesis using assms by (auto simp: accept_human_def throw_def)
next
  case False
  have get: "bindR get_active k s = k (Some g) s" for k :: "string option \<Rightarrow> ('a, unit) run"
    using assms(2) by (simp add: bindR_def get_active_def)
  have hd: "reads (case x of None \<Rightarrow> ret None
      | Some wt \<Rightarrow> bindR (port (ws_head (env_workspace env) wt)) (\<lambda>h. ret (res_ok h))) (\<lambda>_ _. True)" for x
    by (auto split: option.split intro!: reads_bind [OF reads_prims(3)] intro: reads_weaken [OF reads_prims(1)])
  have run: "bindR (require_legacy_mutation env g) (\<lambda>_. bindR (tasks env g) (\<lambda>ts.
          if state_of ts t = Accepted \<or> state_of ts t = Integrated then throw (AlreadyAccepted t)
          else if state_of ts t \<noteq> AwaitingReview then throw (NotAwaitingReview t)
          else
            bindR (latest_attempt env g t) (\<lambda>att.
            bindR (of_option (IllegalErr ''no attempt to accept'') att) (\<lambda>a.
            bindR (case at_worktree_path a of
                     None \<Rightarrow> ret None
                   | Some wt \<Rightarrow>
                       bindR (port (ws_head (env_workspace env) wt)) (\<lambda>h. ret (res_ok h))) (\<lambda>hd'.
            bindR (stamp env) (\<lambda>now.
            bindR (record_evidence_row env (HumanAcceptance
              \<lparr>ha_candidate = \<lparr>cr_task_id = t, cr_attempt_id = at_attempt_id a,
                 cr_revision = (case hd' of Some r \<Rightarrow> r | None \<Rightarrow> ''unknown'')\<rparr>,
               ha_accepted_by = who, ha_accepted_at = now\<rparr>)) (\<lambda>_.
            bindR (append_ev env g t (Some (at_attempt_id a)) AwaitingReview HumanAcceptanceRecorded
                     (Some (''accepted-by:'' @ who))) (\<lambda>_. ret ()))))))))
        s = (r, s')"
    using assms(1) False by (simp add: accept_human_def get of_option_def Let_def)
  from run reads_require show ?thesis
  proof (cases rule: reads_bindE)
    case (error e)
    then show ?thesis using assms(3) by auto
  next
    case g1: (go u s1)
    from g1(4) reads_tasks show ?thesis
    proof (cases rule: reads_bindE)
      case (error e)
      then show ?thesis using assms(3) g1 by auto
    next
      case g2: (go ts s2)
      have l: "log_at (st_store s2) g p" using assms(3) g1 g2 by simp
      have ts: "ts = p" using log_at_tasks [OF l] g2(1,2) by simp
      show ?thesis
      proof (cases "state_of p t = AwaitingReview")
        case False
        then show ?thesis using g2(4) l ts by (auto simp: throw_def split: if_splits)
      next
        case True
        then show ?thesis
          using g2(4) unfolding ts
          by (simp, elim reads_bindE [OF _ reads_latest_attempt] reads_bindE [OF _ reads_prims(4)]
              reads_bindE [OF _ hd] reads_bindE [OF _ reads_more(1)])
            (use l True False in \<open>auto dest!: record_then_acceptE [where p = p]\<close>)
      qed
    qed
  qed
qed

text \<open>
  C17. A human acceptance is what it says: \<open>accept_human\<close> succeeds only for a non-blank identity and
  a task of the active graph that awaits review; then the evidence naming that identity is stored
  before the log says \<open>Accepted\<close>, and no other task changes. When it fails, for whatever reason,
  the log is as it was.
\<close>

theorem human_acceptance_is_recorded:
  assumes "accept_human env t who s = (r, s')" "st_active s = Some g" "log_at (st_store s) g p"
  shows "(\<exists>e. r = Inl e) \<and> log_at (st_store s') g p \<or>
    r = Inr () \<and> trim who \<noteq> [] \<and> state_of p t = AwaitingReview \<and>
    log_at (st_store s') g (p(t \<mapsto> Accepted)) \<and>
    (\<exists>a rev now. HumanAcceptance
       \<lparr>ha_candidate = \<lparr>cr_task_id = t, cr_attempt_id = a, cr_revision = rev\<rparr>,
        ha_accepted_by = who, ha_accepted_at = now\<rparr> \<in> set (db_evidence (st_store s')))"
  by (rule accept_human_outcome [OF assms])

theorem human_acceptance_is_recorded_witness:
  "log_at (st_store (snd (accept_human sample_env 1 ''ann'' (sample_state [])))) ''g-1'' Map.empty"
proof -
  have st: "st_active (sample_state []) = Some ''g-1''" by (simp add: sample_state_def)
  have "state_of Map.empty 1 \<noteq> AwaitingReview" by simp
  then show ?thesis
    using human_acceptance_is_recorded [OF prod.collapse [symmetric] st sample_first_log, of sample_env 1 "''ann''"]
    by blast
qed

section \<open>Mutating a plan\<close>

lemma graph_wf_assign_tiers:
  assumes "graph_wf graph"
  shows "graph_wf (assign_tiers default_assign_tier graph)"
proof -
  have fill: "n_depends_on (fill_tier t n) = n_depends_on n" "n_id (fill_tier t n) = n_id n"
      "node_ok n \<Longrightarrow> node_ok (fill_tier t n)" for t n
    by (auto simp: fill_tier_def node_ok_def verify_gate_illegal_def)
  define fl where "fl n = (if n_id n \<in> set (node_ids graph)
      then fill_tier (default_assign_tier graph (n_id n)) n else n)" for n
  have g: "assign_tiers default_assign_tier graph = graph\<lparr>nodes := map fl (nodes graph)\<rparr>"
    using assms assign_tiers_loop_default [of graph "node_ids graph"]
    by (simp add: assign_tiers_def graph_wf_def fl_def)
  have fl: "n_depends_on (fl n) = n_depends_on n" "n_id (fl n) = n_id n" "node_ok n \<Longrightarrow> node_ok (fl n)" for n
    by (simp_all add: fl_def fill)
  have ids: "node_ids (graph\<lparr>nodes := map fl (nodes graph)\<rparr>) = node_ids graph"
    by (simp add: fl comp_def)
  have "set (graph_edges (graph\<lparr>nodes := map fl (nodes graph)\<rparr>)) = set (graph_edges graph)"
    by (simp add: graph_edges_def node_edges_def fl comp_def)
  then show ?thesis
    unfolding g using assms ids by (auto simp: graph_wf_def fl comp_def)
qed

text \<open>The states after a mutation: a ready task that gets a new prerequisite waits again.\<close>

definition mutated_states ::
    "graph_mutation \<Rightarrow> (task_id \<rightharpoonup> task_state) \<Rightarrow> (task_id \<rightharpoonup> task_state)" where
  "mutated_states m p =
     (case m of
        InsertPrerequisite target _ \<Rightarrow> if p target = Some Ready then p(target \<mapsto> Pending) else p
      | AppendFollowup _ _ \<Rightarrow> p)"

lemma reads_mutation_records:
  "reads (mutation_events env g ts m) (\<lambda>_ evs. list_all (\<lambda>r. tr_graph_id r = g) evs \<and>
     advance_all ts evs = Some (mutated_states m ts))"
proof (cases m)
  case (InsertPrerequisite target new)
  then show ?thesis
    by (auto simp: mutation_events_def of_res_def transition_def mutated_states_def advance_def state_of_def
        intro!: reads_bind [OF reads_more(1)] intro: reads_weaken [OF reads_prims(1)])
qed (auto simp: mutation_events_def mutated_states_def intro: reads_weaken [OF reads_prims(1)])

lemma reads_mutation_guard:
  "reads (mutation_guard graph ts m) (\<lambda>_ _. case m of
     InsertPrerequisite target _ \<Rightarrow> (\<forall>x. ts target = Some x \<longrightarrow> \<not> frozen x) | AppendFollowup _ _ \<Rightarrow> True)"
  by (auto simp: mutation_guard_def reads_def ret_def throw_def split: graph_mutation.split option.split)

lemma mutate_planE:
  assumes "mutate_plan env g m review s = (r, s')"
  obtains (error) e where "r = Inl e" "st_store s' = st_store s"
  | (stored) row graph ts mutated evs json where
      "db_load_run (st_store s) g = Inr (Some row)"
      "graph_from_run (pf_from_json (env_platform env)) (st_store s) g = Inr graph"
      "try_res (db_records_for_graph (st_store s) g) replay_tasks = Inr ts"
      "case m of InsertPrerequisite target _ \<Rightarrow> (\<forall>x. ts target = Some x \<longrightarrow> \<not> frozen x)
         | AppendFollowup _ _ \<Rightarrow> True"
      "apply_mutation (pf_topo (env_platform env)) graph m = Inr mutated"
      "r = Inr (assign_tiers default_assign_tier mutated)"
      "list_all (\<lambda>r. tr_graph_id r = g) evs \<and> advance_all ts evs = Some (mutated_states m ts)"
      "pf_to_json (env_platform env) (assign_tiers default_assign_tier mutated) = Inr json"
      "db_save_run_and_events
        (row\<lparr>run_plan_json := json, run_plan_id := plan_id_of env json,
             run_plan_state := (if review then AwaitingPlanReview else run_plan_state row)\<rparr>) evs (st_store s) =
        Inr (st_store s')"
proof -
  have fin: "bindR (write_plan_file env json) (\<lambda>_. ret x) s1 = (r, s') \<Longrightarrow> r = Inr x \<and> st_store s' = st_store s1"
    for json x s1
    by (auto simp: write_plan_file_def bindR_def effect_def ret_def Let_def)
  show thesis
    using assms unfolding mutate_plan_def Let_def
    apply (elim reads_bindE [OF _ reads_require] reads_bindE [OF _ reads_load_run]
        reads_bindE [OF _ reads_prims(4)] reads_bindE [OF _ reads_graph_of]
        reads_bindE [OF _ reads_tasks] reads_bindE [OF _ reads_mutation_guard] reads_bindE [OF _ reads_prims(5)]
        reads_bindE [OF _ reads_mutation_records] reads_bindE [OF _ reads_more(5)] bind_writeE)
             apply (rule error, assumption, simp)+
    apply (auto dest!: fin intro: stored)
    done
qed

lemma candidate_keeps_ids:
  "mutation_candidate graph m = Inr graph' \<Longrightarrow> set (node_ids graph) \<subseteq> set (node_ids graph')"
proof (cases m)
  case (InsertPrerequisite target new)
  assume "mutation_candidate graph m = Inr graph'"
  then show ?thesis
    using candidate_insert(1) InsertPrerequisite by (simp add: map_n_id_update_node flip: set_map)
next
  case (AppendFollowup src new)
  assume "mutation_candidate graph m = Inr graph'"
  then show ?thesis using candidate_followup(1) AppendFollowup by auto
qed

lemma plan_write_events:
  "db_save_run_and_events row evs db = Inr db' \<Longrightarrow> db_events db' = db_events db @ map event_row_of evs"
  by (auto simp: db_save_run_and_events_def try_res_eq_Inr)

lemma mutate_plan_outcome:
  assumes "mutate_plan env g m review s = (r, s')" "topo_spec (pf_topo (env_platform env))"
    and "log_at (st_store s) g p"
  shows "(\<exists>e. r = Inl e) \<and> st_store s' = st_store s \<or>
    (\<exists>graph graph' row'. r = Inr graph' \<and>
       graph_from_run (pf_from_json (env_platform env)) (st_store s) g = Inr graph \<and>
       graph_wf graph' \<and> set (node_ids graph) \<subseteq> set (node_ids graph') \<and>
       (\<forall>target new. m = InsertPrerequisite target new \<longrightarrow> \<not> frozen (state_of p target)) \<and>
       db_load_run (st_store s') g = Inr (Some row') \<and>
       pf_to_json (env_platform env) graph' = Inr (run_plan_json row') \<and>
       (review \<longrightarrow> run_plan_state row' = AwaitingPlanReview) \<and>
       log_at (st_store s') g (mutated_states m p))"
  using assms(1)
proof (cases rule: mutate_planE)
  case (error e)
  then show ?thesis by auto
next
  case (stored row graph ts mutated evs json)
  let ?graph' = "assign_tiers default_assign_tier mutated"
  let ?row = "row\<lparr>run_plan_json := json, run_plan_id := plan_id_of env json,
      run_plan_state := (if review then AwaitingPlanReview else run_plan_state row)\<rparr>"
  have ts: "ts = p" by (rule log_at_tasks [OF assms(3) stored(3)])
  have wf: "graph_wf ?graph'"
    using apply_mutation_wf [OF assms(2) stored(5)] by (rule graph_wf_assign_tiers)
  have ids: "set (node_ids graph) \<subseteq> set (node_ids ?graph')"
    using candidate_keeps_ids stored(5) unfolding apply_mutation_Inr node_ids_assign_tiers by blast
  have db: "db_runs (st_store s') = upsert_run (run_db_of ?row) (db_runs (st_store s))"
      "db_events (st_store s') = db_events (st_store s) @ map event_row_of evs"
    using plan_writes(2) [OF stored(9)] plan_write_events [OF stored(9)] .
  have gid: "run_graph_id row = g" using stored(1) by (rule db_load_run_id)
  obtain row' where row': "db_load_run (st_store s') g = Inr (Some row')" "run_plan_json row' = json"
      "run_plan_state row' = (if review then AwaitingPlanReview else run_plan_state row)"
    using load_upsert_run(1) [OF db(1)] gid by (auto split: option.splits)
  have "filter (\<lambda>r. tr_graph_id r = g) evs = evs" using stored(7) by (auto simp: list_all_iff)
  then have "log_at (st_store s') g (mutated_states m p)"
    using log_at_extend [OF db(2) assms(3)] stored(7) ts by simp
  moreover have "m = InsertPrerequisite target new \<longrightarrow> \<not> frozen (state_of p target)" for target new
    using stored(4) ts by (auto simp: state_of_def frozen_def split: option.splits)
  ultimately show ?thesis
    using stored(2,6,8) wf ids row' by (intro disjI2 exI [of _ graph] exI [of _ ?graph'] exI [of _ row']) auto
qed

text \<open>
  C13. A mutation of a running plan is all or nothing. If \<open>mutate_plan\<close> fails, the database is
  exactly as it was. If it succeeds, the plan it returns is valid, still has all the old tasks and
  is the plan now stored; a task that was running, verifying, reviewed or finished never got a new
  prerequisite; under review the plan needs a new decision; and the log says what it said before,
  except that a ready task with new prerequisites waits again.
\<close>

theorem mutate_plan_is_atomic:
  assumes "mutate_plan env g m review s = (r, s')" "topo_spec (pf_topo (env_platform env))"
    and "log_at (st_store s) g p"
  shows "(\<exists>e. r = Inl e) \<and> st_store s' = st_store s \<or>
    (\<exists>graph graph' row'. r = Inr graph' \<and>
       graph_from_run (pf_from_json (env_platform env)) (st_store s) g = Inr graph \<and>
       graph_wf graph' \<and> set (node_ids graph) \<subseteq> set (node_ids graph') \<and>
       (\<forall>target new. m = InsertPrerequisite target new \<longrightarrow> \<not> frozen (state_of p target)) \<and>
       db_load_run (st_store s') g = Inr (Some row') \<and>
       pf_to_json (env_platform env) graph' = Inr (run_plan_json row') \<and>
       (review \<longrightarrow> run_plan_state row' = AwaitingPlanReview) \<and>
       log_at (st_store s') g (mutated_states m p))"
  by (rule mutate_plan_outcome [OF assms])

theorem mutate_plan_is_atomic_witness:
  "\<exists>p'. log_at (st_store (snd (mutate_plan sample_env ''g-1'' (AppendFollowup 1 []) True (sample_state []))))
     ''g-1'' p'"
proof -
  have t: "topo_spec (pf_topo (env_platform sample_env))" by (simp add: ref_port_spec)
  show ?thesis
    using mutate_plan_is_atomic [OF prod.collapse [symmetric] t sample_first_log] sample_first_log by metis
qed

section \<open>Restarting\<close>

abbreviation still :: "('w, 'a) run \<Rightarrow> bool" where
  "still m \<equiv> reads m (\<lambda>_ _. True)"

lemma still_bind: "still m \<Longrightarrow> (\<And>a. still (k a)) \<Longrightarrow> still (bindR m k)"
  by (rule reads_bind) auto

lemma still_control:
  "(b \<Longrightarrow> still x) \<Longrightarrow> (\<not> b \<Longrightarrow> still y) \<Longrightarrow> still (if b then x else y)"
  "(x' = None \<Longrightarrow> still n) \<Longrightarrow> (\<And>a. x' = Some a \<Longrightarrow> still (sm a)) \<Longrightarrow>
     still (case x' of None \<Rightarrow> n | Some a \<Rightarrow> sm a)"
  by (auto split: option.splits)

lemma still_loops:
  "(\<And>x. still (f x)) \<Longrightarrow> still (for_each f xs)" "(\<And>x. still (h x)) \<Longrightarrow> still (first_some h ys)"
proof -
  show "still (for_each f xs)" if "\<And>x. still (f x)"
    by (induction xs) (auto intro: still_bind that reads_any [OF reads_prims(1)])
  show "still (first_some h ys)" if "\<And>x. still (h x)"
    by (induction ys) (auto intro!: still_bind still_control that reads_any [OF reads_prims(1)])
qed

lemmas still_prims = reads_any [OF reads_prims(1)] reads_any [OF reads_prims(2)] reads_prims(3)
  reads_any [OF reads_prims(4)] reads_any [OF reads_prims(5)] reads_any [OF reads_store_read] reads_more(1-3)

lemma still_wipe: "still (wipe_attempt env g a)"
proof -
  have "still (resolve_pane env a)"
    unfolding resolve_pane_def by (intro still_bind still_control still_loops still_prims)
  then show ?thesis
    unfolding wipe_attempt_def by (intro still_bind still_control still_prims)
qed

lemma bindR_assoc: "bindR (bindR m k) h = bindR m (\<lambda>a. bindR (k a) h)"
  by (auto simp: bindR_def fun_eq_iff split: prod.split sum.split)

lemma reset_executionE:
  assumes "bindR (reset_execution env g) (\<lambda>_. set_active (Some g)) s = (r, s')"
  obtains (error) e where "r = Inl e" "st_store s' \<in> {st_store s, reset_evidence g (st_store s),
      reset_events g (reset_evidence g (st_store s))}"
  | (reset) "r = Inr ()" "st_active s' = Some g"
      "st_store s' = reset_attempts g (reset_events g (reset_evidence g (st_store s)))"
  using assms unfolding reset_execution_def bindR_assoc
  by (elim reads_bindE [OF _ reads_store_read] bind_writeE) (auto simp: set_active_def)

lemma restartE:
  assumes "restart env g s = (r, s')"
  obtains (error) e where "r = Inl e" "st_store s' = st_store s"
  | (go) s1 where "st_store s1 = st_store s" "plan_of (st_store s) g = Some PlanAccepted"
      "bindR (reset_execution env g) (\<lambda>_. set_active (Some g)) s1 = (r, s')"
proof -
  have still: "still clear_pending" by (simp add: reads_def clear_pending_def)
  have hard: "still (if there then bindR (port (ws_reset_hard ws path base)) (\<lambda>_. ret ()) else ret ())"
    for there ws path base
    by (intro still_bind still_control still_prims)
  have acc: "run_plan_state row = PlanAccepted \<Longrightarrow> db_load_run (st_store s) g = Inr (Some row) \<Longrightarrow>
      plan_of (st_store s) g = Some PlanAccepted" for row
    by (simp add: plan_of_def)
  show thesis
    using assms unfolding restart_def
    apply (elim reads_bindE [OF _ reads_require] reads_bindE [OF _ reads_load_run]
        reads_bindE [OF _ reads_prims(4)])
       apply (rule error, assumption, simp)+
    apply (simp split: if_split_asm)
     apply (auto simp: throw_def intro: error)[1]
    apply (elim reads_bindE [OF _ still] reads_bindE [OF _ reads_store_read]
        reads_bindE [OF _ still_loops(1)] reads_bindE [OF _ reads_prims(3)] reads_bindE [OF _ hard])
              apply (rule still_wipe | rule error, assumption, simp)+
    apply (rule go)
      apply (auto intro: acc)
    done
qed

lemma records_of_resets:
  "db_records_for_graph (reset_evidence g db) h = db_records_for_graph db h"
  "db_records_for_graph (reset_attempts g db) h = db_records_for_graph db h"
  "db_records_for_graph (reset_events g db) h = (if h = g then Inr [] else db_records_for_graph db h)"
  by (auto simp: reset_evidence_def reset_attempts_def reset_events_def db_records_for_graph_def
      intro!: arg_cong [of _ _ "map_res record_of_row"] filter_cong)

text \<open>
  Restarting a run forgets its execution and nothing else: \<open>restart\<close> succeeds only for an
  accepted plan, after which the graph has no records and no attempts, so every task is pending
  again, while the plan itself is kept; and whether it succeeds or fails, every plan and the records
  of every other graph are as before.
\<close>

theorem restart_forgets_one_run:
  assumes "restart env g s = (r, s')"
  shows "db_runs (st_store s') = db_runs (st_store s) \<and>
    (\<forall>h. h \<noteq> g \<longrightarrow> db_records_for_graph (st_store s') h = db_records_for_graph (st_store s) h) \<and>
    (r = Inr () \<longrightarrow> plan_of (st_store s) g = Some PlanAccepted \<and> st_active s' = Some g \<and>
       db_records_for_graph (st_store s') g = Inr [] \<and> db_attempts_for_graph (st_store s') g = [])"
proof -
  have runs: "db_runs (st_store s') = db_runs (st_store s)"
    using same_plans_restart [of env g] assms unfolding same_plans_def by (metis snd_conv)
  from assms show ?thesis
  proof (cases rule: restartE)
    case (error e)
    then show ?thesis by simp
  next
    case (go s1)
    from go(3) show ?thesis
    proof (cases rule: reset_executionE)
      case (error e)
      then show ?thesis using runs go by (auto simp: records_of_resets)
    next
      case reset
      have "db_attempts_for_graph (st_store s') g = []"
        by (simp add: reset(3) reset_attempts_def db_attempts_for_graph_def filter_empty_conv)
      then show ?thesis using runs go reset by (simp add: records_of_resets)
    qed
  qed
qed

theorem restart_forgets_one_run_witness:
  "db_runs (st_store (snd (restart sample_env ''g-1'' (sample_state [])))) = [accepted_run]"
  using restart_forgets_one_run [OF prod.collapse [symmetric], of sample_env "''g-1''" "sample_state []"]
  by (simp add: sample_state_def)

section \<open>Deliverables\<close>

lemma reads_ready_all:
  "reads (for_each (deliverable_ready ts) order)
     (\<lambda>_ _. \<forall>i \<in> set order. ts i = Some Accepted \<or> ts i = Some Integrated)"
proof (induction order)
  case (Cons i order)
  have one: "reads (deliverable_ready ts i) (\<lambda>_ _. ts i = Some Accepted \<or> ts i = Some Integrated)"
    by (auto simp: deliverable_ready_def reads_def ret_def throw_def state_of_def split: option.splits)
  show ?case
    unfolding for_each.simps by (rule reads_bind [OF one], rule reads_weaken [OF Cons.IH]) auto
qed (auto simp: reads_def ret_def)

lemma reads_cond: "(b \<Longrightarrow> reads x Q) \<Longrightarrow> (\<not> b \<Longrightarrow> reads y Q) \<Longrightarrow> reads (if b then x else y) Q"
  by simp

lemma reads_prepare:
  "reads (prepare_deliverable env g tag) (\<lambda>db view. graph_id_is_legal tag \<and> (\<exists>graph ts.
     graph_from_run (pf_from_json (env_platform env)) db g = Inr graph \<and>
     try_res (db_records_for_graph db g) replay_tasks = Inr ts \<and>
     deliverable_closure env graph tag = Inr (dv_nodes view, dv_outside_dependencies view) \<and>
     (\<forall>i \<in> set (dv_nodes view). ts i = Some Accepted \<or> ts i = Some Integrated)))"
proof -
  have replay: "still (replay_node env g wt i)" for wt i
    unfolding replay_node_def latest_attempt_def by (intro still_bind still_prims)
  show ?thesis
    unfolding prepare_deliverable_def Let_def
    apply (rule reads_bind [OF reads_require], rule reads_cond)
     apply (rule reads_weaken [OF reads_prims(2)], simp)
    apply (rule reads_bind [OF reads_load_run], rule reads_bind [OF reads_prims(4)],
        rule reads_bind [OF reads_graph_of], rule reads_bind [OF reads_prims(5)])
    apply (simp only: split_beta, rule reads_bind [OF reads_tasks], rule reads_bind [OF reads_ready_all],
        rule reads_bind [OF reads_more(2)], rule reads_bind [OF reads_more(2)],
        rule reads_bind [OF reads_more(2)], rule reads_bind [OF reads_more(3)],
        rule reads_bind [OF reads_more(2)], rule reads_bind [OF still_loops(1) [OF replay]],
        rule reads_bind [OF reads_more(2)], rule reads_weaken [OF reads_prims(1)])
    apply auto
    done
qed

text \<open>
  A deliverable is built from accepted work only: \<open>prepare_deliverable\<close> never changes the
  database, and when it returns, the tag occurs in a valid plan, the nodes it replayed are exactly
  the tagged ones and everything they transitively depend on, in dependency order, and each of them
  was accepted or integrated.
\<close>

theorem deliverable_from_accepted_work:
  assumes "prepare_deliverable env g tag s = (r, s')" "topo_spec (pf_topo (env_platform env))"
    and "log_at (st_store s) g p"
  shows "st_store s' = st_store s \<and>
    (\<forall>view. r = Inr view \<longrightarrow> (\<exists>graph.
       graph_from_run (pf_from_json (env_platform env)) (st_store s) g = Inr graph \<and> graph_wf graph \<and>
       set (dv_nodes view) = {d. \<exists>n \<in> set (nodes graph). n_deliverable n = Some tag \<and>
         (d, n_id n) \<in> (set (graph_edges graph))\<^sup>*} \<and>
       (\<forall>(d, i) \<in> set (graph_edges graph). i \<in> set (dv_nodes view) \<longrightarrow> before (dv_nodes view) d i) \<and>
       (\<forall>i \<in> set (dv_nodes view). p i = Some Accepted \<or> p i = Some Integrated)))"
proof (intro conjI allI impI)
  have rd: "st_store (snd (prepare_deliverable env g tag s)) = st_store s"
    using reads_prepare unfolding reads_def by blast
  then show "st_store s' = st_store s" using assms(1) by simp
  fix view assume "r = Inr view"
  then obtain graph ts where v: "graph_from_run (pf_from_json (env_platform env)) (st_store s) g = Inr graph"
      "try_res (db_records_for_graph (st_store s) g) replay_tasks = Inr ts"
      "deliverable_closure env graph tag = Inr (dv_nodes view, dv_outside_dependencies view)"
      "\<forall>i \<in> set (dv_nodes view). ts i = Some Accepted \<or> ts i = Some Integrated"
    using reads_prepare [of env g tag] assms(1) unfolding reads_def by (metis fst_conv)
  have ts: "ts = p" by (rule log_at_tasks [OF assms(3) v(2)])
  note c = deliverable_closure_Inr [OF assms(2) v(3)]
  show "\<exists>graph. graph_from_run (pf_from_json (env_platform env)) (st_store s) g = Inr graph \<and>
       graph_wf graph \<and>
       set (dv_nodes view) = {d. \<exists>n \<in> set (nodes graph). n_deliverable n = Some tag \<and>
         (d, n_id n) \<in> (set (graph_edges graph))\<^sup>*} \<and>
       (\<forall>(d, i) \<in> set (graph_edges graph). i \<in> set (dv_nodes view) \<longrightarrow> before (dv_nodes view) d i) \<and>
       (\<forall>i \<in> set (dv_nodes view). p i = Some Accepted \<or> p i = Some Integrated)"
    unfolding closure_as_set [symmetric] using v c ts by blast
qed

theorem deliverable_from_accepted_work_witness:
  "st_store (snd (prepare_deliverable sample_env ''g-1'' ''docs'' (sample_state []))) =
     st_store (sample_state [])"
proof -
  have t: "topo_spec (pf_topo (env_platform sample_env))" by (simp add: ref_port_spec)
  show ?thesis
    using deliverable_from_accepted_work [OF prod.collapse [symmetric] t sample_first_log, of "''docs''"] by blast
qed

section \<open>Failing cleanly\<close>

text \<open>
  \<open>clean m\<close>: when \<open>m\<close> fails the store is as before. \<open>sure m\<close>: \<open>m\<close> does not fail.
\<close>

definition clean :: "('w, 'a) run \<Rightarrow> bool" where
  "clean m \<longleftrightarrow> (\<forall>s e. fst (m s) = Inl e \<longrightarrow> st_store (snd (m s)) = st_store s)"

definition sure :: "('w, 'a) run \<Rightarrow> bool" where
  "sure m \<longleftrightarrow> (\<forall>s. \<exists>a. fst (m s) = Inr a)"

lemma clean_reads: "reads m Q \<Longrightarrow> clean m"
  by (simp add: clean_def reads_def)

lemma clean_sure: "sure m \<Longrightarrow> clean m"
  unfolding clean_def sure_def by (metis Inl_Inr_False)

lemma clean_reads_bind:
  assumes "reads m Q" "\<And>a. clean (k a)" shows "clean (bindR m k)"
  unfolding clean_def
proof (intro allI impI)
  fix s e assume "fst (bindR m k s) = Inl e"
  then obtain s' where b: "bindR m k s = (Inl e, s')" by (metis prod.collapse)
  from b assms(1) have "st_store s' = st_store s"
  proof (cases rule: reads_bindE)
    case (go a s1)
    then have "fst (k a s1) = Inl e" "snd (k a s1) = s'" by simp_all
    then show ?thesis using assms(2) go(2) unfolding clean_def by metis
  qed simp
  then show "st_store (snd (bindR m k s)) = st_store s" using b by simp
qed

lemma clean_bind_sure:
  assumes "clean m" "\<And>a. sure (k a)" shows "clean (bindR m k)"
  unfolding clean_def
proof (intro allI impI)
  fix s e assume f: "fst (bindR m k s) = Inl e"
  obtain r s1 where m: "m s = (r, s1)" by (cases "m s")
  show "st_store (snd (bindR m k s)) = st_store s"
  proof (cases r)
    case (Inl x)
    then have "st_store s1 = st_store s"
      using assms(1) m unfolding clean_def by (metis fst_conv snd_conv)
    then show ?thesis using m Inl by (simp add: bindR_def)
  next
    case (Inr a)
    then have "fst (k a s1) = Inl e" using f m by (simp add: bindR_def)
    then show ?thesis using assms(2) unfolding sure_def by (metis Inl_Inr_False)
  qed
qed

lemma clean_write: "clean (store_write env f)"
  by (auto simp: clean_def store_write_def store_fault_def bindR_def port_def get_store_def put_store_def
      of_res_def ret_def throw_def split: prod.splits sum.splits option.splits)

lemma clean_control:
  "clean x \<Longrightarrow> clean y \<Longrightarrow> clean (if b then x else y)"
  "clean n \<Longrightarrow> (\<And>a. clean (sm a)) \<Longrightarrow> clean (case x' of None \<Rightarrow> n | Some a \<Rightarrow> sm a)"
  "(\<And>v. clean (lf v)) \<Longrightarrow> clean (let v = lv in lf v)"
  by (auto split: option.split)

lemma sure_bind: "sure m \<Longrightarrow> (\<And>a. sure (k a)) \<Longrightarrow> sure (bindR m k)"
  by (auto simp: sure_def bindR_def split: prod.split sum.split) (metis fst_conv Inl_Inr_False)

lemma sure_prims: "sure (ret a)" "sure (set_active g)" "sure (effect f)" "sure (write_plan_file env json)"
proof -
  show 1: "sure (effect f)" for f by (simp add: sure_def effect_def)
  show "sure (ret a)" "sure (set_active g)" by (simp_all add: sure_def ret_def set_active_def)
  show "sure (write_plan_file env json)" unfolding write_plan_file_def Let_def by (intro sure_bind 1)
qed

lemma clean_plan_operations:
  "clean (start_run env graph base)" "clean (stage_plan env graph base)"
  "clean (decide_plan env g decision note)" "clean (mutate_plan env g m review)"
proof -
  have ex: "clean (start_existing env graph row)" for graph row
  proof -
    have int: "still (ensure_integrate env g base)" for g base
      unfolding ensure_integrate_def by (intro still_bind still_control still_prims)
    have tk: "still (handled (tasks env g))" for g
      unfolding tasks_def by (rule reads_handled [OF reads_any [OF reads_store_read]])
    show ?thesis
      unfolding start_existing_def Let_def
      by (intro clean_control clean_reads_bind [OF int] clean_reads_bind [OF tk] clean_sure sure_prims(2)
          clean_reads [OF reads_prims(2)])
  qed
  have left: "still (if there then ret True else workspace f)" for there and f :: "('w, workspace_error + bool) act"
    by (intro still_control still_prims)
  have tl: "clean (bindR (store_write env f) (\<lambda>_. bindR (write_plan_file env json) (\<lambda>_. set_active g)))" for f json g
    by (intro clean_bind_sure clean_write sure_bind sure_prims)
  have new: "clean (start_new env graph base)" for graph
    unfolding start_new_def Let_def
    by (intro clean_reads_bind [OF reads_prims(3)] clean_reads_bind [OF left] clean_control
        clean_reads [OF reads_prims(2)] clean_reads_bind [OF reads_more(3)] clean_reads_bind [OF reads_more(2)]
        clean_reads_bind [OF reads_more(5)] clean_reads_bind [OF reads_more(1)] tl)
  show "clean (start_run env graph base)"
    unfolding start_run_def Let_def
    by (intro clean_reads_bind [OF reads_require] clean_reads_bind [OF reads_more(4)]
        clean_reads_bind [OF reads_load_run] clean_control ex new)
  show "clean (stage_plan env graph base)"
    unfolding stage_plan_def Let_def
    by (intro clean_reads_bind [OF reads_require] clean_reads_bind [OF reads_more(4)]
        clean_reads_bind [OF reads_load_run] clean_reads_bind [OF reads_more(5)] clean_bind_sure clean_control
        clean_reads [OF reads_prims(2)] clean_write clean_reads_bind [OF reads_more(1)] sure_bind sure_prims)
  show "clean (decide_plan env g decision note)"
    unfolding decide_plan_def
    by (intro clean_reads_bind [OF reads_require] clean_reads_bind [OF reads_load_run]
        clean_reads_bind [OF reads_prims(4)] clean_reads_bind [OF reads_prims(5)] clean_bind_sure clean_write
        sure_bind sure_prims)
  show "clean (mutate_plan env g m review)"
    unfolding mutate_plan_def Let_def
    by (intro clean_reads_bind [OF reads_require] clean_reads_bind [OF reads_load_run]
        clean_reads_bind [OF reads_prims(4)] clean_reads_bind [OF reads_graph_of]
        clean_reads_bind [OF reads_tasks] clean_reads_bind [OF reads_more(6)]
        clean_reads_bind [OF reads_prims(5)] clean_reads_bind [OF reads_mutation_events]
        clean_reads_bind [OF reads_more(5)] clean_bind_sure clean_write sure_bind sure_prims)
qed

text \<open>
  The operations on plans fail cleanly: when starting, staging, deciding or mutating a plan, or
  preparing a deliverable, ends in an error, whatever the error and wherever it arose, the database
  is exactly as it was.
\<close>

theorem plan_operations_fail_cleanly:
  assumes "perform env op s = (Inl e, s')"
    and "case op of OpStart _ _ \<Rightarrow> True | OpStage _ _ \<Rightarrow> True | OpDecide _ _ _ \<Rightarrow> True
      | OpMutate _ _ _ \<Rightarrow> True | OpPrepare _ _ \<Rightarrow> True | _ \<Rightarrow> False"
  shows "st_store s' = st_store s"
proof -
  have "clean (perform env op)"
    using assms(2) clean_plan_operations [THEN clean_bind_sure [OF _ sure_prims(1)]] clean_plan_operations
      clean_reads [OF reads_prepare, THEN clean_bind_sure [OF _ sure_prims(1)]]
    by (cases op) (auto simp: perform_def ignoring_def)
  then show ?thesis using assms(1) unfolding clean_def by (metis fst_conv snd_conv)
qed

theorem plan_operations_fail_cleanly_witness:
  "\<exists>s'. perform sample_env (OpDecide ''g-1'' Accept None) blank = (Inl (MissingGraph ''g-1''), s') \<and>
     st_store s' = empty_store"
proof -
  have "perform sample_env (OpDecide ''g-1'' Accept None) blank = (Inl (MissingGraph ''g-1''), blank)"
    by (simp add: perform_def ignoring_def decide_plan_def bindR_def blank_admits of_option_def throw_def)
  from this plan_operations_fail_cleanly [OF this] show ?thesis by (simp add: blank_def)
qed

end
