(* ===== verification/Engine_Run_Loop.thy ===== *)
theory Engine_Run_Loop
  imports Engine_Run_Gate
begin

text \<open>
  The driver loop \<open>loop_until_idle\<close>: no tick changes the active graph, more fuel never changes an
  answer, and the reasons the loop gives for stopping are true.
\<close>

section \<open>The active graph\<close>

text \<open>\<open>anchored m\<close>: \<open>m\<close> does not change which graph is active.\<close>

definition anchored :: "('w, 'a) run \<Rightarrow> bool" where
  "anchored m \<longleftrightarrow> (\<forall>s. st_active (snd (m s)) = st_active s)"

named_theorems anchors \<open>methods that keep the active graph\<close>

lemma anchored_bind [anchors]: "anchored m \<Longrightarrow> (\<And>a. anchored (k a)) \<Longrightarrow> anchored (bindR m k)"
  by (auto simp: anchored_def bindR_def split: prod.splits sum.splits) (metis snd_conv)+

lemma anchored_control [anchors]:
  "anchored x \<Longrightarrow> anchored y \<Longrightarrow> anchored (if b then x else y)"
  "(\<And>e. anchored (f e)) \<Longrightarrow> (\<And>a. anchored (h a)) \<Longrightarrow> anchored (case r of Inl e \<Rightarrow> f e | Inr a \<Rightarrow> h a)"
  "anchored n \<Longrightarrow> (\<And>a. anchored (sm a)) \<Longrightarrow> anchored (case x' of None \<Rightarrow> n | Some a \<Rightarrow> sm a)"
  "(\<And>a b. anchored (pk a b)) \<Longrightarrow> anchored (case pr of (a, b) \<Rightarrow> pk a b)"
  "(\<And>v. anchored (lf v)) \<Longrightarrow> anchored (let v = lv in lf v)"
  "anchored nl \<Longrightarrow> (\<And>a as. anchored (cs a as)) \<Longrightarrow> anchored (case xs of [] \<Rightarrow> nl | a # as \<Rightarrow> cs a as)"
  by (auto split: sum.splits option.splits prod.splits list.splits)

lemma anchored_prims [anchors]:
  "anchored (ret a)" "anchored (throw e)" "anchored (port p)" "anchored (effect h)" "anchored (of_res c r)"
  "anchored (of_option e x)" "anchored get_store" "anchored get_active" "anchored (put_store db)"
  "anchored (take_pending i)" "anchored (insert_pending i out)" "anchored clear_pending"
  by (auto simp: anchored_def ret_def throw_def port_def effect_def of_res_def of_option_def
      get_store_def get_active_def put_store_def take_pending_def insert_pending_def
      clear_pending_def split: prod.splits sum.splits option.splits)

lemma anchored_handled [anchors]: "anchored m \<Longrightarrow> anchored (handled m)"
  by (auto simp: anchored_def handled_def split: prod.splits) (metis snd_conv)

lemma anchored_store [anchors]:
  "anchored (workspace f)" "anchored (store_read env rd)" "anchored (store_write env wr)" "anchored (stamp env)"
  unfolding workspace_def store_fault_def store_read_def store_write_def stamp_def by (intro anchors)+

lemma anchored_loops [anchors]:
  "(\<And>x. anchored (f x)) \<Longrightarrow> anchored (first_some f xs)"
  "(\<And>x. anchored (h x)) \<Longrightarrow> anchored (for_each h ys)"
  "(\<And>x. anchored (l x)) \<Longrightarrow> anchored (map_run l zs)"
  by (induction xs, auto intro!: anchors) (induction ys, auto intro!: anchors, induction zs, auto intro!: anchors)

lemma anchored_attempt [anchors]:
  "anchored (require_dispatch_ok env h)" "anchored (require_legacy_mutation env g)" "anchored (tasks env g)"
  "anchored (graph_of env g)" "anchored (load_run env g)" "anchored (latest_attempt env g t)"
  "anchored (attempts_for_task env g t)" "anchored (record_evidence_row env e)"
  "anchored (record_outcome_of env fk ok)" "anchored (resolve_pane env a)"
  unfolding require_dispatch_ok_def require_legacy_mutation_def require_unbound_graph_def tasks_def
    graph_of_def load_run_def latest_attempt_def attempts_for_task_def record_evidence_row_def
    record_outcome_of_def resolve_pane_def
  by (intro anchors)+

lemma anchored_append [anchors]:
  "anchored (append_ev env g t a from ev reason)" "anchored (append_verify_gate env g n i)"
  "anchored (append_deterministic_result env g n i passed why)"
  unfolding append_deterministic_result_def append_ev_def append_verify_gate_def append_as_def close_attempt_def
  by (intro anchors)+

lemma anchored_live [anchors]: "anchored (attempt_live env a)" "anchored (attempt_driver_dead env a)"
  unfolding attempt_driver_dead_def attempt_live_def by (intro anchors)+

lemma anchored_micro [anchors]: "anchored (try_micro_repair env n a wt base rs l prior)"
  unfolding try_micro_repair_def by (auto intro!: anchors split: micro_repair_report.splits)

lemma anchored_round [anchors]:
  "anchored (dispatch_repair_round env n a wt base c prompt msg diags constraint)"
  "anchored (persist_repair_session env n a rv rs passed ms)"
  "anchored (persist_rollback_fidelity env n a wt target)"
  unfolding dispatch_repair_round_def persist_repair_session_def persist_rollback_fidelity_def
  by (intro anchors)+

lemma anchored_repair_loop [anchors]: "anchored (repair_loop k env n a wt base c prompt l)"
proof -
  have "anchored (repair_once env n a wt base c prompt msg constraint before_l l)" for msg constraint before_l l
    by (auto simp: repair_once_def Let_def intro!: anchors split: micro_repair_follow.splits)
  then have "anchored (repair_step env n a wt base c prompt l)" for l
    by (auto simp: repair_step_def Let_def intro!: anchors split: repair_action.splits)
  then show ?thesis by (induction k arbitrary: l) (auto intro!: anchors)
qed

lemma anchored_verify [anchors]:
  "anchored (maybe_fallback env g t fail sel)"
  "anchored (verify_attempt env g n a wt base tr c out)"
  unfolding maybe_fallback_def verify_attempt_def repair_attempt_def by (intro anchors)+

lemma anchored_tick: "anchored (run_tick env)"
proof -
  have gate: "anchored (finish_orphaned_verification env g n att)" for g n att
    unfolding finish_orphaned_verification_def fail_orphaned_verification_def by (intro anchors)
  have quota: "anchored (record_quota env h e)" for h e
    unfolding record_quota_def by (cases e) (auto intro!: anchors)
  have disp: "anchored (dispatch_ready env g graph t)" for g graph t
    unfolding dispatch_ready_def start_attempt_def invoke_attempt_def start_point_def route_def crash_fallback_def
      probe_all_def load_quotas_def last_success_harness_def defer_harness_exit_def
    by (intro anchors quota)
  show ?thesis
    unfolding run_tick_def tick_phases_def tick_work_def or_tick_def dispatch_phase_def
      reattach_running_def harvest_live_failures_def clear_blocked_def promote_pending_def
      resume_orphaned_verify_gate_def merge_accepted_def verify_deferred_def recover_verifying_def
      reattach_node_def harvest_node_def clear_blocked_node_def promote_node_def resume_gate_node_def
      defer_harness_exit_def crash_tick_def plain_tick_def
    by (intro anchors gate disp)
qed

lemma anchored_heartbeat: "anchored (heartbeat env)"
  unfolding heartbeat_def by (intro anchors)

section \<open>Running until idle\<close>

lemma loop_more_fuel:
  assumes "loop_until_idle k env s = (r, s')" "r \<noteq> Inr None" "k \<le> l"
  shows "loop_until_idle l env s = (r, s')"
  using assms
proof (induction k arbitrary: l s)
  case 0
  then show ?case by (simp add: ret_def)
next
  case (Suc k)
  obtain l' where l: "l = Suc l'" using Suc.prems(3) by (cases l) auto
  have "loop_until_idle k env s1 = (r, s') \<Longrightarrow> loop_until_idle l' env s1 = (r, s')" for s1
    using Suc l by auto
  then show ?case
    using Suc.prems(1)
    by (auto simp: l bindR_def split: prod.splits sum.splits tick.splits if_splits)
qed

lemma loop_answer:
  assumes "loop_until_idle k env s = (Inr (Some reason), s')" "st_active s = Some g" "log_at (st_store s) g p"
  shows "reason \<noteq> WaitingOnLiveWorker \<and>
    (\<exists>graph p'. graph_from_run (pf_from_json (env_platform env)) (st_store s') g = Inr graph \<and>
       log_at (st_store s') g p' \<and>
       (reason = GraphComplete \<longrightarrow> list_all (\<lambda>n. p' (n_id n) = Some Integrated) (nodes graph)) \<and>
       (reason = AwaitingHumanAcceptance \<longrightarrow> any_in graph p' AwaitingReview))"
  using assms
proof (induction k arbitrary: s p)
  case 0
  then show ?case by (simp add: ret_def)
next
  case (Suc k)
  obtain x s1 where h: "heartbeat env s = (x, s1)" by (cases "heartbeat env s")
  obtain y s2 where t: "run_tick env s1 = (y, s2)" by (cases "run_tick env s1")
  have s1: "st_active s1 = Some g" "log_at (st_store s1) g p"
  proof -
    show "st_active s1 = Some g"
      using anchored_heartbeat [of env] h Suc.prems(2) unfolding anchored_def by (metis snd_conv)
    have "db_events (st_store s1) = db_events (st_store s)"
      using quiet_heartbeat [of env] h unfolding quiet_def by (metis snd_conv)
    then show "log_at (st_store s1) g p" using log_at_cong Suc.prems(3) by blast
  qed
  have s2: "st_active s2 = Some g" "db_runs (st_store s2) = db_runs (st_store s1)"
    using anchored_tick [of env] same_plans_tick [of env] t s1(1)
    unfolding anchored_def same_plans_def by (metis snd_conv)+
  obtain u tk where ok: "x = Inr u" "y = Inr tk"
    using Suc.prems(1) h t by (cases x; cases y) (auto simp: bindR_def)
  obtain graph p' where eff: "graph_from_run (pf_from_json (env_platform env)) (st_store s1) g = Inr graph"
      "log_at (st_store s2) g p'"
      "tick_effect graph (unat (max_concurrent_workers (env_limits env))) p tk p'"
    using run_tick_effect [OF t s1] ok by auto
  have gr: "graph_from_run (pf_from_json (env_platform env)) (st_store s2) g = Inr graph"
    using eff(1) s2(2) by (simp add: graph_from_run_def db_load_run_def)
  show ?case
  proof (cases tk)
    case (Idle rs)
    show ?thesis
    proof (cases "rs = WaitingOnLiveWorker")
      case True
      then have "loop_until_idle k env (s2\<lparr>st_world := pf_sleep (env_platform env) (st_world s2)\<rparr>) =
          (Inr (Some reason), s')"
        using Suc.prems(1) h t ok Idle by (simp add: bindR_def effect_def)
      then show ?thesis by (rule Suc.IH) (use s2 eff in auto)
    next
      case False
      then have "reason = rs" "s' = s2"
        using Suc.prems(1) h t ok Idle by (auto simp: bindR_def ret_def)
      then show ?thesis using False eff gr Idle by (auto simp: tick_effect_def)
    qed
  next
    case (Transition i a fr tt ev)
    then have "loop_until_idle k env s2 = (Inr (Some reason), s')"
      using Suc.prems(1) h t ok by (simp add: bindR_def)
    then show ?thesis by (rule Suc.IH) (use s2 eff in auto)
  qed
qed

text \<open>
  One round that lets the loop go on: the heartbeat and the tick answer, and the tick either made
  a transition or waits for a live worker, in which case the process sleeps.
\<close>

definition round_of :: "'w run_env \<Rightarrow> 'w run_state \<Rightarrow> (orchestrator_error + tick) \<times> 'w run_state" where
  "round_of env s = bindR (heartbeat env) (\<lambda>_. run_tick env) s"

definition round_goes_on :: "'w run_env \<Rightarrow> 'w run_state \<Rightarrow> 'w run_state option" where
  "round_goes_on env s =
     (case round_of env s of
        (Inr (Transition _ _ _ _ _), s') \<Rightarrow> Some s'
      | (Inr (Idle WaitingOnLiveWorker), s') \<Rightarrow> Some (s'\<lparr>st_world := pf_sleep (env_platform env) (st_world s')\<rparr>)
      | _ \<Rightarrow> None)"

text \<open>The state after \<open>k\<close> such rounds, if there were so many.\<close>

fun rounds :: "'w run_env \<Rightarrow> nat \<Rightarrow> 'w run_state \<Rightarrow> 'w run_state option" where
  "rounds env 0 s = Some s"
| "rounds env (Suc k) s = Option.bind (round_goes_on env s) (rounds env k)"

text \<open>The answer of a round that does not let the loop go on.\<close>

definition round_stops :: "'w run_env \<Rightarrow> 'w run_state \<Rightarrow> (orchestrator_error + idle_reason) \<times> 'w run_state \<Rightarrow> bool" where
  "round_stops env s out \<longleftrightarrow>
     (\<exists>e s'. round_of env s = (Inl e, s') \<and> out = (Inl e, s')) \<or>
     (\<exists>reason s'. round_of env s = (Inr (Idle reason), s') \<and> reason \<noteq> WaitingOnLiveWorker \<and> out = (Inr reason, s'))"

lemma loop_Suc_round:
  "loop_until_idle (Suc k) env s =
     (case round_goes_on env s of
        Some s' \<Rightarrow> loop_until_idle k env s'
      | None \<Rightarrow> (case round_of env s of
          (Inr (Idle reason), s') \<Rightarrow> (Inr (Some reason), s')
        | (Inl e, s') \<Rightarrow> (Inl e, s')
        | (_, s') \<Rightarrow> (Inr None, s')))"
  by (auto simp: round_goes_on_def round_of_def bindR_def effect_def ret_def
      split: prod.splits sum.splits tick.splits idle_reason.splits)

lemma round_cases: "(\<exists>s'. round_goes_on env s = Some s') \<or> round_goes_on env s = None \<and> (\<exists>out. round_stops env s out)"
  by (auto simp: round_goes_on_def round_stops_def split: prod.splits sum.splits tick.splits idle_reason.splits)

lemma round_stops_None: "round_stops env s out \<Longrightarrow> round_goes_on env s = None"
  by (auto simp: round_goes_on_def round_stops_def split: idle_reason.splits)

lemma loop_stops:
  "round_stops env s out \<Longrightarrow>
     loop_until_idle (Suc k) env s = (case fst out of Inl e \<Rightarrow> Inl e | Inr reason \<Rightarrow> Inr (Some reason), snd out)"
  unfolding loop_Suc_round by (auto simp: round_stops_None round_stops_def)

text \<open>After \<open>j\<close> rounds that went on the loop answers with the first that does not, for every fuel above \<open>j\<close>.\<close>

lemma loop_after_rounds:
  "rounds env j s = Some t \<Longrightarrow> round_stops env t out \<Longrightarrow> j < k \<Longrightarrow>
     loop_until_idle k env s = (case fst out of Inl e \<Rightarrow> Inl e | Inr reason \<Rightarrow> Inr (Some reason), snd out)"
proof (induction j arbitrary: s k)
  case 0
  then obtain k' where "k = Suc k'" by (cases k) auto
  with 0 loop_stops [of env s out k'] show ?case by (simp del: loop_until_idle.simps)
next
  case (Suc j)
  then obtain s1 k' where "round_goes_on env s = Some s1" "rounds env j s1 = Some t" "k = Suc k'" "j < k'"
    by (cases k) (auto split: bind_splits)
  with Suc.IH Suc.prems(2) show ?case unfolding \<open>k = Suc k'\<close> loop_Suc_round by simp
qed

lemma loop_all_rounds: "rounds env k s = Some t \<Longrightarrow> loop_until_idle k env s = (Inr None, t)"
proof (induction k arbitrary: s)
  case 0
  then show ?case by (simp add: ret_def)
next
  case (Suc k)
  then obtain s1 where "round_goes_on env s = Some s1" "rounds env k s1 = Some t" by (auto split: bind_splits)
  with Suc.IH show ?case unfolding loop_Suc_round by simp
qed

lemma rounds_or_stop:
  "(\<exists>t. rounds env k s = Some t) \<or> (\<exists>j < k. \<exists>t out. rounds env j s = Some t \<and> round_stops env t out)"
proof (induction k arbitrary: s)
  case (Suc k)
  from round_cases [of env s] show ?case
  proof
    assume "\<exists>s'. round_goes_on env s = Some s'"
    then obtain s1 where s1: "round_goes_on env s = Some s1" by blast
    from Suc.IH [of s1] show ?case
    proof
      assume "\<exists>j < k. \<exists>t out. rounds env j s1 = Some t \<and> round_stops env t out"
      then obtain j t out where "j < k" "rounds env j s1 = Some t" "round_stops env t out" by blast
      with s1 have "Suc j < Suc k" "rounds env (Suc j) s = Some t" "round_stops env t out" by simp_all
      then show ?case by blast
    qed (use s1 in simp)
  next
    assume "round_goes_on env s = None \<and> (\<exists>out. round_stops env s out)"
    then obtain out where "rounds env 0 s = Some s" "round_stops env s out" by auto
    then show ?case by blast
  qed
qed simp

lemma loop_None_iff: "fst (loop_until_idle k env s) = Inr None \<longleftrightarrow> rounds env k s \<noteq> None"
proof
  assume none: "fst (loop_until_idle k env s) = Inr None"
  show "rounds env k s \<noteq> None"
  proof (rule ccontr)
    assume "\<not> rounds env k s \<noteq> None"
    then obtain j t out where "j < k" "rounds env j s = Some t" "round_stops env t out"
      using rounds_or_stop [of env k s] by auto
    from loop_after_rounds [OF this(2,3,1)] none show False by (auto split: sum.splits)
  qed
qed (auto dest: loop_all_rounds)

text \<open>
  C25. The loop stops when it should, and for the reason it gives. It runs out of the fuel of the
  model only when every one of that many rounds made a transition or waited for a live
  worker; the first round that does neither ends the loop, with its own reason or error, for every
  fuel that reaches it. It never returns \<open>WaitingOnLiveWorker\<close>; it returns \<open>GraphComplete\<close> only when every task
  of the active plan is integrated and \<open>AwaitingHumanAcceptance\<close> only when some task awaits review.
\<close>

theorem loop_reports_real_reasons:
  assumes "st_active s = Some g" "log_at (st_store s) g p"
  shows "(fst (loop_until_idle k env s) = Inr None \<longleftrightarrow> rounds env k s \<noteq> None) \<and>
    (\<forall>j t reason s'. rounds env j s = Some t \<and> round_stops env t (Inr reason, s') \<longrightarrow>
       (\<forall>l > j. loop_until_idle l env s = (Inr (Some reason), s')) \<and> reason \<noteq> WaitingOnLiveWorker \<and>
       (\<exists>graph p'. graph_from_run (pf_from_json (env_platform env)) (st_store s') g = Inr graph \<and>
         log_at (st_store s') g p' \<and>
         (reason = GraphComplete \<longrightarrow> list_all (\<lambda>n. p' (n_id n) = Some Integrated) (nodes graph)) \<and>
         (reason = AwaitingHumanAcceptance \<longrightarrow> any_in graph p' AwaitingReview))) \<and>
    (\<forall>j t e s'. rounds env j s = Some t \<and> round_stops env t (Inl e, s') \<longrightarrow>
       (\<forall>l > j. loop_until_idle l env s = (Inl e, s')))"
proof (intro conjI allI impI)
  fix j t reason s' assume stop: "rounds env j s = Some t \<and> round_stops env t (Inr reason, s')"
  then have run: "loop_until_idle l env s = (Inr (Some reason), s')" if "j < l" for l
    using loop_after_rounds [of env j s t "(Inr reason, s')"] that by simp
  show "loop_until_idle l env s = (Inr (Some reason), s')" if "j < l" for l using run [OF that] .
  note answer = loop_answer [OF run [OF lessI] assms]
  show "reason \<noteq> WaitingOnLiveWorker" using answer by blast
  show "\<exists>graph p'. graph_from_run (pf_from_json (env_platform env)) (st_store s') g = Inr graph \<and>
         log_at (st_store s') g p' \<and>
         (reason = GraphComplete \<longrightarrow> list_all (\<lambda>n. p' (n_id n) = Some Integrated) (nodes graph)) \<and>
         (reason = AwaitingHumanAcceptance \<longrightarrow> any_in graph p' AwaitingReview)"
    using answer by blast
next
  fix j t e s' l assume "rounds env j s = Some t \<and> round_stops env t (Inl e, s')" "j < l"
  then show "loop_until_idle l env s = (Inl e, s')"
    using loop_after_rounds [of env j s t "(Inl e, s')"] by simp
qed (rule loop_None_iff)

text \<open>The records of a task that was run, checked, accepted and merged.\<close>

definition merged_records :: "task_id \<Rightarrow> transition_record list" where
  "merged_records t =
     map (\<lambda>(a, e, b). \<lparr>tr_graph_id = ''g-1'', tr_task_id = t, tr_attempt_id = None, tr_from = a, tr_to = b,
        tr_event = e, tr_reason = None, tr_executor = ''meshloop'', tr_occurred_at = ''0''\<rparr>)
       [(Pending, DependencySatisfied, Ready), (Ready, AttemptStarted, Running), (Running, HarnessExited, Verifying),
        (Verifying, DeterministicChecksPassed, AwaitingReview), (AwaitingReview, HumanAcceptanceRecorded, Accepted),
        (Accepted, IntegrationOwnerMerge, Integrated)]"

definition merged_log_records :: "transition_record list" where
  "merged_log_records = merged_records 1 @ merged_records 2 @ merged_records 3"

definition merged_state :: "unit run_state" where
  "merged_state = sample_state (map event_row_of merged_log_records)"

definition all_merged :: "task_id \<rightharpoonup> task_state" where
  "all_merged = [1 \<mapsto> Integrated, 2 \<mapsto> Integrated, 3 \<mapsto> Integrated]"

lemma merged_records_advance: "p t = None \<Longrightarrow> advance_all p (merged_records t) = Some (p(t \<mapsto> Integrated))"
  by (simp add: merged_records_def advance_def transition_def state_of_def)

lemma merged_advance: "advance_all Map.empty merged_log_records = Some all_merged"
  by (simp add: merged_log_records_def advance_all_append merged_records_advance all_merged_def)

lemma merged_stored: "db_records_for_graph (st_store merged_state) ''g-1'' = Inr merged_log_records"
proof -
  have all: "filter (\<lambda>e. er_graph_id e = ''g-1'') (map event_row_of merged_log_records) = map event_row_of merged_log_records"
    by (simp add: merged_log_records_def merged_records_def event_row_of_def)
  have "map_res record_of_row (map event_row_of rs) = Inr rs" for rs
    by (induction rs) (simp_all add: codec_simps)
  then show ?thesis unfolding db_records_for_graph_def using all
    by (simp add: merged_state_def sample_state_def)
qed

lemma merged_log: "log_at (st_store merged_state) ''g-1'' all_merged"
  using merged_stored merged_advance by (simp add: log_at_def)

lemma merged_round: "round_of sample_env merged_state = (Inr (Idle GraphComplete), merged_state)"
proof -
  have ts: "try_res (db_records_for_graph (st_store merged_state) ''g-1'') replay_tasks = Inr all_merged"
    using advance_all_replay [OF merged_advance] by (simp add: merged_stored replay_tasks_def)
  have all: "list_all (\<lambda>n. all_merged (n_id n) = Some Integrated) (nodes sample_graph)"
    by (simp add: all_merged_def sample_graph_def sample_node_def)
  have "run_tick sample_env merged_state = (Inr (Idle GraphComplete), merged_state)"
    using sample_tick [OF ts [unfolded merged_state_def]] tick_phases_complete [OF all, of sample_env "''g-1''"]
    by (simp add: merged_state_def ret_def)
  moreover have "heartbeat sample_env merged_state = (Inr (), merged_state)"
    by (simp add: heartbeat_def env_eval bindR_def port_def ret_def get_active_def merged_state_def sample_state_def
        handled_def store_read_def store_fault_def db_load_driver_def empty_store_def)
  ultimately show ?thesis by (simp add: round_of_def bindR_def)
qed

theorem loop_reports_real_reasons_witness:
  "\<forall>l. loop_until_idle (Suc l) sample_env merged_state = (Inr (Some GraphComplete), merged_state)"
proof -
  have st: "st_active merged_state = Some ''g-1''" by (simp add: merged_state_def sample_state_def)
  have stop: "round_stops sample_env merged_state (Inr GraphComplete, merged_state)"
    by (simp add: round_stops_def merged_round)
  have start: "rounds sample_env 0 merged_state = Some merged_state" by simp
  show ?thesis
    using loop_reports_real_reasons [OF st merged_log, of 0 sample_env] start stop zero_less_Suc by blast
qed

end
