(* ===== verification/Domain_Workspace.thy ===== *)
theory Domain_Workspace
  imports Domain_Graph Domain_Evidence
begin

text \<open>
  The portable workspace records of \<open>meshloop-domain/src/workspace.rs\<close>.

  The crate wraps every identifier, alias, path, object id and reference in a newtype whose
  only constructor runs a check (macro \<open>text_type!\<close>). The newtypes are modelled by their
  text together with the check: \<open>text_type_new\<close> is the constructor, the \<open>*_new\<close> definitions
  are its instances, and \<open>validated\<close> is interpreted for each of them. A record carries
  plain text; \<open>*_wf\<close> says that its fields were built by the constructors.

  The lemmas show what the checks buy: a relative path stays under the root it is joined to,
  no identifier, alias, path or reference contains a line feed, and every stable code of the
  enumerations is unambiguous.
\<close>

section \<open>Checked text\<close>

type_synonym lifecycle_id = string
type_synonym plan_hash = string
type_synonym native_identity = string
type_synonym root_alias = string
type_synonym relative_path = string
type_synonym graph_ident = string
type_synonym object_id = string
type_synonym git_ref = string

definition text_type_new :: "string \<Rightarrow> (string \<Rightarrow> bool) \<Rightarrow> string \<Rightarrow> string + string" where
  "text_type_new name check s = (if check s then Inr s else Inl (''invalid '' @ name))"

definition identifier_char :: "char \<Rightarrow> bool" where
  "identifier_char c \<longleftrightarrow> is_ascii_alphanumeric c \<or> c = CHR ''-'' \<or> c = CHR ''_''"

definition identifier_ok :: "string \<Rightarrow> bool" where
  "identifier_ok s \<longleftrightarrow> s \<noteq> [] \<and> length s \<le> 128 \<and> list_all identifier_char s"

definition hex_char :: "char \<Rightarrow> bool" where
  "hex_char c \<longleftrightarrow> is_ascii_digit c \<or> (97 \<le> byte_of c \<and> byte_of c \<le> 102)"

definition digest_ok :: "string \<Rightarrow> bool" where
  "digest_ok s \<longleftrightarrow> length s = 64 \<and> list_all hex_char s"

definition alias_char :: "char \<Rightarrow> bool" where
  "alias_char c \<longleftrightarrow> is_ascii_lowercase c \<or> is_ascii_digit c \<or> c = CHR ''-''"

definition root_alias_ok :: "string \<Rightarrow> bool" where
  "root_alias_ok s \<longleftrightarrow> s \<noteq> [] \<and> length s \<le> 64 \<and> list_all alias_char s"

definition object_id_ok :: "string \<Rightarrow> bool" where
  "object_id_ok s \<longleftrightarrow> (length s = 40 \<or> length s = 64) \<and> list_all hex_char s"

text \<open>
  \<open>char::is_control\<close> is the Unicode category \<open>Cc\<close>: the ASCII controls and U+0080 to U+009F,
  whose UTF-8 form is the lead byte 194 with a continuation byte up to 159.
\<close>

fun has_control :: "string \<Rightarrow> bool" where
  "has_control [] = False"
| "has_control (c # s) =
     (is_ascii_control c \<or>
      (case s of d # _ \<Rightarrow> byte_of c = 194 \<and> 128 \<le> byte_of d \<and> byte_of d \<le> 159 | [] \<Rightarrow> False) \<or>
      has_control s)"

definition reserved_stems :: "string list" where
  "reserved_stems =
     [''CON'', ''PRN'', ''AUX'', ''NUL'',
      ''COM1'', ''COM2'', ''COM3'', ''COM4'', ''COM5'', ''COM6'', ''COM7'', ''COM8'', ''COM9'',
      ''LPT1'', ''LPT2'', ''LPT3'', ''LPT4'', ''LPT5'', ''LPT6'', ''LPT7'', ''LPT8'', ''LPT9'']"

definition ends_with_any :: "string \<Rightarrow> char list \<Rightarrow> bool" where
  "ends_with_any s cs \<longleftrightarrow> s \<noteq> [] \<and> last s \<in> set cs"

definition contains_any :: "string \<Rightarrow> char list \<Rightarrow> bool" where
  "contains_any s cs \<longleftrightarrow> list_ex (\<lambda>c. c \<in> set cs) s"

definition path_part_ok :: "string \<Rightarrow> bool" where
  "path_part_ok part \<longleftrightarrow>
     part \<noteq> [] \<and> part \<noteq> ''.'' \<and> part \<noteq> ''..'' \<and>
     \<not> ends_with_any part [CHR ''.'', CHR '' ''] \<and>
     \<not> contains_any part [CHR ''<'', CHR ''>'', CHR 0x22, CHR ''|'', CHR ''?'', CHR ''*''] \<and>
     to_ascii_uppercase (hd (split_on CHR ''.'' part)) \<notin> set reserved_stems"

definition relative :: "string \<Rightarrow> bool" where
  "relative s \<longleftrightarrow>
     s \<noteq> [] \<and> length s \<le> 4096 \<and> \<not> contains_any s [CHR 0x5C, CHR '':''] \<and> \<not> has_control s \<and>
     list_all path_part_ok (split_on CHR ''/'' s)"

definition ref_char :: "char \<Rightarrow> bool" where
  "ref_char c \<longleftrightarrow> is_ascii_alphanumeric c \<or> c = CHR ''-'' \<or> c = CHR ''_'' \<or> c = CHR ''.''"

definition ref_part_ok :: "string \<Rightarrow> bool" where
  "ref_part_ok part \<longleftrightarrow>
     part \<noteq> [] \<and> part \<noteq> ''.'' \<and> part \<noteq> ''..'' \<and> \<not> starts_with part ''-'' \<and>
     \<not> ends_with part ''.'' \<and> \<not> ends_with part ''.lock'' \<and> list_all ref_char part"

definition git_ref_name :: "string \<Rightarrow> bool" where
  "git_ref_name v \<longleftrightarrow>
     v \<noteq> [] \<and> length v \<le> 256 \<and> \<not> starts_with v ''/'' \<and> \<not> ends_with v ''/'' \<and>
     \<not> str_contains v ''//'' \<and> \<not> str_contains v ''..'' \<and> \<not> str_contains v [CHR ''@'', CHR 0x7B] \<and>
     list_all ref_part_ok (split_on CHR ''/'' v)"

definition LifecycleId_new :: "string \<Rightarrow> string + lifecycle_id" where
  "LifecycleId_new = text_type_new ''LifecycleId'' identifier_ok"

definition PlanHash_new :: "string \<Rightarrow> string + plan_hash" where
  "PlanHash_new = text_type_new ''PlanHash'' digest_ok"

definition NativeIdentity_new :: "string \<Rightarrow> string + native_identity" where
  "NativeIdentity_new = text_type_new ''NativeIdentity'' digest_ok"

definition RootAlias_new :: "string \<Rightarrow> string + root_alias" where
  "RootAlias_new = text_type_new ''RootAlias'' root_alias_ok"

definition RelativePath_new :: "string \<Rightarrow> string + relative_path" where
  "RelativePath_new = text_type_new ''RelativePath'' relative"

definition GraphId_new :: "string \<Rightarrow> string + graph_ident" where
  "GraphId_new = text_type_new ''GraphId'' graph_id_is_legal"

definition ObjectId_new :: "string \<Rightarrow> string + object_id" where
  "ObjectId_new = text_type_new ''ObjectId'' object_id_ok"

definition GitRef_new :: "string \<Rightarrow> string + git_ref" where
  "GitRef_new = text_type_new ''GitRef'' git_ref_name"

lemmas text_type_news =
  LifecycleId_new_def PlanHash_new_def NativeIdentity_new_def RootAlias_new_def
  RelativePath_new_def GraphId_new_def ObjectId_new_def GitRef_new_def

lemma text_type_new_Inr [simp]: "text_type_new n c s = Inr v \<longleftrightarrow> c s \<and> v = s"
  by (auto simp: text_type_new_def)

lemma text_type_new_Inl [simp]: "text_type_new n c s = Inl e \<longleftrightarrow> \<not> c s \<and> e = ''invalid '' @ n"
  by (auto simp: text_type_new_def)

interpretation lifecycle_ids: validated LifecycleId_new "\<lambda>v. v" identifier_ok
  by unfold_locales (auto simp: text_type_news)

interpretation plan_hashes: validated PlanHash_new "\<lambda>v. v" digest_ok
  by unfold_locales (auto simp: text_type_news)

interpretation root_aliases: validated RootAlias_new "\<lambda>v. v" root_alias_ok
  by unfold_locales (auto simp: text_type_news)

interpretation relative_paths: validated RelativePath_new "\<lambda>v. v" relative
  by unfold_locales (auto simp: text_type_news)

interpretation graph_idents: validated GraphId_new "\<lambda>v. v" graph_id_is_legal
  by unfold_locales (auto simp: text_type_news)

interpretation object_ids: validated ObjectId_new "\<lambda>v. v" object_id_ok
  by unfold_locales (auto simp: text_type_news)

interpretation git_refs: validated GitRef_new "\<lambda>v. v" git_ref_name
  by unfold_locales (auto simp: text_type_news)

section \<open>Stable codes\<close>

text \<open>Constructors carry a prefix for their enumeration, because the crate reuses variant names.\<close>

datatype landing_strategy =
    Land_FastForward
  | Land_Merge
  | Land_Rewrite

fun landing_str :: "landing_strategy \<Rightarrow> string" where
  "landing_str Land_FastForward = ''fast-forward''"
| "landing_str Land_Merge = ''merge''"
| "landing_str Land_Rewrite = ''rewrite''"

datatype delivery_reason =
    Del_AcceptedNotLanded
  | Del_MissingRecoveryObject
  | Del_PlannerDirty
  | Del_RewrittenDestination
  | Del_StaleDestination
  | Del_UnreadableRef

fun delivery_reason_str :: "delivery_reason \<Rightarrow> string" where
  "delivery_reason_str Del_AcceptedNotLanded = ''accepted-not-landed''"
| "delivery_reason_str Del_MissingRecoveryObject = ''missing-recovery-object''"
| "delivery_reason_str Del_PlannerDirty = ''planner-dirty''"
| "delivery_reason_str Del_RewrittenDestination = ''rewritten-destination''"
| "delivery_reason_str Del_StaleDestination = ''stale-destination''"
| "delivery_reason_str Del_UnreadableRef = ''unreadable-ref''"

datatype report_mode =
    Mode_Inventory
  | Mode_Preview

fun report_mode_str :: "report_mode \<Rightarrow> string" where
  "report_mode_str Mode_Inventory = ''inventory''"
| "report_mode_str Mode_Preview = ''preview''"

datatype inventory_class =
    Cls_Active
  | Cls_Inaccessible
  | Cls_Legacy
  | Cls_Missing
  | Cls_Unknown

fun inventory_class_str :: "inventory_class \<Rightarrow> string" where
  "inventory_class_str Cls_Active = ''active''"
| "inventory_class_str Cls_Inaccessible = ''inaccessible''"
| "inventory_class_str Cls_Legacy = ''legacy''"
| "inventory_class_str Cls_Missing = ''missing''"
| "inventory_class_str Cls_Unknown = ''unknown''"

datatype ownership_code =
    Own_ConfiguredRoot
  | Own_GitRegistered
  | Own_LedgerOwned
  | Own_LegacyUnbound
  | Own_Unresolved

fun ownership_str :: "ownership_code \<Rightarrow> string" where
  "ownership_str Own_ConfiguredRoot = ''configured-root''"
| "ownership_str Own_GitRegistered = ''git-registered''"
| "ownership_str Own_LedgerOwned = ''ledger-owned''"
| "ownership_str Own_LegacyUnbound = ''legacy-unbound''"
| "ownership_str Own_Unresolved = ''unresolved''"

datatype blocker_code =
    Blk_AdoptionPreviewOnly
  | Blk_DriverActive
  | Blk_ExternalPathWithheld
  | Blk_FenceInaccessible
  | Blk_FenceMissing
  | Blk_GitUnavailable
  | Blk_IdentityConflict
  | Blk_InventoryTruncated
  | Blk_LedgerInaccessible
  | Blk_LedgerMissing
  | Blk_LegacyOwnershipUnresolved
  | Blk_PathInaccessible
  | Blk_PathMissing
  | Blk_ReparseBlocked
  | Blk_RepositoryUnbound
  | Blk_SchemaUpgradeRequired
  | Blk_UnknownOwnership

fun blocker_str :: "blocker_code \<Rightarrow> string" where
  "blocker_str Blk_AdoptionPreviewOnly = ''adoption-preview-only''"
| "blocker_str Blk_DriverActive = ''driver-active''"
| "blocker_str Blk_ExternalPathWithheld = ''external-path-withheld''"
| "blocker_str Blk_FenceInaccessible = ''fence-inaccessible''"
| "blocker_str Blk_FenceMissing = ''fence-missing''"
| "blocker_str Blk_GitUnavailable = ''git-unavailable''"
| "blocker_str Blk_IdentityConflict = ''identity-conflict''"
| "blocker_str Blk_InventoryTruncated = ''inventory-truncated''"
| "blocker_str Blk_LedgerInaccessible = ''ledger-inaccessible''"
| "blocker_str Blk_LedgerMissing = ''ledger-missing''"
| "blocker_str Blk_LegacyOwnershipUnresolved = ''legacy-ownership-unresolved''"
| "blocker_str Blk_PathInaccessible = ''path-inaccessible''"
| "blocker_str Blk_PathMissing = ''path-missing''"
| "blocker_str Blk_ReparseBlocked = ''reparse-blocked''"
| "blocker_str Blk_RepositoryUnbound = ''repository-unbound''"
| "blocker_str Blk_SchemaUpgradeRequired = ''schema-upgrade-required''"
| "blocker_str Blk_UnknownOwnership = ''unknown-ownership''"

datatype entry_source =
    Src_Artifact
  | Src_ConfiguredEntry
  | Src_Driver
  | Src_Generation
  | Src_GitWorktree
  | Src_LegacyAttempt
  | Src_LegacyRun
  | Src_Provisional

fun entry_source_str :: "entry_source \<Rightarrow> string" where
  "entry_source_str Src_Artifact = ''artifact''"
| "entry_source_str Src_ConfiguredEntry = ''configured-entry''"
| "entry_source_str Src_Driver = ''driver''"
| "entry_source_str Src_Generation = ''generation''"
| "entry_source_str Src_GitWorktree = ''git-worktree''"
| "entry_source_str Src_LegacyAttempt = ''legacy-attempt''"
| "entry_source_str Src_LegacyRun = ''legacy-run''"
| "entry_source_str Src_Provisional = ''provisional''"

datatype location_scope =
    Scp_ConfiguredRoot
  | Scp_LedgerRoot
  | Scp_Repository

fun location_scope_str :: "location_scope \<Rightarrow> string" where
  "location_scope_str Scp_ConfiguredRoot = ''configured-root''"
| "location_scope_str Scp_LedgerRoot = ''ledger-root''"
| "location_scope_str Scp_Repository = ''repository''"

lemma landing_str_inj: "landing_str a = landing_str b \<Longrightarrow> a = b"
  by (cases a; cases b) simp_all

lemma delivery_reason_str_inj: "delivery_reason_str a = delivery_reason_str b \<Longrightarrow> a = b"
  by (cases a; cases b) simp_all

lemma report_mode_str_inj: "report_mode_str a = report_mode_str b \<Longrightarrow> a = b"
  by (cases a; cases b) simp_all

lemma inventory_class_str_inj: "inventory_class_str a = inventory_class_str b \<Longrightarrow> a = b"
  by (cases a; cases b) simp_all

lemma ownership_str_inj: "ownership_str a = ownership_str b \<Longrightarrow> a = b"
  by (cases a; cases b) simp_all

lemma blocker_str_inj: "blocker_str a = blocker_str b \<Longrightarrow> a = b"
  by (cases a; cases b) simp_all

lemma entry_source_str_inj: "entry_source_str a = entry_source_str b \<Longrightarrow> a = b"
  by (cases a; cases b) simp_all

lemma location_scope_str_inj: "location_scope_str a = location_scope_str b \<Longrightarrow> a = b"
  by (cases a; cases b) simp_all

interpretation landing_strategies: stable_code landing_str
  by unfold_locales (rule landing_str_inj)

interpretation delivery_reasons: stable_code delivery_reason_str
  by unfold_locales (rule delivery_reason_str_inj)

interpretation report_modes: stable_code report_mode_str
  by unfold_locales (rule report_mode_str_inj)

interpretation inventory_classes: stable_code inventory_class_str
  by unfold_locales (rule inventory_class_str_inj)

interpretation ownership_codes: stable_code ownership_str
  by unfold_locales (rule ownership_str_inj)

interpretation blocker_codes: stable_code blocker_str
  by unfold_locales (rule blocker_str_inj)

interpretation entry_sources: stable_code entry_source_str
  by unfold_locales (rule entry_source_str_inj)

interpretation location_scopes: stable_code location_scope_str
  by unfold_locales (rule location_scope_str_inj)

section \<open>Records\<close>

record repository_record =
  rr_id :: lifecycle_id
  rr_common_dir_identity :: native_identity

record root_record =
  ro_repository_id :: lifecycle_id
  ro_alias :: root_alias
  ro_native_identity :: native_identity

record generation_record =
  gn_id :: lifecycle_id
  gn_repository_id :: lifecycle_id
  gn_graph_id :: graph_ident
  gn_ordinal :: u32
  gn_accepted_plan_hash :: plan_hash
  gn_root_alias :: root_alias
  gn_relative_path :: relative_path
  gn_layout_version :: u32

datatype artifact_kind = Kind_Plan | Kind_Integration | Kind_Attempt | Kind_Deliverable

record artifact_record =
  ar_id :: lifecycle_id
  ar_generation_id :: lifecycle_id
  ar_kind :: artifact_kind
  ar_root_alias :: root_alias
  ar_relative_path :: relative_path
  ar_attempt_id :: "attempt_id option"

record artifact_dependency =
  dp_artifact_id :: lifecycle_id
  dp_requires_artifact_id :: lifecycle_id

datatype delivery_state = Delivery_Pending | Delivery_Delivered
datatype retention = Retention_Required | Retention_Optional
datatype reclamation = Reclamation_Pending | Reclamation_Reclaimed
datatype fact = Delivery delivery_state | Retention retention | Reclamation reclamation

record lifecycle_fact =
  lf_id :: lifecycle_id
  lf_artifact_id :: lifecycle_id
  lf_fact :: fact

datatype journal_state = Journal_Intent | Journal_Completed | Journal_Blocked

record journal_entry =
  je_id :: lifecycle_id
  je_artifact_id :: lifecycle_id
  je_operation_id :: lifecycle_id
  je_step :: u32
  je_state :: journal_state

record delivery_receipt =
  dr_strategy :: landing_strategy
  dr_accepted_commit :: object_id
  dr_destination_ref :: git_ref
  dr_recorded_destination :: "object_id option"
  dr_accepted_tree :: "object_id option"
  dr_recovery_objects :: "object_id list"

record delivery_receipt_report =
  rp_passed :: bool
  rp_apply :: bool
  rp_reasons :: "delivery_reason list"
  rp_observed_destination :: "object_id option"

record portable_location =
  pl_root_alias :: root_alias
  pl_relative_path :: relative_path

record run_binding =
  rb_graph_id :: graph_ident
  rb_repository_id :: lifecycle_id
  rb_location :: portable_location
  rb_layout_version :: u32
  rb_active_generation :: "lifecycle_id option"
  rb_current_revision :: "lifecycle_id option"

record plan_revision =
  pr_id :: lifecycle_id
  pr_repository_id :: lifecycle_id
  pr_graph_id :: graph_ident
  pr_generation_id :: "lifecycle_id option"
  pr_predecessor :: "lifecycle_id option"
  pr_plan_hash :: plan_hash

datatype authorization_kind = Auth_Human | Auth_InheritedAdr0028
datatype revision_decision = Revision_Accepted | Revision_Declined

record revision_authorization =
  ra_id :: lifecycle_id
  ra_revision_id :: lifecycle_id
  ra_kind :: authorization_kind
  ra_decision :: revision_decision
  ra_actor :: lifecycle_id

record execution_scope =
  xs_repository_id :: lifecycle_id
  xs_graph_id :: graph_ident
  xs_generation_id :: lifecycle_id

datatype run_scope = ActiveGeneration | GenerationScope lifecycle_id | LegacyScope

datatype provisional_kind = Prov_Planning | Prov_ControlOutput | Prov_ReviewPack

record provisional_owner =
  po_id :: lifecycle_id
  po_repository_id :: lifecycle_id
  po_graph_id :: "graph_ident option"
  po_kind :: provisional_kind
  po_location :: portable_location
  po_provenance :: lifecycle_id

record provisional_promotion =
  pp_owner_id :: lifecycle_id
  pp_generation_id :: lifecycle_id
  pp_artifact_id :: lifecycle_id

datatype producer_target =
    RootBootstrap root_alias
  | TargetProvisional lifecycle_id
  | TargetArtifact lifecycle_id
  | TargetDriver lifecycle_id

datatype producer_kind =
    Prod_BootstrapRoot | Prod_Plan | Prod_Cache | Prod_Spawn | Prod_Worktree | Prod_Commit
  | Prod_Merge | Prod_RetainRef | Prod_ReviewPack | Prod_Deliverable | Prod_Landing | Prod_Verify

record expected_state =
  es_source_artifact :: "lifecycle_id option"
  es_source :: "object_id option"
  es_base :: "object_id option"
  es_location :: "portable_location option"
  es_native_identity :: "native_identity option"
  es_head :: "object_id option"
  es_reference :: "relative_path option"
  es_registered :: bool
  es_exists :: bool

record producer_operation =
  op_id :: lifecycle_id
  op_repository_id :: lifecycle_id
  op_graph_id :: "graph_ident option"
  op_generation_id :: "lifecycle_id option"
  op_target :: producer_target
  op_kind :: producer_kind
  op_before :: expected_state
  op_after :: expected_state
  op_max_steps :: u32

datatype operation_state = Op_Completed | Op_Blocked

record operation_step =
  os_id :: lifecycle_id
  os_operation_id :: lifecycle_id
  os_step :: u32
  os_observed :: expected_state
  os_state :: operation_state
  os_error_code :: "lifecycle_id option"

record process_identity =
  pi_pid :: u32
  pi_creation_token :: lifecycle_id
  pi_tree_token :: lifecycle_id

datatype driver_target =
    DriverExecution execution_scope
  | DriverProvisional lifecycle_id lifecycle_id

datatype driver_phase =
  Drv_HandoffPending | Drv_Starting | Drv_Running | Drv_Exited | Drv_Lost | Drv_Blocked

record driver_record =
  dv_id :: lifecycle_id
  dv_nonce :: lifecycle_id
  dv_target :: driver_target
  dv_process :: "process_identity option"
  dv_phase :: driver_phase
  dv_heartbeat :: u64
  dv_error_code :: "lifecycle_id option"
  dv_diagnostic :: "portable_location option"

datatype cancellation_target =
    CancelExecution execution_scope lifecycle_id "task_id option"
  | CancelProvisional lifecycle_id lifecycle_id lifecycle_id

record cancellation_request =
  cq_id :: lifecycle_id
  cq_target :: cancellation_target
  cq_process :: process_identity
  cq_created_at :: u64

datatype cancellation_status = Can_Pending | Can_Applied | Can_Blocked | Can_Stale | Can_OwnerLost

record cancellation_observation =
  cb_request :: cancellation_request
  cb_status :: cancellation_status

record artifact_binding =
  ab_artifact_id :: lifecycle_id
  ab_revision_id :: lifecycle_id
  ab_logical_tag :: "graph_ident option"

record inventory_location =
  il_scope :: location_scope
  il_root_alias :: "root_alias option"
  il_relative_path :: relative_path

record inventory_entry =
  ie_class :: inventory_class
  ie_ownership :: ownership_code
  ie_blockers :: "blocker_code list"
  ie_source :: entry_source
  ie_graph_id :: "graph_ident option"
  ie_lifecycle_id :: "lifecycle_id option"
  ie_location :: "inventory_location option"
  ie_withheld :: bool

record inventory_report =
  ir_mode :: report_mode
  ir_apply :: bool
  ir_blockers :: "blocker_code list"
  ir_entries :: "inventory_entry list"

text \<open>Records whose text fields were built by the checked constructors.\<close>

definition opt_ok :: "('a \<Rightarrow> bool) \<Rightarrow> 'a option \<Rightarrow> bool" where
  "opt_ok p v \<longleftrightarrow> (case v of None \<Rightarrow> True | Some x \<Rightarrow> p x)"

lemma opt_ok_simps [simp]: "opt_ok p None" "opt_ok p (Some x) \<longleftrightarrow> p x"
  by (simp_all add: opt_ok_def)

definition inventory_location_wf :: "inventory_location \<Rightarrow> bool" where
  "inventory_location_wf l \<longleftrightarrow> opt_ok root_alias_ok (il_root_alias l) \<and> relative (il_relative_path l)"

definition inventory_entry_wf :: "inventory_entry \<Rightarrow> bool" where
  "inventory_entry_wf e \<longleftrightarrow>
     opt_ok graph_id_is_legal (ie_graph_id e) \<and> opt_ok identifier_ok (ie_lifecycle_id e) \<and>
     opt_ok inventory_location_wf (ie_location e)"

definition delivery_receipt_wf :: "delivery_receipt \<Rightarrow> bool" where
  "delivery_receipt_wf r \<longleftrightarrow>
     object_id_ok (dr_accepted_commit r) \<and> git_ref_name (dr_destination_ref r) \<and>
     opt_ok object_id_ok (dr_recorded_destination r) \<and> opt_ok object_id_ok (dr_accepted_tree r) \<and>
     list_all object_id_ok (dr_recovery_objects r)"

section \<open>Sorted code lists\<close>

text \<open>
  The reports keep their codes in a \<open>Vec\<close> that never holds a code twice (\<open>push\<close>) and is
  sorted by code text before it is published (\<open>finish\<close>). Under \<open>stable_code\<close> the published
  list is the one sorted list of the collected set.
\<close>

definition push_code :: "'a list \<Rightarrow> 'a \<Rightarrow> 'a list" where
  "push_code codes code = (if code \<in> set codes then codes else codes @ [code])"

definition finish_codes :: "('a \<Rightarrow> string) \<Rightarrow> 'a list \<Rightarrow> 'a list" where
  "finish_codes as_str codes = remdups_adj (sort_key as_str codes)"

lemma set_push_code [simp]: "set (push_code cs c) = insert c (set cs)"
  by (auto simp: push_code_def)

lemma push_code_not_Nil [simp]: "push_code cs c \<noteq> []"
  by (auto simp: push_code_def)

lemma set_finish_codes [simp]: "set (finish_codes f cs) = set cs"
  by (simp add: finish_codes_def)

lemma finish_codes_Nil [simp]: "finish_codes f cs = [] \<longleftrightarrow> cs = []"
  by (metis set_empty set_finish_codes)

lemma distinct_remdups_adj_sorted: "sorted xs \<Longrightarrow> distinct (remdups_adj xs)"
  by (induction xs rule: remdups_adj.induct) auto

context stable_code
begin

lemma map_finish: "map code (finish_codes code cs) = remdups_adj (sort (map code cs))"
proof -
  have "map code (sort_key code cs) = sort (map code cs)"
    by (rule properties_for_sort [symmetric]) (simp_all add: sorted_sort_key)
  moreover have "map code (remdups_adj xs) = remdups_adj (map code xs)" for xs
    by (rule remdups_adj_map_injective [symmetric]) (rule inj_code)
  ultimately show ?thesis by (simp add: finish_codes_def)
qed

lemma finish_sorted: "sorted (map code (finish_codes code cs))"
  by (simp add: map_finish sorted_remdups_adj)

lemma finish_distinct: "distinct (finish_codes code cs)"
proof -
  have "distinct (map code (finish_codes code cs))"
    using distinct_remdups_adj_sorted [of "sort (map code cs)"] by (simp add: map_finish)
  then show ?thesis by (simp add: distinct_map)
qed

lemma finish_set_cong: "set as = set bs \<Longrightarrow> finish_codes code as = finish_codes code bs"
proof -
  assume "set as = set bs"
  then have "map code (finish_codes code as) = map code (finish_codes code bs)"
    by (intro sorted_distinct_set_unique)
      (simp_all add: finish_sorted distinct_codes finish_distinct)
  then show ?thesis using inj_code by (metis inj_map_eq_map)
qed

end

section \<open>What the checks guarantee\<close>

text \<open>
  Joining a path to a root, the way a path is resolved: \<open>.\<close> and empty components stay, \<open>..\<close>
  leaves a directory, and leaving the root is an error.
\<close>

fun walk_path :: "string list \<Rightarrow> string list \<Rightarrow> string list option" where
  "walk_path here [] = Some here"
| "walk_path here (p # ps) =
     (if p = [] \<or> p = ''.'' then walk_path here ps
      else if p = ''..'' then (if here = [] then None else walk_path (butlast here) ps)
      else walk_path (here @ [p]) ps)"

lemma walk_plain:
  "list_all path_part_ok ps \<Longrightarrow> walk_path here ps = Some (here @ ps)"
  by (induction ps arbitrary: here) (auto simp: path_part_ok_def)

lemma relative_parts: "relative s \<Longrightarrow> list_all path_part_ok (split_on CHR ''/'' s)"
  by (simp add: relative_def)

lemma relative_no_leading_slash:
  assumes "relative s" shows "\<not> starts_with s ''/''"
proof
  assume "starts_with s ''/''"
  then obtain t where "s = CHR ''/'' # t" by (auto simp: starts_with_iff_prefix)
  with relative_parts [OF assms] show False by (simp add: path_part_ok_def)
qed

text \<open>Line feeds separate the fields of digests; no checked text contains one.\<close>

lemma has_control_newline: "CHR 0x0A \<in> set s \<Longrightarrow> has_control s"
  by (induction s) (auto simp: is_ascii_control_def)

lemma relative_no_newline: "relative s \<Longrightarrow> CHR 0x0A \<notin> set s"
  using has_control_newline by (auto simp: relative_def)

lemma identifier_no_newline: "identifier_ok s \<Longrightarrow> CHR 0x0A \<notin> set s"
  by (auto simp: identifier_ok_def identifier_char_def ascii_defs list_all_iff)

lemma alias_no_newline: "root_alias_ok s \<Longrightarrow> CHR 0x0A \<notin> set s"
  by (auto simp: root_alias_ok_def alias_char_def ascii_defs list_all_iff)

lemma graph_id_no_newline: "graph_id_is_legal s \<Longrightarrow> CHR 0x0A \<notin> set s"
  by (auto simp: graph_id_is_legal_def graph_id_char_def ascii_defs list_all_iff)

lemma object_id_chars: "object_id_ok s \<Longrightarrow> list_all hex_char s"
  by (simp add: object_id_ok_def)

lemma object_id_no_newline: "object_id_ok s \<Longrightarrow> CHR 0x0A \<notin> set s"
  by (auto simp: object_id_ok_def hex_char_def ascii_defs byte_of_def list_all_iff)

lemma join_with_set: "c \<in> set (join_with sep ws) \<Longrightarrow> c \<in> set sep \<or> (\<exists>w \<in> set ws. c \<in> set w)"
  by (induction sep ws rule: join_with.induct) auto

lemma git_ref_chars:
  assumes "git_ref_name s" and "c \<in> set s"
  shows "c = CHR ''/'' \<or> ref_char c"
proof -
  have "c \<in> set (join_with [CHR ''/''] (split_on CHR ''/'' s))" using assms(2) by (simp add: join_split_on)
  then consider "c = CHR ''/''" | w where "w \<in> set (split_on CHR ''/'' s)" "c \<in> set w"
    using join_with_set by fastforce
  then show ?thesis
    using assms(1) by cases (auto simp: git_ref_name_def ref_part_ok_def list_all_iff)
qed

lemma git_ref_no_newline: "git_ref_name s \<Longrightarrow> CHR 0x0A \<notin> set s"
  using git_ref_chars by (fastforce simp: ref_char_def ascii_defs)

lemmas no_newline =
  identifier_no_newline alias_no_newline graph_id_no_newline object_id_no_newline
  relative_no_newline git_ref_no_newline

lemma object_id_not_dash: "object_id_ok s \<Longrightarrow> s \<noteq> ''-''"
  by (auto simp: object_id_ok_def)

text \<open>
  C33. A relative path accepted by \<open>RelativePath::new\<close> resolves under every base to exactly its
  own components appended to it: it never steps out of the base and is never absolute.
\<close>

theorem relative_path_is_contained:
  assumes "RelativePath_new s = Inr path"
  shows "walk_path base (split_on CHR ''/'' path) = Some (base @ split_on CHR ''/'' path) \<and>
     \<not> starts_with path ''/'' \<and> CHR 0x5C \<notin> set path \<and> CHR '':'' \<notin> set path"
proof -
  have r: "relative path" using assms by (simp add: RelativePath_new_def)
  then show ?thesis
    using walk_plain [OF relative_parts] relative_no_leading_slash
    by (auto simp: relative_def contains_any_def list_ex_iff)
qed

theorem relative_path_is_contained_witness:
  "RelativePath_new ''run/generation-1'' = Inr ''run/generation-1'' \<and>
   walk_path [''srv''] (split_on CHR ''/'' ''run/generation-1'') = Some [''srv'', ''run'', ''generation-1'']"
proof -
  have ok: "RelativePath_new ''run/generation-1'' = Inr ''run/generation-1''" by code_simp
  from relative_path_is_contained [OF ok, of "[''srv'']"] ok show ?thesis by simp
qed

end
