(* ===== verification/Domain_Cleanup.thy ===== *)
theory Domain_Cleanup
  imports Domain_Workspace
begin

text \<open>
  The cleanup preview policy of \<open>meshloop-domain/src/cleanup.rs\<close>. Facts about candidate
  directories are judged, nothing is removed: the preview says which candidates would be
  eligible and binds the verdict to a digest of the facts.

  \<open>sha256_hex\<close> is the SHA-256 function of the crate \<open>sha2\<close> and stays a parameter. The lemmas
  show when a candidate is eligible, that a digest issued for other facts blocks every
  candidate, and that the digest text determines every fact the verdicts depend on.
\<close>

record cleanup_candidate_facts =
  cc_inventory :: inventory_entry
  cc_dirty_tracked :: bool
  cc_dirty_untracked :: bool
  cc_unknown_ignored :: bool
  cc_commit :: "object_id option"
  cc_commit_reachable :: bool
  cc_commit_unproven :: bool
  cc_active_process :: bool
  cc_path_reparse :: bool
  cc_path_symlink :: bool
  cc_path_escape :: bool
  cc_path_outside_repository :: bool
  cc_missing_dependency :: bool
  cc_missing_recovery_object :: bool
  cc_receipt :: "delivery_receipt option"

record cleanup_facts =
  cf_repository_id :: lifecycle_id
  cf_retained_ref :: git_ref
  cf_retained_commit :: "object_id option"
  cf_candidates :: "cleanup_candidate_facts list"

datatype cleanup_eligibility = CE_Blocked | CE_Eligible

fun cleanup_eligibility_str :: "cleanup_eligibility \<Rightarrow> string" where
  "cleanup_eligibility_str CE_Blocked = ''blocked''"
| "cleanup_eligibility_str CE_Eligible = ''eligible''"

datatype cleanup_reason =
    Cln_ActiveProcess
  | Cln_AmbiguousOwnership
  | Cln_DirtyTracked
  | Cln_DirtyUntracked
  | Cln_MissingDependency
  | Cln_MissingRecoveryObject
  | Cln_StaleFacts
  | Cln_UniqueCommit
  | Cln_UnknownIgnored
  | Cln_UnsafePath

fun cleanup_reason_str :: "cleanup_reason \<Rightarrow> string" where
  "cleanup_reason_str Cln_ActiveProcess = ''active-process''"
| "cleanup_reason_str Cln_AmbiguousOwnership = ''ambiguous-ownership''"
| "cleanup_reason_str Cln_DirtyTracked = ''dirty-tracked''"
| "cleanup_reason_str Cln_DirtyUntracked = ''dirty-untracked''"
| "cleanup_reason_str Cln_MissingDependency = ''missing-dependency''"
| "cleanup_reason_str Cln_MissingRecoveryObject = ''missing-recovery-object''"
| "cleanup_reason_str Cln_StaleFacts = ''stale-facts''"
| "cleanup_reason_str Cln_UniqueCommit = ''unique-commit''"
| "cleanup_reason_str Cln_UnknownIgnored = ''unknown-ignored''"
| "cleanup_reason_str Cln_UnsafePath = ''unsafe-path''"

record cleanup_candidate_preview =
  pv_lifecycle_id :: "lifecycle_id option"
  pv_source :: entry_source
  pv_location :: "inventory_location option"
  pv_ownership :: ownership_code
  pv_status :: cleanup_eligibility
  pv_reasons :: "cleanup_reason list"

record cleanup_preview =
  cp_apply :: bool
  cp_digest :: string
  cp_candidates :: "cleanup_candidate_preview list"

definition has_blocker :: "inventory_entry \<Rightarrow> blocker_code \<Rightarrow> bool" where
  "has_blocker entry code \<longleftrightarrow> code \<in> set (ie_blockers entry)"

definition unique_commit :: "cleanup_candidate_facts \<Rightarrow> bool" where
  "unique_commit c \<longleftrightarrow> cc_commit_unproven c \<or> (cc_commit c \<noteq> None \<and> \<not> cc_commit_reachable c)"

definition unsafe_path :: "cleanup_candidate_facts \<Rightarrow> bool" where
  "unsafe_path c \<longleftrightarrow>
     cc_path_reparse c \<or> cc_path_symlink c \<or> cc_path_escape c \<or> cc_path_outside_repository c \<or>
     ie_withheld (cc_inventory c) \<or> ie_class (cc_inventory c) = Cls_Inaccessible \<or>
     has_blocker (cc_inventory c) Blk_ReparseBlocked \<or>
     has_blocker (cc_inventory c) Blk_ExternalPathWithheld \<or>
     has_blocker (cc_inventory c) Blk_PathInaccessible"

definition ambiguous :: "inventory_entry \<Rightarrow> bool" where
  "ambiguous e \<longleftrightarrow>
     ie_ownership e \<noteq> Own_LedgerOwned \<or> has_blocker e Blk_UnknownOwnership \<or>
     has_blocker e Blk_LegacyOwnershipUnresolved \<or> has_blocker e Blk_IdentityConflict \<or>
     has_blocker e Blk_RepositoryUnbound"

definition missing_dependency :: "cleanup_candidate_facts \<Rightarrow> bool" where
  "missing_dependency c \<longleftrightarrow>
     cc_missing_dependency c \<or> ie_class (cc_inventory c) = Cls_Missing \<or>
     has_blocker (cc_inventory c) Blk_PathMissing"

definition push_if :: "bool \<Rightarrow> 'a \<Rightarrow> 'a list \<Rightarrow> 'a list" where
  "push_if b code codes = (if b then push_code codes code else codes)"

definition reasons_for :: "cleanup_candidate_facts \<Rightarrow> bool \<Rightarrow> cleanup_reason list" where
  "reasons_for c stale =
     (let r = [];
          r = push_if (cc_dirty_tracked c) Cln_DirtyTracked r;
          r = push_if (cc_dirty_untracked c) Cln_DirtyUntracked r;
          r = push_if (cc_unknown_ignored c) Cln_UnknownIgnored r;
          r = push_if (unique_commit c) Cln_UniqueCommit r;
          r = push_if (cc_active_process c \<or> has_blocker (cc_inventory c) Blk_DriverActive)
                Cln_ActiveProcess r;
          r = push_if (unsafe_path c) Cln_UnsafePath r;
          r = push_if (ambiguous (cc_inventory c)) Cln_AmbiguousOwnership r;
          r = push_if (missing_dependency c) Cln_MissingDependency r;
          r = push_if (cc_missing_recovery_object c) Cln_MissingRecoveryObject r;
          r = push_if stale Cln_StaleFacts r
      in finish_codes cleanup_reason_str r)"

definition candidate_preview :: "cleanup_candidate_facts \<Rightarrow> bool \<Rightarrow> cleanup_candidate_preview" where
  "candidate_preview c stale =
     (let reasons = reasons_for c stale;
          status = (if reasons = [] then CE_Eligible else CE_Blocked)
      in \<lparr>pv_lifecycle_id = ie_lifecycle_id (cc_inventory c),
          pv_source = ie_source (cc_inventory c),
          pv_location = ie_location (cc_inventory c),
          pv_ownership = ie_ownership (cc_inventory c),
          pv_status = status, pv_reasons = reasons\<rparr>)"

definition token_or_dash :: "string option \<Rightarrow> string" where
  "token_or_dash v = (case v of None \<Rightarrow> ''-'' | Some s \<Rightarrow> s)"

definition object_token :: "object_id option \<Rightarrow> string" where
  "object_token = token_or_dash"

definition id_token :: "lifecycle_id option \<Rightarrow> string" where
  "id_token = token_or_dash"

definition bit_token :: "bool \<Rightarrow> string" where
  "bit_token b = (if b then ''1'' else ''0'')"

definition receipt_token :: "delivery_receipt option \<Rightarrow> string" where
  "receipt_token receipt =
     (case receipt of
        None \<Rightarrow> ''-''
      | Some r \<Rightarrow>
          join_with ''|''
            [landing_str (dr_strategy r), dr_accepted_commit r, dr_destination_ref r,
             object_token (dr_recorded_destination r), object_token (dr_accepted_tree r),
             join_with '','' (sort (dr_recovery_objects r))])"

definition candidate_lines :: "cleanup_candidate_facts \<Rightarrow> string list" where
  "candidate_lines c =
     (let entry = cc_inventory c; location = ie_location entry
      in [''id='' @ id_token (ie_lifecycle_id entry),
          ''source='' @ entry_source_str (ie_source entry),
          ''graph='' @ token_or_dash (ie_graph_id entry),
          ''scope='' @ token_or_dash (map_option (\<lambda>l. location_scope_str (il_scope l)) location),
          ''alias='' @ token_or_dash (Option.bind location il_root_alias),
          ''path='' @ token_or_dash (map_option il_relative_path location),
          ''class='' @ inventory_class_str (ie_class entry),
          ''ownership='' @ ownership_str (ie_ownership entry),
          ''withheld='' @ bit_token (ie_withheld entry),
          ''blockers='' @ join_with '','' (sort (map blocker_str (ie_blockers entry))),
          ''dirty-tracked='' @ bit_token (cc_dirty_tracked c),
          ''dirty-untracked='' @ bit_token (cc_dirty_untracked c),
          ''unknown-ignored='' @ bit_token (cc_unknown_ignored c),
          ''commit='' @ object_token (cc_commit c),
          ''reachable='' @ bit_token (cc_commit_reachable c),
          ''unproven='' @ bit_token (cc_commit_unproven c),
          ''active='' @ bit_token (cc_active_process c),
          ''reparse='' @ bit_token (cc_path_reparse c),
          ''symlink='' @ bit_token (cc_path_symlink c),
          ''escape='' @ bit_token (cc_path_escape c),
          ''outside='' @ bit_token (cc_path_outside_repository c),
          ''missing-dependency='' @ bit_token (cc_missing_dependency c),
          ''missing-recovery='' @ bit_token (cc_missing_recovery_object c),
          ''receipt='' @ receipt_token (cc_receipt c)])"

definition candidate_block :: "cleanup_candidate_facts \<Rightarrow> string" where
  "candidate_block c = join_with [CHR 0x0A] (candidate_lines c)"

definition digest_material :: "cleanup_facts \<Rightarrow> string" where
  "digest_material f =
     ''cleanup-preview-v1'' @ [CHR 0x0A] @
     ''repository='' @ cf_repository_id f @ [CHR 0x0A] @
     ''retained-ref='' @ cf_retained_ref f @ [CHR 0x0A] @
     ''retained-commit='' @ object_token (cf_retained_commit f) @ [CHR 0x0A] @
     concat (map (\<lambda>b. b @ [CHR 0x0A]) (sort (map candidate_block (cf_candidates f))))"

definition digest_of :: "(string \<Rightarrow> string) \<Rightarrow> cleanup_facts \<Rightarrow> string" where
  "digest_of sha256_hex f = sha256_hex (digest_material f)"

definition cleanup_policy ::
  "(string \<Rightarrow> string) \<Rightarrow> cleanup_facts \<Rightarrow> string option \<Rightarrow> cleanup_preview" where
  "cleanup_policy sha256_hex f bound_digest =
     (let digest = digest_of sha256_hex f;
          stale = (case bound_digest of None \<Rightarrow> False | Some bound \<Rightarrow> bound \<noteq> digest);
          ranked = sort_key candidate_block (cf_candidates f)
      in \<lparr>cp_apply = False, cp_digest = digest,
          cp_candidates = map (\<lambda>c. candidate_preview c stale) ranked\<rparr>)"

section \<open>Reasons\<close>

lemma cleanup_reason_str_inj: "cleanup_reason_str a = cleanup_reason_str b \<Longrightarrow> a = b"
  by (cases a; cases b) simp_all

interpretation cleanup_reasons: stable_code cleanup_reason_str
  by unfold_locales (rule cleanup_reason_str_inj)

lemma set_push_if [simp]: "set (push_if b c cs) = (if b then insert c (set cs) else set cs)"
  by (simp add: push_if_def)

lemma push_if_Nil [simp]: "push_if b c cs = [] \<longleftrightarrow> \<not> b \<and> cs = []"
  by (simp add: push_if_def)

lemma reasons_for_Nil:
  "reasons_for c stale = [] \<longleftrightarrow>
     \<not> cc_dirty_tracked c \<and> \<not> cc_dirty_untracked c \<and> \<not> cc_unknown_ignored c \<and> \<not> unique_commit c \<and>
     \<not> cc_active_process c \<and> \<not> has_blocker (cc_inventory c) Blk_DriverActive \<and> \<not> unsafe_path c \<and>
     \<not> ambiguous (cc_inventory c) \<and> \<not> missing_dependency c \<and> \<not> cc_missing_recovery_object c \<and>
     \<not> stale"
  by (auto simp: reasons_for_def Let_def)

lemma stale_reason: "Cln_StaleFacts \<in> set (reasons_for c stale) \<longleftrightarrow> stale"
  by (simp add: reasons_for_def Let_def)

lemma reasons_for_sorted:
  "sorted (map cleanup_reason_str (reasons_for c stale)) \<and> distinct (reasons_for c stale)"
  by (simp add: reasons_for_def Let_def cleanup_reasons.finish_sorted cleanup_reasons.finish_distinct)

lemma preview_status: "pv_status (candidate_preview c stale) = CE_Eligible \<longleftrightarrow> reasons_for c stale = []"
  by (simp add: candidate_preview_def Let_def)

lemma policy_candidates:
  "set (cp_candidates (cleanup_policy sha f bound)) =
     (\<lambda>c. candidate_preview c (\<exists>b. bound = Some b \<and> b \<noteq> digest_of sha f)) ` set (cf_candidates f)"
  by (cases bound) (simp_all add: cleanup_policy_def Let_def)

section \<open>What the digest binds\<close>

definition cleanup_candidate_wf :: "cleanup_candidate_facts \<Rightarrow> bool" where
  "cleanup_candidate_wf c \<longleftrightarrow>
     inventory_entry_wf (cc_inventory c) \<and> opt_ok object_id_ok (cc_commit c) \<and>
     opt_ok delivery_receipt_wf (cc_receipt c)"

definition cleanup_facts_wf :: "cleanup_facts \<Rightarrow> bool" where
  "cleanup_facts_wf f \<longleftrightarrow>
     identifier_ok (cf_repository_id f) \<and> git_ref_name (cf_retained_ref f) \<and>
     opt_ok object_id_ok (cf_retained_commit f) \<and> list_all cleanup_candidate_wf (cf_candidates f)"

abbreviation lf :: char where "lf \<equiv> CHR 0x0A"

lemma lf_token_or_dash: "opt_ok p v \<Longrightarrow> (\<And>s. p s \<Longrightarrow> lf \<notin> set s) \<Longrightarrow> lf \<notin> set (token_or_dash v)"
  by (cases v) (auto simp: token_or_dash_def)

lemma lf_codes [simp]:
  "lf \<notin> set (entry_source_str a)" "lf \<notin> set (location_scope_str b)"
  "lf \<notin> set (inventory_class_str c)" "lf \<notin> set (ownership_str d)" "lf \<notin> set (landing_str e)"
  "lf \<notin> set (blocker_str g)" "lf \<notin> set (bit_token h)"
proof -
  show "lf \<notin> set (entry_source_str a)" by (cases a) simp_all
  show "lf \<notin> set (location_scope_str b)" by (cases b) simp_all
  show "lf \<notin> set (inventory_class_str c)" by (cases c) simp_all
  show "lf \<notin> set (ownership_str d)" by (cases d) simp_all
  show "lf \<notin> set (landing_str e)" by (cases e) simp_all
  show "lf \<notin> set (blocker_str g)" by (cases g) simp_all
  show "lf \<notin> set (bit_token h)" by (simp add: bit_token_def)
qed

lemma lf_join: "lf \<notin> set sep \<Longrightarrow> (\<And>w. w \<in> set ws \<Longrightarrow> lf \<notin> set w) \<Longrightarrow> lf \<notin> set (join_with sep ws)"
  using join_with_set by fastforce

lemma lf_object_token: "opt_ok object_id_ok v \<Longrightarrow> lf \<notin> set (object_token v)"
  unfolding object_token_def by (erule lf_token_or_dash) (rule object_id_no_newline)

lemma lf_receipt_token: "opt_ok delivery_receipt_wf r \<Longrightarrow> lf \<notin> set (receipt_token r)"
proof (cases r)
  case (Some d)
  assume "opt_ok delivery_receipt_wf r"
  with Some have wf: "delivery_receipt_wf d" by simp
  then have "lf \<notin> set (join_with '','' (sort (dr_recovery_objects d)))"
    by (intro lf_join) (auto simp: delivery_receipt_wf_def list_all_iff dest: object_id_no_newline)
  with wf have "lf \<notin> set w"
    if "w \<in> set [landing_str (dr_strategy d), dr_accepted_commit d, dr_destination_ref d,
      object_token (dr_recorded_destination d), object_token (dr_accepted_tree d),
      join_with '','' (sort (dr_recovery_objects d))]" for w
    using that lf_object_token
    by (auto simp: delivery_receipt_wf_def dest: object_id_no_newline git_ref_no_newline)
  then have "lf \<notin> set (join_with ''|'' [landing_str (dr_strategy d), dr_accepted_commit d,
      dr_destination_ref d, object_token (dr_recorded_destination d),
      object_token (dr_accepted_tree d), join_with '','' (sort (dr_recovery_objects d))])"
    by (intro lf_join) simp_all
  then show ?thesis unfolding Some receipt_token_def option.case .
qed (simp add: receipt_token_def)

lemma lf_location_tokens:
  assumes "opt_ok inventory_location_wf l"
  shows "lf \<notin> set (token_or_dash (map_option (\<lambda>l. location_scope_str (il_scope l)) l))"
    "lf \<notin> set (token_or_dash (Option.bind l il_root_alias))"
    "lf \<notin> set (token_or_dash (map_option il_relative_path l))"
  using assms
  by (cases l; auto simp: token_or_dash_def inventory_location_wf_def opt_ok_def
      split: option.splits dest: no_newline)+

lemma lf_blockers: "lf \<notin> set (join_with '','' (sort (map blocker_str bs)))"
  by (rule lf_join) auto

lemma lf_candidate_lines:
  assumes "cleanup_candidate_wf c" and "l \<in> set (candidate_lines c)"
  shows "lf \<notin> set l"
proof -
  have i: "inventory_entry_wf (cc_inventory c)" using assms(1) by (simp add: cleanup_candidate_wf_def)
  have "lf \<notin> set (id_token (ie_lifecycle_id (cc_inventory c)))"
    unfolding id_token_def using i
    by (intro lf_token_or_dash [where p = identifier_ok])
      (auto simp: inventory_entry_wf_def dest: identifier_no_newline)
  moreover have "lf \<notin> set (token_or_dash (ie_graph_id (cc_inventory c)))"
    using i by (intro lf_token_or_dash [where p = graph_id_is_legal])
      (auto simp: inventory_entry_wf_def dest: graph_id_no_newline)
  moreover have "opt_ok inventory_location_wf (ie_location (cc_inventory c))"
    using i by (simp add: inventory_entry_wf_def)
  moreover have "lf \<notin> set (object_token (cc_commit c))" "lf \<notin> set (receipt_token (cc_receipt c))"
    using assms(1) by (simp_all add: cleanup_candidate_wf_def lf_object_token lf_receipt_token)
  ultimately show ?thesis
    using assms(2) lf_blockers lf_location_tokens
    by (auto simp: candidate_lines_def Let_def)
qed

lemma length_candidate_lines: "length (candidate_lines c) = 24"
  by (simp add: candidate_lines_def Let_def)

lemma split_candidate_block:
  assumes "cleanup_candidate_wf c"
  shows "split_on lf (candidate_block c) = candidate_lines c"
  unfolding candidate_block_def
  by (rule split_on_join) (use lf_candidate_lines [OF assms] length_candidate_lines [of c] in auto)

text \<open>The material is a list of lines; the blocks are its groups of 24 lines.\<close>

lemma split_on_lines:
  "(\<And>l. l \<in> set ls \<Longrightarrow> d \<notin> set l) \<Longrightarrow> split_on d (concat (map (\<lambda>l. l @ [d]) ls)) = ls @ [[]]"
  by (induction ls) (auto simp: split_on_append)

lemma block_as_lines:
  "ls \<noteq> [] \<Longrightarrow> join_with [d] ls @ [d] = concat (map (\<lambda>l. l @ [d]) ls)"
  by (induction "[d]" ls rule: join_with.induct) auto

lemma cancel_line:
  fixes d :: char
  assumes "a @ d # b = a' @ d # b'" and "d \<notin> set a" and "d \<notin> set a'"
  shows "a = a' \<and> b = b'"
proof -
  have "split_on d (a @ d # b) = split_on d (a' @ d # b')" using assms(1) by simp
  then have "a = a'" using assms(2,3) by (simp add: split_on_append)
  then show ?thesis using assms(1) by simp
qed

lemma blocks_determined:
  assumes eq: "concat (map (\<lambda>b. b @ [lf]) bs) = concat (map (\<lambda>b. b @ [lf]) bs')"
    and ok: "\<And>b. b \<in> set bs \<union> set bs' \<Longrightarrow> length (split_on lf b) = 24"
  shows "bs = bs'"
proof -
  let ?ls = "\<lambda>bs. concat (map (split_on lf) bs)"
  have lines: "concat (map (\<lambda>b. b @ [lf]) xs) = concat (map (\<lambda>l. l @ [lf]) (?ls xs))" for xs
  proof (induction xs)
    case (Cons x xs)
    have "x @ [lf] = concat (map (\<lambda>l. l @ [lf]) (split_on lf x))"
      using block_as_lines [of "split_on lf x" lf] by (simp add: join_split_on)
    with Cons show ?case by simp
  qed simp
  have split_back: "split_on lf (concat (map (\<lambda>l. l @ [lf]) (?ls xs))) = ?ls xs @ [[]]" for xs
    by (rule split_on_lines) (auto dest: split_on_pieces)
  have e: "?ls bs = ?ls bs'" using eq lines split_back by (metis append_same_eq)
  have n: "length (?ls xs) = 24 * length xs" if "\<And>b. b \<in> set xs \<Longrightarrow> length (split_on lf b) = 24" for xs :: "string list"
    using that by (induction xs) auto
  have "length bs = length bs'" using n [of bs] n [of bs'] e ok by auto
  then have "map (split_on lf) bs = map (split_on lf) bs'"
    using e ok by (intro concat_injective) (auto simp: set_zip)
  then show ?thesis by (metis join_split_on map_idI map_map comp_apply)
qed

lemma sorted_blocks_24:
  assumes "list_all cleanup_candidate_wf cs" and "b \<in> set (sort (map candidate_block cs))"
  shows "length (split_on lf b) = 24"
  using assms by (auto simp: list_all_iff split_candidate_block length_candidate_lines)

lemma material_determines_blocks:
  assumes wf: "cleanup_facts_wf f" "cleanup_facts_wf f'"
    and eq: "digest_material f = digest_material f'"
  shows "cf_repository_id f = cf_repository_id f' \<and> cf_retained_ref f = cf_retained_ref f' \<and>
     sort (map candidate_block (cf_candidates f)) = sort (map candidate_block (cf_candidates f'))"
proof -
  note ids = identifier_no_newline git_ref_no_newline lf_object_token
  let ?body = "\<lambda>f. concat (map (\<lambda>b. b @ [lf]) (sort (map candidate_block (cf_candidates f))))"
  let ?rest = "\<lambda>f. ''retained-commit='' @ object_token (cf_retained_commit f) @ lf # ?body f"
  have 1: "cf_repository_id f @ lf # ''retained-ref='' @ cf_retained_ref f @ lf # ?rest f =
      cf_repository_id f' @ lf # ''retained-ref='' @ cf_retained_ref f' @ lf # ?rest f'"
    using eq by (simp add: digest_material_def)
  then have r: "cf_repository_id f = cf_repository_id f'"
    and 2: "cf_retained_ref f @ lf # ?rest f = cf_retained_ref f' @ lf # ?rest f'"
    using cancel_line [OF 1] wf ids(1) by (auto simp: cleanup_facts_wf_def)
  then have ref: "cf_retained_ref f = cf_retained_ref f'"
    and 3: "object_token (cf_retained_commit f) @ lf # ?body f =
      object_token (cf_retained_commit f') @ lf # ?body f'"
    using cancel_line [OF 2] wf ids(2) by (auto simp: cleanup_facts_wf_def)
  have "?body f = ?body f'"
    using cancel_line [OF 3] wf ids(3) by (auto simp: cleanup_facts_wf_def)
  then have "sort (map candidate_block (cf_candidates f)) = sort (map candidate_block (cf_candidates f'))"
    using wf sorted_blocks_24 by (intro blocks_determined) (auto simp: cleanup_facts_wf_def)
  with r ref show ?thesis by simp
qed

lemma bit_token_inj [simp]: "bit_token a = bit_token b \<longleftrightarrow> a = b"
  by (simp add: bit_token_def)

lemma object_token_None:
  assumes "opt_ok object_id_ok v" and "opt_ok object_id_ok v'" and "object_token v = object_token v'"
  shows "v = v'"
  using assms
  by (auto simp: object_token_def token_or_dash_def opt_ok_def dest: object_id_not_dash split: option.splits)

lemma blocker_code_plain: "CHR '','' \<notin> set (blocker_str b) \<and> blocker_str b \<noteq> []"
  by (cases b) simp_all

lemma join_codes_Nil: "join_with '','' (sort (map blocker_str bs)) = [] \<longleftrightarrow> bs = []"
proof (cases bs)
  case (Cons b cs)
  obtain w ws where w: "sort (map blocker_str bs) = w # ws"
    using Cons by (cases "sort (map blocker_str bs)")
      (auto dest: arg_cong [where f = length])
  then have "w \<in> set (map blocker_str bs)" by (metis list.set_intros(1) set_sort)
  then have "w \<noteq> []" using blocker_code_plain by auto
  with w Cons show ?thesis by (cases ws) auto
qed simp

lemma blockers_token:
  assumes "join_with '','' (sort (map blocker_str as)) = join_with '','' (sort (map blocker_str bs))"
  shows "set as = set bs"
proof (cases "as = []")
  case True
  then show ?thesis using assms join_codes_Nil by (metis set_empty)
next
  case False
  then have "bs \<noteq> []" using assms join_codes_Nil by metis
  have "split_on CHR '','' (join_with '','' (sort (map blocker_str xs))) = sort (map blocker_str xs)"
    if "xs \<noteq> []" for xs
    using that blocker_code_plain
    by (intro split_on_join) (auto dest: arg_cong [where f = length])
  then have "sort (map blocker_str as) = sort (map blocker_str bs)"
    using False \<open>bs \<noteq> []\<close> assms by metis
  then show ?thesis using blocker_codes.sort_codes_determine by (metis set_mset_mset)
qed

lemma has_blocker_cong: "set (ie_blockers a) = set (ie_blockers b) \<Longrightarrow> has_blocker a = has_blocker b"
  by (auto simp: has_blocker_def)

text \<open>What a reader of a preview acts on.\<close>

definition preview_verdict ::
  "cleanup_candidate_preview \<Rightarrow> cleanup_eligibility \<times> cleanup_reason list \<times> entry_source \<times> ownership_code" where
  "preview_verdict p = (pv_status p, pv_reasons p, pv_source p, pv_ownership p)"

lemma block_determines_verdict:
  assumes wf: "cleanup_candidate_wf c" "cleanup_candidate_wf c'"
    and eq: "candidate_block c = candidate_block c'"
  shows "preview_verdict (candidate_preview c stale) = preview_verdict (candidate_preview c' stale)"
proof -
  have l: "candidate_lines c = candidate_lines c'"
    using split_candidate_block wf eq by metis
  let ?e = "cc_inventory c" and ?e' = "cc_inventory c'"
  have e: "ie_source ?e = ie_source ?e'" "ie_class ?e = ie_class ?e'"
    "ie_ownership ?e = ie_ownership ?e'" "ie_withheld ?e = ie_withheld ?e'"
    using l by (auto simp: candidate_lines_def Let_def entry_sources.code_eq_iff
        inventory_classes.code_eq_iff ownership_codes.code_eq_iff)
  have b: "has_blocker ?e = has_blocker ?e'"
    using l by (intro has_blocker_cong blockers_token) (simp add: candidate_lines_def Let_def)
  have k: "cc_commit c = cc_commit c'"
    using l wf by (intro object_token_None) (simp_all add: candidate_lines_def Let_def cleanup_candidate_wf_def)
  have f: "cc_dirty_tracked c = cc_dirty_tracked c'" "cc_dirty_untracked c = cc_dirty_untracked c'"
    "cc_unknown_ignored c = cc_unknown_ignored c'" "cc_commit_reachable c = cc_commit_reachable c'"
    "cc_commit_unproven c = cc_commit_unproven c'" "cc_active_process c = cc_active_process c'"
    "cc_path_reparse c = cc_path_reparse c'" "cc_path_symlink c = cc_path_symlink c'"
    "cc_path_escape c = cc_path_escape c'" "cc_path_outside_repository c = cc_path_outside_repository c'"
    "cc_missing_dependency c = cc_missing_dependency c'"
    "cc_missing_recovery_object c = cc_missing_recovery_object c'"
    using l by (simp_all add: candidate_lines_def Let_def)
  have "reasons_for c stale = reasons_for c' stale"
    unfolding reasons_for_def unique_commit_def unsafe_path_def ambiguous_def missing_dependency_def
    by (simp only: e b k f)
  then show ?thesis using e by (simp add: preview_verdict_def candidate_preview_def Let_def)
qed

lemma map_eq_via:
  assumes "map f xs = map f ys"
    and "\<And>x y. x \<in> set xs \<Longrightarrow> y \<in> set ys \<Longrightarrow> f x = f y \<Longrightarrow> g x = g y"
  shows "map g xs = map g ys"
proof (rule nth_equalityI)
  show len: "length (map g xs) = length (map g ys)" using assms(1) by (metis length_map)
  fix i assume i: "i < length (map g xs)"
  then have "f (xs ! i) = f (ys ! i)" using assms(1) len by (metis length_map nth_map)
  with i len show "map g xs ! i = map g ys ! i" using assms(2) by simp
qed

lemma ranked_blocks: "map candidate_block (sort_key candidate_block cs) = sort (map candidate_block cs)"
  by (rule properties_for_sort [symmetric]) (simp_all add: sorted_sort_key)

lemma digest_material_order:
  assumes "mset (cf_candidates f) = mset (cf_candidates g)"
    and "cf_repository_id f = cf_repository_id g" "cf_retained_ref f = cf_retained_ref g"
      "cf_retained_commit f = cf_retained_commit g"
  shows "digest_material f = digest_material g"
proof -
  have "sort (map candidate_block (cf_candidates f)) = sort (map candidate_block (cf_candidates g))"
    using assms(1) by (intro properties_for_sort) simp_all
  then show ?thesis using assms(2-4) by (simp add: digest_material_def)
qed

lemma stale_blocks_all:
  "bound \<noteq> digest_of sha f \<Longrightarrow> p \<in> set (cp_candidates (cleanup_policy sha f (Some bound))) \<Longrightarrow>
     pv_status p = CE_Blocked"
  by (auto simp: cleanup_policy_def Let_def candidate_preview_def reasons_for_Nil)

text \<open>
  C29. Every candidate of a preview is judged, once. A candidate is eligible exactly when the
  presented digest (if any) is the digest of the current facts and the candidate is clean,
  carries no commit that is not proved reachable, is idle, lies on a safe path, is owned by
  the ledger without doubt, and misses neither a dependency nor a recovery object. The reasons
  of a blocked candidate are sorted and unrepeated, and no preview ever asks to apply.
\<close>

theorem cleanup_eligible_iff_safe:
  "let p = cleanup_policy sha f bound;
       fresh = (\<forall>b. bound = Some b \<longrightarrow> b = digest_of sha f)
   in \<not> cp_apply p \<and> cp_digest p = digest_of sha f \<and>
      mset (cp_candidates p) = image_mset (\<lambda>c. candidate_preview c (\<not> fresh)) (mset (cf_candidates f)) \<and>
      (\<forall>c. let v = candidate_preview c (\<not> fresh); e = cc_inventory c
           in (pv_status v = CE_Eligible \<longleftrightarrow>
                 fresh \<and> \<not> cc_dirty_tracked c \<and> \<not> cc_dirty_untracked c \<and> \<not> cc_unknown_ignored c \<and>
                 \<not> cc_commit_unproven c \<and> (cc_commit c = None \<or> cc_commit_reachable c) \<and>
                 \<not> cc_active_process c \<and> \<not> cc_path_reparse c \<and> \<not> cc_path_symlink c \<and>
                 \<not> cc_path_escape c \<and> \<not> cc_path_outside_repository c \<and> \<not> ie_withheld e \<and>
                 ie_ownership e = Own_LedgerOwned \<and> ie_class e \<notin> {Cls_Inaccessible, Cls_Missing} \<and>
                 \<not> cc_missing_dependency c \<and> \<not> cc_missing_recovery_object c \<and>
                 set (ie_blockers e) \<inter> {Blk_DriverActive, Blk_ReparseBlocked, Blk_ExternalPathWithheld,
                   Blk_PathInaccessible, Blk_UnknownOwnership, Blk_LegacyOwnershipUnresolved,
                   Blk_IdentityConflict, Blk_RepositoryUnbound, Blk_PathMissing} = {}) \<and>
              (pv_status v = CE_Eligible \<longleftrightarrow> pv_reasons v = []) \<and>
              sorted (map cleanup_reason_str (pv_reasons v)) \<and> distinct (pv_reasons v))"
proof -
  have stale: "(case bound of None \<Rightarrow> False | Some b \<Rightarrow> b \<noteq> digest_of sha f) \<longleftrightarrow>
      \<not> (\<forall>b. bound = Some b \<longrightarrow> b = digest_of sha f)"
    by (cases bound) auto
  have reasons: "pv_reasons (candidate_preview c s) = reasons_for c s" for c s
    by (simp add: candidate_preview_def Let_def)
  show ?thesis
    unfolding cleanup_policy_def Let_def stale reasons preview_status reasons_for_Nil
    by (auto simp: reasons_for_sorted unique_commit_def unsafe_path_def ambiguous_def
        missing_dependency_def has_blocker_def)
qed

definition sample_candidate :: cleanup_candidate_facts where
  "sample_candidate =
     \<lparr>cc_inventory =
        \<lparr>ie_class = Cls_Active, ie_ownership = Own_LedgerOwned, ie_blockers = [],
         ie_source = Src_Generation, ie_graph_id = Some ''graph-1'',
         ie_lifecycle_id = Some ''generation-1'',
         ie_location = Some \<lparr>il_scope = Scp_LedgerRoot, il_root_alias = Some ''worktrees'',
           il_relative_path = ''run/generation-1''\<rparr>,
         ie_withheld = False\<rparr>,
      cc_dirty_tracked = False, cc_dirty_untracked = False, cc_unknown_ignored = False,
      cc_commit = Some (replicate 40 CHR ''a''), cc_commit_reachable = True,
      cc_commit_unproven = False, cc_active_process = False, cc_path_reparse = False,
      cc_path_symlink = False, cc_path_escape = False, cc_path_outside_repository = False,
      cc_missing_dependency = False, cc_missing_recovery_object = False, cc_receipt = None\<rparr>"

definition sample_facts :: cleanup_facts where
  "sample_facts =
     \<lparr>cf_repository_id = ''repository-1'', cf_retained_ref = ''refs/heads/main'',
      cf_retained_commit = Some (replicate 40 CHR ''b''), cf_candidates = [sample_candidate]\<rparr>"

lemma sample_facts_wf: "cleanup_facts_wf sample_facts"
  by code_simp

lemma sample_policy:
  "cp_candidates (cleanup_policy sha sample_facts bound) =
     [candidate_preview sample_candidate (case bound of None \<Rightarrow> False | Some b \<Rightarrow> b \<noteq> digest_of sha sample_facts)]"
proof -
  have "cf_candidates sample_facts = [sample_candidate]" by (simp add: sample_facts_def)
  then show ?thesis by (simp add: cleanup_policy_def Let_def)
qed

theorem cleanup_eligible_iff_safe_witness:
  "map pv_status (cp_candidates (cleanup_policy (\<lambda>m. m) sample_facts None)) = [CE_Eligible] \<and>
   map pv_status (cp_candidates (cleanup_policy (\<lambda>m. m) sample_facts (Some ''other''))) = [CE_Blocked]"
proof -
  note iff = cleanup_eligible_iff_safe [where f = sample_facts and sha = "\<lambda>m. m", unfolded Let_def]
  have "pv_status (candidate_preview sample_candidate False) = CE_Eligible"
    using iff [of None] by (simp add: sample_candidate_def)
  moreover have d: "digest_of (\<lambda>m. m) sample_facts \<noteq> ''other''"
    by (simp add: digest_of_def digest_material_def)
  moreover have "pv_status (candidate_preview sample_candidate True) \<noteq> CE_Eligible"
    using iff [of "Some ''other''"] d by auto
  ultimately show ?thesis by (simp add: sample_policy) (metis cleanup_eligibility.exhaust)
qed

text \<open>
  A preview is bound to the facts it was computed from. When the digest of one set of
  facts is presented with another set and any candidate still comes out eligible, then the
  repository and the retained reference are the same and the verdicts (status, reasons,
  source, ownership), in order, are those of the facts the digest was issued for. SHA-256 is
  assumed not to collide on the two texts.
\<close>

theorem cleanup_digest_binds_the_facts:
  assumes wf: "cleanup_facts_wf issued" "cleanup_facts_wf current"
    and no_collision: "digest_of sha issued = digest_of sha current \<Longrightarrow>
      digest_material issued = digest_material current"
    and p: "p \<in> set (cp_candidates (cleanup_policy sha current (Some (cp_digest (cleanup_policy sha issued bound)))))"
    and eligible: "pv_status p = CE_Eligible"
  shows "cf_repository_id issued = cf_repository_id current \<and>
     cf_retained_ref issued = cf_retained_ref current \<and>
     map preview_verdict (cp_candidates (cleanup_policy sha current (Some (cp_digest (cleanup_policy sha issued bound))))) =
     map preview_verdict (cp_candidates (cleanup_policy sha issued None))"
proof -
  have d: "cp_digest (cleanup_policy sha issued bound) = digest_of sha issued"
    by (simp add: cleanup_policy_def Let_def)
  have same: "digest_of sha issued = digest_of sha current"
    using stale_blocks_all [OF _ p [unfolded d]] eligible by auto
  from material_determines_blocks [OF wf no_collision [OF same]]
  have blocks: "sort (map candidate_block (cf_candidates issued)) = sort (map candidate_block (cf_candidates current))"
    and ids: "cf_repository_id issued = cf_repository_id current" "cf_retained_ref issued = cf_retained_ref current"
    by auto
  have "map (\<lambda>c. preview_verdict (candidate_preview c False)) (sort_key candidate_block (cf_candidates current)) =
      map (\<lambda>c. preview_verdict (candidate_preview c False)) (sort_key candidate_block (cf_candidates issued))"
    by (rule map_eq_via [where f = candidate_block])
      (use wf in \<open>auto simp: ranked_blocks blocks cleanup_facts_wf_def list_all_iff
         intro: block_determines_verdict\<close>)
  then show ?thesis using ids same by (simp add: cleanup_policy_def Let_def comp_def)
qed

definition dirty_candidate :: cleanup_candidate_facts where
  "dirty_candidate = sample_candidate\<lparr>cc_dirty_tracked := True\<rparr>"

definition sample_pair :: "cleanup_candidate_facts list \<Rightarrow> cleanup_facts" where
  "sample_pair cs = sample_facts\<lparr>cf_candidates := cs\<rparr>"

lemma sample_pair_facts:
  "cleanup_facts_wf (sample_pair [sample_candidate, dirty_candidate])"
  "cleanup_facts_wf (sample_pair [dirty_candidate, sample_candidate])"
  "digest_material (sample_pair [dirty_candidate, sample_candidate]) =
   digest_material (sample_pair [sample_candidate, dirty_candidate])"
proof -
  have d: "cleanup_candidate_wf sample_candidate" "cleanup_candidate_wf dirty_candidate"
    using sample_facts_wf
    by (simp_all add: cleanup_facts_wf_def sample_facts_def dirty_candidate_def cleanup_candidate_wf_def)
  then show "cleanup_facts_wf (sample_pair [sample_candidate, dirty_candidate])"
    "cleanup_facts_wf (sample_pair [dirty_candidate, sample_candidate])"
    using sample_facts_wf by (simp_all add: sample_pair_def cleanup_facts_wf_def)
  show "digest_material (sample_pair [dirty_candidate, sample_candidate]) =
      digest_material (sample_pair [sample_candidate, dirty_candidate])"
    by (rule digest_material_order) (simp_all add: sample_pair_def add_mset_commute)
qed

theorem cleanup_digest_binds_the_facts_witness:
  "let issued = sample_pair [sample_candidate, dirty_candidate];
       current = sample_pair [dirty_candidate, sample_candidate];
       q = cleanup_policy (\<lambda>m. m) current (Some (cp_digest (cleanup_policy (\<lambda>m. m) issued (Some ''old''))))
   in map preview_verdict (cp_candidates q) =
      map preview_verdict (cp_candidates (cleanup_policy (\<lambda>m. m) issued None))"
proof -
  let ?issued = "sample_pair [sample_candidate, dirty_candidate]"
  let ?current = "sample_pair [dirty_candidate, sample_candidate]"
  have d: "cp_digest (cleanup_policy (\<lambda>m. m) ?issued b) = digest_of (\<lambda>m. m) ?current" for b
    using sample_pair_facts(3) by (simp add: cleanup_policy_def Let_def digest_of_def)
  have "pv_status (candidate_preview sample_candidate False) = CE_Eligible" by code_simp
  moreover have "candidate_preview sample_candidate False \<in>
      set (cp_candidates (cleanup_policy (\<lambda>m. m) ?current (Some (cp_digest (cleanup_policy (\<lambda>m. m) ?issued (Some ''old''))))))"
    by (simp add: d policy_candidates) (simp add: sample_pair_def)
  ultimately show ?thesis
    unfolding Let_def
    using cleanup_digest_binds_the_facts [OF sample_pair_facts(1,2), of "\<lambda>m. m"] sample_pair_facts(3)
    by metis
qed

end
