(* ===== verification/Engine_Inventory.thy ===== *)
theory Engine_Inventory
  imports Domain_Cleanup
begin

text \<open>
  Inventory classification and adoption preview of
  \<open>meshloop-engine/src/workspace/inventory.rs\<close>, and the join of inventory entries with
  safety observations of \<open>workspace/cleanup.rs\<close>.

  Observations of one location are merged into one, every merged observation becomes one
  inventory entry, and the entries feed the cleanup policy. The lemmas show that the report is
  well formed and bounded, that a location is listed once, and that only a confirmed, present,
  idle directory owned by the ledger can come out as eligible for cleanup.
\<close>

section \<open>Observations\<close>

definition MAX_ENTRIES :: nat where "MAX_ENTRIES = 512"

datatype presence = NotApplicable | Present | Missing | Inaccessible | Reparse

fun presence_rank :: "presence \<Rightarrow> nat" where
  "presence_rank NotApplicable = 0"
| "presence_rank Present = 1"
| "presence_rank Missing = 2"
| "presence_rank Inaccessible = 3"
| "presence_rank Reparse = 4"

lemma presence_rank_inj: "presence_rank a = presence_rank b \<Longrightarrow> a = b"
  by (cases a; cases b) simp_all

text \<open>The derived \<open>Ord\<close>: variants in declaration order.\<close>

instantiation presence :: linorder
begin

definition less_eq_presence :: "presence \<Rightarrow> presence \<Rightarrow> bool" where
  "a \<le> b \<longleftrightarrow> presence_rank a \<le> presence_rank b"

definition less_presence :: "presence \<Rightarrow> presence \<Rightarrow> bool" where
  "a < b \<longleftrightarrow> presence_rank a < presence_rank b"

instance
  by standard (auto simp: less_eq_presence_def less_presence_def intro: presence_rank_inj)

end

fun presence_debug :: "presence \<Rightarrow> string" where
  "presence_debug NotApplicable = ''NotApplicable''"
| "presence_debug Present = ''Present''"
| "presence_debug Missing = ''Missing''"
| "presence_debug Inaccessible = ''Inaccessible''"
| "presence_debug Reparse = ''Reparse''"

record observation =
  ob_source :: entry_source
  ob_graph_id :: "graph_ident option"
  ob_lifecycle_id :: "lifecycle_id option"
  ob_location :: "inventory_location option"
  ob_withheld :: bool
  ob_presence :: presence
  ob_legacy_marker :: bool
  ob_ledger_record :: bool
  ob_identity_confirmed :: bool
  ob_git_registered :: bool
  ob_driver_active :: bool
  ob_configured_entry :: bool

record inventory_facts =
  if_command_blockers :: "blocker_code list"
  if_observations :: "observation list"

fun source_rank :: "entry_source \<Rightarrow> nat" where
  "source_rank Src_Artifact = 0"
| "source_rank Src_Generation = 1"
| "source_rank Src_Provisional = 2"
| "source_rank Src_Driver = 3"
| "source_rank Src_LegacyAttempt = 4"
| "source_rank Src_LegacyRun = 5"
| "source_rank Src_GitWorktree = 6"
| "source_rank Src_ConfiguredEntry = 7"

definition or_extra :: "'a option \<Rightarrow> 'a option \<Rightarrow> 'a option" where
  "or_extra a b = (case a of None \<Rightarrow> b | Some _ \<Rightarrow> a)"

definition combine :: "observation \<Rightarrow> observation \<Rightarrow> observation" where
  "combine existing extra =
     (let location = or_extra (ob_location existing) (ob_location extra)
      in \<lparr>ob_source = (if source_rank (ob_source extra) < source_rank (ob_source existing)
            then ob_source extra else ob_source existing),
          ob_graph_id = or_extra (ob_graph_id existing) (ob_graph_id extra),
          ob_lifecycle_id = or_extra (ob_lifecycle_id existing) (ob_lifecycle_id extra),
          ob_location = location,
          ob_withheld = (location = None \<and> (ob_withheld existing \<or> ob_withheld extra)),
          ob_presence = max (ob_presence existing) (ob_presence extra),
          ob_legacy_marker = (ob_legacy_marker existing \<or> ob_legacy_marker extra),
          ob_ledger_record = (ob_ledger_record existing \<or> ob_ledger_record extra),
          ob_identity_confirmed =
            (ob_identity_confirmed existing \<or> (ob_ledger_record extra \<and> ob_identity_confirmed extra)),
          ob_git_registered = (ob_git_registered existing \<or> ob_git_registered extra),
          ob_driver_active = (ob_driver_active existing \<or> ob_driver_active extra),
          ob_configured_entry = (ob_configured_entry existing \<or> ob_configured_entry extra)\<rparr>)"

definition text_or_empty :: "string option \<Rightarrow> string" where
  "text_or_empty v = (case v of None \<Rightarrow> [] | Some s \<Rightarrow> s)"

definition location_text :: "inventory_location \<Rightarrow> string" where
  "location_text l =
     location_scope_str (il_scope l) @ '':'' @ text_or_empty (il_root_alias l) @ '':'' @ il_relative_path l"

definition location_key :: "observation \<Rightarrow> string option" where
  "location_key observation = map_option location_text (ob_location observation)"

definition entry_sort_key :: "observation \<Rightarrow> string \<times> string \<times> string \<times> string \<times> string" where
  "entry_sort_key observation =
     (entry_source_str (ob_source observation),
      text_or_empty (ob_graph_id observation),
      text_or_empty (ob_lifecycle_id observation),
      text_or_empty (map_option il_relative_path (ob_location observation)),
      presence_debug (ob_presence observation))"

fun merge_grouped :: "observation list \<Rightarrow> observation \<Rightarrow> observation list" where
  "merge_grouped [] extra = [extra]"
| "merge_grouped (item # items) extra =
     (if location_key item = location_key extra then combine item extra # items
      else item # merge_grouped items extra)"

fun merge_loop ::
  "observation list \<Rightarrow> observation list \<times> observation list \<Rightarrow> observation list \<times> observation list" where
  "merge_loop [] (grouped, loose) = (grouped, loose)"
| "merge_loop (ob # obs) (grouped, loose) =
     (if location_key ob = None then merge_loop obs (grouped, loose @ [ob])
      else merge_loop obs (merge_grouped grouped ob, loose))"

definition merge :: "observation list \<Rightarrow> observation list" where
  "merge observations =
     (let (grouped, loose) = merge_loop observations ([], [])
      in sort_key entry_sort_key (grouped @ loose))"

section \<open>Classification\<close>

fun presence_class :: "presence \<Rightarrow> inventory_class \<times> blocker_code list" where
  "presence_class Reparse = (Cls_Inaccessible, [Blk_ReparseBlocked])"
| "presence_class Inaccessible = (Cls_Inaccessible, [Blk_PathInaccessible])"
| "presence_class Missing = (Cls_Missing, [Blk_PathMissing])"
| "presence_class Present = (Cls_Unknown, [])"
| "presence_class NotApplicable = (Cls_Unknown, [])"

definition ownership_of ::
  "observation \<Rightarrow> bool \<Rightarrow> inventory_class \<Rightarrow> blocker_code list \<Rightarrow>
    ownership_code \<times> inventory_class \<times> blocker_code list" where
  "ownership_of o1 identity class blockers =
     (if ob_legacy_marker o1 then
        (Own_LegacyUnbound, if class = Cls_Inaccessible then class else Cls_Legacy,
         push_code blockers Blk_LegacyOwnershipUnresolved)
      else if identity then
        (case ob_presence o1 of
           Present \<Rightarrow> (Own_LedgerOwned, Cls_Active, blockers)
         | NotApplicable \<Rightarrow>
             if ob_driver_active o1 then (Own_LedgerOwned, Cls_Active, blockers)
             else (Own_LedgerOwned, Cls_Inaccessible, push_code blockers Blk_PathInaccessible)
         | Missing \<Rightarrow> (Own_LedgerOwned, Cls_Missing, blockers)
         | Inaccessible \<Rightarrow> (Own_LedgerOwned, class, blockers)
         | Reparse \<Rightarrow> (Own_LedgerOwned, class, blockers))
      else if ob_git_registered o1 \<and> \<not> ob_ledger_record o1 then
        (Own_GitRegistered, class, push_code blockers Blk_UnknownOwnership)
      else if ob_configured_entry o1 \<and> \<not> ob_ledger_record o1 then
        (Own_ConfiguredRoot, class, push_code blockers Blk_UnknownOwnership)
      else (Own_Unresolved, class, push_code blockers Blk_UnknownOwnership))"

definition classify_one :: "bool \<Rightarrow> observation \<Rightarrow> inventory_entry" where
  "classify_one command_confirmed o1 =
     (let identity = (ob_identity_confirmed o1 \<and> command_confirmed \<and> ob_ledger_record o1);
          (class0, blockers0) = presence_class (ob_presence o1);
          (ownership, class, blockers1) = ownership_of o1 identity class0 blockers0;
          blockers2 = push_if (ob_driver_active o1) Blk_DriverActive blockers1;
          blockers3 = push_if (ob_withheld o1) Blk_ExternalPathWithheld blockers2
      in \<lparr>ie_class = class, ie_ownership = ownership,
          ie_blockers = finish_codes blocker_str blockers3,
          ie_source = ob_source o1, ie_graph_id = ob_graph_id o1,
          ie_lifecycle_id = ob_lifecycle_id o1, ie_location = ob_location o1,
          ie_withheld = ob_withheld o1\<rparr>)"

definition classify :: "inventory_facts \<Rightarrow> inventory_report" where
  "classify facts =
     (let blockers = finish_codes blocker_str (if_command_blockers facts);
          confirmed = (Blk_IdentityConflict \<notin> set blockers);
          merged = merge (if_observations facts);
          truncated = (length merged > MAX_ENTRIES);
          merged' = (if truncated then take MAX_ENTRIES merged else merged);
          blockers' = push_if truncated Blk_InventoryTruncated blockers
      in \<lparr>ir_mode = Mode_Inventory, ir_apply = False,
          ir_blockers = finish_codes blocker_str blockers',
          ir_entries = map (classify_one confirmed) merged'\<rparr>)"

definition adoption_candidate :: "inventory_entry \<Rightarrow> bool" where
  "adoption_candidate e \<longleftrightarrow>
     ie_class e = Cls_Legacy \<or> ie_class e = Cls_Unknown \<or> ie_class e = Cls_Inaccessible \<or>
     list_ex (\<lambda>b. b \<in> {Blk_UnknownOwnership, Blk_LegacyOwnershipUnresolved, Blk_ReparseBlocked,
       Blk_PathInaccessible, Blk_ExternalPathWithheld, Blk_DriverActive, Blk_IdentityConflict})
       (ie_blockers e)"

definition flag_preview :: "blocker_code list \<Rightarrow> blocker_code list" where
  "flag_preview blockers = finish_codes blocker_str (push_code blockers Blk_AdoptionPreviewOnly)"

definition adoption_preview :: "inventory_report \<Rightarrow> inventory_report" where
  "adoption_preview report =
     \<lparr>ir_mode = Mode_Preview, ir_apply = False, ir_blockers = flag_preview (ir_blockers report),
      ir_entries = map (\<lambda>e. e\<lparr>ie_blockers := flag_preview (ie_blockers e)\<rparr>)
        (filter adoption_candidate (ir_entries report))\<rparr>"

section \<open>Cleanup previews over an inventory\<close>

record cleanup_observation =
  co_dirty_tracked :: bool
  co_dirty_untracked :: bool
  co_unknown_ignored :: bool
  co_commit :: "object_id option"
  co_commit_reachable :: bool
  co_commit_unproven :: bool
  co_active_process :: bool
  co_path_reparse :: bool
  co_path_symlink :: bool
  co_path_escape :: bool
  co_path_outside_repository :: bool
  co_missing_dependency :: bool
  co_missing_recovery_object :: bool
  co_receipt :: "delivery_receipt option"

definition fail_closed :: cleanup_observation where
  "fail_closed =
     \<lparr>co_dirty_tracked = True, co_dirty_untracked = True, co_unknown_ignored = True,
      co_commit = None, co_commit_reachable = False, co_commit_unproven = True,
      co_active_process = True, co_path_reparse = False, co_path_symlink = False,
      co_path_escape = False, co_path_outside_repository = True,
      co_missing_dependency = True, co_missing_recovery_object = True, co_receipt = None\<rparr>"

definition observed_candidate :: "inventory_entry \<Rightarrow> cleanup_observation \<Rightarrow> cleanup_candidate_facts" where
  "observed_candidate entry observed =
     \<lparr>cc_inventory = entry,
      cc_dirty_tracked = co_dirty_tracked observed,
      cc_dirty_untracked = co_dirty_untracked observed,
      cc_unknown_ignored = co_unknown_ignored observed,
      cc_commit = co_commit observed,
      cc_commit_reachable = co_commit_reachable observed,
      cc_commit_unproven = co_commit_unproven observed,
      cc_active_process = co_active_process observed,
      cc_path_reparse = co_path_reparse observed,
      cc_path_symlink = co_path_symlink observed,
      cc_path_escape = co_path_escape observed,
      cc_path_outside_repository = co_path_outside_repository observed,
      cc_missing_dependency = co_missing_dependency observed,
      cc_missing_recovery_object = co_missing_recovery_object observed,
      cc_receipt = co_receipt observed\<rparr>"

definition observation_at :: "cleanup_observation list \<Rightarrow> nat \<Rightarrow> cleanup_observation" where
  "observation_at observations index =
     (if index < length observations then observations ! index else fail_closed)"

definition preview_facts ::
  "lifecycle_id \<Rightarrow> git_ref \<Rightarrow> object_id option \<Rightarrow> inventory_entry list \<Rightarrow>
    cleanup_observation list \<Rightarrow> cleanup_facts" where
  "preview_facts repository_id retained_ref retained_commit entries observations =
     \<lparr>cf_repository_id = repository_id, cf_retained_ref = retained_ref,
      cf_retained_commit = retained_commit,
      cf_candidates = map (\<lambda>(i, e). observed_candidate e (observation_at observations i))
        (enumerate 0 entries)\<rparr>"

definition cleanup_preview_of ::
  "(string \<Rightarrow> string) \<Rightarrow> lifecycle_id \<Rightarrow> git_ref \<Rightarrow> object_id option \<Rightarrow> inventory_entry list \<Rightarrow>
    cleanup_observation list \<Rightarrow> string option \<Rightarrow> cleanup_preview" where
  "cleanup_preview_of sha repository_id retained_ref retained_commit entries observations bound_digest =
     cleanup_policy sha
       (preview_facts repository_id retained_ref retained_commit entries observations) bound_digest"

section \<open>Merging\<close>

lemma or_else_simps [simp]: "or_extra None b = b" "or_extra (Some x) b = Some x"
  by (simp_all add: or_extra_def)

lemma location_key_None [simp]: "location_key ob = None \<longleftrightarrow> ob_location ob = None"
  by (simp add: location_key_def)

lemma location_key_combine [simp]:
  "location_key a = location_key b \<Longrightarrow> location_key (combine a b) = location_key a"
  by (cases "ob_location a"; cases "ob_location b") (auto simp: combine_def Let_def location_key_def)

lemma merge_grouped_keys:
  "map location_key (merge_grouped items extra) =
     (if location_key extra \<in> set (map location_key items) then map location_key items
      else map location_key items @ [location_key extra])"
  by (induction items) auto

lemma merge_loop_keys:
  assumes "distinct (map location_key grouped)" and "None \<notin> set (map location_key grouped)"
  shows "distinct (map location_key (fst (merge_loop obs (grouped, loose)))) \<and>
     None \<notin> set (map location_key (fst (merge_loop obs (grouped, loose))))"
  using assms
proof (induction obs arbitrary: grouped loose)
  case (Cons ob obs)
  show ?case
  proof (cases "ob_location ob = None")
    case True
    then show ?thesis using Cons by simp
  next
    case False
    then have k: "location_key ob \<noteq> None" by simp
    have "distinct (map location_key (merge_grouped grouped ob))"
      "None \<notin> set (map location_key (merge_grouped grouped ob))"
      using Cons.prems k unfolding merge_grouped_keys by (auto simp del: location_key_None)
    from Cons.IH [OF this] k show ?thesis by (auto simp del: location_key_None)
  qed
qed simp

lemma merge_loop_loose: "snd (merge_loop obs (grouped, loose)) = loose @ filter (\<lambda>ob. ob_location ob = None) obs"
  by (induction obs arbitrary: grouped loose) auto

lemma set_merge: "set (merge obs) = set (fst (merge_loop obs ([], []))) \<union> set (filter (\<lambda>ob. ob_location ob = None) obs)"
  using merge_loop_loose [of obs "[]" "[]"] by (cases "merge_loop obs ([], [])") (simp add: merge_def)

lemma merge_grouped_all:
  assumes "\<forall>g \<in> set items. P g" and "P extra"
    and "\<And>a b. P a \<Longrightarrow> P b \<Longrightarrow> location_key a = location_key b \<Longrightarrow> P (combine a b)"
  shows "\<forall>g \<in> set (merge_grouped items extra). P g"
  using assms(1,2) by (induction items) (auto intro: assms(3))

lemma merge_loop_all:
  assumes "\<forall>g \<in> set grouped. P g" and "\<forall>ob \<in> set obs. P ob"
    and "\<And>a b. P a \<Longrightarrow> P b \<Longrightarrow> location_key a = location_key b \<Longrightarrow> P (combine a b)"
  shows "\<forall>g \<in> set (fst (merge_loop obs (grouped, loose))). P g"
  using assms(1,2)
proof (induction obs arbitrary: grouped loose)
  case (Cons ob obs)
  have "\<forall>g \<in> set (merge_grouped grouped ob). P g"
    by (rule merge_grouped_all) (use Cons.prems assms(3) in auto)
  with Cons show ?case by simp
qed simp

lemma merge_all:
  assumes "\<And>ob. ob \<in> set obs \<Longrightarrow> P ob"
    and "\<And>a b. P a \<Longrightarrow> P b \<Longrightarrow> location_key a = location_key b \<Longrightarrow> P (combine a b)"
    and "m \<in> set (merge obs)"
  shows "P m"
  using merge_loop_all [of "[]" P obs "[]"] assms by (auto simp: set_merge)

text \<open>A merged observation carries every warning of the observations it was built from.\<close>

definition covers :: "observation \<Rightarrow> observation \<Rightarrow> bool" where
  "covers m ob \<longleftrightarrow>
     location_key m = location_key ob \<and> (ob_legacy_marker ob \<longrightarrow> ob_legacy_marker m) \<and>
     (ob_driver_active ob \<longrightarrow> ob_driver_active m) \<and> ob_presence ob \<le> ob_presence m"

lemma covers_self [simp]: "covers m m"
  by (simp add: covers_def)

lemma covers_combine:
  "covers a ob \<Longrightarrow> location_key a = location_key b \<Longrightarrow> covers (combine a b) ob"
  by (auto simp: covers_def) (auto simp: combine_def Let_def intro: max.coboundedI1)

lemma covers_combine_new: "location_key a = location_key b \<Longrightarrow> covers (combine a b) b"
  by (auto simp: covers_def) (auto simp: combine_def Let_def)

lemma merge_grouped_covers:
  "(\<exists>g \<in> set items. covers g ob) \<Longrightarrow> \<exists>g \<in> set (merge_grouped items extra). covers g ob"
  by (induction items) (auto intro: covers_combine)

lemma merge_grouped_covers_new: "\<exists>g \<in> set (merge_grouped items extra). covers g extra"
  by (induction items) (auto intro: covers_combine_new)

lemma merge_loop_covers:
  "(\<exists>g \<in> set grouped. covers g ob) \<or> (ob \<in> set obs \<and> ob_location ob \<noteq> None) \<Longrightarrow>
     \<exists>g \<in> set (fst (merge_loop obs (grouped, loose))). covers g ob"
proof (induction obs arbitrary: grouped loose)
  case (Cons x obs)
  show ?case
  proof (cases "ob_location x = None")
    case True
    then show ?thesis using Cons.prems by (auto intro: Cons.IH)
  next
    case False
    have "(\<exists>g \<in> set (merge_grouped grouped x). covers g ob) \<or> (ob \<in> set obs \<and> ob_location ob \<noteq> None)"
      using Cons.prems merge_grouped_covers [of grouped ob x] merge_grouped_covers_new [of grouped x] by auto
    from Cons.IH [OF this] False show ?thesis by auto
  qed
qed simp

lemma merge_covers: "ob \<in> set obs \<Longrightarrow> \<exists>m \<in> set (merge obs). covers m ob"
  using merge_loop_covers [of "[]" ob obs "[]"]
  by (cases "ob_location ob = None") (auto simp: set_merge intro: bexI [of _ ob])

lemma merge_key_unique:
  assumes "a \<in> set (merge obs)" "b \<in> set (merge obs)"
    and "location_key a = location_key b" "ob_location a \<noteq> None"
  shows "a = b"
proof -
  have "a \<in> set (fst (merge_loop obs ([], [])))" "b \<in> set (fst (merge_loop obs ([], [])))"
    using assms location_key_None [of a] location_key_None [of b] by (auto simp: set_merge)
  then show ?thesis
    using merge_loop_keys [of "[]" obs "[]"] assms(3) by (auto simp: distinct_map inj_on_def)
qed

lemma merge_keys_distinct: "distinct (map location_key (filter (\<lambda>m. ob_location m \<noteq> None) (merge obs)))"
proof -
  obtain grouped loose where m: "merge_loop obs ([], []) = (grouped, loose)" by fastforce
  have g: "distinct (map location_key grouped)" "None \<notin> set (map location_key grouped)"
    using merge_loop_keys [of "[]" obs "[]"] m by simp_all
  have l: "\<forall>x \<in> set loose. ob_location x = None" using merge_loop_loose [of obs "[]" "[]"] m by auto
  have "mset (filter (\<lambda>m. ob_location m \<noteq> None) (merge obs)) =
      mset (filter (\<lambda>m. ob_location m \<noteq> None) (grouped @ loose))"
    using m by (simp add: merge_def)
  also have "filter (\<lambda>m. ob_location m \<noteq> None) (grouped @ loose) = grouped"
  proof -
    have "ob_location x \<noteq> None" if "x \<in> set grouped" for x
      using g(2) that location_key_None [of x] by (metis image_eqI list.set_map)
    then show ?thesis using l by (simp add: filter_empty_conv filter_id_conv)
  qed
  finally have "mset (map location_key (filter (\<lambda>m. ob_location m \<noteq> None) (merge obs))) =
      mset (map location_key grouped)" by simp
  then show ?thesis using g(1) by (metis mset_eq_imp_distinct_iff)
qed

section \<open>Well-formed reports\<close>

definition observation_wf :: "observation \<Rightarrow> bool" where
  "observation_wf ob \<longleftrightarrow>
     opt_ok graph_id_is_legal (ob_graph_id ob) \<and> opt_ok identifier_ok (ob_lifecycle_id ob) \<and>
     opt_ok inventory_location_wf (ob_location ob)"

lemma opt_ok_or_else: "opt_ok p a \<Longrightarrow> opt_ok p b \<Longrightarrow> opt_ok p (or_extra a b)"
  by (cases a) auto

lemma combine_wf: "observation_wf a \<Longrightarrow> observation_wf b \<Longrightarrow> observation_wf (combine a b)"
  by (auto simp: observation_wf_def combine_def Let_def intro: opt_ok_or_else)

lemma merge_wf: "list_all observation_wf obs \<Longrightarrow> m \<in> set (merge obs) \<Longrightarrow> observation_wf m"
  by (rule merge_all [where P = observation_wf]) (auto simp: list_all_iff combine_wf)

lemma scope_no_colon: "CHR '':'' \<notin> set (location_scope_str s)"
  by (cases s) simp_all

lemma alias_no_colon: "opt_ok root_alias_ok a \<Longrightarrow> CHR '':'' \<notin> set (text_or_empty a)"
  by (cases a) (auto simp: text_or_empty_def root_alias_ok_def alias_char_def ascii_defs list_all_iff)

lemma text_or_empty_inj:
  "opt_ok root_alias_ok a \<Longrightarrow> opt_ok root_alias_ok b \<Longrightarrow> text_or_empty a = text_or_empty b \<Longrightarrow> a = b"
  by (cases a; cases b) (auto simp: text_or_empty_def root_alias_ok_def)

lemma location_text_inj:
  assumes "inventory_location_wf a" "inventory_location_wf b" "location_text a = location_text b"
  shows "a = b"
proof -
  have e: "location_scope_str (il_scope a) @ CHR '':'' # text_or_empty (il_root_alias a) @ CHR '':'' # il_relative_path a =
      location_scope_str (il_scope b) @ CHR '':'' # text_or_empty (il_root_alias b) @ CHR '':'' # il_relative_path b"
    using assms(3) by (simp add: location_text_def)
  have s: "il_scope a = il_scope b"
    and t: "text_or_empty (il_root_alias a) @ CHR '':'' # il_relative_path a =
      text_or_empty (il_root_alias b) @ CHR '':'' # il_relative_path b"
    using cancel_line [OF e scope_no_colon scope_no_colon] by (simp_all add: location_scopes.code_eq_iff)
  have "opt_ok root_alias_ok (il_root_alias a)" "opt_ok root_alias_ok (il_root_alias b)"
    using assms(1,2) by (simp_all add: inventory_location_wf_def)
  with cancel_line [OF t alias_no_colon alias_no_colon] s show ?thesis
    by (auto intro: inventory_location.equality text_or_empty_inj)
qed

lemma location_key_inj:
  assumes "observation_wf a" "observation_wf b" "location_key a = location_key b"
  shows "ob_location a = ob_location b"
  using assms by (cases "ob_location a"; cases "ob_location b")
    (auto simp: location_key_def observation_wf_def intro: location_text_inj)

lemma classify_one_fields [simp]:
  "ie_location (classify_one confirmed ob) = ob_location ob"
  "ie_withheld (classify_one confirmed ob) = ob_withheld ob"
  "ie_source (classify_one confirmed ob) = ob_source ob"
  by (simp_all add: classify_one_def split: prod.splits)

lemma classify_one_wf: "observation_wf ob \<Longrightarrow> inventory_entry_wf (classify_one confirmed ob)"
  by (simp add: observation_wf_def inventory_entry_wf_def classify_one_def split: prod.splits)

lemma classify_one_blockers:
  "sorted (map blocker_str (ie_blockers (classify_one confirmed ob))) \<and>
   distinct (ie_blockers (classify_one confirmed ob))"
  by (simp add: classify_one_def blocker_codes.finish_sorted blocker_codes.finish_distinct
      split: prod.splits)

lemma ir_entries_classify:
  "ir_entries (classify facts) =
     map (classify_one (Blk_IdentityConflict \<notin> set (if_command_blockers facts)))
       (take MAX_ENTRIES (merge (if_observations facts)))"
  by (simp add: classify_def Let_def)

lemma distinct_filter_take: "distinct (map f (filter P xs)) \<Longrightarrow> distinct (map f (filter P (take n xs)))"
  by (metis append_take_drop_id distinct_append filter_append map_append)

lemma merged_locations_distinct:
  "distinct (map ob_location (filter (\<lambda>m. ob_location m \<noteq> None) (take n (merge obs))))"
proof -
  have "distinct (map (map_option location_text) (map ob_location (filter (\<lambda>m. ob_location m \<noteq> None) (merge obs))))"
    using merge_keys_distinct [of obs] by (simp add: location_key_def [abs_def] comp_def)
  then have "distinct (map ob_location (filter (\<lambda>m. ob_location m \<noteq> None) (merge obs)))"
    by (metis distinct_map)
  then show ?thesis by (rule distinct_filter_take)
qed

text \<open>
  C31. An inventory report is well formed: it never asks to apply, has at most 512 entries, all
  its identifiers, aliases and paths are legal, every list of blockers is sorted and without
  repetition, no location is listed twice, and truncation is announced. Unless it was
  truncated, the location of every observation is listed.
\<close>

theorem classify_is_well_formed:
  assumes "list_all observation_wf (if_observations facts)"
  shows "let r = classify facts; merged = merge (if_observations facts)
     in \<not> ir_apply r \<and> length (ir_entries r) \<le> 512 \<and> list_all inventory_entry_wf (ir_entries r) \<and>
        sorted (map blocker_str (ir_blockers r)) \<and> distinct (ir_blockers r) \<and>
        (\<forall>e \<in> set (ir_entries r). sorted (map blocker_str (ie_blockers e)) \<and> distinct (ie_blockers e)) \<and>
        distinct (map ie_location (filter (\<lambda>e. ie_location e \<noteq> None) (ir_entries r))) \<and>
        set (ir_blockers r) = set (if_command_blockers facts) \<union>
          (if length merged > 512 then {Blk_InventoryTruncated} else {}) \<and>
        (length merged \<le> 512 \<longrightarrow>
           ob_location ` set (if_observations facts) = ie_location ` set (ir_entries r))"
proof -
  let ?merged = "merge (if_observations facts)"
  have wf: "observation_wf m" if "m \<in> set ?merged" for m using merge_wf [OF assms that] .
  have locs: "ob_location ` set (if_observations facts) = ob_location ` set ?merged"
  proof
    show "ob_location ` set (if_observations facts) \<subseteq> ob_location ` set ?merged"
    proof
      fix l assume "l \<in> ob_location ` set (if_observations facts)"
      then obtain ob where ob: "ob \<in> set (if_observations facts)" "l = ob_location ob" by blast
      obtain m where m: "m \<in> set ?merged" "covers m ob" using merge_covers [OF ob(1)] by blast
      have "ob_location m = l"
        using location_key_inj [of m ob] wf [OF m(1)] assms ob m(2) by (auto simp: list_all_iff covers_def)
      then show "l \<in> ob_location ` set ?merged" using m(1) by blast
    qed
    have "ob_location m \<in> ob_location ` set (if_observations facts)" if "m \<in> set ?merged" for m
      by (rule merge_all [where obs = "if_observations facts"
            and P = "\<lambda>m. ob_location m \<in> ob_location ` set (if_observations facts)"])
        (use that in \<open>auto simp: combine_def Let_def or_extra_def split: option.splits\<close>)
    then show "ob_location ` set ?merged \<subseteq> ob_location ` set (if_observations facts)" by blast
  qed
  have ent: "e \<in> set (ir_entries (classify facts)) \<Longrightarrow>
      \<exists>m \<in> set ?merged. e = classify_one (Blk_IdentityConflict \<notin> set (if_command_blockers facts)) m" for e
    by (auto simp: ir_entries_classify dest: in_set_takeD)
  have "list_all inventory_entry_wf (ir_entries (classify facts))"
    using ent wf classify_one_wf by (fastforce simp: list_all_iff)
  moreover have "\<forall>e \<in> set (ir_entries (classify facts)). sorted (map blocker_str (ie_blockers e)) \<and> distinct (ie_blockers e)"
    using ent classify_one_blockers by fastforce
  moreover have "distinct (map ie_location (filter (\<lambda>e. ie_location e \<noteq> None) (ir_entries (classify facts))))"
    using merged_locations_distinct [of MAX_ENTRIES "if_observations facts"]
    by (simp add: ir_entries_classify filter_map comp_def)
  moreover have "length ?merged \<le> 512 \<longrightarrow> ob_location ` set (if_observations facts) = ie_location ` set (ir_entries (classify facts))"
    by (simp add: locs ir_entries_classify MAX_ENTRIES_def image_image)
  moreover have "length (ir_entries (classify facts)) \<le> 512" by (simp add: ir_entries_classify MAX_ENTRIES_def)
  moreover have "\<not> ir_apply (classify facts) \<and> sorted (map blocker_str (ir_blockers (classify facts))) \<and>
      distinct (ir_blockers (classify facts)) \<and> set (ir_blockers (classify facts)) = set (if_command_blockers facts) \<union>
          (if length ?merged > 512 then {Blk_InventoryTruncated} else {})"
    by (simp add: classify_def Let_def blocker_codes.finish_sorted blocker_codes.finish_distinct MAX_ENTRIES_def)
  ultimately show ?thesis by (simp add: Let_def)
qed

definition sample_observation :: observation where
  "sample_observation =
     \<lparr>ob_source = Src_Generation, ob_graph_id = Some ''graph-1'', ob_lifecycle_id = Some ''generation-1'',
      ob_location = Some \<lparr>il_scope = Scp_LedgerRoot, il_root_alias = Some ''worktrees'',
        il_relative_path = ''run/generation-1''\<rparr>,
      ob_withheld = False, ob_presence = Present, ob_legacy_marker = False, ob_ledger_record = True,
      ob_identity_confirmed = True, ob_git_registered = False, ob_driver_active = False,
      ob_configured_entry = False\<rparr>"

definition sample_inventory :: inventory_facts where
  "sample_inventory =
     \<lparr>if_command_blockers = [Blk_LedgerMissing, Blk_FenceMissing],
      if_observations = [sample_observation,
        sample_observation\<lparr>ob_source := Src_GitWorktree, ob_ledger_record := False,
          ob_identity_confirmed := False, ob_git_registered := True\<rparr>]\<rparr>"

theorem classify_is_well_formed_witness:
  "length (merge (if_observations sample_inventory)) = 1 \<and>
   ie_location ` set (ir_entries (classify sample_inventory)) = {ob_location sample_observation} \<and>
   sorted (map blocker_str (ir_blockers (classify sample_inventory)))"
proof -
  have wf: "list_all observation_wf (if_observations sample_inventory)" by code_simp
  have n: "length (merge (if_observations sample_inventory)) = 1" by code_simp
  have l: "ob_location ` set (if_observations sample_inventory) = {ob_location sample_observation}"
    by (auto simp: sample_inventory_def)
  from classify_is_well_formed [OF wf] n l show ?thesis by (simp add: Let_def)
qed

section \<open>From observations to eligibility\<close>

lemma classify_one_owned:
  assumes "ie_ownership (classify_one confirmed ob) = Own_LedgerOwned"
    and "set (ie_blockers (classify_one confirmed ob)) \<inter>
      {Blk_DriverActive, Blk_PathMissing, Blk_PathInaccessible, Blk_ReparseBlocked} = {}"
  shows "confirmed \<and> ob_ledger_record ob \<and> ob_identity_confirmed ob \<and> \<not> ob_legacy_marker ob \<and>
     \<not> ob_driver_active ob \<and> ob_presence ob = Present"
  using assms
  by (cases "ob_presence ob") (auto simp: classify_one_def ownership_of_def Let_def split: if_splits)

definition identity_needs_ledger :: "observation \<Rightarrow> bool" where
  "identity_needs_ledger ob \<longleftrightarrow> (ob_identity_confirmed ob \<longrightarrow> ob_ledger_record ob)"

lemma merge_identity:
  assumes raw: "list_all identity_needs_ledger obs" and wf: "list_all observation_wf obs"
    and m: "m \<in> set (merge obs)" and id: "ob_identity_confirmed m"
  shows "\<exists>ob \<in> set obs. ob_ledger_record ob \<and> ob_identity_confirmed ob \<and> ob_location ob = ob_location m"
proof -
  define P where "P m \<longleftrightarrow> observation_wf m \<and> (ob_identity_confirmed m \<longrightarrow>
      (\<exists>ob \<in> set obs. ob_ledger_record ob \<and> ob_identity_confirmed ob \<and> ob_location ob = ob_location m))" for m
  have "P m"
  proof (rule merge_all [OF _ _ m])
    show "P ob" if "ob \<in> set obs" for ob
      using that raw wf by (auto simp: P_def list_all_iff identity_needs_ledger_def)
    show "P (combine a b)" if "P a" "P b" "location_key a = location_key b" for a b
    proof -
      have l: "ob_location a = ob_location b" using that location_key_inj by (simp add: P_def)
      then have "ob_location (combine a b) = ob_location a"
        by (simp add: combine_def Let_def or_extra_def split: option.splits)
      moreover have "ob_identity_confirmed (combine a b) \<longrightarrow> ob_identity_confirmed a \<or> ob_identity_confirmed b"
        by (auto simp: combine_def Let_def)
      ultimately show ?thesis using that l by (auto simp: P_def combine_wf)
    qed
  qed
  with id show ?thesis by (simp add: P_def)
qed

lemma preview_candidates:
  assumes "p \<in> set (cp_candidates (cleanup_preview_of sha rid rref rc entries obs bound))"
  obtains i stale where "i < length entries"
    and "p = candidate_preview (observed_candidate (entries ! i) (observation_at obs i)) stale"
  using assms
  by (auto simp: cleanup_preview_of_def policy_candidates preview_facts_def in_set_enumerate_eq)

lemma observed_eligible:
  assumes "pv_status (candidate_preview (observed_candidate e (observation_at obs i)) stale) = CE_Eligible"
  shows "i < length obs \<and> ie_ownership e = Own_LedgerOwned \<and>
     set (ie_blockers e) \<inter> {Blk_DriverActive, Blk_PathMissing, Blk_PathInaccessible, Blk_ReparseBlocked} = {} \<and>
     \<not> co_dirty_tracked (obs ! i) \<and> \<not> co_dirty_untracked (obs ! i) \<and> \<not> co_unknown_ignored (obs ! i) \<and>
     \<not> co_active_process (obs ! i) \<and> \<not> co_commit_unproven (obs ! i) \<and>
     (co_commit (obs ! i) = None \<or> co_commit_reachable (obs ! i)) \<and> \<not> stale"
proof -
  have "i < length obs"
    using assms by (cases "i < length obs")
      (simp_all add: preview_status reasons_for_Nil observation_at_def observed_candidate_def fail_closed_def)
  then show ?thesis
    using assms
    by (auto simp: preview_status reasons_for_Nil observation_at_def observed_candidate_def
        unique_commit_def ambiguous_def unsafe_path_def missing_dependency_def has_blocker_def)
qed

lemma eligible_position:
  assumes p: "p \<in> set (cp_candidates (cleanup_preview_of sha rid rref rc (ir_entries (classify facts)) safety bound))"
    and eligible: "pv_status p = CE_Eligible"
  obtains i m stale where "i < length (ir_entries (classify facts))" and "m = merge (if_observations facts) ! i"
    and "m \<in> set (merge (if_observations facts))"
    and "p = candidate_preview (observed_candidate (ir_entries (classify facts) ! i) (observation_at safety i)) stale"
    and "ir_entries (classify facts) ! i = classify_one (Blk_IdentityConflict \<notin> set (if_command_blockers facts)) m"
    and "Blk_IdentityConflict \<notin> set (if_command_blockers facts) \<and> ob_ledger_record m \<and>
      ob_identity_confirmed m \<and> \<not> ob_legacy_marker m \<and> \<not> ob_driver_active m \<and> ob_presence m = Present"
proof -
  let ?obs = "if_observations facts" and ?ok = "Blk_IdentityConflict \<notin> set (if_command_blockers facts)"
  obtain i stale where i: "i < length (ir_entries (classify facts))"
    and pi: "p = candidate_preview (observed_candidate (ir_entries (classify facts) ! i) (observation_at safety i)) stale"
    using preview_candidates [OF p] .
  let ?m = "merge ?obs ! i"
  have m: "?m \<in> set (merge ?obs)" and e: "ir_entries (classify facts) ! i = classify_one ?ok ?m"
    using i by (auto simp: ir_entries_classify)
  have "?ok \<and> ob_ledger_record ?m \<and> ob_identity_confirmed ?m \<and> \<not> ob_legacy_marker ?m \<and>
      \<not> ob_driver_active ?m \<and> ob_presence ?m = Present"
    using classify_one_owned [of ?ok ?m] observed_eligible [OF eligible [unfolded pi e]] by blast
  from that [OF i refl m pi e this] show ?thesis .
qed

text \<open>An observation without a location is never merged: it is one of the collected ones.\<close>

lemma merge_loose: "m \<in> set (merge obs) \<Longrightarrow> ob_location m = None \<Longrightarrow> m \<in> set obs"
proof -
  assume "m \<in> set (merge obs)" "ob_location m = None"
  moreover have "None \<notin> set (map location_key (fst (merge_loop obs ([], []))))"
    using merge_loop_keys [of "[]" obs "[]"] by simp
  ultimately show ?thesis by (force simp: set_merge location_key_def)
qed

text \<open>
  From raw observations to the verdict: when a cleanup preview over a classified inventory
  calls a candidate eligible, no identity conflict was reported, some ledger record with a
  confirmed identity names exactly that location, every observation of that location agrees
  that nothing is running there, that it is not legacy and that nothing is worse than being
  present, and a safety observation found it clean with no commit that could be lost. Only
  ledger records carry a confirmed identity, which is how the collector builds observations.
\<close>

theorem eligible_means_owned_present_idle:
  assumes wf: "list_all observation_wf (if_observations facts)"
    and raw: "list_all identity_needs_ledger (if_observations facts)"
    and p: "p \<in> set (cp_candidates (cleanup_preview_of sha rid rref rc (ir_entries (classify facts)) safety bound))"
    and eligible: "pv_status p = CE_Eligible"
  shows "Blk_IdentityConflict \<notin> set (if_command_blockers facts) \<and>
     (\<exists>ob \<in> set (if_observations facts).
        ob_ledger_record ob \<and> ob_identity_confirmed ob \<and> ob_location ob = pv_location p) \<and>
     (\<forall>ob \<in> set (if_observations facts). pv_location p \<noteq> None \<and> ob_location ob = pv_location p \<longrightarrow>
        \<not> ob_driver_active ob \<and> \<not> ob_legacy_marker ob \<and> ob_presence ob \<le> Present) \<and>
     (\<exists>s \<in> set safety. \<not> co_dirty_tracked s \<and> \<not> co_dirty_untracked s \<and> \<not> co_unknown_ignored s \<and>
        \<not> co_active_process s \<and> \<not> co_commit_unproven s \<and> (co_commit s = None \<or> co_commit_reachable s))"
proof -
  let ?obs = "if_observations facts" and ?ok = "Blk_IdentityConflict \<notin> set (if_command_blockers facts)"
  obtain i m stale where i: "i < length (ir_entries (classify facts))"
    and m: "m \<in> set (merge ?obs)"
    and pi: "p = candidate_preview (observed_candidate (ir_entries (classify facts) ! i) (observation_at safety i)) stale"
    and e: "ir_entries (classify facts) ! i = classify_one ?ok m"
    and own: "?ok \<and> ob_ledger_record m \<and> ob_identity_confirmed m \<and> \<not> ob_legacy_marker m \<and>
      \<not> ob_driver_active m \<and> ob_presence m = Present"
    using eligible_position [OF p eligible] by metis
  note el = observed_eligible [OF eligible [unfolded pi e]]
  have loc: "pv_location p = ob_location m"
    by (simp add: pi e candidate_preview_def Let_def observed_candidate_def)
  have "\<not> ob_driver_active ob \<and> \<not> ob_legacy_marker ob \<and> ob_presence ob \<le> Present"
    if ob: "ob \<in> set ?obs" "pv_location p \<noteq> None" "ob_location ob = pv_location p" for ob
  proof -
    obtain n where n: "n \<in> set (merge ?obs)" "covers n ob" using merge_covers ob(1) by blast
    have "location_key n = location_key m" using n(2) ob(3) loc by (simp add: covers_def location_key_def)
    then have "n = m" using merge_key_unique [OF n(1) m] ob(2) loc
      by (metis location_key_None)
    with n(2) own show ?thesis by (auto simp: covers_def)
  qed
  moreover have "\<exists>ob \<in> set ?obs. ob_ledger_record ob \<and> ob_identity_confirmed ob \<and> ob_location ob = pv_location p"
    using merge_identity [OF raw wf m] own loc by simp
  moreover have "\<exists>s \<in> set safety. \<not> co_dirty_tracked s \<and> \<not> co_dirty_untracked s \<and> \<not> co_unknown_ignored s \<and>
        \<not> co_active_process s \<and> \<not> co_commit_unproven s \<and> (co_commit s = None \<or> co_commit_reachable s)"
    using el by (intro bexI [of _ "safety ! i"]) auto
  ultimately show ?thesis using own by blast
qed

definition clean_observation :: cleanup_observation where
  "clean_observation =
     \<lparr>co_dirty_tracked = False, co_dirty_untracked = False, co_unknown_ignored = False,
      co_commit = None, co_commit_reachable = False, co_commit_unproven = False,
      co_active_process = False, co_path_reparse = False, co_path_symlink = False,
      co_path_escape = False, co_path_outside_repository = False,
      co_missing_dependency = False, co_missing_recovery_object = False, co_receipt = None\<rparr>"

theorem eligible_means_owned_present_idle_witness:
  "map pv_status (cp_candidates (cleanup_preview_of (\<lambda>m. m) ''r'' ''main'' None
      (ir_entries (classify sample_inventory)) [clean_observation] None)) = [CE_Eligible] \<and>
   (\<exists>ob \<in> set (if_observations sample_inventory).
      ob_ledger_record ob \<and> ob_location ob = ob_location sample_observation)"
proof -
  let ?p = "cleanup_preview_of (\<lambda>m. m) ''r'' ''main'' None (ir_entries (classify sample_inventory)) [clean_observation] None"
  have wf: "list_all observation_wf (if_observations sample_inventory)"
    "list_all identity_needs_ledger (if_observations sample_inventory)" by code_simp+
  have s: "map pv_status (cp_candidates ?p) = [CE_Eligible]" by code_simp
  then obtain p where p: "cp_candidates ?p = [p]" "pv_status p = CE_Eligible" by auto
  have "map pv_location (cp_candidates ?p) = [ob_location sample_observation]" by code_simp
  then have l: "pv_location p = ob_location sample_observation" using p(1) by simp
  have "p \<in> set (cp_candidates ?p)" using p(1) by simp
  from eligible_means_owned_present_idle [OF wf this p(2)] l s show ?thesis by auto
qed

end
