(* ===== verification/Engine_Delivery.thy ===== *)
theory Engine_Delivery
  imports Domain_Cleanup
begin

text \<open>
  Delivery receipts (\<open>meshloop-engine/src/workspace/delivery.rs\<close>) and maintenance selection
  (\<open>workspace/maintenance.rs\<close>).

  A receipt claims that accepted work reached a destination reference; it is proved against
  answers of git. \<open>DeliveryGit\<close> is a record of the reads the trait offers: every read may
  fail. Durations are nanoseconds, \<open>usize\<close> counts are natural numbers (they are only
  compared). The lemmas give the exact conditions under which a receipt passes, and the exact
  selection of a maintenance plan.
\<close>

section \<open>Delivery receipts\<close>

datatype delivery_git_error = DeliveryGitError

record delivery_git =
  resolve_commit :: "string \<Rightarrow> delivery_git_error + string"
  is_ancestor :: "string \<Rightarrow> string \<Rightarrow> delivery_git_error + bool"
  parents :: "string \<Rightarrow> delivery_git_error + string list"
  tree_reachable :: "string \<Rightarrow> string \<Rightarrow> delivery_git_error + bool"
  object_exists :: "string \<Rightarrow> delivery_git_error + bool"
  planner_dirty :: "string \<Rightarrow> delivery_git_error + bool"

type_synonym delivery_reasons = "delivery_reason list"

definition note_fast_forward ::
  "delivery_git \<Rightarrow> delivery_receipt \<Rightarrow> string \<Rightarrow> bool \<Rightarrow> delivery_reasons \<Rightarrow> delivery_reasons" where
  "note_fast_forward git receipt tip recorded_mismatch reasons =
     (case is_ancestor git (dr_accepted_commit receipt) tip of
        Inr True \<Rightarrow> reasons
      | Inr False \<Rightarrow>
          push_code reasons (if recorded_mismatch then Del_RewrittenDestination else Del_AcceptedNotLanded)
      | Inl _ \<Rightarrow> push_code reasons Del_UnreadableRef)"

definition note_merge ::
  "delivery_git \<Rightarrow> delivery_receipt \<Rightarrow> string \<Rightarrow> bool \<Rightarrow> delivery_reasons \<Rightarrow> delivery_reasons" where
  "note_merge git receipt tip recorded_mismatch reasons =
     (case parents git tip of
        Inl _ \<Rightarrow> push_code reasons Del_UnreadableRef
      | Inr ps \<Rightarrow>
          if length ps \<ge> 2 \<and> dr_accepted_commit receipt \<in> set ps then reasons
          else if \<not> recorded_mismatch then push_code reasons Del_AcceptedNotLanded
          else (case is_ancestor git (dr_accepted_commit receipt) tip of
              Inr True \<Rightarrow> reasons
            | Inr False \<Rightarrow> push_code reasons Del_RewrittenDestination
            | Inl _ \<Rightarrow> push_code reasons Del_UnreadableRef))"

definition contained :: "delivery_git \<Rightarrow> delivery_receipt \<Rightarrow> string \<Rightarrow> delivery_git_error + bool" where
  "contained git receipt from_commit =
     try_res (is_ancestor git (dr_accepted_commit receipt) from_commit) (\<lambda>yes.
       if yes then Inr True
       else case dr_accepted_tree receipt of
         Some tree \<Rightarrow> tree_reachable git tree from_commit
       | None \<Rightarrow> Inr False)"

definition note_rewrite ::
  "delivery_git \<Rightarrow> delivery_receipt \<Rightarrow> delivery_reasons \<Rightarrow> delivery_reasons" where
  "note_rewrite git receipt reasons =
     (case dr_recorded_destination receipt of
        None \<Rightarrow> push_code reasons Del_RewrittenDestination
      | Some recorded \<Rightarrow>
          (case contained git receipt recorded of
             Inr True \<Rightarrow> reasons
           | Inr False \<Rightarrow> push_code reasons Del_RewrittenDestination
           | Inl _ \<Rightarrow> push_code reasons Del_UnreadableRef))"

fun recovery_loop ::
  "delivery_git \<Rightarrow> object_id list \<Rightarrow> bool \<times> delivery_reasons \<Rightarrow> bool \<times> delivery_reasons" where
  "recovery_loop git [] (missing, reasons) = (missing, reasons)"
| "recovery_loop git (object # objects) (missing, reasons) =
     (case object_exists git object of
        Inr True \<Rightarrow> recovery_loop git objects (missing, reasons)
      | Inr False \<Rightarrow> recovery_loop git objects (True, reasons)
      | Inl _ \<Rightarrow> recovery_loop git objects (missing, push_code reasons Del_UnreadableRef))"

definition note_recovery :: "delivery_git \<Rightarrow> delivery_receipt \<Rightarrow> delivery_reasons \<Rightarrow> delivery_reasons" where
  "note_recovery git receipt reasons =
     (let (missing, reasons') = recovery_loop git (dr_recovery_objects receipt) (False, reasons)
      in push_if missing Del_MissingRecoveryObject reasons')"

definition observed_tip :: "delivery_git \<Rightarrow> delivery_receipt \<Rightarrow> object_id option \<times> delivery_reasons" where
  "observed_tip git receipt =
     (case resolve_commit git (dr_destination_ref receipt) of
        Inr oid \<Rightarrow>
          (case ObjectId_new oid of
             Inr oid' \<Rightarrow> (Some oid', [])
           | Inl _ \<Rightarrow> (None, push_code [] Del_UnreadableRef))
      | Inl _ \<Rightarrow> (None, push_code [] Del_UnreadableRef))"

definition prove_delivery_receipt ::
  "delivery_git \<Rightarrow> delivery_receipt \<Rightarrow> string \<Rightarrow> delivery_receipt_report" where
  "prove_delivery_receipt git receipt planner_worktree =
     (let (observed, r0) = observed_tip git receipt;
          recorded_mismatch =
            (case (dr_recorded_destination receipt, observed) of
               (Some recorded, Some tip) \<Rightarrow> recorded \<noteq> tip | _ \<Rightarrow> False);
          r1 = push_if recorded_mismatch Del_StaleDestination r0;
          r2 = (case observed of
              None \<Rightarrow> r1
            | Some tip \<Rightarrow>
                (case dr_strategy receipt of
                   Land_FastForward \<Rightarrow> note_fast_forward git receipt tip recorded_mismatch r1
                 | Land_Merge \<Rightarrow> note_merge git receipt tip recorded_mismatch r1
                 | Land_Rewrite \<Rightarrow> note_rewrite git receipt r1));
          r3 = note_recovery git receipt r2;
          r4 = (case planner_dirty git planner_worktree of
              Inr True \<Rightarrow> push_code r3 Del_PlannerDirty
            | Inr False \<Rightarrow> r3
            | Inl _ \<Rightarrow> push_code r3 Del_UnreadableRef);
          reasons = finish_codes delivery_reason_str r4
      in \<lparr>rp_passed = (reasons = []), rp_apply = False, rp_reasons = reasons,
          rp_observed_destination = observed\<rparr>)"

section \<open>Maintenance\<close>

record maintenance_candidate =
  mc_id :: string
  mc_eligible :: bool
  mc_landed :: bool
  mc_failed :: bool
  mc_cancelled :: bool
  mc_evidence :: bool
  mc_has_dependency :: bool
  mc_outcome_known :: bool
  mc_age_days :: "u32 option"

record maintenance_budget =
  mb_max_considered :: nat
  mb_max_elapsed :: nat
  mb_max_deletions :: nat

definition maintenance_budget_default :: maintenance_budget where
  "maintenance_budget_default =
     \<lparr>mb_max_considered = 20, mb_max_elapsed = 5 * 10 ^ 9, mb_max_deletions = 1\<rparr>"

record maintenance_retained =
  mr_id :: string
  mr_reason :: string

record maintenance_plan =
  mp_apply :: bool
  mp_digest :: string
  mp_selected :: "string list"
  mp_retained :: "maintenance_retained list"
  mp_cursor :: "string option"
  mp_advisory :: "string list"

definition retain_reason :: "maintenance_candidate \<Rightarrow> string option" where
  "retain_reason c =
     (if mc_evidence c then Some ''evidence''
      else if mc_failed c then Some ''failed''
      else if mc_cancelled c then Some ''cancelled''
      else if mc_has_dependency c then Some ''dependency''
      else if \<not> mc_outcome_known c then Some ''outcome-unknown''
      else if \<not> mc_landed c then Some ''not-landed''
      else if \<not> mc_eligible c then Some ''not-eligible''
      else None)"

definition show_bool :: "bool \<Rightarrow> string" where
  "show_bool b = (if b then ''true'' else ''false'')"

definition maintenance_line :: "maintenance_candidate \<Rightarrow> string" where
  "maintenance_line c =
     join_with [CHR 0x09]
       [mc_id c, show_bool (mc_eligible c), show_bool (mc_landed c), show_bool (mc_failed c),
        show_bool (mc_cancelled c), show_bool (mc_evidence c), show_bool (mc_has_dependency c),
        show_bool (mc_outcome_known c),
        (case mc_age_days c of Some age \<Rightarrow> show_nat (unat age) | None \<Rightarrow> [])] @ [CHR 0x0A]"

definition maintenance_digest_of ::
  "(string \<Rightarrow> string) \<Rightarrow> maintenance_candidate list \<Rightarrow> maintenance_budget \<Rightarrow> string" where
  "maintenance_digest_of sha256_hex candidates budget =
     sha256_hex (concat (map maintenance_line candidates) @
       join_with [CHR 0x09]
         [''budget'', show_nat (mb_max_considered budget),
          show_nat (mb_max_elapsed budget div 10 ^ 9), show_nat (mb_max_deletions budget)] @ [CHR 0x0A])"

text \<open>The window loop: advisory, retained and selected so far.\<close>

fun maintenance_loop ::
  "nat \<Rightarrow> maintenance_candidate list \<Rightarrow> string list \<times> maintenance_retained list \<times> string list \<Rightarrow>
    string list \<times> maintenance_retained list \<times> string list" where
  "maintenance_loop max_deletions [] st = st"
| "maintenance_loop max_deletions (c # cs) (advisory, retained, selected) =
     (let advisory' =
            (case mc_age_days c of
               Some age \<Rightarrow> if age \<ge> 7 then advisory @ [mc_id c] else advisory
             | None \<Rightarrow> advisory)
      in case retain_reason c of
           Some reason \<Rightarrow>
             maintenance_loop max_deletions cs
               (advisory', retained @ [\<lparr>mr_id = mc_id c, mr_reason = reason\<rparr>], selected)
         | None \<Rightarrow>
             maintenance_loop max_deletions cs
               (advisory', retained,
                if length selected < max_deletions then selected @ [mc_id c] else selected))"

definition maintenance_plan_of ::
  "(string \<Rightarrow> string) \<Rightarrow> maintenance_candidate list \<Rightarrow> maintenance_budget \<Rightarrow> nat \<Rightarrow> bool \<Rightarrow>
    string option \<Rightarrow> maintenance_plan" where
  "maintenance_plan_of sha candidates budget elapsed opt_in bound_digest =
     (let digest = maintenance_digest_of sha candidates budget;
          window = take (mb_max_considered budget) candidates;
          (advisory, retained, selected, cursor) =
            (if elapsed \<ge> mb_max_elapsed budget then
               ([], [], [], map_option mc_id (case candidates of [] \<Rightarrow> None | c # _ \<Rightarrow> Some c))
             else
               let (advisory, retained, selected) =
                     maintenance_loop (mb_max_deletions budget) window ([], [], [])
               in (advisory, retained, selected,
                   if length candidates > mb_max_considered budget
                   then map_option mc_id
                     (if mb_max_considered budget < length candidates
                      then Some (candidates ! mb_max_considered budget) else None)
                   else map_option mc_id
                     (List.find (\<lambda>c. retain_reason c = None \<and> mc_id c \<notin> set selected) window)));
          fresh = (case bound_digest of None \<Rightarrow> False | Some bound \<Rightarrow> bound = digest)
      in \<lparr>mp_apply = (opt_in \<and> fresh \<and> selected \<noteq> []), mp_digest = digest, mp_selected = selected,
          mp_retained = retained, mp_cursor = cursor, mp_advisory = advisory\<rparr>)"

section \<open>When a receipt passes\<close>

lemma delivery_push_monotone [simp]:
  "note_fast_forward git r tip mm rs = [] \<longleftrightarrow> rs = [] \<and> is_ancestor git (dr_accepted_commit r) tip = Inr True"
  "note_rewrite git r rs = [] \<longleftrightarrow> rs = [] \<and> (\<exists>d. dr_recorded_destination r = Some d \<and> contained git r d = Inr True)"
  by (auto simp: note_fast_forward_def note_rewrite_def split: sum.splits bool.splits option.splits)

lemma note_merge_Nil [simp]:
  "note_merge git r tip False rs = [] \<longleftrightarrow>
     rs = [] \<and> (\<exists>ps. parents git tip = Inr ps \<and> 2 \<le> length ps \<and> dr_accepted_commit r \<in> set ps)"
  by (auto simp: note_merge_def split: sum.splits bool.splits if_splits)

lemma note_merge_keeps: "rs \<noteq> [] \<Longrightarrow> note_merge git r tip mm rs \<noteq> []"
  by (auto simp: note_merge_def split: sum.splits bool.splits)

lemma recovery_loop_Nil:
  "recovery_loop git objs (m, rs) = (False, []) \<longleftrightarrow>
     \<not> m \<and> rs = [] \<and> (\<forall>x \<in> set objs. object_exists git x = Inr True)"
  by (induction objs arbitrary: m rs) (auto split: sum.splits bool.splits)

lemma note_recovery_Nil [simp]:
  "note_recovery git r rs = [] \<longleftrightarrow> rs = [] \<and> (\<forall>x \<in> set (dr_recovery_objects r). object_exists git x = Inr True)"
  using recovery_loop_Nil [of git "dr_recovery_objects r" False rs]
  by (cases "recovery_loop git (dr_recovery_objects r) (False, rs)") (auto simp: note_recovery_def)

lemma contained_True:
  "contained git r c = Inr True \<longleftrightarrow>
     is_ancestor git (dr_accepted_commit r) c = Inr True \<or>
     (is_ancestor git (dr_accepted_commit r) c = Inr False \<and>
      (\<exists>t. dr_accepted_tree r = Some t \<and> tree_reachable git t c = Inr True))"
  by (cases "is_ancestor git (dr_accepted_commit r) c")
    (auto simp: contained_def split: option.splits)

text \<open>The claim of a receipt, in terms of what git answers.\<close>

definition landed :: "delivery_git \<Rightarrow> delivery_receipt \<Rightarrow> string \<Rightarrow> bool" where
  "landed git r tip \<longleftrightarrow>
     (case dr_strategy r of
        Land_FastForward \<Rightarrow> is_ancestor git (dr_accepted_commit r) tip = Inr True
      | Land_Merge \<Rightarrow> (case parents git tip of
            Inr ps \<Rightarrow> 2 \<le> length ps \<and> dr_accepted_commit r \<in> set ps | Inl _ \<Rightarrow> False)
      | Land_Rewrite \<Rightarrow> dr_recorded_destination r = Some tip \<and>
          (is_ancestor git (dr_accepted_commit r) tip = Inr True \<or>
           is_ancestor git (dr_accepted_commit r) tip = Inr False \<and>
           (case dr_accepted_tree r of Some t \<Rightarrow> tree_reachable git t tip = Inr True | None \<Rightarrow> False)))"

lemma report_reasons:
  "rp_passed (prove_delivery_receipt git r w) \<longleftrightarrow> rp_reasons (prove_delivery_receipt git r w) = []"
  "\<not> rp_apply (prove_delivery_receipt git r w)"
  "sorted (map delivery_reason_str (rp_reasons (prove_delivery_receipt git r w)))"
  "distinct (rp_reasons (prove_delivery_receipt git r w))"
  "rp_observed_destination (prove_delivery_receipt git r w) = fst (observed_tip git r)"
  by (simp_all add: prove_delivery_receipt_def Let_def delivery_reasons.finish_sorted
      delivery_reasons.finish_distinct split: prod.splits)

lemma observed_tip_cases:
  "(\<exists>tip. resolve_commit git (dr_destination_ref r) = Inr tip \<and> object_id_ok tip \<and>
      observed_tip git r = (Some tip, [])) \<or>
   ((\<forall>tip. resolve_commit git (dr_destination_ref r) = Inr tip \<longrightarrow> \<not> object_id_ok tip) \<and>
    observed_tip git r = (None, [Del_UnreadableRef]))"
  by (cases "resolve_commit git (dr_destination_ref r)")
    (auto simp: observed_tip_def ObjectId_new_def text_type_new_def push_code_def)

lemma passes_with_tip:
  assumes "observed_tip git r = (Some tip, [])"
  shows "rp_passed (prove_delivery_receipt git r w) \<longleftrightarrow>
     (dr_recorded_destination r = None \<or> dr_recorded_destination r = Some tip) \<and> landed git r tip \<and>
     (\<forall>x \<in> set (dr_recovery_objects r). object_exists git x = Inr True) \<and>
     planner_dirty git w = Inr False"
proof -
  define mm where "mm = (case (dr_recorded_destination r, Some tip) of
      (Some recorded, Some tip) \<Rightarrow> recorded \<noteq> tip | _ \<Rightarrow> False)"
  have mm: "mm \<longleftrightarrow> \<not> (dr_recorded_destination r = None \<or> dr_recorded_destination r = Some tip)"
    by (auto simp: mm_def split: option.splits)
  have p: "rp_passed (prove_delivery_receipt git r w) \<longleftrightarrow>
      (case dr_strategy r of
         Land_FastForward \<Rightarrow> note_fast_forward git r tip mm (push_if mm Del_StaleDestination [])
       | Land_Merge \<Rightarrow> note_merge git r tip mm (push_if mm Del_StaleDestination [])
       | Land_Rewrite \<Rightarrow> note_rewrite git r (push_if mm Del_StaleDestination [])) = [] \<and>
      (\<forall>x \<in> set (dr_recovery_objects r). object_exists git x = Inr True) \<and>
      planner_dirty git w = Inr False"
    unfolding prove_delivery_receipt_def assms mm_def Let_def prod.case option.case
    by (auto split: sum.splits bool.splits)
  show ?thesis
  proof (cases mm)
    case True
    then have "push_if mm Del_StaleDestination [] \<noteq> []" by simp
    with True mm p show ?thesis using note_merge_keeps by (auto split: landing_strategy.splits)
  next
    case False
    with mm have "dr_recorded_destination r = None \<or> dr_recorded_destination r = Some tip" by simp
    with False p show ?thesis
      by (auto simp: landed_def contained_True split: landing_strategy.splits sum.splits option.splits)
  qed
qed

text \<open>
  C30. A delivery receipt passes exactly when the destination resolves to an object id, that id
  is the recorded destination (if one was recorded), git answers that the accepted work landed
  there by the claimed strategy, every recovery object exists, and the planner's worktree is
  clean. Any failed read makes it fail, the reasons of a failure are sorted and unrepeated,
  and the report never asks to apply.
\<close>

theorem delivery_passes_iff_proved:
  "let report = prove_delivery_receipt git r w
   in (rp_passed report \<longleftrightarrow>
         (\<exists>tip. resolve_commit git (dr_destination_ref r) = Inr tip \<and> object_id_ok tip \<and>
            (dr_recorded_destination r = None \<or> dr_recorded_destination r = Some tip) \<and> landed git r tip) \<and>
         (\<forall>x \<in> set (dr_recovery_objects r). object_exists git x = Inr True) \<and>
         planner_dirty git w = Inr False) \<and>
      (rp_passed report \<longleftrightarrow> rp_reasons report = []) \<and> \<not> rp_apply report \<and>
      sorted (map delivery_reason_str (rp_reasons report)) \<and> distinct (rp_reasons report)"
  (is "let report = ?r in (_ \<longleftrightarrow> ?proved) \<and> _")
proof -
  have "rp_passed ?r \<longleftrightarrow> ?proved"
    using observed_tip_cases [of git r]
  proof
    assume "\<exists>tip. resolve_commit git (dr_destination_ref r) = Inr tip \<and> object_id_ok tip \<and>
        observed_tip git r = (Some tip, [])"
    then obtain tip where tip: "resolve_commit git (dr_destination_ref r) = Inr tip" "object_id_ok tip"
      "observed_tip git r = (Some tip, [])" by blast
    then show ?thesis using passes_with_tip [OF tip(3), of w] by auto
  next
    assume bad: "(\<forall>tip. resolve_commit git (dr_destination_ref r) = Inr tip \<longrightarrow> \<not> object_id_ok tip) \<and>
        observed_tip git r = (None, [Del_UnreadableRef])"
    then have "\<not> rp_passed ?r"
      by (auto simp: prove_delivery_receipt_def Let_def split: option.splits sum.splits bool.splits)
    with bad show ?thesis by blast
  qed
  with report_reasons [of git r w] show ?thesis by (simp add: Let_def)
qed

definition sample_git :: delivery_git where
  "sample_git =
     \<lparr>resolve_commit = (\<lambda>_. Inr (replicate 40 CHR ''a'')), is_ancestor = (\<lambda>_ _. Inr False),
      parents = (\<lambda>_. Inr [replicate 40 CHR ''e'', replicate 40 CHR ''c'']),
      tree_reachable = (\<lambda>_ _. Inr False), object_exists = (\<lambda>_. Inr True),
      planner_dirty = (\<lambda>_. Inr False)\<rparr>"

definition sample_receipt :: "landing_strategy \<Rightarrow> delivery_receipt" where
  "sample_receipt strategy =
     \<lparr>dr_strategy = strategy, dr_accepted_commit = replicate 40 CHR ''c'',
      dr_destination_ref = ''refs/heads/main'', dr_recorded_destination = Some (replicate 40 CHR ''a''),
      dr_accepted_tree = None, dr_recovery_objects = [replicate 40 CHR ''f'']\<rparr>"

theorem delivery_passes_iff_proved_witness:
  "rp_passed (prove_delivery_receipt sample_git (sample_receipt Land_Merge) ''.'') \<and>
   \<not> rp_passed (prove_delivery_receipt sample_git (sample_receipt Land_FastForward) ''.'')"
proof -
  note iff = delivery_passes_iff_proved [of sample_git _ "''.''", unfolded Let_def, THEN conjunct1]
  have ok: "object_id_ok (replicate 40 CHR ''a'')" by code_simp
  then show ?thesis
    unfolding iff by (simp add: sample_git_def sample_receipt_def landed_def)
qed

section \<open>What maintenance selects\<close>

lemma maintenance_loop_exact:
  "maintenance_loop k cs (adv, ret, sel) =
     (adv @ map mc_id (filter (\<lambda>c. \<exists>a. mc_age_days c = Some a \<and> a \<ge> 7) cs),
      ret @ map (\<lambda>c. \<lparr>mr_id = mc_id c, mr_reason = the (retain_reason c)\<rparr>)
        (filter (\<lambda>c. retain_reason c \<noteq> None) cs),
      sel @ map mc_id (take (k - length sel) (filter (\<lambda>c. retain_reason c = None) cs)))"
proof (induction cs arbitrary: adv ret sel)
  case (Cons c cs)
  show ?case
  proof (cases "retain_reason c")
    case None
    have n: "k - Suc (length sel) = n" "length sel < k" if "k - length sel = Suc n" for n
      using that by simp_all
    from None show ?thesis
      by (cases "k - length sel") (auto simp: Cons.IH Let_def n split: option.splits)
  next
    case (Some reason)
    then show ?thesis by (auto simp: Cons.IH Let_def split: option.splits)
  qed
qed simp

text \<open>
  A maintenance plan considers the first \<open>max_considered\<close> candidates, in order, unless the
  time budget is spent, when it considers none. It selects the first \<open>max_deletions\<close> of those
  that carry no evidence, neither failed nor were cancelled, have no dependent, a known
  outcome, landed and are eligible; the others of the window are retained, and age never
  decides. The plan is to be applied only on opt-in with the digest of these very candidates
  and budget, and with something selected.
\<close>

theorem maintenance_plan_exact:
  "let plan = maintenance_plan_of sha cs budget elapsed opt_in bound;
       window = (if elapsed \<ge> mb_max_elapsed budget then [] else take (mb_max_considered budget) cs);
       removable = (\<lambda>c. \<not> mc_evidence c \<and> \<not> mc_failed c \<and> \<not> mc_cancelled c \<and> \<not> mc_has_dependency c \<and>
          mc_outcome_known c \<and> mc_landed c \<and> mc_eligible c)
   in mp_selected plan = map mc_id (take (mb_max_deletions budget) (filter removable window)) \<and>
      map mr_id (mp_retained plan) = map mc_id (filter (\<lambda>c. \<not> removable c) window) \<and>
      mp_apply plan = (opt_in \<and> bound = Some (maintenance_digest_of sha cs budget) \<and> mp_selected plan \<noteq> []) \<and>
      (mp_cursor plan = None \<longleftrightarrow>
         (if elapsed \<ge> mb_max_elapsed budget then cs = []
          else length cs \<le> mb_max_considered budget \<and>
            mc_id ` set (filter removable window) \<subseteq> set (mp_selected plan)))"
proof -
  have r: "retain_reason c = None \<longleftrightarrow> \<not> mc_evidence c \<and> \<not> mc_failed c \<and> \<not> mc_cancelled c \<and>
      \<not> mc_has_dependency c \<and> mc_outcome_known c \<and> mc_landed c \<and> mc_eligible c" for c
    by (simp add: retain_reason_def)
  have f: "(case bound of None \<Rightarrow> False | Some b \<Rightarrow> b = d) \<longleftrightarrow> bound = Some d" for d
    by (cases bound) auto
  show ?thesis
  proof (cases "elapsed \<ge> mb_max_elapsed budget")
    case True
    then show ?thesis by (cases cs) (simp_all add: maintenance_plan_of_def Let_def f)
  next
    case False
    then show ?thesis
      unfolding Let_def r [symmetric]
      by (auto simp: maintenance_plan_of_def maintenance_loop_exact Let_def f comp_def find_None_iff
          simp del: not_None_eq)
  qed
qed

end
