(* ===== verification/Adapter_Redact.thy ===== *)
theory Adapter_Redact
  imports Meshloop_Prelude
begin

text \<open>
  Redaction of captured output before it is persisted:
  \<open>meshloop-adapters/src/redact.rs\<close>. Secret patterns are replaced first; a text that is still
  too long is cut down to its diagnostic lines, a marker with the original length, and a
  suffix. Texts are UTF-8 bytes, so cutting respects character boundaries explicitly.

  The lemmas show that no secret pattern survives anywhere in the output, that no complete
  \<open>sk-\<close> key survives replacement, and that the stored text fits its bound.
\<close>

section \<open>Patterns\<close>

definition CAP :: nat where "CAP = 2048"
definition MAX_STORED :: nat where "MAX_STORED = CAP + 3"
definition SK_MIN_KEY_CHARS :: nat where "SK_MIN_KEY_CHARS = 40"

definition PATTERNS :: "string list" where
  "PATTERNS = [''-----BEGIN'', ''sk-'', ''ghp_'', ''Bearer '', ''api_key='']"

definition DIAGNOSTIC_NEEDLES :: "string list" where
  "DIAGNOSTIC_NEEDLES =
     [''error:'', ''error['', ''warning:'', ''warning['', ''-->'', ''FAILED'', ''panicked'']"

definition REDACTED :: string where "REDACTED = ''[REDACTED]''"

text \<open>\<open>str::replace\<close>, for a non-empty pattern.\<close>

definition str_replace :: "string \<Rightarrow> string \<Rightarrow> string \<Rightarrow> string" where
  "str_replace p r s = join_with r (split_str p s)"

text \<open>
  \<open>sk_key_len before s\<close>: the length of the key at the front of \<open>s\<close>, if there is one;
  \<open>before\<close> says that the byte in front of \<open>s\<close> is alphanumeric.
\<close>

definition sk_key_len :: "bool \<Rightarrow> string \<Rightarrow> nat option" where
  "sk_key_len before s =
     (if \<not> starts_with s ''sk-'' then None
      else if before then None
      else let count = length (takeWhile is_ascii_alphanumeric (drop 3 s))
        in if count \<ge> SK_MIN_KEY_CHARS then Some (3 + count) else None)"

function redact_sk_from :: "bool \<Rightarrow> string \<Rightarrow> string" where
  "redact_sk_from before [] = []"
| "redact_sk_from before (c # s) =
     (case sk_key_len before (c # s) of
        Some n \<Rightarrow> REDACTED @ redact_sk_from True (drop n (c # s))
      | None \<Rightarrow> c # redact_sk_from (is_ascii_alphanumeric c) s)"
  by pat_completeness auto
termination
  by (relation "measure (length \<circ> snd)") (auto simp: sk_key_len_def Let_def split: if_splits)

definition redact_sk_keys :: "string \<Rightarrow> string" where
  "redact_sk_keys s = redact_sk_from False s"

section \<open>Cutting\<close>

definition continuation_byte :: "char \<Rightarrow> bool" where
  "continuation_byte c \<longleftrightarrow> 128 \<le> byte_of c \<and> byte_of c < 192"

definition is_char_boundary :: "string \<Rightarrow> nat \<Rightarrow> bool" where
  "is_char_boundary s i \<longleftrightarrow> i = 0 \<or> i = length s \<or> (i < length s \<and> \<not> continuation_byte (s ! i))"

fun floor_char_boundary :: "string \<Rightarrow> nat \<Rightarrow> nat" where
  "floor_char_boundary s 0 = 0"
| "floor_char_boundary s (Suc i) =
     (if is_char_boundary s (Suc i) then Suc i else floor_char_boundary s i)"

function ceil_char_boundary :: "string \<Rightarrow> nat \<Rightarrow> nat" where
  "ceil_char_boundary s i =
     (if i \<ge> length s then length s
      else if is_char_boundary s i then i else ceil_char_boundary s (Suc i))"
  by pat_completeness auto
termination
  by (relation "measure (\<lambda>(s, i). length s - i)") auto

declare ceil_char_boundary.simps [simp del]

definition prefix_within :: "string \<Rightarrow> nat \<Rightarrow> string" where
  "prefix_within text max_bytes =
     (if max_bytes \<ge> length text then text else take (floor_char_boundary text max_bytes) text)"

definition suffix_within :: "string \<Rightarrow> nat \<Rightarrow> string" where
  "suffix_within text max_bytes =
     (if max_bytes \<ge> length text then text
      else drop (ceil_char_boundary text (length text - max_bytes)) text)"

definition ELLIPSIS :: string where "ELLIPSIS = [CHR 0xE2, CHR 0x80, CHR 0xA6]"

definition truncation_marker :: "nat \<Rightarrow> string" where
  "truncation_marker original_len =
     ELLIPSIS @ ''[truncated '' @ show_nat original_len @ '' bytes]'' @ ELLIPSIS"

fun str_find :: "string \<Rightarrow> string \<Rightarrow> nat option" where
  "str_find [] p = (if p = [] then Some 0 else None)"
| "str_find (c # s) p =
     (if starts_with (c # s) p then Some 0 else map_option Suc (str_find s p))"

definition diagnostic_needle_at :: "string \<Rightarrow> nat option" where
  "diagnostic_needle_at line =
     (let found = List.map_filter (str_find line) DIAGNOSTIC_NEEDLES
      in if found = [] then None else Some (fold min (tl found) (hd found)))"

definition is_diagnostic_line :: "string \<Rightarrow> bool" where
  "is_diagnostic_line line \<longleftrightarrow> diagnostic_needle_at line \<noteq> None"

definition clip_diagnostic_line :: "string \<Rightarrow> nat \<Rightarrow> string" where
  "clip_diagnostic_line line budget =
     (if budget = 0 then []
      else if length line \<le> budget then line
      else case diagnostic_needle_at line of
        None \<Rightarrow> []
      | Some pos \<Rightarrow>
          let clipped =
            (if length line - pos \<le> budget then suffix_within line budget
             else prefix_within (drop pos line) budget)
          in if is_diagnostic_line clipped then clipped else [])"

text \<open>The scan over the lines from the last one: an early return is \<open>Inl\<close>.\<close>

fun diagnostic_scan :: "nat \<Rightarrow> string list \<Rightarrow> string list \<Rightarrow> nat \<Rightarrow> string + string list" where
  "diagnostic_scan budget [] chosen used = Inr chosen"
| "diagnostic_scan budget (line # lines) chosen used =
     (let sep = (if chosen = [] then 0 else 1)
      in if used + sep + length line \<le> budget
         then diagnostic_scan budget lines (chosen @ [line]) (used + (sep + length line))
         else if chosen = [] then
           (let clipped = clip_diagnostic_line line budget
            in if clipped \<noteq> [] then Inl clipped else diagnostic_scan budget lines chosen used)
         else Inr chosen)"

definition diagnostic_section :: "string list \<Rightarrow> nat \<Rightarrow> string" where
  "diagnostic_section lines budget =
     (if budget = 0 \<or> lines = [] then []
      else case diagnostic_scan budget (rev lines) [] 0 of
        Inl clipped \<Rightarrow> clipped
      | Inr chosen \<Rightarrow> join_with [CHR 0x0A] (rev chosen))"

definition shrink_evidence :: "string \<Rightarrow> string" where
  "shrink_evidence text =
     (let marker = truncation_marker (length text)
      in if length marker \<ge> MAX_STORED then prefix_within marker MAX_STORED
         else
           let body_budget = MAX_STORED - length marker;
               lines = filter is_diagnostic_line (str_lines text);
               diag = diagnostic_section lines (body_budget div 2);
               sep = (if diag = [] then 0 else 1);
               tail = suffix_within text (body_budget - (length diag + sep))
           in (if diag = [] then [] else diag @ [CHR 0x0A]) @ marker @ tail)"

section \<open>Redaction\<close>

definition redact_pattern :: "string \<Rightarrow> string \<Rightarrow> string" where
  "redact_pattern p s =
     (if \<not> str_contains s p then s
      else if p = ''sk-'' then redact_sk_keys s
      else str_replace p REDACTED s)"

definition redact_patterns :: "string \<Rightarrow> string" where
  "redact_patterns input = fold redact_pattern PATTERNS input"

definition redact :: "string \<Rightarrow> string" where
  "redact input =
     (let out = redact_patterns input
      in if length out > CAP then shrink_evidence out else out)"

section \<open>Where a pattern can occur\<close>

lemma contains_infix: "str_contains t p \<Longrightarrow> s = a @ t @ b \<Longrightarrow> str_contains s p"
  unfolding str_contains_iff by (metis append.assoc)

lemma not_contains_char: "x \<in> set p \<Longrightarrow> x \<notin> set s \<Longrightarrow> \<not> str_contains s p"
  by (auto simp: str_contains_iff)

text \<open>A pattern cannot reach across a character it does not contain.\<close>

lemma contains_barrier:
  assumes "c \<notin> set p" and "p \<noteq> []"
  shows "str_contains (a @ c # b) p \<longleftrightarrow> str_contains a p \<or> str_contains b p"
proof
  assume "str_contains (a @ c # b) p"
  then obtain x y where e: "a @ c # b = x @ p @ y" by (auto simp: str_contains_iff)
  then obtain u where "a = x @ u \<and> u @ c # b = p @ y \<or> a @ u = x \<and> c # b = u @ p @ y"
    using append_eq_append_conv2 [of a "c # b" x "p @ y"] by blast
  then consider "a = x @ u" "u @ c # b = p @ y" | "x = a @ u" "c # b = u @ p @ y" by blast
  then show "str_contains a p \<or> str_contains b p"
  proof cases
    case 1
    have "\<exists>v. u = p @ v"
      using 1(2) assms(1) by (auto simp: append_eq_append_conv2 Cons_eq_append_conv)
    then show ?thesis using 1(1) by (auto simp: str_contains_iff)
  next
    case 2
    then show ?thesis
      using assms by (cases u) (auto simp: str_contains_iff Cons_eq_append_conv)
  qed
next
  assume "str_contains a p \<or> str_contains b p"
  then show "str_contains (a @ c # b) p"
    by (metis append.left_neutral append_Cons append_assoc contains_infix append_Nil2)
qed

lemma barrier_front: "c \<notin> set p \<Longrightarrow> p \<noteq> [] \<Longrightarrow> str_contains (c # b) p \<longleftrightarrow> str_contains b p"
  using contains_barrier [of c p "[]" b] by (simp add: starts_with_def)

text \<open>Patterns that brackets, line feeds and the ellipsis keep apart.\<close>

definition bracket_free :: "string \<Rightarrow> bool" where
  "bracket_free p \<longleftrightarrow> p \<noteq> [] \<and> set p \<inter> {CHR ''['', CHR '']'', CHR 0x0A, CHR 0xE2, CHR 0x80, CHR 0xA6} = {}"

lemma contains_redacted:
  assumes "bracket_free p" and "\<not> str_contains ''REDACTED'' p"
  shows "str_contains (a @ REDACTED @ b) p \<longleftrightarrow> str_contains a p \<or> str_contains b p"
proof -
  define r where "r = ''REDACTED''"
  have e: "a @ REDACTED @ b = a @ CHR ''['' # (r @ CHR '']'' # b)" by (simp add: REDACTED_def r_def)
  have p: "p \<noteq> []" "CHR ''['' \<notin> set p" "CHR '']'' \<notin> set p" using assms(1) by (simp_all add: bracket_free_def)
  have "\<not> str_contains r p" using assms(2) by (simp add: r_def)
  then show ?thesis unfolding e contains_barrier [OF p(2,1)] contains_barrier [OF p(3,1)] by simp
qed

section \<open>Patterns are gone after replacement\<close>

lemma split_once_str_first:
  "split_once_str p s = Some (a, b) \<Longrightarrow> p \<noteq> [] \<Longrightarrow> \<not> str_contains a p"
proof (induction s arbitrary: a b)
  case (Cons c s)
  show ?case
  proof (cases "starts_with (c # s) p")
    case True
    then show ?thesis using Cons.prems by (auto simp: starts_with_def)
  next
    case False
    then obtain a' where a: "a = c # a'" and s: "split_once_str p s = Some (a', b)"
      using Cons.prems by auto
    have "\<not> starts_with (c # a') p"
    proof
      assume "starts_with (c # a') p"
      moreover have "c # s = (c # a') @ p @ b" using split_once_str_Some [OF s] by simp
      ultimately have "starts_with (c # s) p" unfolding starts_with_iff_prefix by (metis append.assoc)
      with False show False by simp
    qed
    with Cons.IH [OF s Cons.prems(2)] a show ?thesis by simp
  qed
qed (auto split: if_splits)

lemma split_once_str_None: "split_once_str p s = None \<Longrightarrow> \<not> str_contains s p"
proof (induction s)
  case Nil
  then show ?case by (cases p) (auto simp: starts_with_def split: if_splits)
next
  case (Cons c s)
  then show ?case by (auto split: if_splits)
qed

lemma split_str_pieces: "p \<noteq> [] \<Longrightarrow> x \<in> set (split_str p s) \<Longrightarrow> \<not> str_contains x p"
proof (induction p s rule: split_str.induct)
  case (1 sep s)
  show ?case
  proof (cases "split_once_str sep s")
    case None
    then show ?thesis using 1 split_once_str_None by (simp add: split_str.simps [of sep s])
  next
    case (Some ab)
    obtain a b where ab: "ab = (a, b)" by fastforce
    have "x = a \<or> x \<in> set (split_str sep b)"
      using 1 Some ab by (simp add: split_str.simps [of sep s])
    then show ?thesis
      using 1(1) [OF 1(2) Some ab [symmetric]] 1(2) Some ab split_once_str_first by auto
  qed
qed

lemma split_str_infix: "x \<in> set (split_str p s) \<Longrightarrow> \<exists>a b. s = a @ x @ b"
proof (induction p s rule: split_str.induct)
  case (1 sep s)
  show ?case
  proof (cases "sep = [] \<or> split_once_str sep s = None")
    case True
    then have "split_str sep s = [s]" by (subst split_str.simps) auto
    then have "s = [] @ x @ []" using 1(2) by simp
    then show ?thesis by blast
  next
    case False
    then obtain a b where ab: "split_once_str sep s = Some (a, b)" by auto
    have s: "s = a @ sep @ b" using split_once_str_Some [OF ab] .
    have "x = a \<or> x \<in> set (split_str sep b)" using 1(2) False ab by (simp add: split_str.simps [of sep s])
    then show ?thesis
    proof
      assume "x = a" then show ?thesis using s by (metis append_Nil)
    next
      assume "x \<in> set (split_str sep b)"
      then obtain u v where "b = u @ x @ v" using 1(1) False ab by blast
      then show ?thesis using s by (metis append.assoc)
    qed
  qed
qed

lemma split_str_not_Nil: "split_str p s \<noteq> []"
  by (subst split_str.simps) (auto split: option.splits)

lemma join_redacted_free:
  assumes "bracket_free p" and "\<not> str_contains ''REDACTED'' p"
    and "\<And>w. w \<in> set ws \<Longrightarrow> \<not> str_contains w p"
  shows "\<not> str_contains (join_with REDACTED ws) p"
  using assms
proof (induction REDACTED ws rule: join_with.induct)
  case 1
  then show ?case by (auto simp: bracket_free_def starts_with_def)
next
  case (3 x y ys)
  then show ?case by (simp add: contains_redacted)
qed simp

lemma replace_removes:
  "bracket_free p \<Longrightarrow> \<not> str_contains ''REDACTED'' p \<Longrightarrow> \<not> str_contains (str_replace p REDACTED s) p"
  unfolding str_replace_def
  by (rule join_redacted_free) (auto simp: bracket_free_def dest: split_str_pieces)

lemma replace_keeps_free:
  assumes "bracket_free p" "\<not> str_contains ''REDACTED'' p" "\<not> str_contains s p"
  shows "\<not> str_contains (str_replace q REDACTED s) p"
  unfolding str_replace_def
  by (rule join_redacted_free [OF assms(1,2)]) (use assms(3) in \<open>blast dest: split_str_infix contains_infix\<close>)

text \<open>Key redaction only inserts brackets, so it creates none of the other patterns either.\<close>

lemma sk_from_free:
  assumes "bracket_free p" "\<not> str_contains ''REDACTED'' p"
  shows "str_contains (redact_sk_from before s) p \<Longrightarrow> str_contains s p"
proof -
  have ne: "p \<noteq> []" using assms(1) by (simp add: bracket_free_def)
  have gen: "\<not> str_contains (u @ s) p \<Longrightarrow> \<not> str_contains (u @ redact_sk_from before s) p" for u
  proof (induction before s arbitrary: u rule: redact_sk_from.induct)
    case (2 before c s)
    show ?case
    proof (cases "sk_key_len before (c # s)")
      case None
      have "\<not> str_contains ((u @ [c]) @ s) p" using 2(3) by simp
      from 2(1) [OF None this] None show ?thesis by simp
    next
      case (Some n)
      have u: "\<not> str_contains u p"
        using 2(3) contains_infix [of u p "u @ c # s" "[]" "c # s"] by auto
      have "u @ c # s = (u @ take n (c # s)) @ drop n (c # s) @ []" by simp
      then have "\<not> str_contains (drop n (c # s)) p" using 2(3) contains_infix by metis
      then have "\<not> str_contains ([] @ drop n (c # s)) p" by simp
      from 2(2) [OF Some this] have "\<not> str_contains (redact_sk_from True (drop n (c # s))) p" by simp
      with u have "\<not> str_contains (u @ REDACTED @ redact_sk_from True (drop n (c # s))) p"
        unfolding contains_redacted [OF assms] by blast
      then show ?thesis using Some by simp
    qed
  qed simp
  show "str_contains (redact_sk_from before s) p \<Longrightarrow> str_contains s p"
    using gen [of "[]"] by fastforce
qed

lemma redact_pattern_keeps_free:
  assumes "bracket_free p" "\<not> str_contains ''REDACTED'' p" "\<not> str_contains s p"
  shows "\<not> str_contains (redact_pattern q s) p"
proof -
  have "\<not> str_contains (redact_sk_keys s) p"
    using sk_from_free [OF assms(1,2)] assms(3) unfolding redact_sk_keys_def by blast
  then show ?thesis using replace_keeps_free [OF assms] assms(3) by (simp add: redact_pattern_def)
qed

lemma redact_pattern_removes:
  assumes "bracket_free p" "\<not> str_contains ''REDACTED'' p" "p \<noteq> ''sk-''"
  shows "\<not> str_contains (redact_pattern p s) p"
  using replace_removes [OF assms(1,2)] assms(3) by (simp add: redact_pattern_def)

definition plain_patterns :: "string list" where
  "plain_patterns = [''-----BEGIN'', ''ghp_'', ''Bearer '', ''api_key='']"

lemma plain_pattern_ok:
  "p \<in> set plain_patterns \<Longrightarrow> bracket_free p \<and> \<not> str_contains ''REDACTED'' p \<and> p \<noteq> ''sk-''"
  by (auto simp: plain_patterns_def bracket_free_def starts_with_def)

lemma redact_patterns_free:
  assumes "p \<in> set plain_patterns"
  shows "\<not> str_contains (redact_patterns s) p"
proof -
  note ok = plain_pattern_ok [OF assms]
  have keep: "\<not> str_contains t p \<Longrightarrow> \<not> str_contains (fold redact_pattern qs t) p" for qs t
    by (induction qs arbitrary: t) (use ok redact_pattern_keeps_free in auto)
  have "\<not> str_contains (fold redact_pattern qs t) p" if "p \<in> set qs" for qs t
    using that
  proof (induction qs arbitrary: t)
    case (Cons q qs)
    then show ?case using keep redact_pattern_removes [of p t] ok by (cases "p = q") auto
  qed simp
  moreover have "p \<in> set PATTERNS" using assms by (auto simp: plain_patterns_def PATTERNS_def)
  ultimately show ?thesis by (simp add: redact_patterns_def)
qed

section \<open>No key survives replacement\<close>

fun has_sk_key :: "bool \<Rightarrow> string \<Rightarrow> bool" where
  "has_sk_key before [] = False"
| "has_sk_key before (c # s) = (sk_key_len before (c # s) \<noteq> None \<or> has_sk_key (is_ascii_alphanumeric c) s)"

lemma sk_key_len_iff:
  "sk_key_len before s \<noteq> None \<longleftrightarrow>
     \<not> before \<and> (\<exists>k t. s = ''sk-'' @ k @ t \<and> length k = SK_MIN_KEY_CHARS \<and> list_all is_ascii_alphanumeric k)"
  (is "_ \<longleftrightarrow> _ \<and> ?key")
proof -
  have "starts_with s ''sk-'' \<and> SK_MIN_KEY_CHARS \<le> length (takeWhile is_ascii_alphanumeric (drop 3 s)) \<longleftrightarrow> ?key"
  proof
    assume h: "starts_with s ''sk-'' \<and> SK_MIN_KEY_CHARS \<le> length (takeWhile is_ascii_alphanumeric (drop 3 s))"
    define w where "w = takeWhile is_ascii_alphanumeric (drop 3 s)"
    obtain t where t: "s = ''sk-'' @ t" using h by (auto simp: starts_with_iff_prefix)
    have d: "t = w @ dropWhile is_ascii_alphanumeric t" by (simp add: w_def t)
    have "s = ''sk-'' @ take SK_MIN_KEY_CHARS w @ (drop SK_MIN_KEY_CHARS w @ dropWhile is_ascii_alphanumeric t)"
      using d t by (metis append.assoc append_take_drop_id)
    moreover have "length (take SK_MIN_KEY_CHARS w) = SK_MIN_KEY_CHARS" using h w_def by simp
    moreover have "list_all is_ascii_alphanumeric (take SK_MIN_KEY_CHARS w)"
      by (auto simp: list_all_iff w_def dest!: in_set_takeD dest: set_takeWhileD)
    ultimately show ?key by blast
  next
    assume ?key
    then obtain k t where "s = ''sk-'' @ k @ t" "length k = SK_MIN_KEY_CHARS" "list_all is_ascii_alphanumeric k"
      by blast
    then show "starts_with s ''sk-'' \<and> SK_MIN_KEY_CHARS \<le> length (takeWhile is_ascii_alphanumeric (drop 3 s))"
      by (simp add: takeWhile_append2 list_all_iff starts_with_def)
  qed
  then show ?thesis by (auto simp: sk_key_len_def Let_def)
qed

lemma sk_key_len_mono: "sk_key_len before a \<noteq> None \<Longrightarrow> sk_key_len before (a @ b) \<noteq> None"
  unfolding sk_key_len_iff by (metis append.assoc)

lemma has_sk_key_prefix: "has_sk_key before a \<Longrightarrow> has_sk_key before (a @ b)"
proof (induction a arbitrary: before)
  case (Cons c a)
  then show ?case using sk_key_len_mono [of before "c # a" b] by auto
qed simp

lemma has_sk_key_suffix:
  "has_sk_key False b \<Longrightarrow> \<not> is_ascii_alphanumeric d \<Longrightarrow> has_sk_key before (a @ d # b)"
  by (induction a arbitrary: before) auto

lemma bracket_not_in_key:
  assumes "list_all is_ascii_alphanumeric k" shows "CHR ''['' \<notin> set (''sk-'' @ k)"
  using assms by (auto simp: list_all_iff ascii_defs)

lemma prefix_before_bracket:
  "k @ t = a @ CHR ''['' # b \<Longrightarrow> CHR ''['' \<notin> set k \<Longrightarrow> \<exists>t'. a = k @ t'"
  by (auto simp: append_eq_append_conv2) (metis append_Cons append_self_conv hd_append2 in_set_conv_decomp list.sel(1) list.set_sel(1))

lemma sk_key_len_bracket:
  assumes "sk_key_len before (a @ CHR ''['' # b) \<noteq> None"
  shows "sk_key_len before a \<noteq> None"
proof -
  obtain k t where k: "\<not> before" "(''sk-'' @ k) @ t = a @ CHR ''['' # b"
    "length k = SK_MIN_KEY_CHARS" "list_all is_ascii_alphanumeric k"
    using assms unfolding sk_key_len_iff by auto
  obtain t' where "a = (''sk-'' @ k) @ t'"
    using prefix_before_bracket [OF k(2) bracket_not_in_key [OF k(4)]] by blast
  then have "a = ''sk-'' @ k @ t'" by simp
  with k show ?thesis unfolding sk_key_len_iff by blast
qed

lemma has_sk_key_bracket:
  "has_sk_key before (a @ CHR ''['' # b) \<Longrightarrow> has_sk_key before a \<or> has_sk_key False b"
proof (induction a arbitrary: before)
  case Nil
  then show ?case by (auto simp: sk_key_len_def starts_with_def ascii_defs)
next
  case (Cons c a)
  then show ?case using sk_key_len_bracket [of before "c # a" b] by auto
qed

lemma has_sk_key_nonkey_head: "c \<noteq> CHR ''s'' \<Longrightarrow> has_sk_key before (c # s) \<longleftrightarrow> has_sk_key (is_ascii_alphanumeric c) s"
  by (simp add: sk_key_len_def starts_with_def)

lemma redacted_tail: "has_sk_key False (''REDACTED]'' @ b) \<longleftrightarrow> has_sk_key False b"
  by (simp add: has_sk_key_nonkey_head del: has_sk_key.simps) (simp add: ascii_defs)

lemma has_sk_key_redacted:
  assumes "\<not> has_sk_key before a" and "\<not> has_sk_key False b"
  shows "\<not> has_sk_key before (a @ REDACTED @ b)"
proof
  assume "has_sk_key before (a @ REDACTED @ b)"
  then have "has_sk_key before (a @ CHR ''['' # (''REDACTED]'' @ b))" by (simp add: REDACTED_def)
  from has_sk_key_bracket [OF this] assms redacted_tail show False by blast
qed

text \<open>What key redaction copies in front of a bracket, it copied from the input.\<close>

lemma redact_sk_prefix:
  "redact_sk_from before s = k @ t \<Longrightarrow> CHR ''['' \<notin> set k \<Longrightarrow> \<exists>t'. s = k @ t'"
proof (induction before s arbitrary: k t rule: redact_sk_from.induct)
  case (2 before c s)
  show ?case
  proof (cases "sk_key_len before (c # s)")
    case None
    then show ?thesis
      using 2 by (cases k) auto
  next
    case (Some n)
    then have "k = []" using 2(3,4) by (cases k) (auto simp: REDACTED_def)
    then show ?thesis by simp
  qed
qed simp

lemma after_key:
  assumes "sk_key_len before s = Some n"
  shows "drop n s = [] \<or> \<not> is_ascii_alphanumeric (hd (drop n s))"
proof -
  define w where "w = takeWhile is_ascii_alphanumeric (drop 3 s)"
  have n: "n = 3 + length w" using assms by (auto simp: sk_key_len_def w_def Let_def split: if_splits)
  have "drop n s = drop (length w) (drop 3 s)" by (simp add: n add.commute)
  also have "\<dots> = dropWhile is_ascii_alphanumeric (drop 3 s)" by (simp add: w_def dropWhile_eq_drop)
  finally show ?thesis using hd_dropWhile by metis
qed

lemma redact_sk_no_key: "\<not> has_sk_key before (redact_sk_from before s)"
proof (induction before s rule: redact_sk_from.induct)
  case (2 before c s)
  show ?case
  proof (cases "sk_key_len before (c # s)")
    case None
    have "sk_key_len before (c # redact_sk_from (is_ascii_alphanumeric c) s) = None"
    proof (rule ccontr)
      assume "sk_key_len before (c # redact_sk_from (is_ascii_alphanumeric c) s) \<noteq> None"
      then obtain k t where b: "\<not> before" and e: "c # redact_sk_from (is_ascii_alphanumeric c) s = ''sk-'' @ k @ t"
        and k: "length k = SK_MIN_KEY_CHARS" "list_all is_ascii_alphanumeric k"
        unfolding sk_key_len_iff by blast
      have "redact_sk_from (is_ascii_alphanumeric c) s = (''k-'' @ k) @ t" and c: "c = CHR ''s''" using e by auto
      then obtain t' where "s = (''k-'' @ k) @ t'"
        using redact_sk_prefix bracket_not_in_key [OF k(2)] by (metis append_Cons list.set_intros(2))
      then have "c # s = ''sk-'' @ k @ t'" using c by simp
      with b k have "sk_key_len before (c # s) \<noteq> None" unfolding sk_key_len_iff by blast
      with None show False by simp
    qed
    with 2(1) [OF None] None show ?thesis by simp
  next
    case (Some n)
    let ?rest = "redact_sk_from True (drop n (c # s))"
    have "\<not> has_sk_key False ?rest"
    proof (cases "drop n (c # s)")
      case (Cons d r)
      have "\<not> is_ascii_alphanumeric d" using after_key [OF Some] Cons by simp
      then have d: "d \<noteq> CHR ''s''" by (auto simp: ascii_defs)
      then have "?rest = d # redact_sk_from (is_ascii_alphanumeric d) r"
        using Cons by (simp add: sk_key_len_def starts_with_def)
      then show ?thesis
        using 2(2) [OF Some] d by (simp add: has_sk_key_nonkey_head del: has_sk_key.simps)
    qed simp
    then have "\<not> has_sk_key before ([] @ REDACTED @ ?rest)" by (intro has_sk_key_redacted) simp_all
    with Some show ?thesis by simp
  qed
qed simp

lemma replace_no_new_key:
  "p \<noteq> [] \<Longrightarrow> \<not> is_ascii_alphanumeric (last p) \<Longrightarrow> \<not> has_sk_key before s \<Longrightarrow>
     \<not> has_sk_key before (str_replace p REDACTED s)"
  unfolding str_replace_def
proof (induction p s arbitrary: before rule: split_str.induct)
  case (1 sep s)
  show ?case
  proof (cases "split_once_str sep s")
    case None
    then show ?thesis using 1 by (simp add: split_str.simps [of sep s])
  next
    case (Some ab)
    obtain a b where ab: "ab = (a, b)" by fastforce
    have s: "s = a @ sep @ b" using split_once_str_Some Some ab by simp
    have "\<not> has_sk_key before a" using 1(4) s has_sk_key_prefix by metis
    moreover have "\<not> has_sk_key False b"
    proof
      assume "has_sk_key False b"
      then have "has_sk_key before ((a @ butlast sep) @ last sep # b)"
        using has_sk_key_suffix 1(3) by blast
      moreover have "(a @ butlast sep) @ last sep # b = s" using s 1(2) by simp
      ultimately show False using 1(4) by simp
    qed
    then have "\<not> has_sk_key False (join_with REDACTED (split_str sep b))"
      using 1(1) [OF 1(2) Some ab [symmetric] 1(2,3)] by simp
    moreover have "join_with REDACTED (split_str sep s) = a @ REDACTED @ join_with REDACTED (split_str sep b)"
      using 1(2) Some ab split_str_not_Nil [of sep b]
      by (cases "split_str sep b") (simp_all add: split_str.simps [of sep s])
    ultimately show ?thesis using has_sk_key_redacted by simp
  qed
qed

lemma redact_pattern_keeps_no_key:
  assumes "q \<noteq> []" "q = ''sk-'' \<or> \<not> is_ascii_alphanumeric (last q)" "\<not> has_sk_key False s"
  shows "\<not> has_sk_key False (redact_pattern q s)"
  using assms replace_no_new_key [of q False s] redact_sk_no_key [of False s]
  by (auto simp: redact_pattern_def redact_sk_keys_def)

lemma has_sk_key_contains: "has_sk_key before s \<Longrightarrow> str_contains s ''sk-''"
proof (induction s arbitrary: before)
  case (Cons c s)
  then show ?case by (auto simp: sk_key_len_def split: if_splits)
qed simp

lemma redact_patterns_no_key: "\<not> has_sk_key False (redact_patterns s)"
proof -
  define t where "t = redact_pattern ''-----BEGIN'' s"
  have "\<not> has_sk_key False (redact_pattern ''sk-'' t)"
    using redact_sk_no_key [of False t] has_sk_key_contains [of False t]
    by (auto simp: redact_pattern_def redact_sk_keys_def)
  then have "\<not> has_sk_key False (redact_pattern ''ghp_'' (redact_pattern ''sk-'' t))"
    by (rule redact_pattern_keeps_no_key [rotated 2]) (simp_all add: ascii_defs)
  then have "\<not> has_sk_key False (redact_pattern ''Bearer '' (redact_pattern ''ghp_'' (redact_pattern ''sk-'' t)))"
    by (rule redact_pattern_keeps_no_key [rotated 2]) (simp_all add: ascii_defs)
  then have "\<not> has_sk_key False (redact_pattern ''api_key='' (redact_pattern ''Bearer ''
      (redact_pattern ''ghp_'' (redact_pattern ''sk-'' t))))"
    by (rule redact_pattern_keeps_no_key [rotated 2]) (simp_all add: ascii_defs)
  then show ?thesis by (simp add: redact_patterns_def PATTERNS_def t_def)
qed

section \<open>The cut text\<close>

lemma floor_char_boundary_le: "floor_char_boundary s i \<le> i"
  by (induction s i rule: floor_char_boundary.induct) auto

lemma ceil_char_boundary_ge: "i \<le> length s \<Longrightarrow> i \<le> ceil_char_boundary s i"
proof (induction s i rule: ceil_char_boundary.induct)
  case (1 s i)
  then show ?case by (subst ceil_char_boundary.simps) force
qed

lemma length_prefix_within: "length (prefix_within t n) \<le> n"
  using floor_char_boundary_le [of t n] by (simp add: prefix_within_def)

lemma length_suffix_within: "length (suffix_within t n) \<le> n"
proof -
  have "length t - n \<le> ceil_char_boundary t (length t - n)" by (rule ceil_char_boundary_ge) simp
  then show ?thesis by (simp add: suffix_within_def) arith
qed

lemma prefix_within_infix: "\<exists>b. t = prefix_within t n @ b"
  by (simp add: prefix_within_def) (metis append_take_drop_id)

lemma suffix_within_infix: "\<exists>a. t = a @ suffix_within t n"
  by (simp add: suffix_within_def) (metis append_take_drop_id)

lemma length_clip: "length (clip_diagnostic_line line budget) \<le> budget"
  using length_prefix_within length_suffix_within
  by (auto simp: clip_diagnostic_line_def Let_def split: option.splits)

lemma length_join_snoc:
  "length (join_with [d] (rev (chosen @ [x]))) =
     (if chosen = [] then 0 else Suc (length (join_with [d] (rev chosen)))) + length x"
  by (cases "rev chosen") auto

lemma length_diagnostic_scan:
  assumes "used = length (join_with [CHR 0x0A] (rev chosen))" and "used \<le> budget"
  shows "case diagnostic_scan budget lines chosen used of
     Inl c \<Rightarrow> length c \<le> budget | Inr ch \<Rightarrow> length (join_with [CHR 0x0A] (rev ch)) \<le> budget"
  using assms
proof (induction budget lines chosen used rule: diagnostic_scan.induct)
  case (2 budget line lines chosen used)
  have "length (join_with [CHR 0x0A] (rev (chosen @ [line]))) = used + ((if chosen = [] then 0 else 1) + length line)"
    using 2(3) unfolding length_join_snoc by simp
  then show ?case using 2 length_clip [of line budget] by (auto simp: Let_def)
qed simp

lemma length_diagnostic_section: "length (diagnostic_section lines budget) \<le> budget"
  using length_diagnostic_scan [of 0 "[]" budget "rev lines"]
  by (auto simp: diagnostic_section_def split: sum.splits)

lemma length_shrink: "length (shrink_evidence t) \<le> MAX_STORED"
proof (cases "length (truncation_marker (length t)) \<ge> MAX_STORED")
  case True
  then show ?thesis using length_prefix_within by (simp add: shrink_evidence_def Let_def)
next
  case False
  define m where "m = truncation_marker (length t)"
  define b where "b = MAX_STORED - length m"
  define d where "d = diagnostic_section (filter is_diagnostic_line (str_lines t)) (b div 2)"
  have d: "length d \<le> b div 2" by (simp add: d_def length_diagnostic_section)
  have "length d + (if d = [] then 0 else 1) \<le> b"
  proof (cases "d = []")
    case False
    then have "0 < length d" by simp
    with d have "Suc (length d) \<le> b" by linarith
    with False show ?thesis by simp
  qed simp
  then have "length d + (if d = [] then 0 else 1) + length (suffix_within t (b - (length d + (if d = [] then 0 else 1)))) \<le> b"
    using length_suffix_within [of t "b - (length d + (if d = [] then 0 else 1))"] by linarith
  moreover have "shrink_evidence t = (if d = [] then [] else d @ [CHR 0x0A]) @ m @
      suffix_within t (b - (length d + (if d = [] then 0 else 1)))"
    using False by (simp add: shrink_evidence_def Let_def m_def [symmetric] b_def [symmetric] d_def [symmetric])
  moreover have "length m < MAX_STORED" using False by (simp add: m_def)
  ultimately show ?thesis by (cases "d = []") (simp_all add: b_def)
qed

lemma infix_free: "\<exists>a b. t = a @ x @ b \<Longrightarrow> \<not> str_contains t p \<Longrightarrow> \<not> str_contains x p"
  using contains_infix by blast

lemma str_lines_infix: "l \<in> set (str_lines t) \<Longrightarrow> \<exists>a b. t = a @ l @ b"
proof -
  assume "l \<in> set (str_lines t)"
  then obtain w where w: "w \<in> set (split_on CHR 0x0A t)" and l: "l = strip_cr w"
    by (auto simp: str_lines_def Let_def split: if_splits dest: in_set_butlastD)
  obtain xs ys where xy: "split_on CHR 0x0A t = xs @ w # ys" using split_list [OF w] by blast
  have join: "\<exists>a b. join_with [d] (xs @ w # ys) = a @ w @ b" for d :: char
  proof (induction xs)
    case Nil
    show ?case by (cases ys) (auto intro: exI [of _ "[]"])
  next
    case (Cons x xs)
    then obtain a b where "join_with [d] (xs @ w # ys) = a @ w @ b" by blast
    then have "join_with [d] ((x # xs) @ w # ys) = (x @ d # a) @ w @ b" by (cases xs) auto
    then show ?case by blast
  qed
  then obtain a b where t: "t = a @ w @ b" using join_split_on [of "CHR 0x0A" t] xy by metis
  show ?thesis
  proof (cases "w \<noteq> [] \<and> last w = CHR 0x0D")
    case True
    then have "w = l @ [CHR 0x0D]" using l by (simp add: strip_cr_def) (metis append_butlast_last_id)
    then have "t = a @ l @ (CHR 0x0D # b)" using t by simp
    then show ?thesis by blast
  next
    case False
    then show ?thesis using t l by (auto simp: strip_cr_def)
  qed
qed

lemma clip_infix: "\<exists>a b. line = a @ clip_diagnostic_line line budget @ b"
proof -
  have "\<exists>a b. line = a @ prefix_within (drop n line) budget @ b" for n
    using prefix_within_infix [of "drop n line" budget] by (metis append_take_drop_id)
  moreover have "\<exists>a b. line = a @ suffix_within line budget @ b"
    using suffix_within_infix [of line budget] by (metis append_Nil2)
  moreover have "\<exists>a b. line = a @ [] @ b" "\<exists>a b. line = a @ line @ b"
    by (auto intro: exI [of _ "[]"])
  ultimately show ?thesis
    by (auto simp: clip_diagnostic_line_def Let_def split: option.splits)
qed

lemma join_lines_free:
  "bracket_free p \<Longrightarrow> (\<And>w. w \<in> set ws \<Longrightarrow> \<not> str_contains w p) \<Longrightarrow>
     \<not> str_contains (join_with [CHR 0x0A] ws) p"
proof (induction "[CHR 0x0A]" ws rule: join_with.induct)
  case 1
  then show ?case by (auto simp: bracket_free_def starts_with_def)
next
  case (3 x y ys)
  then show ?case using contains_barrier [of "CHR 0x0A" p x] by (simp add: bracket_free_def)
qed simp

lemma diagnostic_scan_free:
  assumes "bracket_free p" and "\<And>l. l \<in> set lines \<union> set chosen \<Longrightarrow> \<not> str_contains l p"
  shows "case diagnostic_scan budget lines chosen used of
     Inl c \<Rightarrow> \<not> str_contains c p | Inr ch \<Rightarrow> \<forall>l \<in> set ch. \<not> str_contains l p"
  using assms
proof (induction budget lines chosen used rule: diagnostic_scan.induct)
  case (2 budget line lines chosen used)
  have "\<not> str_contains (clip_diagnostic_line line budget) p"
    using infix_free [OF clip_infix] 2(4) by simp
  then show ?case using 2 by (auto simp: Let_def)
qed simp

lemma diagnostic_section_free:
  assumes "bracket_free p" and "\<And>l. l \<in> set lines \<Longrightarrow> \<not> str_contains l p"
  shows "\<not> str_contains (diagnostic_section lines budget) p"
proof (cases "diagnostic_scan budget (rev lines) [] 0")
  case (Inl c)
  then show ?thesis
    using diagnostic_scan_free [of p "rev lines" "[]" budget 0] assms
    by (auto simp: diagnostic_section_def bracket_free_def starts_with_def)
next
  case (Inr ch)
  then have "\<not> str_contains (join_with [CHR 0x0A] (rev ch)) p"
    using diagnostic_scan_free [of p "rev lines" "[]" budget 0] assms by (intro join_lines_free) auto
  then show ?thesis using Inr assms(1) by (auto simp: diagnostic_section_def bracket_free_def starts_with_def)
qed

text \<open>Letters a pattern needs and the marker lacks.\<close>

lemma marker_free:
  assumes "bracket_free p" and "set p \<inter> {CHR ''-'', CHR ''_'', CHR ''B''} \<noteq> {}"
  shows "\<not> str_contains (truncation_marker n @ t) p \<longleftrightarrow> \<not> str_contains t p"
proof -
  have p: "p \<noteq> []" "CHR ''['' \<notin> set p" "CHR '']'' \<notin> set p" "CHR 0xE2 \<notin> set p" "CHR 0x80 \<notin> set p" "CHR 0xA6 \<notin> set p"
    using assms(1) by (simp_all add: bracket_free_def)
  define w where "w = ''truncated '' @ show_nat n @ '' bytes''"
  have d: "list_all is_ascii_digit (show_nat n)" using show_nat_digits by simp
  have "CHR ''-'' \<notin> set w" "CHR ''_'' \<notin> set w" "CHR ''B'' \<notin> set w"
    using d by (auto simp: w_def list_all_iff ascii_defs)
  then have "\<not> str_contains w p" using assms(2) not_contains_char by blast
  moreover have "truncation_marker n @ t =
      CHR 0xE2 # CHR 0x80 # CHR 0xA6 # CHR ''['' # (w @ CHR '']'' # CHR 0xE2 # CHR 0x80 # CHR 0xA6 # t)"
    by (simp add: truncation_marker_def ELLIPSIS_def w_def)
  ultimately show ?thesis
    by (simp only: barrier_front [OF p(4,1)] barrier_front [OF p(5,1)] barrier_front [OF p(6,1)]
        barrier_front [OF p(2,1)] contains_barrier [OF p(3,1)] simp_thms)
qed

lemma shrink_free:
  assumes p: "bracket_free p" "set p \<inter> {CHR ''-'', CHR ''_'', CHR ''B''} \<noteq> {}" and t: "\<not> str_contains t p"
  shows "\<not> str_contains (shrink_evidence t) p"
proof -
  have tail: "\<not> str_contains (suffix_within t n) p" for n
    using suffix_within_infix [of t n] t by (metis append_Nil2 infix_free)
  have diag: "\<not> str_contains (diagnostic_section (filter is_diagnostic_line (str_lines t)) n) p" for n
    using infix_free [OF str_lines_infix] t p(1) by (intro diagnostic_section_free) auto
  have "\<not> str_contains ([] :: string) p" using p(1) by (auto simp: bracket_free_def starts_with_def)
  then have m: "\<not> str_contains (truncation_marker n) p" for n
    using marker_free [OF p, of n "[]"] by simp
  have nl: "CHR 0x0A \<notin> set p" "p \<noteq> []" using p(1) by (simp_all add: bracket_free_def)
  have "\<not> str_contains (prefix_within (truncation_marker n) k) p" for n k
    using prefix_within_infix [of "truncation_marker n" k] m by (metis append_Nil infix_free)
  moreover have "\<not> str_contains (d @ CHR 0x0A # truncation_marker n @ x) p"
    if "\<not> str_contains d p" "\<not> str_contains x p" for d x n
    using that contains_barrier [OF nl] marker_free [OF p] by blast
  ultimately show ?thesis
    using tail diag marker_free [OF p] by (simp add: shrink_evidence_def Let_def)
qed

text \<open>
  C32. Redacted text carries no secret and is bounded: none of the markers of a private key, a
  GitHub token, a bearer token or an API key occurs anywhere in it, however the text was cut;
  a text that was not cut holds no \<open>sk-\<close> key of 40 or more characters; and at most 2051 bytes
  are stored.
\<close>

theorem redact_removes_secrets:
  "(\<forall>p \<in> {''-----BEGIN'', ''ghp_'', ''Bearer '', ''api_key=''}. \<not> str_contains (redact input) p) \<and>
   length (redact input) \<le> 2051 \<and>
   (length (redact_patterns input) \<le> 2048 \<longrightarrow>
      (\<forall>a k b. redact input = a @ ''sk-'' @ k @ b \<and> list_all is_ascii_alphanumeric k \<and> length k = 40 \<longrightarrow>
         a \<noteq> [] \<and> is_ascii_alphanumeric (last a)))"
proof (intro conjI impI allI ballI)
  fix p assume p: "p \<in> {''-----BEGIN'', ''ghp_'', ''Bearer '', ''api_key=''}"
  then have m: "p \<in> set plain_patterns" by (auto simp: plain_patterns_def)
  have "set p \<inter> {CHR ''-'', CHR ''_'', CHR ''B''} \<noteq> {}" using p by auto
  then show "\<not> str_contains (redact input) p"
    using shrink_free redact_patterns_free [OF m] plain_pattern_ok [OF m] by (simp add: redact_def Let_def)
next
  show "length (redact input) \<le> 2051"
    using length_shrink [of "redact_patterns input"] by (auto simp: redact_def Let_def CAP_def MAX_STORED_def)
next
  fix a k b
  assume short: "length (redact_patterns input) \<le> 2048"
    and key: "redact input = a @ ''sk-'' @ k @ b \<and> list_all is_ascii_alphanumeric k \<and> length k = 40"
  have found: "has_sk_key before (a' @ ''sk-'' @ k @ b)"
    if "if a' = [] then \<not> before else \<not> is_ascii_alphanumeric (last a')" for a' before
    using that
  proof (induction a' arbitrary: before)
    case Nil
    then have "sk_key_len before (''sk-'' @ k @ b) \<noteq> None"
      using key unfolding sk_key_len_iff SK_MIN_KEY_CHARS_def by auto
    then show ?case by simp
  next
    case (Cons c a')
    then show ?case by (cases a') auto
  qed
  have "\<not> has_sk_key False (redact input)"
    using short redact_patterns_no_key by (simp add: redact_def Let_def CAP_def)
  then have "\<not> has_sk_key False (a @ ''sk-'' @ k @ b)" using key by metis
  then have "a \<noteq> [] \<and> is_ascii_alphanumeric (last a)" using found [of a False] by presburger
  then show "a \<noteq> []" "is_ascii_alphanumeric (last a)" by simp_all
qed

theorem redact_removes_secrets_witness:
  "redact ''token ghp_abc and task-1'' = ''token [REDACTED]abc and task-1'' \<and>
   \<not> str_contains (redact ''token ghp_abc and task-1'') ''ghp_''"
proof -
  have "redact ''token ghp_abc and task-1'' = ''token [REDACTED]abc and task-1''" by code_simp
  then show ?thesis using redact_removes_secrets [of "''token ghp_abc and task-1''"] by simp
qed

end
