(* ===== verification/Adapter_Ledger.thy ===== *)
theory Adapter_Ledger
  imports Adapter_Store Domain_Workspace
begin

text \<open>
  The lifecycle ledger of \<open>meshloop-adapters/src/workspace/ledger.rs\<close> and the helpers of
  \<open>workspace/runtime.rs\<close> that its guarded operations share.

  The database is a record of tables, every table a list of rows in \<open>rowid\<close> order. The JSON
  payload of a row is the record it encodes. \<open>INSERT\<close> checks the keys, unique indexes, check
  constraints and foreign keys that \<open>workspace/schema.rs\<close> declares; an operation that returns
  an error rolled its transaction back, so it returns no new ledger. Runs, attempts and events
  live in the store of \<open>Adapter_Store\<close>, which is a part of the ledger; the columns that the
  lifecycle migration adds to \<open>attempts\<close> and \<open>events\<close> are separate tables here.

  A \<open>fence\<close> is the proof of repository ownership a caller presents, together with what the
  file system answers about the database file during the call.
\<close>

section \<open>Tables\<close>

record fence =
  fn_repository :: repository_record
  fn_validate :: "store_error + unit"
  fn_ledger_identity :: native_identity
  fn_root :: "root_alias \<Rightarrow> store_error + root_record"
  fn_verify_handle :: "store_error + unit"
  fn_file_identity :: "store_error + native_identity"

record plan_revision_snapshot =
  sn_metadata :: plan_revision
  sn_plan_json :: string

record attempt_metadata =
  am_attempt_id :: attempt_id
  am_artifact_id :: lifecycle_id
  am_location :: portable_location
  am_process :: "process_identity option"

record ledger =
  lg_store :: sqlite_store
  lg_database_identity :: "native_identity option"
  lg_repositories :: "(repository_record \<times> native_identity) list"
  lg_roots :: "(root_alias \<times> root_record) list"
  lg_generations :: "generation_record list"
  lg_artifacts :: "(artifact_record \<times> lifecycle_id) list"
  lg_dependencies :: "artifact_dependency list"
  lg_facts :: "lifecycle_fact list"
  lg_journal :: "journal_entry list"
  lg_bindings :: "run_binding list"
  lg_provisionals :: "provisional_owner list"
  lg_revisions :: "plan_revision_snapshot list"
  lg_authorizations :: "revision_authorization list"
  lg_generation_revisions :: "(lifecycle_id \<times> lifecycle_id) list"
  lg_promotions :: "provisional_promotion list"
  lg_operations :: "(producer_operation \<times> bool) list"
  lg_steps :: "operation_step list"
  lg_drivers :: "driver_record list"
  lg_requests :: "(cancellation_request \<times> cancellation_status) list"
  lg_artifact_bindings :: "artifact_binding list"
  lg_next_attempt :: nat
  lg_attempt_scopes :: "(attempt_id \<times> lifecycle_id \<times> lifecycle_id) list"
  lg_attempt_metadata :: "attempt_metadata list"
  lg_event_scopes :: "(lifecycle_id \<times> lifecycle_id) option list"

text \<open>\<open>refused\<close> of \<open>workspace.rs\<close> and \<open>sql_error\<close> of \<open>ledger.rs\<close>.\<close>

definition refused :: store_error where
  "refused = Corrupt ''workspace identity or authority is unavailable, conflicting, or unsupported''"

definition ledger_error :: store_error where
  "ledger_error = Corrupt ''workspace ledger operation or constraint failed''"

definition require :: "bool \<Rightarrow> 'e \<Rightarrow> 'e + unit" where
  "require c e = (if c then Inr () else Inl e)"

definition ok_or :: "'a option \<Rightarrow> 'e \<Rightarrow> 'e + 'a" where
  "ok_or v e = (case v of Some x \<Rightarrow> Inr x | None \<Rightarrow> Inl e)"

definition find_by :: "('r \<Rightarrow> 'k) \<Rightarrow> 'k \<Rightarrow> 'r list \<Rightarrow> 'r option" where
  "find_by key k rows = List.find (\<lambda>r. key r = k) rows"

definition has_key :: "('r \<Rightarrow> 'k) \<Rightarrow> 'k \<Rightarrow> 'r list \<Rightarrow> bool" where
  "has_key key k rows \<longleftrightarrow> list_ex (\<lambda>r. key r = k) rows"

text \<open>One row inserted: \<open>ok\<close> collects the constraints other than the primary key.\<close>

definition insert_row :: "store_error \<Rightarrow> ('r \<Rightarrow> 'k) \<Rightarrow> bool \<Rightarrow> 'r \<Rightarrow> 'r list \<Rightarrow> store_error + 'r list" where
  "insert_row e key ok row rows =
     (if ok \<and> \<not> has_key key (key row) rows then Inr (rows @ [row]) else Inl e)"

lemma require_simps [simp]:
  "require c e = Inr u \<longleftrightarrow> c"
  "require c e = Inl e' \<longleftrightarrow> \<not> c \<and> e' = e"
  by (auto simp: require_def)

lemma ok_or_simps [simp]:
  "ok_or v e = Inr x \<longleftrightarrow> v = Some x"
  "ok_or v e = Inl e' \<longleftrightarrow> v = None \<and> e' = e"
  by (auto simp: ok_or_def split: option.splits)

lemma insert_row_Inr:
  "insert_row e key ok row rows = Inr rows' \<longleftrightarrow> ok \<and> key row \<notin> key ` set rows \<and> rows' = rows @ [row]"
  by (auto simp: insert_row_def has_key_def list_ex_iff) (metis image_eqI)

lemma has_key_iff: "has_key key k rows \<longleftrightarrow> k \<in> key ` set rows"
  by (auto simp: has_key_def list_ex_iff)

lemma find_by_Some: "find_by key k rows = Some r \<Longrightarrow> r \<in> set rows \<and> key r = k"
  by (auto simp: find_by_def find_Some_iff in_set_conv_nth)

lemma find_by_distinct:
  assumes "distinct (map key rows)" and "r \<in> set rows"
  shows "find_by key (key r) rows = Some r"
proof -
  obtain x where x: "find_by key (key r) rows = Some x"
    using assms(2) by (cases "find_by key (key r) rows") (auto simp: find_by_def find_None_iff)
  then have "x \<in> set rows" "key x = key r" using find_by_Some by force+
  with assms x show ?thesis by (auto simp: distinct_map inj_on_def)
qed

lemma find_by_None: "find_by key k rows = None \<longleftrightarrow> k \<notin> key ` set rows"
  by (auto simp: find_by_def find_None_iff)

lemma find_by_append: "find_by key k (rows @ more_rows) =
    (case find_by key k rows of Some r \<Rightarrow> Some r | None \<Rightarrow> find_by key k more_rows)"
  by (induction rows) (auto simp: find_by_def)

section \<open>The fence\<close>

definition repository_row :: "ledger \<Rightarrow> lifecycle_id \<Rightarrow> (repository_record \<times> native_identity) option" where
  "repository_row lg i = find_by (\<lambda>r. rr_id (fst r)) i (lg_repositories lg)"

definition validate_fence :: "ledger \<Rightarrow> fence \<Rightarrow> bool \<Rightarrow> store_error + unit" where
  "validate_fence lg f bound =
     (if db_read_only (lg_store lg) then Inl ReadOnly
      else
        try_res (fn_validate f) (\<lambda>_.
        try_res (fn_verify_handle f) (\<lambda>_.
        try_res (require (lg_database_identity lg = Some (fn_ledger_identity f)) refused) (\<lambda>_.
        try_res (fn_file_identity f) (\<lambda>file.
        try_res (require (file = fn_ledger_identity f) refused) (\<lambda>_.
          if bound then
            try_res (ok_or (repository_row lg (rr_id (fn_repository f))) refused) (\<lambda>(r, l).
            try_res (require (r = fn_repository f) refused) (\<lambda>_.
              require (l = fn_ledger_identity f) refused))
          else Inr ()))))))"

definition artifact_row :: "ledger \<Rightarrow> lifecycle_id \<Rightarrow> (artifact_record \<times> lifecycle_id) option" where
  "artifact_row lg i = find_by (\<lambda>r. ar_id (fst r)) i (lg_artifacts lg)"

definition owned_artifact :: "ledger \<Rightarrow> fence \<Rightarrow> lifecycle_id \<Rightarrow> store_error + unit" where
  "owned_artifact lg f i =
     require (list_ex (\<lambda>(r, repo). ar_id r = i \<and> repo = rr_id (fn_repository f)) (lg_artifacts lg)) refused"

definition repository_exists :: "ledger \<Rightarrow> lifecycle_id \<Rightarrow> bool" where
  "repository_exists lg i = has_key (\<lambda>r. rr_id (fst r)) i (lg_repositories lg)"

definition root_exists :: "ledger \<Rightarrow> lifecycle_id \<Rightarrow> root_alias \<Rightarrow> bool" where
  "root_exists lg repo alias = has_key (\<lambda>(a, r). (ro_repository_id r, a)) (repo, alias) (lg_roots lg)"

definition run_exists :: "ledger \<Rightarrow> graph_ident \<Rightarrow> bool" where
  "run_exists lg g = has_key rd_graph_id g (db_runs (lg_store lg))"

definition attempt_exists :: "ledger \<Rightarrow> attempt_id \<Rightarrow> bool" where
  "attempt_exists lg a = has_key at_attempt_id a (db_attempts (lg_store lg))"

definition artifact_exists :: "ledger \<Rightarrow> lifecycle_id \<Rightarrow> bool" where
  "artifact_exists lg i = has_key (\<lambda>r. ar_id (fst r)) i (lg_artifacts lg)"

section \<open>Ledger operations\<close>

definition bind_repository :: "fence \<Rightarrow> ledger \<Rightarrow> store_error + ledger" where
  "bind_repository f lg =
     try_res (validate_fence lg f False) (\<lambda>_.
       let r = fn_repository f
       in case lg_repositories lg of
            (existing, l) # _ \<Rightarrow>
              try_res (require (rr_id existing = rr_id r \<and>
                  rr_common_dir_identity existing = rr_common_dir_identity r \<and>
                  l = fn_ledger_identity f) refused) (\<lambda>_. Inr lg)
          | [] \<Rightarrow> Inr (lg\<lparr>lg_repositories := [(r, fn_ledger_identity f)]\<rparr>))"

definition repository :: "ledger \<Rightarrow> lifecycle_id \<Rightarrow> repository_record option" where
  "repository lg i = map_option fst (repository_row lg i)"

definition register_root :: "fence \<Rightarrow> root_alias \<Rightarrow> ledger \<Rightarrow> store_error + ledger" where
  "register_root f alias lg =
     try_res (validate_fence lg f True) (\<lambda>_.
     try_res (fn_root f alias) (\<lambda>r.
       case find_by (\<lambda>(a, x). (ro_repository_id x, a)) (ro_repository_id r, alias) (lg_roots lg) of
         Some (_, existing) \<Rightarrow> try_res (require (existing = r) refused) (\<lambda>_. Inr lg)
       | None \<Rightarrow>
           if repository_exists lg (ro_repository_id r)
           then Inr (lg\<lparr>lg_roots := lg_roots lg @ [(alias, r)]\<rparr>) else Inl ledger_error))"

definition generation :: "ledger \<Rightarrow> lifecycle_id \<Rightarrow> generation_record option" where
  "generation lg i = find_by gn_id i (lg_generations lg)"

definition generations :: "ledger \<Rightarrow> lifecycle_id \<Rightarrow> graph_ident \<Rightarrow> generation_record list" where
  "generations lg repo g =
     sort_key gn_ordinal (filter (\<lambda>r. gn_repository_id r = repo \<and> gn_graph_id r = g) (lg_generations lg))"

text \<open>The row checks of \<open>workspace_generations\<close>.\<close>

definition generation_row_ok :: "ledger \<Rightarrow> generation_record \<Rightarrow> bool" where
  "generation_row_ok lg g \<longleftrightarrow>
     repository_exists lg (gn_repository_id g) \<and> run_exists lg (gn_graph_id g) \<and> gn_ordinal g > 0 \<and>
     root_exists lg (gn_repository_id g) (gn_root_alias g) \<and>
     \<not> has_key (\<lambda>r. (gn_repository_id r, gn_graph_id r, gn_ordinal r))
        (gn_repository_id g, gn_graph_id g, gn_ordinal g) (lg_generations lg)"

definition insert_generation_row :: "store_error \<Rightarrow> generation_record \<Rightarrow> ledger \<Rightarrow> store_error + ledger" where
  "insert_generation_row e g lg =
     try_res (insert_row e gn_id (generation_row_ok lg g) g (lg_generations lg)) (\<lambda>rows.
       Inr (lg\<lparr>lg_generations := rows\<rparr>))"

definition insert_generation :: "fence \<Rightarrow> generation_record \<Rightarrow> ledger \<Rightarrow> store_error + ledger" where
  "insert_generation f g lg =
     try_res (validate_fence lg f True) (\<lambda>_.
     try_res (require (gn_repository_id g = rr_id (fn_repository f) \<and> gn_ordinal g \<noteq> 0 \<and>
         gn_layout_version g \<noteq> 0) refused) (\<lambda>_.
     try_res (fn_root f (gn_root_alias g)) (\<lambda>_.
     try_res (require (list_ex (\<lambda>r. rd_graph_id r = gn_graph_id g \<and>
         rd_plan_state r = ''PlanAccepted'' \<and> rd_plan_id r = gn_accepted_plan_hash g)
         (db_runs (lg_store lg))) refused) (\<lambda>_.
       insert_generation_row ledger_error g lg))))"

text \<open>
  The row checks of \<open>workspace_artifacts\<close>: the generation is looked up with its repository.
\<close>

definition artifact_row_ok :: "ledger \<Rightarrow> artifact_record \<Rightarrow> lifecycle_id \<Rightarrow> bool" where
  "artifact_row_ok lg a repo \<longleftrightarrow>
     (case ar_attempt_id a of None \<Rightarrow> True | Some i \<Rightarrow> attempt_exists lg i) \<and>
     has_key (\<lambda>g. (gn_id g, gn_repository_id g)) (ar_generation_id a, repo) (lg_generations lg) \<and>
     root_exists lg repo (ar_root_alias a)"

definition insert_artifact_row ::
  "store_error \<Rightarrow> artifact_record \<Rightarrow> lifecycle_id \<Rightarrow> ledger \<Rightarrow> store_error + ledger" where
  "insert_artifact_row e a repo lg =
     try_res (insert_row e (\<lambda>r. ar_id (fst r)) (artifact_row_ok lg a repo) (a, repo) (lg_artifacts lg)) (\<lambda>rows.
       Inr (lg\<lparr>lg_artifacts := rows\<rparr>))"

definition insert_one_artifact :: "fence \<Rightarrow> artifact_record \<Rightarrow> ledger \<Rightarrow> store_error + ledger" where
  "insert_one_artifact f a lg =
     try_res (ok_or (generation lg (ar_generation_id a)) refused) (\<lambda>g.
     try_res (require (gn_repository_id g = rr_id (fn_repository f) \<and> ar_root_alias a = gn_root_alias g \<and>
         ((ar_kind a = Kind_Attempt) = (ar_attempt_id a \<noteq> None))) refused) (\<lambda>_.
     try_res (require (case ar_attempt_id a of
           None \<Rightarrow> True
         | Some i \<Rightarrow> list_ex (\<lambda>r. at_attempt_id r = i \<and> at_graph_id r = gn_graph_id g)
             (db_attempts (lg_store lg))) refused) (\<lambda>_.
       insert_artifact_row ledger_error a (gn_repository_id g) lg)))"

definition insert_one_dependency :: "fence \<Rightarrow> artifact_dependency \<Rightarrow> ledger \<Rightarrow> store_error + ledger" where
  "insert_one_dependency f d lg =
     (let owned = length (filter (\<lambda>(r, repo).
            (ar_id r = dp_artifact_id d \<or> ar_id r = dp_requires_artifact_id d) \<and>
            repo = rr_id (fn_repository f)) (lg_artifacts lg))
      in try_res (require (owned = 2) refused) (\<lambda>_.
         try_res (insert_row ledger_error (\<lambda>r. (dp_artifact_id r, dp_requires_artifact_id r))
           (dp_artifact_id d \<noteq> dp_requires_artifact_id d \<and> artifact_exists lg (dp_artifact_id d) \<and>
            artifact_exists lg (dp_requires_artifact_id d)) d (lg_dependencies lg)) (\<lambda>rows.
           Inr (lg\<lparr>lg_dependencies := rows\<rparr>))))"

text \<open>A fallible step for each element, stopping at the first error.\<close>

fun for_each :: "('x \<Rightarrow> 's \<Rightarrow> 'e + 's) \<Rightarrow> 'x list \<Rightarrow> 's \<Rightarrow> 'e + 's" where
  "for_each step [] s = Inr s"
| "for_each step (x # xs) s = try_res (step x s) (\<lambda>s'. for_each step xs s')"

definition insert_artifacts ::
  "fence \<Rightarrow> artifact_record list \<Rightarrow> artifact_dependency list \<Rightarrow> ledger \<Rightarrow> store_error + ledger" where
  "insert_artifacts f records dependencies lg =
     try_res (validate_fence lg f True) (\<lambda>_.
     try_res (for_each (\<lambda>r u. try_res (fn_root f (ar_root_alias r)) (\<lambda>_. Inr u)) records ()) (\<lambda>_.
     try_res (for_each (insert_one_artifact f) records lg) (\<lambda>lg'.
       for_each (insert_one_dependency f) dependencies lg')))"

definition artifact :: "ledger \<Rightarrow> lifecycle_id \<Rightarrow> artifact_record option" where
  "artifact lg i = map_option fst (artifact_row lg i)"

definition dependencies :: "ledger \<Rightarrow> lifecycle_id \<Rightarrow> artifact_dependency list" where
  "dependencies lg i =
     sort_key dp_requires_artifact_id (filter (\<lambda>d. dp_artifact_id d = i) (lg_dependencies lg))"

definition append_fact :: "fence \<Rightarrow> lifecycle_fact \<Rightarrow> ledger \<Rightarrow> store_error + ledger" where
  "append_fact f x lg =
     try_res (validate_fence lg f True) (\<lambda>_.
     try_res (owned_artifact lg f (lf_artifact_id x)) (\<lambda>_.
     try_res (insert_row ledger_error lf_id (artifact_exists lg (lf_artifact_id x)) x (lg_facts lg)) (\<lambda>rows.
       Inr (lg\<lparr>lg_facts := rows\<rparr>))))"

definition facts_of :: "ledger \<Rightarrow> lifecycle_id \<Rightarrow> lifecycle_fact list" where
  "facts_of lg i = filter (\<lambda>x. lf_artifact_id x = i) (lg_facts lg)"

definition append_journal :: "fence \<Rightarrow> journal_entry \<Rightarrow> ledger \<Rightarrow> store_error + ledger" where
  "append_journal f x lg =
     try_res (validate_fence lg f True) (\<lambda>_.
     try_res (owned_artifact lg f (je_artifact_id x)) (\<lambda>_.
     try_res (insert_row ledger_error je_id (artifact_exists lg (je_artifact_id x)) x (lg_journal lg)) (\<lambda>rows.
       Inr (lg\<lparr>lg_journal := rows\<rparr>))))"

definition journal_of :: "ledger \<Rightarrow> lifecycle_id \<Rightarrow> journal_entry list" where
  "journal_of lg i = filter (\<lambda>x. je_artifact_id x = i) (lg_journal lg)"

end
