(* ===== verification/Adapter_Lifecycle.thy ===== *)
theory Adapter_Lifecycle
  imports Adapter_Ledger
begin

text \<open>
  The runtime lifecycle ledger of \<open>meshloop-adapters/src/workspace/runtime.rs\<close>: run bindings,
  plan revisions and their authorizations, generations, scoped events and attempts, producer
  operations with their steps, drivers, and cancellation requests.

  \<open>ledger_ports\<close> holds what the crate does not define itself: SHA-256, the JSON reader of a
  plan, and petgraph's topological order inside \<open>TaskGraph::validate\<close>. A deferred foreign key
  (\<open>workspace_plan_revisions.generation_id\<close>) is checked by \<open>commit\<close>.
\<close>

record ledger_ports =
  lp_sha256_hex :: "string \<Rightarrow> string"
  lp_parse_plan :: "string \<Rightarrow> task_graph option"
  lp_topo :: topo_port

section \<open>Public text\<close>

fun drive_prefix :: "string \<Rightarrow> bool" where
  "drive_prefix (a # b # c # s) =
     ((is_ascii_alphabetic a \<and> b = CHR '':'' \<and> c = CHR ''/'') \<or> drive_prefix (b # c # s))"
| "drive_prefix _ = False"

text \<open>\<open>split_whitespace\<close>: the maximal pieces without white space, as \<open>trim\<close> reads it.\<close>

function (sequential) ws_words :: "string \<Rightarrow> string \<Rightarrow> string list" where
  "ws_words acc [] = (if acc = [] then [] else [acc])"
| "ws_words acc (c # s) =
     (if ws_len (c # s) = 0 then ws_words (acc @ [c]) s
      else (if acc = [] then [] else [acc]) @ ws_words [] (drop (ws_len (c # s)) (c # s)))"
  by pat_completeness auto
termination by (relation "measure (length \<circ> snd)") auto

definition rooted_word :: "string \<Rightarrow> bool" where
  "rooted_word w \<longleftrightarrow>
     starts_with (dropWhile (\<lambda>c. c = CHR 0x27 \<or> c = CHR 0x22 \<or> c = CHR ''('') w) ''/''"

definition public_text :: "string \<Rightarrow> bool" where
  "public_text v \<longleftrightarrow>
     length v \<le> 4096 \<and> \<not> has_control v \<and> CHR 0x5C \<notin> set v \<and> \<not> drive_prefix v \<and>
     \<not> list_ex rooted_word (ws_words [] v)"

section \<open>Lookups\<close>

definition binding :: "ledger \<Rightarrow> graph_ident \<Rightarrow> store_error + run_binding" where
  "binding lg g = ok_or (find_by rb_graph_id g (lg_bindings lg)) LegacyOwnershipUnresolved"

definition revision_snapshot :: "ledger \<Rightarrow> lifecycle_id \<Rightarrow> plan_revision_snapshot option" where
  "revision_snapshot lg i = find_by (\<lambda>r. pr_id (sn_metadata r)) i (lg_revisions lg)"

definition authorizations :: "ledger \<Rightarrow> lifecycle_id \<Rightarrow> revision_authorization list" where
  "authorizations lg i = filter (\<lambda>a. ra_revision_id a = i) (lg_authorizations lg)"

definition authorized :: "ledger \<Rightarrow> lifecycle_id \<Rightarrow> bool" where
  "authorized lg i \<longleftrightarrow>
     (let records = authorizations lg i
      in records \<noteq> [] \<and> ra_decision (last records) = Revision_Accepted)"

definition run_row_of :: "ledger \<Rightarrow> graph_ident \<Rightarrow> run_db option" where
  "run_row_of lg g = find_by rd_graph_id g (db_runs (lg_store lg))"

text \<open>The guard of every scoped write.\<close>

definition scope_ok ::
  "ledger \<Rightarrow> fence \<Rightarrow> execution_scope \<Rightarrow> lifecycle_id option \<Rightarrow> store_error + unit" where
  "scope_ok lg f s revision =
     try_res (binding lg (xs_graph_id s)) (\<lambda>b.
     try_res (require (xs_repository_id s = rr_id (fn_repository f) \<and>
         rb_repository_id b = xs_repository_id s \<and>
         rb_active_generation b = Some (xs_generation_id s)) refused) (\<lambda>_.
       case revision of
         None \<Rightarrow> Inr ()
       | Some i \<Rightarrow>
           try_res (require (rb_current_revision b = Some i) PlanRevisionMismatch) (\<lambda>_.
           try_res (ok_or (revision_snapshot lg i) PlanRevisionMismatch) (\<lambda>snap.
           try_res (ok_or (run_row_of lg (xs_graph_id s)) persistence_error) (\<lambda>run.
             require (rd_plan_state run = ''PlanAccepted'' \<and>
               rd_plan_id run = pr_plan_hash (sn_metadata snap) \<and>
               rd_plan_json run = sn_plan_json snap \<and> authorized lg i) PlanRevisionMismatch)))))"

section \<open>Revisions\<close>

definition generation_exists :: "ledger \<Rightarrow> lifecycle_id \<Rightarrow> bool" where
  "generation_exists lg i = has_key gn_id i (lg_generations lg)"

definition revision_exists :: "ledger \<Rightarrow> lifecycle_id \<Rightarrow> bool" where
  "revision_exists lg i = has_key (\<lambda>r. pr_id (sn_metadata r)) i (lg_revisions lg)"

definition opt_holds :: "('a \<Rightarrow> bool) \<Rightarrow> 'a option \<Rightarrow> bool" where
  "opt_holds p v = (case v of None \<Rightarrow> True | Some x \<Rightarrow> p x)"

definition plan_matches :: "ledger_ports \<Rightarrow> plan_revision_snapshot \<Rightarrow> bool" where
  "plan_matches lp r \<longleftrightarrow>
     lp_sha256_hex lp (sn_plan_json r) = pr_plan_hash (sn_metadata r) \<and>
     (case lp_parse_plan lp (sn_plan_json r) of
        None \<Rightarrow> False
      | Some g \<Rightarrow> graph_id g = pr_graph_id (sn_metadata r) \<and> validate (lp_topo lp) g = Inr ())"

definition insert_revision ::
  "ledger_ports \<Rightarrow> fence \<Rightarrow> plan_revision_snapshot \<Rightarrow> ledger \<Rightarrow> store_error + ledger" where
  "insert_revision lp f r lg =
     (let m = sn_metadata r
      in try_res (binding lg (pr_graph_id m)) (\<lambda>b.
         try_res (require (rb_repository_id b = rr_id (fn_repository f) \<and>
             pr_repository_id m = rb_repository_id b \<and> plan_matches lp r) PlanRevisionMismatch) (\<lambda>_.
         try_res (case pr_predecessor m of
             None \<Rightarrow> Inr ()
           | Some old \<Rightarrow>
               try_res (ok_or (revision_snapshot lg old) PlanRevisionMismatch) (\<lambda>previous.
                 require (pr_graph_id (sn_metadata previous) = pr_graph_id m \<and>
                   pr_repository_id (sn_metadata previous) = pr_repository_id m) PlanRevisionMismatch)) (\<lambda>_.
         try_res (insert_row persistence_error (\<lambda>x. pr_id (sn_metadata x))
           (repository_exists lg (pr_repository_id m) \<and> opt_holds (revision_exists lg) (pr_predecessor m))
           r (lg_revisions lg)) (\<lambda>rows.
           Inr (lg\<lparr>lg_revisions := rows\<rparr>))))))"

text \<open>The deferred constraint, checked when the transaction commits.\<close>

definition commit :: "ledger \<Rightarrow> store_error + ledger" where
  "commit lg =
     (if list_all (\<lambda>r. opt_holds (generation_exists lg) (pr_generation_id (sn_metadata r))) (lg_revisions lg)
      then Inr lg else Inl persistence_error)"

definition append_revision ::
  "ledger_ports \<Rightarrow> fence \<Rightarrow> plan_revision_snapshot \<Rightarrow> ledger \<Rightarrow> store_error + ledger" where
  "append_revision lp f r lg =
     try_res (validate_fence lg f True) (\<lambda>_. try_res (insert_revision lp f r lg) commit)"

definition insert_authorization ::
  "fence \<Rightarrow> revision_authorization \<Rightarrow> ledger \<Rightarrow> store_error + ledger" where
  "insert_authorization f a lg =
     try_res (ok_or (revision_snapshot lg (ra_revision_id a)) PlanRevisionMismatch) (\<lambda>r.
     try_res (require (pr_repository_id (sn_metadata r) = rr_id (fn_repository f)) refused) (\<lambda>_.
     try_res (if ra_kind a = Auth_InheritedAdr0028 then
         try_res (ok_or (pr_predecessor (sn_metadata r)) PlanRevisionMismatch) (\<lambda>previous.
           require (ra_decision a = Revision_Accepted \<and> authorized lg previous) PlanRevisionMismatch)
       else Inr ()) (\<lambda>_.
     try_res (insert_row persistence_error ra_id (revision_exists lg (ra_revision_id a)) a
         (lg_authorizations lg)) (\<lambda>rows.
       Inr (lg\<lparr>lg_authorizations := rows\<rparr>)))))"

definition authorize_revision ::
  "fence \<Rightarrow> revision_authorization \<Rightarrow> ledger \<Rightarrow> store_error + ledger" where
  "authorize_revision f a lg =
     try_res (validate_fence lg f True) (\<lambda>_. try_res (insert_authorization f a lg) commit)"

section \<open>Bindings and projection\<close>

definition create_run_binding :: "fence \<Rightarrow> run_binding \<Rightarrow> ledger \<Rightarrow> store_error + ledger" where
  "create_run_binding f b lg =
     try_res (validate_fence lg f True) (\<lambda>_.
     try_res (require (\<not> legacy_ownership_unresolved (lg_store lg) (rb_graph_id b))
         LegacyOwnershipUnresolved) (\<lambda>_.
     try_res (fn_root f (pl_root_alias (rb_location b))) (\<lambda>_.
     try_res (require (rb_repository_id b = rr_id (fn_repository f) \<and> rb_active_generation b = None \<and>
         rb_current_revision b = None \<and> rb_layout_version b \<noteq> 0) refused) (\<lambda>_.
     try_res (insert_row persistence_error rb_graph_id
         (run_exists lg (rb_graph_id b) \<and> repository_exists lg (rb_repository_id b) \<and>
          root_exists lg (rb_repository_id b) (pl_root_alias (rb_location b))) b (lg_bindings lg)) (\<lambda>rows.
       Inr (lg\<lparr>lg_bindings := rows,
              lg_store := (lg_store lg)\<lparr>db_bindings := db_bindings (lg_store lg) @ [rb_graph_id b]\<rparr>\<rparr>))))))"

definition set_binding :: "run_binding \<Rightarrow> ledger \<Rightarrow> ledger" where
  "set_binding b lg =
     lg\<lparr>lg_bindings := map (\<lambda>x. if rb_graph_id x = rb_graph_id b then b else x) (lg_bindings lg)\<rparr>"

definition set_plan :: "graph_ident \<Rightarrow> string \<Rightarrow> string \<Rightarrow> string \<Rightarrow> ledger \<Rightarrow> ledger" where
  "set_plan g json hash state lg =
     lg\<lparr>lg_store := (lg_store lg)\<lparr>db_runs := map (\<lambda>r. if rd_graph_id r = g
          then r\<lparr>rd_plan_json := json, rd_plan_id := hash, rd_plan_state := state\<rparr> else r)
        (db_runs (lg_store lg))\<rparr>\<rparr>"

definition projected_state :: "ledger \<Rightarrow> lifecycle_id \<Rightarrow> string" where
  "projected_state lg i = (if authorized lg i then ''PlanAccepted'' else ''AwaitingPlanReview'')"

definition follows_current :: "run_binding \<Rightarrow> plan_revision \<Rightarrow> lifecycle_id \<Rightarrow> bool" where
  "follows_current b m i \<longleftrightarrow> pr_predecessor m = rb_current_revision b \<or> rb_current_revision b = Some i"

definition install_revision :: "run_binding \<Rightarrow> plan_revision_snapshot \<Rightarrow> lifecycle_id \<Rightarrow> ledger \<Rightarrow> ledger" where
  "install_revision b r i lg =
     set_binding (b\<lparr>rb_current_revision := Some i\<rparr>)
       (set_plan (rb_graph_id b) (sn_plan_json r) (pr_plan_hash (sn_metadata r)) (projected_state lg i) lg)"

definition project_revision ::
  "fence \<Rightarrow> graph_ident \<Rightarrow> lifecycle_id \<Rightarrow> ledger \<Rightarrow> store_error + ledger" where
  "project_revision f g i lg =
     try_res (validate_fence lg f True) (\<lambda>_.
     try_res (binding lg g) (\<lambda>b.
     try_res (ok_or (revision_snapshot lg i) PlanRevisionMismatch) (\<lambda>r.
     try_res (require (rb_repository_id b = rr_id (fn_repository f) \<and>
         pr_graph_id (sn_metadata r) = g \<and> pr_repository_id (sn_metadata r) = rb_repository_id b \<and>
         follows_current b (sn_metadata r) i \<and>
         opt_holds (\<lambda>gen. rb_active_generation b = Some gen) (pr_generation_id (sn_metadata r)))
         PlanRevisionMismatch) (\<lambda>_.
       commit (install_revision b r i lg)))))"

definition select_revision ::
  "fence \<Rightarrow> execution_scope \<Rightarrow> lifecycle_id \<Rightarrow> ledger \<Rightarrow> store_error + ledger" where
  "select_revision f s i lg =
     try_res (validate_fence lg f True) (\<lambda>_.
     try_res (scope_ok lg f s None) (\<lambda>_.
     try_res (ok_or (revision_snapshot lg i) PlanRevisionMismatch) (\<lambda>r.
     try_res (require (pr_graph_id (sn_metadata r) = xs_graph_id s \<and>
         pr_repository_id (sn_metadata r) = xs_repository_id s \<and>
         opt_holds (\<lambda>gen. gen = xs_generation_id s) (pr_generation_id (sn_metadata r)))
         PlanRevisionMismatch) (\<lambda>_.
     try_res (binding lg (xs_graph_id s)) (\<lambda>b.
     try_res (require (follows_current b (sn_metadata r) i) PlanRevisionMismatch) (\<lambda>_.
       commit (install_revision b r i lg)))))))"

section \<open>Scopes, events and attempts\<close>

definition resolve_scope ::
  "ledger \<Rightarrow> graph_ident \<Rightarrow> run_scope \<Rightarrow> store_error + execution_scope option" where
  "resolve_scope lg g which =
     (case which of
        LegacyScope \<Rightarrow> Inr None
      | _ \<Rightarrow>
          try_res (binding lg g) (\<lambda>b.
          try_res (case which of
              GenerationScope i \<Rightarrow> Inr i
            | _ \<Rightarrow> ok_or (rb_active_generation b) refused) (\<lambda>i.
          try_res (ok_or (generation lg i) refused) (\<lambda>gen.
          try_res (require (gn_graph_id gen = g \<and> gn_repository_id gen = rb_repository_id b) refused) (\<lambda>_.
            Inr (Some \<lparr>xs_repository_id = rb_repository_id b, xs_graph_id = g, xs_generation_id = i\<rparr>))))))"

definition revision_task ::
  "ledger_ports \<Rightarrow> ledger \<Rightarrow> execution_scope \<Rightarrow> lifecycle_id \<Rightarrow> task_id \<Rightarrow> store_error + unit" where
  "revision_task lp lg s revision task =
     try_res (ok_or (revision_snapshot lg revision) PlanRevisionMismatch) (\<lambda>snap.
     try_res (ok_or (lp_parse_plan lp (sn_plan_json snap)) PlanRevisionMismatch) (\<lambda>g.
       require (pr_repository_id (sn_metadata snap) = xs_repository_id s \<and>
         pr_graph_id (sn_metadata snap) = xs_graph_id s \<and> graph_id g = xs_graph_id s \<and>
         list_ex (\<lambda>n. n_id n = task) (nodes g)) refused))"

definition scoped_attempt_exists ::
  "ledger \<Rightarrow> attempt_id \<Rightarrow> execution_scope \<Rightarrow> lifecycle_id \<Rightarrow> task_id \<Rightarrow> bool" where
  "scoped_attempt_exists lg a s revision task \<longleftrightarrow>
     list_ex (\<lambda>r. at_attempt_id r = a \<and> at_graph_id r = xs_graph_id s \<and> at_task_id r = task)
       (db_attempts (lg_store lg)) \<and>
     (a, xs_generation_id s, revision) \<in> set (lg_attempt_scopes lg)"

record scoped_event =
  se_scope :: execution_scope
  se_revision_id :: lifecycle_id
  se_record :: transition_record

definition insert_event ::
  "ledger_ports \<Rightarrow> fence \<Rightarrow> scoped_event \<Rightarrow> ledger \<Rightarrow> store_error + ledger" where
  "insert_event lp f e lg =
     (let r = se_record e
      in try_res (scope_ok lg f (se_scope e) (Some (se_revision_id e))) (\<lambda>_.
         try_res (revision_task lp lg (se_scope e) (se_revision_id e) (tr_task_id r)) (\<lambda>_.
         try_res (require (opt_holds public_text (tr_reason r) \<and> public_text (tr_executor r)) refused) (\<lambda>_.
         try_res (require (tr_graph_id r = xs_graph_id (se_scope e)) refused) (\<lambda>_.
         try_res (require (opt_holds (\<lambda>a. scoped_attempt_exists lg a (se_scope e) (se_revision_id e)
             (tr_task_id r)) (tr_attempt_id r)) refused) (\<lambda>_.
           Inr (lg\<lparr>lg_store := (lg_store lg)\<lparr>db_events := db_events (lg_store lg) @ [event_row_of r]\<rparr>,
                  lg_event_scopes := lg_event_scopes lg @
                    [Some (xs_generation_id (se_scope e), se_revision_id e)]\<rparr>)))))))"

definition append_scoped_event ::
  "ledger_ports \<Rightarrow> fence \<Rightarrow> scoped_event \<Rightarrow> ledger \<Rightarrow> store_error + ledger" where
  "append_scoped_event lp f e lg =
     try_res (validate_fence lg f True) (\<lambda>_. try_res (insert_event lp f e lg) commit)"

section \<open>Operations\<close>

definition driver_repo :: "driver_target \<Rightarrow> lifecycle_id" where
  "driver_repo t =
     (case t of DriverExecution s \<Rightarrow> xs_repository_id s | DriverProvisional repository_id _ \<Rightarrow> repository_id)"

definition operation_target_ok :: "ledger \<Rightarrow> producer_operation \<Rightarrow> bool" where
  "operation_target_ok lg p =
     (case op_target p of
        RootBootstrap alias \<Rightarrow>
          op_kind p = Prod_BootstrapRoot \<and> op_generation_id p = None \<and> op_graph_id p = None \<and>
          map_option pl_root_alias (es_location (op_after p)) = Some alias
      | TargetProvisional i \<Rightarrow>
          (case find_by po_id i (lg_provisionals lg) of
             None \<Rightarrow> False
           | Some w \<Rightarrow> po_repository_id w = op_repository_id p \<and> po_graph_id w = op_graph_id p \<and>
               op_generation_id p = None)
      | TargetArtifact i \<Rightarrow>
          (case artifact_row lg i of
             None \<Rightarrow> False
           | Some (a, _) \<Rightarrow> op_generation_id p = Some (ar_generation_id a))
      | TargetDriver i \<Rightarrow>
          (case find_by dv_id i (lg_drivers lg) of
             None \<Rightarrow> False
           | Some d \<Rightarrow> driver_repo (dv_target d) = op_repository_id p))"

definition pending_claim :: "ledger \<Rightarrow> lifecycle_id \<Rightarrow> producer_target \<Rightarrow> bool" where
  "pending_claim lg repo target \<longleftrightarrow>
     list_ex (\<lambda>(p, pending). pending \<and> op_repository_id p = repo \<and> op_target p = target) (lg_operations lg)"

definition insert_operation :: "fence \<Rightarrow> producer_operation \<Rightarrow> ledger \<Rightarrow> store_error + ledger" where
  "insert_operation f p lg =
     try_res (require (op_repository_id p = rr_id (fn_repository f) \<and> op_max_steps p \<noteq> 0 \<and>
         op_max_steps p \<le> 256) refused) (\<lambda>_.
     try_res (case op_generation_id p of
         None \<Rightarrow> Inr ()
       | Some i \<Rightarrow>
           try_res (ok_or (generation lg i) refused) (\<lambda>g.
             require (gn_repository_id g = op_repository_id p \<and> op_graph_id p = Some (gn_graph_id g)) refused)) (\<lambda>_.
     try_res (require (operation_target_ok lg p) refused) (\<lambda>_.
     try_res (insert_row persistence_error (\<lambda>r. op_id (fst r))
         (repository_exists lg (op_repository_id p) \<and> \<not> pending_claim lg (op_repository_id p) (op_target p))
         (p, True) (lg_operations lg)) (\<lambda>rows.
       Inr (lg\<lparr>lg_operations := rows\<rparr>)))))"

definition append_operation :: "fence \<Rightarrow> producer_operation \<Rightarrow> ledger \<Rightarrow> store_error + ledger" where
  "append_operation f p lg =
     try_res (validate_fence lg f True) (\<lambda>_. try_res (insert_operation f p lg) commit)"

definition operations :: "ledger \<Rightarrow> lifecycle_id \<Rightarrow> execution_scope option \<Rightarrow> producer_operation list" where
  "operations lg repo s =
     filter (\<lambda>p. opt_holds (\<lambda>x. op_repository_id p = xs_repository_id x \<and>
         op_graph_id p = Some (xs_graph_id x) \<and> op_generation_id p = Some (xs_generation_id x)) s)
       (filter (\<lambda>p. op_repository_id p = repo) (map fst (lg_operations lg)))"

definition steps_of :: "ledger \<Rightarrow> lifecycle_id \<Rightarrow> operation_step list" where
  "steps_of lg i = filter (\<lambda>s. os_operation_id s = i) (lg_steps lg)"

definition operation_steps :: "ledger \<Rightarrow> lifecycle_id \<Rightarrow> operation_step list" where
  "operation_steps lg i = sort_key os_step (steps_of lg i)"

definition close_operation :: "lifecycle_id \<Rightarrow> ledger \<Rightarrow> ledger" where
  "close_operation i lg =
     lg\<lparr>lg_operations := map (\<lambda>(p, pending). (p, if op_id p = i then False else pending)) (lg_operations lg)\<rparr>"

definition append_operation_step :: "fence \<Rightarrow> operation_step \<Rightarrow> ledger \<Rightarrow> store_error + ledger" where
  "append_operation_step f s lg =
     try_res (validate_fence lg f True) (\<lambda>_.
     try_res (ok_or (find_by (\<lambda>r. op_id (fst r)) (os_operation_id s) (lg_operations lg)) refused) (\<lambda>(p, pending).
       let n = length (steps_of lg (os_operation_id s))
       in try_res (require (op_repository_id p = rr_id (fn_repository f) \<and> pending) refused) (\<lambda>_.
          try_res (require (n + 1 < 2 ^ 32) persistence_error) (\<lambda>_.
          try_res (require (os_step s = of_nat (n + 1) \<and> os_step s \<le> op_max_steps p \<and>
              \<not> (os_state s = Op_Completed \<and> os_observed s \<noteq> op_after p)) refused) (\<lambda>_.
          try_res (insert_row persistence_error os_id
              (os_step s > 0 \<and> \<not> has_key (\<lambda>x. (os_operation_id x, os_step x))
                (os_operation_id s, os_step s) (lg_steps lg)) s (lg_steps lg)) (\<lambda>rows.
            let lg' = lg\<lparr>lg_steps := rows\<rparr>
            in commit (if os_state s = Op_Blocked \<or> os_step s = op_max_steps p
                 then close_operation (os_operation_id s) lg' else lg')))))))"

section \<open>Activation\<close>

record generation_activation =
  ga_generation :: generation_record
  ga_revision :: plan_revision_snapshot
  ga_authorization :: revision_authorization
  ga_artifacts :: "artifact_record list"
  ga_operations :: "producer_operation list"
  ga_events :: "transition_record list"

definition activation_consistent :: "fence \<Rightarrow> run_binding \<Rightarrow> generation_activation \<Rightarrow> bool" where
  "activation_consistent f b a \<longleftrightarrow>
     (let g = ga_generation a; m = sn_metadata (ga_revision a)
      in rb_repository_id b = rr_id (fn_repository f) \<and> gn_repository_id g = rb_repository_id b \<and>
         gn_root_alias g = pl_root_alias (rb_location b) \<and> gn_layout_version g = rb_layout_version b \<and>
         gn_ordinal g \<noteq> 0 \<and> pr_graph_id m = gn_graph_id g \<and> pr_plan_hash m = gn_accepted_plan_hash g \<and>
         ra_revision_id (ga_authorization a) = pr_id m \<and>
         ra_decision (ga_authorization a) = Revision_Accepted)"

definition ensure_revision ::
  "ledger_ports \<Rightarrow> fence \<Rightarrow> plan_revision_snapshot \<Rightarrow> ledger \<Rightarrow> store_error + ledger" where
  "ensure_revision lp f r lg =
     (case revision_snapshot lg (pr_id (sn_metadata r)) of
        Some existing \<Rightarrow> try_res (require (existing = r) PlanRevisionMismatch) (\<lambda>_. Inr lg)
      | None \<Rightarrow> insert_revision lp f r lg)"

definition ensure_authorization ::
  "fence \<Rightarrow> revision_authorization \<Rightarrow> ledger \<Rightarrow> store_error + ledger" where
  "ensure_authorization f a lg =
     (case find_by ra_id (ra_id a) (lg_authorizations lg) of
        Some existing \<Rightarrow> try_res (require (existing = a) PlanRevisionMismatch) (\<lambda>_. Inr lg)
      | None \<Rightarrow> insert_authorization f a lg)"

definition activation_artifact ::
  "generation_record \<Rightarrow> artifact_record \<Rightarrow> ledger \<Rightarrow> store_error + ledger" where
  "activation_artifact g a lg =
     try_res (require (ar_generation_id a = gn_id g \<and> ar_root_alias a = gn_root_alias g \<and>
         ar_attempt_id a = None) refused) (\<lambda>_.
       insert_artifact_row persistence_error a (gn_repository_id g) lg)"

definition activate_generation ::
  "ledger_ports \<Rightarrow> fence \<Rightarrow> generation_activation \<Rightarrow> ledger \<Rightarrow> store_error + ledger" where
  "activate_generation lp f a lg =
     (let g = ga_generation a; i = pr_id (sn_metadata (ga_revision a))
      in try_res (validate_fence lg f True) (\<lambda>_.
         try_res (binding lg (gn_graph_id g)) (\<lambda>b.
         try_res (fn_root f (gn_root_alias g)) (\<lambda>_.
         try_res (require (opt_holds (\<lambda>x. x = i) (rb_current_revision b)) PlanRevisionMismatch) (\<lambda>_.
         try_res (require (activation_consistent f b a) PlanRevisionMismatch) (\<lambda>_.
         try_res (ok_or (run_row_of lg (gn_graph_id g)) persistence_error) (\<lambda>run.
         try_res (require (rd_plan_state run = ''PlanAccepted'' \<and>
             rd_plan_id run = gn_accepted_plan_hash g \<and>
             rd_plan_json run = sn_plan_json (ga_revision a)) PlanRevisionMismatch) (\<lambda>_.
         try_res (ensure_revision lp f (ga_revision a) lg) (\<lambda>lg1.
         try_res (ensure_authorization f (ga_authorization a) lg1) (\<lambda>lg2.
         try_res (require (authorized lg2 i) PlanRevisionMismatch) (\<lambda>_.
         try_res (insert_generation_row persistence_error g lg2) (\<lambda>lg3.
         try_res (insert_row persistence_error fst (revision_exists lg3 i) (gn_id g, i)
             (lg_generation_revisions lg3)) (\<lambda>rows.
         let lg4 = set_binding (b\<lparr>rb_active_generation := Some (gn_id g), rb_current_revision := Some i\<rparr>)
               (lg3\<lparr>lg_generation_revisions := rows\<rparr>)
         in try_res (for_each (activation_artifact g) (ga_artifacts a) lg4) (\<lambda>lg5.
            try_res (for_each (insert_operation f) (ga_operations a) lg5) (\<lambda>lg6.
            try_res (for_each (\<lambda>r. insert_event lp f
                \<lparr>se_scope = \<lparr>xs_repository_id = gn_repository_id g, xs_graph_id = gn_graph_id g,
                   xs_generation_id = gn_id g\<rparr>,
                 se_revision_id = i, se_record = r\<rparr>) (ga_events a) lg6)
              commit)))))))))))))))"

section \<open>Attempts\<close>

record attempt_reservation =
  rs_scope :: execution_scope
  rs_revision_id :: lifecycle_id
  rs_task_id :: task_id
  rs_harness :: "string option"
  rs_model_ref :: "string option"
  rs_artifact :: artifact_record
  rs_spawn_intent :: producer_operation

definition next_attempt_number :: "ledger \<Rightarrow> nat" where
  "next_attempt_number lg =
     max (lg_next_attempt lg) (foldl max 0 (map (\<lambda>r. unat (at_attempt_id r)) (db_attempts (lg_store lg))) + 1)"

definition reservation_consistent :: "generation_record \<Rightarrow> attempt_reservation \<Rightarrow> bool" where
  "reservation_consistent g r \<longleftrightarrow>
     ar_generation_id (rs_artifact r) = gn_id g \<and> ar_root_alias (rs_artifact r) = gn_root_alias g \<and>
     ar_kind (rs_artifact r) = Kind_Attempt \<and> ar_attempt_id (rs_artifact r) = None \<and>
     op_target (rs_spawn_intent r) = TargetArtifact (ar_id (rs_artifact r)) \<and>
     op_generation_id (rs_spawn_intent r) = Some (xs_generation_id (rs_scope r)) \<and>
     op_graph_id (rs_spawn_intent r) = Some (xs_graph_id (rs_scope r)) \<and>
     op_kind (rs_spawn_intent r) = Prod_Spawn"

definition reserved_row :: "attempt_reservation \<Rightarrow> attempt_id \<Rightarrow> attempt_row" where
  "reserved_row r i =
     \<lparr>at_attempt_id = i, at_graph_id = xs_graph_id (rs_scope r), at_task_id = rs_task_id r,
      at_harness = rs_harness r, at_model_ref = rs_model_ref r, at_worktree_path = None,
      at_pid = None, at_image_name = None, at_pane_id = None, at_started_at = None,
      at_ended_at = None, at_outcome = None\<rparr>"

definition reserve_attempt ::
  "ledger_ports \<Rightarrow> fence \<Rightarrow> attempt_reservation \<Rightarrow> ledger \<Rightarrow> store_error + attempt_id \<times> ledger" where
  "reserve_attempt lp f r lg =
     try_res (validate_fence lg f True) (\<lambda>_.
     try_res (fn_root f (ar_root_alias (rs_artifact r))) (\<lambda>_.
     try_res (scope_ok lg f (rs_scope r) (Some (rs_revision_id r))) (\<lambda>_.
     try_res (revision_task lp lg (rs_scope r) (rs_revision_id r) (rs_task_id r)) (\<lambda>_.
     try_res (ok_or (generation lg (xs_generation_id (rs_scope r))) refused) (\<lambda>g.
     try_res (require (reservation_consistent g r) refused) (\<lambda>_.
       let n = next_attempt_number lg; i = of_nat n :: attempt_id;
           art = (rs_artifact r)\<lparr>ar_attempt_id := Some i\<rparr>
       in try_res (require (n < 2 ^ 32) persistence_error) (\<lambda>_.
          try_res (insert_row persistence_error at_attempt_id True (reserved_row r i)
              (db_attempts (lg_store lg))) (\<lambda>rows.
          try_res (insert_artifact_row persistence_error art (gn_repository_id g)
              (lg\<lparr>lg_next_attempt := n + 1,
                 lg_store := (lg_store lg)\<lparr>db_attempts := rows\<rparr>,
                 lg_attempt_scopes := lg_attempt_scopes lg @
                   [(i, xs_generation_id (rs_scope r), rs_revision_id r)]\<rparr>)) (\<lambda>lg1.
          try_res (insert_row persistence_error am_attempt_id
              (\<not> has_key am_artifact_id (ar_id art) (lg_attempt_metadata lg1))
              \<lparr>am_attempt_id = i, am_artifact_id = ar_id art,
               am_location = \<lparr>pl_root_alias = ar_root_alias art, pl_relative_path = ar_relative_path art\<rparr>,
               am_process = None\<rparr> (lg_attempt_metadata lg1)) (\<lambda>meta.
          try_res (insert_operation f (rs_spawn_intent r) (lg1\<lparr>lg_attempt_metadata := meta\<rparr>)) (\<lambda>lg2.
          try_res (commit lg2) (\<lambda>lg3. Inr (i, lg3)))))))))))))"

section \<open>Drivers\<close>

definition driver_target_ok :: "ledger \<Rightarrow> fence \<Rightarrow> driver_record \<Rightarrow> store_error + unit" where
  "driver_target_ok lg f d =
     (case dv_target d of
        DriverExecution s \<Rightarrow> scope_ok lg f s None
      | DriverProvisional _ owner_id \<Rightarrow>
          try_res (ok_or (find_by po_id owner_id (lg_provisionals lg)) refused) (\<lambda>p.
            require (po_repository_id p = rr_id (fn_repository f)) refused))"

definition validate_driver :: "ledger \<Rightarrow> fence \<Rightarrow> driver_record \<Rightarrow> store_error + unit" where
  "validate_driver lg f d =
     try_res (require (driver_repo (dv_target d) = rr_id (fn_repository f)) refused) (\<lambda>_.
     try_res (driver_target_ok lg f d) (\<lambda>_.
       require (\<not> ((dv_phase d = Drv_Running \<or> dv_phase d = Drv_Starting) \<and>
         (case dv_process d of None \<Rightarrow> True | Some p \<Rightarrow> pi_pid p = 0))) refused))"

definition register_driver :: "fence \<Rightarrow> driver_record \<Rightarrow> ledger \<Rightarrow> store_error + ledger" where
  "register_driver f d lg =
     try_res (validate_fence lg f True) (\<lambda>_.
     try_res (validate_driver lg f d) (\<lambda>_.
     try_res (insert_row persistence_error dv_id (repository_exists lg (rr_id (fn_repository f))) d
         (lg_drivers lg)) (\<lambda>rows.
       Inr (lg\<lparr>lg_drivers := rows\<rparr>))))"

definition driver_update_ok :: "driver_record \<Rightarrow> driver_record \<Rightarrow> bool" where
  "driver_update_ok old d \<longleftrightarrow>
     dv_target old = dv_target d \<and> dv_nonce old = dv_nonce d \<and>
     opt_holds (\<lambda>p. Some p = dv_process d) (dv_process old) \<and> dv_heartbeat old \<le> dv_heartbeat d"

definition update_driver :: "fence \<Rightarrow> driver_record \<Rightarrow> ledger \<Rightarrow> store_error + ledger" where
  "update_driver f d lg =
     try_res (validate_fence lg f True) (\<lambda>_.
     try_res (validate_driver lg f d) (\<lambda>_.
     try_res (ok_or (find_by dv_id (dv_id d) (lg_drivers lg)) refused) (\<lambda>old.
     try_res (require (driver_update_ok old d) refused) (\<lambda>_.
       Inr (lg\<lparr>lg_drivers := map (\<lambda>x. if dv_id x = dv_id d then d else x) (lg_drivers lg)\<rparr>)))))"

definition drivers :: "ledger \<Rightarrow> lifecycle_id \<Rightarrow> driver_record list" where
  "drivers lg repo = filter (\<lambda>d. driver_repo (dv_target d) = repo) (lg_drivers lg)"

section \<open>Cancellation\<close>

text \<open>
  \<open>CancellationClient\<close> is a second connection: \<open>validate\<close> checks the files it was opened on,
  and its answer is the argument \<open>client\<close>. When a request id and a selector match two different
  rows, the first row is taken.
\<close>

fun request_driver :: "cancellation_target \<Rightarrow> lifecycle_id" where
  "request_driver (CancelExecution scope driver_id task) = driver_id"
| "request_driver (CancelProvisional repository_id owner_id driver_id) = driver_id"

fun request_repo :: "cancellation_target \<Rightarrow> lifecycle_id" where
  "request_repo (CancelExecution scope driver_id task) = xs_repository_id scope"
| "request_repo (CancelProvisional repository_id owner_id driver_id) = repository_id"

definition request_task_ok :: "ledger_ports \<Rightarrow> ledger \<Rightarrow> execution_scope \<Rightarrow> task_id option \<Rightarrow> store_error + unit" where
  "request_task_ok lp lg s task =
     try_res (binding lg (xs_graph_id s)) (\<lambda>b.
     try_res (require (rb_active_generation b = Some (xs_generation_id s)) refused) (\<lambda>_.
       case task of
         None \<Rightarrow> Inr ()
       | Some t \<Rightarrow>
           try_res (ok_or (run_row_of lg (xs_graph_id s)) persistence_error) (\<lambda>run.
           try_res (ok_or (lp_parse_plan lp (rd_plan_json run)) persistence_error) (\<lambda>g.
             require (list_ex (\<lambda>n. n_id n = t) (nodes g)) refused))))"

definition request_target_ok ::
  "ledger_ports \<Rightarrow> ledger \<Rightarrow> cancellation_target \<Rightarrow> driver_target \<Rightarrow> store_error + unit" where
  "request_target_ok lp lg t d =
     (case (t, d) of
        (CancelExecution scope _ task, DriverExecution actual) \<Rightarrow>
          if scope = actual then request_task_ok lp lg scope task else Inl refused
      | (CancelProvisional repository_id owner_id _, DriverProvisional actual_repo actual_owner) \<Rightarrow>
          require (repository_id = actual_repo \<and> owner_id = actual_owner) refused
      | _ \<Rightarrow> Inl refused)"

definition pending_requests :: "ledger \<Rightarrow> lifecycle_id \<Rightarrow> nat" where
  "pending_requests lg driver =
     length (filter (\<lambda>(q, st). request_driver (cq_target q) = driver \<and> st = Can_Pending) (lg_requests lg))"

definition matching_request ::
  "ledger \<Rightarrow> cancellation_request \<Rightarrow> (cancellation_request \<times> cancellation_status) option" where
  "matching_request lg q =
     List.find (\<lambda>(x, _). cq_id x = cq_id q \<or> cq_target x = cq_target q) (lg_requests lg)"

definition enqueue ::
  "ledger_ports \<Rightarrow> store_error + unit \<Rightarrow> cancellation_request \<Rightarrow> ledger \<Rightarrow>
    store_error + cancellation_observation \<times> ledger" where
  "enqueue lp client q lg =
     (let driver = request_driver (cq_target q)
      in try_res client (\<lambda>_.
         try_res (ok_or (find_by dv_id driver (lg_drivers lg)) refused) (\<lambda>d.
         try_res (require (driver_repo (dv_target d) = request_repo (cq_target q) \<and>
             dv_process d = Some (cq_process q)) refused) (\<lambda>_.
         try_res (request_target_ok lp lg (cq_target q) (dv_target d)) (\<lambda>_.
           case matching_request lg q of
             Some (old, st) \<Rightarrow>
               try_res (require (cq_target old = cq_target q \<and> cq_process old = cq_process q) refused) (\<lambda>_.
                 Inr (\<lparr>cb_request = old, cb_status = st\<rparr>, lg))
           | None \<Rightarrow>
               try_res (require (dv_phase d = Drv_Starting \<or> dv_phase d = Drv_Running) refused) (\<lambda>_.
               try_res (require (pending_requests lg driver < 64) LifecycleBusy) (\<lambda>_.
                 Inr (\<lparr>cb_request = q, cb_status = Can_Pending\<rparr>,
                      lg\<lparr>lg_requests := lg_requests lg @ [(q, Can_Pending)]\<rparr>))))))))"

definition cancellation_requests :: "ledger \<Rightarrow> lifecycle_id \<Rightarrow> cancellation_observation list" where
  "cancellation_requests lg driver =
     map (\<lambda>(q, st). \<lparr>cb_request = q, cb_status = st\<rparr>)
       (take 64 (filter (\<lambda>(q, st). request_driver (cq_target q) = driver \<and> st = Can_Pending) (lg_requests lg)))"

definition acknowledge_cancellation ::
  "fence \<Rightarrow> lifecycle_id \<Rightarrow> cancellation_status \<Rightarrow> ledger \<Rightarrow> store_error + ledger" where
  "acknowledge_cancellation f i status lg =
     try_res (validate_fence lg f True) (\<lambda>_.
     try_res (ok_or (find_by (\<lambda>r. cq_id (fst r)) i (lg_requests lg)) refused) (\<lambda>(q, st).
     try_res (require (request_repo (cq_target q) = rr_id (fn_repository f) \<and> status \<noteq> Can_Pending) refused) (\<lambda>_.
     try_res (require (st = Can_Pending) refused) (\<lambda>_.
       Inr (lg\<lparr>lg_requests := map (\<lambda>(x, s). (x, if cq_id x = i \<and> s = Can_Pending then status else s))
              (lg_requests lg)\<rparr>)))))"

section \<open>Provisional owners, artifact bindings, attempt updates\<close>

definition create_provisional :: "fence \<Rightarrow> provisional_owner \<Rightarrow> ledger \<Rightarrow> store_error + ledger" where
  "create_provisional f p lg =
     try_res (validate_fence lg f True) (\<lambda>_.
     try_res (fn_root f (pl_root_alias (po_location p))) (\<lambda>_.
     try_res (require (po_repository_id p = rr_id (fn_repository f)) refused) (\<lambda>_.
     try_res (insert_row persistence_error po_id
         (repository_exists lg (po_repository_id p) \<and>
          root_exists lg (po_repository_id p) (pl_root_alias (po_location p))) p (lg_provisionals lg)) (\<lambda>rows.
       Inr (lg\<lparr>lg_provisionals := rows\<rparr>)))))"

definition promote_provisional :: "fence \<Rightarrow> provisional_promotion \<Rightarrow> ledger \<Rightarrow> store_error + ledger" where
  "promote_provisional f p lg =
     try_res (validate_fence lg f True) (\<lambda>_.
     try_res (ok_or (find_by po_id (pp_owner_id p) (lg_provisionals lg)) refused) (\<lambda>w.
     try_res (ok_or (generation lg (pp_generation_id p)) refused) (\<lambda>g.
     try_res (ok_or (artifact lg (pp_artifact_id p)) refused) (\<lambda>a.
     try_res (require (po_repository_id w = rr_id (fn_repository f) \<and>
         gn_repository_id g = po_repository_id w \<and> ar_generation_id a = gn_id g \<and>
         opt_holds (\<lambda>x. x = gn_graph_id g) (po_graph_id w)) refused) (\<lambda>_.
     try_res (insert_row persistence_error (\<lambda>x. (pp_owner_id x, pp_artifact_id x)) True p
         (lg_promotions lg)) (\<lambda>rows.
       Inr (lg\<lparr>lg_promotions := rows\<rparr>)))))))"

definition bind_artifact :: "fence \<Rightarrow> artifact_binding \<Rightarrow> ledger \<Rightarrow> store_error + ledger" where
  "bind_artifact f b lg =
     try_res (validate_fence lg f True) (\<lambda>_.
     try_res (ok_or (artifact lg (ab_artifact_id b)) refused) (\<lambda>a.
     try_res (ok_or (generation lg (ar_generation_id a)) refused) (\<lambda>g.
     try_res (ok_or (revision_snapshot lg (ab_revision_id b)) refused) (\<lambda>r.
     try_res (require (gn_repository_id g = rr_id (fn_repository f) \<and>
         pr_graph_id (sn_metadata r) = gn_graph_id g \<and>
         pr_repository_id (sn_metadata r) = gn_repository_id g \<and>
         \<not> (ab_logical_tag b \<noteq> None \<and> ar_kind a \<noteq> Kind_Deliverable)) refused) (\<lambda>_.
     try_res (insert_row persistence_error ab_artifact_id True b (lg_artifact_bindings lg)) (\<lambda>rows.
       Inr (lg\<lparr>lg_artifact_bindings := rows\<rparr>)))))))"

record scoped_attempt =
  sa_scope :: execution_scope
  sa_revision_id :: lifecycle_id
  sa_artifact_id :: lifecycle_id
  sa_attempt_id :: attempt_id
  sa_task_id :: task_id
  sa_harness :: "string option"
  sa_model_ref :: "string option"
  sa_location :: portable_location
  sa_process :: "process_identity option"
  sa_pane_id :: "string option"
  sa_started_at :: "string option"
  sa_ended_at :: "string option"
  sa_outcome :: "string option"

definition scoped_texts_public :: "scoped_attempt \<Rightarrow> bool" where
  "scoped_texts_public a \<longleftrightarrow>
     list_all (opt_holds public_text)
       [sa_harness a, sa_model_ref a, sa_pane_id a, sa_started_at a, sa_ended_at a, sa_outcome a]"

definition update_scoped_attempt :: "fence \<Rightarrow> scoped_attempt \<Rightarrow> ledger \<Rightarrow> store_error + ledger" where
  "update_scoped_attempt f a lg =
     try_res (require (scoped_texts_public a) refused) (\<lambda>_.
     try_res (validate_fence lg f True) (\<lambda>_.
     try_res (scope_ok lg f (sa_scope a) (Some (sa_revision_id a))) (\<lambda>_.
     try_res (require
         (scoped_attempt_exists lg (sa_attempt_id a) (sa_scope a) (sa_revision_id a) (sa_task_id a) \<and>
          (case find_by am_attempt_id (sa_attempt_id a) (lg_attempt_metadata lg) of
             None \<Rightarrow> False
           | Some m \<Rightarrow> am_artifact_id m = sa_artifact_id a \<and> am_location m = sa_location a)) refused) (\<lambda>_.
       commit (lg\<lparr>
         lg_store := (lg_store lg)\<lparr>db_attempts := map (\<lambda>r.
             if at_attempt_id r = sa_attempt_id a
             then r\<lparr>at_pid := map_option pi_pid (sa_process a), at_pane_id := sa_pane_id a,
                    at_started_at := sa_started_at a, at_ended_at := sa_ended_at a,
                    at_outcome := sa_outcome a\<rparr>
             else r) (db_attempts (lg_store lg))\<rparr>,
         lg_attempt_metadata := map (\<lambda>m.
             if am_attempt_id m = sa_attempt_id a then m\<lparr>am_process := sa_process a\<rparr> else m)
           (lg_attempt_metadata lg)\<rparr>)))))"

datatype stored_event = LegacyEvent transition_record | ScopedEvent scoped_event

text \<open>Events of a scope: the log of the graph, zipped with the scope columns of its rows.\<close>

fun select_events ::
  "execution_scope option \<Rightarrow> (transition_record \<times> (lifecycle_id \<times> lifecycle_id) option) list \<Rightarrow> stored_event list" where
  "select_events selected [] = []"
| "select_events selected ((r, key) # rest) =
     (case (selected, key) of
        (None, None) \<Rightarrow> LegacyEvent r # select_events selected rest
      | (Some s, Some (gen, revision)) \<Rightarrow>
          if gen = xs_generation_id s
          then ScopedEvent \<lparr>se_scope = s, se_revision_id = revision, se_record = r\<rparr> # select_events selected rest
          else select_events selected rest
      | _ \<Rightarrow> select_events selected rest)"

definition event_keys :: "ledger \<Rightarrow> graph_ident \<Rightarrow> (lifecycle_id \<times> lifecycle_id) option list" where
  "event_keys lg g =
     map snd (filter (\<lambda>(e, _). er_graph_id e = g) (zip (db_events (lg_store lg)) (lg_event_scopes lg)))"

text \<open>Attempts of a scope, in the order of their ids; a scoped attempt has no local worktree path.\<close>

datatype stored_attempt = LegacyAttempt attempt_row | ScopedAttempt scoped_attempt

definition scope_of_attempt :: "ledger \<Rightarrow> attempt_id \<Rightarrow> (lifecycle_id \<times> lifecycle_id) option" where
  "scope_of_attempt lg a = map_option snd (find_by fst a (lg_attempt_scopes lg))"

definition scoped_view :: "ledger \<Rightarrow> execution_scope \<Rightarrow> lifecycle_id \<Rightarrow> attempt_row \<Rightarrow> store_error + scoped_attempt" where
  "scoped_view lg s revision row =
     try_res (ok_or (find_by am_attempt_id (at_attempt_id row) (lg_attempt_metadata lg)) persistence_error) (\<lambda>m.
     try_res (require (at_worktree_path row = None) refused) (\<lambda>_.
       Inr \<lparr>sa_scope = s, sa_revision_id = revision, sa_artifact_id = am_artifact_id m,
         sa_attempt_id = at_attempt_id row, sa_task_id = at_task_id row, sa_harness = at_harness row,
         sa_model_ref = at_model_ref row, sa_location = am_location m, sa_process = am_process m,
         sa_pane_id = at_pane_id row, sa_started_at = at_started_at row, sa_ended_at = at_ended_at row,
         sa_outcome = at_outcome row\<rparr>))"

fun select_attempts ::
  "ledger \<Rightarrow> execution_scope option \<Rightarrow> attempt_row list \<Rightarrow> store_error + stored_attempt list" where
  "select_attempts lg selected [] = Inr []"
| "select_attempts lg selected (row # rest) =
     (case (selected, scope_of_attempt lg (at_attempt_id row)) of
        (None, None) \<Rightarrow> try_res (select_attempts lg selected rest) (\<lambda>as. Inr (LegacyAttempt row # as))
      | (Some s, Some (gen, revision)) \<Rightarrow>
          if gen = xs_generation_id s
          then try_res (scoped_view lg s revision row) (\<lambda>a.
               try_res (select_attempts lg selected rest) (\<lambda>as. Inr (ScopedAttempt a # as)))
          else select_attempts lg selected rest
      | _ \<Rightarrow> select_attempts lg selected rest)"

definition scoped_attempts :: "ledger \<Rightarrow> graph_ident \<Rightarrow> run_scope \<Rightarrow> store_error + stored_attempt list" where
  "scoped_attempts lg g which =
     try_res (resolve_scope lg g which) (\<lambda>selected.
       select_attempts lg selected (db_attempts_for_graph (lg_store lg) g))"

text \<open>Evidence joined with its attempt: the generation column is compared with \<open>IS\<close>, so \<open>NULL\<close> matches \<open>NULL\<close>.\<close>

definition scoped_evidence :: "ledger \<Rightarrow> graph_ident \<Rightarrow> run_scope \<Rightarrow> store_error + evidence list" where
  "scoped_evidence lg g which =
     try_res (resolve_scope lg g which) (\<lambda>selected.
       Inr (filter (\<lambda>e. list_ex (\<lambda>a. at_attempt_id a = cr_attempt_id (evidence_candidate e) \<and>
           at_task_id a = cr_task_id (evidence_candidate e) \<and> at_graph_id a = g \<and>
           map_option fst (scope_of_attempt lg (at_attempt_id a)) = map_option xs_generation_id selected)
         (db_attempts (lg_store lg))) (db_evidence (lg_store lg))))"

text \<open>The strings of the JSON text of an evidence record, and the check made on each of them.\<close>

fun evidence_strings :: "evidence \<Rightarrow> string list" where
  "evidence_strings (Deterministic e) =
     [cr_revision (de_candidate e), de_tool e, de_tool_version e, de_output_redacted e]"
| "evidence_strings (ModelReview e) =
     [cr_revision (mr_candidate e), mr_harness e, mr_model_ref e,
      (case mr_verdict e of Pass \<Rightarrow> ''Pass'' | Fail \<Rightarrow> ''Fail''), mr_rationale_redacted e]"
| "evidence_strings (HumanAcceptance e) =
     [cr_revision (ha_candidate e), ha_accepted_by e, ha_accepted_at e]"

definition json_string_safe :: "string \<Rightarrow> bool" where
  "json_string_safe s \<longleftrightarrow> CHR 0x5C \<notin> set s \<and> \<not> drive_prefix s \<and> \<not> list_ex rooted_word (ws_words [] s)"

definition record_scoped_evidence ::
  "fence \<Rightarrow> execution_scope \<Rightarrow> lifecycle_id \<Rightarrow> evidence \<Rightarrow> ledger \<Rightarrow> store_error + ledger" where
  "record_scoped_evidence f s revision e lg =
     (let c = evidence_candidate e
      in try_res (validate_fence lg f True) (\<lambda>_.
         try_res (scope_ok lg f s (Some revision)) (\<lambda>_.
         try_res (require (scoped_attempt_exists lg (cr_attempt_id c) s revision (cr_task_id c)) refused) (\<lambda>_.
         try_res (require (list_all json_string_safe (evidence_strings e)) refused) (\<lambda>_.
           commit (lg\<lparr>lg_store := (lg_store lg)\<lparr>db_evidence := db_evidence (lg_store lg) @ [e]\<rparr>\<rparr>))))))"

definition generation_initial_revision :: "ledger \<Rightarrow> execution_scope \<Rightarrow> store_error + lifecycle_id option" where
  "generation_initial_revision lg s =
     try_res (resolve_scope lg (xs_graph_id s) (GenerationScope (xs_generation_id s))) (\<lambda>found.
     try_res (require (found = Some s) refused) (\<lambda>_.
       Inr (map_option snd (find_by fst (xs_generation_id s) (lg_generation_revisions lg)))))"

definition run_binding_of :: "ledger \<Rightarrow> graph_ident \<Rightarrow> run_binding option" where
  "run_binding_of lg g = find_by rb_graph_id g (lg_bindings lg)"

definition scoped_events :: "ledger \<Rightarrow> graph_ident \<Rightarrow> run_scope \<Rightarrow> store_error + stored_event list" where
  "scoped_events lg g which =
     try_res (resolve_scope lg g which) (\<lambda>selected.
     try_res (db_records_for_graph (lg_store lg) g) (\<lambda>records.
       Inr (select_events selected (zip records (event_keys lg g)))))"

section \<open>Operations on the ledger\<close>

datatype ledger_op =
    LBindRepository fence
  | LRegisterRoot fence root_alias
  | LInsertGeneration fence generation_record
  | LInsertArtifacts fence "artifact_record list" "artifact_dependency list"
  | LAppendFact fence lifecycle_fact
  | LAppendJournal fence journal_entry
  | LCreateRunBinding fence run_binding
  | LCreateProvisional fence provisional_owner
  | LPromoteProvisional fence provisional_promotion
  | LAppendRevision fence plan_revision_snapshot
  | LAuthorizeRevision fence revision_authorization
  | LProjectRevision fence graph_ident lifecycle_id
  | LSelectRevision fence execution_scope lifecycle_id
  | LActivateGeneration fence generation_activation
  | LAppendScopedEvent fence scoped_event
  | LReserveAttempt fence attempt_reservation
  | LUpdateScopedAttempt fence scoped_attempt
  | LRecordEvidence fence execution_scope lifecycle_id evidence
  | LAppendOperation fence producer_operation
  | LAppendOperationStep fence operation_step
  | LRegisterDriver fence driver_record
  | LUpdateDriver fence driver_record
  | LBindArtifact fence artifact_binding
  | LEnqueue "store_error + unit" cancellation_request
  | LAcknowledge fence lifecycle_id cancellation_status

fun run_op :: "ledger_ports \<Rightarrow> ledger_op \<Rightarrow> ledger \<Rightarrow> store_error + ledger" where
  "run_op lp (LBindRepository f) lg = bind_repository f lg"
| "run_op lp (LRegisterRoot f alias) lg = register_root f alias lg"
| "run_op lp (LInsertGeneration f g) lg = insert_generation f g lg"
| "run_op lp (LInsertArtifacts f rs ds) lg = insert_artifacts f rs ds lg"
| "run_op lp (LAppendFact f x) lg = append_fact f x lg"
| "run_op lp (LAppendJournal f x) lg = append_journal f x lg"
| "run_op lp (LCreateRunBinding f b) lg = create_run_binding f b lg"
| "run_op lp (LCreateProvisional f p) lg = create_provisional f p lg"
| "run_op lp (LPromoteProvisional f p) lg = promote_provisional f p lg"
| "run_op lp (LAppendRevision f r) lg = append_revision lp f r lg"
| "run_op lp (LAuthorizeRevision f a) lg = authorize_revision f a lg"
| "run_op lp (LProjectRevision f g i) lg = project_revision f g i lg"
| "run_op lp (LSelectRevision f s i) lg = select_revision f s i lg"
| "run_op lp (LActivateGeneration f a) lg = activate_generation lp f a lg"
| "run_op lp (LAppendScopedEvent f e) lg = append_scoped_event lp f e lg"
| "run_op lp (LReserveAttempt f r) lg = map_sum (\<lambda>e. e) snd (reserve_attempt lp f r lg)"
| "run_op lp (LUpdateScopedAttempt f a) lg = update_scoped_attempt f a lg"
| "run_op lp (LRecordEvidence f s i e) lg = record_scoped_evidence f s i e lg"
| "run_op lp (LAppendOperation f p) lg = append_operation f p lg"
| "run_op lp (LAppendOperationStep f s) lg = append_operation_step f s lg"
| "run_op lp (LRegisterDriver f d) lg = register_driver f d lg"
| "run_op lp (LUpdateDriver f d) lg = update_driver f d lg"
| "run_op lp (LBindArtifact f b) lg = bind_artifact f b lg"
| "run_op lp (LEnqueue client q) lg = map_sum (\<lambda>e. e) snd (enqueue lp client q lg)"
| "run_op lp (LAcknowledge f i st) lg = acknowledge_cancellation f i st lg"

text \<open>
  A session of the ledger: operations one after the other; one that fails leaves the ledger as
  it was, because its transaction is rolled back or its only statement did not run.
\<close>

inductive ledger_step :: "ledger_ports \<Rightarrow> ledger \<Rightarrow> ledger_op \<Rightarrow> ledger \<Rightarrow> bool" for lp where
  step_ok: "run_op lp op lg = Inr lg' \<Longrightarrow> ledger_step lp lg op lg'"
| step_failed: "run_op lp op lg = Inl e \<Longrightarrow> ledger_step lp lg op lg"

inductive ledger_run :: "ledger_ports \<Rightarrow> ledger \<Rightarrow> ledger_op list \<Rightarrow> ledger \<Rightarrow> bool" for lp where
  run_nil: "ledger_run lp lg [] lg"
| run_step: "ledger_step lp lg op lg1 \<Longrightarrow> ledger_run lp lg1 ops lg' \<Longrightarrow> ledger_run lp lg (op # ops) lg'"

inductive_cases ledger_stepE: "ledger_step lp lg op lg'"
inductive_cases ledger_run_ConsE: "ledger_run lp lg (op # ops) lg'"

end
