(* ===== verification/Adapter_Ledger_Rows.thy ===== *)
theory Adapter_Ledger_Rows
  imports Adapter_Lifecycle
begin

text \<open>
  What an operation of the ledger does to its tables, row by row. \<open>row_step\<close> lists the
  statements that the operations are made of, each with the guards under which the code runs it;
  \<open>run_op_rows\<close> shows that every operation that succeeds is a sequence of such statements. An
  invariant, or a relation between an earlier and a later ledger, that every statement respects
  therefore holds across every session: this is the content of the two locales below.
\<close>

section \<open>Statements\<close>

text \<open>The driver a cancellation is addressed to: its id, its target and its process.\<close>

definition request_names :: "driver_record \<Rightarrow> cancellation_request \<Rightarrow> bool" where
  "request_names d q \<longleftrightarrow> dv_process d = Some (cq_process q) \<and>
     (case cq_target q of
        CancelExecution s i _ \<Rightarrow> i = dv_id d \<and> dv_target d = DriverExecution s
      | CancelProvisional repo owner i \<Rightarrow> i = dv_id d \<and> dv_target d = DriverProvisional repo owner)"

inductive row_step :: "ledger_ports \<Rightarrow> ledger \<Rightarrow> ledger \<Rightarrow> bool" for lp where
  row_repository: "lg_repositories lg = [] \<Longrightarrow> row_step lp lg (lg\<lparr>lg_repositories := [(r, l)]\<rparr>)"
| row_root: "repository_exists lg (ro_repository_id r) \<Longrightarrow>
    (ro_repository_id r, alias) \<notin> (\<lambda>(a, x). (ro_repository_id x, a)) ` set (lg_roots lg) \<Longrightarrow>
    row_step lp lg (lg\<lparr>lg_roots := lg_roots lg @ [(alias, r)]\<rparr>)"
| row_generation: "insert_generation_row e g lg = Inr lg' \<Longrightarrow> row_step lp lg lg'"
| row_artifact: "insert_artifact_row e a repo lg = Inr lg' \<Longrightarrow> row_step lp lg lg'"
| row_dependency: "insert_one_dependency f d lg = Inr lg' \<Longrightarrow> row_step lp lg lg'"
| row_fact: "artifact_exists lg (lf_artifact_id x) \<Longrightarrow> lf_id x \<notin> lf_id ` set (lg_facts lg) \<Longrightarrow>
    row_step lp lg (lg\<lparr>lg_facts := lg_facts lg @ [x]\<rparr>)"
| row_journal: "artifact_exists lg (je_artifact_id y) \<Longrightarrow> je_id y \<notin> je_id ` set (lg_journal lg) \<Longrightarrow>
    row_step lp lg (lg\<lparr>lg_journal := lg_journal lg @ [y]\<rparr>)"
| row_binding: "run_exists lg (rb_graph_id b) \<Longrightarrow> repository_exists lg (rb_repository_id b) \<Longrightarrow>
    root_exists lg (rb_repository_id b) (pl_root_alias (rb_location b)) \<Longrightarrow>
    rb_active_generation b = None \<Longrightarrow> rb_current_revision b = None \<Longrightarrow>
    rb_graph_id b \<notin> rb_graph_id ` set (lg_bindings lg) \<Longrightarrow>
    row_step lp lg (lg\<lparr>lg_bindings := lg_bindings lg @ [b],
      lg_store := (lg_store lg)\<lparr>db_bindings := db_bindings (lg_store lg) @ [rb_graph_id b]\<rparr>\<rparr>)"
| row_provisional: "repository_exists lg (po_repository_id p) \<Longrightarrow>
    root_exists lg (po_repository_id p) (pl_root_alias (po_location p)) \<Longrightarrow>
    po_id p \<notin> po_id ` set (lg_provisionals lg) \<Longrightarrow>
    row_step lp lg (lg\<lparr>lg_provisionals := lg_provisionals lg @ [p]\<rparr>)"
| row_promotion: "po_id w = pp_owner_id m \<Longrightarrow> w \<in> set (lg_provisionals lg) \<Longrightarrow>
    artifact_exists lg (pp_artifact_id m) \<Longrightarrow> generation_exists lg (pp_generation_id m) \<Longrightarrow>
    (pp_owner_id m, pp_artifact_id m) \<notin> (\<lambda>x. (pp_owner_id x, pp_artifact_id x)) ` set (lg_promotions lg) \<Longrightarrow>
    row_step lp lg (lg\<lparr>lg_promotions := lg_promotions lg @ [m]\<rparr>)"
| row_artifact_binding: "artifact_exists lg (ab_artifact_id ab) \<Longrightarrow> revision_exists lg (ab_revision_id ab) \<Longrightarrow>
    ab_artifact_id ab \<notin> ab_artifact_id ` set (lg_artifact_bindings lg) \<Longrightarrow>
    row_step lp lg (lg\<lparr>lg_artifact_bindings := lg_artifact_bindings lg @ [ab]\<rparr>)"
| row_revision: "insert_revision lp f r lg = Inr lg' \<Longrightarrow> row_step lp lg lg'"
| row_authorization: "insert_authorization f au lg = Inr lg' \<Longrightarrow> row_step lp lg lg'"
| row_generation_revision: "revision_exists lg i \<Longrightarrow> generation_exists lg gen \<Longrightarrow>
    gen \<notin> fst ` set (lg_generation_revisions lg) \<Longrightarrow>
    row_step lp lg (lg\<lparr>lg_generation_revisions := lg_generation_revisions lg @ [(gen, i)]\<rparr>)"
| row_install: "binding lg g = Inr b \<Longrightarrow> revision_snapshot lg i = Some r \<Longrightarrow>
    pr_graph_id (sn_metadata r) = g \<Longrightarrow> pr_repository_id (sn_metadata r) = rb_repository_id b \<Longrightarrow>
    follows_current b (sn_metadata r) i \<Longrightarrow>
    opt_holds (\<lambda>gen. rb_active_generation b = Some gen) (pr_generation_id (sn_metadata r)) \<Longrightarrow>
    row_step lp lg (install_revision b r i lg)"
| row_activate: "binding lg g = Inr b \<Longrightarrow> generation lg gid = Some gen \<Longrightarrow> gn_graph_id gen = g \<Longrightarrow>
    gn_repository_id gen = rb_repository_id b \<Longrightarrow> gn_root_alias gen = pl_root_alias (rb_location b) \<Longrightarrow>
    gn_layout_version gen = rb_layout_version b \<Longrightarrow> find_by fst gid (lg_generation_revisions lg) = Some (gid, i) \<Longrightarrow>
    gn_accepted_plan_hash gen = pr_plan_hash (sn_metadata r) \<Longrightarrow>
    revision_snapshot lg i = Some r \<Longrightarrow> pr_graph_id (sn_metadata r) = g \<Longrightarrow>
    run_row_of lg g = Some run \<Longrightarrow> rd_plan_id run = pr_plan_hash (sn_metadata r) \<Longrightarrow>
    rd_plan_json run = sn_plan_json r \<Longrightarrow> authorized lg i \<Longrightarrow>
    row_step lp lg (set_binding (b\<lparr>rb_active_generation := Some gid, rb_current_revision := Some i\<rparr>) lg)"
| row_event: "insert_event lp f ev lg = Inr lg' \<Longrightarrow> row_step lp lg lg'"
| row_attempt: "scope_ok lg f s (Some rev_id) = Inr () \<Longrightarrow> generation lg (xs_generation_id s) = Some gen \<Longrightarrow>
    next_attempt_number lg < 2 ^ 32 \<Longrightarrow> at_attempt_id row = of_nat (next_attempt_number lg) \<Longrightarrow>
    at_graph_id row = xs_graph_id s \<Longrightarrow> revision_task lp lg s rev_id (at_task_id row) = Inr () \<Longrightarrow>
    at_attempt_id row \<notin> at_attempt_id ` set (db_attempts (lg_store lg)) \<Longrightarrow>
    row_step lp lg (lg\<lparr>lg_next_attempt := next_attempt_number lg + 1,
      lg_store := (lg_store lg)\<lparr>db_attempts := db_attempts (lg_store lg) @ [row]\<rparr>,
      lg_attempt_scopes := lg_attempt_scopes lg @ [(at_attempt_id row, xs_generation_id s, rev_id)]\<rparr>)"
| row_metadata: "artifact_exists lg (am_artifact_id md) \<Longrightarrow> attempt_exists lg (am_attempt_id md) \<Longrightarrow>
    am_attempt_id md \<notin> am_attempt_id ` set (lg_attempt_metadata lg) \<Longrightarrow>
    am_artifact_id md \<notin> am_artifact_id ` set (lg_attempt_metadata lg) \<Longrightarrow>
    row_step lp lg (lg\<lparr>lg_attempt_metadata := lg_attempt_metadata lg @ [md]\<rparr>)"
| row_attempt_update: "(\<And>r. at_attempt_id (up r) = at_attempt_id r \<and> at_graph_id (up r) = at_graph_id r \<and>
      at_task_id (up r) = at_task_id r \<and> at_harness (up r) = at_harness r \<and> at_model_ref (up r) = at_model_ref r) \<Longrightarrow>
    (\<And>m. am_attempt_id (mp m) = am_attempt_id m \<and> am_artifact_id (mp m) = am_artifact_id m \<and>
      am_location (mp m) = am_location m) \<Longrightarrow>
    row_step lp lg (lg\<lparr>lg_store := (lg_store lg)\<lparr>db_attempts := map up (db_attempts (lg_store lg))\<rparr>,
      lg_attempt_metadata := map mp (lg_attempt_metadata lg)\<rparr>)"
| row_evidence: "scoped_attempt_exists lg (cr_attempt_id (evidence_candidate ev)) s i (cr_task_id (evidence_candidate ev)) \<Longrightarrow>
    row_step lp lg (lg\<lparr>lg_store := (lg_store lg)\<lparr>db_evidence := db_evidence (lg_store lg) @ [ev]\<rparr>\<rparr>)"
| row_operation: "insert_operation f op lg = Inr lg' \<Longrightarrow> row_step lp lg lg'"
| row_op_step: "(p, True) \<in> set (lg_operations lg) \<Longrightarrow> op_id p = os_operation_id s \<Longrightarrow>
    n = length (steps_of lg (op_id p)) \<Longrightarrow> n + 1 < 2 ^ 32 \<Longrightarrow> os_step s = of_nat (n + 1) \<Longrightarrow>
    os_step s \<le> op_max_steps p \<Longrightarrow> (os_state s = Op_Completed \<longrightarrow> os_observed s = op_after p) \<Longrightarrow>
    os_id s \<notin> os_id ` set (lg_steps lg) \<Longrightarrow>
    row_step lp lg ((if os_state s = Op_Blocked \<or> os_step s = op_max_steps p
      then close_operation (op_id p) else (\<lambda>x. x)) (lg\<lparr>lg_steps := lg_steps lg @ [s]\<rparr>))"
| row_driver: "dv_id d \<notin> dv_id ` set (lg_drivers lg) \<Longrightarrow> repository_exists lg (driver_repo (dv_target d)) \<Longrightarrow>
    row_step lp lg (lg\<lparr>lg_drivers := lg_drivers lg @ [d]\<rparr>)"
| row_driver_update: "old \<in> set (lg_drivers lg) \<Longrightarrow> dv_id old = dv_id d \<Longrightarrow> driver_update_ok old d \<Longrightarrow>
    find_by dv_id (dv_id d) (lg_drivers lg) = Some old \<Longrightarrow>
    row_step lp lg (lg\<lparr>lg_drivers := map (\<lambda>x. if dv_id x = dv_id d then d else x) (lg_drivers lg)\<rparr>)"
| row_request: "matching_request lg q = None \<Longrightarrow> pending_requests lg (request_driver (cq_target q)) < 64 \<Longrightarrow>
    d \<in> set (lg_drivers lg) \<Longrightarrow> request_names d q \<Longrightarrow>
    row_step lp lg (lg\<lparr>lg_requests := lg_requests lg @ [(q, Can_Pending)]\<rparr>)"
| row_acknowledge: "status \<noteq> Can_Pending \<Longrightarrow>
    row_step lp lg (lg\<lparr>lg_requests := map (\<lambda>(x, s). (x, if cq_id x = i \<and> s = Can_Pending then status else s))
      (lg_requests lg)\<rparr>)"

inductive_cases row_stepE: "row_step lp lg lg'"

abbreviation row_steps :: "ledger_ports \<Rightarrow> ledger \<Rightarrow> ledger \<Rightarrow> bool" where
  "row_steps lp \<equiv> (row_step lp)\<^sup>*\<^sup>*"

lemmas one_row = r_into_rtranclp [of "row_step lp" for lp]

section \<open>Operations are sequences of statements\<close>

lemma for_each_rows:
  assumes "\<And>x a b. step x a = Inr b \<Longrightarrow> row_steps lp a b" and "for_each step xs lg = Inr lg'"
  shows "row_steps lp lg lg'"
  using assms(2)
proof (induction xs arbitrary: lg)
  case (Cons x xs)
  then obtain m where "step x lg = Inr m" "for_each step xs m = Inr lg'" by (auto simp: try_res_eq_Inr)
  then show ?case using assms(1) Cons.IH by (meson rtranclp_trans)
qed simp

lemma commit_Inr [simp]: "commit lg = Inr lg' \<longleftrightarrow>
    lg' = lg \<and> list_all (\<lambda>r. opt_holds (generation_exists lg) (pr_generation_id (sn_metadata r))) (lg_revisions lg)"
  by (auto simp: commit_def)

lemma artifact_Some: "artifact lg i = Some a \<Longrightarrow> artifact_exists lg i \<and> ar_id a = i"
  by (auto simp: artifact_def artifact_row_def artifact_exists_def has_key_iff dest!: find_by_Some
      intro: rev_image_eqI)

lemma generation_Some: "generation lg i = Some g \<Longrightarrow> generation_exists lg i \<and> gn_id g = i"
  by (auto simp: generation_def generation_exists_def has_key_iff dest!: find_by_Some)

lemma revision_Some: "revision_snapshot lg i = Some r \<Longrightarrow> revision_exists lg i \<and> pr_id (sn_metadata r) = i"
  by (auto simp: revision_snapshot_def revision_exists_def has_key_iff dest!: find_by_Some
      intro: rev_image_eqI)

lemma binding_Inr: "binding lg g = Inr b \<longleftrightarrow> find_by rb_graph_id g (lg_bindings lg) = Some b"
  by (simp add: binding_def)

lemmas op_unfold = try_res_eq_Inr Let_def insert_row_Inr has_key_iff

lemma bind_repository_rows: "bind_repository f lg = Inr lg' \<Longrightarrow> row_steps lp lg lg'"
  by (auto simp: bind_repository_def op_unfold split: list.splits prod.splits intro!: one_row row_repository)

lemma register_root_rows:
  assumes "register_root f alias lg = Inr lg'" shows "row_steps lp lg lg'"
proof -
  obtain r where *: "(case find_by (\<lambda>(a, x). (ro_repository_id x, a)) (ro_repository_id r, alias) (lg_roots lg) of
         Some (_, existing) \<Rightarrow> try_res (require (existing = r) refused) (\<lambda>_. Inr lg)
       | None \<Rightarrow>
           if repository_exists lg (ro_repository_id r)
           then Inr (lg\<lparr>lg_roots := lg_roots lg @ [(alias, r)]\<rparr>) else Inl ledger_error) = Inr lg'"
    using assms by (auto simp: register_root_def try_res_eq_Inr)
  show ?thesis
  proof (cases "find_by (\<lambda>(a, x). (ro_repository_id x, a)) (ro_repository_id r, alias) (lg_roots lg)")
    case None
    then have "(ro_repository_id r, alias) \<notin> (\<lambda>(a, x). (ro_repository_id x, a)) ` set (lg_roots lg)"
      by (simp add: find_by_None)
    moreover have "repository_exists lg (ro_repository_id r)" "lg' = lg\<lparr>lg_roots := lg_roots lg @ [(alias, r)]\<rparr>"
      using * None by (auto split: if_splits)
    ultimately show ?thesis by (blast intro: one_row row_root)
  qed (use * in \<open>auto simp: try_res_eq_Inr\<close>)
qed

lemma insert_generation_rows: "insert_generation f g lg = Inr lg' \<Longrightarrow> row_steps lp lg lg'"
  by (auto simp: insert_generation_def try_res_eq_Inr intro: one_row row_generation)

lemma insert_artifacts_rows: "insert_artifacts f rs ds lg = Inr lg' \<Longrightarrow> row_steps lp lg lg'"
proof -
  assume "insert_artifacts f rs ds lg = Inr lg'"
  then obtain m where m: "for_each (insert_one_artifact f) rs lg = Inr m"
    "for_each (insert_one_dependency f) ds m = Inr lg'"
    by (auto simp: insert_artifacts_def try_res_eq_Inr)
  have "row_steps lp a b" if "insert_one_artifact f x a = Inr b" for x a b
    using that by (auto simp: insert_one_artifact_def try_res_eq_Inr intro: one_row row_artifact)
  moreover have "row_steps lp a b" if "insert_one_dependency f x a = Inr b" for x a b
    using that by (auto intro: one_row row_dependency)
  ultimately show ?thesis using for_each_rows m by (metis rtranclp_trans)
qed

lemma append_fact_rows: "append_fact f x lg = Inr lg' \<Longrightarrow> row_steps lp lg lg'"
  by (auto simp: append_fact_def op_unfold intro!: one_row row_fact)

lemma append_journal_rows: "append_journal f x lg = Inr lg' \<Longrightarrow> row_steps lp lg lg'"
  by (auto simp: append_journal_def op_unfold intro!: one_row row_journal)

lemma create_run_binding_rows: "create_run_binding f b lg = Inr lg' \<Longrightarrow> row_steps lp lg lg'"
  by (auto simp: create_run_binding_def op_unfold intro!: one_row row_binding)

lemma create_provisional_rows: "create_provisional f p lg = Inr lg' \<Longrightarrow> row_steps lp lg lg'"
  by (auto simp: create_provisional_def op_unfold intro!: one_row row_provisional)

lemma promote_provisional_rows: "promote_provisional f p lg = Inr lg' \<Longrightarrow> row_steps lp lg lg'"
  by (auto simp: promote_provisional_def op_unfold dest!: find_by_Some artifact_Some generation_Some
      intro!: one_row row_promotion)

lemma bind_artifact_rows: "bind_artifact f b lg = Inr lg' \<Longrightarrow> row_steps lp lg lg'"
  by (auto simp: bind_artifact_def op_unfold dest!: artifact_Some revision_Some
      intro!: one_row row_artifact_binding)

lemma append_revision_rows: "append_revision lp f r lg = Inr lg' \<Longrightarrow> row_steps lp lg lg'"
  by (auto simp: append_revision_def try_res_eq_Inr intro: one_row row_revision)

lemma authorize_revision_rows: "authorize_revision f a lg = Inr lg' \<Longrightarrow> row_steps lp lg lg'"
  by (auto simp: authorize_revision_def try_res_eq_Inr intro: one_row row_authorization)

lemma project_revision_rows: "project_revision f g i lg = Inr lg' \<Longrightarrow> row_steps lp lg lg'"
  by (auto simp: project_revision_def try_res_eq_Inr intro!: one_row row_install)

lemma select_revision_rows: "select_revision f s i lg = Inr lg' \<Longrightarrow> row_steps lp lg lg'"
  by (auto simp: select_revision_def scope_ok_def try_res_eq_Inr opt_holds_def split: option.splits
      intro!: one_row row_install)

lemma append_scoped_event_rows: "append_scoped_event lp f e lg = Inr lg' \<Longrightarrow> row_steps lp lg lg'"
  by (auto simp: append_scoped_event_def try_res_eq_Inr intro: one_row row_event)

lemma append_operation_rows: "append_operation f p lg = Inr lg' \<Longrightarrow> row_steps lp lg lg'"
  by (auto simp: append_operation_def try_res_eq_Inr intro: one_row row_operation)

lemma append_operation_step_rows:
  assumes "append_operation_step f s lg = Inr lg'" shows "row_steps lp lg lg'"
proof -
  obtain p pending where p: "find_by (\<lambda>r. op_id (fst r)) (os_operation_id s) (lg_operations lg) = Some (p, pending)"
    using assms by (auto simp: append_operation_step_def try_res_eq_Inr)
  note found = find_by_Some [OF p]
  have i: "os_operation_id s = op_id p" and "pending"
    using found assms p by (auto simp: append_operation_step_def try_res_eq_Inr Let_def)
  with found have "(p, True) \<in> set (lg_operations lg)" by simp
  from row_op_step [OF this, where lp = lp and s = s] show ?thesis
    using assms p i by (auto simp: append_operation_step_def op_unfold split: if_splits intro!: one_row)
qed

text \<open>What the shared insertions do, as facts about the rows they add.\<close>

lemma insert_generation_row_Inr: "insert_generation_row e g lg = Inr lg' \<longleftrightarrow>
    generation_row_ok lg g \<and> gn_id g \<notin> gn_id ` set (lg_generations lg) \<and>
    lg' = lg\<lparr>lg_generations := lg_generations lg @ [g]\<rparr>"
  by (auto simp: insert_generation_row_def try_res_eq_Inr insert_row_Inr)

lemma insert_artifact_row_Inr: "insert_artifact_row e a repo lg = Inr lg' \<longleftrightarrow>
    artifact_row_ok lg a repo \<and> ar_id a \<notin> (\<lambda>r. ar_id (fst r)) ` set (lg_artifacts lg) \<and>
    lg' = lg\<lparr>lg_artifacts := lg_artifacts lg @ [(a, repo)]\<rparr>"
  by (auto simp: insert_artifact_row_def try_res_eq_Inr insert_row_Inr)

lemma insert_one_dependency_Inr: "insert_one_dependency f d lg = Inr lg' \<Longrightarrow>
    dp_artifact_id d \<noteq> dp_requires_artifact_id d \<and> artifact_exists lg (dp_artifact_id d) \<and>
    artifact_exists lg (dp_requires_artifact_id d) \<and>
    (dp_artifact_id d, dp_requires_artifact_id d) \<notin>
      (\<lambda>r. (dp_artifact_id r, dp_requires_artifact_id r)) ` set (lg_dependencies lg) \<and>
    lg' = lg\<lparr>lg_dependencies := lg_dependencies lg @ [d]\<rparr>"
  by (auto simp: insert_one_dependency_def op_unfold)

lemma insert_revision_Inr: "insert_revision lp f r lg = Inr lg' \<Longrightarrow>
    (\<exists>b. binding lg (pr_graph_id (sn_metadata r)) = Inr b \<and>
      rb_repository_id b = pr_repository_id (sn_metadata r)) \<and>
    plan_matches lp r \<and> repository_exists lg (pr_repository_id (sn_metadata r)) \<and>
    opt_holds (\<lambda>old. \<exists>q. revision_snapshot lg old = Some q \<and>
      pr_graph_id (sn_metadata q) = pr_graph_id (sn_metadata r) \<and>
      pr_repository_id (sn_metadata q) = pr_repository_id (sn_metadata r)) (pr_predecessor (sn_metadata r)) \<and>
    pr_id (sn_metadata r) \<notin> (\<lambda>x. pr_id (sn_metadata x)) ` set (lg_revisions lg) \<and>
    lg' = lg\<lparr>lg_revisions := lg_revisions lg @ [r]\<rparr>"
  by (auto simp: insert_revision_def op_unfold opt_holds_def split: option.splits)

lemma insert_authorization_Inr: "insert_authorization f a lg = Inr lg' \<Longrightarrow>
    (\<exists>r. revision_snapshot lg (ra_revision_id a) = Some r \<and>
      (ra_kind a = Auth_InheritedAdr0028 \<longrightarrow> ra_decision a = Revision_Accepted \<and>
        (\<exists>previous. pr_predecessor (sn_metadata r) = Some previous \<and> authorized lg previous))) \<and>
    revision_exists lg (ra_revision_id a) \<and> ra_id a \<notin> ra_id ` set (lg_authorizations lg) \<and>
    lg' = lg\<lparr>lg_authorizations := lg_authorizations lg @ [a]\<rparr>"
  by (auto simp: insert_authorization_def op_unfold split: if_splits)

lemma insert_operation_Inr: "insert_operation f p lg = Inr lg' \<Longrightarrow>
    op_repository_id p = rr_id (fn_repository f) \<and> op_max_steps p \<noteq> 0 \<and> op_max_steps p \<le> 256 \<and>
    opt_holds (\<lambda>i. \<exists>g. generation lg i = Some g \<and> gn_repository_id g = op_repository_id p \<and>
      op_graph_id p = Some (gn_graph_id g)) (op_generation_id p) \<and>
    operation_target_ok lg p \<and> repository_exists lg (op_repository_id p) \<and>
    \<not> pending_claim lg (op_repository_id p) (op_target p) \<and>
    op_id p \<notin> (\<lambda>r. op_id (fst r)) ` set (lg_operations lg) \<and>
    lg' = lg\<lparr>lg_operations := lg_operations lg @ [(p, True)]\<rparr>"
  by (auto simp: insert_operation_def op_unfold opt_holds_def split: option.splits)

lemma scope_ok_Inr: "scope_ok lg f s (Some i) = Inr () \<longleftrightarrow>
    (\<exists>b snap run. binding lg (xs_graph_id s) = Inr b \<and> xs_repository_id s = rr_id (fn_repository f) \<and>
      rb_repository_id b = xs_repository_id s \<and> rb_active_generation b = Some (xs_generation_id s) \<and>
      rb_current_revision b = Some i \<and> revision_snapshot lg i = Some snap \<and>
      run_row_of lg (xs_graph_id s) = Some run \<and> rd_plan_state run = ''PlanAccepted'' \<and>
      rd_plan_id run = pr_plan_hash (sn_metadata snap) \<and> rd_plan_json run = sn_plan_json snap \<and>
      authorized lg i)"
  by (auto simp: scope_ok_def try_res_eq_Inr)

lemma insert_event_Inr: "insert_event lp f e lg = Inr lg' \<Longrightarrow>
    scope_ok lg f (se_scope e) (Some (se_revision_id e)) = Inr () \<and>
    revision_task lp lg (se_scope e) (se_revision_id e) (tr_task_id (se_record e)) = Inr () \<and>
    opt_holds public_text (tr_reason (se_record e)) \<and> public_text (tr_executor (se_record e)) \<and>
    tr_graph_id (se_record e) = xs_graph_id (se_scope e) \<and>
    opt_holds (\<lambda>a. scoped_attempt_exists lg a (se_scope e) (se_revision_id e) (tr_task_id (se_record e)))
      (tr_attempt_id (se_record e)) \<and>
    lg' = lg\<lparr>lg_store := (lg_store lg)\<lparr>db_events := db_events (lg_store lg) @ [event_row_of (se_record e)]\<rparr>,
      lg_event_scopes := lg_event_scopes lg @ [Some (xs_generation_id (se_scope e), se_revision_id e)]\<rparr>"
  by (auto simp: insert_event_def try_res_eq_Inr Let_def)

lemma find_by_snoc: "key r \<notin> key ` set rows \<Longrightarrow> find_by key (key r) (rows @ [r]) = Some r"
  by (simp add: find_by_append find_by_None [symmetric]) (simp add: find_by_def)

lemma ensure_revision_rows:
  assumes "ensure_revision lp f r lg = Inr lg'"
  shows "row_steps lp lg lg' \<and> lg_bindings lg' = lg_bindings lg \<and> lg_store lg' = lg_store lg \<and>
    revision_snapshot lg' (pr_id (sn_metadata r)) = Some r"
proof (cases "revision_snapshot lg (pr_id (sn_metadata r))")
  case None
  with assms have ins: "insert_revision lp f r lg = Inr lg'" by (simp add: ensure_revision_def)
  from insert_revision_Inr [OF ins] find_by_snoc [of "\<lambda>x. pr_id (sn_metadata x)" r "lg_revisions lg"] ins
  show ?thesis by (auto simp: revision_snapshot_def intro: one_row row_revision)
qed (use assms in \<open>auto simp: ensure_revision_def try_res_eq_Inr\<close>)

lemma ensure_authorization_rows: "ensure_authorization f a lg = Inr lg' \<Longrightarrow>
    row_steps lp lg lg' \<and> lg_bindings lg' = lg_bindings lg \<and> lg_store lg' = lg_store lg \<and>
    lg_revisions lg' = lg_revisions lg"
  by (auto simp: ensure_authorization_def try_res_eq_Inr split: option.splits
      dest: insert_authorization_Inr intro: one_row row_authorization)

lemma set_binding_tables [simp]:
  "lg_bindings (set_binding b lg) = map (\<lambda>x. if rb_graph_id x = rb_graph_id b then b else x) (lg_bindings lg)"
  "lg_store (set_binding b lg) = lg_store lg"
  by (simp_all add: set_binding_def)

lemma activate_generation_rows:
  assumes "activate_generation lp f a lg = Inr lg'" shows "row_steps lp lg lg'"
proof -
  let ?g = "ga_generation a" and ?r = "ga_revision a"
  let ?i = "pr_id (sn_metadata ?r)"
  obtain b run lg1 lg2 lg3 lg5 lg6 where b: "binding lg (gn_graph_id ?g) = Inr b"
    and consistent: "activation_consistent f b a" and run: "run_row_of lg (gn_graph_id ?g) = Some run"
    and plan: "rd_plan_id run = gn_accepted_plan_hash ?g" "rd_plan_json run = sn_plan_json ?r"
    and lg1: "ensure_revision lp f ?r lg = Inr lg1"
    and lg2: "ensure_authorization f (ga_authorization a) lg1 = Inr lg2" and auth: "authorized lg2 ?i"
    and lg3: "insert_generation_row persistence_error ?g lg2 = Inr lg3"
    and new_row: "revision_exists lg3 ?i" "gn_id ?g \<notin> fst ` set (lg_generation_revisions lg3)"
    and lg5: "for_each (activation_artifact ?g) (ga_artifacts a)
        (set_binding (b\<lparr>rb_active_generation := Some (gn_id ?g), rb_current_revision := Some ?i\<rparr>)
          (lg3\<lparr>lg_generation_revisions := lg_generation_revisions lg3 @ [(gn_id ?g, ?i)]\<rparr>)) = Inr lg5"
    and lg6: "for_each (insert_operation f) (ga_operations a) lg5 = Inr lg6"
    and events: "for_each (\<lambda>r. insert_event lp f
                \<lparr>se_scope = \<lparr>xs_repository_id = gn_repository_id ?g, xs_graph_id = gn_graph_id ?g,
                   xs_generation_id = gn_id ?g\<rparr>,
                 se_revision_id = ?i, se_record = r\<rparr>) (ga_events a) lg6 = Inr lg'"
    using assms by (auto simp: activate_generation_def op_unfold)
  let ?mid = "lg3\<lparr>lg_generation_revisions := lg_generation_revisions lg3 @ [(gn_id ?g, ?i)]\<rparr>"
  note r1 = ensure_revision_rows [OF lg1] and r2 = ensure_authorization_rows [OF lg2]
  note gen = insert_generation_row_Inr [THEN iffD1, OF lg3]
  have g: "generation lg3 (gn_id ?g) = Some ?g"
    using gen find_by_snoc [of gn_id ?g "lg_generations lg2"] by (simp add: generation_def)
  have snap: "revision_snapshot lg3 ?i = Some ?r"
    using r1 r2 gen by (simp add: revision_snapshot_def)
  have auth3: "authorized lg3 ?i" using auth gen by (simp add: authorized_def authorizations_def)
  have "row_step lp ?mid (set_binding (b\<lparr>rb_active_generation := Some (gn_id ?g), rb_current_revision := Some ?i\<rparr>) ?mid)"
  proof (rule row_activate [where g = "gn_graph_id ?g" and gen = ?g and r = ?r and run = run])
    show "binding ?mid (gn_graph_id ?g) = Inr b" using b r1 r2 gen by (simp add: binding_def)
    show "run_row_of ?mid (gn_graph_id ?g) = Some run" using run r1 r2 gen by (simp add: run_row_of_def)
    show "authorized ?mid ?i" using auth3 by (simp add: authorized_def authorizations_def)
    show "find_by fst (gn_id ?g) (lg_generation_revisions ?mid) = Some (gn_id ?g, ?i)"
      using find_by_snoc [of fst "(gn_id ?g, ?i)"] new_row(2) by simp
  qed (use g snap plan consistent in
    \<open>auto simp: generation_def revision_snapshot_def activation_consistent_def Let_def\<close>)
  moreover have "row_step lp lg3 ?mid"
    using new_row generation_Some [OF g] by (blast intro: row_generation_revision)
  moreover have "row_step lp lg2 lg3" using lg3 by (rule row_generation)
  ultimately have "row_steps lp lg
      (set_binding (b\<lparr>rb_active_generation := Some (gn_id ?g), rb_current_revision := Some ?i\<rparr>) ?mid)"
    using r1 r2 by (meson rtranclp.rtrancl_into_rtrancl rtranclp_trans)
  moreover have "row_steps lp (set_binding (b\<lparr>rb_active_generation := Some (gn_id ?g),
      rb_current_revision := Some ?i\<rparr>) ?mid) lg5"
    by (rule for_each_rows [OF _ lg5])
      (auto simp: activation_artifact_def try_res_eq_Inr intro: one_row row_artifact)
  moreover have "row_steps lp lg5 lg6"
    by (rule for_each_rows [OF _ lg6]) (auto intro: one_row row_operation)
  moreover have "row_steps lp lg6 lg'"
    by (rule for_each_rows [OF _ events]) (auto intro: one_row row_event)
  ultimately show ?thesis by (meson rtranclp_trans)
qed

definition reserving :: "attempt_reservation \<Rightarrow> ledger \<Rightarrow> ledger" where
  "reserving r lg = (let n = next_attempt_number lg; i = of_nat n in
     lg\<lparr>lg_next_attempt := n + 1,
       lg_store := (lg_store lg)\<lparr>db_attempts := db_attempts (lg_store lg) @ [reserved_row r i]\<rparr>,
       lg_attempt_scopes := lg_attempt_scopes lg @ [(i, xs_generation_id (rs_scope r), rs_revision_id r)]\<rparr>)"

definition reserved_metadata :: "attempt_reservation \<Rightarrow> attempt_id \<Rightarrow> attempt_metadata" where
  "reserved_metadata r i = \<lparr>am_attempt_id = i, am_artifact_id = ar_id (rs_artifact r),
     am_location = \<lparr>pl_root_alias = ar_root_alias (rs_artifact r),
       pl_relative_path = ar_relative_path (rs_artifact r)\<rparr>, am_process = None\<rparr>"

lemma reserve_attempt_cases:
  assumes "reserve_attempt lp f r lg = Inr (i, lg')"
  obtains g lg1 where "scope_ok lg f (rs_scope r) (Some (rs_revision_id r)) = Inr ()"
    "revision_task lp lg (rs_scope r) (rs_revision_id r) (rs_task_id r) = Inr ()"
    "generation lg (xs_generation_id (rs_scope r)) = Some g" "next_attempt_number lg < 2 ^ 32"
    "i = of_nat (next_attempt_number lg)" "i \<notin> at_attempt_id ` set (db_attempts (lg_store lg))"
    "insert_artifact_row persistence_error ((rs_artifact r)\<lparr>ar_attempt_id := Some i\<rparr>) (gn_repository_id g)
       (reserving r lg) = Inr lg1"
    "ar_id (rs_artifact r) \<notin> am_artifact_id ` set (lg_attempt_metadata lg1)"
    "i \<notin> am_attempt_id ` set (lg_attempt_metadata lg1)"
    "insert_operation f (rs_spawn_intent r)
        (lg1\<lparr>lg_attempt_metadata := lg_attempt_metadata lg1 @ [reserved_metadata r i]\<rparr>) = Inr lg'"
  using assms
  by (auto simp: reserve_attempt_def op_unfold reserving_def reserved_metadata_def reserved_row_def)

lemma reserve_attempt_rows:
  assumes "reserve_attempt lp f r lg = Inr (i, lg')" shows "row_steps lp lg lg'"
  using assms
proof (rule reserve_attempt_cases)
  fix g lg1
  assume scope: "scope_ok lg f (rs_scope r) (Some (rs_revision_id r)) = Inr ()"
    and task: "revision_task lp lg (rs_scope r) (rs_revision_id r) (rs_task_id r) = Inr ()"
    and g: "generation lg (xs_generation_id (rs_scope r)) = Some g" and n: "next_attempt_number lg < 2 ^ 32"
    and i: "i = of_nat (next_attempt_number lg)" "i \<notin> at_attempt_id ` set (db_attempts (lg_store lg))"
    and lg1: "insert_artifact_row persistence_error ((rs_artifact r)\<lparr>ar_attempt_id := Some i\<rparr>) (gn_repository_id g)
       (reserving r lg) = Inr lg1"
    and md: "ar_id (rs_artifact r) \<notin> am_artifact_id ` set (lg_attempt_metadata lg1)"
      "i \<notin> am_attempt_id ` set (lg_attempt_metadata lg1)"
    and op: "insert_operation f (rs_spawn_intent r)
        (lg1\<lparr>lg_attempt_metadata := lg_attempt_metadata lg1 @ [reserved_metadata r i]\<rparr>) = Inr lg'"
  have "row_step lp lg (reserving r lg)"
    using row_attempt [OF scope g n, of "reserved_row r i"] task i
    by (simp add: reserving_def reserved_row_def Let_def)
  moreover have "row_step lp (reserving r lg) lg1" using lg1 by (rule row_artifact)
  moreover have "row_step lp lg1 (lg1\<lparr>lg_attempt_metadata := lg_attempt_metadata lg1 @ [reserved_metadata r i]\<rparr>)"
    using insert_artifact_row_Inr [THEN iffD1, OF lg1] md i
    by (intro row_metadata)
      (auto simp: artifact_exists_def attempt_exists_def has_key_iff reserved_row_def reserved_metadata_def
        reserving_def Let_def)
  moreover have "row_step lp (lg1\<lparr>lg_attempt_metadata := lg_attempt_metadata lg1 @ [reserved_metadata r i]\<rparr>) lg'"
    using op by (rule row_operation)
  ultimately show ?thesis by (meson converse_rtranclp_into_rtranclp rtranclp.rtrancl_refl)
qed

lemma update_scoped_attempt_rows: "update_scoped_attempt f a lg = Inr lg' \<Longrightarrow> row_steps lp lg lg'"
  by (auto simp: update_scoped_attempt_def op_unfold intro!: one_row row_attempt_update)

lemma record_scoped_evidence_rows: "record_scoped_evidence f s i e lg = Inr lg' \<Longrightarrow> row_steps lp lg lg'"
  by (auto simp: record_scoped_evidence_def op_unfold intro!: one_row row_evidence)

lemma register_driver_rows: "register_driver f d lg = Inr lg' \<Longrightarrow> row_steps lp lg lg'"
  by (auto simp: register_driver_def validate_driver_def op_unfold intro!: one_row row_driver)

lemma update_driver_rows: "update_driver f d lg = Inr lg' \<Longrightarrow> row_steps lp lg lg'"
  by (auto simp: update_driver_def op_unfold dest: find_by_Some intro!: one_row row_driver_update)

lemma enqueue_rows:
  assumes "enqueue lp client q lg = Inr (view, lg')" shows "row_steps lp lg lg'"
proof (cases "matching_request lg q")
  case None
  obtain d where d: "find_by dv_id (request_driver (cq_target q)) (lg_drivers lg) = Some d"
    "dv_process d = Some (cq_process q)" "request_target_ok lp lg (cq_target q) (dv_target d) = Inr ()"
    using assms by (auto simp: enqueue_def op_unfold)
  have "request_names d q"
    using d(2,3) find_by_Some [OF d(1)]
    by (auto simp: request_names_def request_target_ok_def split: cancellation_target.splits driver_target.splits
        if_splits)
  then show ?thesis
    using assms None find_by_Some [OF d(1)]
    by (auto simp: enqueue_def op_unfold intro!: one_row row_request)
next
  case (Some x)
  then show ?thesis using assms by (auto simp: enqueue_def op_unfold split: prod.splits)
qed

lemma acknowledge_rows: "acknowledge_cancellation f i st lg = Inr lg' \<Longrightarrow> row_steps lp lg lg'"
  by (auto simp: acknowledge_cancellation_def op_unfold split: prod.splits intro!: one_row row_acknowledge)

lemmas operation_rows =
  bind_repository_rows register_root_rows insert_generation_rows insert_artifacts_rows append_fact_rows
  append_journal_rows create_run_binding_rows create_provisional_rows promote_provisional_rows
  append_revision_rows authorize_revision_rows project_revision_rows select_revision_rows
  activate_generation_rows append_scoped_event_rows update_scoped_attempt_rows
  record_scoped_evidence_rows append_operation_rows
  append_operation_step_rows register_driver_rows update_driver_rows bind_artifact_rows acknowledge_rows

lemma map_sum_snd_Inr: "map_sum (\<lambda>e. e) snd m = Inr y \<longleftrightarrow> (\<exists>x. m = Inr (x, y))"
  by (cases m) auto

lemma run_op_rows: "run_op lp op lg = Inr lg' \<Longrightarrow> row_steps lp lg lg'"
  by (cases op) (auto simp: map_sum_snd_Inr intro: operation_rows reserve_attempt_rows enqueue_rows)

section \<open>Invariants and histories of sessions\<close>

locale row_invariant =
  fixes lp :: ledger_ports and inv :: "ledger \<Rightarrow> bool"
  assumes row: "row_step lp lg lg' \<Longrightarrow> inv lg \<Longrightarrow> inv lg'"
begin

lemma rows: "row_steps lp lg lg' \<Longrightarrow> inv lg \<Longrightarrow> inv lg'"
  by (induction rule: rtranclp_induct) (auto intro: row)

lemma operation: "run_op lp op lg = Inr lg' \<Longrightarrow> inv lg \<Longrightarrow> inv lg'"
  by (blast intro: rows run_op_rows)

lemma session: "ledger_run lp lg ops lg' \<Longrightarrow> inv lg \<Longrightarrow> inv lg'"
  by (induction rule: ledger_run.induct) (auto elim!: ledger_stepE intro: operation)

end

locale row_history =
  fixes lp :: ledger_ports and hist :: "ledger \<Rightarrow> ledger \<Rightarrow> bool"
  assumes same: "hist lg lg"
    and later: "hist lg lg1 \<Longrightarrow> hist lg1 lg2 \<Longrightarrow> hist lg lg2"
    and row: "row_step lp lg lg' \<Longrightarrow> hist lg lg'"
begin

lemma rows: "row_steps lp lg lg' \<Longrightarrow> hist lg lg'"
  by (induction rule: rtranclp_induct) (auto intro: same later row)

lemma session: "ledger_run lp lg ops lg' \<Longrightarrow> hist lg lg'"
  by (induction rule: ledger_run.induct) (auto elim!: ledger_stepE intro: same later rows run_op_rows)

end

end
