(* ===== verification/Adapter_Ledger_Sample.thy ===== *)
theory Adapter_Ledger_Sample
  imports Adapter_Ledger_Rows
begin

text \<open>
  A session of the ledger evaluated operation by operation: a repository is bound, a root
  registered, a run bound; a plan revision is appended, authorised and projected; a generation is
  activated with an artifact, an operation and an event; an attempt is reserved, a step logged, a
  driver registered, a cancellation queued and acknowledged. The properties of sessions are
  applied to it.
\<close>

definition sample_fence :: fence where
  "sample_fence = \<lparr>fn_repository = \<lparr>rr_id = ''repo'', rr_common_dir_identity = ''common''\<rparr>,
     fn_validate = Inr (), fn_ledger_identity = ''file'',
     fn_root = (\<lambda>a. Inr \<lparr>ro_repository_id = ''repo'', ro_alias = a, ro_native_identity = ''dir''\<rparr>),
     fn_verify_handle = Inr (), fn_file_identity = Inr ''file''\<rparr>"

definition sample_ports :: ledger_ports where
  "sample_ports = \<lparr>lp_sha256_hex = (\<lambda>s. ''hash''), lp_parse_plan = (\<lambda>s. Some sample_graph), lp_topo = ref_port\<rparr>"

definition ledger0 :: ledger where
  "ledger0 = \<lparr>lg_store = empty_store\<lparr>db_runs := [\<lparr>rd_graph_id = ''g-1'', rd_plan_state = ''AwaitingPlanReview'',
       rd_run_base = ''base'', rd_integrate_ref = ''ref'', rd_plan_json = ''old'', rd_plan_id = ''old-hash'',
       rd_created_at = ''t0'', rd_review_note = None\<rparr>]\<rparr>,
     lg_database_identity = Some ''file'', lg_repositories = [], lg_roots = [], lg_generations = [],
     lg_artifacts = [], lg_dependencies = [], lg_facts = [], lg_journal = [], lg_bindings = [],
     lg_provisionals = [], lg_revisions = [], lg_authorizations = [], lg_generation_revisions = [],
     lg_promotions = [], lg_operations = [], lg_steps = [], lg_drivers = [], lg_requests = [],
     lg_artifact_bindings = [], lg_next_attempt = 0, lg_attempt_scopes = [], lg_attempt_metadata = [],
     lg_event_scopes = []\<rparr>"

definition sample_binding :: run_binding where
  "sample_binding = \<lparr>rb_graph_id = ''g-1'', rb_repository_id = ''repo'',
     rb_location = \<lparr>pl_root_alias = ''main'', pl_relative_path = ''run''\<rparr>, rb_layout_version = 1,
     rb_active_generation = None, rb_current_revision = None\<rparr>"

definition sample_revision :: plan_revision_snapshot where
  "sample_revision = \<lparr>sn_metadata = \<lparr>pr_id = ''rev-1'', pr_repository_id = ''repo'', pr_graph_id = ''g-1'',
     pr_generation_id = None, pr_predecessor = None, pr_plan_hash = ''hash''\<rparr>, sn_plan_json = ''plan''\<rparr>"

definition sample_authorization :: revision_authorization where
  "sample_authorization = \<lparr>ra_id = ''auth-1'', ra_revision_id = ''rev-1'', ra_kind = Auth_Human,
     ra_decision = Revision_Accepted, ra_actor = ''alice''\<rparr>"

definition sample_generation :: generation_record where
  "sample_generation = \<lparr>gn_id = ''gen-1'', gn_repository_id = ''repo'', gn_graph_id = ''g-1'', gn_ordinal = 1,
     gn_accepted_plan_hash = ''hash'', gn_root_alias = ''main'', gn_relative_path = ''run/gen-1'',
     gn_layout_version = 1\<rparr>"

definition sample_expected :: expected_state where
  "sample_expected = \<lparr>es_source_artifact = None, es_source = None, es_base = None, es_location = None,
     es_native_identity = None, es_head = None, es_reference = None, es_registered = True, es_exists = True\<rparr>"

definition sample_operation :: "lifecycle_id \<Rightarrow> lifecycle_id \<Rightarrow> producer_kind \<Rightarrow> producer_operation" where
  "sample_operation i target kind = \<lparr>op_id = i, op_repository_id = ''repo'', op_graph_id = Some ''g-1'',
     op_generation_id = Some ''gen-1'', op_target = TargetArtifact target, op_kind = kind,
     op_before = sample_expected, op_after = sample_expected, op_max_steps = 1\<rparr>"

definition sample_artifact :: "lifecycle_id \<Rightarrow> artifact_kind \<Rightarrow> artifact_record" where
  "sample_artifact i kind = \<lparr>ar_id = i, ar_generation_id = ''gen-1'', ar_kind = kind, ar_root_alias = ''main'',
     ar_relative_path = ''run/gen-1/tree'', ar_attempt_id = None\<rparr>"

definition sample_transition :: transition_record where
  "sample_transition = \<lparr>tr_graph_id = ''g-1'', tr_task_id = 1, tr_attempt_id = None, tr_from = Pending,
     tr_to = Ready, tr_event = DependencySatisfied, tr_reason = None, tr_executor = [], tr_occurred_at = ''t1''\<rparr>"

definition sample_activation :: generation_activation where
  "sample_activation = \<lparr>ga_generation = sample_generation, ga_revision = sample_revision,
     ga_authorization = sample_authorization, ga_artifacts = [sample_artifact ''plan-1'' Kind_Plan],
     ga_operations = [sample_operation ''op-1'' ''plan-1'' Prod_Plan], ga_events = [sample_transition]\<rparr>"

definition sample_scope :: execution_scope where
  "sample_scope = \<lparr>xs_repository_id = ''repo'', xs_graph_id = ''g-1'', xs_generation_id = ''gen-1''\<rparr>"

definition sample_reservation :: attempt_reservation where
  "sample_reservation = \<lparr>rs_scope = sample_scope, rs_revision_id = ''rev-1'', rs_task_id = 1,
     rs_harness = None, rs_model_ref = None, rs_artifact = sample_artifact ''tree-1'' Kind_Attempt,
     rs_spawn_intent = sample_operation ''op-2'' ''tree-1'' Prod_Spawn\<rparr>"

definition sample_step :: operation_step where
  "sample_step = \<lparr>os_id = ''step-1'', os_operation_id = ''op-1'', os_step = 1, os_observed = sample_expected,
     os_state = Op_Completed, os_error_code = None\<rparr>"

definition sample_process :: process_identity where
  "sample_process = \<lparr>pi_pid = 7, pi_creation_token = ''ct'', pi_tree_token = ''tt''\<rparr>"

definition sample_driver :: driver_record where
  "sample_driver = \<lparr>dv_id = ''drv-1'', dv_nonce = ''n'', dv_target = DriverExecution sample_scope,
     dv_process = Some sample_process, dv_phase = Drv_Running, dv_heartbeat = 1, dv_error_code = None,
     dv_diagnostic = None\<rparr>"

definition sample_request :: cancellation_request where
  "sample_request = \<lparr>cq_id = ''req-1'', cq_target = CancelExecution sample_scope ''drv-1'' (Some 1),
     cq_process = sample_process, cq_created_at = 2\<rparr>"

lemmas sample_records =
  sample_fence_def sample_ports_def sample_binding_def sample_revision_def sample_authorization_def
  sample_generation_def sample_expected_def sample_operation_def sample_artifact_def sample_transition_def
  sample_activation_def sample_scope_def sample_reservation_def sample_step_def sample_process_def
  sample_driver_def sample_request_def

section \<open>The session\<close>

definition ledger1 :: ledger where
  "ledger1 = ledger0\<lparr>lg_repositories := [(\<lparr>rr_id = ''repo'', rr_common_dir_identity = ''common''\<rparr>, ''file'')],
     lg_roots := [(''main'', \<lparr>ro_repository_id = ''repo'', ro_alias = ''main'', ro_native_identity = ''dir''\<rparr>)],
     lg_bindings := [sample_binding],
     lg_store := (lg_store ledger0)\<lparr>db_bindings := [''g-1'']\<rparr>\<rparr>"

lemmas ledger_eval =
  validate_fence_def repository_row_def find_by_def repository_exists_def run_exists_def root_exists_def
  has_key_def insert_row_def require_def ok_or_def binding_def revision_snapshot_def authorized_def
  authorizations_def generation_exists_def revision_exists_def generation_def run_row_of_def
  artifact_exists_def attempt_exists_def artifact_row_def opt_holds_def scope_ok_def commit_def
  set_binding_def set_plan_def

lemma bind_ops:
  "try_res (bind_repository sample_fence ledger0) (\<lambda>lg. try_res (register_root sample_fence ''main'' lg)
     (create_run_binding sample_fence sample_binding)) = Inr ledger1"
  by (simp add: sample_records ledger0_def ledger1_def bind_repository_def register_root_def
      create_run_binding_def ledger_eval store_eval)

lemma sample_plan_matches: "plan_matches sample_ports sample_revision"
  using validate_iff_graph_wf_witness
  by (simp add: plan_matches_def sample_records) (simp add: sample_graph_def)

definition ledger2 :: ledger where
  "ledger2 = ledger1\<lparr>lg_revisions := [sample_revision], lg_authorizations := [sample_authorization],
     lg_bindings := [sample_binding\<lparr>rb_current_revision := Some ''rev-1''\<rparr>],
     lg_store := (lg_store ledger1)\<lparr>db_runs := map (\<lambda>r. r\<lparr>rd_plan_json := ''plan'', rd_plan_id := ''hash'',
       rd_plan_state := ''PlanAccepted''\<rparr>) (db_runs (lg_store ledger0))\<rparr>\<rparr>"

lemma sample_append: "append_revision sample_ports sample_fence sample_revision ledger1 =
    Inr (ledger1\<lparr>lg_revisions := [sample_revision]\<rparr>)"
  using sample_plan_matches
  by (simp add: append_revision_def insert_revision_def ledger_eval ledger0_def ledger1_def Let_def
      store_eval sample_records)

lemma sample_authorize: "authorize_revision sample_fence sample_authorization
    (ledger1\<lparr>lg_revisions := [sample_revision]\<rparr>) =
    Inr (ledger1\<lparr>lg_revisions := [sample_revision], lg_authorizations := [sample_authorization]\<rparr>)"
  by (simp add: authorize_revision_def insert_authorization_def ledger_eval ledger0_def ledger1_def
      store_eval sample_records)

lemma sample_project: "project_revision sample_fence ''g-1'' ''rev-1''
    (ledger1\<lparr>lg_revisions := [sample_revision], lg_authorizations := [sample_authorization]\<rparr>) = Inr ledger2"
  by (simp add: project_revision_def install_revision_def follows_current_def projected_state_def
      ledger_eval ledger0_def ledger1_def ledger2_def store_eval sample_records)

definition ledger3 :: ledger where
  "ledger3 = ledger2\<lparr>lg_generations := [sample_generation], lg_generation_revisions := [(''gen-1'', ''rev-1'')],
     lg_bindings := [sample_binding\<lparr>rb_active_generation := Some ''gen-1'', rb_current_revision := Some ''rev-1''\<rparr>],
     lg_artifacts := [(sample_artifact ''plan-1'' Kind_Plan, ''repo'')],
     lg_operations := [(sample_operation ''op-1'' ''plan-1'' Prod_Plan, True)],
     lg_event_scopes := [Some (''gen-1'', ''rev-1'')],
     lg_store := (lg_store ledger2)\<lparr>db_events := [event_row_of sample_transition]\<rparr>\<rparr>"

lemma public_empty: "public_text []"
  by (simp add: public_text_def)

lemma sample_activate: "activate_generation sample_ports sample_fence sample_activation ledger2 = Inr ledger3"
  using public_empty
  by (simp add: activate_generation_def activation_consistent_def ensure_revision_def ensure_authorization_def
      insert_generation_row_def generation_row_ok_def activation_artifact_def insert_artifact_row_def
      artifact_row_ok_def insert_operation_def operation_target_ok_def pending_claim_def insert_event_def
      revision_task_def ledger_eval ledger0_def ledger1_def ledger2_def ledger3_def store_eval
      sample_records Let_def sample_graph_def sample_node_def)

definition ledger4 :: ledger where
  "ledger4 = ledger3\<lparr>lg_next_attempt := 2, lg_attempt_scopes := [(1, ''gen-1'', ''rev-1'')],
     lg_artifacts := lg_artifacts ledger3 @
       [((sample_artifact ''tree-1'' Kind_Attempt)\<lparr>ar_attempt_id := Some 1\<rparr>, ''repo'')],
     lg_attempt_metadata := [\<lparr>am_attempt_id = 1, am_artifact_id = ''tree-1'',
       am_location = \<lparr>pl_root_alias = ''main'', pl_relative_path = ''run/gen-1/tree''\<rparr>, am_process = None\<rparr>],
     lg_operations := lg_operations ledger3 @ [(sample_operation ''op-2'' ''tree-1'' Prod_Spawn, True)],
     lg_store := (lg_store ledger3)\<lparr>db_attempts := [reserved_row sample_reservation 1]\<rparr>\<rparr>"

lemma sample_reserve: "reserve_attempt sample_ports sample_fence sample_reservation ledger3 = Inr (1, ledger4)"
  by (simp add: reserve_attempt_def reservation_consistent_def next_attempt_number_def reserved_row_def
      insert_artifact_row_def artifact_row_ok_def insert_operation_def operation_target_ok_def
      pending_claim_def revision_task_def ledger_eval ledger0_def ledger1_def ledger2_def ledger3_def
      ledger4_def store_eval sample_records Let_def sample_graph_def sample_node_def)

definition ledger5 :: ledger where
  "ledger5 = ledger4\<lparr>lg_steps := [sample_step],
     lg_operations := [(sample_operation ''op-1'' ''plan-1'' Prod_Plan, False),
       (sample_operation ''op-2'' ''tree-1'' Prod_Spawn, True)],
     lg_drivers := [sample_driver], lg_requests := [(sample_request, Can_Applied)]\<rparr>"

lemma sample_log_step: "append_operation_step sample_fence sample_step ledger4 =
    Inr (ledger4\<lparr>lg_steps := [sample_step], lg_operations := lg_operations ledger5\<rparr>)"
  by (simp add: append_operation_step_def steps_of_def close_operation_def ledger_eval ledger0_def ledger1_def
      ledger2_def ledger3_def ledger4_def ledger5_def store_eval sample_records Let_def)

lemma sample_register: "register_driver sample_fence sample_driver
      (ledger4\<lparr>lg_steps := [sample_step], lg_operations := lg_operations ledger5\<rparr>) =
    Inr (ledger4\<lparr>lg_steps := [sample_step], lg_operations := lg_operations ledger5, lg_drivers := [sample_driver]\<rparr>)"
  by (simp add: register_driver_def validate_driver_def driver_target_ok_def driver_repo_def ledger_eval
      ledger0_def ledger1_def ledger2_def ledger3_def ledger4_def store_eval sample_records)

lemma sample_enqueue: "enqueue sample_ports (Inr ()) sample_request
      (ledger4\<lparr>lg_steps := [sample_step], lg_operations := lg_operations ledger5, lg_drivers := [sample_driver]\<rparr>) =
    Inr (\<lparr>cb_request = sample_request, cb_status = Can_Pending\<rparr>,
      ledger5\<lparr>lg_requests := [(sample_request, Can_Pending)]\<rparr>)"
  by (simp add: enqueue_def request_target_ok_def request_task_ok_def matching_request_def pending_requests_def
      driver_repo_def ledger_eval ledger0_def ledger1_def ledger2_def ledger3_def ledger4_def ledger5_def
      store_eval sample_records Let_def sample_graph_def sample_node_def)

lemma sample_acknowledge: "acknowledge_cancellation sample_fence ''req-1'' Can_Applied
      (ledger5\<lparr>lg_requests := [(sample_request, Can_Pending)]\<rparr>) = Inr ledger5"
  by (simp add: acknowledge_cancellation_def ledger_eval ledger0_def ledger1_def ledger2_def ledger3_def
      ledger4_def ledger5_def store_eval sample_records)

definition sample_ops :: "ledger_op list" where
  "sample_ops = [LBindRepository sample_fence, LRegisterRoot sample_fence ''main'',
     LCreateRunBinding sample_fence sample_binding, LAppendRevision sample_fence sample_revision,
     LAuthorizeRevision sample_fence sample_authorization, LProjectRevision sample_fence ''g-1'' ''rev-1'',
     LActivateGeneration sample_fence sample_activation, LReserveAttempt sample_fence sample_reservation,
     LAppendOperationStep sample_fence sample_step, LRegisterDriver sample_fence sample_driver,
     LEnqueue (Inr ()) sample_request, LAcknowledge sample_fence ''req-1'' Can_Applied]"

lemma run_Cons: "run_op lp op lg = Inr lg1 \<Longrightarrow> ledger_run lp lg1 ops lg' \<Longrightarrow> ledger_run lp lg (op # ops) lg'"
  by (blast intro: step_ok run_step)

lemma sample_session: "ledger_run sample_ports ledger0 sample_ops ledger5"
proof -
  obtain a b where ab: "bind_repository sample_fence ledger0 = Inr a"
    "register_root sample_fence ''main'' a = Inr b" "create_run_binding sample_fence sample_binding b = Inr ledger1"
    using bind_ops by (auto simp: try_res_eq_Inr)
  show ?thesis
    unfolding sample_ops_def
    by (rule run_Cons [of _ _ _ a] run_Cons [of _ _ _ b] run_Cons [of _ _ _ ledger1]
        run_Cons run_nil | simp add: ab sample_append sample_authorize sample_project sample_activate
        sample_reserve sample_log_step sample_register sample_enqueue sample_acknowledge)+
qed

end
