(* ===== verification/Adapter_Ledger_Inv.thy ===== *)
theory Adapter_Ledger_Inv
  imports Adapter_Ledger_Sample "HOL-Library.Sublist"
begin

text \<open>
  What holds of every ledger that a session of operations reaches: keys are unique and every
  reference is to a row that exists (\<open>ledger_wf\<close>), and what a later ledger keeps of an earlier one
  (\<open>history\<close>): all audit tables only grow at the end, and of the rows that may change only the
  documented columns do, in the documented direction.
\<close>

section \<open>Unique keys\<close>

definition keys_ok :: "ledger \<Rightarrow> bool" where
  "keys_ok lg \<longleftrightarrow>
     length (lg_repositories lg) \<le> 1 \<and>
     distinct (map (\<lambda>(a, r). (ro_repository_id r, a)) (lg_roots lg)) \<and>
     distinct (map gn_id (lg_generations lg)) \<and>
     distinct (map (\<lambda>g. (gn_repository_id g, gn_graph_id g, gn_ordinal g)) (lg_generations lg)) \<and>
     distinct (map (\<lambda>r. ar_id (fst r)) (lg_artifacts lg)) \<and>
     distinct (map (\<lambda>d. (dp_artifact_id d, dp_requires_artifact_id d)) (lg_dependencies lg)) \<and>
     distinct (map lf_id (lg_facts lg)) \<and> distinct (map je_id (lg_journal lg)) \<and>
     distinct (map rb_graph_id (lg_bindings lg)) \<and> distinct (map po_id (lg_provisionals lg)) \<and>
     distinct (map (\<lambda>r. pr_id (sn_metadata r)) (lg_revisions lg)) \<and>
     distinct (map ra_id (lg_authorizations lg)) \<and>
     distinct (map fst (lg_generation_revisions lg)) \<and>
     distinct (map (\<lambda>m. (pp_owner_id m, pp_artifact_id m)) (lg_promotions lg)) \<and>
     distinct (map (\<lambda>r. op_id (fst r)) (lg_operations lg)) \<and> distinct (map os_id (lg_steps lg)) \<and>
     distinct (map dv_id (lg_drivers lg)) \<and>
     distinct (map (\<lambda>r. cq_id (fst r)) (lg_requests lg)) \<and>
     distinct (map (\<lambda>r. cq_target (fst r)) (lg_requests lg)) \<and>
     distinct (map ab_artifact_id (lg_artifact_bindings lg)) \<and>
     distinct (map at_attempt_id (db_attempts (lg_store lg))) \<and>
     distinct (map am_attempt_id (lg_attempt_metadata lg)) \<and>
     distinct (map am_artifact_id (lg_attempt_metadata lg))"

text \<open>Updates in place keep the key of every row.\<close>

lemma fst_pair_update [simp]: "fst (case r of (x, s) \<Rightarrow> (x, g x s)) = fst r"
  by (simp split: prod.split)

lemma key_of_update [simp]:
  "rb_graph_id (if rb_graph_id x = g then c else x) = (if rb_graph_id x = g then rb_graph_id c else rb_graph_id x)"
  "dv_id (if dv_id y = i then d else y) = (if dv_id y = i then dv_id d else dv_id y)"
  by simp_all

lemma if_eq_then [simp]: "(if a = b then b else a) = a"
  by simp

lemma close_operation_tables [simp]:
  "lg_operations (close_operation i lg) =
     map (\<lambda>(p, pending). (p, if op_id p = i then False else pending)) (lg_operations lg)"
  "lg_steps (close_operation i lg) = lg_steps lg"
  by (simp_all add: close_operation_def)

lemma close_operation_others [simp]:
  "lg_store (close_operation i lg) = lg_store lg"
  "lg_repositories (close_operation i lg) = lg_repositories lg"
  "lg_roots (close_operation i lg) = lg_roots lg"
  "lg_generations (close_operation i lg) = lg_generations lg"
  "lg_artifacts (close_operation i lg) = lg_artifacts lg"
  "lg_dependencies (close_operation i lg) = lg_dependencies lg"
  "lg_facts (close_operation i lg) = lg_facts lg"
  "lg_journal (close_operation i lg) = lg_journal lg"
  "lg_bindings (close_operation i lg) = lg_bindings lg"
  "lg_provisionals (close_operation i lg) = lg_provisionals lg"
  "lg_revisions (close_operation i lg) = lg_revisions lg"
  "lg_authorizations (close_operation i lg) = lg_authorizations lg"
  "lg_generation_revisions (close_operation i lg) = lg_generation_revisions lg"
  "lg_promotions (close_operation i lg) = lg_promotions lg"
  "lg_drivers (close_operation i lg) = lg_drivers lg"
  "lg_requests (close_operation i lg) = lg_requests lg"
  "lg_artifact_bindings (close_operation i lg) = lg_artifact_bindings lg"
  "lg_attempt_scopes (close_operation i lg) = lg_attempt_scopes lg"
  "lg_attempt_metadata (close_operation i lg) = lg_attempt_metadata lg"
  "lg_event_scopes (close_operation i lg) = lg_event_scopes lg"
  by (simp_all add: close_operation_def)

lemmas row_inversions =
  insert_generation_row_Inr insert_artifact_row_Inr

lemmas row_dests =
  insert_one_dependency_Inr insert_revision_Inr insert_authorization_Inr insert_operation_Inr
  insert_event_Inr

lemma matching_None: "matching_request lg q = None \<longleftrightarrow>
    cq_id q \<notin> (\<lambda>r. cq_id (fst r)) ` set (lg_requests lg) \<and>
    cq_target q \<notin> (\<lambda>r. cq_target (fst r)) ` set (lg_requests lg)"
proof -
  have "matching_request lg q = None \<longleftrightarrow>
      (\<forall>r \<in> set (lg_requests lg). cq_id (fst r) \<noteq> cq_id q \<and> cq_target (fst r) \<noteq> cq_target q)"
    by (auto simp: matching_request_def find_None_iff case_prod_unfold)
  then show ?thesis by (auto simp: image_iff)
qed

lemma keys_ok_row:
  assumes "row_step lp lg lg'" and ok: "keys_ok lg" shows "keys_ok lg'"
  using assms(1)
proof cases
  case (row_dependency f d)
  then show ?thesis using ok insert_one_dependency_Inr [OF row_dependency] by (clarsimp simp: keys_ok_def)
next
  case (row_revision f r)
  then show ?thesis using ok insert_revision_Inr [OF row_revision] by (clarsimp simp: keys_ok_def)
next
  case (row_authorization f au)
  then show ?thesis using ok insert_authorization_Inr [OF row_authorization] by (clarsimp simp: keys_ok_def)
next
  case (row_operation f op)
  then show ?thesis using ok insert_operation_Inr [OF row_operation] by (clarsimp simp: keys_ok_def)
next
  case (row_event f ev)
  then show ?thesis using ok insert_event_Inr [OF row_event] by (clarsimp simp: keys_ok_def)
qed (use ok in \<open>simp_all add: keys_ok_def row_inversions generation_row_ok_def has_key_iff matching_None
  install_revision_def set_binding_def set_plan_def comp_def cong: if_cong\<close>)

interpretation keys: row_invariant lp keys_ok for lp
  by unfold_locales (rule keys_ok_row)

section \<open>History\<close>

text \<open>A table whose rows stay in place and change within \<open>R\<close> while rows may be added at the end.\<close>

definition keeps :: "('r \<Rightarrow> 'r \<Rightarrow> bool) \<Rightarrow> 'r list \<Rightarrow> 'r list \<Rightarrow> bool" where
  "keeps R xs ys \<longleftrightarrow> (\<exists>olds news. ys = olds @ news \<and> list_all2 R xs olds)"

lemma keeps_refl: "(\<And>x. R x x) \<Longrightarrow> keeps R xs xs"
  by (auto simp: keeps_def intro: list.rel_refl exI [of _ "[]"])

lemma keeps_trans:
  assumes "\<And>x y z. R x y \<Longrightarrow> R y z \<Longrightarrow> R x z" and "keeps R xs ys" and "keeps R ys zs"
  shows "keeps R xs zs"
proof -
  obtain o1 n1 o2 n2 where eq: "ys = o1 @ n1" "list_all2 R xs o1" "zs = o2 @ n2" "list_all2 R (o1 @ n1) o2"
    using assms(2,3) by (auto simp: keeps_def)
  obtain a b where ab: "o2 = a @ b" "list_all2 R o1 a" using eq(4) by (auto simp: list_all2_append1)
  have "list_all2 R xs a" using list_all2_trans [OF assms(1) eq(2) ab(2)] .
  then show ?thesis using eq ab by (auto simp: keeps_def)
qed

lemma keeps_append: "(\<And>x. R x x) \<Longrightarrow> keeps R xs (xs @ ys)"
  by (auto simp: keeps_def intro: list.rel_refl)

lemma keeps_map: "(\<And>x. x \<in> set xs \<Longrightarrow> R x (f x)) \<Longrightarrow> keeps R xs (map f xs)"
  unfolding keeps_def
  by (rule exI [of _ "map f xs"], rule exI [of _ "[]"]) (simp add: list_all2_map2 list.rel_refl_strong)

lemma keeps_list_ex:
  assumes "keeps R xs ys" "list_ex p xs" "\<And>x y. R x y \<Longrightarrow> p x \<Longrightarrow> p y" shows "list_ex p ys"
proof -
  obtain a b where ab: "ys = a @ b" "list_all2 R xs a" using assms(1) by (auto simp: keeps_def)
  from ab(2) assms(2,3) have "list_ex p a" by (induction rule: list_all2_induct) auto
  then show ?thesis using ab by simp
qed

definition operation_kept :: "producer_operation \<times> bool \<Rightarrow> producer_operation \<times> bool \<Rightarrow> bool" where
  "operation_kept o1 o2 \<longleftrightarrow> fst o2 = fst o1 \<and> (snd o2 \<longrightarrow> snd o1)"

definition request_kept ::
  "cancellation_request \<times> cancellation_status \<Rightarrow> cancellation_request \<times> cancellation_status \<Rightarrow> bool" where
  "request_kept q1 q2 \<longleftrightarrow> fst q2 = fst q1 \<and> (snd q1 \<noteq> Can_Pending \<longrightarrow> snd q2 = snd q1)"

definition driver_kept :: "driver_record \<Rightarrow> driver_record \<Rightarrow> bool" where
  "driver_kept d1 d2 \<longleftrightarrow>
     dv_id d2 = dv_id d1 \<and> dv_target d2 = dv_target d1 \<and> dv_nonce d2 = dv_nonce d1 \<and>
     (dv_process d1 \<noteq> None \<longrightarrow> dv_process d2 = dv_process d1) \<and> dv_heartbeat d1 \<le> dv_heartbeat d2"

definition binding_kept :: "run_binding \<Rightarrow> run_binding \<Rightarrow> bool" where
  "binding_kept b1 b2 \<longleftrightarrow>
     rb_graph_id b2 = rb_graph_id b1 \<and> rb_repository_id b2 = rb_repository_id b1 \<and>
     rb_location b2 = rb_location b1 \<and> rb_layout_version b2 = rb_layout_version b1 \<and>
     (rb_active_generation b1 \<noteq> None \<longrightarrow> rb_active_generation b2 \<noteq> None) \<and>
     (rb_current_revision b1 \<noteq> None \<longrightarrow> rb_current_revision b2 \<noteq> None)"

definition attempt_kept :: "attempt_row \<Rightarrow> attempt_row \<Rightarrow> bool" where
  "attempt_kept a1 a2 \<longleftrightarrow>
     at_attempt_id a2 = at_attempt_id a1 \<and> at_graph_id a2 = at_graph_id a1 \<and>
     at_task_id a2 = at_task_id a1 \<and> at_harness a2 = at_harness a1 \<and> at_model_ref a2 = at_model_ref a1"

definition metadata_kept :: "attempt_metadata \<Rightarrow> attempt_metadata \<Rightarrow> bool" where
  "metadata_kept m1 m2 \<longleftrightarrow> am_attempt_id m2 = am_attempt_id m1 \<and>
     am_artifact_id m2 = am_artifact_id m1 \<and> am_location m2 = am_location m1"

definition run_kept :: "run_db \<Rightarrow> run_db \<Rightarrow> bool" where
  "run_kept r1 r2 \<longleftrightarrow> rd_graph_id r2 = rd_graph_id r1 \<and> rd_run_base r2 = rd_run_base r1 \<and>
     rd_integrate_ref r2 = rd_integrate_ref r1 \<and> rd_created_at r2 = rd_created_at r1"

lemmas kept_defs = operation_kept_def request_kept_def driver_kept_def binding_kept_def
  attempt_kept_def metadata_kept_def run_kept_def

definition history :: "ledger \<Rightarrow> ledger \<Rightarrow> bool" where
  "history lg lg' \<longleftrightarrow>
     prefix (lg_repositories lg) (lg_repositories lg') \<and> prefix (lg_roots lg) (lg_roots lg') \<and>
     prefix (lg_generations lg) (lg_generations lg') \<and> prefix (lg_artifacts lg) (lg_artifacts lg') \<and>
     prefix (lg_dependencies lg) (lg_dependencies lg') \<and> prefix (lg_facts lg) (lg_facts lg') \<and>
     prefix (lg_journal lg) (lg_journal lg') \<and> prefix (lg_provisionals lg) (lg_provisionals lg') \<and>
     prefix (lg_revisions lg) (lg_revisions lg') \<and>
     prefix (lg_authorizations lg) (lg_authorizations lg') \<and>
     prefix (lg_generation_revisions lg) (lg_generation_revisions lg') \<and>
     prefix (lg_promotions lg) (lg_promotions lg') \<and> prefix (lg_steps lg) (lg_steps lg') \<and>
     prefix (lg_artifact_bindings lg) (lg_artifact_bindings lg') \<and>
     prefix (lg_attempt_scopes lg) (lg_attempt_scopes lg') \<and>
     prefix (lg_event_scopes lg) (lg_event_scopes lg') \<and>
     prefix (db_events (lg_store lg)) (db_events (lg_store lg')) \<and>
     prefix (db_evidence (lg_store lg)) (db_evidence (lg_store lg')) \<and>
     keeps operation_kept (lg_operations lg) (lg_operations lg') \<and>
     keeps request_kept (lg_requests lg) (lg_requests lg') \<and>
     keeps driver_kept (lg_drivers lg) (lg_drivers lg') \<and>
     keeps binding_kept (lg_bindings lg) (lg_bindings lg') \<and>
     keeps attempt_kept (db_attempts (lg_store lg)) (db_attempts (lg_store lg')) \<and>
     keeps metadata_kept (lg_attempt_metadata lg) (lg_attempt_metadata lg') \<and>
     list_all2 run_kept (db_runs (lg_store lg)) (db_runs (lg_store lg')) \<and>
     lg_next_attempt lg \<le> lg_next_attempt lg'"

lemma kept_refl [simp]:
  "operation_kept a a" "request_kept b b" "driver_kept c c" "binding_kept d d" "attempt_kept e e"
  "metadata_kept f f" "run_kept g g"
  by (simp_all add: kept_defs)

lemma keeps_same [simp]:
  "keeps operation_kept a a" "keeps request_kept b b" "keeps driver_kept c c" "keeps binding_kept d d"
  "keeps attempt_kept e e" "keeps metadata_kept f f"
  by (simp_all add: keeps_refl)

lemma runs_same [simp]: "list_all2 run_kept rs rs"
  by (simp add: list.rel_refl)

lemma keeps_snoc [simp]:
  "keeps operation_kept a (a @ a')" "keeps request_kept b (b @ b')" "keeps driver_kept c (c @ c')"
  "keeps binding_kept d (d @ d')" "keeps attempt_kept e (e @ e')" "keeps metadata_kept f (f @ f')"
  by (simp_all add: keeps_append)

lemma history_refl: "history lg lg"
  by (simp add: history_def)

lemma history_trans:
  assumes "history lg lg1" "history lg1 lg2" shows "history lg lg2"
proof -
  have "keeps operation_kept (lg_operations lg) (lg_operations lg2)"
    by (rule keeps_trans [where ys = "lg_operations lg1"]) (use assms in \<open>auto simp: history_def operation_kept_def\<close>)
  moreover have "keeps request_kept (lg_requests lg) (lg_requests lg2)"
    by (rule keeps_trans [where ys = "lg_requests lg1"]) (use assms in \<open>auto simp: history_def request_kept_def\<close>)
  moreover have "keeps driver_kept (lg_drivers lg) (lg_drivers lg2)"
    by (rule keeps_trans [where ys = "lg_drivers lg1"]) (use assms in \<open>auto simp: history_def driver_kept_def\<close>)
  moreover have "keeps binding_kept (lg_bindings lg) (lg_bindings lg2)"
    by (rule keeps_trans [where ys = "lg_bindings lg1"]) (use assms in \<open>auto simp: history_def binding_kept_def\<close>)
  moreover have "keeps attempt_kept (db_attempts (lg_store lg)) (db_attempts (lg_store lg2))"
    by (rule keeps_trans [where ys = "db_attempts (lg_store lg1)"])
      (use assms in \<open>auto simp: history_def attempt_kept_def\<close>)
  moreover have "keeps metadata_kept (lg_attempt_metadata lg) (lg_attempt_metadata lg2)"
    by (rule keeps_trans [where ys = "lg_attempt_metadata lg1"])
      (use assms in \<open>auto simp: history_def metadata_kept_def\<close>)
  moreover have "list_all2 run_kept (db_runs (lg_store lg)) (db_runs (lg_store lg2))"
    by (rule list_all2_trans [where bs = "db_runs (lg_store lg1)" and ?P1.0 = run_kept and ?P2.0 = run_kept])
      (use assms in \<open>auto simp: history_def run_kept_def\<close>)
  ultimately show ?thesis
    using assms unfolding history_def by (meson prefix_order.trans order_trans)
qed

lemma unique_row: "distinct (map k rows) \<Longrightarrow> x \<in> set rows \<Longrightarrow> y \<in> set rows \<Longrightarrow> k x = k y \<Longrightarrow> x = y"
  by (auto simp: distinct_map inj_on_def)

lemma set_plan_runs: "list_all2 run_kept rs (map (\<lambda>r. if rd_graph_id r = g
    then r\<lparr>rd_plan_json := j, rd_plan_id := h, rd_plan_state := st\<rparr> else r) rs)"
  by (simp add: list_all2_map2 run_kept_def list.rel_refl_strong)

lemma set_binding_kept:
  assumes "binding lg g = Inr old" and "keys_ok lg" and "binding_kept old b"
  shows "keeps binding_kept (lg_bindings lg)
    (map (\<lambda>x. if rb_graph_id x = rb_graph_id b then b else x) (lg_bindings lg))"
proof (rule keeps_map)
  fix x assume x: "x \<in> set (lg_bindings lg)"
  have "old \<in> set (lg_bindings lg)" using assms(1) by (auto simp: binding_Inr dest: find_by_Some)
  moreover have "rb_graph_id b = rb_graph_id old" using assms(3) by (simp add: binding_kept_def)
  ultimately show "binding_kept x (if rb_graph_id x = rb_graph_id b then b else x)"
    using assms(2,3) x unique_row [of rb_graph_id "lg_bindings lg" x old] by (auto simp: keys_ok_def)
qed

lemma driver_update_kept:
  assumes "keys_ok lg" "old \<in> set (lg_drivers lg)" "dv_id old = dv_id d" "driver_update_ok old d"
  shows "keeps driver_kept (lg_drivers lg) (map (\<lambda>x. if dv_id x = dv_id d then d else x) (lg_drivers lg))"
proof (rule keeps_map)
  fix x assume x: "x \<in> set (lg_drivers lg)"
  then have "x = old" if "dv_id x = dv_id d"
    using that assms unique_row [of dv_id "lg_drivers lg" x old] by (auto simp: keys_ok_def)
  then show "driver_kept x (if dv_id x = dv_id d then d else x)"
    using assms(3,4) by (auto simp: driver_update_ok_def driver_kept_def opt_holds_def)
qed

lemma history_row:
  assumes "row_step lp lg lg'" and ok: "keys_ok lg" shows "history lg lg'"
  using assms(1)
proof cases
  case (row_dependency f d)
  then show ?thesis using insert_one_dependency_Inr [OF row_dependency] by (auto simp: history_def)
next
  case (row_revision f r)
  then show ?thesis using insert_revision_Inr [OF row_revision] by (auto simp: history_def)
next
  case (row_authorization f au)
  then show ?thesis using insert_authorization_Inr [OF row_authorization] by (auto simp: history_def)
next
  case (row_operation f op)
  then show ?thesis using insert_operation_Inr [OF row_operation] by (auto simp: history_def)
next
  case (row_event f ev)
  then show ?thesis using insert_event_Inr [OF row_event] by (auto simp: history_def)
next
  case (row_install g b i r)
  then show ?thesis
    using set_binding_kept [OF row_install(2) ok, of "b\<lparr>rb_current_revision := Some i\<rparr>"]
    by (simp add: history_def install_revision_def set_binding_def set_plan_def set_plan_runs binding_kept_def)
next
  case (row_activate g b gid gen i r run)
  then show ?thesis
    using set_binding_kept [OF row_activate(2) ok,
        of "b\<lparr>rb_active_generation := Some gid, rb_current_revision := Some i\<rparr>"]
    by (simp add: history_def set_binding_def binding_kept_def)
next
  case (row_op_step p s n)
  then show ?thesis
    by (auto simp: history_def close_operation_def operation_kept_def intro!: keeps_map)
next
  case (row_driver_update old d)
  then show ?thesis using driver_update_kept [OF ok] by (simp add: history_def)
next
  case (row_acknowledge status i)
  then show ?thesis by (auto simp: history_def request_kept_def intro!: keeps_map)
next
  case (row_attempt_update up mp)
  then show ?thesis by (auto simp: history_def attempt_kept_def metadata_kept_def intro!: keeps_map)
next
  case (row_attempt f s rev_id gen row)
  then show ?thesis by (auto simp: history_def next_attempt_number_def)
qed (simp_all add: history_def row_inversions)

interpretation past: row_history lp "\<lambda>lg lg'. keys_ok lg \<longrightarrow> keys_ok lg' \<and> history lg lg'" for lp
  by unfold_locales (auto intro: history_refl history_trans keys_ok_row history_row)

text \<open>
  C7. The ledger is an audit trail. Whatever operations run, in whatever order, with whatever
  fences and ports, and whether they succeed or fail: rows are never deleted; repositories, roots,
  generations, artifacts, facts, revisions, authorizations, steps, events and evidence are only added at the
  end and never change; an operation that was closed is never reopened and an answered
  cancellation never changes its answer; a driver keeps its target, its nonce and its process, and
  its heartbeat never goes back; a run keeps its owner, its location and its origin. At most one
  repository is ever registered and every key stays unique.
\<close>

theorem ledger_keeps_its_history:
  assumes "ledger_run lp lg ops lg'" and "keys_ok lg"
  shows "keys_ok lg' \<and> history lg lg'"
  using past.session [OF assms(1)] assms(2) by simp

lemma ledger0_keys: "keys_ok ledger0"
  by (simp add: keys_ok_def ledger0_def empty_store_def)

theorem ledger_keeps_its_history_witness:
  "keys_ok ledger5 \<and> history ledger0 ledger5 \<and> lg_requests ledger5 = [(sample_request, Can_Applied)]"
  using ledger_keeps_its_history [OF sample_session ledger0_keys] by (simp add: ledger5_def)

end
