(* ===== verification/Adapter_Ledger_Plans.thy ===== *)
theory Adapter_Ledger_Plans
  imports Adapter_Ledger_Inv
begin

text \<open>
  Plans under the ledger: every approval goes back to a human, the plan a bound run stores is the
  plan of its current revision, and every scoped event was written under an approved revision, for
  a task of that plan, in a generation of the same run.
\<close>

definition some_holds :: "('a \<Rightarrow> bool) \<Rightarrow> 'a option \<Rightarrow> bool" where
  "some_holds p v = (case v of None \<Rightarrow> False | Some x \<Rightarrow> p x)"

lemma some_holds_iff: "some_holds p v \<longleftrightarrow> (\<exists>x. v = Some x \<and> p x)"
  by (simp add: some_holds_def split: option.splits)

section \<open>Approval\<close>

text \<open>A revision is approved when a human accepted it or one of the revisions it comes from.\<close>

inductive approved :: "ledger \<Rightarrow> lifecycle_id \<Rightarrow> bool" for lg where
  by_human: "a \<in> set (lg_authorizations lg) \<Longrightarrow> ra_kind a = Auth_Human \<Longrightarrow>
    ra_decision a = Revision_Accepted \<Longrightarrow> approved lg (ra_revision_id a)"
| inherited: "r \<in> set (lg_revisions lg) \<Longrightarrow> pr_predecessor (sn_metadata r) = Some i \<Longrightarrow> approved lg i \<Longrightarrow>
    approved lg (pr_id (sn_metadata r))"

definition approvals_ok :: "ledger \<Rightarrow> bool" where
  "approvals_ok lg \<longleftrightarrow>
     (\<forall>a \<in> set (lg_authorizations lg). ra_decision a = Revision_Accepted \<longrightarrow> approved lg (ra_revision_id a))"

lemma approved_mono:
  assumes "approved lg i" "set (lg_authorizations lg) \<subseteq> set (lg_authorizations lg')"
    "set (lg_revisions lg) \<subseteq> set (lg_revisions lg')"
  shows "approved lg' i"
  using assms by (induction rule: approved.induct) (auto intro: approved.intros)

lemma authorized_approved:
  assumes "approvals_ok lg" and "authorized lg i" shows "approved lg i"
proof -
  have "last (authorizations lg i) \<in> set (authorizations lg i)" "ra_decision (last (authorizations lg i)) = Revision_Accepted"
    using assms(2) by (auto simp: authorized_def Let_def)
  then show ?thesis using assms(1) by (auto simp: approvals_ok_def authorizations_def)
qed

lemma history_subsets:
  assumes "history lg lg'"
  shows "set (lg_authorizations lg) \<subseteq> set (lg_authorizations lg')"
    "set (lg_revisions lg) \<subseteq> set (lg_revisions lg')"
  using assms by (auto simp: history_def dest: set_mono_prefix)

lemma approvals_ok_row:
  assumes "row_step lp lg lg'" and ok: "keys_ok lg" "approvals_ok lg" shows "approvals_ok lg'"
proof -
  note mono = approved_mono [OF _ history_subsets [OF history_row [OF assms(1) ok(1)]]]
  from assms(1) show ?thesis
  proof cases
    case (row_authorization f au)
    note au = insert_authorization_Inr [OF row_authorization]
    have "approved lg' (ra_revision_id au)" if acc: "ra_decision au = Revision_Accepted"
    proof (cases "ra_kind au")
      case Auth_Human
      then show ?thesis using au acc by (auto intro: by_human)
    next
      case Auth_InheritedAdr0028
      then obtain r previous where r: "revision_snapshot lg (ra_revision_id au) = Some r"
        "pr_predecessor (sn_metadata r) = Some previous" "authorized lg previous" using au by auto
      then have "r \<in> set (lg_revisions lg')" "pr_id (sn_metadata r) = ra_revision_id au"
        using au by (auto simp: revision_snapshot_def dest!: find_by_Some)
      then show ?thesis using inherited [of r lg' previous] r authorized_approved [OF ok(2)] mono by metis
    qed
    then show ?thesis using ok(2) au mono by (auto simp: approvals_ok_def)
  next
    case (row_dependency f d)
    then show ?thesis using ok(2) mono insert_one_dependency_Inr [OF row_dependency]
      by (auto simp: approvals_ok_def)
  next
    case (row_revision f r)
    then show ?thesis using ok(2) mono insert_revision_Inr [OF row_revision] by (auto simp: approvals_ok_def)
  next
    case (row_operation f op)
    then show ?thesis using ok(2) mono insert_operation_Inr [OF row_operation] by (auto simp: approvals_ok_def)
  next
    case (row_event f ev)
    then show ?thesis using ok(2) mono insert_event_Inr [OF row_event] by (auto simp: approvals_ok_def)
  qed (use ok(2) mono in \<open>auto simp: approvals_ok_def row_inversions install_revision_def set_plan_def
      set_binding_def\<close>)
qed

interpretation approvals: row_invariant lp "\<lambda>lg. keys_ok lg \<and> approvals_ok lg" for lp
  by unfold_locales (auto intro: keys_ok_row approvals_ok_row)

section \<open>Plans of bound runs\<close>

definition revision_of :: "ledger \<Rightarrow> run_binding \<Rightarrow> lifecycle_id \<Rightarrow> bool" where
  "revision_of lg b i \<longleftrightarrow> some_holds (\<lambda>r. pr_graph_id (sn_metadata r) = rb_graph_id b \<and>
     pr_repository_id (sn_metadata r) = rb_repository_id b \<and>
     some_holds (\<lambda>run. rd_plan_id run = pr_plan_hash (sn_metadata r) \<and> rd_plan_json run = sn_plan_json r)
       (run_row_of lg (rb_graph_id b))) (revision_snapshot lg i)"

definition generation_of :: "ledger \<Rightarrow> run_binding \<Rightarrow> lifecycle_id \<Rightarrow> bool" where
  "generation_of lg b i \<longleftrightarrow> some_holds (\<lambda>g. gn_graph_id g = rb_graph_id b \<and>
     gn_repository_id g = rb_repository_id b \<and> gn_root_alias g = pl_root_alias (rb_location b)) (generation lg i)"

definition bound_to :: "ledger \<Rightarrow> graph_ident \<Rightarrow> lifecycle_id \<Rightarrow> bool" where
  "bound_to lg g repo \<longleftrightarrow> some_holds (\<lambda>b. rb_repository_id b = repo) (find_by rb_graph_id g (lg_bindings lg))"

definition predecessor_ok :: "ledger \<Rightarrow> plan_revision_snapshot \<Rightarrow> bool" where
  "predecessor_ok lg r \<longleftrightarrow> opt_holds (\<lambda>old. some_holds (\<lambda>q.
     pr_graph_id (sn_metadata q) = pr_graph_id (sn_metadata r) \<and>
     pr_repository_id (sn_metadata q) = pr_repository_id (sn_metadata r)) (revision_snapshot lg old))
     (pr_predecessor (sn_metadata r))"

definition plans_ok :: "ledger_ports \<Rightarrow> ledger \<Rightarrow> bool" where
  "plans_ok lp lg \<longleftrightarrow>
     (\<forall>r \<in> set (lg_revisions lg). plan_matches lp r \<and> predecessor_ok lg r \<and>
        bound_to lg (pr_graph_id (sn_metadata r)) (pr_repository_id (sn_metadata r))) \<and>
     (\<forall>b \<in> set (lg_bindings lg). some_holds (\<lambda>_. True) (run_row_of lg (rb_graph_id b)) \<and>
        opt_holds (revision_of lg b) (rb_current_revision b) \<and>
        opt_holds (generation_of lg b) (rb_active_generation b))"

text \<open>Rows added at the end are not seen by a lookup that already succeeds.\<close>

lemma find_by_grows: "find_by k i rows = Some r \<Longrightarrow> find_by k i (rows @ rows') = Some r"
  by (simp add: find_by_append)

lemma find_by_update:
  assumes "\<And>x. x \<in> set rows \<Longrightarrow> k (u x) = k x"
  shows "find_by k i (map u rows) = map_option u (find_by k i rows)"
  using assms by (induction rows) (auto simp: find_by_def)

lemma revision_of_grows:
  assumes "revision_of lg b i" and "run_row_of lg' = run_row_of lg"
    and "\<And>i r. revision_snapshot lg i = Some r \<Longrightarrow> revision_snapshot lg' i = Some r"
  shows "revision_of lg' b i"
  using assms by (fastforce simp: revision_of_def some_holds_iff)

lemma generation_of_grows:
  assumes "generation_of lg b i" and "\<And>i g. generation lg i = Some g \<Longrightarrow> generation lg' i = Some g"
  shows "generation_of lg' b i"
  using assms by (fastforce simp: generation_of_def some_holds_iff)

lemma predecessor_ok_grows:
  assumes "predecessor_ok lg r" and "\<And>i r. revision_snapshot lg i = Some r \<Longrightarrow> revision_snapshot lg' i = Some r"
  shows "predecessor_ok lg' r"
  using assms by (fastforce simp: predecessor_ok_def opt_holds_def some_holds_iff split: option.splits)

lemma plans_ok_tables:
  assumes ok: "plans_ok lp lg" and runs: "db_runs (lg_store lg') = db_runs (lg_store lg)"
    and bindings: "lg_bindings lg' = lg_bindings lg"
    and new: "\<And>r. r \<in> set (lg_revisions lg') \<Longrightarrow> r \<in> set (lg_revisions lg) \<or>
      plan_matches lp r \<and> predecessor_ok lg r \<and> bound_to lg (pr_graph_id (sn_metadata r)) (pr_repository_id (sn_metadata r))"
    and snaps: "\<And>i r. revision_snapshot lg i = Some r \<Longrightarrow> revision_snapshot lg' i = Some r"
    and gens: "\<And>i g. generation lg i = Some g \<Longrightarrow> generation lg' i = Some g"
  shows "plans_ok lp lg'"
proof -
  have rows: "run_row_of lg' = run_row_of lg" using runs by (simp add: run_row_of_def fun_eq_iff)
  have "opt_holds (revision_of lg' b) v" if "opt_holds (revision_of lg b) v" for b v
    using that revision_of_grows [OF _ rows snaps] by (auto simp: opt_holds_def split: option.splits)
  moreover have "opt_holds (generation_of lg' b) v" if "opt_holds (generation_of lg b) v" for b v
    using that generation_of_grows [OF _ gens] by (auto simp: opt_holds_def split: option.splits)
  moreover have "bound_to lg' = bound_to lg" using bindings by (simp add: bound_to_def fun_eq_iff)
  moreover have "plan_matches lp r \<and> predecessor_ok lg' r \<and>
      bound_to lg (pr_graph_id (sn_metadata r)) (pr_repository_id (sn_metadata r))"
    if "r \<in> set (lg_revisions lg')" for r
    using new [OF that] ok predecessor_ok_grows [OF _ snaps] by (auto simp: plans_ok_def)
  ultimately show ?thesis using ok rows bindings by (simp add: plans_ok_def)
qed

lemma run_row_of_set_plan: "run_row_of (set_plan g j h st lg) x =
    (if x = g then map_option (\<lambda>r. r\<lparr>rd_plan_json := j, rd_plan_id := h, rd_plan_state := st\<rparr>) (run_row_of lg g)
     else run_row_of lg x)"
proof -
  have "run_row_of (set_plan g j h st lg) x = map_option (\<lambda>r. if rd_graph_id r = g
      then r\<lparr>rd_plan_json := j, rd_plan_id := h, rd_plan_state := st\<rparr> else r) (run_row_of lg x)"
    by (simp add: run_row_of_def set_plan_def find_by_update)
  moreover have "rd_graph_id r = x" if "run_row_of lg x = Some r" for r
    using that by (auto simp: run_row_of_def dest: find_by_Some)
  ultimately show ?thesis by (cases "run_row_of lg x") auto
qed

lemma binding_of_set_binding: "find_by rb_graph_id x (lg_bindings (set_binding b lg)) =
    map_option (\<lambda>y. if rb_graph_id y = rb_graph_id b then b else y) (find_by rb_graph_id x (lg_bindings lg))"
  by (simp add: find_by_update)

text \<open>A binding replaced by one of the same run: the plan table may change for that run only.\<close>

lemma plans_ok_set_binding:
  assumes ok: "plans_ok lp lg" and b: "binding lg g = Inr b" and new: "rb_graph_id b' = g" "rb_repository_id b' = rb_repository_id b"
    and tables: "lg_revisions mid = lg_revisions lg" "lg_generations mid = lg_generations lg"
      "lg_bindings mid = lg_bindings lg"
    and runs: "\<And>x. x \<noteq> g \<Longrightarrow> run_row_of mid x = run_row_of lg x" "some_holds (\<lambda>_. True) (run_row_of mid g)"
    and current: "opt_holds (revision_of mid b') (rb_current_revision b')"
    and active: "opt_holds (generation_of mid b') (rb_active_generation b')"
  shows "plans_ok lp (set_binding b' mid)"
proof -
  let ?lg' = "set_binding b' mid"
  have same: "lg_revisions ?lg' = lg_revisions lg" "lg_generations ?lg' = lg_generations lg"
    "run_row_of ?lg' x = run_row_of mid x" for x
    using tables by (simp_all add: set_binding_def run_row_of_def)
  have views: "revision_of ?lg' = revision_of mid" "generation_of ?lg' = generation_of mid"
    by (simp_all add: revision_of_def generation_of_def revision_snapshot_def generation_def run_row_of_def
        set_binding_def fun_eq_iff)
  have at_g: "rb_graph_id b = g" using b by (auto simp: binding_Inr dest: find_by_Some)
  have "bound_to ?lg' h repo" if bt: "bound_to lg h repo" for h repo
  proof -
    obtain x where x: "find_by rb_graph_id h (lg_bindings lg) = Some x" "rb_repository_id x = repo"
      using bt by (auto simp: bound_to_def some_holds_iff)
    then show ?thesis
      using b new tables(3) find_by_Some [OF x(1)]
      by (auto simp: bound_to_def some_holds_iff binding_of_set_binding binding_Inr simp del: set_binding_tables)
  qed
  moreover have "some_holds (\<lambda>_. True) (run_row_of ?lg' (rb_graph_id y)) \<and>
      opt_holds (revision_of ?lg' y) (rb_current_revision y) \<and>
      opt_holds (generation_of ?lg' y) (rb_active_generation y)" if y: "y \<in> set (lg_bindings ?lg')" for y
  proof (cases "rb_graph_id y = g")
    case True
    with y new tables(3) have "y = b'" by (auto split: if_splits)
    then show ?thesis
      using current active runs(2) new(1) same views by simp
  next
    case False
    with y new tables(3) have "y \<in> set (lg_bindings lg)" by (auto split: if_splits)
    moreover have "revision_of ?lg' y = revision_of lg y" "generation_of ?lg' y = generation_of lg y"
      using False same runs(1)
      by (simp_all add: revision_of_def generation_of_def revision_snapshot_def generation_def fun_eq_iff)
    ultimately show ?thesis using ok False same runs(1) by (simp add: plans_ok_def)
  qed
  moreover have "predecessor_ok ?lg' = predecessor_ok lg"
    using same by (simp add: predecessor_ok_def revision_snapshot_def fun_eq_iff)
  ultimately show ?thesis using ok same by (auto simp: plans_ok_def)
qed

lemma plans_ok_row:
  assumes "row_step lp lg lg'" and ok: "keys_ok lg" "plans_ok lp lg" shows "plans_ok lp lg'"
  using assms(1)
proof cases
  case (row_generation e g)
  then have "lg' = lg\<lparr>lg_generations := lg_generations lg @ [g]\<rparr>" by (simp add: insert_generation_row_Inr)
  then show ?thesis
    by (intro plans_ok_tables [OF ok(2)]) (auto simp: generation_def revision_snapshot_def find_by_grows)
next
  case (row_binding b)
  have "run_row_of lg (rb_graph_id b) \<noteq> None"
    using row_binding by (simp add: run_exists_def has_key_iff run_row_of_def find_by_None)
  moreover have "revision_of lg' = revision_of lg" "generation_of lg' = generation_of lg" "run_row_of lg' = run_row_of lg"
    "predecessor_ok lg' = predecessor_ok lg"
    using row_binding
    by (simp_all add: fun_eq_iff predecessor_ok_def revision_of_def generation_of_def run_row_of_def revision_snapshot_def generation_def)
  moreover have "bound_to lg' g repo" if "bound_to lg g repo" for g repo
    using that row_binding by (auto simp: bound_to_def some_holds_iff find_by_grows)
  ultimately show ?thesis
    using ok(2) row_binding by (auto simp: plans_ok_def some_holds_iff opt_holds_def)
next
  case (row_revision f r)
  note r = insert_revision_Inr [OF row_revision]
  then show ?thesis
    by (intro plans_ok_tables [OF ok(2)])
      (auto simp: generation_def revision_snapshot_def find_by_grows bound_to_def binding_Inr some_holds_iff
          predecessor_ok_def)
next
  case (row_install g b i r)
  have b: "rb_graph_id b = g" "b \<in> set (lg_bindings lg)"
    using row_install by (auto simp: binding_Inr dest: find_by_Some)
  let ?mid = "set_plan (rb_graph_id b) (sn_plan_json r) (pr_plan_hash (sn_metadata r)) (projected_state lg i) lg"
  have tables: "lg_revisions ?mid = lg_revisions lg" "lg_generations ?mid = lg_generations lg"
    "lg_bindings ?mid = lg_bindings lg" by (simp_all add: set_plan_def)
  have gens: "generation_of ?mid (b\<lparr>rb_current_revision := Some i\<rparr>) = generation_of lg b"
    using tables by (simp add: generation_of_def generation_def fun_eq_iff)
  show ?thesis
    unfolding row_install install_revision_def
  proof (rule plans_ok_set_binding [OF ok(2) row_install(2)])
    show "opt_holds (revision_of ?mid (b\<lparr>rb_current_revision := Some i\<rparr>)) (rb_current_revision (b\<lparr>rb_current_revision := Some i\<rparr>))"
      using ok(2) row_install b tables
      by (auto simp: plans_ok_def opt_holds_def revision_of_def some_holds_iff run_row_of_set_plan revision_snapshot_def)
  qed (use ok(2) b tables gens in \<open>auto simp: run_row_of_set_plan plans_ok_def some_holds_iff\<close>)
next
  case (row_activate g b gid gen i r run)
  have b: "rb_graph_id b = g" "b \<in> set (lg_bindings lg)"
    using row_activate by (auto simp: binding_Inr dest: find_by_Some)
  have "r \<in> set (lg_revisions lg)" using row_activate by (auto simp: revision_snapshot_def dest: find_by_Some)
  then have repo: "pr_repository_id (sn_metadata r) = rb_repository_id b"
    using ok(2) row_activate by (auto simp: plans_ok_def bound_to_def binding_Inr some_holds_iff)
  show ?thesis
    unfolding row_activate(1)
    by (rule plans_ok_set_binding [OF ok(2) row_activate(2)])
      (use row_activate b repo in \<open>auto simp: opt_holds_def revision_of_def generation_of_def some_holds_iff\<close>)
next
  case (row_dependency f d)
  then show ?thesis using insert_one_dependency_Inr [OF row_dependency]
    by (intro plans_ok_tables [OF ok(2)]) (auto simp: generation_def revision_snapshot_def)
next
  case (row_authorization f au)
  then show ?thesis using insert_authorization_Inr [OF row_authorization]
    by (intro plans_ok_tables [OF ok(2)]) (auto simp: generation_def revision_snapshot_def)
next
  case (row_operation f op)
  then show ?thesis using insert_operation_Inr [OF row_operation]
    by (intro plans_ok_tables [OF ok(2)]) (auto simp: generation_def revision_snapshot_def)
next
  case (row_event f ev)
  then show ?thesis using insert_event_Inr [OF row_event]
    by (intro plans_ok_tables [OF ok(2)]) (auto simp: generation_def revision_snapshot_def)
qed (auto simp: generation_def revision_snapshot_def row_inversions intro!: plans_ok_tables [OF ok(2)])

section \<open>Scoped events\<close>

definition event_ok :: "ledger_ports \<Rightarrow> ledger \<Rightarrow> event_row \<times> (lifecycle_id \<times> lifecycle_id) option \<Rightarrow> bool" where
  "event_ok lp lg row \<longleftrightarrow> (case row of (e, None) \<Rightarrow> True | (e, Some (gen, i)) \<Rightarrow>
     some_holds (\<lambda>g. gn_graph_id g = er_graph_id e) (generation lg gen) \<and>
     some_holds (\<lambda>r. pr_graph_id (sn_metadata r) = er_graph_id e \<and>
       some_holds (\<lambda>p. list_ex (\<lambda>n. n_id n = er_task_id e) (nodes p)) (lp_parse_plan lp (sn_plan_json r)))
       (revision_snapshot lg i) \<and>
     approved lg i \<and>
     opt_holds (\<lambda>a. (a, gen, i) \<in> set (lg_attempt_scopes lg) \<and>
       list_ex (\<lambda>r. at_attempt_id r = a \<and> at_graph_id r = er_graph_id e \<and> at_task_id r = er_task_id e)
         (db_attempts (lg_store lg))) (er_attempt_id e))"

definition events_ok :: "ledger_ports \<Rightarrow> ledger \<Rightarrow> bool" where
  "events_ok lp lg \<longleftrightarrow>
     length (lg_event_scopes lg) = length (db_events (lg_store lg)) \<and>
     list_all (event_ok lp lg) (zip (db_events (lg_store lg)) (lg_event_scopes lg))"

lemma history_lookups:
  assumes "history lg lg'"
  shows "generation lg i = Some g \<Longrightarrow> generation lg' i = Some g"
    "revision_snapshot lg i = Some r \<Longrightarrow> revision_snapshot lg' i = Some r"
    "artifact_row lg i = Some a \<Longrightarrow> artifact_row lg' i = Some a"
  using assms
  by (auto simp: history_def generation_def revision_snapshot_def artifact_row_def prefix_def find_by_grows)

lemma event_ok_later:
  assumes "event_ok lp lg row" and h: "history lg lg'" shows "event_ok lp lg' row"
proof (cases row)
  case (Pair e key)
  show ?thesis
  proof (cases key)
    case (Some k)
    obtain gen i where k: "k = (gen, i)" by (cases k)
    have "list_ex (\<lambda>r. at_attempt_id r = a \<and> at_graph_id r = er_graph_id e \<and> at_task_id r = er_task_id e)
        (db_attempts (lg_store lg'))"
      if "list_ex (\<lambda>r. at_attempt_id r = a \<and> at_graph_id r = er_graph_id e \<and> at_task_id r = er_task_id e)
        (db_attempts (lg_store lg))" for a
      by (rule keeps_list_ex [OF _ that, where R = attempt_kept])
        (use h in \<open>auto simp: history_def attempt_kept_def\<close>)
    moreover have "set (lg_attempt_scopes lg) \<subseteq> set (lg_attempt_scopes lg')"
      using h by (simp add: history_def set_mono_prefix)
    moreover have "approved lg i \<Longrightarrow> approved lg' i" using approved_mono history_subsets [OF h] by blast
    ultimately show ?thesis
      using assms(1) Pair Some k history_lookups [OF h]
      by (auto simp: event_ok_def some_holds_iff opt_holds_def split: option.splits)
  qed (simp add: Pair event_ok_def)
qed

lemma events_ok_tables:
  assumes "events_ok lp lg" "history lg lg'" "db_events (lg_store lg') = db_events (lg_store lg)"
    "lg_event_scopes lg' = lg_event_scopes lg"
  shows "events_ok lp lg'"
  using assms event_ok_later by (auto simp: events_ok_def list_all_iff)

lemma insert_event_ok:
  assumes ev: "insert_event lp f e lg = Inr lg'" and ok: "plans_ok lp lg" "approvals_ok lg"
  shows "event_ok lp lg (event_row_of (se_record e), Some (xs_generation_id (se_scope e), se_revision_id e))"
proof -
  note ev = insert_event_Inr [OF ev]
  obtain b where b: "binding lg (xs_graph_id (se_scope e)) = Inr b"
    "rb_active_generation b = Some (xs_generation_id (se_scope e))" "authorized lg (se_revision_id e)"
    using ev by (auto simp: scope_ok_Inr)
  then have in_bindings: "b \<in> set (lg_bindings lg)" "rb_graph_id b = xs_graph_id (se_scope e)"
    by (auto simp: binding_Inr dest: find_by_Some)
  then have "opt_holds (generation_of lg b) (rb_active_generation b)" using ok(1) by (simp add: plans_ok_def)
  then have "generation_of lg b (xs_generation_id (se_scope e))" using b(2) by (simp add: opt_holds_def)
  then have "some_holds (\<lambda>g. gn_graph_id g = tr_graph_id (se_record e)) (generation lg (xs_generation_id (se_scope e)))"
    using ev in_bindings by (auto simp: generation_of_def some_holds_iff)
  moreover have "approved lg (se_revision_id e)" using b(3) ok(2) by (rule authorized_approved [rotated])
  ultimately show ?thesis
    using ev by (auto simp: event_ok_def event_row_of_def revision_task_def try_res_eq_Inr some_holds_iff
        scoped_attempt_exists_def opt_holds_def split: option.splits)
qed

lemma events_ok_row:
  assumes "row_step lp lg lg'" and ok: "keys_ok lg" "plans_ok lp lg" "approvals_ok lg" "events_ok lp lg"
  shows "events_ok lp lg'"
proof -
  note h = history_row [OF assms(1) ok(1)]
  from assms(1) show ?thesis
  proof cases
    case (row_event f ev)
    have "event_ok lp lg' (event_row_of (se_record ev), Some (xs_generation_id (se_scope ev), se_revision_id ev))"
      using event_ok_later [OF insert_event_ok [OF row_event ok(2,3)] h] .
    then show ?thesis
      using ok(4) insert_event_Inr [OF row_event] event_ok_later [OF _ h]
      by (auto simp: events_ok_def list_all_iff)
  next
    case (row_dependency f d)
    then show ?thesis using insert_one_dependency_Inr [OF row_dependency] h events_ok_tables [OF ok(4)] by auto
  next
    case (row_revision f r)
    then show ?thesis using insert_revision_Inr [OF row_revision] h events_ok_tables [OF ok(4)] by auto
  next
    case (row_authorization f au)
    then show ?thesis using insert_authorization_Inr [OF row_authorization] h events_ok_tables [OF ok(4)] by auto
  next
    case (row_operation f op)
    then show ?thesis using insert_operation_Inr [OF row_operation] h events_ok_tables [OF ok(4)] by auto
  qed (use h in \<open>auto simp: row_inversions install_revision_def set_plan_def set_binding_def
      intro: events_ok_tables [OF ok(4)]\<close>)
qed

definition ledger_ok :: "ledger_ports \<Rightarrow> ledger \<Rightarrow> bool" where
  "ledger_ok lp lg \<longleftrightarrow> keys_ok lg \<and> approvals_ok lg \<and> plans_ok lp lg \<and> events_ok lp lg"

interpretation plans: row_invariant lp "ledger_ok lp" for lp
  by unfold_locales (auto simp: ledger_ok_def intro: keys_ok_row approvals_ok_row plans_ok_row events_ok_row)

lemma approved_by_human:
  assumes "approved lg i" and "revision_snapshot lg i = Some r" and "keys_ok lg" and "plans_ok lp lg"
  shows "\<exists>a \<in> set (lg_authorizations lg). ra_kind a = Auth_Human \<and> ra_decision a = Revision_Accepted \<and>
    (\<exists>q. revision_snapshot lg (ra_revision_id a) = Some q \<and>
       pr_graph_id (sn_metadata q) = pr_graph_id (sn_metadata r) \<and>
       pr_repository_id (sn_metadata q) = pr_repository_id (sn_metadata r))"
  using assms(1,2)
proof (induction arbitrary: r rule: approved.induct)
  case (by_human a)
  then show ?case by blast
next
  case (inherited q p)
  have "distinct (map (\<lambda>r. pr_id (sn_metadata r)) (lg_revisions lg))" using assms(3) by (simp add: keys_ok_def)
  from find_by_distinct [OF this inherited.hyps(1)] have "q = r"
    using inherited.prems by (simp add: revision_snapshot_def)
  then have "predecessor_ok lg r" using assms(4) inherited.hyps(1) by (simp add: plans_ok_def)
  then obtain x where x: "revision_snapshot lg p = Some x"
    "pr_graph_id (sn_metadata x) = pr_graph_id (sn_metadata r)"
    "pr_repository_id (sn_metadata x) = pr_repository_id (sn_metadata r)"
    using \<open>q = r\<close> inherited.hyps(2) by (auto simp: predecessor_ok_def opt_holds_def some_holds_iff)
  from inherited.IH [OF x(1)] x(2,3) show ?case by auto
qed

lemma ledger0_ok: "ledger_ok lp ledger0"
  using ledger0_keys
  by (simp add: ledger_ok_def approvals_ok_def plans_ok_def events_ok_def ledger0_def empty_store_def)

text \<open>
  C6. The plan a bound run executes is the plan of its current revision. In every ledger that a
  session reaches, a binding with a current revision stores exactly that revision's text and hash
  in its run row; the hash is the SHA-256 of the text, the text parses to a valid graph with the
  id of the run, and revision and run belong to the same repository. Its active generation, if
  any, is a generation of that run, in that repository, below the root of the binding.
\<close>

theorem bound_plan_is_current_revision:
  assumes run: "ledger_run lp lg ops lg'" and start: "ledger_ok lp lg" and b: "b \<in> set (lg_bindings lg')"
  shows "(case rb_current_revision b of None \<Rightarrow> True | Some i \<Rightarrow>
      \<exists>r row g. revision_snapshot lg' i = Some r \<and> run_row_of lg' (rb_graph_id b) = Some row \<and>
        pr_graph_id (sn_metadata r) = rb_graph_id b \<and> pr_repository_id (sn_metadata r) = rb_repository_id b \<and>
        rd_plan_json row = sn_plan_json r \<and> rd_plan_id row = lp_sha256_hex lp (rd_plan_json row) \<and>
        lp_parse_plan lp (rd_plan_json row) = Some g \<and> graph_id g = rb_graph_id b \<and>
        validate (lp_topo lp) g = Inr ()) \<and>
    (case rb_active_generation b of None \<Rightarrow> True | Some i \<Rightarrow>
      \<exists>g. generation lg' i = Some g \<and> gn_graph_id g = rb_graph_id b \<and>
        gn_repository_id g = rb_repository_id b \<and> gn_root_alias g = pl_root_alias (rb_location b))"
proof -
  have ok: "plans_ok lp lg'" using plans.session [OF run start] by (simp add: ledger_ok_def)
  have matches: "plan_matches lp r" if "revision_snapshot lg' i = Some r" for i r
    using ok that by (auto simp: plans_ok_def revision_snapshot_def dest: find_by_Some)
  have "opt_holds (revision_of lg' b) (rb_current_revision b)" "opt_holds (generation_of lg' b) (rb_active_generation b)"
    using ok b by (simp_all add: plans_ok_def)
  then show ?thesis
    using matches
    by (fastforce simp: opt_holds_def revision_of_def generation_of_def some_holds_iff plan_matches_def
        split: option.splits)
qed

theorem bound_plan_is_current_revision_witness:
  "\<exists>b \<in> set (lg_bindings ledger5). rb_current_revision b = Some ''rev-1'' \<and>
     (\<exists>row. run_row_of ledger5 ''g-1'' = Some row \<and> rd_plan_id row = lp_sha256_hex sample_ports (rd_plan_json row))"
proof -
  let ?b = "sample_binding\<lparr>rb_active_generation := Some ''gen-1'', rb_current_revision := Some ''rev-1''\<rparr>"
  have b: "?b \<in> set (lg_bindings ledger5)"
    by (simp add: ledger3_def ledger4_def ledger5_def)
  from bound_plan_is_current_revision [OF sample_session ledger0_ok b]
  have "\<exists>row. run_row_of ledger5 ''g-1'' = Some row \<and> rd_plan_id row = lp_sha256_hex sample_ports (rd_plan_json row)"
    by (auto simp: sample_binding_def)
  with b show ?thesis by (intro bexI [OF _ b]) simp
qed

text \<open>
  C5. No scoped event without approval. In every ledger that a session reaches, an event row that
  carries a generation and a revision belongs to a generation and a revision of its own run, names
  a task of that revision's plan, and names an attempt only if that attempt was reserved for the
  same task in the same scope; and the revision was accepted by a human, or inherits, revision by
  revision of the same run, an acceptance that a human gave.
\<close>

theorem scoped_events_are_approved:
  assumes run: "ledger_run lp lg ops lg'" and start: "ledger_ok lp lg"
    and e: "(e, Some (gen, i)) \<in> set (zip (db_events (lg_store lg')) (lg_event_scopes lg'))"
  shows "\<exists>g r p a q. generation lg' gen = Some g \<and> gn_graph_id g = er_graph_id e \<and>
    revision_snapshot lg' i = Some r \<and> pr_graph_id (sn_metadata r) = er_graph_id e \<and>
    lp_parse_plan lp (sn_plan_json r) = Some p \<and> er_task_id e \<in> n_id ` set (nodes p) \<and>
    (case er_attempt_id e of None \<Rightarrow> True | Some att \<Rightarrow> (att, gen, i) \<in> set (lg_attempt_scopes lg') \<and>
      (\<exists>row \<in> set (db_attempts (lg_store lg')). at_attempt_id row = att \<and>
        at_graph_id row = er_graph_id e \<and> at_task_id row = er_task_id e)) \<and>
    approved lg' i \<and>
    a \<in> set (lg_authorizations lg') \<and> ra_kind a = Auth_Human \<and> ra_decision a = Revision_Accepted \<and>
    revision_snapshot lg' (ra_revision_id a) = Some q \<and> pr_graph_id (sn_metadata q) = er_graph_id e"
proof -
  have ok: "ledger_ok lp lg'" using plans.session [OF run start] .
  then have "event_ok lp lg' (e, Some (gen, i))" using e by (auto simp: ledger_ok_def events_ok_def list_all_iff)
  then obtain g r p where row: "generation lg' gen = Some g" "gn_graph_id g = er_graph_id e"
    "revision_snapshot lg' i = Some r" "pr_graph_id (sn_metadata r) = er_graph_id e"
    "lp_parse_plan lp (sn_plan_json r) = Some p" "list_ex (\<lambda>n. n_id n = er_task_id e) (nodes p)" "approved lg' i"
    and att: "opt_holds (\<lambda>a. (a, gen, i) \<in> set (lg_attempt_scopes lg') \<and>
       list_ex (\<lambda>r. at_attempt_id r = a \<and> at_graph_id r = er_graph_id e \<and> at_task_id r = er_task_id e)
         (db_attempts (lg_store lg'))) (er_attempt_id e)"
    by (auto simp: event_ok_def some_holds_iff)
  have task: "er_task_id e \<in> n_id ` set (nodes p)" using row(6) by (auto simp: list_ex_iff intro: rev_image_eqI)
  obtain a q where "a \<in> set (lg_authorizations lg')" "ra_kind a = Auth_Human" "ra_decision a = Revision_Accepted"
    "revision_snapshot lg' (ra_revision_id a) = Some q" "pr_graph_id (sn_metadata q) = er_graph_id e"
    using approved_by_human [OF row(7,3), where lp = lp] ok row(4) by (auto simp: ledger_ok_def)
  with row(1-5,7) task att show ?thesis by (auto simp: opt_holds_def list_ex_iff split: option.splits)
qed

theorem scoped_events_are_approved_witness:
  "approved ledger5 ''rev-1'' \<and> lg_event_scopes ledger5 = [Some (''gen-1'', ''rev-1'')]"
proof -
  have e: "(event_row_of sample_transition, Some (''gen-1'', ''rev-1'')) \<in>
      set (zip (db_events (lg_store ledger5)) (lg_event_scopes ledger5))"
    by (simp add: ledger3_def ledger4_def ledger5_def)
  from scoped_events_are_approved [OF sample_session ledger0_ok e] show ?thesis
    by (auto simp: ledger3_def ledger4_def ledger5_def)
qed

end
