(* ===== verification/Adapter_Ledger_Work.thy ===== *)
theory Adapter_Ledger_Work
  imports Adapter_Ledger_Inv
begin

text \<open>
  Work under the ledger: producer operations and their steps, drivers and cancellations, and the
  reservation of attempts.
\<close>

section \<open>Operations and steps\<close>

text \<open>
  The log of one operation: steps are numbered from 1 without gaps, a completed step observed what
  the operation promised, a blocked step is the last one, and the operation is pending exactly
  while it may still take a step.
\<close>

definition step_log_ok :: "producer_operation \<Rightarrow> bool \<Rightarrow> operation_step list \<Rightarrow> bool" where
  "step_log_ok p pending ss \<longleftrightarrow>
     0 < unat (op_max_steps p) \<and> unat (op_max_steps p) \<le> 256 \<and> length ss \<le> unat (op_max_steps p) \<and>
     map os_step ss = map of_nat [1..<Suc (length ss)] \<and>
     list_all (\<lambda>s. os_state s = Op_Completed \<longrightarrow> os_observed s = op_after p) ss \<and>
     list_all (\<lambda>s. os_state s \<noteq> Op_Blocked) (butlast ss) \<and>
     pending = (length ss < unat (op_max_steps p) \<and> (ss = [] \<or> os_state (last ss) \<noteq> Op_Blocked))"

definition claims :: "ledger \<Rightarrow> (lifecycle_id \<times> producer_target) list" where
  "claims lg = map (\<lambda>(p, _). (op_repository_id p, op_target p)) (filter snd (lg_operations lg))"

definition operations_ok :: "ledger \<Rightarrow> bool" where
  "operations_ok lg \<longleftrightarrow>
     (\<forall>(p, pending) \<in> set (lg_operations lg). step_log_ok p pending (steps_of lg (op_id p))) \<and>
     distinct (claims lg) \<and>
     (\<forall>s \<in> set (lg_steps lg). os_operation_id s \<in> (\<lambda>r. op_id (fst r)) ` set (lg_operations lg))"

lemma operations_ok_tables:
  "operations_ok lg \<Longrightarrow> lg_operations lg' = lg_operations lg \<Longrightarrow> lg_steps lg' = lg_steps lg \<Longrightarrow> operations_ok lg'"
  by (simp add: operations_ok_def claims_def steps_of_def)

lemma all_not_blocked:
  assumes "list_all p (butlast ss)" and "ss = [] \<or> p (last ss)" shows "list_all p ss"
  using assms by (cases ss rule: rev_cases) auto

lemma step_log_append:
  assumes log: "step_log_ok p True ss" and s: "os_step s = of_nat (length ss + 1)"
    and completed: "os_state s = Op_Completed \<longrightarrow> os_observed s = op_after p"
  shows "step_log_ok p (\<not> (os_state s = Op_Blocked \<or> os_step s = op_max_steps p)) (ss @ [s])"
proof -
  let ?n = "length ss"
  have room: "?n < unat (op_max_steps p)" and bound: "unat (op_max_steps p) \<le> 256"
    using log by (auto simp: step_log_ok_def)
  have "list_all (\<lambda>s. os_state s \<noteq> Op_Blocked) ss"
    by (rule all_not_blocked) (use log in \<open>auto simp: step_log_ok_def\<close>)
  moreover have "unat (of_nat (?n + 1) :: u32) = ?n + 1"
    using room bound by (subst unat_of_nat) simp
  then have "os_step s = op_max_steps p \<longleftrightarrow> ?n + 1 = unat (op_max_steps p)"
    using s by (metis word_unat_eq_iff)
  ultimately show ?thesis
    using log s completed room by (auto simp: step_log_ok_def)
qed

lemma claims_close: "distinct (claims lg) \<Longrightarrow> distinct (claims (close_operation i lg))"
proof -
  have "distinct (map f (filter snd (map (\<lambda>(p, pending). (p, if op_id p = i then False else pending)) ops)))"
    if "distinct (map f (filter snd ops))" "\<And>p x y. f (p, x) = f (p, y)"
    for f :: "producer_operation \<times> bool \<Rightarrow> lifecycle_id \<times> producer_target" and ops
    using that(1)
  proof (induction ops)
    case (Cons r ops)
    obtain p pending where r: "r = (p, pending)" by (cases r)
    have "f ` set (filter snd (map (\<lambda>(p, pending). (p, if op_id p = i then False else pending)) ops)) \<subseteq>
        f ` set (filter snd ops)"
      by (auto split: if_splits)
    with Cons r show ?case by (auto split: if_splits)
  qed simp
  then show "distinct (claims lg) \<Longrightarrow> ?thesis" by (auto simp: claims_def)
qed

lemma operations_ok_step:
  assumes ok: "keys_ok lg" "operations_ok lg" and p: "(p, True) \<in> set (lg_operations lg)"
    and s: "op_id p = os_operation_id s" "os_step s = of_nat (length (steps_of lg (op_id p)) + 1)"
      "os_state s = Op_Completed \<longrightarrow> os_observed s = op_after p"
  shows "operations_ok ((if os_state s = Op_Blocked \<or> os_step s = op_max_steps p
      then close_operation (op_id p) else (\<lambda>x. x)) (lg\<lparr>lg_steps := lg_steps lg @ [s]\<rparr>))"
    (is "operations_ok ?lg'")
proof -
  let ?final = "os_state s = Op_Blocked \<or> os_step s = op_max_steps p"
  have unique: "r = (p, True)" if "r \<in> set (lg_operations lg)" "op_id (fst r) = op_id p" for r
    using unique_row [of "\<lambda>r. op_id (fst r)" "lg_operations lg" r "(p, True)"] that p ok(1)
    by (simp add: keys_ok_def)
  have ops: "lg_operations ?lg' = map (\<lambda>(q, pending). (q, if ?final \<and> op_id q = op_id p then False else pending))
      (lg_operations lg)"
    by (auto simp: case_prod_unfold)
  have steps: "steps_of ?lg' i = steps_of lg i @ (if op_id p = i then [s] else [])" for i
    using s(1) by (simp add: steps_of_def)
  have "step_log_ok q pending (steps_of ?lg' (op_id q))" if q: "(q, pending) \<in> set (lg_operations ?lg')" for q pending
  proof -
    obtain old where old: "(q, old) \<in> set (lg_operations lg)"
      "pending = (if ?final \<and> op_id q = op_id p then False else old)"
      using q unfolding ops by auto
    show ?thesis
    proof (cases "op_id q = op_id p")
      case True
      with unique [OF old(1)] have "q = p" "old" by auto
      moreover have "step_log_ok p True (steps_of lg (op_id p))" using ok(2) p by (auto simp: operations_ok_def)
      ultimately show ?thesis
        using step_log_append [OF _ s(2,3)] old(2) by (auto simp: steps)
    qed (use old ok(2) steps in \<open>auto simp: operations_ok_def\<close>)
  qed
  moreover have "distinct (claims ?lg')"
    using ok(2) claims_close [of "lg\<lparr>lg_steps := lg_steps lg @ [s]\<rparr>"]
    by (auto simp: operations_ok_def claims_def)
  moreover have "os_operation_id x \<in> (\<lambda>r. op_id (fst r)) ` set (lg_operations ?lg')" if "x \<in> set (lg_steps ?lg')" for x
  proof -
    have "(\<lambda>r. op_id (fst r)) ` set (lg_operations ?lg') = (\<lambda>r. op_id (fst r)) ` set (lg_operations lg)"
      unfolding ops by (force simp: image_iff)
    moreover have "x \<in> set (lg_steps lg) \<or> x = s" using that by (auto split: if_splits)
    moreover have "op_id p \<in> (\<lambda>r. op_id (fst r)) ` set (lg_operations lg)" using p by force
    ultimately show ?thesis using ok(2) s(1) by (auto simp: operations_ok_def)
  qed
  ultimately show ?thesis unfolding operations_ok_def by blast
qed

lemma insert_operation_ok:
  assumes ins: "insert_operation f p lg = Inr lg'" and ok: "operations_ok lg" shows "operations_ok lg'"
proof -
  note p = insert_operation_Inr [OF ins]
  have "os_operation_id s \<noteq> op_id p" if "s \<in> set (lg_steps lg)" for s
    using ok p that by (metis (no_types, lifting) operations_ok_def)
  then have fresh_steps: "steps_of lg (op_id p) = []" by (simp add: steps_of_def filter_empty_conv)
  have "unat (op_max_steps p) \<le> 256" using p by (simp add: word_le_nat_alt)
  moreover have "0 < unat (op_max_steps p)" using p by (simp add: unat_gt_0)
  ultimately have "step_log_ok p True (steps_of lg (op_id p))"
    by (simp add: step_log_ok_def fresh_steps)
  moreover have "distinct (claims lg')"
    using p ok by (auto simp: operations_ok_def claims_def pending_claim_def list_ex_iff)
  ultimately show ?thesis
    using p ok by (auto simp: operations_ok_def steps_of_def)
qed

lemma operations_ok_row:
  assumes "row_step lp lg lg'" and ok: "keys_ok lg" "operations_ok lg" shows "operations_ok lg'"
  using assms(1)
proof cases
  case (row_operation f op)
  then show ?thesis using ok(2) by (rule insert_operation_ok)
next
  case (row_op_step p s n)
  then show ?thesis using operations_ok_step [OF ok row_op_step(2,3)] by simp
next
  case (row_dependency f d)
  then show ?thesis using insert_one_dependency_Inr [OF row_dependency] operations_ok_tables [OF ok(2)] by auto
next
  case (row_revision f r)
  then show ?thesis using insert_revision_Inr [OF row_revision] operations_ok_tables [OF ok(2)] by auto
next
  case (row_authorization f au)
  then show ?thesis using insert_authorization_Inr [OF row_authorization] operations_ok_tables [OF ok(2)] by auto
next
  case (row_event f ev)
  then show ?thesis using insert_event_Inr [OF row_event] operations_ok_tables [OF ok(2)] by auto
qed (auto simp: row_inversions install_revision_def set_plan_def set_binding_def
    intro: operations_ok_tables [OF ok(2)])

interpretation work: row_invariant lp "\<lambda>lg. keys_ok lg \<and> operations_ok lg" for lp
  by unfold_locales (auto intro: keys_ok_row operations_ok_row)

lemma sort_numbered:
  assumes "map os_step ss = map of_nat [1..<Suc (length ss)]" and "length ss \<le> 256"
  shows "sort_key os_step ss = ss"
proof (rule sort_key_id_if_sorted)
  have "of_nat i \<le> (of_nat j :: u32)" if "i \<le> j" "j \<le> 256" for i j
    using that by (simp add: word_le_nat_alt unat_of_nat)
  then show "sorted (map os_step ss)"
    unfolding assms(1) sorted_map using assms(2)
    by (intro sorted_wrt_mono_rel [OF _ sorted_upt]) auto
qed

text \<open>
  C34. Producer operations proceed step by step. In every ledger that a session reaches, the steps
  of an operation are listed as 1, 2, 3 and so on without gap, at most \<open>max_steps\<close> and never more
  than 256 of them; a completed step observed exactly the state the operation promised; nothing
  follows a blocked step; the operation is pending exactly while another step is allowed; and no
  two pending operations of a repository claim the same target.
\<close>

theorem operations_proceed_in_order:
  assumes run: "ledger_run lp lg ops lg'" and start: "keys_ok lg" "operations_ok lg"
  shows "(\<forall>(p, pending) \<in> set (lg_operations lg'). let ss = operation_steps lg' (op_id p) in
      map os_step ss = map of_nat [1..<Suc (length ss)] \<and>
      length ss \<le> unat (op_max_steps p) \<and> unat (op_max_steps p) \<le> 256 \<and>
      (\<forall>s \<in> set ss. os_state s = Op_Completed \<longrightarrow> os_observed s = op_after p) \<and>
      (\<forall>s \<in> set (butlast ss). os_state s \<noteq> Op_Blocked) \<and>
      pending = (length ss < unat (op_max_steps p) \<and> (ss = [] \<or> os_state (last ss) \<noteq> Op_Blocked))) \<and>
    distinct (map (\<lambda>(p, _). (op_repository_id p, op_target p)) (filter snd (lg_operations lg')))"
proof -
  have ok: "operations_ok lg'" using work.session [OF run] start by simp
  have "operation_steps lg' (op_id p) = steps_of lg' (op_id p) \<and> step_log_ok p pending (steps_of lg' (op_id p))"
    if "(p, pending) \<in> set (lg_operations lg')" for p pending
  proof -
    have log: "step_log_ok p pending (steps_of lg' (op_id p))" using ok that by (auto simp: operations_ok_def)
    then show ?thesis by (auto simp: operation_steps_def step_log_ok_def intro: sort_numbered)
  qed
  then show ?thesis
    using ok by (auto simp: step_log_ok_def list_all_iff Let_def operations_ok_def claims_def)
qed

lemma ledger0_operations: "operations_ok ledger0"
  by (simp add: operations_ok_def claims_def ledger0_def)

theorem operations_proceed_in_order_witness:
  "lg_operations ledger5 = [(sample_operation ''op-1'' ''plan-1'' Prod_Plan, False),
     (sample_operation ''op-2'' ''tree-1'' Prod_Spawn, True)] \<and>
   map os_step (operation_steps ledger5 ''op-1'') = [1]"
  using operations_proceed_in_order [OF sample_session ledger0_keys ledger0_operations]
  by (simp add: ledger5_def operation_steps_def steps_of_def sample_step_def)

section \<open>Attempts\<close>

definition attempts_ok :: "ledger \<Rightarrow> bool" where
  "attempts_ok lg \<longleftrightarrow> sorted_wrt (<) (map (\<lambda>s. unat (fst s)) (lg_attempt_scopes lg)) \<and>
     list_all (\<lambda>s. unat (fst s) < lg_next_attempt lg) (lg_attempt_scopes lg)"

lemma next_attempt_above: "a \<in> set (db_attempts (lg_store lg)) \<Longrightarrow> unat (at_attempt_id a) < next_attempt_number lg"
  using foldl_max_ge [of "unat (at_attempt_id a)" "map (\<lambda>r. unat (at_attempt_id r)) (db_attempts (lg_store lg))" 0]
  by (simp add: next_attempt_number_def)

lemma attempt_number_word: "next_attempt_number lg < 2 ^ 32 \<Longrightarrow>
    unat (of_nat (next_attempt_number lg) :: attempt_id) = next_attempt_number lg"
  by (subst unat_of_nat) simp

lemma attempts_ok_tables: "attempts_ok lg \<Longrightarrow> lg_attempt_scopes lg' = lg_attempt_scopes lg \<Longrightarrow>
    lg_next_attempt lg' = lg_next_attempt lg \<Longrightarrow> attempts_ok lg'"
  by (simp add: attempts_ok_def)

lemma attempts_ok_row:
  assumes "row_step lp lg lg'" and ok: "attempts_ok lg" shows "attempts_ok lg'"
  using assms(1)
proof cases
  case (row_attempt f s rev_id gen row)
  have le: "lg_next_attempt lg \<le> next_attempt_number lg" by (simp add: next_attempt_number_def)
  have old: "unat (fst x) < next_attempt_number lg" if "x \<in> set (lg_attempt_scopes lg)" for x
    using ok that le by (fastforce simp: attempts_ok_def list_all_iff)
  have n: "unat (at_attempt_id row) = next_attempt_number lg" using row_attempt attempt_number_word by simp
  have "sorted_wrt (<) (map (\<lambda>s. unat (fst s)) (lg_attempt_scopes lg'))"
    using ok old n unfolding row_attempt(1) by (auto simp: attempts_ok_def sorted_wrt_append)
  moreover have "list_all (\<lambda>s. unat (fst s) < lg_next_attempt lg') (lg_attempt_scopes lg')"
    using old n unfolding row_attempt(1) by (fastforce simp: list_all_iff)
  ultimately show ?thesis by (simp add: attempts_ok_def)
qed (auto simp: row_inversions install_revision_def set_plan_def set_binding_def close_operation_def
    dest!: row_dests intro: attempts_ok_tables [OF ok])

interpretation attempts: row_invariant lp attempts_ok for lp
  by unfold_locales (rule attempts_ok_row)

text \<open>
  C35. Attempts are reserved once. Whatever happened in the session before, a reservation returns an id
  above every attempt the database holds and above every id ever reserved; and it adds, together
  and nothing else, the attempt row of the requested task, its scope, the artifact that carries the
  id, its location, and the pending operation to spawn it.
\<close>

theorem reserved_attempts_are_new:
  assumes run: "ledger_run lp lg0 ops lg" and start: "attempts_ok lg0"
    and res: "reserve_attempt lp f r lg = Inr (i, lg')"
  shows "sorted_wrt (<) (map (\<lambda>s. unat (fst s)) (lg_attempt_scopes lg')) \<and>
    (\<forall>a \<in> set (db_attempts (lg_store lg)). at_attempt_id a < i) \<and>
    (\<exists>g. generation lg (xs_generation_id (rs_scope r)) = Some g \<and>
      lg' = lg\<lparr>lg_next_attempt := unat i + 1,
        lg_store := (lg_store lg)\<lparr>db_attempts := db_attempts (lg_store lg) @ [reserved_row r i]\<rparr>,
        lg_attempt_scopes := lg_attempt_scopes lg @ [(i, xs_generation_id (rs_scope r), rs_revision_id r)],
        lg_artifacts := lg_artifacts lg @ [((rs_artifact r)\<lparr>ar_attempt_id := Some i\<rparr>, gn_repository_id g)],
        lg_attempt_metadata := lg_attempt_metadata lg @ [reserved_metadata r i],
        lg_operations := lg_operations lg @ [(rs_spawn_intent r, True)]\<rparr>)"
proof -
  have "row_steps lp lg lg'" using reserve_attempt_rows [OF res] .
  then have "attempts_ok lg'" using attempts.rows attempts.session [OF run start] by blast
  moreover obtain g lg1 where g: "generation lg (xs_generation_id (rs_scope r)) = Some g"
    and n: "next_attempt_number lg < 2 ^ 32" "i = of_nat (next_attempt_number lg)"
    and lg1: "insert_artifact_row persistence_error ((rs_artifact r)\<lparr>ar_attempt_id := Some i\<rparr>)
        (gn_repository_id g) (reserving r lg) = Inr lg1"
    and op: "insert_operation f (rs_spawn_intent r)
        (lg1\<lparr>lg_attempt_metadata := lg_attempt_metadata lg1 @ [reserved_metadata r i]\<rparr>) = Inr lg'"
    by (rule reserve_attempt_cases [OF res])
  note insert_artifact_row_Inr [THEN iffD1, OF lg1] insert_operation_Inr [OF op]
  then have "lg' = (reserving r lg)\<lparr>
      lg_artifacts := lg_artifacts lg @ [((rs_artifact r)\<lparr>ar_attempt_id := Some i\<rparr>, gn_repository_id g)],
      lg_attempt_metadata := lg_attempt_metadata lg @ [reserved_metadata r i],
      lg_operations := lg_operations lg @ [(rs_spawn_intent r, True)]\<rparr>"
    by (auto simp: reserving_def Let_def)
  then have "lg' = lg\<lparr>lg_next_attempt := next_attempt_number lg + 1,
        lg_store := (lg_store lg)\<lparr>db_attempts := db_attempts (lg_store lg) @ [reserved_row r i]\<rparr>,
        lg_attempt_scopes := lg_attempt_scopes lg @ [(i, xs_generation_id (rs_scope r), rs_revision_id r)],
        lg_artifacts := lg_artifacts lg @ [((rs_artifact r)\<lparr>ar_attempt_id := Some i\<rparr>, gn_repository_id g)],
        lg_attempt_metadata := lg_attempt_metadata lg @ [reserved_metadata r i],
        lg_operations := lg_operations lg @ [(rs_spawn_intent r, True)]\<rparr>"
    using n(2) by (simp add: reserving_def Let_def)
  moreover have "at_attempt_id a < i" if "a \<in> set (db_attempts (lg_store lg))" for a
    using next_attempt_above [OF that] attempt_number_word [OF n(1)] n(2) by (simp add: word_less_nat_alt)
  ultimately show ?thesis
    using g attempt_number_word [OF n(1)] n(2) by (simp add: attempts_ok_def)
qed

theorem reserved_attempts_are_new_witness:
  "reserve_attempt sample_ports sample_fence sample_reservation ledger3 = Inr (1, ledger4) \<and>
   lg_attempt_scopes ledger4 = [(1, ''gen-1'', ''rev-1'')]"
proof -
  have "attempts_ok ledger3" by (simp add: attempts_ok_def ledger0_def ledger1_def ledger2_def ledger3_def)
  from reserved_attempts_are_new [OF run_nil this sample_reserve] sample_reserve show ?thesis
    by (simp add: ledger4_def)
qed

end
