(* ===== verification/Adapter_Ledger_Guard.thy ===== *)
theory Adapter_Ledger_Guard
  imports Adapter_Ledger_Inv
begin

text \<open>
  Who may write: the fence of the repository guards every operation but the queueing of a
  cancellation, which is addressed to one process of one driver; runs the ledger owns are closed
  to the store's own operations; attempts are reserved once.
\<close>

section \<open>Cancellation requests\<close>

definition requests_ok :: "ledger \<Rightarrow> bool" where
  "requests_ok lg \<longleftrightarrow>
     (\<forall>(q, _) \<in> set (lg_requests lg). list_ex (\<lambda>d. request_names d q) (lg_drivers lg) \<and>
        pending_requests lg (request_driver (cq_target q)) \<le> 64)"

lemma pending_bound: "requests_ok lg \<Longrightarrow> pending_requests lg i \<le> 64"
proof (cases "pending_requests lg i = 0")
  case False
  then obtain q where "(q, Can_Pending) \<in> set (lg_requests lg)" "request_driver (cq_target q) = i"
    by (auto simp: pending_requests_def filter_empty_conv)
  then show "requests_ok lg \<Longrightarrow> ?thesis" by (auto simp: requests_ok_def)
qed simp

lemma request_names_kept: "driver_kept d d' \<Longrightarrow> request_names d q \<Longrightarrow> request_names d' q"
  by (auto simp: driver_kept_def request_names_def split: cancellation_target.splits)

lemma drivers_still_named:
  "history lg lg' \<Longrightarrow> list_ex (\<lambda>d. request_names d q) (lg_drivers lg) \<Longrightarrow> list_ex (\<lambda>d. request_names d q) (lg_drivers lg')"
  using keeps_list_ex [of driver_kept] request_names_kept by (auto simp: history_def)

lemma requests_ok_tables:
  assumes "requests_ok lg" "history lg lg'" "lg_requests lg' = lg_requests lg" shows "requests_ok lg'"
  using assms drivers_still_named [OF assms(2)] by (auto simp: requests_ok_def pending_requests_def)

lemma pending_snoc: "pending_requests (lg\<lparr>lg_requests := lg_requests lg @ [(q, Can_Pending)]\<rparr>) i =
    pending_requests lg i + (if request_driver (cq_target q) = i then 1 else 0)"
  by (simp add: pending_requests_def)

lemma pending_acknowledge:
  assumes "status \<noteq> Can_Pending"
  shows "pending_requests (lg\<lparr>lg_requests := map (\<lambda>(x, s). (x, if cq_id x = i \<and> s = Can_Pending then status else s))
    (lg_requests lg)\<rparr>) d \<le> pending_requests lg d"
proof -
  have "length (filter (\<lambda>(q, st). request_driver (cq_target q) = d \<and> st = Can_Pending)
      (map (\<lambda>(x, s). (x, if cq_id x = i \<and> s = Can_Pending then status else s)) rows)) \<le>
    length (filter (\<lambda>(q, st). request_driver (cq_target q) = d \<and> st = Can_Pending) rows)" for rows
    using assms by (induction rows) (auto split: if_splits)
  then show ?thesis by (simp add: pending_requests_def)
qed

lemma requests_ok_row:
  assumes "row_step lp lg lg'" and ok: "keys_ok lg" "requests_ok lg" shows "requests_ok lg'"
proof -
  note h = history_row [OF assms(1) ok(1)]
  from assms(1) show ?thesis
  proof cases
    case (row_request q d)
    have "list_ex (\<lambda>d. request_names d q) (lg_drivers lg)" using row_request by (auto simp: list_ex_iff)
    then show ?thesis
      using ok(2) row_request pending_bound [OF ok(2)]
      by (auto simp: requests_ok_def pending_snoc)
  next
    case (row_acknowledge status i)
    then show ?thesis
      using ok(2) le_trans [OF pending_acknowledge [OF row_acknowledge(2)]] by (fastforce simp: requests_ok_def)
  next
    case (row_dependency f d)
    then show ?thesis using insert_one_dependency_Inr [OF row_dependency] h requests_ok_tables [OF ok(2)] by auto
  next
    case (row_revision f r)
    then show ?thesis using insert_revision_Inr [OF row_revision] h requests_ok_tables [OF ok(2)] by auto
  next
    case (row_authorization f au)
    then show ?thesis using insert_authorization_Inr [OF row_authorization] h requests_ok_tables [OF ok(2)] by auto
  next
    case (row_operation f op)
    then show ?thesis using insert_operation_Inr [OF row_operation] h requests_ok_tables [OF ok(2)] by auto
  next
    case (row_event f ev)
    then show ?thesis using insert_event_Inr [OF row_event] h requests_ok_tables [OF ok(2)] by auto
  qed (use h in \<open>auto simp: row_inversions install_revision_def set_plan_def set_binding_def
      intro: requests_ok_tables [OF ok(2)]\<close>)
qed

interpretation queue: row_invariant lp "\<lambda>lg. keys_ok lg \<and> requests_ok lg" for lp
  by unfold_locales (auto intro: keys_ok_row requests_ok_row)

text \<open>
  C36. A cancellation reaches the process it was meant for, and none is lost. In every ledger that a
  session reaches, each request names a registered driver, by its id and target, and the very
  process that driver has; no selector is queued twice; and the listing a driver reads, though it
  is cut at 64 rows, shows every request for it that is still pending, in the order of the queue.
\<close>

theorem cancellations_reach_their_driver:
  assumes run: "ledger_run lp lg ops lg'" and start: "keys_ok lg" "requests_ok lg"
  shows "(\<forall>(q, _) \<in> set (lg_requests lg'). \<exists>d \<in> set (lg_drivers lg').
      dv_id d = request_driver (cq_target q) \<and> dv_process d = Some (cq_process q) \<and>
      driver_repo (dv_target d) = request_repo (cq_target q)) \<and>
    distinct (map (\<lambda>r. cq_target (fst r)) (lg_requests lg')) \<and>
    map cb_request (cancellation_requests lg' i) =
      map fst (filter (\<lambda>(q, st). request_driver (cq_target q) = i \<and> st = Can_Pending) (lg_requests lg'))"
proof -
  have ok: "keys_ok lg'" "requests_ok lg'" using queue.session [OF run] start by auto
  have "dv_id d = request_driver (cq_target q) \<and> dv_process d = Some (cq_process q) \<and>
      driver_repo (dv_target d) = request_repo (cq_target q)" if "request_names d q" for d q
    using that by (auto simp: request_names_def driver_repo_def split: cancellation_target.splits)
  then have "\<forall>(q, _) \<in> set (lg_requests lg'). \<exists>d \<in> set (lg_drivers lg').
      dv_id d = request_driver (cq_target q) \<and> dv_process d = Some (cq_process q) \<and>
      driver_repo (dv_target d) = request_repo (cq_target q)"
    using ok(2) by (fastforce simp: requests_ok_def list_ex_iff)
  moreover have "take 64 (filter (\<lambda>(q, st). request_driver (cq_target q) = i \<and> st = Can_Pending) (lg_requests lg')) =
      filter (\<lambda>(q, st). request_driver (cq_target q) = i \<and> st = Can_Pending) (lg_requests lg')"
    using pending_bound [OF ok(2), of i] by (simp add: pending_requests_def)
  ultimately show ?thesis
    using ok(1) by (simp add: cancellation_requests_def keys_ok_def comp_def case_prod_unfold)
qed

lemma ledger0_requests: "requests_ok ledger0"
  by (simp add: requests_ok_def ledger0_def)

theorem cancellations_reach_their_driver_witness:
  "lg_requests ledger5 \<noteq> [] \<and> cancellation_requests ledger5 ''drv-1'' = []"
  using cancellations_reach_their_driver [OF sample_session ledger0_keys ledger0_requests, of "''drv-1''"]
  by (simp add: ledger5_def)

section \<open>The fence\<close>

fun op_fence :: "ledger_op \<Rightarrow> fence option" where
  "op_fence (LBindRepository f) = Some f"
| "op_fence (LRegisterRoot f alias) = Some f"
| "op_fence (LInsertGeneration f g) = Some f"
| "op_fence (LInsertArtifacts f rs ds) = Some f"
| "op_fence (LAppendFact f x) = Some f"
| "op_fence (LAppendJournal f x) = Some f"
| "op_fence (LCreateRunBinding f b) = Some f"
| "op_fence (LCreateProvisional f p) = Some f"
| "op_fence (LPromoteProvisional f p) = Some f"
| "op_fence (LAppendRevision f r) = Some f"
| "op_fence (LAuthorizeRevision f a) = Some f"
| "op_fence (LProjectRevision f g i) = Some f"
| "op_fence (LSelectRevision f s i) = Some f"
| "op_fence (LActivateGeneration f a) = Some f"
| "op_fence (LAppendScopedEvent f e) = Some f"
| "op_fence (LReserveAttempt f r) = Some f"
| "op_fence (LUpdateScopedAttempt f a) = Some f"
| "op_fence (LRecordEvidence f s i e) = Some f"
| "op_fence (LAppendOperation f p) = Some f"
| "op_fence (LAppendOperationStep f s) = Some f"
| "op_fence (LRegisterDriver f d) = Some f"
| "op_fence (LUpdateDriver f d) = Some f"
| "op_fence (LBindArtifact f b) = Some f"
| "op_fence (LEnqueue client q) = None"
| "op_fence (LAcknowledge f i st) = Some f"

definition fence_live :: "ledger \<Rightarrow> fence \<Rightarrow> bool" where
  "fence_live lg f \<longleftrightarrow> \<not> db_read_only (lg_store lg) \<and> fn_validate f = Inr () \<and> fn_verify_handle f = Inr () \<and>
     lg_database_identity lg = Some (fn_ledger_identity f) \<and> fn_file_identity f = Inr (fn_ledger_identity f)"

lemma validate_fence_live: "validate_fence lg f bound = Inr () \<Longrightarrow> fence_live lg f"
  by (auto simp: validate_fence_def fence_live_def try_res_eq_Inr split: if_splits)

lemma validate_fence_bound:
  "validate_fence lg f True = Inr () \<Longrightarrow> (fn_repository f, fn_ledger_identity f) \<in> set (lg_repositories lg)"
  by (auto simp: validate_fence_def try_res_eq_Inr repository_row_def split: if_splits dest!: find_by_Some)

lemma guarded_op:
  assumes "run_op lp op lg = Inr lg'" and "op_fence op = Some f" and "\<nexists>g. op = LBindRepository g"
  shows "validate_fence lg f True = Inr ()"
  using assms
  by (cases op) (auto simp: map_sum_snd_Inr register_root_def insert_generation_def insert_artifacts_def
      append_fact_def append_journal_def create_run_binding_def create_provisional_def promote_provisional_def
      append_revision_def authorize_revision_def project_revision_def select_revision_def
      activate_generation_def append_scoped_event_def reserve_attempt_def update_scoped_attempt_def
      record_scoped_evidence_def
      append_operation_def append_operation_step_def register_driver_def update_driver_def bind_artifact_def
      acknowledge_cancellation_def try_res_eq_Inr Let_def)

lemma bind_repository_live:
  assumes "bind_repository f lg = Inr lg'"
  shows "fence_live lg f \<and> (fn_repository f, fn_ledger_identity f) \<in> set (lg_repositories lg')"
proof (cases "lg_repositories lg")
  case Nil
  then show ?thesis using assms validate_fence_live by (auto simp: bind_repository_def try_res_eq_Inr Let_def)
next
  case (Cons x rest)
  obtain existing l where x: "x = (existing, l)" by (cases x)
  have "existing = fn_repository f" "l = fn_ledger_identity f" "lg' = lg" "validate_fence lg f False = Inr ()"
    using assms Cons x by (auto simp: bind_repository_def try_res_eq_Inr Let_def)
  then show ?thesis using Cons x validate_fence_live by auto
qed

lemma bind_or_guarded:
  assumes "run_op lp op lg = Inr lg'" and "op_fence op = Some f"
  shows "fence_live lg f \<and> (fn_repository f, fn_ledger_identity f) \<in> set (lg_repositories lg')"
proof (cases "\<exists>g. op = LBindRepository g")
  case True
  then show ?thesis using assms bind_repository_live by auto
next
  case False
  then have v: "validate_fence lg f True = Inr ()" using guarded_op assms by blast
  moreover have "set (lg_repositories lg) \<subseteq> set (lg_repositories lg')"
  proof -
    have "row_steps lp lg lg'" using assms(1) by (rule run_op_rows)
    then show ?thesis
    proof (induction rule: rtranclp_induct)
      case (step m n)
      from step(2) have "set (lg_repositories m) \<subseteq> set (lg_repositories n)"
        by (cases rule: row_step.cases)
          (auto simp: row_inversions install_revision_def set_plan_def set_binding_def dest!: row_dests)
      with step.IH show ?case by blast
    qed simp
  qed
  ultimately show ?thesis using validate_fence_live validate_fence_bound by blast
qed

text \<open>
  C8. Only the owner writes. When an operation of the ledger succeeds, the database was writable, the
  fence it was given was validated during the call, the open handle and the file on disk are the
  database the fence names, and the one repository of the ledger is the fence's repository. The
  queueing of a cancellation, which has no fence but its client's own check, adds to the request
  table and changes nothing else.
\<close>

theorem only_the_owner_writes:
  assumes op: "run_op lp op lg = Inr lg'" and keys: "keys_ok lg"
  shows "case op_fence op of
      Some f \<Rightarrow> \<not> db_read_only (lg_store lg) \<and> fn_validate f = Inr () \<and> fn_verify_handle f = Inr () \<and>
        lg_database_identity lg = Some (fn_ledger_identity f) \<and> fn_file_identity f = Inr (fn_ledger_identity f) \<and>
        lg_repositories lg' = [(fn_repository f, fn_ledger_identity f)]
    | None \<Rightarrow> \<exists>q. op = LEnqueue (Inr ()) q \<and>
        lg' = lg\<lparr>lg_requests := lg_requests lg @ (if matching_request lg q = None then [(q, Can_Pending)] else [])\<rparr>"
proof (cases "op_fence op")
  case (Some f)
  have "length (lg_repositories lg') \<le> 1" using keys.operation [OF op keys] by (simp add: keys_ok_def)
  then have "lg_repositories lg' = [(fn_repository f, fn_ledger_identity f)]"
    using bind_or_guarded [OF op Some] by (cases "lg_repositories lg'") auto
  then show ?thesis using bind_or_guarded [OF op Some] Some by (auto simp: fence_live_def)
next
  case None
  then obtain client q where q: "op = LEnqueue client q" by (cases op) auto
  then obtain view where view: "enqueue lp client q lg = Inr (view, lg')" using op by (auto simp: map_sum_snd_Inr)
  then have "client = Inr ()" by (auto simp: enqueue_def try_res_eq_Inr Let_def)
  moreover have "lg' = lg\<lparr>lg_requests := lg_requests lg @ (if matching_request lg q = None then [(q, Can_Pending)] else [])\<rparr>"
  proof (cases "matching_request lg q")
    case None
    then have "lg' = lg\<lparr>lg_requests := lg_requests lg @ [(q, Can_Pending)]\<rparr>"
      using view by (auto simp: enqueue_def op_unfold)
    then show ?thesis using None by simp
  next
    case (Some x)
    then have "lg' = lg" using view by (auto simp: enqueue_def op_unfold split: prod.splits)
    then show ?thesis using Some by simp
  qed
  ultimately show ?thesis unfolding q op_fence.simps option.case by blast
qed

lemma ledger2_keys: "keys_ok ledger2"
  by (simp add: keys_ok_def ledger0_def ledger1_def ledger2_def empty_store_def)

theorem only_the_owner_writes_witness:
  "lg_repositories ledger2 = [(fn_repository sample_fence, ''file'')] \<and>
   run_op sample_ports (LActivateGeneration sample_fence sample_activation) ledger2 = Inr ledger3"
proof -
  have op: "run_op sample_ports (LActivateGeneration sample_fence sample_activation) ledger2 = Inr ledger3"
    by (simp add: sample_activate)
  from only_the_owner_writes [OF op ledger2_keys] op show ?thesis
    by (simp add: ledger2_def ledger3_def sample_fence_def)
qed

section \<open>Bound runs and the store's own operations\<close>

definition bindings_synced :: "ledger \<Rightarrow> bool" where
  "bindings_synced lg \<longleftrightarrow> db_bindings (lg_store lg) = map rb_graph_id (lg_bindings lg)"

lemma bindings_synced_row: "row_step lp lg lg' \<Longrightarrow> bindings_synced lg \<Longrightarrow> bindings_synced lg'"
  by (cases rule: row_step.cases, assumption) (auto simp: bindings_synced_def row_inversions install_revision_def set_plan_def set_binding_def comp_def
    dest!: row_dests cong: if_cong)

interpretation bound: row_invariant lp bindings_synced for lp
  by unfold_locales (rule bindings_synced_row)

lemma bound_graph_refused:
  assumes "g \<in> set (db_bindings db)" shows "reject_bound_graph db g \<noteq> Inr u"
  using assms by (simp add: reject_bound_graph_def)

lemma still_bound:
  assumes "history lg lg'" and "b \<in> set (lg_bindings lg)" and "bindings_synced lg'"
  shows "rb_graph_id b \<in> set (db_bindings (lg_store lg'))"
proof -
  have "list_ex (\<lambda>x. rb_graph_id x = rb_graph_id b) (lg_bindings lg')"
    by (rule keeps_list_ex [of binding_kept "lg_bindings lg"])
      (use assms in \<open>auto simp: history_def list_ex_iff binding_kept_def\<close>)
  then obtain x where "x \<in> set (lg_bindings lg')" "rb_graph_id b = rb_graph_id x" by (auto simp: list_ex_iff)
  then show ?thesis using assms(3) by (auto simp: bindings_synced_def)
qed

text \<open>A record, or an attempt row, that concerns the run \<open>g\<close>: by its graph or by the attempt it names.\<close>

definition attempt_of_run :: "sqlite_store \<Rightarrow> string \<Rightarrow> attempt_id \<Rightarrow> bool" where
  "attempt_of_run db g i = (case find_attempt db i of Some a \<Rightarrow> at_graph_id a = g | None \<Rightarrow> False)"

definition record_of_run :: "sqlite_store \<Rightarrow> string \<Rightarrow> transition_record \<Rightarrow> bool" where
  "record_of_run db g r \<longleftrightarrow>
     tr_graph_id r = g \<or> (case tr_attempt_id r of Some i \<Rightarrow> attempt_of_run db g i | None \<Rightarrow> False)"

definition row_of_run :: "sqlite_store \<Rightarrow> string \<Rightarrow> attempt_row \<Rightarrow> bool" where
  "row_of_run db g a \<longleftrightarrow> at_graph_id a = g \<or> attempt_of_run db g (at_attempt_id a)"

lemma bound_attempt_refused:
  assumes "g \<in> set (db_bindings db)" "attempt_of_run db g i" shows "reject_legacy_attempt db i \<noteq> Inr u"
  using assms bound_graph_refused
  by (auto simp: attempt_of_run_def reject_legacy_attempt_def split: option.splits)

lemma bound_record_refused:
  assumes "g \<in> set (db_bindings db)" "record_of_run db g r" shows "check_record db r \<noteq> Inr u"
  using assms bound_graph_refused bound_attempt_refused
  by (auto simp: record_of_run_def check_record_def try_res_eq_Inr split: option.splits)

lemma map_res_refused: "x \<in> set xs \<Longrightarrow> (\<And>u. f x \<noteq> Inr u) \<Longrightarrow> map_res f xs \<noteq> Inr ys"
  by (induction xs arbitrary: ys) (auto simp: try_res_eq_Inr)

lemma bound_row_refused:
  assumes "g \<in> set (db_bindings db)" "row_of_run db g a" "reject_bound_graph db (at_graph_id a) = Inr u"
  shows "reject_legacy_attempt db (at_attempt_id a) \<noteq> Inr v"
  using assms bound_graph_refused bound_attempt_refused by (auto simp: row_of_run_def)

text \<open>
  C37. Once a run is bound, the store's own operations cannot touch it, whatever the ledger did in the
  meantime. Every operation with a record of the run, alone, with an attempt or anywhere in a
  batch saved with another run, fails, also when the record only names an attempt of the run; so do
  saving the run, saving an attempt of the run even under the id of another graph, updating its pid
  or pane, recording evidence for it, resetting the run, and registering its driver or recording
  its heartbeat or exit. So the rows of a bound run are written by the ledger alone, whose guards
  the other properties describe.
\<close>

theorem bound_runs_refuse_unscoped_writes:
  assumes run: "ledger_run lp lg ops lg'" and start: "keys_ok lg" "bindings_synced lg"
    and b: "b \<in> set (lg_bindings lg)"
  shows "let db = lg_store lg'; g = rb_graph_id b in
    (\<forall>r db'. record_of_run db g r \<longrightarrow>
       db_append r db \<noteq> Inr db' \<and> (\<forall>att. db_record_transition_and_attempt r att db \<noteq> Inr db') \<and>
       (\<forall>row evs. r \<in> set evs \<longrightarrow> db_save_run_and_events row evs db \<noteq> Inr db')) \<and>
    (\<forall>row. run_graph_id row = g \<longrightarrow> (\<forall>db' evs. db_save_run row db \<noteq> Inr db' \<and> db_save_run_and_events row evs db \<noteq> Inr db')) \<and>
    (\<forall>a. row_of_run db g a \<longrightarrow> (\<forall>db' r. db_save_attempt a db \<noteq> Inr db' \<and>
       db_record_transition_and_attempt r (Some a) db \<noteq> Inr db')) \<and>
    (\<forall>i. attempt_of_run db g i \<longrightarrow> (\<forall>db' pid img pane e.
       db_update_attempt_pid i pid img db \<noteq> Inr db' \<and> db_update_attempt_pane i pane db \<noteq> Inr db' \<and>
       (cr_attempt_id (evidence_candidate e) = i \<longrightarrow> db_record e db \<noteq> Inr db'))) \<and>
    (\<forall>db' d pid now code. db_reset_graph_execution g db \<noteq> Inr db' \<and>
       (dl_graph_id d = g \<longrightarrow> db_upsert_driver d db \<noteq> Inr db') \<and>
       db_record_driver_heartbeat g pid now db \<noteq> Inr db' \<and> db_record_driver_exit g pid code now db \<noteq> Inr db')"
proof -
  have "history lg lg'" using past.session [OF run] start(1) by simp
  moreover have "bindings_synced lg'" using bound.session [OF run start(2)] .
  ultimately have g: "rb_graph_id b \<in> set (db_bindings (lg_store lg'))" using still_bound b by blast
  note no = bound_graph_refused [OF g] bound_attempt_refused [OF g] bound_record_refused [OF g] bound_row_refused [OF g]
  show ?thesis
    unfolding Let_def
  proof (intro conjI allI impI)
    fix r db' row evs assume r: "record_of_run (lg_store lg') (rb_graph_id b) r" "r \<in> set evs"
    show "db_save_run_and_events row evs (lg_store lg') \<noteq> Inr db'"
      using map_res_refused [of r evs "check_record (lg_store lg')", OF r(2)] no(3) [OF r(1)] by (auto simp: db_save_run_and_events_def try_res_eq_Inr)
  qed (use no in \<open>auto simp: db_append_def db_save_run_def db_save_run_and_events_def db_save_attempt_def
        db_record_transition_and_attempt_def db_update_attempt_pid_def db_update_attempt_pane_def update_attempt_def
        db_record_def db_reset_graph_execution_def db_upsert_driver_def db_record_driver_heartbeat_def
        db_record_driver_exit_def try_res_eq_Inr Let_def\<close>)
qed

theorem bound_runs_refuse_unscoped_writes_witness:
  "\<forall>db'. db_append sample_transition (lg_store ledger3) \<noteq> Inr db' \<and>
     db_record_transition_and_attempt sample_transition None (lg_store ledger3) \<noteq> Inr db'"
proof -
  let ?b = "sample_binding\<lparr>rb_current_revision := Some ''rev-1''\<rparr>"
  have "run_op sample_ports (LActivateGeneration sample_fence sample_activation) ledger2 = Inr ledger3"
    by (simp add: sample_activate)
  note run = run_Cons [OF this run_nil]
  have s: "bindings_synced ledger2"
    by (simp add: bindings_synced_def ledger1_def ledger2_def sample_binding_def)
  have b: "?b \<in> set (lg_bindings ledger2)" by (simp add: ledger2_def)
  from bound_runs_refuse_unscoped_writes [OF run ledger2_keys s b] show ?thesis
    by (simp add: Let_def sample_binding_def sample_transition_def record_of_run_def)
qed

end
