(* ===== verification/Adapter_Ledger_Chain.thy ===== *)
theory Adapter_Ledger_Chain
  imports Adapter_Ledger_Plans
begin

text \<open>
  The chain of revisions behind an active generation: from the current revision of a bound run,
  predecessors lead back to the revision the generation was activated with, which was accepted
  and whose plan the generation records; every later one belongs to the generation or to none.
\<close>

definition revision_ids :: "ledger \<Rightarrow> lifecycle_id list" where
  "revision_ids lg = map (\<lambda>r. pr_id (sn_metadata r)) (lg_revisions lg)"

text \<open>A predecessor is in the table before its successor.\<close>

definition ordered_ok :: "ledger \<Rightarrow> bool" where
  "ordered_ok lg \<longleftrightarrow> (\<forall>k < length (lg_revisions lg).
     opt_holds (\<lambda>p. p \<in> set (take k (revision_ids lg))) (pr_predecessor (sn_metadata (lg_revisions lg ! k))))"

lemma ordered_ok_same: "ordered_ok lg \<Longrightarrow> lg_revisions lg' = lg_revisions lg \<Longrightarrow> ordered_ok lg'"
  by (simp add: ordered_ok_def revision_ids_def)

lemma ordered_ok_row:
  assumes "row_step lp lg lg'" and ok: "ordered_ok lg" shows "ordered_ok lg'"
  using assms(1)
proof cases
  case (row_revision f r)
  note r = insert_revision_Inr [OF row_revision]
  then have "opt_holds (\<lambda>p. p \<in> set (revision_ids lg)) (pr_predecessor (sn_metadata r))"
    by (auto simp: opt_holds_def revision_ids_def revision_snapshot_def split: option.splits dest!: find_by_Some)
  then show ?thesis using ok r by (auto simp: ordered_ok_def revision_ids_def nth_append less_Suc_eq)
next
  case (row_dependency f d)
  then show ?thesis using insert_one_dependency_Inr [OF row_dependency] ordered_ok_same [OF ok] by auto
next
  case (row_authorization f au)
  then show ?thesis using insert_authorization_Inr [OF row_authorization] ordered_ok_same [OF ok] by auto
next
  case (row_operation f op)
  then show ?thesis using insert_operation_Inr [OF row_operation] ordered_ok_same [OF ok] by auto
next
  case (row_event f ev)
  then show ?thesis using insert_event_Inr [OF row_event] ordered_ok_same [OF ok] by auto
qed (auto simp: row_inversions install_revision_def set_plan_def set_binding_def intro: ordered_ok_same [OF ok])

fun revision_chain :: "ledger \<Rightarrow> lifecycle_id \<Rightarrow> lifecycle_id list \<Rightarrow> bool" where
  "revision_chain lg gid [] = False"
| "revision_chain lg gid [i] = some_holds (\<lambda>_. True) (revision_snapshot lg i)"
| "revision_chain lg gid (i # j # rest) =
     (some_holds (\<lambda>r. pr_predecessor (sn_metadata r) = Some j \<and>
        opt_holds (\<lambda>g. g = gid) (pr_generation_id (sn_metadata r))) (revision_snapshot lg i) \<and>
      revision_chain lg gid (j # rest))"

lemma chain_later:
  assumes "revision_chain lg gid cs" and "\<And>i r. revision_snapshot lg i = Some r \<Longrightarrow> revision_snapshot lg' i = Some r"
  shows "revision_chain lg' gid cs"
  using assms(1) by (induction cs rule: induct_list012) (auto simp: some_holds_iff dest: assms(2))

text \<open>A chain runs backwards through the table, so it never meets a revision twice.\<close>

lemma chain_backwards:
  assumes "revision_chain lg gid (i # rest)" and ok: "keys_ok lg" "ordered_ok lg"
    and "k < length (lg_revisions lg)" and "revision_ids lg ! k = i"
  shows "distinct (i # rest) \<and> set rest \<subseteq> set (take k (revision_ids lg))"
  using assms(1,4,5)
proof (induction rest arbitrary: i k)
  case (Cons j rest)
  have ids: "distinct (revision_ids lg)" using ok(1) by (simp add: keys_ok_def revision_ids_def)
  obtain r where r: "revision_snapshot lg i = Some r" "pr_predecessor (sn_metadata r) = Some j"
    using Cons.prems(1) by (auto simp: some_holds_iff)
  have at_k: "pr_id (sn_metadata (lg_revisions lg ! k)) = i" "lg_revisions lg ! k \<in> set (lg_revisions lg)"
    using Cons.prems by (auto simp: revision_ids_def)
  then have "lg_revisions lg ! k = r"
    using unique_row [OF ids [unfolded revision_ids_def]] find_by_Some [OF r(1) [unfolded revision_snapshot_def]]
    by auto
  then have "j \<in> set (take k (revision_ids lg))"
    using ok(2) Cons.prems(2) r(2) by (auto simp: ordered_ok_def opt_holds_def dest!: spec [of _ k])
  then obtain m where m: "m < k" "m < length (lg_revisions lg)" "revision_ids lg ! m = j"
    using Cons.prems(2) by (auto simp: in_set_conv_nth revision_ids_def)
  have tail: "revision_chain lg gid (j # rest)" using Cons.prems(1) by simp
  note IH = Cons.IH [OF tail m(2,3)]
  have below: "set (take m (revision_ids lg)) \<subseteq> set (take k (revision_ids lg))"
    using m(1) by (simp add: set_take_subset_set_take)
  have len: "length (revision_ids lg) = length (lg_revisions lg)" by (simp add: revision_ids_def)
  have "i \<notin> set (take k (revision_ids lg))"
    using ids Cons.prems(2,3) len by (auto simp: in_set_conv_nth nth_eq_iff_index_eq)
  moreover have "set (j # rest) \<subseteq> set (take k (revision_ids lg))"
    using IH below \<open>j \<in> set (take k (revision_ids lg))\<close> by auto
  ultimately show ?case using IH by auto
qed simp

lemma chain_snapshots: "revision_chain lg gid cs \<Longrightarrow> i \<in> set cs \<Longrightarrow> revision_snapshot lg i \<noteq> None"
  by (induction cs rule: induct_list012) (auto simp: some_holds_iff)

lemma chain_distinct:
  assumes c: "revision_chain lg gid cs" and ok: "keys_ok lg" "ordered_ok lg"
  shows "distinct cs \<and> length cs \<le> length (lg_revisions lg)"
proof -
  obtain i rest where cs: "cs = i # rest" using c by (cases cs) auto
  have ids: "set cs \<subseteq> set (revision_ids lg)"
    using chain_snapshots [OF c] by (fastforce simp: revision_snapshot_def revision_ids_def dest: find_by_Some)
  then obtain k where "k < length (lg_revisions lg)" "revision_ids lg ! k = i"
    using cs by (auto simp: in_set_conv_nth revision_ids_def)
  then have d: "distinct cs" using chain_backwards [OF c [unfolded cs] ok] cs by blast
  then have "length cs \<le> length (revision_ids lg)"
    using ids by (metis card_mono distinct_card finite_set le_trans card_length)
  then show ?thesis using d by (simp add: revision_ids_def)
qed

section \<open>Every active generation is rooted\<close>

definition accepted_once :: "ledger \<Rightarrow> lifecycle_id \<Rightarrow> bool" where
  "accepted_once lg i \<longleftrightarrow>
     (\<exists>a \<in> set (lg_authorizations lg). ra_revision_id a = i \<and> ra_decision a = Revision_Accepted)"

definition active_rooted :: "ledger \<Rightarrow> run_binding \<Rightarrow> lifecycle_id \<Rightarrow> bool" where
  "active_rooted lg b gid \<longleftrightarrow>
     (\<exists>gen initial cs r. generation lg gid = Some gen \<and> gn_layout_version gen = rb_layout_version b \<and>
        find_by fst gid (lg_generation_revisions lg) = Some (gid, initial) \<and>
        rb_current_revision b = Some (hd cs) \<and> revision_chain lg gid cs \<and> last cs = initial \<and>
        revision_snapshot lg initial = Some r \<and> pr_plan_hash (sn_metadata r) = gn_accepted_plan_hash gen \<and>
        accepted_once lg initial)"

definition rooted :: "ledger \<Rightarrow> run_binding \<Rightarrow> bool" where
  "rooted lg b \<longleftrightarrow> repository_exists lg (rb_repository_id b) \<and> opt_holds (active_rooted lg b) (rb_active_generation b)"

definition roots_ok :: "ledger \<Rightarrow> bool" where
  "roots_ok lg \<longleftrightarrow> (\<forall>b \<in> set (lg_bindings lg). rooted lg b)"

lemma active_rooted_later:
  assumes "active_rooted lg b gid" and h: "history lg lg'" shows "active_rooted lg' b gid"
proof -
  obtain gen initial cs r where at: "generation lg gid = Some gen" "gn_layout_version gen = rb_layout_version b"
    "find_by fst gid (lg_generation_revisions lg) = Some (gid, initial)"
    "rb_current_revision b = Some (hd cs)" "revision_chain lg gid cs" "last cs = initial"
    "revision_snapshot lg initial = Some r" "pr_plan_hash (sn_metadata r) = gn_accepted_plan_hash gen"
    "accepted_once lg initial"
    using assms(1) unfolding active_rooted_def by blast
  have "find_by fst gid (lg_generation_revisions lg') = Some (gid, initial)"
    using at(3) h by (auto simp: history_def prefix_def find_by_grows)
  moreover have "revision_chain lg' gid cs" by (rule chain_later [OF at(5) history_lookups(2) [OF h]])
  moreover have "accepted_once lg' initial"
    using at(9) history_subsets [OF h] by (auto simp: accepted_once_def)
  ultimately show ?thesis
    using at history_lookups [OF h] unfolding active_rooted_def by blast
qed

lemma rooted_later: "rooted lg b \<Longrightarrow> history lg lg' \<Longrightarrow> rooted lg' b"
  by (auto simp: rooted_def opt_holds_def repository_exists_def has_key_iff history_def prefix_def
      intro: active_rooted_later split: option.splits)

lemma roots_ok_row:
  assumes "row_step lp lg lg'" and ok: "keys_ok lg" "roots_ok lg" shows "roots_ok lg'"
proof -
  note h = history_row [OF assms(1) ok(1)]
  have later: "rooted lg' b" if "b \<in> set (lg_bindings lg)" for b
    using ok(2) that rooted_later [OF _ h] by (simp add: roots_ok_def)
  have same: "roots_ok lg'" if "lg_bindings lg' = lg_bindings lg"
    using later that by (simp add: roots_ok_def)
  from assms(1) show ?thesis
  proof cases
    case (row_binding b)
    then have "rooted lg' b" by (simp add: rooted_def opt_holds_def repository_exists_def)
    then show ?thesis using later row_binding by (auto simp: roots_ok_def)
  next
    case (row_install g b i r)
    let ?b = "b\<lparr>rb_current_revision := Some i\<rparr>"
    have b: "b \<in> set (lg_bindings lg)" using row_install by (auto simp: binding_Inr dest: find_by_Some)
    have "active_rooted lg' ?b gid" if gid: "rb_active_generation b = Some gid" for gid
    proof -
      have "active_rooted lg b gid" using ok(2) b gid by (auto simp: roots_ok_def rooted_def opt_holds_def)
      then obtain gen initial cs q where at: "generation lg gid = Some gen" "gn_layout_version gen = rb_layout_version b"
        "find_by fst gid (lg_generation_revisions lg) = Some (gid, initial)"
        "rb_current_revision b = Some (hd cs)" "revision_chain lg gid cs" "last cs = initial"
        "revision_snapshot lg initial = Some q" "pr_plan_hash (sn_metadata q) = gn_accepted_plan_hash gen"
        "accepted_once lg initial"
        unfolding active_rooted_def by blast
      have "cs \<noteq> []" using at(5) by auto
      have "\<exists>ds. hd ds = i \<and> revision_chain lg gid ds \<and> last ds = initial"
      proof (cases "hd cs = i")
        case False
        then have "pr_predecessor (sn_metadata r) = Some (hd cs)"
          using row_install at(4) by (auto simp: follows_current_def)
        moreover have "opt_holds (\<lambda>x. x = gid) (pr_generation_id (sn_metadata r))"
          using row_install gid by (auto simp: opt_holds_def split: option.splits)
        ultimately have "revision_chain lg gid (i # cs)"
          using at(5) \<open>cs \<noteq> []\<close> row_install by (cases cs) (auto simp: some_holds_iff)
        then show ?thesis using at(6) \<open>cs \<noteq> []\<close> by (intro exI [of _ "i # cs"]) simp
      qed (use at in blast)
      then have "active_rooted lg ?b gid" using at unfolding active_rooted_def by fastforce
      then show ?thesis using h by (rule active_rooted_later)
    qed
    moreover have "repository_exists lg' (rb_repository_id b)" using later [OF b] by (simp add: rooted_def)
    ultimately have "rooted lg' ?b" by (auto simp: rooted_def opt_holds_def split: option.splits)
    then show ?thesis
      using later row_install(1) by (auto simp: roots_ok_def install_revision_def set_plan_def split: if_splits)
  next
    case (row_activate g b gid gen i r run)
    let ?b = "b\<lparr>rb_active_generation := Some gid, rb_current_revision := Some i\<rparr>"
    have b: "b \<in> set (lg_bindings lg)" using row_activate by (auto simp: binding_Inr dest: find_by_Some)
    have "accepted_once lg i"
    proof -
      have "last (authorizations lg i) \<in> set (authorizations lg i)" "ra_decision (last (authorizations lg i)) = Revision_Accepted"
        using row_activate by (auto simp: authorized_def Let_def)
      then show ?thesis by (auto simp: accepted_once_def authorizations_def)
    qed
    then have "active_rooted lg ?b gid"
      using row_activate by (auto simp: active_rooted_def some_holds_iff intro!: exI [of _ "[i]"])
    then have "active_rooted lg' ?b gid" using h by (rule active_rooted_later)
    moreover have "repository_exists lg' (rb_repository_id b)" using later [OF b] by (simp add: rooted_def)
    ultimately have "rooted lg' ?b" by (simp add: rooted_def opt_holds_def)
    then show ?thesis using later row_activate(1) by (auto simp: roots_ok_def split: if_splits)
  next
    case (row_dependency f d)
    then show ?thesis using insert_one_dependency_Inr [OF row_dependency] same by auto
  next
    case (row_revision f r)
    then show ?thesis using insert_revision_Inr [OF row_revision] same by auto
  next
    case (row_authorization f au)
    then show ?thesis using insert_authorization_Inr [OF row_authorization] same by auto
  next
    case (row_operation f op)
    then show ?thesis using insert_operation_Inr [OF row_operation] same by auto
  next
    case (row_event f ev)
    then show ?thesis using insert_event_Inr [OF row_event] same by auto
  qed (use same in \<open>simp_all add: row_inversions\<close>)
qed

definition readable_ok :: "ledger_ports \<Rightarrow> ledger \<Rightarrow> bool" where
  "readable_ok lp lg \<longleftrightarrow> keys_ok lg \<and> plans_ok lp lg \<and> ordered_ok lg \<and> roots_ok lg"

interpretation readable: row_invariant lp "readable_ok lp" for lp
  by unfold_locales (auto simp: readable_ok_def intro: keys_ok_row plans_ok_row ordered_ok_row roots_ok_row)

lemma ledger0_readable: "readable_ok lp ledger0"
  using ledger0_ok [of lp]
  by (simp add: readable_ok_def ledger_ok_def ordered_ok_def roots_ok_def ledger0_def)

end
