(* ===== verification/Engine_Read.thy ===== *)
theory Engine_Read
  imports Adapter_Ledger_Chain Engine_Run_State
begin

text \<open>
  The pinned public observation of \<open>meshloop-engine/src/workspace/read.rs\<close>: a \<open>ReadSelection\<close> is
  captured from the ledger once per command, and frames are read through it. One snapshot sees one
  ledger, so an observation is a function of it; the result of opening and closing the snapshot is
  an argument. The frame of an unbound run is the run loop's own view and is an argument as well.
\<close>

section \<open>Selection\<close>

record bound_selection =
  bs_binding :: run_binding
  bs_scope :: execution_scope
  bs_graph :: task_graph
  bs_revisions :: "lifecycle_id list"
  bs_initial_revision :: lifecycle_id

record read_selection =
  rl_graph_id :: string
  rl_bound :: "bound_selection option"

definition read_mismatch :: orchestrator_error where
  "read_mismatch = StoreErr PlanRevisionMismatch"

definition store_res :: "store_error + 'a \<Rightarrow> orchestrator_error + 'a" where
  "store_res r = map_sum StoreErr (\<lambda>x. x) r"

definition read_snapshot :: "store_error + unit \<Rightarrow> orchestrator_error + 'a \<Rightarrow> orchestrator_error + 'a" where
  "read_snapshot snapshot observed = try_res (store_res snapshot) (\<lambda>_. observed)"

definition NoAcceptedGeneration :: orchestrator_error where
  "NoAcceptedGeneration = IllegalErr ''NoAcceptedGeneration: lifecycle-bound run has no accepted execution generation''"

definition ReadRevisionLimitExceeded :: orchestrator_error where
  "ReadRevisionLimitExceeded = IllegalErr ''ReadRevisionLimitExceeded: observation supports at most 4096 revisions per generation''"

definition ReadScopeChanged :: orchestrator_error where
  "ReadScopeChanged = IllegalErr ''ReadScopeChanged: generation or plan revision changed; start a new observation''"

text \<open>The checks made on every revision of the walk.\<close>

definition revision_readable ::
  "ledger_ports \<Rightarrow> run_binding \<Rightarrow> string \<Rightarrow> lifecycle_id \<Rightarrow> plan_revision_snapshot \<Rightarrow> task_graph option" where
  "revision_readable lp b g i snap =
     (let m = sn_metadata snap
      in if pr_id m \<noteq> i \<or> pr_graph_id m \<noteq> g \<or> pr_repository_id m \<noteq> rb_repository_id b \<or>
            lp_sha256_hex lp (sn_plan_json snap) \<noteq> pr_plan_hash m
         then None
         else case lp_parse_plan lp (sn_plan_json snap) of
             None \<Rightarrow> None
           | Some parsed \<Rightarrow>
               if validate (lp_topo lp) parsed \<noteq> Inr () \<or> graph_id parsed \<noteq> g then None else Some parsed)"

definition has_acceptance :: "ledger \<Rightarrow> lifecycle_id \<Rightarrow> bool" where
  "has_acceptance lg i \<longleftrightarrow> list_ex (\<lambda>a. ra_decision a = Revision_Accepted) (authorizations lg i)"

text \<open>
  From the current revision back to the initial one of the generation: the result is the set of
  revisions passed, as a list, and the plan of the current one.
\<close>

function capture_walk ::
  "ledger_ports \<Rightarrow> ledger \<Rightarrow> run_binding \<Rightarrow> generation_record \<Rightarrow> lifecycle_id \<Rightarrow> lifecycle_id \<Rightarrow>
    lifecycle_id list \<Rightarrow> task_graph option \<Rightarrow> lifecycle_id \<Rightarrow>
    orchestrator_error + lifecycle_id list \<times> task_graph option" where
  "capture_walk lp lg b gen current initial revisions graph i =
     (if length revisions \<ge> 4096 then Inl ReadRevisionLimitExceeded
      else if i \<in> set revisions then Inl read_mismatch
      else case revision_snapshot lg i of
          None \<Rightarrow> Inl read_mismatch
        | Some snap \<Rightarrow>
            (case revision_readable lp b (rb_graph_id b) i snap of
               None \<Rightarrow> Inl read_mismatch
             | Some parsed \<Rightarrow>
                 let m = sn_metadata snap;
                     graph' = (if i = current then Some parsed else graph);
                     revisions' = revisions @ [i]
                 in if i = initial then
                      if pr_plan_hash m \<noteq> gn_accepted_plan_hash gen \<or> \<not> has_acceptance lg i
                      then Inl read_mismatch else Inr (revisions', graph')
                    else if \<not> opt_holds (\<lambda>x. x = gn_id gen) (pr_generation_id m) then Inl read_mismatch
                    else case pr_predecessor m of
                        None \<Rightarrow> Inl read_mismatch
                      | Some p \<Rightarrow> capture_walk lp lg b gen current initial revisions' graph' p))"
  by pat_completeness auto
termination
  by (relation "measure (\<lambda>(lp, lg, b, gen, current, initial, revisions, graph, i). 4096 - length revisions)") auto

declare capture_walk.simps [simp del]

definition generation_matches :: "ledger \<Rightarrow> run_binding \<Rightarrow> string \<Rightarrow> execution_scope \<Rightarrow> lifecycle_id \<Rightarrow> generation_record \<Rightarrow> bool" where
  "generation_matches lg b g s gid gen \<longleftrightarrow>
     rb_graph_id b = g \<and> xs_repository_id s = rb_repository_id b \<and> xs_graph_id s = g \<and> xs_generation_id s = gid \<and>
     gn_id gen = gid \<and> gn_repository_id gen = rb_repository_id b \<and> gn_graph_id gen = g \<and>
     gn_root_alias gen = pl_root_alias (rb_location b) \<and> gn_layout_version gen = rb_layout_version b \<and>
     map_option rr_id (repository lg (rb_repository_id b)) = Some (rb_repository_id b)"

definition selection_valid :: "ledger \<Rightarrow> read_selection \<Rightarrow> orchestrator_error + unit" where
  "selection_valid lg sel =
     (if \<not> graph_id_is_legal (rl_graph_id sel) then Inl read_mismatch
      else if run_binding_of lg (rl_graph_id sel) = map_option bs_binding (rl_bound sel) then Inr ()
      else Inl ReadScopeChanged)"

definition capture_bound ::
  "ledger_ports \<Rightarrow> ledger \<Rightarrow> string \<Rightarrow> run_binding \<Rightarrow> orchestrator_error + read_selection" where
  "capture_bound lp lg g b =
     (if rb_active_generation b = None \<and> rb_current_revision b = None then Inl NoAcceptedGeneration
      else
        try_res (ok_or (rb_active_generation b) read_mismatch) (\<lambda>gid.
        try_res (ok_or (rb_current_revision b) read_mismatch) (\<lambda>current.
        try_res (store_res (resolve_scope lg g (GenerationScope gid))) (\<lambda>found.
        try_res (ok_or found read_mismatch) (\<lambda>s.
        try_res (ok_or (generation lg gid) read_mismatch) (\<lambda>gen.
        try_res (require (generation_matches lg b g s gid gen) read_mismatch) (\<lambda>_.
        try_res (store_res (generation_initial_revision lg s)) (\<lambda>start.
        try_res (ok_or start read_mismatch) (\<lambda>initial.
        try_res (capture_walk lp lg b gen current initial [] None current) (\<lambda>(revisions, graph).
        try_res (ok_or graph read_mismatch) (\<lambda>plan.
          let sel = \<lparr>rl_graph_id = g, rl_bound = Some \<lparr>bs_binding = b, bs_scope = s, bs_graph = plan,
                bs_revisions = revisions, bs_initial_revision = initial\<rparr>\<rparr>
          in try_res (selection_valid lg sel) (\<lambda>_. Inr sel))))))))))))"

definition capture_snapshot :: "ledger_ports \<Rightarrow> ledger \<Rightarrow> string \<Rightarrow> orchestrator_error + read_selection" where
  "capture_snapshot lp lg g =
     try_res (store_res (db_load_run (lg_store lg) g)) (\<lambda>row.
     try_res (ok_or row (MissingGraph g)) (\<lambda>_.
       if \<not> graph_id_is_legal g then Inl read_mismatch
       else case run_binding_of lg g of
           None \<Rightarrow> Inr \<lparr>rl_graph_id = g, rl_bound = None\<rparr>
         | Some b \<Rightarrow> capture_bound lp lg g b))"

definition capture ::
  "ledger_ports \<Rightarrow> store_error + unit \<Rightarrow> ledger \<Rightarrow> string \<Rightarrow> orchestrator_error + read_selection" where
  "capture lp snapshot lg g = read_snapshot snapshot (capture_snapshot lp lg g)"

definition is_bound :: "read_selection \<Rightarrow> bool" where
  "is_bound sel \<longleftrightarrow> rl_bound sel \<noteq> None"

section \<open>Views\<close>

record evidence_view =
  ev_kind :: string
  ev_tool :: "string option"
  ev_exit_code :: "i32 option"
  ev_summary_redacted :: string

fun evidence_view_of :: "evidence \<Rightarrow> evidence_view" where
  "evidence_view_of (Deterministic d) = \<lparr>ev_kind = ''deterministic'', ev_tool = Some (de_tool d),
     ev_exit_code = Some (de_exit_code d), ev_summary_redacted = de_output_redacted d\<rparr>"
| "evidence_view_of (ModelReview m) = \<lparr>ev_kind = ''model_review'',
     ev_tool = Some (mr_harness m @ ''/'' @ mr_model_ref m), ev_exit_code = None,
     ev_summary_redacted = (case mr_verdict m of Pass \<Rightarrow> ''Pass'' | Fail \<Rightarrow> ''Fail'') @ '': '' @ mr_rationale_redacted m\<rparr>"
| "evidence_view_of (HumanAcceptance h) = \<lparr>ev_kind = ''human_acceptance'', ev_tool = None, ev_exit_code = None,
     ev_summary_redacted = ''accepted by '' @ ha_accepted_by h @ '' at '' @ ha_accepted_at h\<rparr>"

record attempt_view =
  av_attempt_id :: attempt_id
  av_harness :: "string option"
  av_model_ref :: "string option"
  av_started_at :: "string option"
  av_ended_at :: "string option"
  av_duration_s :: "nat option"
  av_outcome :: "string option"
  av_base_revision :: "string option"
  av_evidence :: "evidence_view list"

record run_summary =
  rm_attempts :: u32
  rm_retries :: u32
  rm_worker_wall_seconds :: nat

definition duration_secs :: "string option \<Rightarrow> string option \<Rightarrow> nat option" where
  "duration_secs started ended =
     (case (Option.bind started parse_u64, Option.bind ended parse_u64) of
        (Some s, Some e) \<Rightarrow> Some (e - s)
      | _ \<Rightarrow> None)"

record read_frame =
  rf_status :: run_status
  rf_summary :: run_summary
  rf_attempts :: "task_id \<rightharpoonup> attempt_view list"
  rf_locations :: "task_id \<rightharpoonup> portable_location"
  rf_attempt_locations :: "attempt_id \<rightharpoonup> portable_location"
  rf_attempt_revisions :: "attempt_id \<rightharpoonup> lifecycle_id"
  rf_generation_id :: "lifecycle_id option"
  rf_revision_id :: "lifecycle_id option"

section \<open>Frames of bound runs\<close>

definition frame_plan_state :: "ledger \<Rightarrow> bound_selection \<Rightarrow> plan_state" where
  "frame_plan_state lg b =
     (if list_ex (\<lambda>i. Some i = rb_current_revision (bs_binding b) \<and> authorized lg i) (bs_revisions b)
      then PlanAccepted else AwaitingPlanReview)"

text \<open>A revision of the selection that was accepted at some time.\<close>

definition revision_listed :: "ledger \<Rightarrow> bound_selection \<Rightarrow> lifecycle_id \<Rightarrow> bool" where
  "revision_listed lg b i \<longleftrightarrow> i \<in> set (bs_revisions b) \<and> has_acceptance lg i"

fun frame_events ::
  "ledger \<Rightarrow> bound_selection \<Rightarrow> string \<Rightarrow> stored_event list \<Rightarrow> orchestrator_error + transition_record list" where
  "frame_events lg b g [] = Inr []"
| "frame_events lg b g (e # rest) =
     (case e of
        ScopedEvent x \<Rightarrow>
          if se_scope x = bs_scope b \<and> revision_listed lg b (se_revision_id x) \<and> tr_graph_id (se_record x) = g
          then try_res (frame_events lg b g rest) (\<lambda>rs. Inr (se_record x # rs))
          else Inl read_mismatch
      | LegacyEvent _ \<Rightarrow> Inl read_mismatch)"

fun frame_attempts ::
  "ledger \<Rightarrow> bound_selection \<Rightarrow> stored_attempt list \<Rightarrow> orchestrator_error + scoped_attempt list" where
  "frame_attempts lg b [] = Inr []"
| "frame_attempts lg b (a # rest) =
     (case a of
        ScopedAttempt x \<Rightarrow>
          if sa_scope x = bs_scope b \<and> revision_listed lg b (sa_revision_id x)
          then try_res (frame_attempts lg b rest) (\<lambda>rs. Inr (x # rs))
          else Inl read_mismatch
      | LegacyAttempt _ \<Rightarrow> Inl read_mismatch)"

definition attempt_backed :: "ledger \<Rightarrow> bound_selection \<Rightarrow> scoped_attempt \<Rightarrow> bool" where
  "attempt_backed lg b a \<longleftrightarrow>
     (case artifact lg (sa_artifact_id a) of
        None \<Rightarrow> False
      | Some art \<Rightarrow>
          list_ex (\<lambda>n. n_id n = sa_task_id a) (nodes (bs_graph b)) \<and>
          ar_generation_id art = xs_generation_id (bs_scope b) \<and> ar_kind art = Kind_Attempt \<and>
          ar_attempt_id art = Some (sa_attempt_id a) \<and>
          ar_root_alias art = pl_root_alias (sa_location a) \<and>
          ar_relative_path art = pl_relative_path (sa_location a))"

definition event_backed :: "bound_selection \<Rightarrow> scoped_attempt list \<Rightarrow> transition_record \<Rightarrow> bool" where
  "event_backed b rows r \<longleftrightarrow>
     list_ex (\<lambda>n. n_id n = tr_task_id r) (nodes (bs_graph b)) \<and>
     opt_holds (\<lambda>i. list_ex (\<lambda>a. sa_attempt_id a = i \<and> sa_task_id a = tr_task_id r) rows) (tr_attempt_id r)"

definition evidence_backed :: "scoped_attempt list \<Rightarrow> evidence \<Rightarrow> bool" where
  "evidence_backed rows e \<longleftrightarrow>
     list_ex (\<lambda>a. sa_attempt_id a = cr_attempt_id (evidence_candidate e) \<and>
       sa_task_id a = cr_task_id (evidence_candidate e)) rows"

definition attempt_outcome :: "transition_record list \<Rightarrow> scoped_attempt \<Rightarrow> string option" where
  "attempt_outcome events a =
     (case List.find (\<lambda>e. tr_attempt_id e = Some (sa_attempt_id a)) (rev events) of
        Some e \<Rightarrow> Some (event_name (tr_event e))
      | None \<Rightarrow> if Option.bind (sa_outcome a) (\<lambda>x. strip_prefix x ''base:'') = None then sa_outcome a else None)"

definition frame_attempt_view ::
  "transition_record list \<Rightarrow> evidence list \<Rightarrow> scoped_attempt \<Rightarrow> attempt_view" where
  "frame_attempt_view events evidence a =
     \<lparr>av_attempt_id = sa_attempt_id a, av_harness = sa_harness a, av_model_ref = sa_model_ref a,
      av_started_at = sa_started_at a, av_ended_at = sa_ended_at a,
      av_duration_s = duration_secs (sa_started_at a) (sa_ended_at a),
      av_outcome = attempt_outcome events a,
      av_base_revision = Option.bind (sa_outcome a) (\<lambda>x. strip_prefix x ''base:''),
      av_evidence = map evidence_view_of (filter (\<lambda>e.
        cr_attempt_id (evidence_candidate e) = sa_attempt_id a \<and>
        cr_task_id (evidence_candidate e) = sa_task_id a) evidence)\<rparr>"

definition views_of_task :: "(scoped_attempt \<Rightarrow> attempt_view) \<Rightarrow> scoped_attempt list \<Rightarrow> task_id \<rightharpoonup> attempt_view list" where
  "views_of_task view rows t =
     (let mine = filter (\<lambda>a. sa_task_id a = t) rows in if mine = [] then None else Some (map view mine))"

definition latest_of_task :: "scoped_attempt list \<Rightarrow> task_id \<Rightarrow> scoped_attempt option" where
  "latest_of_task rows t = List.find (\<lambda>a. sa_task_id a = t) (rev rows)"

text \<open>What a node waits for: shared by the view of the run loop and the frame.\<close>

definition blocking_deps :: "(task_id \<rightharpoonup> task_state) \<Rightarrow> task_node \<Rightarrow> task_id list" where
  "blocking_deps ts n =
     remdups_adj (sort (filter (\<lambda>d. ts d \<noteq> Some Accepted \<and> ts d \<noteq> Some Integrated) (n_depends_on n)))"

definition node_waiting_for ::
  "plan_state \<Rightarrow> task_state \<Rightarrow> task_id list \<Rightarrow> nat \<Rightarrow> u32 \<Rightarrow> waiting_for option" where
  "node_waiting_for plan_state state blocked_by attempts max_tries =
     (if plan_state = AwaitingPlanReview \<and> state \<notin> {Accepted, Integrated, Cancelled} then Some PlanAcceptance
      else if state = AwaitingReview then Some Acceptance
      else if state \<in> {Pending, Ready, Blocked} \<and> blocked_by \<noteq> [] then Some Dependency
      else if state = Failed \<and> (of_nat attempts :: u32) \<ge> max_tries then Some RetryBudgetExhausted
      else None)"

definition frame_node ::
  "run_limits \<Rightarrow> plan_state \<Rightarrow> (task_id \<rightharpoonup> task_state) \<Rightarrow> scoped_attempt list \<Rightarrow> task_node \<Rightarrow> node_status" where
  "frame_node limits plan_state ts rows n =
     (let state = state_of ts (n_id n); att = latest_of_task rows (n_id n);
          blocked = blocking_deps ts n;
          waiting = node_waiting_for plan_state state blocked
            (length (filter (\<lambda>a. sa_task_id a = n_id n) rows)) (max_retries limits)
      in \<lparr>ns_task_id = n_id n, ns_waiting_for = waiting,
          ns_blocked_by = (if waiting = Some Dependency then blocked else []),
          ns_description = n_description n, ns_state = state, ns_note = None, ns_worktree = None,
          ns_revision = None, ns_pane_id = Option.bind att sa_pane_id,
          ns_live = map_option (\<lambda>_. ''Ambiguous'') att, ns_deliverable = n_deliverable n\<rparr>)"

definition frame_of ::
  "run_limits \<Rightarrow> ledger \<Rightarrow> string \<Rightarrow> bound_selection \<Rightarrow> transition_record list \<Rightarrow> (task_id \<rightharpoonup> task_state) \<Rightarrow>
    scoped_attempt list \<Rightarrow> evidence list \<Rightarrow> read_frame" where
  "frame_of limits lg g b events ts rows evidence =
     (let view = frame_attempt_view events evidence;
          ids = remdups (map sa_task_id rows);
          last_by = (\<lambda>i. List.find (\<lambda>a. sa_attempt_id a = i) (rev rows))
      in \<lparr>rf_status = \<lparr>rst_graph_id = g, rst_plan_state = frame_plan_state lg b,
            rst_nodes = map (frame_node limits (frame_plan_state lg b) ts rows) (nodes (bs_graph b))\<rparr>,
          rf_summary = \<lparr>rm_attempts = of_nat (length rows),
            rm_retries = (\<Sum>t \<leftarrow> ids. of_nat (length (filter (\<lambda>a. sa_task_id a = t) rows) - 1)),
            rm_worker_wall_seconds = (\<Sum>a \<leftarrow> rows. case duration_secs (sa_started_at a) (sa_ended_at a) of
               Some d \<Rightarrow> d | None \<Rightarrow> 0) mod 2 ^ 64\<rparr>,
          rf_attempts = views_of_task view rows,
          rf_locations = (\<lambda>t. if list_ex (\<lambda>n. n_id n = t) (nodes (bs_graph b))
            then map_option sa_location (latest_of_task rows t) else None),
          rf_attempt_locations = (\<lambda>i. map_option sa_location (last_by i)),
          rf_attempt_revisions = (\<lambda>i. map_option sa_revision_id (last_by i)),
          rf_generation_id = Some (xs_generation_id (bs_scope b)),
          rf_revision_id = rb_current_revision (bs_binding b)\<rparr>)"

definition read_bound_frame ::
  "run_limits \<Rightarrow> ledger \<Rightarrow> read_selection \<Rightarrow> bound_selection \<Rightarrow> orchestrator_error + read_frame" where
  "read_bound_frame limits lg sel b =
     (let g = xs_graph_id (bs_scope b); which = GenerationScope (xs_generation_id (bs_scope b))
      in try_res (require (revision_listed lg b (bs_initial_revision b)) read_mismatch) (\<lambda>_.
         try_res (store_res (scoped_events lg g which)) (\<lambda>stored.
         try_res (frame_events lg b (rl_graph_id sel) stored) (\<lambda>events.
         try_res (store_res (scoped_attempts lg g which)) (\<lambda>attempts.
         try_res (frame_attempts lg b attempts) (\<lambda>found.
         try_res (require (list_all (attempt_backed lg b) found) read_mismatch) (\<lambda>_.
         try_res (require (list_all (event_backed b found) events) read_mismatch) (\<lambda>_.
         try_res (store_res (scoped_evidence lg g which)) (\<lambda>evidence.
         let rows = sort_key sa_attempt_id found in
         try_res (require (list_all (evidence_backed rows) evidence) read_mismatch) (\<lambda>_.
         try_res (selection_valid lg sel) (\<lambda>_.
         try_res (store_res (replay_tasks events)) (\<lambda>ts.
           Inr (frame_of limits lg (rl_graph_id sel) b events ts rows evidence)))))))))))))"

definition read_frame_snapshot ::
  "run_limits \<Rightarrow> orchestrator_error + read_frame \<Rightarrow> ledger \<Rightarrow> read_selection \<Rightarrow> orchestrator_error + read_frame" where
  "read_frame_snapshot limits unbound lg sel =
     try_res (selection_valid lg sel) (\<lambda>_.
       case rl_bound sel of
         None \<Rightarrow> try_res unbound (\<lambda>frame. try_res (selection_valid lg sel) (\<lambda>_. Inr frame))
       | Some b \<Rightarrow> read_bound_frame limits lg sel b)"

text \<open>Snapshots do not nest: inside one, \<open>with_read_snapshot\<close> only observes.\<close>

definition read_current_frame ::
  "ledger_ports \<Rightarrow> run_limits \<Rightarrow> store_error + unit \<Rightarrow> orchestrator_error + read_frame \<Rightarrow> ledger \<Rightarrow> string \<Rightarrow>
    orchestrator_error + read_frame" where
  "read_current_frame lp limits snapshot unbound lg g =
     read_snapshot snapshot (try_res (capture lp (Inr ()) lg g) (\<lambda>sel.
       read_snapshot (Inr ()) (read_frame_snapshot limits unbound lg sel)))"

section \<open>Observing a run of a real ledger\<close>

definition plan_of_revision :: "ledger_ports \<Rightarrow> ledger \<Rightarrow> lifecycle_id \<Rightarrow> task_graph option" where
  "plan_of_revision lp lg i = Option.bind (revision_snapshot lg i) (\<lambda>r. lp_parse_plan lp (sn_plan_json r))"

definition readable_at :: "ledger_ports \<Rightarrow> ledger \<Rightarrow> run_binding \<Rightarrow> lifecycle_id \<Rightarrow> bool" where
  "readable_at lp lg b i \<longleftrightarrow> (\<exists>r p. revision_snapshot lg i = Some r \<and>
     revision_readable lp b (rb_graph_id b) i r = Some p \<and> plan_of_revision lp lg i = Some p)"

lemma has_acceptance_iff: "has_acceptance lg i \<longleftrightarrow> accepted_once lg i"
  by (auto simp: has_acceptance_def accepted_once_def authorizations_def list_ex_iff)

lemma walk_follows_chain:
  assumes "revision_chain lg (gn_id gen) cs" "last cs = initial" "distinct (revs @ cs)" "length revs + length cs \<le> 4096"
    and "\<And>i. i \<in> set cs \<Longrightarrow> readable_at lp lg b i"
    and start: "revision_snapshot lg initial = Some r" "pr_plan_hash (sn_metadata r) = gn_accepted_plan_hash gen"
      "has_acceptance lg initial"
  shows "capture_walk lp lg b gen now initial revs plan (hd cs) =
    Inr (revs @ cs, if now \<in> set cs then plan_of_revision lp lg now else plan)"
  using assms(1-5)
proof (induction cs arbitrary: revs plan rule: induct_list012)
  case (2 i)
  then have "readable_at lp lg b i" by simp
  with 2 start show ?case
    by (subst capture_walk.simps) (auto simp: readable_at_def Let_def)
next
  case (3 i j rest)
  have at_i: "readable_at lp lg b i" using 3 by simp
  have link: "some_holds (\<lambda>r. pr_predecessor (sn_metadata r) = Some j \<and>
      opt_holds (\<lambda>g. g = gn_id gen) (pr_generation_id (sn_metadata r))) (revision_snapshot lg i)"
    using "3.prems"(1) by simp
  have "initial \<in> set (j # rest)" using "3.prems"(2) by (metis last_ConsR last_in_set list.distinct(1))
  then have "i \<noteq> initial" using "3.prems"(3) by auto
  moreover have "capture_walk lp lg b gen now initial (revs @ [i]) p (hd (j # rest)) =
      Inr ((revs @ [i]) @ j # rest, if now \<in> set (j # rest) then plan_of_revision lp lg now else p)" for p
    by (rule "3.IH"(2)) (use "3.prems" in auto)
  ultimately show ?case
    using at_i link "3.prems"(3,4)
    by (subst capture_walk.simps) (auto simp: readable_at_def some_holds_iff Let_def)
qed simp

lemma chain_in_run:
  assumes "revision_chain lg gid cs" and ok: "keys_ok lg" "plans_ok lp lg"
    and "revision_snapshot lg (hd cs) = Some r" "pr_graph_id (sn_metadata r) = g" "pr_repository_id (sn_metadata r) = repo"
  shows "\<forall>i \<in> set cs. some_holds (\<lambda>r. pr_graph_id (sn_metadata r) = g \<and> pr_repository_id (sn_metadata r) = repo)
    (revision_snapshot lg i)"
  using assms(1,4-6)
proof (induction cs arbitrary: r rule: induct_list012)
  case (3 i j rest)
  have r: "revision_snapshot lg i = Some r" "pr_predecessor (sn_metadata r) = Some j"
    using "3.prems" by (auto simp: some_holds_iff)
  then have "r \<in> set (lg_revisions lg)" by (auto simp: revision_snapshot_def dest: find_by_Some)
  then obtain q where "revision_snapshot lg j = Some q" "pr_graph_id (sn_metadata q) = g" "pr_repository_id (sn_metadata q) = repo"
    using ok(2) r "3.prems" by (fastforce simp: plans_ok_def predecessor_ok_def opt_holds_def some_holds_iff)
  then show ?case using "3.IH"(2) [of q] "3.prems" r by (auto simp: some_holds_iff)
qed (auto simp: some_holds_iff)

lemma readable_at_run:
  assumes "plans_ok lp lg" and "some_holds (\<lambda>r. pr_graph_id (sn_metadata r) = rb_graph_id b \<and>
    pr_repository_id (sn_metadata r) = rb_repository_id b) (revision_snapshot lg i)"
  shows "readable_at lp lg b i"
proof -
  obtain r where r: "revision_snapshot lg i = Some r" "pr_graph_id (sn_metadata r) = rb_graph_id b"
    "pr_repository_id (sn_metadata r) = rb_repository_id b" using assms(2) by (auto simp: some_holds_iff)
  then have "r \<in> set (lg_revisions lg)" "pr_id (sn_metadata r) = i"
    by (auto simp: revision_snapshot_def dest: find_by_Some)
  then have "plan_matches lp r" using assms(1) by (simp add: plans_ok_def)
  then show ?thesis
    using r \<open>pr_id (sn_metadata r) = i\<close>
    by (auto simp: readable_at_def revision_readable_def plan_matches_def plan_of_revision_def Let_def
        split: option.splits)
qed

lemma current_in_run:
  assumes "plans_ok lp lg" and "b \<in> set (lg_bindings lg)" and "rb_current_revision b = Some i"
  shows "some_holds (\<lambda>r. pr_graph_id (sn_metadata r) = rb_graph_id b \<and>
      pr_repository_id (sn_metadata r) = rb_repository_id b) (revision_snapshot lg i)"
    and "\<exists>row. run_row_of lg (rb_graph_id b) = Some row \<and>
      plan_of_revision lp lg i = lp_parse_plan lp (rd_plan_json row)"
  using assms by (fastforce simp: plans_ok_def opt_holds_def revision_of_def some_holds_iff plan_of_revision_def)+

lemma capture_bound_active:
  assumes ok: "readable_ok lp lg" and b: "run_binding_of lg g = Some b" "rb_active_generation b = Some gid"
    and small: "length (lg_revisions lg) \<le> 4096" and legal: "graph_id_is_legal g"
  shows "\<exists>cs p row. revision_chain lg gid cs \<and> distinct cs \<and> accepted_once lg (last cs) \<and>
    rb_current_revision b = Some (hd cs) \<and>
    run_row_of lg g = Some row \<and> lp_parse_plan lp (rd_plan_json row) = Some p \<and>
    capture_bound lp lg g b = Inr \<lparr>rl_graph_id = g, rl_bound = Some \<lparr>bs_binding = b,
      bs_scope = \<lparr>xs_repository_id = rb_repository_id b, xs_graph_id = g, xs_generation_id = gid\<rparr>,
      bs_graph = p, bs_revisions = cs, bs_initial_revision = last cs\<rparr>\<rparr>"
proof -
  have parts: "keys_ok lg" "plans_ok lp lg" "ordered_ok lg" "roots_ok lg" using ok by (simp_all add: readable_ok_def)
  have at_b: "b \<in> set (lg_bindings lg)" "rb_graph_id b = g" using b(1) by (auto simp: run_binding_of_def dest: find_by_Some)
  have "rooted lg b" using parts(4) at_b by (simp add: roots_ok_def)
  then obtain gen initial cs r where act: "generation lg gid = Some gen" "gn_layout_version gen = rb_layout_version b"
    "find_by fst gid (lg_generation_revisions lg) = Some (gid, initial)"
    "rb_current_revision b = Some (hd cs)" "revision_chain lg gid cs" "last cs = initial"
    "revision_snapshot lg initial = Some r" "pr_plan_hash (sn_metadata r) = gn_accepted_plan_hash gen"
    "accepted_once lg initial" and repo: "repository_exists lg (rb_repository_id b)"
    using b(2) by (auto simp: rooted_def opt_holds_def active_rooted_def)
  have gen_run: "gn_graph_id gen = g" "gn_repository_id gen = rb_repository_id b" "gn_root_alias gen = pl_root_alias (rb_location b)"
    "gn_id gen = gid"
    using parts(2) at_b b(2) act(1)
    by (fastforce simp: plans_ok_def opt_holds_def generation_of_def some_holds_iff generation_def dest: find_by_Some)+
  have repo_row: "map_option rr_id (repository lg (rb_repository_id b)) = Some (rb_repository_id b)"
    using repo
    by (cases "repository_row lg (rb_repository_id b)")
      (auto simp: repository_exists_def repository_def repository_row_def has_key_iff find_by_None dest: find_by_Some)
  have bound: "binding lg g = Inr b" using b(1) by (simp add: run_binding_of_def binding_Inr)
  note current = current_in_run [OF parts(2) at_b(1) act(4)]
  obtain q where q: "revision_snapshot lg (hd cs) = Some q" "pr_graph_id (sn_metadata q) = g"
    "pr_repository_id (sn_metadata q) = rb_repository_id b" using current(1) at_b by (auto simp: some_holds_iff)
  have readable: "readable_at lp lg b i" if "i \<in> set cs" for i
    using readable_at_run [OF parts(2)] chain_in_run [OF act(5) parts(1,2) q] that at_b by auto
  have cs: "distinct cs" "length cs \<le> 4096" using chain_distinct [OF act(5) parts(1,3)] small by auto
  have "cs \<noteq> []" using act(5) by auto
  then have head: "hd cs \<in> set cs" by simp
  obtain p where p: "plan_of_revision lp lg (hd cs) = Some p" using readable [OF head] by (auto simp: readable_at_def)
  have walk: "capture_walk lp lg b gen (hd cs) initial [] None (hd cs) = Inr (cs, Some p)"
    using walk_follows_chain [of lg gen cs initial "[]" lp b r "hd cs" None] act cs readable gen_run head p
    by (simp add: has_acceptance_iff)
  obtain row where row: "run_row_of lg g = Some row" "lp_parse_plan lp (rd_plan_json row) = Some p"
    using current(2) at_b p by auto
  have "capture_bound lp lg g b = Inr \<lparr>rl_graph_id = g, rl_bound = Some \<lparr>bs_binding = b,
      bs_scope = \<lparr>xs_repository_id = rb_repository_id b, xs_graph_id = g, xs_generation_id = gid\<rparr>,
      bs_graph = p, bs_revisions = cs, bs_initial_revision = last cs\<rparr>\<rparr>"
    using b act gen_run walk bound at_b repo_row legal
    by (simp add: capture_bound_def try_res_def ok_or_def store_res_def resolve_scope_def require_def
        generation_initial_revision_def generation_matches_def selection_valid_def Let_def)
  then show ?thesis using act cs row by metis
qed

text \<open>
  C11. A bound run with an accepted generation can always be observed. Take any ledger that a session
  of operations reaches, of at most 4096 plan revisions, and a bound run of it whose row loads. If the
  binding has an active generation, \<open>capture\<close> succeeds; the selection carries that binding and
  that generation, the plan it shows is the plan the run row stores and the run executes, and the
  revisions it lists go from the current one, by predecessors, without a repetition, back to one
  that was accepted. If it has none, \<open>capture\<close> refuses with \<open>NoAcceptedGeneration\<close>, or as a mismatch when
  a revision was already projected.
\<close>

theorem bound_runs_are_observable:
  assumes run: "ledger_run lp lg ops lg'" and start: "readable_ok lp lg"
    and row: "db_load_run (lg_store lg') g = Inr (Some loaded)" and legal: "graph_id_is_legal g"
    and b: "run_binding_of lg' g = Some b" and small: "length (lg_revisions lg') \<le> 4096"
  shows "case rb_active_generation b of
      None \<Rightarrow> capture lp (Inr ()) lg' g =
        Inl (if rb_current_revision b = None then NoAcceptedGeneration else read_mismatch)
    | Some gid \<Rightarrow> \<exists>cs p row. capture lp (Inr ()) lg' g = Inr \<lparr>rl_graph_id = g, rl_bound = Some \<lparr>bs_binding = b,
          bs_scope = \<lparr>xs_repository_id = rb_repository_id b, xs_graph_id = g, xs_generation_id = gid\<rparr>,
          bs_graph = p, bs_revisions = cs, bs_initial_revision = last cs\<rparr>\<rparr> \<and>
        run_row_of lg' g = Some row \<and> lp_parse_plan lp (rd_plan_json row) = Some p \<and>
        rb_current_revision b = Some (hd cs) \<and> revision_chain lg' gid cs \<and> distinct cs \<and> accepted_once lg' (last cs)"
proof -
  have eq: "capture lp (Inr ()) lg' g = capture_bound lp lg' g b"
    using row legal b by (simp add: capture_def read_snapshot_def capture_snapshot_def try_res_def store_res_def ok_or_def)
  show ?thesis
  proof (cases "rb_active_generation b")
    case None
    then show ?thesis by (auto simp: eq capture_bound_def try_res_def ok_or_def)
  next
    case (Some gid)
    show ?thesis
      using capture_bound_active [OF readable.session [OF run start] b Some small legal] unfolding eq Some
      by (simp, metis)
  qed
qed

theorem bound_runs_are_observable_witness:
  "\<exists>sel. capture sample_ports (Inr ()) ledger5 ''g-1'' = Inr sel \<and> is_bound sel"
proof -
  let ?b = "sample_binding\<lparr>rb_active_generation := Some ''gen-1'', rb_current_revision := Some ''rev-1''\<rparr>"
  have b: "run_binding_of ledger5 ''g-1'' = Some ?b"
    by (simp add: run_binding_of_def ledger3_def ledger4_def ledger5_def find_by_def sample_binding_def)
  have row: "\<exists>r. db_load_run (lg_store ledger5) ''g-1'' = Inr (Some r)"
    by (simp add: db_load_run_def run_of_db_def parse_plan_state_def plan_state_table_def try_res_def ledger5_def ledger4_def ledger3_def ledger2_def ledger0_def)
  have "graph_id_is_legal ''g-1''" by code_simp
  moreover have "length (lg_revisions ledger5) \<le> 4096"
    by (simp add: ledger3_def ledger4_def ledger5_def ledger2_def)
  ultimately show ?thesis
    using bound_runs_are_observable [OF sample_session ledger0_readable _ _ b] row
    by (fastforce simp: is_bound_def)
qed

section \<open>Frames stay in their scope\<close>

definition event_in_scope :: "ledger \<Rightarrow> bound_selection \<Rightarrow> string \<Rightarrow> stored_event \<Rightarrow> transition_record \<Rightarrow> bool" where
  "event_in_scope lg b g e r \<longleftrightarrow> (case e of
     ScopedEvent x \<Rightarrow> se_record x = r \<and> se_scope x = bs_scope b \<and> revision_listed lg b (se_revision_id x) \<and> tr_graph_id r = g
   | LegacyEvent _ \<Rightarrow> False)"

definition attempt_in_scope :: "ledger \<Rightarrow> bound_selection \<Rightarrow> stored_attempt \<Rightarrow> scoped_attempt \<Rightarrow> bool" where
  "attempt_in_scope lg b a x \<longleftrightarrow>
     a = ScopedAttempt x \<and> sa_scope x = bs_scope b \<and> revision_listed lg b (sa_revision_id x)"

lemma frame_events_Inr: "frame_events lg b g stored = Inr rs \<Longrightarrow> list_all2 (event_in_scope lg b g) stored rs"
  by (induction stored arbitrary: rs)
    (auto simp: event_in_scope_def try_res_eq_Inr split: stored_event.splits if_splits)

lemma frame_attempts_Inr: "frame_attempts lg b stored = Inr rs \<Longrightarrow> list_all2 (attempt_in_scope lg b) stored rs"
  by (induction stored arbitrary: rs)
    (auto simp: attempt_in_scope_def try_res_eq_Inr split: stored_attempt.splits if_splits)

lemma store_res_Inr [simp]: "store_res r = Inr x \<longleftrightarrow> r = Inr x"
  by (cases r) (simp_all add: store_res_def)

lemma latest_of_task_Some:
  "latest_of_task rows t = Some a \<Longrightarrow> a \<in> set rows \<and> sa_task_id a = t"
  unfolding latest_of_task_def find_Some_iff by (metis length_rev nth_mem set_rev)

text \<open>
  C38. A frame of a bound run shows its generation and nothing else. When a frame is returned, every
  event and attempt row that was read carries the scope of the selection and a revision that the
  selection lists and that was accepted; every attempt has its artifact at the location it claims;
  every event and evidence record names an attempt of the frame for the same task. The state of
  each node is the replay of exactly those events; the plan counts as accepted only when the
  current revision is authorised now; and the location shown for a task is that of one of its
  attempts.
\<close>

theorem frames_stay_in_scope:
  assumes "read_bound_frame limits lg sel b = Inr f"
  shows "\<exists>stored events attempts found evidence ts.
    scoped_events lg (xs_graph_id (bs_scope b)) (GenerationScope (xs_generation_id (bs_scope b))) = Inr stored \<and>
    scoped_attempts lg (xs_graph_id (bs_scope b)) (GenerationScope (xs_generation_id (bs_scope b))) = Inr attempts \<and>
    scoped_evidence lg (xs_graph_id (bs_scope b)) (GenerationScope (xs_generation_id (bs_scope b))) = Inr evidence \<and>
    list_all2 (event_in_scope lg b (rl_graph_id sel)) stored events \<and>
    list_all2 (attempt_in_scope lg b) attempts found \<and>
    list_all (attempt_backed lg b) found \<and> list_all (event_backed b found) events \<and>
    list_all (evidence_backed found) evidence \<and>
    replay_tasks events = Inr ts \<and>
    map ns_state (rst_nodes (rf_status f)) = map (\<lambda>n. state_of ts (n_id n)) (nodes (bs_graph b)) \<and>
    (rst_plan_state (rf_status f) = PlanAccepted \<longleftrightarrow>
       (\<exists>i \<in> set (bs_revisions b). rb_current_revision (bs_binding b) = Some i \<and> authorized lg i)) \<and>
    rm_attempts (rf_summary f) = of_nat (length attempts) \<and>
    (\<forall>t l. rf_locations f t = Some l \<longrightarrow> (\<exists>a \<in> set found. sa_task_id a = t \<and> sa_location a = l))"
proof -
  let ?g = "xs_graph_id (bs_scope b)" and ?which = "GenerationScope (xs_generation_id (bs_scope b))"
  obtain stored events attempts found evidence ts where read:
    "scoped_events lg ?g ?which = Inr stored" "frame_events lg b (rl_graph_id sel) stored = Inr events"
    "scoped_attempts lg ?g ?which = Inr attempts" "frame_attempts lg b attempts = Inr found"
    "list_all (attempt_backed lg b) found" "list_all (event_backed b found) events"
    "scoped_evidence lg ?g ?which = Inr evidence"
    "list_all (evidence_backed (sort_key sa_attempt_id found)) evidence" "replay_tasks events = Inr ts"
    and f: "f = frame_of limits lg (rl_graph_id sel) b events ts (sort_key sa_attempt_id found) evidence"
    using assms by (auto simp: read_bound_frame_def try_res_eq_Inr require_def Let_def split: if_splits)
  have "evidence_backed (sort_key sa_attempt_id found) = evidence_backed found"
    by (auto simp: evidence_backed_def list_ex_iff fun_eq_iff)
  then have "list_all (evidence_backed found) evidence" using read(8) by simp
  moreover have "length attempts = length found"
    using frame_attempts_Inr [OF read(4)] by (rule list_all2_lengthD)
  moreover have "\<exists>a \<in> set found. sa_task_id a = t \<and> sa_location a = l" if "rf_locations f t = Some l" for t l
    using that f by (auto simp: frame_of_def Let_def split: if_splits dest!: latest_of_task_Some)
  moreover have "rst_plan_state (rf_status f) = frame_plan_state lg b"
    "rm_attempts (rf_summary f) = of_nat (length found)"
    "map ns_state (rst_nodes (rf_status f)) = map (\<lambda>n. state_of ts (n_id n)) (nodes (bs_graph b))"
    using f by (auto simp: frame_of_def frame_node_def Let_def)
  moreover have "frame_plan_state lg b = PlanAccepted \<longleftrightarrow>
      (\<exists>i \<in> set (bs_revisions b). rb_current_revision (bs_binding b) = Some i \<and> authorized lg i)"
    by (auto simp: frame_plan_state_def list_ex_iff) metis+
  ultimately show ?thesis
    using read frame_events_Inr [OF read(2)] frame_attempts_Inr [OF read(4)]
    by (intro exI conjI) auto
qed

definition sample_bound :: bound_selection where
  "sample_bound = \<lparr>bs_binding = sample_binding\<lparr>rb_active_generation := Some ''gen-1'', rb_current_revision := Some ''rev-1''\<rparr>,
     bs_scope = sample_scope, bs_graph = sample_graph, bs_revisions = [''rev-1''], bs_initial_revision = ''rev-1''\<rparr>"

definition sample_selection :: read_selection where
  "sample_selection = \<lparr>rl_graph_id = ''g-1'', rl_bound = Some sample_bound\<rparr>"

lemmas ledger5_tables = ledger0_def ledger1_def ledger2_def ledger3_def ledger4_def ledger5_def

lemma sample_rows:
  "db_events (lg_store ledger5) = [event_row_of sample_transition]"
  "lg_event_scopes ledger5 = [Some (''gen-1'', ''rev-1'')]"
  "db_attempts (lg_store ledger5) = [reserved_row sample_reservation 1]"
  "db_evidence (lg_store ledger5) = []"
  by (simp_all add: ledger5_tables empty_store_def)

lemma sample_log: "db_records_for_graph (lg_store ledger5) ''g-1'' = Inr [sample_transition]"
  by (simp add: db_records_for_graph_def sample_rows codec_simps) (simp add: sample_transition_def event_row_of_def)

lemma sample_keys: "event_keys ledger5 ''g-1'' = [Some (''gen-1'', ''rev-1'')]"
  by (simp add: event_keys_def sample_rows) (simp add: sample_transition_def event_row_of_def)

lemma sample_resolve: "resolve_scope ledger5 ''g-1'' (GenerationScope ''gen-1'') = Inr (Some sample_scope)"
  by (simp add: resolve_scope_def ledger_eval ledger5_tables sample_records)

definition sample_row :: scoped_attempt where
  "sample_row = \<lparr>sa_scope = sample_scope, sa_revision_id = ''rev-1'', sa_artifact_id = ''tree-1'', sa_attempt_id = 1,
     sa_task_id = 1, sa_harness = None, sa_model_ref = None,
     sa_location = \<lparr>pl_root_alias = ''main'', pl_relative_path = ''run/gen-1/tree''\<rparr>, sa_process = None,
     sa_pane_id = None, sa_started_at = None, sa_ended_at = None, sa_outcome = None\<rparr>"

lemma sample_scoped_rows:
  "scoped_events ledger5 ''g-1'' (GenerationScope ''gen-1'') =
     Inr [ScopedEvent \<lparr>se_scope = sample_scope, se_revision_id = ''rev-1'', se_record = sample_transition\<rparr>]"
  "scoped_attempts ledger5 ''g-1'' (GenerationScope ''gen-1'') = Inr [ScopedAttempt sample_row]"
  "scoped_evidence ledger5 ''g-1'' (GenerationScope ''gen-1'') = Inr []"
proof -
  show "scoped_events ledger5 ''g-1'' (GenerationScope ''gen-1'') =
     Inr [ScopedEvent \<lparr>se_scope = sample_scope, se_revision_id = ''rev-1'', se_record = sample_transition\<rparr>]"
    by (simp add: scoped_events_def sample_resolve sample_log sample_keys) (simp add: sample_scope_def)
  show "scoped_evidence ledger5 ''g-1'' (GenerationScope ''gen-1'') = Inr []"
    by (simp add: scoped_evidence_def sample_resolve sample_rows)
  have "db_attempts_for_graph (lg_store ledger5) ''g-1'' = [reserved_row sample_reservation 1]"
    by (simp add: db_attempts_for_graph_def sample_rows) (simp add: reserved_row_def sample_records)
  moreover have "scope_of_attempt ledger5 1 = Some (''gen-1'', ''rev-1'')"
    by (simp add: scope_of_attempt_def find_by_def ledger5_tables)
  moreover have "scoped_view ledger5 sample_scope ''rev-1'' (reserved_row sample_reservation 1) = Inr sample_row"
    by (simp add: scoped_view_def ledger_eval ledger5_tables sample_row_def reserved_row_def sample_records)
  moreover have "at_attempt_id (reserved_row sample_reservation 1) = 1" by (simp add: reserved_row_def)
  ultimately show "scoped_attempts ledger5 ''g-1'' (GenerationScope ''gen-1'') = Inr [ScopedAttempt sample_row]"
    by (simp add: scoped_attempts_def sample_resolve) (simp add: sample_scope_def)
qed

lemma sample_listed: "revision_listed ledger5 sample_bound ''rev-1''"
  by (simp add: revision_listed_def has_acceptance_def ledger_eval ledger5_tables sample_bound_def sample_records)

lemma sample_backed: "attempt_backed ledger5 sample_bound sample_row" "event_backed sample_bound [sample_row] sample_transition"
  by (simp_all add: attempt_backed_def event_backed_def artifact_def sample_bound_def sample_row_def ledger_eval ledger5_tables
      sample_records sample_graph_def sample_node_def)

lemma sample_selection_valid: "selection_valid ledger5 sample_selection = Inr ()"
  by (simp add: selection_valid_def sample_selection_def run_binding_of_def ledger_eval ledger5_tables sample_bound_def
      sample_records store_eval)

lemma sample_replay: "\<exists>ts. replay_tasks [sample_transition] = Inr ts"
  by (simp add: replay_tasks_def sample_transition_def replay_step_def transition_def)

theorem frames_stay_in_scope_witness:
  "\<forall>limits. \<exists>f. read_bound_frame limits ledger5 sample_selection sample_bound = Inr f \<and>
     rm_attempts (rf_summary f) = 1"
proof
  fix limits :: run_limits
  obtain ts where ts: "replay_tasks [sample_transition] = Inr ts" using sample_replay by blast
  have scope: "bs_scope sample_bound = sample_scope" "xs_graph_id sample_scope = ''g-1''"
    "xs_generation_id sample_scope = ''gen-1''" "bs_initial_revision sample_bound = ''rev-1''"
    "rl_graph_id sample_selection = ''g-1''" "tr_graph_id sample_transition = ''g-1''"
    "sa_revision_id sample_row = ''rev-1''" "sa_scope sample_row = sample_scope"
    by (simp_all add: sample_bound_def sample_scope_def sample_selection_def sample_transition_def sample_row_def)
  have "\<exists>f. read_bound_frame limits ledger5 sample_selection sample_bound = Inr f"
    by (simp add: read_bound_frame_def scope sample_listed require_def sample_scoped_rows sample_backed
        sample_selection_valid ts store_res_def)
  then obtain f where f: "read_bound_frame limits ledger5 sample_selection sample_bound = Inr f" ..
  from frames_stay_in_scope [OF f] have "rm_attempts (rf_summary f) = 1"
    by (auto simp: scope sample_scoped_rows)
  with f show "\<exists>f. read_bound_frame limits ledger5 sample_selection sample_bound = Inr f \<and>
     rm_attempts (rf_summary f) = 1" by blast
qed

end
