(* ===== verification/Engine_Run_Views.thy ===== *)
theory Engine_Run_Views
  imports Engine_Run_Operator Engine_Read
begin

text \<open>
  The read-only views of the run loop (\<open>meshloop-engine/src/run_loop.rs\<close>: \<open>attempts\<close>, \<open>run_summary\<close>,
  \<open>status\<close>) and the frame of a run without a lifecycle binding. The frame of a bound run is an
  argument \<open>bound\<close>; it is modelled over the ledger in \<open>Engine_Read\<close>.
\<close>

section \<open>Snapshots\<close>

text \<open>Opening the snapshot may fail; so may closing it, which overrides what was observed.\<close>

definition in_snapshot :: "'w run_env \<Rightarrow> ('w, 'a) run \<Rightarrow> ('w, 'a) run" where
  "in_snapshot env m =
     bindR (store_fault env) (\<lambda>_. bindR (handled m) (\<lambda>r. bindR (store_fault env) (\<lambda>_. of_res (\<lambda>e. e) r)))"

text \<open>Whether the run has a lifecycle binding.\<close>

definition capture_run :: "'w run_env \<Rightarrow> string \<Rightarrow> ('w, bool) run" where
  "capture_run env g =
     bindR (load_run env g) (\<lambda>row.
     bindR (of_option (MissingGraph g) row) (\<lambda>_.
       if \<not> graph_id_is_legal g then throw read_mismatch
       else store_read env (\<lambda>db. Inr (g \<in> set (db_bindings db)))))"

section \<open>Attempts\<close>

definition last_event :: "transition_record list \<Rightarrow> attempt_id \<Rightarrow> event option" where
  "last_event records i = map_option tr_event (List.find (\<lambda>r. tr_attempt_id r = Some i) (rev records))"

definition row_outcome :: "transition_record list \<Rightarrow> attempt_row \<Rightarrow> string option" where
  "row_outcome records a =
     (case last_event records (at_attempt_id a) of
        Some e \<Rightarrow> Some (event_name e)
      | None \<Rightarrow> if base_of a = None then at_outcome a else None)"

definition row_view :: "transition_record list \<Rightarrow> attempt_row \<Rightarrow> evidence list \<Rightarrow> attempt_view" where
  "row_view records a evidence =
     \<lparr>av_attempt_id = at_attempt_id a, av_harness = at_harness a, av_model_ref = at_model_ref a,
      av_started_at = at_started_at a, av_ended_at = at_ended_at a,
      av_duration_s = duration_secs (at_started_at a) (at_ended_at a),
      av_outcome = row_outcome records a, av_base_revision = base_of a,
      av_evidence = map evidence_view_of evidence\<rparr>"

definition attempts_snapshot ::
  "'w run_env \<Rightarrow> ('w, read_frame) run \<Rightarrow> string \<Rightarrow> task_id \<Rightarrow> ('w, attempt_view list) run" where
  "attempts_snapshot env bound g t =
     bindR (capture_run env g) (\<lambda>is_bound.
       if is_bound then bindR bound (\<lambda>f. ret (case rf_attempts f t of Some v \<Rightarrow> v | None \<Rightarrow> []))
       else
         bindR (attempts_for_task env g t) (\<lambda>rows.
         bindR (store_read env (\<lambda>db. db_records_for_graph db g)) (\<lambda>records.
           map_run (\<lambda>a. bindR (store_read env (\<lambda>db.
                Inr (db_evidence_for_attempt db (at_task_id a) (at_attempt_id a)))) (\<lambda>evidence.
              ret (row_view records a evidence))) (sort_key at_attempt_id rows))))"

definition attempts_view :: "'w run_env \<Rightarrow> ('w, read_frame) run \<Rightarrow> string \<Rightarrow> task_id \<Rightarrow> ('w, attempt_view list) run" where
  "attempts_view env bound g t = in_snapshot env (attempts_snapshot env bound g t)"

section \<open>Summary\<close>

definition summary_of :: "attempt_row list \<Rightarrow> run_summary" where
  "summary_of rows =
     \<lparr>rm_attempts = of_nat (length rows),
      rm_retries = (\<Sum>t \<leftarrow> remdups (map at_task_id rows). of_nat (length (filter (\<lambda>a. at_task_id a = t) rows)) - 1),
      rm_worker_wall_seconds = (\<Sum>a \<leftarrow> rows. case duration_secs (at_started_at a) (at_ended_at a) of
        Some d \<Rightarrow> d | None \<Rightarrow> 0) mod 2 ^ 64\<rparr>"

definition run_summary_snapshot :: "'w run_env \<Rightarrow> ('w, read_frame) run \<Rightarrow> string \<Rightarrow> ('w, run_summary) run" where
  "run_summary_snapshot env bound g =
     bindR (capture_run env g) (\<lambda>is_bound.
       if is_bound then bindR bound (\<lambda>f. ret (rf_summary f))
       else bindR (store_read env (\<lambda>db. Inr (db_attempts_for_graph db g))) (\<lambda>rows. ret (summary_of rows)))"

definition run_summary_view :: "'w run_env \<Rightarrow> ('w, read_frame) run \<Rightarrow> string \<Rightarrow> ('w, run_summary) run" where
  "run_summary_view env bound g = in_snapshot env (run_summary_snapshot env bound g)"

section \<open>Status\<close>

definition observed_live :: "'w run_env \<Rightarrow> live_check \<Rightarrow> attempt_row \<Rightarrow> ('w, live_check) run" where
  "observed_live env owned a =
     (case (owned, at_pane_id a, at_pid a, at_ended_at a) of
        (Dead, None, Some pid, None) \<Rightarrow> port (env_is_live env \<lparr>ph_pid = pid, ph_image_name = at_image_name a\<rparr>)
      | _ \<Rightarrow> ret owned)"

definition live_name :: "live_check \<Rightarrow> string" where
  "live_name l = (case l of Live \<Rightarrow> ''Live'' | Dead \<Rightarrow> ''Dead'' | Ambiguous \<Rightarrow> ''Ambiguous'')"

definition node_note :: "task_state \<Rightarrow> string option \<Rightarrow> string option" where
  "node_note state live =
     (if state = Ready then Some ''Ready (may be waiting on QACR or cancel to unblock dependents)''
      else if state = Failed \<and> live = Some ''Live''
      then Some (''ledger Failed; Herdr pane still live '' @ [CHR 0xE2, CHR 0x80, CHR 0x94] @
        '' meshloop resume waits and harvests'')
      else None)"

definition status_node ::
  "'w run_env \<Rightarrow> string \<Rightarrow> plan_state \<Rightarrow> (task_id \<rightharpoonup> task_state) \<Rightarrow> task_node \<Rightarrow> ('w, node_status) run" where
  "status_node env g plan_state ts n =
     (let state = state_of ts (n_id n); blocked = blocking_deps ts n
      in bindR (latest_attempt env g (n_id n)) (\<lambda>attempt.
         bindR (case attempt of
             None \<Rightarrow> ret None
           | Some a \<Rightarrow> bindR (attempt_live env a) (\<lambda>owned.
               bindR (observed_live env owned a) (\<lambda>l. ret (Some (live_name l))))) (\<lambda>live.
         bindR (if plan_state \<noteq> AwaitingPlanReview \<and> state = Failed
             then bindR (attempts_for_task env g (n_id n)) (\<lambda>rows. ret (length rows)) else ret 0) (\<lambda>tries.
           let waiting = node_waiting_for plan_state state blocked tries (max_retries (env_limits env))
           in ret \<lparr>ns_task_id = n_id n, ns_waiting_for = waiting,
                ns_blocked_by = (if waiting = Some Dependency then blocked else []),
                ns_description = n_description n, ns_state = state, ns_note = node_note state live,
                ns_worktree = Option.bind attempt at_worktree_path, ns_revision = None,
                ns_pane_id = Option.bind attempt at_pane_id, ns_live = live,
                ns_deliverable = n_deliverable n\<rparr>))))"

definition status_snapshot :: "'w run_env \<Rightarrow> ('w, read_frame) run \<Rightarrow> string \<Rightarrow> ('w, run_status) run" where
  "status_snapshot env bound g =
     bindR (capture_run env g) (\<lambda>is_bound.
       if is_bound then bindR bound (\<lambda>f. ret (rf_status f))
       else
         bindR (load_run env g) (\<lambda>found.
         bindR (of_option (MissingGraph g) found) (\<lambda>row.
         bindR (graph_of env g) (\<lambda>graph.
         bindR (tasks env g) (\<lambda>ts.
         bindR (map_run (status_node env g (run_plan_state row) ts) (nodes graph)) (\<lambda>found.
           ret \<lparr>rst_graph_id = g, rst_plan_state = run_plan_state row, rst_nodes = found\<rparr>))))))"

definition status_view :: "'w run_env \<Rightarrow> ('w, read_frame) run \<Rightarrow> string \<Rightarrow> ('w, run_status) run" where
  "status_view env bound g = in_snapshot env (status_snapshot env bound g)"

text \<open>The frame of a run without a binding.\<close>

definition unbound_frame :: "'w run_env \<Rightarrow> ('w, read_frame) run \<Rightarrow> string \<Rightarrow> ('w, read_frame) run" where
  "unbound_frame env bound g =
     bindR (status_snapshot env bound g) (\<lambda>st.
     bindR (run_summary_snapshot env bound g) (\<lambda>summary.
     bindR (map_run (\<lambda>n. bindR (attempts_snapshot env bound g (ns_task_id n)) (\<lambda>v. ret (ns_task_id n, v)))
         (rst_nodes st)) (\<lambda>views.
       ret \<lparr>rf_status = st, rf_summary = summary, rf_attempts = map_of (rev views), rf_locations = Map.empty,
         rf_attempt_locations = Map.empty, rf_attempt_revisions = Map.empty, rf_generation_id = None,
         rf_revision_id = None\<rparr>)))"

section \<open>Views read, and tell the truth\<close>

lemma reads_in_snapshot:
  assumes "reads m Q" shows "reads (in_snapshot env m) Q"
proof -
  have "reads (store_fault env) (\<lambda>_ _. True)"
    by (auto simp: reads_def store_fault_def bindR_def port_def ret_def throw_def split: prod.splits option.splits)
  moreover have "reads (handled m) (\<lambda>db r. \<forall>a. r = Inr a \<longrightarrow> Q db a)"
    using assms by (simp add: reads_def handled_def case_prod_beta)
  moreover have "reads (of_res (\<lambda>e. e) r) (\<lambda>db b. (\<forall>a. r = Inr a \<longrightarrow> Q db a) \<longrightarrow> Q db b)" for r
    by (auto simp: reads_def of_res_def ret_def throw_def split: sum.splits)
  ultimately show ?thesis
    unfolding in_snapshot_def
    by (intro reads_bind [OF \<open>reads (store_fault env) (\<lambda>_ _. True)\<close>]) (auto intro!: reads_bind elim: reads_weaken)
qed

lemma reads_capture_run:
  "reads (capture_run env g) (\<lambda>db b. graph_id_is_legal g \<and> b = (g \<in> set (db_bindings db)))"
  unfolding capture_run_def
  by (intro reads_bind [OF reads_load_run] reads_bind [OF reads_prims(4)] reads_cond)
    (auto intro: reads_weaken [OF reads_prims(2)] reads_weaken [OF reads_store_read])

text \<open>What a status entry says about its node.\<close>

definition waiting_told :: "plan_state \<Rightarrow> task_state \<Rightarrow> task_id set \<Rightarrow> nat \<Rightarrow> u32 \<Rightarrow> waiting_for option \<Rightarrow> bool" where
  "waiting_told plan st undone tries retries w \<longleftrightarrow>
     (case w of
        Some PlanAcceptance \<Rightarrow> plan = AwaitingPlanReview \<and> st \<notin> {Accepted, Integrated, Cancelled}
      | Some Acceptance \<Rightarrow> plan \<noteq> AwaitingPlanReview \<and> st = AwaitingReview
      | Some Dependency \<Rightarrow> plan \<noteq> AwaitingPlanReview \<and> st \<in> {Pending, Ready, Blocked} \<and> undone \<noteq> {}
      | Some RetryBudgetExhausted \<Rightarrow> plan \<noteq> AwaitingPlanReview \<and> st = Failed \<and> retries \<le> of_nat tries
      | None \<Rightarrow> st \<in> {Accepted, Integrated, Cancelled} \<or>
          plan \<noteq> AwaitingPlanReview \<and> st \<noteq> AwaitingReview \<and> (st \<in> {Pending, Ready, Blocked} \<longrightarrow> undone = {}) \<and>
          (st = Failed \<longrightarrow> of_nat tries < retries))"

definition undone_deps :: "(task_id \<rightharpoonup> task_state) \<Rightarrow> task_node \<Rightarrow> task_id set" where
  "undone_deps ts n = {d \<in> set (n_depends_on n). ts d \<noteq> Some Accepted \<and> ts d \<noteq> Some Integrated}"

definition entry_tells ::
  "u32 \<Rightarrow> sqlite_store \<Rightarrow> string \<Rightarrow> plan_state \<Rightarrow> (task_id \<rightharpoonup> task_state) \<Rightarrow> task_node \<Rightarrow> node_status \<Rightarrow> bool" where
  "entry_tells retries db g plan ts n x \<longleftrightarrow>
     ns_task_id x = n_id n \<and> ns_state x = state_of ts (n_id n) \<and>
     sorted (ns_blocked_by x) \<and> distinct (ns_blocked_by x) \<and>
     set (ns_blocked_by x) = (if ns_waiting_for x = Some Dependency then undone_deps ts n else {}) \<and>
     waiting_told plan (state_of ts (n_id n)) (undone_deps ts n) (length (db_attempts_for_task db g (n_id n)))
       retries (ns_waiting_for x)"

lemma distinct_runs: "sorted xs \<Longrightarrow> distinct (remdups_adj xs)"
  by (induction xs rule: remdups_adj.induct) (auto simp: order.antisym)

lemma blocking_deps_spec:
  "set (blocking_deps ts n) = undone_deps ts n" "sorted (blocking_deps ts n)" "distinct (blocking_deps ts n)"
proof -
  show "set (blocking_deps ts n) = undone_deps ts n" by (auto simp: blocking_deps_def undone_deps_def)
  have s: "sorted (sort (filter (\<lambda>d. ts d \<noteq> Some Accepted \<and> ts d \<noteq> Some Integrated) (n_depends_on n)))" by simp
  show "sorted (blocking_deps ts n)" unfolding blocking_deps_def using s by (rule sorted_remdups_adj)
  show "distinct (blocking_deps ts n)" unfolding blocking_deps_def using s by (rule distinct_runs)
qed

lemma node_waiting_spec:
  "waiting_told plan st (set blocked) tries retries (node_waiting_for plan st blocked tries retries)"
  unfolding node_waiting_for_def
  by (cases "plan = AwaitingPlanReview"; cases st) (simp_all add: waiting_told_def not_le)

lemma waiting_told_tries:
  "waiting_told plan st undone tries retries w \<Longrightarrow>
    (plan \<noteq> AwaitingPlanReview \<Longrightarrow> st = Failed \<Longrightarrow> tries = tries') \<Longrightarrow> waiting_told plan st undone tries' retries w"
  by (auto simp: waiting_told_def split: option.splits waiting_for.splits)

lemma entry_tells_waiting:
  assumes "ns_task_id x = n_id n" "ns_state x = state_of ts (n_id n)"
    and "ns_waiting_for x = node_waiting_for plan (state_of ts (n_id n)) (blocking_deps ts n) tries retries"
    and "ns_blocked_by x = (if ns_waiting_for x = Some Dependency then blocking_deps ts n else [])"
    and "plan \<noteq> AwaitingPlanReview \<Longrightarrow> state_of ts (n_id n) = Failed \<Longrightarrow> tries = length (db_attempts_for_task db g (n_id n))"
  shows "entry_tells retries db g plan ts n x"
proof -
  have "waiting_told plan (state_of ts (n_id n)) (set (blocking_deps ts n)) (length (db_attempts_for_task db g (n_id n)))
      retries (ns_waiting_for x)"
    unfolding assms(3) by (rule waiting_told_tries [OF node_waiting_spec assms(5)])
  then show ?thesis using assms(1,2,4) blocking_deps_spec by (simp add: entry_tells_def)
qed

lemma reads_map_run:
  "(\<And>x. x \<in> set xs \<Longrightarrow> reads (f x) (\<lambda>db y. Q db x y)) \<Longrightarrow> reads (map_run f xs) (\<lambda>db ys. list_all2 (Q db) xs ys)"
proof (induction xs)
  case (Cons x xs)
  show ?case
    by (simp, intro reads_bind [OF Cons.prems [OF list.set_intros(1)]] reads_bind [OF Cons.IH])
      (auto intro: Cons.prems reads_weaken [OF reads_prims(1)])
qed (auto intro: reads_weaken [OF reads_prims(1)])

lemma reads_ret: "reads (ret a) (\<lambda>_ _. True)"
  by (rule reads_weaken [OF reads_prims(1)]) simp

lemma reads_resolve_pane: "reads (resolve_pane env a) (\<lambda>_ _. True)"
  unfolding resolve_pane_def by (simp add: reads_ret reads_prims(3) split: option.split)

lemma reads_attempt_live: "reads (attempt_live env a) (\<lambda>_ _. True)"
  unfolding attempt_live_def
  by (simp add: reads_ret split: option.split) (blast intro: reads_bind [OF reads_resolve_pane] reads_weaken [OF reads_prims(3)])

lemma reads_observed_live: "reads (observed_live env owned a) (\<lambda>_ _. True)"
  unfolding observed_live_def by (simp add: reads_ret reads_prims(3) split: option.split live_check.split)

lemma reads_live_text: "reads (case attempt of None \<Rightarrow> ret None
    | Some a \<Rightarrow> bindR (attempt_live env a) (\<lambda>owned.
        bindR (observed_live env owned a) (\<lambda>l. ret (Some (live_name l))))) (\<lambda>_ _. True)"
proof (cases attempt)
  case (Some a)
  show ?thesis
    unfolding Some option.case
    by (rule reads_bind [OF reads_attempt_live], rule reads_bind [OF reads_observed_live]) (simp add: reads_ret)
qed (simp add: reads_ret)

lemma reads_status_node:
  "reads (status_node env g plan ts n) (\<lambda>db x. entry_tells (max_retries (env_limits env)) db g plan ts n x)"
proof -
  have tries: "reads (if plan \<noteq> AwaitingPlanReview \<and> state = Failed
      then bindR (attempts_for_task env g (n_id n)) (\<lambda>rows. ret (length rows)) else ret 0)
      (\<lambda>db c. plan \<noteq> AwaitingPlanReview \<longrightarrow> state = Failed \<longrightarrow> c = length (db_attempts_for_task db g (n_id n)))" for state
    unfolding attempts_for_task_def
    by (intro reads_cond reads_bind [OF reads_store_read]) (auto intro: reads_weaken [OF reads_prims(1)])
  show ?thesis
    unfolding status_node_def Let_def
  proof (rule reads_bind [OF reads_latest_attempt], rule reads_bind [OF reads_live_text],
      rule reads_bind [OF tries], rule reads_weaken [OF reads_prims(1)], clarify)
    fix a live c db x
    assume "plan \<noteq> AwaitingPlanReview \<longrightarrow> state_of ts (n_id n) = Failed \<longrightarrow>
      c = length (db_attempts_for_task db g (n_id n))"
    then show "entry_tells (max_retries (env_limits env)) db g plan ts n
        \<lparr>ns_task_id = n_id n,
          ns_waiting_for = node_waiting_for plan (state_of ts (n_id n)) (blocking_deps ts n) c (max_retries (env_limits env)),
          ns_blocked_by = if node_waiting_for plan (state_of ts (n_id n)) (blocking_deps ts n) c
            (max_retries (env_limits env)) = Some Dependency then blocking_deps ts n else [],
          ns_description = n_description n, ns_state = state_of ts (n_id n),
          ns_note = node_note (state_of ts (n_id n)) live,
          ns_worktree = Option.bind (db_latest_attempt_for_task db g (n_id n)) at_worktree_path, ns_revision = None,
          ns_pane_id = Option.bind (db_latest_attempt_for_task db g (n_id n)) at_pane_id, ns_live = live,
          ns_deliverable = n_deliverable n\<rparr>"
      by (intro entry_tells_waiting [where tries = c]) simp_all
  qed
qed

definition status_tells :: "'w run_env \<Rightarrow> string \<Rightarrow> sqlite_store \<Rightarrow> run_status \<Rightarrow> bool" where
  "status_tells env g db st \<longleftrightarrow> (\<exists>row graph ts.
    db_load_run db g = Inr (Some row) \<and> graph_from_run (pf_from_json (env_platform env)) db g = Inr graph \<and>
    try_res (db_records_for_graph db g) replay_tasks = Inr ts \<and> rst_graph_id st = g \<and>
    rst_plan_state st = run_plan_state row \<and>
    list_all2 (entry_tells (max_retries (env_limits env)) db g (run_plan_state row) ts) (nodes graph) (rst_nodes st))"

lemma reads_status_snapshot:
  assumes "reads bound (\<lambda>_ _. True)"
  shows "reads (status_snapshot env bound g) (\<lambda>db st. g \<in> set (db_bindings db) \<or> status_tells env g db st)"
  unfolding status_snapshot_def
proof (rule reads_bind [OF reads_capture_run])
  fix is_bound
  let ?Q = "\<lambda>db st. graph_id_is_legal g \<and> is_bound = (g \<in> set (db_bindings db)) \<longrightarrow>
    g \<in> set (db_bindings db) \<or> status_tells env g db st"
  have framed: "reads (bindR bound (\<lambda>f. ret (rf_status f))) ?Q" if is_bound
    using that by (intro reads_bind [OF assms]) (auto intro: reads_weaken [OF reads_prims(1)])
  have stored: "reads (bindR (load_run env g) (\<lambda>found. bindR (of_option (MissingGraph g) found) (\<lambda>row.
      bindR (graph_of env g) (\<lambda>graph. bindR (tasks env g) (\<lambda>ts.
      bindR (map_run (status_node env g (run_plan_state row) ts) (nodes graph)) (\<lambda>found.
        ret \<lparr>rst_graph_id = g, rst_plan_state = run_plan_state row, rst_nodes = found\<rparr>)))))) ?Q"
    by (rule reads_bind [OF reads_load_run], rule reads_bind [OF reads_prims(4)], rule reads_bind [OF reads_graph_of],
        rule reads_bind [OF reads_tasks], rule reads_bind [OF reads_map_run [OF reads_status_node]],
        rule reads_weaken [OF reads_prims(1)]) (auto simp: status_tells_def)
  show "reads (if is_bound then bindR bound (\<lambda>f. ret (rf_status f)) else
      bindR (load_run env g) (\<lambda>found. bindR (of_option (MissingGraph g) found) (\<lambda>row.
      bindR (graph_of env g) (\<lambda>graph. bindR (tasks env g) (\<lambda>ts.
      bindR (map_run (status_node env g (run_plan_state row) ts) (nodes graph)) (\<lambda>found.
        ret \<lparr>rst_graph_id = g, rst_plan_state = run_plan_state row, rst_nodes = found\<rparr>)))))) ?Q"
    by (rule reads_cond) (rule framed, assumption, rule stored)
qed

text \<open>
  The status of a run tells what it waits for. When \<open>status\<close> answers for a run without a lifecycle
  binding, nothing was written; the answer has one entry per node of the stored plan, in order, with
  the state that replaying the log gives. An entry waits for the plan only while the plan awaits its
  review and the node is not settled; for an acceptance exactly in review; for dependencies, which
  it lists, sorted and once each, exactly when some are neither accepted nor integrated; for
  retries only when the attempts of the node have used them up; and for nothing otherwise.
\<close>

theorem status_explains_every_node:
  assumes call: "status_view env bound g s = (Inr st, s')" and unbound: "g \<notin> set (db_bindings (st_store s))"
    and frame: "reads bound (\<lambda>_ _. True)"
  shows "st_store s' = st_store s \<and> st_active s' = st_active s \<and> (\<exists>row graph ts.
    db_load_run (st_store s) g = Inr (Some row) \<and>
    graph_from_run (pf_from_json (env_platform env)) (st_store s) g = Inr graph \<and>
    try_res (db_records_for_graph (st_store s) g) replay_tasks = Inr ts \<and>
    rst_plan_state st = run_plan_state row \<and>
    list_all2 (\<lambda>n x. ns_task_id x = n_id n \<and> ns_state x = state_of ts (n_id n) \<and>
      sorted (ns_blocked_by x) \<and> distinct (ns_blocked_by x) \<and>
      set (ns_blocked_by x) = (if ns_waiting_for x = Some Dependency then undone_deps ts n else {}) \<and>
      waiting_told (run_plan_state row) (state_of ts (n_id n)) (undone_deps ts n)
        (length (db_attempts_for_task (st_store s) g (n_id n))) (max_retries (env_limits env)) (ns_waiting_for x))
      (nodes graph) (rst_nodes st))"
proof -
  have "reads (status_view env bound g) (\<lambda>db st. g \<in> set (db_bindings db) \<or> status_tells env g db st)"
    unfolding status_view_def by (rule reads_in_snapshot [OF reads_status_snapshot [OF frame]])
  then have "st_store s' = st_store s" "st_active s' = st_active s" "status_tells env g (st_store s) st"
    using call unbound unfolding reads_def by (metis fst_conv snd_conv)+
  then show ?thesis unfolding status_tells_def entry_tells_def [abs_def] by blast
qed

lemma sample_status: "\<exists>st. fst (status_view sample_env (throw read_mismatch) ''g-1'' (sample_state [])) = Inr st"
  by (simp add: status_view_def in_snapshot_def status_snapshot_def capture_run_def status_node_def load_run_def graph_of_def
      graph_from_run_def tasks_def latest_attempt_def attempts_for_task_def store_read_def store_fault_def bindR_def
      handled_def port_def ret_def throw_def of_res_def of_option_def get_store_def env_eval sample_state_def
      accepted_run_def db_load_run_def run_of_db_def parse_plan_state_def plan_state_table_def store_eval
      db_records_for_graph_def replay_tasks_def db_latest_attempt_for_task_def db_attempts_for_task_def
      sample_graph_def sample_node_def Let_def)

theorem status_explains_every_node_witness:
  "\<exists>st s' row. status_view sample_env (throw read_mismatch) ''g-1'' (sample_state []) = (Inr st, s') \<and>
     st_store s' = st_store (sample_state []) \<and>
     db_load_run (st_store s') ''g-1'' = Inr (Some row) \<and> rst_plan_state st = run_plan_state row"
proof -
  obtain st s' where call: "status_view sample_env (throw read_mismatch) ''g-1'' (sample_state []) = (Inr st, s')"
    using sample_status by (metis prod.collapse)
  have frame: "reads (throw read_mismatch) (\<lambda>_ _. True)" by (rule reads_weaken [OF reads_prims(2)]) simp
  have unbound: "''g-1'' \<notin> set (db_bindings (st_store (sample_state [])))" by (simp add: sample_state_def empty_store_def)
  from status_explains_every_node [OF call unbound frame] obtain row where "st_store s' = st_store (sample_state [])"
    "db_load_run (st_store (sample_state [])) ''g-1'' = Inr (Some row)" "rst_plan_state st = run_plan_state row"
    by blast
  with call show ?thesis by (intro exI [of _ st] exI [of _ s'] exI [of _ row]) simp
qed

section \<open>The summary\<close>

lemma attempts_by_task:
  "(\<Sum>t \<leftarrow> remdups (map k xs). length (filter (\<lambda>a. k a = t) xs)) = length xs"
proof -
  have "(\<Sum>t \<leftarrow> remdups (map k xs). length (filter (\<lambda>a. k a = t) xs)) = (\<Sum>t \<in> k ` set xs. length (filter (\<lambda>a. k a = t) xs))"
    by (simp add: sum_list_distinct_conv_sum_set)
  also have "\<dots> = length xs"
  proof (induction xs)
    case (Cons x xs)
    have "(\<Sum>t \<in> k ` set (x # xs). length (filter (\<lambda>a. k a = t) (x # xs))) =
        (\<Sum>t \<in> insert (k x) (k ` set xs). (if k x = t then 1 else 0) + length (filter (\<lambda>a. k a = t) xs))"
      by (intro sum.cong) auto
    also have "\<dots> = 1 + (\<Sum>t \<in> insert (k x) (k ` set xs). length (filter (\<lambda>a. k a = t) xs))"
      by (simp add: sum.distrib)
    also have "(\<Sum>t \<in> insert (k x) (k ` set xs). length (filter (\<lambda>a. k a = t) xs)) =
        (\<Sum>t \<in> k ` set xs. length (filter (\<lambda>a. k a = t) xs))"
      by (rule sum.mono_neutral_right) (auto simp: filter_empty_conv)
    finally show ?case using Cons.IH by simp
  qed simp
  finally show ?thesis .
qed

text \<open>Retries are attempts beyond the first of each task.\<close>

lemma summary_retries:
  "rm_retries (summary_of rows) = of_nat (length rows) - of_nat (card (at_task_id ` set rows))"
proof -
  let ?ids = "remdups (map at_task_id rows)" and ?n = "\<lambda>t. length (filter (\<lambda>a. at_task_id a = t) rows)"
  have "(\<Sum>t \<leftarrow> ts. of_nat (?n t) - (1 :: u32)) = of_nat (\<Sum>t \<leftarrow> ts. ?n t) - of_nat (length ts)" for ts
    by (induction ts) (simp_all add: algebra_simps)
  then show ?thesis by (simp add: summary_of_def attempts_by_task length_remdups_card_conv)
qed

end
