(* ===== verification/Adapter_Host.thy ===== *)
theory Adapter_Host
  imports Adapter_Ledger
begin

text \<open>
  What the workspace adapters see of the machine: paths, the file system, git and the
  repository registry (the readers of \<open>meshloop-adapters/src/workspace.rs\<close> and the path probes
  that \<open>workspace/inventory.rs\<close> and \<open>workspace/cleanup.rs\<close> share).

  A \<open>PathBuf\<close> is the list of its components, which is what \<open>==\<close>, \<open>join\<close>, \<open>ancestors\<close>,
  \<open>starts_with\<close> and \<open>strip_prefix\<close> of \<open>std::path\<close> look at; texts that differ only in repeated
  separators, inner \<open>.\<close> parts or a trailing separator are one path here. The build modelled is
  the Unix one: the \<open>cfg(windows)\<close> prefixes are left out, the reparse attribute is kept.

  A \<open>host\<close> is one snapshot of the machine: what \<open>symlink_metadata\<close>, \<open>canonicalize\<close>, \<open>read_dir\<close>,
  the file identity call, a bounded git call and the decoder of the registry answer.
\<close>

section \<open>UTF-8\<close>

text \<open>\<open>std::str::from_utf8\<close>: a \<open>&str\<close> is a byte string that scans.\<close>

definition utf8_pending :: "nat \<Rightarrow> (nat \<times> nat) list option" where
  "utf8_pending b =
     (if b < 0x80 then Some []
      else if 0xC2 \<le> b \<and> b \<le> 0xDF then Some [(0x80, 0xBF)]
      else if b = 0xE0 then Some [(0xA0, 0xBF), (0x80, 0xBF)]
      else if b = 0xED then Some [(0x80, 0x9F), (0x80, 0xBF)]
      else if 0xE1 \<le> b \<and> b \<le> 0xEF then Some [(0x80, 0xBF), (0x80, 0xBF)]
      else if b = 0xF0 then Some [(0x90, 0xBF), (0x80, 0xBF), (0x80, 0xBF)]
      else if b = 0xF4 then Some [(0x80, 0x8F), (0x80, 0xBF), (0x80, 0xBF)]
      else if 0xF1 \<le> b \<and> b \<le> 0xF3 then Some [(0x80, 0xBF), (0x80, 0xBF), (0x80, 0xBF)]
      else None)"

fun utf8_scan :: "(nat \<times> nat) list \<Rightarrow> nat list \<Rightarrow> bool" where
  "utf8_scan pending [] = (pending = [])"
| "utf8_scan ((lo, hi) # pending) (b # bs) = (lo \<le> b \<and> b \<le> hi \<and> utf8_scan pending bs)"
| "utf8_scan [] (b # bs) =
     (case utf8_pending b of None \<Rightarrow> False | Some pending \<Rightarrow> utf8_scan pending bs)"

definition from_utf8 :: "string \<Rightarrow> string option" where
  "from_utf8 bytes = (if utf8_scan [] (map byte_of bytes) then Some bytes else None)"

section \<open>Paths\<close>

datatype path_comp = Comp_RootDir | Comp_CurDir | Comp_ParentDir | Comp_Normal string

type_synonym path = "path_comp list"

fun body_comps :: "string list \<Rightarrow> path" where
  "body_comps [] = []"
| "body_comps (part # parts) =
     (if part = [] \<or> part = ''.'' then body_comps parts
      else (if part = ''..'' then Comp_ParentDir else Comp_Normal part) # body_comps parts)"

definition path_of :: "string \<Rightarrow> path" where
  "path_of text =
     (let parts = split_on (CHR ''/'') text
      in if starts_with text ''/'' then Comp_RootDir # body_comps parts
         else if hd parts = ''.'' then Comp_CurDir # body_comps parts
         else body_comps parts)"

definition is_absolute :: "path \<Rightarrow> bool" where
  "is_absolute p \<longleftrightarrow> p \<noteq> [] \<and> hd p = Comp_RootDir"

definition path_join :: "path \<Rightarrow> path \<Rightarrow> path" where
  "path_join p q =
     (if is_absolute q \<or> p = [] then q
      else p @ (if q \<noteq> [] \<and> hd q = Comp_CurDir then tl q else q))"

definition path_starts_with :: "path \<Rightarrow> path \<Rightarrow> bool" where
  "path_starts_with p base \<longleftrightarrow> take (length base) p = base"

definition path_strip_prefix :: "path \<Rightarrow> path \<Rightarrow> path option" where
  "path_strip_prefix p base = (if path_starts_with p base then Some (drop (length base) p) else None)"

text \<open>The non-empty ancestors, the path itself among them, outermost first.\<close>

definition ancestor_chain :: "path \<Rightarrow> path list" where
  "ancestor_chain p = map (\<lambda>n. take (Suc n) p) [0..<length p]"

fun comp_text :: "path_comp \<Rightarrow> string" where
  "comp_text Comp_RootDir = []"
| "comp_text Comp_CurDir = ''.''"
| "comp_text Comp_ParentDir = ''..''"
| "comp_text (Comp_Normal s) = s"

definition path_text :: "path \<Rightarrow> string" where
  "path_text p = (if p = [Comp_RootDir] then ''/'' else join_with ''/'' (map comp_text p))"

text \<open>\<open>join_relative\<close>: one \<open>push\<close> per part of a checked relative path.\<close>

definition join_relative :: "path \<Rightarrow> relative_path \<Rightarrow> path" where
  "join_relative base relative_path =
     foldl (\<lambda>p part. path_join p (path_of part)) base (split_on (CHR ''/'') relative_path)"

lemma path_starts_with_self [simp]: "path_starts_with p p"
  by (simp add: path_starts_with_def)

lemma path_starts_with_iff: "path_starts_with p base \<longleftrightarrow> (\<exists>rest. p = base @ rest)"
  unfolding path_starts_with_def by (metis append_eq_conv_conj append_take_drop_id)

lemma path_strip_prefix_Some: "path_strip_prefix p base = Some r \<longleftrightarrow> p = base @ r"
  by (auto simp: path_strip_prefix_def path_starts_with_def) (metis append_take_drop_id)

lemma set_ancestor_chain: "q \<in> set (ancestor_chain p) \<longleftrightarrow> q \<noteq> [] \<and> path_starts_with p q"
proof
  assume "q \<in> set (ancestor_chain p)"
  then show "q \<noteq> [] \<and> path_starts_with p q"
    by (auto simp: ancestor_chain_def path_starts_with_def min_def)
next
  assume q: "q \<noteq> [] \<and> path_starts_with p q"
  then obtain n where n: "length q = Suc n" by (cases q) auto
  with q have "q = take (Suc n) p" by (simp add: path_starts_with_def)
  moreover have "n < length p" using q n by (metis Suc_le_lessD length_take min.cobounded1 path_starts_with_def)
  ultimately show "q \<in> set (ancestor_chain p)" by (auto simp: ancestor_chain_def)
qed

section \<open>The machine\<close>

record file_meta =
  fm_symlink :: bool
  fm_reparse_attribute :: bool
  fm_dir :: bool
  fm_file :: bool

datatype 'a io = Io_Ok 'a | Io_NotFound | Io_Failed

text \<open>
  \<open>Manifest\<close>, \<open>LocalRoot\<close> and \<open>PendingRoot\<close> of \<open>workspace.rs\<close>; a \<open>BTreeMap\<close> is the list of its
  entries in key order.
\<close>

record local_root =
  lr_canonical_path :: path
  lr_native_identity :: native_identity

record pending_root =
  pn_canonical_parent :: path
  pn_parent_identity :: native_identity
  pn_child :: relative_path

record manifest =
  mf_pending_roots :: "(root_alias \<times> pending_root) list"
  mf_version :: u32
  mf_repository :: repository_record
  mf_common :: local_root
  mf_ledger :: local_root
  mf_roots :: "(root_alias \<times> local_root) list"

record registry_root =
  rt_path :: path
  rt_identity :: native_identity

record registry_view =
  rv_repository :: repository_record
  rv_common_identity :: native_identity
  rv_ledger_identity :: native_identity
  rv_roots :: "(root_alias \<times> registry_root) list"

text \<open>
  \<open>h_git cwd args\<close> is \<open>bounded_stdout\<close> of \<open>git -C cwd args\<close>: its output when the call ended
  well within its time and stayed within 16 KiB. An entry of \<open>read_dir\<close> is its path and, when that is
  text, its file name. \<open>h_open_ledger\<close> is \<open>SqliteStore::open_read_only\<close> with whether every row
  of the tables read decodes.
\<close>

record host =
  h_meta :: "path \<Rightarrow> file_meta io"
  h_canonicalize :: "path \<Rightarrow> path option"
  h_file_id :: "path \<Rightarrow> string option"
  h_sha256 :: "string \<Rightarrow> string"
  h_read_dir :: "path \<Rightarrow> (path \<times> string option) option list option"
  h_read_file :: "path \<Rightarrow> string option"
  h_parse_manifest :: "string \<Rightarrow> manifest option"
  h_git :: "path \<Rightarrow> string list \<Rightarrow> store_error + string"
  h_open_ledger :: "path \<Rightarrow> store_error + (ledger \<times> bool) option"

definition REGISTRY :: string where
  "REGISTRY = ''meshloop-workspace-registry.json''"

definition is_reparse :: "file_meta \<Rightarrow> bool" where
  "is_reparse meta \<longleftrightarrow> fm_symlink meta \<or> fm_reparse_attribute meta"

definition io_refused :: store_error where
  "io_refused = StoreIo ''workspace local operation failed''"

definition native_identity_of :: "host \<Rightarrow> path \<Rightarrow> store_error + native_identity" where
  "native_identity_of h p =
     (case h_file_id h p of
        None \<Rightarrow> Inl refused
      | Some encoded \<Rightarrow>
          (case NativeIdentity_new (h_sha256 h encoded) of Inl _ \<Rightarrow> Inl refused | Inr v \<Rightarrow> Inr v))"

definition regular_entry :: "host \<Rightarrow> path \<Rightarrow> bool \<Rightarrow> store_error + unit" where
  "regular_entry h p directory =
     (case h_meta h p of
        Io_Ok meta \<Rightarrow>
          if fm_symlink meta \<or> (directory \<and> \<not> fm_dir meta) \<or> (\<not> directory \<and> \<not> fm_file meta) then Inl refused
          else if fm_reparse_attribute meta then Inl refused else Inr ()
      | Io_NotFound \<Rightarrow> Inl io_refused
      | Io_Failed \<Rightarrow> Inl io_refused)"

section \<open>Reading the registry\<close>

definition MAX_MANIFEST :: nat where "MAX_MANIFEST = 1024 * 1024"

definition read_manifest :: "host \<Rightarrow> path \<Rightarrow> store_error + manifest" where
  "read_manifest h p =
     (case h_read_file h p of
        None \<Rightarrow> Inl io_refused
      | Some bytes \<Rightarrow>
          if MAX_MANIFEST < length bytes then Inl refused
          else (case h_parse_manifest h bytes of None \<Rightarrow> Inl refused | Some m \<Rightarrow> Inr m))"

definition registry_view_of :: "manifest \<Rightarrow> registry_view" where
  "registry_view_of m =
     \<lparr>rv_repository = mf_repository m,
      rv_common_identity = lr_native_identity (mf_common m),
      rv_ledger_identity = lr_native_identity (mf_ledger m),
      rv_roots = map (\<lambda>(alias, root). (alias,
        \<lparr>rt_path = lr_canonical_path root, rt_identity = lr_native_identity root\<rparr>)) (mf_roots m)\<rparr>"

definition read_registry :: "host \<Rightarrow> path \<Rightarrow> store_error + registry_view option" where
  "read_registry h p =
     (case h_meta h p of
        Io_NotFound \<Rightarrow> Inr None
      | Io_Failed \<Rightarrow> Inl io_refused
      | Io_Ok meta \<Rightarrow>
          if fm_symlink meta \<or> \<not> fm_file meta then Inl refused
          else try_res (read_manifest h p) (\<lambda>m.
            if mf_version m \<noteq> 1 then Inl refused else Inr (Some (registry_view_of m))))"

section \<open>Probing a path\<close>

datatype path_probe = Probe_Reparse bool | Probe_Missing | Probe_Inaccessible | Probe_Present

fun probe_walk :: "host \<Rightarrow> bool \<Rightarrow> path list \<Rightarrow> path_probe" where
  "probe_walk h missing [] = (if missing then Probe_Missing else Probe_Present)"
| "probe_walk h missing (q # qs) =
     (case h_meta h q of
        Io_Ok meta \<Rightarrow>
          if is_reparse meta then Probe_Reparse (fm_symlink meta)
          else if missing then Probe_Missing
          else probe_walk h missing qs
      | Io_NotFound \<Rightarrow> probe_walk h True qs
      | Io_Failed \<Rightarrow> Probe_Inaccessible)"

definition probe_path :: "host \<Rightarrow> path \<Rightarrow> path_probe" where
  "probe_path h p = (if p = [] then Probe_Inaccessible else probe_walk h False (ancestor_chain p))"

lemma probe_walk_present:
  "probe_walk h False qs = Probe_Present \<longleftrightarrow>
     list_all (\<lambda>q. \<exists>meta. h_meta h q = Io_Ok meta \<and> \<not> is_reparse meta) qs"
proof (induction qs)
  case (Cons q qs)
  have gone: "probe_walk h True qs \<noteq> Probe_Present" for qs
    by (induction qs) (auto split: io.splits)
  show ?case using Cons gone by (auto split: io.splits)
qed simp

lemma probe_path_present:
  "probe_path h p = Probe_Present \<longleftrightarrow>
     p \<noteq> [] \<and> (\<forall>q. q \<noteq> [] \<and> path_starts_with p q \<longrightarrow>
       (\<exists>meta. h_meta h q = Io_Ok meta \<and> \<not> is_reparse meta))"
  by (auto simp: probe_path_def probe_walk_present list_all_iff set_ancestor_chain)

end
