(* ===== verification/Adapter_Inventory.thy ===== *)
theory Adapter_Inventory
  imports Adapter_Host Engine_Inventory
begin

text \<open>
  The read-only collector of \<open>meshloop-adapters/src/workspace/inventory.rs\<close>: it turns the
  registry, the ledger, \<open>git worktree list\<close> and the configured directories of one machine into
  the observations that \<open>Engine_Inventory\<close> merges and classifies.

  The pushes onto \<open>&mut Vec\<close> arguments are returned: a function that appends observations
  returns the list it appends, one that records blockers takes and returns the blockers. The
  lemmas show what the classification relies on: only ledger records carry a confirmed
  identity, every text in an observation was checked, and a record without a location can
  never count as owned and idle.
\<close>

section \<open>Scope, outcomes and the ledger view\<close>

definition MAX_CHILDREN :: nat where "MAX_CHILDREN = 256"

record inventory_scope =
  is_checkout :: path
  is_ledger :: path
  is_configured_root :: path

record graph_outcome =
  go_known :: bool
  go_failed :: bool
  go_cancelled :: bool
  go_landed :: bool

definition no_outcome :: graph_outcome where
  "no_outcome = \<lparr>go_known = False, go_failed = False, go_cancelled = False, go_landed = False\<rparr>"

definition note_state :: "string \<Rightarrow> graph_outcome \<Rightarrow> graph_outcome" where
  "note_state to_state g =
     \<lparr>go_known = True,
      go_failed = (go_failed g \<or> to_state = ''Failed''),
      go_cancelled = (go_cancelled g \<or> to_state = ''Cancelled''),
      go_landed = (go_landed g \<or> to_state = ''Integrated'' \<or> to_state = ''Accepted'')\<rparr>"

definition note_event :: "(string \<rightharpoonup> graph_outcome) \<Rightarrow> event_row \<Rightarrow> (string \<rightharpoonup> graph_outcome)" where
  "note_event outcomes row =
     outcomes(er_graph_id row \<mapsto> note_state (er_to row)
       (case outcomes (er_graph_id row) of None \<Rightarrow> no_outcome | Some g \<Rightarrow> g))"

text \<open>The rows of \<open>events\<close> in the order of the query; \<open>None\<close> is a ledger that cannot be read.\<close>

definition graph_outcomes :: "sqlite_store option \<Rightarrow> string \<rightharpoonup> graph_outcome" where
  "graph_outcomes store =
     (case store of
        None \<Rightarrow> Map.empty
      | Some db \<Rightarrow> foldl note_event Map.empty (sort_key er_graph_id (db_events db)))"

record attempt_seen =
  as_id :: string
  as_graph_id :: string
  as_path :: "string option"

record ledger_view =
  lv_repos :: "repository_record list"
  lv_generations :: "generation_record list"
  lv_artifacts :: "artifact_record list"
  lv_provisionals :: "provisional_owner list"
  lv_drivers :: "driver_record list"
  lv_runs :: "string list"
  lv_bindings :: "string list"
  lv_legacy_runs :: "string list"
  lv_legacy_attempts :: "string list"
  lv_attempts :: "attempt_seen list"

definition load_attempts :: "ledger \<Rightarrow> attempt_seen list" where
  "load_attempts lg =
     map (\<lambda>a. \<lparr>as_id = show_word (at_attempt_id a), as_graph_id = at_graph_id a,
         as_path = at_worktree_path a\<rparr>)
       (sort_key at_attempt_id (db_attempts (lg_store lg)))"

definition load_ledger :: "ledger \<times> bool \<Rightarrow> unit + ledger_view" where
  "load_ledger opened =
     (let (lg, decodes) = opened
      in if \<not> decodes then Inl ()
         else Inr
           \<lparr>lv_repos = map fst (sort_key (\<lambda>r. rr_id (fst r)) (lg_repositories lg)),
            lv_generations = sort_key (\<lambda>g. (gn_ordinal g, gn_id g)) (lg_generations lg),
            lv_artifacts = map fst (sort_key (\<lambda>r. ar_id (fst r)) (lg_artifacts lg)),
            lv_provisionals = sort_key po_id (lg_provisionals lg),
            lv_drivers = sort_key dv_id (lg_drivers lg),
            lv_runs = sort (map rd_graph_id (db_runs (lg_store lg))),
            lv_bindings = sort (map rb_graph_id (lg_bindings lg)),
            lv_legacy_runs = sort (db_legacy_runs (lg_store lg)),
            lv_legacy_attempts = sort (db_legacy_attempts (lg_store lg)),
            lv_attempts = load_attempts lg\<rparr>)"

section \<open>The machine as the collector sees it\<close>

definition probe :: "host \<Rightarrow> path \<Rightarrow> presence" where
  "probe h p =
     (case probe_path h p of
        Probe_Reparse symlink \<Rightarrow> Reparse
      | Probe_Missing \<Rightarrow> Missing
      | Probe_Inaccessible \<Rightarrow> Inaccessible
      | Probe_Present \<Rightarrow> Present)"

definition same_dir :: "host \<Rightarrow> path \<Rightarrow> path \<Rightarrow> bool" where
  "same_dir h left right =
     (if probe h left \<noteq> Present \<or> probe h right \<noteq> Present then False
      else (case (h_canonicalize h left, h_canonicalize h right) of
              (Some l, Some r) \<Rightarrow> l = r
            | _ \<Rightarrow> False))"

definition git_bytes :: "host \<Rightarrow> path \<Rightarrow> string list \<Rightarrow> string option" where
  "git_bytes h checkout args = res_ok (h_git h checkout args)"

datatype common_dir = Common_Ready path | Common_Unsafe | Common_Unavailable

definition common_dir_of :: "host \<Rightarrow> path \<Rightarrow> common_dir" where
  "common_dir_of h checkout =
     (case git_bytes h checkout [''rev-parse'', ''--path-format=absolute'', ''--git-common-dir''] of
        None \<Rightarrow> Common_Unavailable
      | Some bytes \<Rightarrow>
          (case from_utf8 bytes of
             None \<Rightarrow> Common_Unavailable
           | Some text0 \<Rightarrow>
               (let text = trim text0
                in if text = [] then Common_Unavailable
                   else (let p0 = path_of text;
                             p = (if is_absolute p0 then p0 else path_join checkout p0)
                         in case probe h p of
                              Present \<Rightarrow>
                                (case h_canonicalize h p of
                                   Some c \<Rightarrow> Common_Ready c
                                 | None \<Rightarrow> Common_Unavailable)
                            | Reparse \<Rightarrow> Common_Unsafe
                            | _ \<Rightarrow> Common_Unavailable))))"

text \<open>\<open>parse_worktrees\<close> of \<open>git worktree list --porcelain -z\<close>: one record per group of fields.\<close>

fun worktree_fields :: "string list \<Rightarrow> path option \<Rightarrow> bool \<Rightarrow> path option \<times> bool" where
  "worktree_fields [] found invalid = (found, invalid)"
| "worktree_fields (w # ws) found invalid =
     (case strip_prefix w ''worktree '' of
        Some text \<Rightarrow>
          (case from_utf8 text of
             Some t \<Rightarrow> if t \<noteq> [] then worktree_fields ws (Some (path_of t)) invalid
                      else worktree_fields ws found True
           | None \<Rightarrow> worktree_fields ws found True)
      | None \<Rightarrow> worktree_fields ws found invalid)"

function worktree_groups :: "string list \<Rightarrow> path list \<times> bool" where
  "worktree_groups parts =
     (case dropWhile (\<lambda>p. p = []) parts of
        [] \<Rightarrow> ([], False)
      | p # ps \<Rightarrow>
          (let (found, invalid) = worktree_fields (takeWhile (\<lambda>q. q \<noteq> []) (p # ps)) None False;
               (paths, invalid') = worktree_groups (dropWhile (\<lambda>q. q \<noteq> []) (p # ps))
           in ((case found of None \<Rightarrow> paths | Some w \<Rightarrow> w # paths), invalid \<or> invalid')))"
  by pat_completeness auto

termination
proof (relation "measure length")
  fix parts :: "string list" and p ps
  assume d: "dropWhile (\<lambda>p. p = []) parts = p # ps"
  then have "p \<noteq> []" by (metis (full_types) dropWhile_eq_Cons_conv)
  then have "length (dropWhile (\<lambda>q. q \<noteq> []) (p # ps)) < length (p # ps)"
    by (simp add: le_imp_less_Suc length_dropWhile_le)
  also have "length (p # ps) \<le> length parts" using d length_dropWhile_le [of "\<lambda>p. p = []" parts] by simp
  finally show "(dropWhile (\<lambda>q. q \<noteq> []) (p # ps), parts) \<in> measure length" by simp
qed simp

declare worktree_groups.simps [simp del]

definition parse_worktrees :: "string \<Rightarrow> path list \<times> bool" where
  "parse_worktrees bytes = worktree_groups (split_on (CHR 0x00) bytes)"

section \<open>Locations\<close>

definition checked_relative :: "path \<Rightarrow> relative_path option" where
  "checked_relative p = res_ok (RelativePath_new (replace_char (CHR 0x5C) (CHR ''/'') (path_text p)))"

definition contained_relative :: "host \<Rightarrow> path \<Rightarrow> path \<Rightarrow> relative_path option" where
  "contained_relative h base0 target =
     (if probe h base0 \<noteq> Present \<or> same_dir h base0 target then None
      else if probe h target = Reparse \<or> probe h target = Inaccessible then None
      else (case h_canonicalize h base0 of
              None \<Rightarrow> None
            | Some base \<Rightarrow>
                (case (if probe h target = Present
                       then Option.bind (h_canonicalize h target) (\<lambda>c. path_strip_prefix c base)
                       else path_strip_prefix
                              (if is_absolute target then target else path_join base target) base) of
                   None \<Rightarrow> None
                 | Some rest \<Rightarrow> if rest = [] then None else checked_relative rest)))"

definition live_root :: "host \<Rightarrow> registry_root \<Rightarrow> bool" where
  "live_root h r \<longleftrightarrow> res_ok (native_identity_of h (rt_path r)) = Some (rt_identity r)"

fun registered_location ::
  "host \<Rightarrow> path \<Rightarrow> (root_alias \<times> registry_root) list \<Rightarrow> inventory_location option" where
  "registered_location h p [] = None"
| "registered_location h p ((alias, r) # rest) =
     (if \<not> live_root h r then registered_location h p rest
      else (case contained_relative h (rt_path r) p of
              Some relative_path \<Rightarrow>
                Some \<lparr>il_scope = Scp_LedgerRoot, il_root_alias = Some alias,
                      il_relative_path = relative_path\<rparr>
            | None \<Rightarrow> registered_location h p rest))"

definition relative_location ::
  "host \<Rightarrow> path \<Rightarrow> path \<Rightarrow> path \<Rightarrow> registry_view option \<Rightarrow> bool \<Rightarrow> inventory_location option" where
  "relative_location h p checkout configured_root registry identity_confirmed =
     (case contained_relative h checkout p of
        Some relative_path \<Rightarrow>
          Some \<lparr>il_scope = Scp_Repository, il_root_alias = None, il_relative_path = relative_path\<rparr>
      | None \<Rightarrow>
          (case contained_relative h configured_root p of
             Some relative_path \<Rightarrow>
               Some \<lparr>il_scope = Scp_ConfiguredRoot, il_root_alias = None,
                     il_relative_path = relative_path\<rparr>
           | None \<Rightarrow>
               if \<not> identity_confirmed then None
               else (case registry of
                       None \<Rightarrow> None
                     | Some view \<Rightarrow> registered_location h p (rv_roots view))))"

definition observe_persisted_path ::
  "host \<Rightarrow> path \<Rightarrow> path \<Rightarrow> path \<Rightarrow> registry_view option \<Rightarrow> bool \<Rightarrow>
    inventory_location option \<times> presence \<times> bool" where
  "observe_persisted_path h p checkout configured_root registry identity_confirmed =
     (case relative_location h p checkout configured_root registry identity_confirmed of
        Some location \<Rightarrow> (Some location, probe h p, False)
      | None \<Rightarrow> (None, probe h p, True))"

definition resolve_record ::
  "host \<Rightarrow> root_alias \<Rightarrow> relative_path \<Rightarrow> registry_view option \<Rightarrow> bool \<Rightarrow>
    inventory_location option \<times> presence \<times> bool" where
  "resolve_record h alias relative_path registry identity_confirmed =
     (let location = Some \<lparr>il_scope = Scp_LedgerRoot, il_root_alias = Some alias,
                           il_relative_path = relative_path\<rparr>
      in if \<not> identity_confirmed then (location, NotApplicable, False)
         else (case Option.bind registry (\<lambda>view. map_of (rv_roots view) alias) of
                 None \<Rightarrow> (location, NotApplicable, False)
               | Some r \<Rightarrow>
                   if \<not> live_root h r then (location, Inaccessible, False)
                   else if probe h (rt_path r) \<noteq> Present then (location, probe h (rt_path r), False)
                   else (location, probe h (join_relative (rt_path r) relative_path), False)))"

section \<open>Observations of the ledger\<close>

definition ledger_observation ::
  "bool \<Rightarrow> entry_source \<Rightarrow> graph_ident option \<Rightarrow> lifecycle_id option \<Rightarrow>
    inventory_location option \<times> presence \<times> bool \<Rightarrow> bool \<Rightarrow> bool \<Rightarrow> observation" where
  "ledger_observation identity_confirmed source gid lifecycle_id place legacy_marker driver_active =
     (let (location, presence, withheld) = place
      in \<lparr>ob_source = source, ob_graph_id = gid, ob_lifecycle_id = lifecycle_id,
          ob_location = location, ob_withheld = withheld, ob_presence = presence,
          ob_legacy_marker = legacy_marker, ob_ledger_record = True,
          ob_identity_confirmed = identity_confirmed, ob_git_registered = False,
          ob_driver_active = driver_active, ob_configured_entry = False\<rparr>)"

definition legacy_run :: "ledger_view \<Rightarrow> string \<Rightarrow> bool" where
  "legacy_run view graph =
     (if graph \<in> set (lv_bindings view) then False
      else if list_ex (\<lambda>g. gn_graph_id g = graph) (lv_generations view) then False
      else if list_ex (\<lambda>p. po_graph_id p = Some graph) (lv_provisionals view) then False
      else True)"

definition nowhere :: "inventory_location option \<times> presence \<times> bool" where
  "nowhere = (None, NotApplicable, False)"

definition generation_by_id :: "ledger_view \<Rightarrow> lifecycle_id \<Rightarrow> generation_record option" where
  "generation_by_id view = map_of (rev (map (\<lambda>g. (gn_id g, g)) (lv_generations view)))"

definition legacy_graph :: "ledger_view \<Rightarrow> graph_ident option \<Rightarrow> bool" where
  "legacy_graph view graph = (case graph of None \<Rightarrow> False | Some g \<Rightarrow> g \<in> set (lv_legacy_runs view))"

definition generation_observation ::
  "host \<Rightarrow> ledger_view \<Rightarrow> registry_view option \<Rightarrow> bool \<Rightarrow> generation_record \<Rightarrow> observation" where
  "generation_observation h view registry confirmed g =
     ledger_observation confirmed Src_Generation (Some (gn_graph_id g)) (Some (gn_id g))
       (resolve_record h (gn_root_alias g) (gn_relative_path g) registry confirmed)
       (gn_graph_id g \<in> set (lv_legacy_runs view)) False"

definition artifact_observation ::
  "host \<Rightarrow> ledger_view \<Rightarrow> registry_view option \<Rightarrow> bool \<Rightarrow> artifact_record \<Rightarrow> observation" where
  "artifact_observation h view registry confirmed a =
     (let graph = map_option gn_graph_id (generation_by_id view (ar_generation_id a))
      in ledger_observation confirmed Src_Artifact graph (Some (ar_id a))
           (resolve_record h (ar_root_alias a) (ar_relative_path a) registry confirmed)
           (legacy_graph view graph) False)"

definition provisional_observation ::
  "host \<Rightarrow> ledger_view \<Rightarrow> registry_view option \<Rightarrow> bool \<Rightarrow> provisional_owner \<Rightarrow> observation" where
  "provisional_observation h view registry confirmed p =
     ledger_observation confirmed Src_Provisional (po_graph_id p) (Some (po_id p))
       (resolve_record h (pl_root_alias (po_location p)) (pl_relative_path (po_location p)) registry confirmed)
       (legacy_graph view (po_graph_id p)) False"

definition legacy_run_observation :: "ledger_view \<Rightarrow> bool \<Rightarrow> string \<Rightarrow> observation option" where
  "legacy_run_observation view confirmed graph =
     (if \<not> legacy_run view graph then None
      else (case GraphId_new graph of
              Inl _ \<Rightarrow> None
            | Inr gid \<Rightarrow>
                Some (ledger_observation confirmed Src_LegacyRun (Some gid) None nowhere True False)))"

definition attempt_observation ::
  "host \<Rightarrow> ledger_view \<Rightarrow> path \<Rightarrow> path \<Rightarrow> registry_view option \<Rightarrow> bool \<Rightarrow> attempt_seen \<Rightarrow>
    observation option" where
  "attempt_observation h view checkout configured_root registry confirmed a =
     (let marked = (as_id a \<in> set (lv_legacy_attempts view) \<or>
            as_graph_id a \<in> set (lv_legacy_runs view) \<or> legacy_run view (as_graph_id a))
      in if as_path a = None \<and> (legacy_run view (as_graph_id a) \<or> \<not> marked) then None
         else (case GraphId_new (as_graph_id a) of
                 Inl _ \<Rightarrow> None
               | Inr gid \<Rightarrow>
                   Some (ledger_observation confirmed
                     (if marked then Src_LegacyAttempt else Src_Artifact) (Some gid) None
                     (case as_path a of
                        Some p \<Rightarrow>
                          observe_persisted_path h (path_of p) checkout configured_root registry confirmed
                      | None \<Rightarrow> nowhere)
                     marked False)))"

definition driver_is_active :: "driver_phase \<Rightarrow> bool" where
  "driver_is_active phase \<longleftrightarrow> phase = Drv_HandoffPending \<or> phase = Drv_Starting \<or> phase = Drv_Running"

definition driver_observation ::
  "host \<Rightarrow> registry_view option \<Rightarrow> bool \<Rightarrow> driver_record \<Rightarrow> observation option" where
  "driver_observation h registry confirmed d =
     (if \<not> driver_is_active (dv_phase d) then None
      else Some (ledger_observation confirmed Src_Driver
        (case dv_target d of
           DriverExecution scope \<Rightarrow> Some (xs_graph_id scope)
         | DriverProvisional _ _ \<Rightarrow> None)
        (Some (dv_id d))
        (case dv_diagnostic d of
           Some diagnostic \<Rightarrow>
             resolve_record h (pl_root_alias diagnostic) (pl_relative_path diagnostic) registry confirmed
         | None \<Rightarrow> nowhere)
        False True))"

definition ledger_observations ::
  "host \<Rightarrow> ledger_view \<Rightarrow> registry_view option \<Rightarrow> bool \<Rightarrow> path \<Rightarrow> path \<Rightarrow> observation list" where
  "ledger_observations h view registry confirmed checkout configured_root =
     map (generation_observation h view registry confirmed) (lv_generations view) @
     map (artifact_observation h view registry confirmed) (lv_artifacts view) @
     map (provisional_observation h view registry confirmed) (lv_provisionals view) @
     List.map_filter (legacy_run_observation view confirmed) (lv_runs view) @
     List.map_filter (attempt_observation h view checkout configured_root registry confirmed) (lv_attempts view) @
     List.map_filter (driver_observation h registry confirmed) (lv_drivers view)"

section \<open>Observations of git and the configured directories\<close>

definition worktree_observation ::
  "host \<Rightarrow> path \<Rightarrow> path \<Rightarrow> registry_view option \<Rightarrow> bool \<Rightarrow> path \<Rightarrow> observation option" where
  "worktree_observation h checkout configured_root registry confirmed p =
     (if same_dir h p checkout then None
      else (let location = relative_location h p checkout configured_root registry confirmed
            in Some \<lparr>ob_source = Src_GitWorktree, ob_graph_id = None, ob_lifecycle_id = None,
                 ob_location = location, ob_withheld = (location = None), ob_presence = probe h p,
                 ob_legacy_marker = False, ob_ledger_record = False, ob_identity_confirmed = False,
                 ob_git_registered = True, ob_driver_active = False, ob_configured_entry = False\<rparr>))"

definition git_worktrees ::
  "host \<Rightarrow> path \<Rightarrow> path \<Rightarrow> registry_view option \<Rightarrow> bool \<Rightarrow> blocker_code list \<Rightarrow>
    observation list \<times> blocker_code list" where
  "git_worktrees h checkout configured_root registry confirmed blockers =
     (case git_bytes h checkout [''worktree'', ''list'', ''--porcelain'', ''-z''] of
        None \<Rightarrow> ([], push_code blockers Blk_GitUnavailable)
      | Some bytes \<Rightarrow>
          (let (paths, invalid) = parse_worktrees bytes
           in (List.map_filter (worktree_observation h checkout configured_root registry confirmed) paths,
               if invalid then push_code blockers Blk_PathInaccessible else blockers)))"

definition configured_observation :: "inventory_location option \<Rightarrow> presence \<Rightarrow> bool \<Rightarrow> observation" where
  "configured_observation location presence withheld =
     \<lparr>ob_source = Src_ConfiguredEntry, ob_graph_id = None, ob_lifecycle_id = None,
      ob_location = location, ob_withheld = withheld, ob_presence = presence,
      ob_legacy_marker = False, ob_ledger_record = False, ob_identity_confirmed = False,
      ob_git_registered = False, ob_driver_active = False, ob_configured_entry = True\<rparr>"

definition child_observation ::
  "host \<Rightarrow> location_scope \<Rightarrow> root_alias option \<Rightarrow> path option \<Rightarrow> path \<times> string option \<Rightarrow> observation" where
  "child_observation h scope alias pre entry =
     (let presence = probe h (fst entry)
      in case snd entry of
           None \<Rightarrow> configured_observation None presence True
         | Some name \<Rightarrow>
             (let relative_path =
                (case pre of
                   Some d \<Rightarrow> replace_char (CHR 0x5C) (CHR ''/'') (path_text (path_join d (path_of name)))
                 | None \<Rightarrow> name)
              in case RelativePath_new relative_path of
                   Inr r \<Rightarrow>
                     configured_observation
                       (Some \<lparr>il_scope = scope, il_root_alias = alias, il_relative_path = r\<rparr>) presence False
                 | Inl _ \<Rightarrow> configured_observation None presence True))"

fun children_walk ::
  "host \<Rightarrow> location_scope \<Rightarrow> root_alias option \<Rightarrow> path option \<Rightarrow> nat \<Rightarrow>
    (path \<times> string option) option list \<Rightarrow> blocker_code list \<Rightarrow> observation list \<times> blocker_code list" where
  "children_walk h scope alias pre index [] blockers = ([], blockers)"
| "children_walk h scope alias pre index (e # es) blockers =
     (if MAX_CHILDREN \<le> index then ([], push_code blockers Blk_InventoryTruncated)
      else (case e of
              None \<Rightarrow>
                children_walk h scope alias pre (Suc index) es (push_code blockers Blk_PathInaccessible)
            | Some entry \<Rightarrow>
                (let (obs, blockers') = children_walk h scope alias pre (Suc index) es blockers
                 in (child_observation h scope alias pre entry # obs, blockers'))))"

definition list_children ::
  "host \<Rightarrow> path \<Rightarrow> location_scope \<Rightarrow> root_alias option \<Rightarrow> path option \<Rightarrow> path \<Rightarrow> blocker_code list \<Rightarrow>
    observation list \<times> blocker_code list" where
  "list_children h dir scope alias pre checkout blockers =
     (if same_dir h dir checkout then ([], blockers)
      else (case probe h dir of
              Missing \<Rightarrow> ([], blockers)
            | NotApplicable \<Rightarrow> ([], blockers)
            | Reparse \<Rightarrow> ([configured_observation None Reparse True], blockers)
            | Inaccessible \<Rightarrow> ([configured_observation None Inaccessible True], blockers)
            | Present \<Rightarrow>
                (case h_read_dir h dir of
                   None \<Rightarrow> ([], push_code blockers Blk_PathInaccessible)
                 | Some es \<Rightarrow> children_walk h scope alias pre 0 es blockers)))"

definition nested_prefix :: path where
  "nested_prefix = path_of ''.meshloop/worktrees''"

fun root_children ::
  "host \<Rightarrow> path \<Rightarrow> path \<Rightarrow> path \<Rightarrow> (root_alias \<times> registry_root) list \<Rightarrow> blocker_code list \<Rightarrow>
    observation list \<times> blocker_code list" where
  "root_children h checkout configured_root nested [] blockers = ([], blockers)"
| "root_children h checkout configured_root nested ((alias, r) # rest) blockers =
     (if same_dir h (rt_path r) checkout \<or> same_dir h (rt_path r) configured_root \<or>
         same_dir h (rt_path r) nested
      then root_children h checkout configured_root nested rest blockers
      else (let (obs, blockers1) =
                  list_children h (rt_path r) Scp_LedgerRoot (Some alias) None checkout blockers;
                (obs', blockers2) = root_children h checkout configured_root nested rest blockers1
            in (obs @ obs', blockers2)))"

definition configured_children ::
  "host \<Rightarrow> path \<Rightarrow> path \<Rightarrow> registry_view option \<Rightarrow> bool \<Rightarrow> blocker_code list \<Rightarrow>
    observation list \<times> blocker_code list" where
  "configured_children h checkout configured_root registry confirmed blockers =
     (let (obs, blockers1) =
            list_children h configured_root Scp_ConfiguredRoot None None checkout blockers;
          nested = path_join (path_join checkout (path_of ''.meshloop'')) (path_of ''worktrees'');
          (obs', blockers2) =
            (if \<not> same_dir h nested configured_root
             then list_children h nested Scp_Repository None (Some nested_prefix) checkout blockers1
             else ([], blockers1));
          (obs'', blockers3) =
            (if confirmed
             then (case registry of
                     Some view \<Rightarrow> root_children h checkout configured_root nested (rv_roots view) blockers2
                   | None \<Rightarrow> ([], blockers2))
             else ([], blockers2))
      in (obs @ obs' @ obs'', blockers3))"

section \<open>Discovery\<close>

definition registry_conflicts :: "host \<Rightarrow> path \<Rightarrow> registry_view option \<Rightarrow> bool" where
  "registry_conflicts h common registry =
     (case registry of
        None \<Rightarrow> False
      | Some view \<Rightarrow>
          (case native_identity_of h common of
             Inl _ \<Rightarrow> True
           | Inr live \<Rightarrow> rv_common_identity view \<noteq> live \<or>
               rr_common_dir_identity (rv_repository view) \<noteq> live))"

definition open_ledger :: "host \<Rightarrow> path \<Rightarrow> blocker_code list \<Rightarrow> ledger_view option \<times> blocker_code list" where
  "open_ledger h p blockers =
     (case probe h p of
        Missing \<Rightarrow> (None, push_code blockers Blk_LedgerMissing)
      | Reparse \<Rightarrow> (None, push_code blockers Blk_LedgerInaccessible)
      | Inaccessible \<Rightarrow> (None, push_code blockers Blk_LedgerInaccessible)
      | NotApplicable \<Rightarrow> (None, push_code blockers Blk_LedgerInaccessible)
      | Present \<Rightarrow>
          (case h_open_ledger h p of
             Inr None \<Rightarrow> (None, push_code blockers Blk_LedgerMissing)
           | Inr (Some store) \<Rightarrow>
               (case load_ledger store of
                  Inr view \<Rightarrow> (Some view, blockers)
                | Inl _ \<Rightarrow> (None, push_code blockers Blk_LedgerInaccessible))
           | Inl e \<Rightarrow>
               (None, push_code blockers
                 (if e = SchemaUpgradeRequired then Blk_SchemaUpgradeRequired
                  else Blk_LedgerInaccessible))))"

text \<open>Whether the identity is confirmed, then \<open>conflict\<close> and the blockers after the call.\<close>

definition confirm_identity ::
  "host \<Rightarrow> path \<Rightarrow> registry_view option \<Rightarrow> ledger_view option \<Rightarrow> bool \<Rightarrow> blocker_code list \<Rightarrow>
    bool \<times> bool \<times> blocker_code list" where
  "confirm_identity h ledger_path registry view0 conflict blockers =
     (case view0 of
        None \<Rightarrow> (False, conflict, blockers)
      | Some view \<Rightarrow>
          (if 1 < length (lv_repos view) then (False, True, blockers)
           else (case lv_repos view of
                   [] \<Rightarrow> (False, conflict,
                       if registry \<noteq> None \<and> \<not> conflict
                       then push_code blockers Blk_RepositoryUnbound else blockers)
                 | repo # _ \<Rightarrow>
                     (case registry of
                        None \<Rightarrow> (False, conflict, blockers)
                      | Some reg \<Rightarrow>
                          if rr_id (rv_repository reg) \<noteq> rr_id repo \<or>
                             rv_common_identity reg \<noteq> rr_common_dir_identity repo \<or>
                             rr_common_dir_identity (rv_repository reg) \<noteq> rr_common_dir_identity repo
                          then (False, True, blockers)
                          else if native_identity_of h ledger_path = Inr (rv_ledger_identity reg)
                          then (\<not> conflict, conflict, blockers)
                          else (False, True, blockers)))))"

definition owned_registry ::
  "host \<Rightarrow> path \<Rightarrow> registry_view option \<Rightarrow> blocker_code list \<Rightarrow> registry_view option \<times> blocker_code list" where
  "owned_registry h common held blockers =
     (case held of
        Some view \<Rightarrow> (Some view, blockers)
      | None \<Rightarrow>
          (case read_registry h (path_join common (path_of REGISTRY)) of
             Inr None \<Rightarrow> (None, push_code blockers Blk_FenceMissing)
           | Inr (Some view) \<Rightarrow> (Some view, blockers)
           | Inl _ \<Rightarrow> (None, push_code blockers Blk_FenceInaccessible)))"

definition inventory_finish :: "blocker_code list \<Rightarrow> observation list \<Rightarrow> inventory_facts" where
  "inventory_finish blockers observations =
     \<lparr>if_command_blockers = blockers, if_observations = observations\<rparr>"

definition discover_from ::
  "host \<Rightarrow> inventory_scope \<Rightarrow> registry_view option \<Rightarrow> path \<Rightarrow> inventory_facts" where
  "discover_from h scope held common =
     (let (registry, b1) = owned_registry h common held [];
          (view, b2) = open_ledger h (is_ledger scope) b1;
          (identity_confirmed, conflict, b3) =
            confirm_identity h (is_ledger scope) registry view (registry_conflicts h common registry) b2;
          b4 = (if conflict then push_code b3 Blk_IdentityConflict else b3);
          confirmed = (identity_confirmed \<and> \<not> conflict);
          obs1 = (case view of
             Some v \<Rightarrow>
               ledger_observations h v registry confirmed (is_checkout scope) (is_configured_root scope)
           | None \<Rightarrow> []);
          (obs2, b5) =
            git_worktrees h (is_checkout scope) (is_configured_root scope) registry confirmed b4;
          (obs3, b6) =
            configured_children h (is_checkout scope) (is_configured_root scope) registry confirmed b5
      in inventory_finish b6 (obs1 @ obs2 @ obs3))"

definition discover_inventory_with ::
  "host \<Rightarrow> inventory_scope \<Rightarrow> registry_view option \<Rightarrow> inventory_facts" where
  "discover_inventory_with h scope held =
     (if probe h (is_checkout scope) \<noteq> Present then
        inventory_finish (push_code [] Blk_GitUnavailable) []
      else (case common_dir_of h (is_checkout scope) of
              Common_Ready common \<Rightarrow> discover_from h scope held common
            | Common_Unsafe \<Rightarrow>
                inventory_finish (push_code (push_code [] Blk_FenceInaccessible) Blk_GitUnavailable) []
            | Common_Unavailable \<Rightarrow> inventory_finish (push_code [] Blk_GitUnavailable) []))"

definition discover_inventory :: "host \<Rightarrow> inventory_scope \<Rightarrow> inventory_facts" where
  "discover_inventory h scope = discover_inventory_with h scope None"

section \<open>What every observation satisfies\<close>

text \<open>
  The fields are newtypes whose only constructors check them, also when a row or the registry is
  decoded: \<open>ledger_texts_ok\<close> and \<open>registry_texts_ok\<close> say so of one ledger and one registry.
\<close>

definition portable_ok :: "portable_location \<Rightarrow> bool" where
  "portable_ok l \<longleftrightarrow> root_alias_ok (pl_root_alias l) \<and> relative (pl_relative_path l)"

definition generation_texts_ok :: "generation_record \<Rightarrow> bool" where
  "generation_texts_ok g \<longleftrightarrow>
     identifier_ok (gn_id g) \<and> graph_id_is_legal (gn_graph_id g) \<and>
     root_alias_ok (gn_root_alias g) \<and> relative (gn_relative_path g)"

definition artifact_texts_ok :: "artifact_record \<Rightarrow> bool" where
  "artifact_texts_ok a \<longleftrightarrow>
     identifier_ok (ar_id a) \<and> root_alias_ok (ar_root_alias a) \<and> relative (ar_relative_path a)"

definition provisional_texts_ok :: "provisional_owner \<Rightarrow> bool" where
  "provisional_texts_ok p \<longleftrightarrow>
     identifier_ok (po_id p) \<and> opt_ok graph_id_is_legal (po_graph_id p) \<and> portable_ok (po_location p)"

definition driver_texts_ok :: "driver_record \<Rightarrow> bool" where
  "driver_texts_ok d \<longleftrightarrow>
     identifier_ok (dv_id d) \<and> opt_ok portable_ok (dv_diagnostic d) \<and>
     (case dv_target d of
        DriverExecution scope \<Rightarrow> graph_id_is_legal (xs_graph_id scope)
      | DriverProvisional _ _ \<Rightarrow> True)"

definition view_texts_ok :: "ledger_view \<Rightarrow> bool" where
  "view_texts_ok v \<longleftrightarrow>
     list_all generation_texts_ok (lv_generations v) \<and> list_all artifact_texts_ok (lv_artifacts v) \<and>
     list_all provisional_texts_ok (lv_provisionals v) \<and> list_all driver_texts_ok (lv_drivers v)"

definition ledger_texts_ok :: "ledger \<Rightarrow> bool" where
  "ledger_texts_ok lg \<longleftrightarrow>
     list_all generation_texts_ok (lg_generations lg) \<and>
     list_all (\<lambda>r. artifact_texts_ok (fst r)) (lg_artifacts lg) \<and>
     list_all provisional_texts_ok (lg_provisionals lg) \<and> list_all driver_texts_ok (lg_drivers lg)"

definition registry_texts_ok :: "registry_view \<Rightarrow> bool" where
  "registry_texts_ok r \<longleftrightarrow> list_all (\<lambda>(alias, _). root_alias_ok alias) (rv_roots r)"

definition host_texts_ok :: "host \<Rightarrow> bool" where
  "host_texts_ok h \<longleftrightarrow>
     (\<forall>p lg decodes. h_open_ledger h p = Inr (Some (lg, decodes)) \<longrightarrow> ledger_texts_ok lg) \<and>
     (\<forall>text m. h_parse_manifest h text = Some m \<longrightarrow> registry_texts_ok (registry_view_of m))"

lemma load_ledger_texts: "ledger_texts_ok lg \<Longrightarrow> load_ledger (lg, d) = Inr v \<Longrightarrow> view_texts_ok v"
  by (auto simp: load_ledger_def view_texts_ok_def ledger_texts_ok_def list_all_iff split: if_splits)

lemma open_ledger_texts:
  "host_texts_ok h \<Longrightarrow> open_ledger h p bs = (Some v, bs') \<Longrightarrow> view_texts_ok v"
  by (auto simp: open_ledger_def host_texts_ok_def intro: load_ledger_texts
      split: presence.splits sum.splits option.splits)

lemma owned_registry_texts:
  assumes "host_texts_ok h" and "\<forall>v. held = Some v \<longrightarrow> registry_texts_ok v"
    and "owned_registry h common held bs = (Some r, bs')"
  shows "registry_texts_ok r"
  using assms
  by (auto simp: owned_registry_def read_registry_def read_manifest_def host_texts_ok_def try_res_eq_Inr
      split: option.splits sum.splits io.splits if_splits)

lemma checked_relative_ok: "checked_relative p = Some r \<Longrightarrow> relative r"
  by (auto simp: checked_relative_def res_ok_def text_type_news split: sum.splits)

lemma contained_relative_ok: "contained_relative h b t = Some r \<Longrightarrow> relative r"
  by (auto simp: contained_relative_def intro: checked_relative_ok split: if_splits option.splits)

lemma registered_location_ok:
  "registered_location h p rs = Some l \<Longrightarrow> list_all (\<lambda>(alias, _). root_alias_ok alias) rs \<Longrightarrow>
     inventory_location_wf l"
proof (induction rs)
  case (Cons a rs)
  then show ?case
    using contained_relative_ok [of h "rt_path (snd a)" p]
    by (cases a) (auto simp: inventory_location_wf_def split: if_splits option.splits)
qed simp

lemma relative_location_ok:
  assumes "\<forall>v. registry = Some v \<longrightarrow> registry_texts_ok v"
    and "relative_location h p checkout configured registry confirmed = Some l"
  shows "inventory_location_wf l"
  using assms
  by (auto simp: relative_location_def inventory_location_wf_def registry_texts_ok_def
      dest: contained_relative_ok registered_location_ok
      split: if_splits option.splits)

lemma observe_persisted_ok:
  assumes "\<forall>v. registry = Some v \<longrightarrow> registry_texts_ok v"
  shows "opt_ok inventory_location_wf (fst (observe_persisted_path h p checkout configured registry confirmed))"
  using relative_location_ok [OF assms]
  by (auto simp: observe_persisted_path_def split: option.splits)

lemma fst_resolve_record:
  "fst (resolve_record h alias p registry confirmed) =
     Some \<lparr>il_scope = Scp_LedgerRoot, il_root_alias = Some alias, il_relative_path = p\<rparr>"
  by (simp add: resolve_record_def Let_def split: option.splits)

lemma ledger_observation_fields [simp]:
  "ob_graph_id (ledger_observation c src g i pl leg act) = g"
  "ob_lifecycle_id (ledger_observation c src g i pl leg act) = i"
  "ob_location (ledger_observation c src g i pl leg act) = fst pl"
  "ob_withheld (ledger_observation c src g i pl leg act) = snd (snd pl)"
  "ob_legacy_marker (ledger_observation c src g i pl leg act) = leg"
  "ob_ledger_record (ledger_observation c src g i pl leg act) = True"
  "ob_identity_confirmed (ledger_observation c src g i pl leg act) = c"
  "ob_driver_active (ledger_observation c src g i pl leg act) = act"
  by (simp_all add: ledger_observation_def split_beta Let_def)

text \<open>A ledger record without a location is withheld, legacy or a running driver.\<close>

definition barred_without_place :: "observation \<Rightarrow> bool" where
  "barred_without_place ob \<longleftrightarrow>
     (ob_location ob = None \<and> ob_identity_confirmed ob \<longrightarrow>
        ob_withheld ob \<or> ob_legacy_marker ob \<or> ob_driver_active ob)"

lemma observe_persisted_place:
  "fst (observe_persisted_path h p checkout configured registry confirmed) = None \<Longrightarrow>
     snd (snd (observe_persisted_path h p checkout configured registry confirmed))"
  by (auto simp: observe_persisted_path_def split: option.splits)

named_theorems collectors \<open>the observations a collector builds\<close>

declare generation_observation_def [collectors] artifact_observation_def [collectors]
  provisional_observation_def [collectors] legacy_run_observation_def [collectors]
  attempt_observation_def [collectors] driver_observation_def [collectors]

lemma in_map_filter: "y \<in> set (List.map_filter f xs) \<longleftrightarrow> (\<exists>x \<in> set xs. f x = Some y)"
  by (induction xs) (auto simp: List.map_filter_simps split: option.splits)

lemma ledger_observation_cases:
  assumes "ob \<in> set (ledger_observations h v registry confirmed checkout configured)"
  obtains g where "g \<in> set (lv_generations v)" "ob = generation_observation h v registry confirmed g"
  | a where "a \<in> set (lv_artifacts v)" "ob = artifact_observation h v registry confirmed a"
  | p where "p \<in> set (lv_provisionals v)" "ob = provisional_observation h v registry confirmed p"
  | r where "legacy_run_observation v confirmed r = Some ob"
  | t where "attempt_observation h v checkout configured registry confirmed t = Some ob"
  | d where "d \<in> set (lv_drivers v)" "driver_observation h registry confirmed d = Some ob"
  using assms by (auto simp: ledger_observations_def in_map_filter)

lemma ledger_observations_confirmed:
  assumes "ob \<in> set (ledger_observations h v registry confirmed checkout configured)"
  shows "ob_ledger_record ob \<and> ob_identity_confirmed ob = confirmed \<and> barred_without_place ob"
  using assms
proof (cases rule: ledger_observation_cases)
  case (5 t)
  then show ?thesis
    using observe_persisted_place [of h "path_of (the (as_path t))" checkout configured registry confirmed]
    by (auto simp: collectors barred_without_place_def nowhere_def Let_def text_type_news
        split: if_splits sum.splits option.splits)
next
  case (6 d)
  then show ?thesis
    by (auto simp: collectors barred_without_place_def split: if_splits)
qed (auto simp: collectors Let_def barred_without_place_def fst_resolve_record
    split: if_splits sum.splits)

lemma generation_by_id_in: "generation_by_id v i = Some g \<Longrightarrow> g \<in> set (lv_generations v)"
  by (auto simp: generation_by_id_def dest: map_of_SomeD)

lemma ledger_observations_wf:
  assumes v: "view_texts_ok v" and r: "\<forall>x. registry = Some x \<longrightarrow> registry_texts_ok x"
    and "ob \<in> set (ledger_observations h v registry confirmed checkout configured)"
  shows "observation_wf ob"
  using assms(3)
proof (cases rule: ledger_observation_cases)
  case (1 g)
  then show ?thesis using v
    by (auto simp: collectors view_texts_ok_def list_all_iff observation_wf_def fst_resolve_record
        generation_texts_ok_def inventory_location_wf_def)
next
  case (2 a)
  have "graph_id_is_legal (gn_graph_id g)" if "generation_by_id v i = Some g" for i g
    using generation_by_id_in [OF that] v by (auto simp: view_texts_ok_def list_all_iff generation_texts_ok_def)
  with 2 v show ?thesis
    by (cases "generation_by_id v (ar_generation_id a)")
      (auto simp: collectors view_texts_ok_def list_all_iff observation_wf_def fst_resolve_record
        artifact_texts_ok_def inventory_location_wf_def Let_def)
next
  case (3 p)
  then show ?thesis using v
    by (auto simp: collectors view_texts_ok_def list_all_iff observation_wf_def fst_resolve_record
        provisional_texts_ok_def portable_ok_def inventory_location_wf_def)
next
  case (4 g)
  then show ?thesis
    by (auto simp: collectors observation_wf_def nowhere_def text_type_news split: if_splits sum.splits)
next
  case (5 t)
  then show ?thesis
    using observe_persisted_ok [OF r, of h "path_of (the (as_path t))" checkout configured confirmed]
    by (auto simp: collectors observation_wf_def nowhere_def Let_def text_type_news
        split: if_splits sum.splits option.splits)
next
  case (6 d)
  then show ?thesis using v
    by (auto simp: collectors view_texts_ok_def list_all_iff observation_wf_def fst_resolve_record
        driver_texts_ok_def portable_ok_def inventory_location_wf_def nowhere_def
        split: if_splits driver_target.splits option.splits)
qed

text \<open>Observations of git and of directories are never of the ledger.\<close>

definition outside_ledger :: "observation \<Rightarrow> bool" where
  "outside_ledger ob \<longleftrightarrow> \<not> ob_ledger_record ob \<and> \<not> ob_identity_confirmed ob \<and> observation_wf ob"

lemma worktree_outside:
  assumes "\<forall>x. registry = Some x \<longrightarrow> registry_texts_ok x"
    and "worktree_observation h checkout configured registry confirmed p = Some ob"
  shows "outside_ledger ob"
  using assms(2) relative_location_ok [OF assms(1), of h p checkout configured confirmed]
  by (cases "relative_location h p checkout configured registry confirmed")
    (auto simp: worktree_observation_def outside_ledger_def observation_wf_def Let_def split: if_splits)

lemma git_worktrees_outside:
  assumes "\<forall>x. registry = Some x \<longrightarrow> registry_texts_ok x"
  shows "list_all outside_ledger (fst (git_worktrees h checkout configured registry confirmed bs))"
  using worktree_outside [OF assms]
  by (auto simp: git_worktrees_def split_beta Let_def list_all_iff in_map_filter split: option.splits)

lemma child_outside: "opt_ok root_alias_ok alias \<Longrightarrow> outside_ledger (child_observation h scope alias pre e)"
  by (auto simp: child_observation_def configured_observation_def outside_ledger_def observation_wf_def
      inventory_location_wf_def Let_def text_type_news split: option.splits sum.splits)

lemma children_walk_outside:
  "opt_ok root_alias_ok alias \<Longrightarrow>
     list_all outside_ledger (fst (children_walk h scope alias pre i es bs)) \<and>
     length (fst (children_walk h scope alias pre i es bs)) \<le> MAX_CHILDREN - i"
proof (induction es arbitrary: i bs)
  case (Cons e es)
  show ?case
    using Cons.IH [OF Cons.prems, of "Suc i" bs] Cons.prems
      Cons.IH [OF Cons.prems, of "Suc i" "push_code bs Blk_PathInaccessible"]
    by (auto simp: split_beta Let_def child_outside split: option.splits)
qed simp

lemma list_children_outside:
  assumes "opt_ok root_alias_ok alias"
  shows "list_all outside_ledger (fst (list_children h dir scope alias pre checkout bs))"
proof -
  have c: "list_all outside_ledger (fst (children_walk h scope alias pre 0 es bs))" for es
    using children_walk_outside [OF assms] by blast
  have s: "outside_ledger (configured_observation None pr True)" for pr
    by (simp add: configured_observation_def outside_ledger_def observation_wf_def)
  show ?thesis by (simp add: list_children_def c s split: presence.split option.split)
qed

text \<open>A listing is cut at the bound, and the cut is reported.\<close>

lemma list_children_bounded:
  assumes "opt_ok root_alias_ok alias"
  shows "length (fst (list_children h dir scope alias pre checkout bs)) \<le> MAX_CHILDREN"
proof -
  have "length (fst (children_walk h scope alias pre 0 es bs)) \<le> MAX_CHILDREN" for es
    using children_walk_outside [OF assms, of h scope pre 0 es bs] by simp
  then show ?thesis by (simp add: list_children_def MAX_CHILDREN_def split: presence.split option.split)
qed

lemma children_walk_keeps_code: "b \<in> set bs \<Longrightarrow> b \<in> set (snd (children_walk h scope alias pre i es bs))"
proof (induction es arbitrary: i bs)
  case (Cons e es)
  then show ?case by (auto simp: split_beta Let_def split: option.splits)
qed simp

lemma children_walk_truncates:
  "i \<le> MAX_CHILDREN \<Longrightarrow> MAX_CHILDREN - i < length es \<Longrightarrow>
     Blk_InventoryTruncated \<in> set (snd (children_walk h scope alias pre i es bs))"
proof (induction es arbitrary: i bs)
  case (Cons e es)
  show ?case
  proof (cases "MAX_CHILDREN \<le> i")
    case False
    then have "Suc i \<le> MAX_CHILDREN" "MAX_CHILDREN - Suc i < length es" using Cons.prems by auto
    note IH = Cons.IH [OF this]
    with False show ?thesis by (auto simp: split_beta Let_def split: option.splits)
  qed simp
qed simp

lemma root_children_outside:
  "list_all (\<lambda>(alias, _). root_alias_ok alias) rs \<Longrightarrow>
     list_all outside_ledger (fst (root_children h checkout configured nested rs bs))"
  by (induction rs arbitrary: bs) (auto simp: split_beta Let_def list_children_outside)

lemma configured_children_outside:
  assumes "\<forall>x. registry = Some x \<longrightarrow> registry_texts_ok x"
  shows "list_all outside_ledger (fst (configured_children h checkout configured registry confirmed bs))"
proof -
  have r: "list_all outside_ledger (fst (root_children h checkout configured nested (rv_roots v) bs'))"
    if "registry = Some v" for v nested bs'
    using assms that root_children_outside by (auto simp: registry_texts_ok_def)
  show ?thesis
    by (cases registry) (auto simp: configured_children_def split_beta Let_def list_children_outside r)
qed

section \<open>Discovery\<close>

text \<open>What a confirmed identity means: one repository row, equal to the registry, live on disk.\<close>

definition identity_proved ::
  "host \<Rightarrow> inventory_scope \<Rightarrow> path \<Rightarrow> registry_view \<Rightarrow> ledger_view \<Rightarrow> bool" where
  "identity_proved h scope common r v \<longleftrightarrow>
     (\<exists>repo. lv_repos v = [repo] \<and> rr_id (rv_repository r) = rr_id repo \<and>
        rr_common_dir_identity repo = rv_common_identity r) \<and>
     native_identity_of h common = Inr (rv_common_identity r) \<and>
     rr_common_dir_identity (rv_repository r) = rv_common_identity r \<and>
     native_identity_of h (is_ledger scope) = Inr (rv_ledger_identity r)"

lemma registry_conflicts_None: "\<not> registry_conflicts h common (Some r) \<Longrightarrow>
    native_identity_of h common = Inr (rv_common_identity r) \<and>
    rr_common_dir_identity (rv_repository r) = rv_common_identity r"
  by (auto simp: registry_conflicts_def split: sum.splits)

lemma confirm_identity_proved:
  assumes "confirm_identity h (is_ledger scope) registry view (registry_conflicts h common registry) bs =
      (True, conflict, bs')"
  obtains r v where "registry = Some r" "view = Some v" "identity_proved h scope common r v"
proof -
  obtain v where v: "view = Some v" using assms by (cases view) (auto simp: confirm_identity_def)
  obtain repo rest where l: "lv_repos v = repo # rest" "rest = []"
    using assms v by (cases "lv_repos v"; cases "tl (lv_repos v)")
      (auto simp: confirm_identity_def split: if_splits)
  obtain r where r: "registry = Some r" using assms v l by (cases registry) (auto simp: confirm_identity_def)
  have "identity_proved h scope common r v"
    using assms v l r registry_conflicts_None [of h common r]
    by (auto simp: confirm_identity_def identity_proved_def split: if_splits)
  with r v show ?thesis by (rule that)
qed

lemma discover_from_cases:
  assumes "host_texts_ok h" and "\<forall>v. held = Some v \<longrightarrow> registry_texts_ok v"
    and "ob \<in> set (if_observations (discover_from h scope held common))"
  shows "observation_wf ob \<and> barred_without_place ob \<and> (ob_identity_confirmed ob \<longrightarrow>
     ob_ledger_record ob \<and>
     (\<exists>r v bs bs'. owned_registry h common held [] = (Some r, bs) \<and>
        open_ledger h (is_ledger scope) bs = (Some v, bs') \<and> identity_proved h scope common r v))"
proof -
  obtain registry b1 where o1: "owned_registry h common held [] = (registry, b1)" by fastforce
  obtain view b2 where o2: "open_ledger h (is_ledger scope) b1 = (view, b2)" by fastforce
  obtain ic conflict b3 where o3: "confirm_identity h (is_ledger scope) registry view
      (registry_conflicts h common registry) b2 = (ic, conflict, b3)"
    by (cases "confirm_identity h (is_ledger scope) registry view (registry_conflicts h common registry) b2")
  let ?c = "ic \<and> \<not> conflict"
  have r: "\<forall>x. registry = Some x \<longrightarrow> registry_texts_ok x"
    using owned_registry_texts [OF assms(1,2)] o1 by blast
  have v: "\<forall>x. view = Some x \<longrightarrow> view_texts_ok x" using open_ledger_texts [OF assms(1)] o2 by blast
  have "(\<exists>v. view = Some v \<and>
      ob \<in> set (ledger_observations h v registry ?c (is_checkout scope) (is_configured_root scope))) \<or>
    outside_ledger ob"
    using assms(3) git_worktrees_outside [OF r, of h "is_checkout scope" "is_configured_root scope" ?c]
      configured_children_outside [OF r, of h "is_checkout scope" "is_configured_root scope" ?c]
    by (auto simp: discover_from_def o1 o2 o3 split_beta Let_def inventory_finish_def list_all_iff
        split: option.splits)
  then show ?thesis
  proof
    assume "\<exists>v. view = Some v \<and>
      ob \<in> set (ledger_observations h v registry ?c (is_checkout scope) (is_configured_root scope))"
    then obtain x where x: "view = Some x"
      "ob \<in> set (ledger_observations h x registry ?c (is_checkout scope) (is_configured_root scope))" by blast
    have "observation_wf ob" using ledger_observations_wf [OF _ r x(2)] v x(1) by blast
    moreover note ledger_observations_confirmed [OF x(2)]
    moreover have "\<exists>r v bs bs'. owned_registry h common held [] = (Some r, bs) \<and>
        open_ledger h (is_ledger scope) bs = (Some v, bs') \<and> identity_proved h scope common r v" if "?c"
      using confirm_identity_proved [of h scope registry view common b2 conflict b3] o1 o2 o3 that by metis
    ultimately show ?thesis by blast
  next
    assume "outside_ledger ob"
    then show ?thesis by (simp add: outside_ledger_def barred_without_place_def)
  qed
qed

lemma discovered:
  assumes "host_texts_ok h" and "\<forall>v. held = Some v \<longrightarrow> registry_texts_ok v"
    and ob: "ob \<in> set (if_observations (discover_inventory_with h scope held))"
  obtains common where "probe h (is_checkout scope) = Present"
    and "common_dir_of h (is_checkout scope) = Common_Ready common"
    and "ob \<in> set (if_observations (discover_from h scope held common))"
  using ob
  by (auto simp: discover_inventory_with_def inventory_finish_def split: if_splits common_dir.splits)

lemma discovered_lists:
  assumes "host_texts_ok h" and "\<forall>v. held = Some v \<longrightarrow> registry_texts_ok v"
  shows "list_all observation_wf (if_observations (discover_inventory_with h scope held))"
    and "list_all identity_needs_ledger (if_observations (discover_inventory_with h scope held))"
    and "list_all barred_without_place (if_observations (discover_inventory_with h scope held))"
  using discover_from_cases [OF assms] discovered [OF assms]
  by (auto simp: list_all_iff identity_needs_ledger_def) metis+

end
