(* ===== verification/Adapter_Cleanup.thy ===== *)
theory Adapter_Cleanup
  imports Adapter_Inventory
begin

text \<open>
  The safety observations and the digest-bound removal of
  \<open>meshloop-adapters/src/workspace/cleanup.rs\<close>.

  The first part reads one machine (\<open>host\<close> of \<open>Adapter_Host\<close>): what the file system and git say
  about the directory of every inventory entry, and the preview they give. The second part is
  \<open>apply_cleanup\<close>, which runs in a world that changes: the journal table is a list of rows, the
  calls of \<open>git worktree remove\<close> are kept in a log together with the world and the journal they
  were made in, and the world decides what every later read answers.
\<close>

section \<open>Reading git\<close>

text \<open>\<open>git_ok\<close> adds \<open>--no-optional-locks\<close>, so that looking takes no lock.\<close>

definition git_ok :: "host \<Rightarrow> path \<Rightarrow> string list \<Rightarrow> string option" where
  "git_ok h cwd args = res_ok (h_git h cwd (''--no-optional-locks'' # args))"

definition canonical_directory :: "host \<Rightarrow> path \<Rightarrow> path option" where
  "canonical_directory h p =
     (case h_meta h p of
        Io_Ok meta \<Rightarrow> if is_reparse meta \<or> \<not> fm_dir meta then None else h_canonicalize h p
      | _ \<Rightarrow> None)"

definition canonical_directory_or_file :: "host \<Rightarrow> path \<Rightarrow> path option" where
  "canonical_directory_or_file h p =
     (case h_meta h p of
        Io_Ok meta \<Rightarrow> if is_reparse meta then None else h_canonicalize h p
      | _ \<Rightarrow> None)"

definition safe_common_dir :: "host \<Rightarrow> path \<Rightarrow> path option" where
  "safe_common_dir h checkout =
     Option.bind (git_ok h checkout [''rev-parse'', ''--path-format=absolute'', ''--git-common-dir''])
       (\<lambda>bytes. Option.bind (from_utf8 bytes) (\<lambda>text0.
          let text = trim text0
          in if text = [] then None
             else canonical_directory h
               (if is_absolute (path_of text) then path_of text else path_join checkout (path_of text))))"

definition parse_oid :: "string \<Rightarrow> object_id option" where
  "parse_oid bytes = Option.bind (from_utf8 bytes) (\<lambda>text. res_ok (ObjectId_new (trim text)))"

definition read_retained_ref :: "host \<Rightarrow> path \<Rightarrow> git_ref" where
  "read_retained_ref h checkout =
     (case Option.bind (git_ok h checkout [''symbolic-ref'', ''--quiet'', ''HEAD''])
             (\<lambda>bytes. Option.bind (from_utf8 bytes) (\<lambda>text. res_ok (GitRef_new (trim text)))) of
        Some r \<Rightarrow> r
      | None \<Rightarrow> ''HEAD'')"

definition read_retained_commit :: "host \<Rightarrow> path \<Rightarrow> object_id option" where
  "read_retained_commit h checkout =
     Option.bind (git_ok h checkout [''rev-parse'', ''--verify'', ''--end-of-options'', ''HEAD'']) parse_oid"

definition unbound_repository :: lifecycle_id where
  "unbound_repository = ''unbound''"

section \<open>Observing one directory\<close>

text \<open>The derived \<open>Default\<close> of \<open>CleanupObservation\<close>.\<close>

definition default_observation :: cleanup_observation where
  "default_observation =
     \<lparr>co_dirty_tracked = False, co_dirty_untracked = False, co_unknown_ignored = False,
      co_commit = None, co_commit_reachable = False, co_commit_unproven = False,
      co_active_process = False, co_path_reparse = False, co_path_symlink = False,
      co_path_escape = False, co_path_outside_repository = False,
      co_missing_dependency = False, co_missing_recovery_object = False, co_receipt = None\<rparr>"

definition flagged :: "bool \<Rightarrow> bool \<Rightarrow> bool \<Rightarrow> bool \<Rightarrow> bool \<Rightarrow> cleanup_observation" where
  "flagged outside missing reparse symlink escape =
     default_observation
       \<lparr>co_path_outside_repository := outside, co_missing_dependency := missing,
        co_path_reparse := reparse, co_path_symlink := symlink, co_path_escape := escape\<rparr>"

definition content_unknown :: "cleanup_observation \<Rightarrow> cleanup_observation" where
  "content_unknown ob =
     ob\<lparr>co_dirty_tracked := True, co_dirty_untracked := True, co_unknown_ignored := True\<rparr>"

definition mark_status :: "string \<Rightarrow> cleanup_observation \<Rightarrow> cleanup_observation" where
  "mark_status xy ob =
     (if xy = ''??'' then ob\<lparr>co_dirty_untracked := True\<rparr>
      else if xy = ''!!'' then ob\<lparr>co_unknown_ignored := True\<rparr>
      else ob\<lparr>co_dirty_tracked := True\<rparr>)"

definition names_two_paths :: "string \<Rightarrow> bool" where
  "names_two_paths xy \<longleftrightarrow> CHR ''R'' \<in> set xy \<or> CHR ''C'' \<in> set xy"

text \<open>The observation as it was left and whether the listing was understood.\<close>

fun porcelain_walk :: "string list \<Rightarrow> cleanup_observation \<Rightarrow> cleanup_observation \<times> bool" where
  "porcelain_walk [] ob = (ob, True)"
| "porcelain_walk (r # rs) ob =
     (if length r < 4 \<or> r ! 2 \<noteq> CHR '' '' then (ob, False)
      else (let xy = take 2 r; ob' = mark_status xy ob
            in if names_two_paths xy
               then (case rs of [] \<Rightarrow> (ob', False) | _ # rs' \<Rightarrow> porcelain_walk rs' ob')
               else porcelain_walk rs ob'))"

definition status_parts :: "string \<Rightarrow> string list" where
  "status_parts bytes = filter (\<lambda>p. p \<noteq> []) (split_on (CHR 0x00) bytes)"

definition classify_porcelain :: "string \<Rightarrow> cleanup_observation \<Rightarrow> cleanup_observation \<times> bool" where
  "classify_porcelain bytes ob = porcelain_walk (status_parts bytes) ob"

definition status_args :: "string list" where
  "status_args = [''status'', ''--porcelain'', ''--ignored'', ''--untracked-files=all'', ''-z'']"

definition observe_status :: "host \<Rightarrow> path \<Rightarrow> cleanup_observation \<Rightarrow> cleanup_observation" where
  "observe_status h p ob =
     (case git_ok h p status_args of
        Some bytes \<Rightarrow>
          (let (ob', understood) = classify_porcelain bytes ob
           in if understood then ob' else content_unknown ob')
      | None \<Rightarrow> content_unknown ob)"

definition commit_reaches :: "host \<Rightarrow> path \<Rightarrow> object_id \<Rightarrow> object_id option \<Rightarrow> bool" where
  "commit_reaches h checkout commit retained =
     (case retained of
        None \<Rightarrow> False
      | Some r \<Rightarrow> git_ok h checkout [''merge-base'', ''--is-ancestor'', commit, r] \<noteq> None)"

definition observe_head :: "host \<Rightarrow> path \<Rightarrow> path \<Rightarrow> object_id option \<Rightarrow> cleanup_observation \<Rightarrow> cleanup_observation" where
  "observe_head h p checkout retained ob =
     (case Option.bind (git_ok h p [''rev-parse'', ''--verify'', ''--end-of-options'', ''HEAD'']) parse_oid of
        Some commit \<Rightarrow>
          ob\<lparr>co_commit_reachable := commit_reaches h checkout commit retained, co_commit := Some commit\<rparr>
      | None \<Rightarrow> ob\<lparr>co_commit_unproven := True\<rparr>)"

definition git_facts :: "host \<Rightarrow> path \<Rightarrow> path \<Rightarrow> object_id option \<Rightarrow> cleanup_observation" where
  "git_facts h p checkout retained =
     observe_head h p checkout retained (observe_status h p default_observation)"

definition contain_and_read ::
  "host \<Rightarrow> path \<Rightarrow> path \<Rightarrow> path \<Rightarrow> path option \<Rightarrow> object_id option \<Rightarrow> cleanup_observation" where
  "contain_and_read h p dir checkout checkout_canon retained =
     (case canonical_directory_or_file h p of
        None \<Rightarrow> flagged False False False False True
      | Some canonical \<Rightarrow>
          (case canonical_directory h dir of
             None \<Rightarrow> flagged False False False False True
           | Some dir_canon \<Rightarrow>
               if \<not> path_starts_with canonical dir_canon then flagged False False False False True
               else if \<not> (case checkout_canon of None \<Rightarrow> False | Some c \<Rightarrow> path_starts_with canonical c)
               then flagged True False False False False
               else git_facts h p checkout retained))"

definition location_root ::
  "host \<Rightarrow> inventory_location \<Rightarrow> path \<Rightarrow> path \<Rightarrow> registry_view option \<Rightarrow> path option" where
  "location_root h location checkout configured_root registry =
     (case il_scope location of
        Scp_Repository \<Rightarrow> Some checkout
      | Scp_ConfiguredRoot \<Rightarrow> Some configured_root
      | Scp_LedgerRoot \<Rightarrow>
          Option.bind (il_root_alias location) (\<lambda>alias.
            Option.bind registry (\<lambda>view.
              Option.bind (map_of (rv_roots view) alias) (\<lambda>r.
                if live_root h r then Some (rt_path r) else None))))"

definition observe_entry ::
  "host \<Rightarrow> path \<Rightarrow> path \<Rightarrow> registry_view option \<Rightarrow> path option \<Rightarrow> object_id option \<Rightarrow>
    inventory_entry \<Rightarrow> cleanup_observation" where
  "observe_entry h checkout configured_root registry checkout_canon retained entry =
     (if ie_withheld entry then flagged True False False False False
      else (case ie_location entry of
              None \<Rightarrow> default_observation
            | Some location \<Rightarrow>
                (case location_root h location checkout configured_root registry of
                   None \<Rightarrow> flagged True True False False False
                 | Some dir \<Rightarrow>
                     (let p = join_relative dir (il_relative_path location)
                      in case probe_path h p of
                           Probe_Reparse symlink \<Rightarrow> flagged False False True symlink False
                         | Probe_Missing \<Rightarrow> flagged False True False False False
                         | Probe_Inaccessible \<Rightarrow> flagged True False False False True
                         | Probe_Present \<Rightarrow> contain_and_read h p dir checkout checkout_canon retained))))"

record observed_cleanup =
  oc_repository_id :: lifecycle_id
  oc_retained_ref :: git_ref
  oc_retained_commit :: "object_id option"
  oc_observations :: "cleanup_observation list"

definition cleanup_registry :: "host \<Rightarrow> path \<Rightarrow> registry_view option \<Rightarrow> registry_view option" where
  "cleanup_registry h checkout held =
     (case held of
        Some view \<Rightarrow> Some view
      | None \<Rightarrow>
          Option.bind (safe_common_dir h checkout) (\<lambda>dir.
            (case read_registry h (path_join dir (path_of REGISTRY)) of Inl _ \<Rightarrow> None | Inr view \<Rightarrow> view)))"

definition observe_cleanup_with ::
  "host \<Rightarrow> inventory_scope \<Rightarrow> inventory_entry list \<Rightarrow> registry_view option \<Rightarrow> observed_cleanup" where
  "observe_cleanup_with h scope entries held =
     (let registry = cleanup_registry h (is_checkout scope) held;
          retained_commit = read_retained_commit h (is_checkout scope)
      in \<lparr>oc_repository_id =
            (case registry of Some view \<Rightarrow> rr_id (rv_repository view) | None \<Rightarrow> unbound_repository),
          oc_retained_ref = read_retained_ref h (is_checkout scope),
          oc_retained_commit = retained_commit,
          oc_observations =
            map (observe_entry h (is_checkout scope) (is_configured_root scope) registry
                   (canonical_directory h (is_checkout scope)) retained_commit) entries\<rparr>)"

definition preview_with ::
  "host \<Rightarrow> inventory_scope \<Rightarrow> registry_view option \<Rightarrow> inventory_entry list \<times> observed_cleanup" where
  "preview_with h scope held =
     (let entries = ir_entries (classify (discover_inventory_with h scope held))
      in (entries, observe_cleanup_with h scope entries held))"

definition verdict ::
  "(string \<Rightarrow> string) \<Rightarrow> inventory_entry list \<Rightarrow> observed_cleanup \<Rightarrow> cleanup_preview" where
  "verdict sha entries observed =
     cleanup_preview_of sha (oc_repository_id observed) (oc_retained_ref observed)
       (oc_retained_commit observed) entries (oc_observations observed) None"

section \<open>What an eligible verdict says of the machine\<close>

definition clean_flags :: "cleanup_observation \<Rightarrow> bool" where
  "clean_flags ob \<longleftrightarrow> \<not> co_dirty_tracked ob \<and> \<not> co_dirty_untracked ob \<and> \<not> co_unknown_ignored ob"

lemma mark_status_dirty [simp]: "\<not> clean_flags (mark_status xy ob)"
  by (simp add: mark_status_def clean_flags_def)

lemma porcelain_walk_keeps_dirt: "\<not> clean_flags ob \<Longrightarrow> \<not> clean_flags (fst (porcelain_walk rs ob))"
  by (induction rs ob rule: porcelain_walk.induct) (auto simp: Let_def split: list.splits)

lemma porcelain_walk_clean:
  "porcelain_walk rs ob = (ob', True) \<Longrightarrow> clean_flags ob' \<Longrightarrow> rs = []"
proof (cases rs)
  case (Cons r rest)
  assume w: "porcelain_walk rs ob = (ob', True)" and c: "clean_flags ob'"
  have "\<not> clean_flags (fst (porcelain_walk xs (mark_status (take 2 r) ob)))" for xs
    by (rule porcelain_walk_keeps_dirt) simp
  then show ?thesis using w c Cons by (auto simp: Let_def split: if_splits list.splits) (metis fst_conv)+
qed simp

lemma observe_status_clean:
  assumes "clean_flags (observe_status h p ob)"
  obtains bytes where "git_ok h p status_args = Some bytes" "status_parts bytes = []"
proof (cases "git_ok h p status_args")
  case None
  then show ?thesis using assms by (simp add: observe_status_def content_unknown_def clean_flags_def)
next
  case (Some bytes)
  obtain ob' u where c: "classify_porcelain bytes ob = (ob', u)" by fastforce
  have "u \<and> clean_flags ob'"
    using assms Some c by (cases u) (auto simp: observe_status_def content_unknown_def clean_flags_def)
  then have "status_parts bytes = []" using c porcelain_walk_clean by (auto simp: classify_porcelain_def)
  with Some show ?thesis by (rule that)
qed

text \<open>
  A directory git may remove: no link on the way to it, inside its root and inside the checkout
  after links are resolved, nothing in \<open>git status\<close>, and a commit the checkout still reaches.
\<close>

definition head_of :: "host \<Rightarrow> path \<Rightarrow> object_id option" where
  "head_of h p =
     Option.bind (git_ok h p [''rev-parse'', ''--verify'', ''--end-of-options'', ''HEAD'']) parse_oid"

definition safe_directory :: "host \<Rightarrow> path \<Rightarrow> path \<Rightarrow> path \<Rightarrow> bool" where
  "safe_directory h checkout dir p \<longleftrightarrow>
     probe_path h p = Probe_Present \<and>
     (\<exists>canonical dir_canon checkout_canon.
        h_canonicalize h p = Some canonical \<and> h_canonicalize h dir = Some dir_canon \<and>
        h_canonicalize h checkout = Some checkout_canon \<and>
        path_starts_with canonical dir_canon \<and> path_starts_with canonical checkout_canon) \<and>
     (\<exists>bytes. git_ok h p status_args = Some bytes \<and> status_parts bytes = []) \<and>
     (\<exists>commit retained. head_of h p = Some commit \<and> head_of h checkout = Some retained \<and>
        git_ok h checkout [''merge-base'', ''--is-ancestor'', commit, retained] \<noteq> None)"

lemma canonical_directory_Some: "canonical_directory h p = Some c \<Longrightarrow> h_canonicalize h p = Some c"
  by (auto simp: canonical_directory_def split: io.splits if_splits)

lemma canonical_directory_or_file_Some: "canonical_directory_or_file h p = Some c \<Longrightarrow> h_canonicalize h p = Some c"
  by (auto simp: canonical_directory_or_file_def split: io.splits if_splits)

lemma observe_status_fields [simp]:
  "co_commit (observe_status h p default_observation) = None"
  "co_commit_unproven (observe_status h p default_observation) = False"
proof -
  have "co_commit (fst (porcelain_walk rs ob)) = co_commit ob \<and>
      co_commit_unproven (fst (porcelain_walk rs ob)) = co_commit_unproven ob" for rs ob
    by (induction rs ob rule: porcelain_walk.induct) (auto simp: Let_def mark_status_def split: list.splits)
  from this [of "status_parts bytes" default_observation for bytes]
  show "co_commit (observe_status h p default_observation) = None"
    "co_commit_unproven (observe_status h p default_observation) = False"
    by (auto simp: observe_status_def content_unknown_def classify_porcelain_def default_observation_def
        split_beta split: option.splits)
qed

lemma git_facts_clean:
  assumes clean: "clean_flags (git_facts h p checkout retained)" "\<not> co_commit_unproven (git_facts h p checkout retained)"
    and reach: "co_commit (git_facts h p checkout retained) = None \<or> co_commit_reachable (git_facts h p checkout retained)"
  shows "(\<exists>bytes. git_ok h p status_args = Some bytes \<and> status_parts bytes = []) \<and>
    (\<exists>commit r. head_of h p = Some commit \<and> retained = Some r \<and>
       git_ok h checkout [''merge-base'', ''--is-ancestor'', commit, r] \<noteq> None)"
proof
  have "clean_flags (observe_status h p default_observation)"
    using clean(1) by (auto simp: git_facts_def observe_head_def clean_flags_def split: option.splits)
  then show "\<exists>bytes. git_ok h p status_args = Some bytes \<and> status_parts bytes = []"
    using observe_status_clean by metis
  obtain commit where "head_of h p = Some commit"
    using clean(2) by (cases "head_of h p") (auto simp: git_facts_def observe_head_def head_of_def)
  then show "\<exists>commit r. head_of h p = Some commit \<and> retained = Some r \<and>
       git_ok h checkout [''merge-base'', ''--is-ancestor'', commit, r] \<noteq> None"
    using reach
    by (auto simp: git_facts_def observe_head_def head_of_def commit_reaches_def split: option.splits)
qed

lemma observe_entry_safe:
  assumes l: "ie_location entry = Some l" and w: "\<not> ie_withheld entry"
    and ob: "ob = observe_entry h checkout configured registry (canonical_directory h checkout)
      (read_retained_commit h checkout) entry"
    and flags: "clean_flags ob" "\<not> co_commit_unproven ob" "co_commit ob = None \<or> co_commit_reachable ob"
      "\<not> co_path_reparse ob" "\<not> co_path_escape ob" "\<not> co_path_outside_repository ob"
      "\<not> co_missing_dependency ob"
  shows "\<exists>dir. location_root h l checkout configured registry = Some dir \<and>
    safe_directory h checkout dir (join_relative dir (il_relative_path l))"
proof -
  obtain dir where dir: "location_root h l checkout configured registry = Some dir"
    using flags l w ob by (cases "location_root h l checkout configured registry")
      (auto simp: observe_entry_def flagged_def)
  let ?p = "join_relative dir (il_relative_path l)" and ?r = "read_retained_commit h checkout"
  have p: "probe_path h ?p = Probe_Present" "ob = contain_and_read h ?p dir checkout (canonical_directory h checkout) ?r"
    using flags l w ob dir
    by (cases "probe_path h ?p"; auto simp: observe_entry_def flagged_def Let_def)+
  obtain c where c: "canonical_directory_or_file h ?p = Some c"
    using p flags by (cases "canonical_directory_or_file h ?p") (auto simp: contain_and_read_def flagged_def)
  obtain d where d: "canonical_directory h dir = Some d" "path_starts_with c d"
    using p flags c by (cases "canonical_directory h dir")
      (auto simp: contain_and_read_def flagged_def split: if_splits)
  obtain k where k: "canonical_directory h checkout = Some k" "path_starts_with c k"
    using p flags c d by (cases "canonical_directory h checkout")
      (auto simp: contain_and_read_def flagged_def split: if_splits)
  have g: "ob = git_facts h ?p checkout ?r" using p c d k by (simp add: contain_and_read_def)
  have r: "head_of h checkout = ?r" by (simp add: head_of_def read_retained_commit_def)
  have "safe_directory h checkout dir ?p"
    unfolding safe_directory_def
  proof (intro conjI)
    show "probe_path h ?p = Probe_Present" by (rule p(1))
    show "\<exists>canonical dir_canon checkout_canon. h_canonicalize h ?p = Some canonical \<and>
        h_canonicalize h dir = Some dir_canon \<and> h_canonicalize h checkout = Some checkout_canon \<and>
        path_starts_with canonical dir_canon \<and> path_starts_with canonical checkout_canon"
      using canonical_directory_or_file_Some [OF c] canonical_directory_Some [OF d(1)]
        canonical_directory_Some [OF k(1)] d(2) k(2) by blast
  qed (use git_facts_clean [of h ?p checkout ?r] flags(1-3) in \<open>simp_all add: g [symmetric] r\<close>)
  with dir show ?thesis by blast
qed

text \<open>The registry the collector used and the ledger it opened, when they prove the identity.\<close>

definition repository_proved :: "host \<Rightarrow> inventory_scope \<Rightarrow> registry_view option \<Rightarrow> bool" where
  "repository_proved h scope held \<longleftrightarrow>
     (\<exists>common r v bs bs'. common_dir_of h (is_checkout scope) = Common_Ready common \<and>
        owned_registry h common held [] = (Some r, bs) \<and>
        open_ledger h (is_ledger scope) bs = (Some v, bs') \<and> identity_proved h scope common r v)"

definition ledger_names :: "host \<Rightarrow> inventory_scope \<Rightarrow> registry_view option \<Rightarrow> inventory_location \<Rightarrow> bool" where
  "ledger_names h scope held l \<longleftrightarrow>
     (\<exists>ob \<in> set (if_observations (discover_inventory_with h scope held)).
        ob_ledger_record ob \<and> ob_identity_confirmed ob \<and> ob_location ob = Some l)"

definition location_safe :: "host \<Rightarrow> inventory_scope \<Rightarrow> registry_view option \<Rightarrow> inventory_location \<Rightarrow> path \<Rightarrow> bool" where
  "location_safe h scope held l p \<longleftrightarrow>
     (\<exists>dir. location_root h l (is_checkout scope) (is_configured_root scope)
        (cleanup_registry h (is_checkout scope) held) = Some dir \<and>
      p = join_relative dir (il_relative_path l) \<and> safe_directory h (is_checkout scope) dir p)"

lemma observations_at:
  "i < length entries \<Longrightarrow>
     oc_observations (observe_cleanup_with h scope entries held) ! i =
       observe_entry h (is_checkout scope) (is_configured_root scope)
         (cleanup_registry h (is_checkout scope) held) (canonical_directory h (is_checkout scope))
         (read_retained_commit h (is_checkout scope)) (entries ! i)"
  by (simp add: observe_cleanup_with_def Let_def)

lemma length_observations [simp]:
  "length (oc_observations (observe_cleanup_with h scope entries held)) = length entries"
  by (simp add: observe_cleanup_with_def Let_def)

lemma preview_eligible:
  assumes h: "host_texts_ok h" and held: "\<forall>v. held = Some v \<longrightarrow> registry_texts_ok v"
    and pv: "preview_with h scope held = (entries, observed)"
    and c: "c \<in> set (cp_candidates (verdict sha entries observed))" and el: "pv_status c = CE_Eligible"
  obtains i l p where "i < length entries" and "ie_location (entries ! i) = Some l" and "pv_location c = Some l"
    and "location_safe h scope held l p" and "repository_proved h scope held" and "ledger_names h scope held l"
proof -
  let ?facts = "discover_inventory_with h scope held"
  let ?obs = "if_observations ?facts"
  have entries: "entries = ir_entries (classify ?facts)"
    and observed: "observed = observe_cleanup_with h scope entries held"
    using pv by (auto simp: preview_with_def Let_def)
  obtain i m stale where i: "i < length entries" and m: "m \<in> set (merge ?obs)"
    and ci: "c = candidate_preview (observed_candidate (entries ! i) (observation_at (oc_observations observed) i)) stale"
    and e: "entries ! i = classify_one (Blk_IdentityConflict \<notin> set (if_command_blockers ?facts)) m"
    and own: "Blk_IdentityConflict \<notin> set (if_command_blockers ?facts) \<and> ob_ledger_record m \<and>
      ob_identity_confirmed m \<and> \<not> ob_legacy_marker m \<and> \<not> ob_driver_active m \<and> ob_presence m = Present"
    using eligible_position [OF c [unfolded verdict_def entries] el] unfolding entries by metis
  define s where "s = observe_entry h (is_checkout scope) (is_configured_root scope)
    (cleanup_registry h (is_checkout scope) held) (canonical_directory h (is_checkout scope))
    (read_retained_commit h (is_checkout scope)) (entries ! i)"
  have s: "observation_at (oc_observations observed) i = s"
    using i by (simp add: observed observation_at_def observations_at s_def)
  have "reasons_for (observed_candidate (entries ! i) s) stale = []" using el ci s by (simp add: preview_status)
  then have flags: "clean_flags s" "\<not> co_commit_unproven s" "co_commit s = None \<or> co_commit_reachable s"
    "\<not> co_path_reparse s" "\<not> co_path_escape s" "\<not> co_path_outside_repository s" "\<not> co_missing_dependency s"
    and w: "\<not> ie_withheld (entries ! i)"
    by (auto simp: reasons_for_Nil observed_candidate_def unique_commit_def unsafe_path_def
        missing_dependency_def clean_flags_def)
  note lists = discovered_lists [OF h held, of scope]
  have "ob_location m \<noteq> None"
  proof
    assume none: "ob_location m = None"
    then have "barred_without_place m" using merge_loose [OF m] lists(3) by (simp add: list_all_iff)
    then show False using none own w e by (auto simp: barred_without_place_def)
  qed
  then obtain l where l: "ob_location m = Some l" by blast
  obtain ob where ob: "ob \<in> set ?obs" "ob_ledger_record ob" "ob_identity_confirmed ob" "ob_location ob = Some l"
    using merge_identity [OF lists(2,1) m] own l by auto
  have li: "ie_location (entries ! i) = Some l" using e l by simp
  have "repository_proved h scope held"
    using discovered [OF h held ob(1)] discover_from_cases [OF h held] ob(3)
    unfolding repository_proved_def by metis
  moreover have "ledger_names h scope held l" using ob by (auto simp: ledger_names_def)
  moreover have "pv_location c = Some l" using ci li by (simp add: candidate_preview_def Let_def observed_candidate_def)
  moreover obtain dir where "location_safe h scope held l (join_relative dir (il_relative_path l))"
    using observe_entry_safe [OF li w s_def [unfolded s_def] flags [unfolded s_def]] by (auto simp: location_safe_def)
  ultimately show ?thesis using that i li by blast
qed

section \<open>A sample machine\<close>

text \<open>
  A checkout \<open>/r\<close> with one worktree \<open>/r/w/g\<close> that a generation of the ledger owns; \<open>gone\<close> tells
  whether the worktree was removed.
\<close>

definition sample_identity :: native_identity where
  "sample_identity = replicate 64 (CHR ''a'')"

definition sample_ledger :: ledger where
  "sample_ledger =
     \<lparr>lg_store = empty_store, lg_database_identity = None,
      lg_repositories = [(\<lparr>rr_id = ''repo'', rr_common_dir_identity = sample_identity\<rparr>, sample_identity)],
      lg_roots = [], lg_generations =
        [\<lparr>gn_id = ''gen'', gn_repository_id = ''repo'', gn_graph_id = ''g-1'', gn_ordinal = 0,
          gn_accepted_plan_hash = sample_identity, gn_root_alias = ''main'', gn_relative_path = ''g'',
          gn_layout_version = 1\<rparr>],
      lg_artifacts = [], lg_dependencies = [], lg_facts = [], lg_journal = [], lg_bindings = [],
      lg_provisionals = [], lg_revisions = [], lg_authorizations = [], lg_generation_revisions = [],
      lg_promotions = [], lg_operations = [], lg_steps = [], lg_drivers = [], lg_requests = [],
      lg_artifact_bindings = [], lg_next_attempt = 1, lg_attempt_scopes = [], lg_attempt_metadata = [],
      lg_event_scopes = []\<rparr>"

definition sample_manifest :: manifest where
  "sample_manifest =
     \<lparr>mf_pending_roots = [], mf_version = 1,
      mf_repository = \<lparr>rr_id = ''repo'', rr_common_dir_identity = sample_identity\<rparr>,
      mf_common = \<lparr>lr_canonical_path = path_of ''/r/.git'', lr_native_identity = sample_identity\<rparr>,
      mf_ledger = \<lparr>lr_canonical_path = path_of ''/r/l.db'', lr_native_identity = sample_identity\<rparr>,
      mf_roots = [(''main'', \<lparr>lr_canonical_path = path_of ''/r/w'', lr_native_identity = sample_identity\<rparr>)]\<rparr>"

definition sample_scope :: inventory_scope where
  "sample_scope =
     \<lparr>is_checkout = path_of ''/r'', is_ledger = path_of ''/r/l.db'', is_configured_root = path_of ''/r/w''\<rparr>"

definition sample_meta :: "bool \<Rightarrow> path \<Rightarrow> file_meta io" where
  "sample_meta gone p =
     (if p \<in> set (map path_of ([''/'', ''/r'', ''/r/.git'', ''/r/w''] @ (if gone then [] else [''/r/w/g''])))
      then Io_Ok \<lparr>fm_symlink = False, fm_reparse_attribute = False, fm_dir = True, fm_file = False\<rparr>
      else if p \<in> set (map path_of [''/r/l.db'', ''/r/.git/'' @ REGISTRY])
      then Io_Ok \<lparr>fm_symlink = False, fm_reparse_attribute = False, fm_dir = False, fm_file = True\<rparr>
      else Io_NotFound)"

definition sample_git :: "bool \<Rightarrow> path \<Rightarrow> string list \<Rightarrow> string option" where
  "sample_git gone cwd args =
     (if ''--git-common-dir'' \<in> set args then Some ''/r/.git''
      else if ''worktree'' \<in> set args then
        Some (join_with [CHR 0x00] (if gone then [''worktree /r''] else [''worktree /r'', '''', ''worktree /r/w/g'']))
      else if ''status'' \<in> set args then Some []
      else if ''rev-parse'' \<in> set args then Some (replicate 40 (CHR ''b''))
      else if ''symbolic-ref'' \<in> set args then Some ''refs/heads/main''
      else Some [])"

definition sample_host :: "bool \<Rightarrow> host" where
  "sample_host gone =
     \<lparr>h_meta = sample_meta gone, h_canonicalize = Some, h_file_id = (\<lambda>p. Some (path_text p)),
      h_sha256 = (\<lambda>_. sample_identity),
      h_read_dir = (\<lambda>p. Some (if gone then [] else [Some (path_of ''/r/w/g'', Some ''g'')])),
      h_read_file = (\<lambda>p. Some []), h_parse_manifest = (\<lambda>_. Some sample_manifest),
      h_git = (\<lambda>cwd args. ok_or (sample_git gone cwd args) refused), h_open_ledger = (\<lambda>p. Inr (Some (sample_ledger, True)))\<rparr>"


definition sample_registry :: registry_view where
  "sample_registry = registry_view_of sample_manifest"

definition sample_view :: ledger_view where
  "sample_view = (case load_ledger (sample_ledger, True) of Inr v \<Rightarrow> v)"

definition sample_location :: inventory_location where
  "sample_location = \<lparr>il_scope = Scp_LedgerRoot, il_root_alias = Some ''main'', il_relative_path = ''g''\<rparr>"

definition sample_owned :: observation where
  "sample_owned =
     \<lparr>ob_source = Src_Generation, ob_graph_id = Some ''g-1'', ob_lifecycle_id = Some ''gen'',
      ob_location = Some sample_location, ob_withheld = False, ob_presence = Present,
      ob_legacy_marker = False, ob_ledger_record = True, ob_identity_confirmed = True,
      ob_git_registered = False, ob_driver_active = False, ob_configured_entry = False\<rparr>"

definition sample_listed :: observation where
  "sample_listed =
     \<lparr>ob_source = Src_GitWorktree, ob_graph_id = None, ob_lifecycle_id = None,
      ob_location = Some \<lparr>il_scope = Scp_Repository, il_root_alias = None, il_relative_path = ''w/g''\<rparr>,
      ob_withheld = False, ob_presence = Present, ob_legacy_marker = False, ob_ledger_record = False,
      ob_identity_confirmed = False, ob_git_registered = True, ob_driver_active = False,
      ob_configured_entry = False\<rparr>"

definition sample_child :: observation where
  "sample_child = configured_observation
     (Some \<lparr>il_scope = Scp_ConfiguredRoot, il_root_alias = None, il_relative_path = ''g''\<rparr>) Present False"

lemma sample_texts: "host_texts_ok (sample_host gone)"
proof -
  have "ledger_texts_ok sample_ledger" "registry_texts_ok sample_registry" by code_simp+
  then show ?thesis by (simp add: host_texts_ok_def sample_host_def sample_registry_def)
qed

lemma sample_held_texts: "registry_texts_ok sample_registry"
  by code_simp

lemma sample_read_registry: "owned_registry (sample_host False) (path_of ''/r/.git'') None [] = (Some sample_registry, [])"
proof -
  let ?h = "sample_host False"
  have m: "h_meta ?h (path_join (path_of ''/r/.git'') (path_of REGISTRY)) =
      Io_Ok \<lparr>fm_symlink = False, fm_reparse_attribute = False, fm_dir = False, fm_file = True\<rparr>" by code_simp
  have r: "read_manifest ?h p = Inr sample_manifest" for p
    by (simp add: read_manifest_def sample_host_def MAX_MANIFEST_def)
  have v: "mf_version sample_manifest = 1" by (simp add: sample_manifest_def)
  show ?thesis by (simp add: owned_registry_def read_registry_def m r v sample_registry_def)
qed

lemma sample_open_ledger: "open_ledger (sample_host False) (path_of ''/r/l.db'') [] = (Some sample_view, [])"
  by code_simp

lemma sample_conflicts: "registry_conflicts (sample_host False) (path_of ''/r/.git'') (Some sample_registry) = False"
  by code_simp

lemma sample_confirm:
  "confirm_identity (sample_host False) (path_of ''/r/l.db'') (Some sample_registry) (Some sample_view) False [] =
     (True, False, [])"
  by code_simp

lemma sample_ledger_observations:
  "ledger_observations (sample_host False) sample_view (Some sample_registry) True (path_of ''/r'') (path_of ''/r/w'') =
     [sample_owned]"
  by code_simp

lemma sample_worktrees:
  "git_worktrees (sample_host False) (path_of ''/r'') (path_of ''/r/w'') (Some sample_registry) True [] =
     ([sample_listed], [])"
  by code_simp

lemma sample_children:
  "configured_children (sample_host False) (path_of ''/r'') (path_of ''/r/w'') (Some sample_registry) True [] =
     ([sample_child], [])"
  by code_simp

lemma sample_scope_fields:
  "is_checkout sample_scope = path_of ''/r''" "is_ledger sample_scope = path_of ''/r/l.db''"
  "is_configured_root sample_scope = path_of ''/r/w''"
  by (simp_all add: sample_scope_def)

definition sample_facts :: inventory_facts where
  "sample_facts = \<lparr>if_command_blockers = [], if_observations = [sample_owned, sample_listed, sample_child]\<rparr>"

lemma sample_discover:
  assumes "held = None \<or> held = Some sample_registry"
  shows "discover_inventory_with (sample_host False) sample_scope held = sample_facts"
proof -
  have p: "probe (sample_host False) (path_of ''/r'') = Present" by code_simp
  have c: "common_dir_of (sample_host False) (path_of ''/r'') = Common_Ready (path_of ''/r/.git'')" by code_simp
  have o1: "owned_registry (sample_host False) (path_of ''/r/.git'') held [] = (Some sample_registry, [])"
    using assms sample_read_registry by (auto simp: owned_registry_def)
  have "discover_from (sample_host False) sample_scope held (path_of ''/r/.git'') = sample_facts"
    by (simp add: discover_from_def sample_scope_fields o1 sample_open_ledger sample_conflicts sample_confirm
        sample_ledger_observations sample_worktrees sample_children inventory_finish_def sample_facts_def)
  then show ?thesis by (simp add: discover_inventory_with_def sample_scope_fields p c)
qed

definition sample_entries :: "inventory_entry list" where
  "sample_entries = ir_entries (classify sample_facts)"

definition sample_clean :: cleanup_observation where
  "sample_clean = default_observation
     \<lparr>co_commit := Some (replicate 40 (CHR ''b'')), co_commit_reachable := True\<rparr>"

definition sample_observed :: observed_cleanup where
  "sample_observed =
     \<lparr>oc_repository_id = ''repo'', oc_retained_ref = ''refs/heads/main'',
      oc_retained_commit = Some (replicate 40 (CHR ''b'')),
      oc_observations = [sample_clean, sample_clean, sample_clean]\<rparr>"

lemma sample_registry_found:
  assumes "held = None \<or> held = Some sample_registry"
  shows "cleanup_registry (sample_host False) (path_of ''/r'') held = Some sample_registry"
proof -
  have c: "safe_common_dir (sample_host False) (path_of ''/r'') = Some (path_of ''/r/.git'')" by code_simp
  have "read_registry (sample_host False) (path_join (path_of ''/r/.git'') (path_of REGISTRY)) = Inr (Some sample_registry)"
    using sample_read_registry by (auto simp: owned_registry_def split: sum.splits option.splits)
  then show ?thesis using assms by (auto simp: cleanup_registry_def c)
qed

lemma sample_preview:
  assumes "held = None \<or> held = Some sample_registry"
  shows "preview_with (sample_host False) sample_scope held = (sample_entries, sample_observed)"
proof -
  have e: "ir_entries (classify (discover_inventory_with (sample_host False) sample_scope held)) = sample_entries"
    by (simp add: sample_discover [OF assms] sample_entries_def)
  have c: "read_retained_commit (sample_host False) (path_of ''/r'') = Some (replicate 40 (CHR ''b''))" by code_simp
  have r: "read_retained_ref (sample_host False) (path_of ''/r'') = ''refs/heads/main''" by code_simp
  have d: "canonical_directory (sample_host False) (path_of ''/r'') = Some (path_of ''/r'')" by code_simp
  have o3: "map (observe_entry (sample_host False) (path_of ''/r'') (path_of ''/r/w'') (Some sample_registry)
      (Some (path_of ''/r'')) (Some (replicate 40 (CHR ''b'')))) sample_entries =
    [sample_clean, sample_clean, sample_clean]" by code_simp
  have i: "rr_id (rv_repository sample_registry) = ''repo''" by code_simp
  show ?thesis
    unfolding preview_with_def Let_def e
    by (simp add: observe_cleanup_with_def sample_scope_fields sample_registry_found [OF assms] c r d o3 i
        sample_observed_def)
qed

definition sample_sha :: "string \<Rightarrow> string" where
  "sample_sha text = sample_identity"

text \<open>
  C10. From the machine to the verdict: when a cleanup preview calls a candidate eligible, the
  registry and the one repository row of the ledger agree on an identity that the machine
  confirms, a ledger record with that identity names the candidate's location, nothing on the
  way to the directory is a link, it resolves to a place inside its root and inside the
  checkout, \<open>git status\<close> listed nothing there, and its commit is an ancestor of the commit of the
  checkout. This discharges, for the collector of the code, what the classification assumes of
  its observations.
\<close>

theorem eligible_directory_is_safe:
  assumes "host_texts_ok h" and "\<forall>v. held = Some v \<longrightarrow> registry_texts_ok v"
    and "c \<in> set (cp_candidates (verdict sha (fst (preview_with h scope held)) (snd (preview_with h scope held))))"
    and "pv_status c = CE_Eligible"
  shows "repository_proved h scope held \<and>
    (\<exists>l p. pv_location c = Some l \<and> ledger_names h scope held l \<and> location_safe h scope held l p)"
  using preview_eligible [OF assms(1,2) prod.collapse [symmetric] assms(3,4)] by metis

definition candidate_head ::
  "cleanup_candidate_preview \<Rightarrow> lifecycle_id option \<times> entry_source \<times> inventory_location option \<times> cleanup_eligibility" where
  "candidate_head c = (pv_lifecycle_id c, pv_source c, pv_location c, pv_status c)"

lemma sample_verdict:
  "map candidate_head (cp_candidates (verdict sample_sha sample_entries sample_observed)) =
     [(None, Src_ConfiguredEntry, ob_location sample_child, CE_Blocked),
      (None, Src_GitWorktree, ob_location sample_listed, CE_Blocked),
      (Some ''gen'', Src_Generation, Some sample_location, CE_Eligible)]"
  by code_simp

theorem eligible_directory_is_safe_witness:
  "\<exists>p. location_safe (sample_host False) sample_scope None sample_location p \<and>
     repository_proved (sample_host False) sample_scope None"
proof -
  let ?v = "cp_candidates (verdict sample_sha sample_entries sample_observed)"
  have "(Some ''gen'', Src_Generation, Some sample_location, CE_Eligible) \<in> set (map candidate_head ?v)"
    unfolding sample_verdict by simp
  then obtain c where c: "c \<in> set ?v" "pv_location c = Some sample_location" "pv_status c = CE_Eligible"
    by (auto simp: candidate_head_def)
  have pv: "preview_with (sample_host False) sample_scope None = (sample_entries, sample_observed)"
    by (rule sample_preview) simp
  have "c \<in> set (cp_candidates (verdict sample_sha (fst (preview_with (sample_host False) sample_scope None))
      (snd (preview_with (sample_host False) sample_scope None))))" using c(1) pv by simp
  from eligible_directory_is_safe [OF sample_texts _ this c(3)] c(2) show ?thesis by auto
qed

end
