(* ===== verification/Adapter_Cleanup_Apply.thy ===== *)
theory Adapter_Cleanup_Apply
  imports Adapter_Cleanup
begin

text \<open>
  \<open>apply_cleanup\<close> of \<open>meshloop-adapters/src/workspace/cleanup.rs\<close>: the removal of directories
  that a preview with a given digest called eligible.

  The run goes through a world that changes. \<open>cleanup_env\<close> says what the world answers and how
  its effects change it: the fence, the ledger connection and \<open>git worktree remove\<close>. The table
  \<open>cleanup_journal\<close> is a list of rows in the state of the run, and every call of
  \<open>git worktree remove\<close> is kept in a log with the world and the journal it was made in. Reads
  between two effects see one world. A token is the serialised \<open>BeforeToken\<close>; its encoder and
  decoder are derived by serde and stay parameters.
\<close>

section \<open>Journal, report and environment\<close>

type_synonym before = "inventory_entry \<times> cleanup_observation"

record before_token =
  tk_candidate :: before
  tk_aliases :: "before list"

record reconciled =
  kr_key :: string
  kr_token :: string
  kr_candidate :: before
  kr_aliases :: "before list"

record journal_row =
  jr_repo_id :: lifecycle_id
  jr_digest :: string
  jr_candidate_key :: string
  jr_step :: string
  jr_before_token :: string

datatype cleanup_fault = AfterIntent | AfterRemove

record cleanup_apply =
  ka_apply :: bool
  ka_digest :: string
  ka_candidates :: "cleanup_candidate_preview list"
  ka_status :: string
  ka_reasons :: "string list"

text \<open>
  \<open>ke_schema\<close> opens the ledger read-only and reads the version of its schema, \<open>ke_validate\<close>
  checks the schema of one version, \<open>ke_acquire\<close> takes the fence and returns its registry
  snapshot, \<open>ke_open\<close> opens the ledger for writing and migrates it, \<open>ke_writable\<close> tells whether an
  insert succeeds, and \<open>ke_remove\<close> runs \<open>git worktree remove\<close>.
\<close>

record 'w cleanup_env =
  ke_sha256 :: "string \<Rightarrow> string"
  ke_encode :: "before_token \<Rightarrow> string"
  ke_decode :: "string \<Rightarrow> before_token option"
  ke_host :: "'w \<Rightarrow> host"
  ke_exists :: "'w \<Rightarrow> path \<Rightarrow> bool"
  ke_is_file :: "'w \<Rightarrow> path \<Rightarrow> bool"
  ke_schema :: "'w \<Rightarrow> path \<Rightarrow> store_error + nat option"
  ke_validate :: "'w \<Rightarrow> path \<Rightarrow> nat \<Rightarrow> store_error + unit"
  ke_acquire :: "path \<Rightarrow> path \<Rightarrow> 'w \<Rightarrow> 'w \<times> (store_error + registry_view)"
  ke_open :: "path \<Rightarrow> 'w \<Rightarrow> 'w \<times> (store_error + unit)"
  ke_writable :: "'w \<Rightarrow> bool"
  ke_remove :: "path \<Rightarrow> path \<Rightarrow> 'w \<Rightarrow> 'w \<times> bool"

record 'w cleanup_state =
  ks_world :: 'w
  ks_journal :: "journal_row list"
  ks_removals :: "('w \<times> journal_row list \<times> path) list"

definition cleanup_error :: store_error where
  "cleanup_error = StoreIo ''cleanup operation failed''"

definition digest_shape :: "string \<Rightarrow> bool" where
  "digest_shape digest \<longleftrightarrow> length digest = 64 \<and> list_all hex_char digest"

definition blank_report :: "cleanup_preview \<Rightarrow> cleanup_apply" where
  "blank_report fresh =
     \<lparr>ka_apply = False, ka_digest = cp_digest fresh, ka_candidates = cp_candidates fresh,
      ka_status = ''blocked'', ka_reasons = []\<rparr>"

definition recovery :: "cleanup_apply \<Rightarrow> cleanup_apply" where
  "recovery report = report\<lparr>ka_status := ''recovery-required''\<rparr>"

section \<open>Where a candidate is and whether git knows it\<close>

definition candidate_path ::
  "host \<Rightarrow> inventory_scope \<Rightarrow> inventory_entry \<Rightarrow> registry_view option \<Rightarrow> path option" where
  "candidate_path h scope entry held =
     Option.bind (cleanup_registry h (is_checkout scope) held) (\<lambda>view.
       Option.bind (ie_location entry) (\<lambda>l.
         Option.bind (location_root h l (is_checkout scope) (is_configured_root scope) (Some view)) (\<lambda>dir.
           Some (join_relative dir (il_relative_path l)))))"

definition same_path_text :: "path \<Rightarrow> path \<Rightarrow> bool" where
  "same_path_text l r \<longleftrightarrow> path_text l = path_text r"

definition same_path :: "host \<Rightarrow> path \<Rightarrow> path \<Rightarrow> bool" where
  "same_path h l r =
     (same_path_text l r \<or>
      (case (h_canonicalize h l, h_canonicalize h r) of
         (Some a, Some b) \<Rightarrow> same_path_text a b
       | _ \<Rightarrow> False))"

definition trim_end_newlines :: "string \<Rightarrow> string" where
  "trim_end_newlines s = rev (dropWhile (\<lambda>c. c = CHR 0x0D \<or> c = CHR 0x0A) (rev s))"

definition same_worktree :: "host \<Rightarrow> string \<Rightarrow> path \<Rightarrow> bool" where
  "same_worktree h listed p =
     (case from_utf8 listed of
        None \<Rightarrow> False
      | Some text0 \<Rightarrow>
          (let text = trim_end_newlines text0
           in if text = [] then False else same_path h (path_of text) p))"

definition registered :: "host \<Rightarrow> inventory_scope \<Rightarrow> path \<Rightarrow> store_error + bool" where
  "registered h scope p =
     (case h_git h (is_checkout scope) [''worktree'', ''list'', ''--porcelain'', ''-z''] of
        Inl e \<Rightarrow> Inl e
      | Inr bytes \<Rightarrow>
          Inr (list_ex (\<lambda>r. case strip_prefix r ''worktree '' of
                             Some listed \<Rightarrow> same_worktree h listed p
                           | None \<Rightarrow> False) (split_on (CHR 0x00) bytes)))"

section \<open>Reconciling with the journal\<close>

text \<open>The query groups the rows of one candidate: blocked wins over completed, that over intent.\<close>

definition group_step :: "journal_row list \<Rightarrow> string" where
  "group_step rows =
     (if list_ex (\<lambda>r. jr_step r = ''blocked'') rows then ''blocked''
      else if list_ex (\<lambda>r. jr_step r = ''completed'') rows then ''completed''
      else ''intent'')"

definition journal_groups ::
  "lifecycle_id \<Rightarrow> string \<Rightarrow> journal_row list \<Rightarrow> (string \<times> string \<times> string) list" where
  "journal_groups repo digest journal =
     (let rows = filter (\<lambda>r. jr_repo_id r = repo \<and> jr_digest r = digest) journal
      in map (\<lambda>(key, token).
           (key, group_step (filter (\<lambda>r. jr_candidate_key r = key \<and> jr_before_token r = token) rows), token))
         (sort (remdups (map (\<lambda>r. (jr_candidate_key r, jr_before_token r)) rows))))"

definition read_journal ::
  "'w cleanup_env \<Rightarrow> inventory_scope \<Rightarrow> lifecycle_id \<Rightarrow> string \<Rightarrow> 'w cleanup_state \<Rightarrow>
    store_error + (string \<times> string \<times> string) list" where
  "read_journal env scope repo digest s =
     (if \<not> ke_exists env (ks_world s) (is_ledger scope) then Inr []
      else try_res (ke_schema env (ks_world s) (is_ledger scope)) (\<lambda>version.
        if version = Some 8 then
          try_res (ke_validate env (ks_world s) (is_ledger scope) 8)
            (\<lambda>_. Inr (journal_groups repo digest (ks_journal s)))
        else if version = Some 7 then
          try_res (ke_validate env (ks_world s) (is_ledger scope) 7) (\<lambda>_. Inr [])
        else Inl cleanup_error))"

datatype 'a reconcile_outcome = Rec_Fail store_error | Rec_Stop | Rec_Go 'a

fun find_position :: "('a \<Rightarrow> bool) \<Rightarrow> 'a list \<Rightarrow> nat option" where
  "find_position p [] = None"
| "find_position p (x # xs) = (if p x then Some 0 else map_option Suc (find_position p xs))"

definition same_candidate :: "inventory_entry \<Rightarrow> inventory_entry \<Rightarrow> bool" where
  "same_candidate a b \<longleftrightarrow>
     ie_lifecycle_id a = ie_lifecycle_id b \<and> ie_source a = ie_source b \<and> ie_location a = ie_location b"

definition restore_row ::
  "before \<Rightarrow> inventory_entry list \<times> cleanup_observation list \<Rightarrow>
    (inventory_entry list \<times> cleanup_observation list) option" where
  "restore_row row st =
     (let (entries, observations) = st
      in case find_position (\<lambda>e. same_candidate e (fst row)) entries of
           Some index \<Rightarrow>
             (let current = (entries ! index)
                \<lparr>ie_class := ie_class (fst row),
                 ie_blockers := filter (\<lambda>b. b \<noteq> Blk_PathMissing) (ie_blockers (entries ! index))\<rparr>
              in if current \<noteq> fst row then None
                 else Some (entries[index := fst row], observations[index := snd row]))
         | None \<Rightarrow>
             if ie_lifecycle_id (fst row) \<noteq> None then None
             else Some (entries @ [fst row], observations @ [snd row]))"

fun restore_rows ::
  "before list \<Rightarrow> inventory_entry list \<times> cleanup_observation list \<Rightarrow>
    (inventory_entry list \<times> cleanup_observation list) option" where
  "restore_rows [] st = Some st"
| "restore_rows (row # rows) st = Option.bind (restore_row row st) (restore_rows rows)"

type_synonym reconcile_state =
  "(inventory_entry list \<times> cleanup_observation list) \<times> reconciled list"

definition reconcile_one ::
  "'w cleanup_env \<Rightarrow> host \<Rightarrow> inventory_scope \<Rightarrow> string \<times> string \<times> string \<Rightarrow> reconcile_state \<Rightarrow>
    reconcile_state reconcile_outcome" where
  "reconcile_one env h scope row st =
     (let (key, step, token) = row; ((entries, observations), found) = st
      in case ke_decode env token of
           None \<Rightarrow> Rec_Fail cleanup_error
         | Some saved \<Rightarrow>
             (case candidate_path h scope (fst (tk_candidate saved)) None of
                None \<Rightarrow> Rec_Stop
              | Some p \<Rightarrow>
                  (case h_meta h p of
                     Io_Failed \<Rightarrow> Rec_Fail cleanup_error
                   | m \<Rightarrow>
                       (let present = (m \<noteq> Io_NotFound)
                        in case registered h scope p of
                             Inl e \<Rightarrow> Rec_Fail e
                           | Inr listed \<Rightarrow>
                               if step = ''blocked'' \<or> present \<noteq> listed \<or> (step = ''completed'' \<and> present)
                               then Rec_Stop
                               else if \<not> present then
                                 (case restore_rows (tk_candidate saved # tk_aliases saved)
                                         (entries, observations) of
                                    None \<Rightarrow> Rec_Stop
                                  | Some st' \<Rightarrow>
                                      Rec_Go (st', found @
                                        [\<lparr>kr_key = key, kr_token = token,
                                          kr_candidate = tk_candidate saved, kr_aliases = tk_aliases saved\<rparr>]))
                               else
                                 (case find_position (\<lambda>e. e = fst (tk_candidate saved)) entries of
                                    None \<Rightarrow> Rec_Stop
                                  | Some i \<Rightarrow>
                                      if observations ! i = snd (tk_candidate saved) then Rec_Go st
                                      else Rec_Stop)))))"

fun reconcile_all ::
  "'w cleanup_env \<Rightarrow> host \<Rightarrow> inventory_scope \<Rightarrow> (string \<times> string \<times> string) list \<Rightarrow> reconcile_state \<Rightarrow>
    reconcile_state reconcile_outcome" where
  "reconcile_all env h scope [] st = Rec_Go st"
| "reconcile_all env h scope (row # rows) st =
     (case reconcile_one env h scope row st of
        Rec_Fail e \<Rightarrow> Rec_Fail e
      | Rec_Stop \<Rightarrow> Rec_Stop
      | Rec_Go st' \<Rightarrow> reconcile_all env h scope rows st')"

section \<open>Removing\<close>

definition journal_put :: "journal_row \<Rightarrow> journal_row list \<Rightarrow> journal_row list" where
  "journal_put row journal =
     (if list_ex (\<lambda>r. jr_repo_id r = jr_repo_id row \<and> jr_digest r = jr_digest row \<and>
            jr_candidate_key r = jr_candidate_key row \<and> jr_step r = jr_step row) journal
      then journal else journal @ [row])"

record removal =
  rx_scope :: inventory_scope
  rx_repo_id :: lifecycle_id
  rx_digest :: string
  rx_held :: registry_view
  rx_entries :: "inventory_entry list"
  rx_observations :: "cleanup_observation list"
  rx_found :: "reconciled list"
  rx_fault :: "cleanup_fault option"
  rx_report :: cleanup_apply

text \<open>A step of the run: the state after it and, when the call returned, its result.\<close>

type_synonym 'w removal_step = "'w cleanup_state \<times> (store_error + cleanup_apply) option"

definition write_step ::
  "'w cleanup_env \<Rightarrow> removal \<Rightarrow> string \<Rightarrow> string \<Rightarrow> string \<Rightarrow> 'w cleanup_state \<Rightarrow>
    ('w cleanup_state \<Rightarrow> 'w removal_step) \<Rightarrow> 'w removal_step" where
  "write_step env ctx key step token s k =
     (if \<not> ke_writable env (ks_world s) then (s, Some (Inl cleanup_error))
      else k (s\<lparr>ks_journal := journal_put
        \<lparr>jr_repo_id = rx_repo_id ctx, jr_digest = rx_digest ctx, jr_candidate_key = key,
         jr_step = step, jr_before_token = token\<rparr> (ks_journal s)\<rparr>))"

definition stop_with :: "removal \<Rightarrow> string \<Rightarrow> string list \<Rightarrow> 'w cleanup_state \<Rightarrow> 'w removal_step" where
  "stop_with ctx status reasons s =
     (s, Some (Inr ((rx_report ctx)\<lparr>ka_status := status, ka_reasons := ka_reasons (rx_report ctx) @ reasons\<rparr>)))"

definition aliases_of :: "host \<Rightarrow> removal \<Rightarrow> before \<Rightarrow> path option \<Rightarrow> before list" where
  "aliases_of h ctx cand p =
     filter (\<lambda>(entry, _). entry \<noteq> fst cand \<and>
         (case (candidate_path h (rx_scope ctx) entry (Some (rx_held ctx)), p) of
            (Some l, Some r) \<Rightarrow> same_path h l r
          | (None, None) \<Rightarrow> True
          | _ \<Rightarrow> False))
       (zip (rx_entries ctx) (rx_observations ctx))"

definition eligible_for :: "inventory_entry \<Rightarrow> cleanup_candidate_preview \<Rightarrow> bool" where
  "eligible_for e c \<longleftrightarrow>
     pv_lifecycle_id c = ie_lifecycle_id e \<and> pv_source c = ie_source e \<and>
     pv_location c = ie_location e \<and> pv_status c = CE_Eligible"

definition still_valid :: "(string \<Rightarrow> string) \<Rightarrow> host \<Rightarrow> removal \<Rightarrow> before \<Rightarrow> bool" where
  "still_valid sha h ctx cand =
     (let (now_entries, now_observed) = preview_with h (rx_scope ctx) (Some (rx_held ctx))
      in (case find_position (\<lambda>e. e = fst cand) now_entries of
            None \<Rightarrow> False
          | Some i \<Rightarrow> oc_observations now_observed ! i = snd cand) \<and>
         list_ex (eligible_for (fst cand)) (cp_candidates (verdict sha now_entries now_observed)))"

definition path_safe :: "host \<Rightarrow> inventory_scope \<Rightarrow> path \<Rightarrow> bool" where
  "path_safe h scope p \<longleftrightarrow>
     p \<noteq> is_checkout scope \<and> \<not> path_starts_with (is_ledger scope) p \<and>
     (case safe_common_dir h (is_checkout scope) of None \<Rightarrow> False | Some c \<Rightarrow> \<not> path_starts_with c p)"

definition remove_worktree ::
  "'w cleanup_env \<Rightarrow> removal \<Rightarrow> string \<Rightarrow> string \<Rightarrow> path \<Rightarrow> 'w cleanup_state \<Rightarrow> 'w removal_step" where
  "remove_worktree env ctx key token p s =
     (let (w, removed) = ke_remove env (is_checkout (rx_scope ctx)) p (ks_world s);
          s' = s\<lparr>ks_world := w, ks_removals := ks_removals s @ [(ks_world s, ks_journal s, p)]\<rparr>
      in if \<not> removed then
           write_step env ctx key ''blocked'' token s' (stop_with ctx ''git-remove-failed'' [''git-remove''])
         else if rx_fault ctx = Some AfterRemove then stop_with ctx ''interrupted'' [] s'
         else write_step env ctx key ''completed'' token s' (\<lambda>s''. (s'', None)))"

definition blocked_reasons :: "bool \<Rightarrow> bool \<Rightarrow> bool \<Rightarrow> string list" where
  "blocked_reasons valid safe listed =
     (if valid then [] else [''revalidation'']) @ (if safe then [] else [''unsafe-path'']) @
     (if listed then [] else [''unregistered''])"

definition remove_one ::
  "'w cleanup_env \<Rightarrow> removal \<Rightarrow> before \<Rightarrow> 'w cleanup_state \<Rightarrow> 'w removal_step" where
  "remove_one env ctx cand s =
     (let h = ke_host env (ks_world s);
          place = candidate_path h (rx_scope ctx) (fst cand) (Some (rx_held ctx));
          token = ke_encode env \<lparr>tk_candidate = cand, tk_aliases = aliases_of h ctx cand place\<rparr>;
          key = ke_sha256 env token
      in case find (\<lambda>r. kr_candidate r = cand) (rx_found ctx) of
           Some saved \<Rightarrow>
             write_step env ctx (kr_key saved) ''completed'' (kr_token saved) s (\<lambda>s'. (s', None))
         | None \<Rightarrow>
             if list_ex (\<lambda>r. cand \<in> set (kr_aliases r)) (rx_found ctx) then (s, None)
             else (case place of
                     None \<Rightarrow> stop_with ctx ''recovery-required'' [''candidate-path''] s
                   | Some p \<Rightarrow>
                       (case registered h (rx_scope ctx) p of
                          Inl e \<Rightarrow> (s, Some (Inl e))
                        | Inr listed \<Rightarrow>
                            (let valid = still_valid (ke_sha256 env) h ctx cand;
                                 safe = path_safe h (rx_scope ctx) p
                             in if \<not> valid \<or> \<not> safe \<or> \<not> listed then
                                  write_step env ctx key ''blocked'' token s
                                    (stop_with ctx ''recovery-required'' (blocked_reasons valid safe listed))
                                else write_step env ctx key ''intent'' token s (\<lambda>s'.
                                  if rx_fault ctx = Some AfterIntent then stop_with ctx ''interrupted'' [] s'
                                  else remove_worktree env ctx key token p s')))))"

fun remove_all ::
  "'w cleanup_env \<Rightarrow> removal \<Rightarrow> before list \<Rightarrow> 'w cleanup_state \<Rightarrow>
    'w cleanup_state \<times> (store_error + cleanup_apply)" where
  "remove_all env ctx [] s =
     (s, Inr ((rx_report ctx)\<lparr>ka_apply := True, ka_status := ''completed''\<rparr>))"
| "remove_all env ctx (b # bs) s =
     (case remove_one env ctx b s of
        (s', Some r) \<Rightarrow> (s', r)
      | (s', None) \<Rightarrow> remove_all env ctx bs s')"

definition stale_report :: "bool \<Rightarrow> cleanup_apply \<Rightarrow> cleanup_apply" where
  "stale_report journal_empty report =
     report\<lparr>ka_status := (if journal_empty then ''blocked'' else ''recovery-required''),
       ka_reasons := ka_reasons report @ [''stale-facts''],
       ka_candidates := map (\<lambda>c. c\<lparr>pv_status := CE_Blocked, pv_reasons := pv_reasons c @ [Cln_StaleFacts]\<rparr>)
         (ka_candidates report)\<rparr>"

definition selected :: "string option \<Rightarrow> inventory_entry \<Rightarrow> bool" where
  "selected only e \<longleftrightarrow> (case only of None \<Rightarrow> True | Some i \<Rightarrow> ie_lifecycle_id e = Some i)"

definition eligible_rows ::
  "string option \<Rightarrow> cleanup_preview \<Rightarrow> inventory_entry list \<Rightarrow> cleanup_observation list \<Rightarrow> before list" where
  "eligible_rows only bound entries observations =
     filter (\<lambda>(e, _). selected only e \<and> list_ex (eligible_for e) (cp_candidates bound))
       (zip entries observations)"

text \<open>From the fence on: everything cand only read.\<close>

definition apply_under_fence ::
  "'w cleanup_env \<Rightarrow> inventory_scope \<Rightarrow> (registry_view \<Rightarrow> removal) \<Rightarrow> before list \<Rightarrow> 'w cleanup_state \<Rightarrow>
    'w cleanup_state \<times> (store_error + cleanup_apply)" where
  "apply_under_fence env scope ctx eligible s =
     (let (w, fence) = ke_acquire env (is_checkout scope) (is_ledger scope) (ks_world s)
      in case fence of
           Inl e \<Rightarrow> (s\<lparr>ks_world := w\<rparr>, Inl e)
         | Inr held \<Rightarrow>
             (let (w', opened) = ke_open env (is_ledger scope) w
              in case opened of
                   Inl e \<Rightarrow> (s\<lparr>ks_world := w'\<rparr>, Inl e)
                 | Inr _ \<Rightarrow> remove_all env (ctx held) eligible (s\<lparr>ks_world := w'\<rparr>)))"

definition apply_reconciled ::
  "'w cleanup_env \<Rightarrow> inventory_scope \<Rightarrow> string \<Rightarrow> cleanup_fault option \<Rightarrow> string option \<Rightarrow>
    observed_cleanup \<Rightarrow> bool \<Rightarrow> cleanup_apply \<Rightarrow> reconcile_state \<Rightarrow> 'w cleanup_state \<Rightarrow>
    'w cleanup_state \<times> (store_error + cleanup_apply)" where
  "apply_reconciled env scope digest fault only observed0 journal_empty report st s =
     (let ((entries, observations), found) = st;
          h = ke_host env (ks_world s);
          bound = verdict (ke_sha256 env) entries (observed0\<lparr>oc_observations := observations\<rparr>);
          eligible = eligible_rows only bound entries observations
      in if cp_digest bound \<noteq> digest then (s, Inr (stale_report journal_empty report))
         else if eligible = [] then (s, Inr report)
         else (case safe_common_dir h (is_checkout scope) of
                 None \<Rightarrow> (s, Inr (recovery report))
               | Some common \<Rightarrow>
                   if \<not> ke_is_file env (ks_world s) (path_join common (path_of REGISTRY))
                   then (s, Inr (recovery report))
                   else apply_under_fence env scope
                     (\<lambda>held. \<lparr>rx_scope = scope, rx_repo_id = oc_repository_id observed0,
                        rx_digest = digest, rx_held = held, rx_entries = entries,
                        rx_observations = observations, rx_found = found, rx_fault = fault,
                        rx_report = report\<rparr>)
                     eligible s))"

definition apply_cleanup ::
  "'w cleanup_env \<Rightarrow> inventory_scope \<Rightarrow> string \<Rightarrow> cleanup_fault option \<Rightarrow> string option \<Rightarrow>
    'w cleanup_state \<Rightarrow> 'w cleanup_state \<times> (store_error + cleanup_apply)" where
  "apply_cleanup env scope digest fault only s =
     (if \<not> digest_shape digest then (s, Inl cleanup_error)
      else (let h = ke_host env (ks_world s);
                (entries, observed) = preview_with h scope None;
                report = blank_report (verdict (ke_sha256 env) entries observed)
            in case read_journal env scope (oc_repository_id observed) digest s of
                 Inl e \<Rightarrow> (s, Inl e)
               | Inr journal \<Rightarrow>
                   (case reconcile_all env h scope journal ((entries, oc_observations observed), []) of
                      Rec_Fail e \<Rightarrow> (s, Inl e)
                    | Rec_Stop \<Rightarrow> (s, Inr (recovery report))
                    | Rec_Go st \<Rightarrow>
                        apply_reconciled env scope digest fault only observed (journal = []) report st s)))"

section \<open>Every removal is justified\<close>

lemma write_step_cases:
  assumes "write_step env ctx key step token s k = (s', r)"
  obtains "s' = s" "r = Some (Inl cleanup_error)"
  | j where "k (s\<lparr>ks_journal := j\<rparr>) = (s', r)" "set (ks_journal s) \<subseteq> set j"
      "\<exists>row \<in> set j. jr_repo_id row = rx_repo_id ctx \<and> jr_digest row = rx_digest ctx \<and>
         jr_candidate_key row = key \<and> jr_step row = step"
proof (cases "ke_writable env (ks_world s)")
  case True
  let ?row = "\<lparr>jr_repo_id = rx_repo_id ctx, jr_digest = rx_digest ctx, jr_candidate_key = key,
     jr_step = step, jr_before_token = token\<rparr>"
  have "k (s\<lparr>ks_journal := journal_put ?row (ks_journal s)\<rparr>) = (s', r)"
    using assms True by (simp add: write_step_def)
  moreover have "set (ks_journal s) \<subseteq> set (journal_put ?row (ks_journal s))" by (auto simp: journal_put_def)
  moreover have "\<exists>row \<in> set (journal_put ?row (ks_journal s)). jr_repo_id row = rx_repo_id ctx \<and>
      jr_digest row = rx_digest ctx \<and> jr_candidate_key row = key \<and> jr_step row = step"
    by (auto simp: journal_put_def list_ex_iff)
  ultimately show ?thesis by (rule that(2))
qed (use assms that(1) in \<open>simp add: write_step_def\<close>)

definition env_texts_ok :: "'w cleanup_env \<Rightarrow> bool" where
  "env_texts_ok env \<longleftrightarrow>
     (\<forall>w. host_texts_ok (ke_host env w)) \<and>
     (\<forall>checkout ledger w w' held. ke_acquire env checkout ledger w = (w', Inr held) \<longrightarrow> registry_texts_ok held)"

text \<open>What must hold, in the world and the journal of the call, of a path git is told to remove.\<close>

definition removal_justified ::
  "'w cleanup_env \<Rightarrow> inventory_scope \<Rightarrow> registry_view \<Rightarrow> lifecycle_id \<Rightarrow> string \<Rightarrow> before \<Rightarrow>
    'w \<times> journal_row list \<times> path \<Rightarrow> bool" where
  "removal_justified env scope held repo digest cand entry =
     (let (w, journal, p) = entry; h = ke_host env w
      in (\<exists>l. ie_location (fst cand) = Some l \<and> location_safe h scope (Some held) l p \<and>
            ledger_names h scope (Some held) l) \<and>
         repository_proved h scope (Some held) \<and> path_safe h scope p \<and> registered h scope p = Inr True \<and>
         (\<exists>entries observed i. preview_with h scope (Some held) = (entries, observed) \<and>
            find_position (\<lambda>e. e = fst cand) entries = Some i \<and> oc_observations observed ! i = snd cand) \<and>
         (\<exists>row tk. row \<in> set journal \<and> jr_repo_id row = repo \<and> jr_digest row = digest \<and>
            jr_step row = ''intent'' \<and> jr_candidate_key row = ke_sha256 env (ke_encode env tk) \<and>
            tk_candidate tk = cand))"

lemma candidate_path_Some:
  assumes "candidate_path h scope e (Some held) = Some p"
  obtains l dir where "ie_location e = Some l"
    and "location_root h l (is_checkout scope) (is_configured_root scope) (Some held) = Some dir"
    and "p = join_relative dir (il_relative_path l)"
  using assms by (auto simp: candidate_path_def cleanup_registry_def bind_eq_Some_conv)

lemma still_valid_safe:
  assumes texts: "host_texts_ok h" "registry_texts_ok (rx_held ctx)"
    and valid: "still_valid sha h ctx cand"
    and p: "candidate_path h (rx_scope ctx) (fst cand) (Some (rx_held ctx)) = Some p"
  shows "(\<exists>l. ie_location (fst cand) = Some l \<and> location_safe h (rx_scope ctx) (Some (rx_held ctx)) l p \<and>
      ledger_names h (rx_scope ctx) (Some (rx_held ctx)) l) \<and>
    repository_proved h (rx_scope ctx) (Some (rx_held ctx)) \<and>
    (\<exists>entries observed i. preview_with h (rx_scope ctx) (Some (rx_held ctx)) = (entries, observed) \<and>
       find_position (\<lambda>e. e = fst cand) entries = Some i \<and> oc_observations observed ! i = snd cand)"
proof -
  obtain entries observed where pv: "preview_with h (rx_scope ctx) (Some (rx_held ctx)) = (entries, observed)"
    by fastforce
  obtain c where c: "c \<in> set (cp_candidates (verdict sha entries observed))" "eligible_for (fst cand) c"
    using valid pv by (auto simp: still_valid_def list_ex_iff)
  obtain l' dir where l': "ie_location (fst cand) = Some l'"
    "location_root h l' (is_checkout (rx_scope ctx)) (is_configured_root (rx_scope ctx)) (Some (rx_held ctx)) = Some dir"
    "p = join_relative dir (il_relative_path l')"
    using candidate_path_Some [OF p] .
  have el: "pv_status c = CE_Eligible" "pv_location c = Some l'" using c(2) l'(1) by (simp_all add: eligible_for_def)
  have held: "\<forall>v. Some (rx_held ctx) = Some v \<longrightarrow> registry_texts_ok v" using texts(2) by simp
  obtain q where q: "location_safe h (rx_scope ctx) (Some (rx_held ctx)) l' q"
    "repository_proved h (rx_scope ctx) (Some (rx_held ctx))" "ledger_names h (rx_scope ctx) (Some (rx_held ctx)) l'"
    using preview_eligible [OF texts(1) held pv c(1) el(1)] el(2) by (metis option.inject)
  have "q = p" using q(1) l'(2,3) by (auto simp: location_safe_def cleanup_registry_def)
  moreover have "\<exists>i. find_position (\<lambda>e. e = fst cand) entries = Some i \<and> oc_observations observed ! i = snd cand"
    using valid pv by (auto simp: still_valid_def split: option.splits)
  ultimately show ?thesis using q l'(1) pv by blast
qed

text \<open>A step keeps the journal and logs at most one removal, a justified one.\<close>

definition removals_extend ::
  "('w \<times> journal_row list \<times> path \<Rightarrow> bool) \<Rightarrow> 'w cleanup_state \<Rightarrow> 'w cleanup_state \<Rightarrow> bool" where
  "removals_extend P s s' \<longleftrightarrow>
     set (ks_journal s) \<subseteq> set (ks_journal s') \<and>
     (\<exists>new. ks_removals s' = ks_removals s @ new \<and> list_all P new)"

lemma removals_extend_refl [simp]: "removals_extend P s s"
  by (simp add: removals_extend_def)

lemma removals_extend_trans: "removals_extend P s t \<Longrightarrow> removals_extend P t u \<Longrightarrow> removals_extend P s u"
  unfolding removals_extend_def by (metis append.assoc list_all_append subset_trans)

lemma removals_extend_mono:
  "removals_extend P s t \<Longrightarrow> (\<And>e. P e \<Longrightarrow> Q e) \<Longrightarrow> removals_extend Q s t"
  unfolding removals_extend_def by (metis list.pred_mono_strong)

lemma removals_extend_journal:
  "set (ks_journal s) \<subseteq> set j \<Longrightarrow> removals_extend P s (s\<lparr>ks_journal := j\<rparr>)"
  by (simp add: removals_extend_def)

lemma write_step_extends:
  assumes "write_step env ctx key step token s k = (s', r)"
    and "\<And>j. k (s\<lparr>ks_journal := j\<rparr>) = (s', r) \<Longrightarrow> removals_extend P (s\<lparr>ks_journal := j\<rparr>) s'"
  shows "removals_extend P s s'"
  using assms(1)
proof (cases rule: write_step_cases)
  case (2 j)
  from removals_extend_trans [OF removals_extend_journal [OF 2(2)] assms(2) [OF 2(1)]] show ?thesis .
qed simp

lemma stop_with_state [simp]: "stop_with ctx status reasons s = (s', r) \<Longrightarrow> s' = s"
  by (simp add: stop_with_def)

lemma remove_worktree_extends:
  assumes "remove_worktree env ctx key token p s = (s', r)" and "P (ks_world s, ks_journal s, p)"
  shows "removals_extend P s s'"
proof -
  obtain w ok where w: "ke_remove env (is_checkout (rx_scope ctx)) p (ks_world s) = (w, ok)" by fastforce
  let ?t = "s\<lparr>ks_world := w, ks_removals := ks_removals s @ [(ks_world s, ks_journal s, p)]\<rparr>"
  have t: "removals_extend P s ?t" using assms(2) by (simp add: removals_extend_def)
  have "removals_extend P ?t s'"
    using assms(1) w
    by (cases ok; cases "rx_fault ctx = Some AfterRemove")
      (auto simp: remove_worktree_def Let_def dest!: stop_with_state elim!: write_step_extends)
  with t show ?thesis by (rule removals_extend_trans)
qed

lemma remove_one_extends:
  assumes texts: "env_texts_ok env" "registry_texts_ok (rx_held ctx)"
    and run: "remove_one env ctx cand s = (s', r)"
  shows "removals_extend
    (removal_justified env (rx_scope ctx) (rx_held ctx) (rx_repo_id ctx) (rx_digest ctx) cand) s s'"
    (is "removals_extend ?P s s'")
proof (cases "find (\<lambda>r. kr_candidate r = cand) (rx_found ctx)")
  case (Some saved)
  then show ?thesis using run by (auto simp: remove_one_def Let_def elim!: write_step_extends)
next
  case None
  let ?h = "ke_host env (ks_world s)"
  let ?place = "candidate_path ?h (rx_scope ctx) (fst cand) (Some (rx_held ctx))"
  let ?tk = "\<lparr>tk_candidate = cand, tk_aliases = aliases_of ?h ctx cand ?place\<rparr>"
  let ?token = "ke_encode env ?tk" and ?valid = "still_valid (ke_sha256 env) ?h ctx cand"
  show ?thesis
  proof (cases "list_ex (\<lambda>r. cand \<in> set (kr_aliases r)) (rx_found ctx) \<or> ?place = None \<or>
      (\<exists>p e. ?place = Some p \<and> registered ?h (rx_scope ctx) p = Inl e)")
    case True
    then show ?thesis using run None
      by (auto simp: remove_one_def Let_def dest!: stop_with_state split: if_splits)
  next
    case False
    then obtain p listed where p: "?place = Some p" "registered ?h (rx_scope ctx) p = Inr listed"
      by (cases ?place) (auto, metis sum.exhaust)
    let ?safe = "path_safe ?h (rx_scope ctx) p"
    show ?thesis
    proof (cases "?valid \<and> ?safe \<and> listed")
      case False
      with run None p \<open>\<not> (list_ex _ _ \<or> _)\<close>
      have "write_step env ctx (ke_sha256 env ?token) ''blocked'' ?token s
          (stop_with ctx ''recovery-required'' (blocked_reasons ?valid ?safe listed)) = (s', r)"
        by (simp add: remove_one_def Let_def)
      then show ?thesis by (rule write_step_extends) (auto dest: stop_with_state)
    next
      case True
      with run None p \<open>\<not> (list_ex _ _ \<or> _)\<close>
      have "write_step env ctx (ke_sha256 env ?token) ''intent'' ?token s (\<lambda>s'.
          if rx_fault ctx = Some AfterIntent then stop_with ctx ''interrupted'' [] s'
          else remove_worktree env ctx (ke_sha256 env ?token) ?token p s') = (s', r)"
        by (simp add: remove_one_def Let_def)
      then show ?thesis
      proof (cases rule: write_step_cases)
        case (2 j)
        let ?s = "s\<lparr>ks_journal := j\<rparr>"
        have j: "\<exists>row tk. row \<in> set j \<and> jr_repo_id row = rx_repo_id ctx \<and> jr_digest row = rx_digest ctx \<and>
            jr_step row = ''intent'' \<and> jr_candidate_key row = ke_sha256 env (ke_encode env tk) \<and>
            tk_candidate tk = cand"
          using 2(3) by (auto intro!: exI [of _ ?tk])
        have "?P (ks_world ?s, ks_journal ?s, p)"
          using still_valid_safe [of ?h ctx "ke_sha256 env" cand p] texts True p j
          by (simp add: removal_justified_def env_texts_ok_def Let_def)
        note justified = this
        have "removals_extend ?P ?s s'"
        proof (cases "rx_fault ctx = Some AfterIntent")
          case True
          then have "s' = ?s" using 2(1) stop_with_state by simp
          then show ?thesis by simp
        next
          case False
          then have "remove_worktree env ctx (ke_sha256 env ?token) ?token p ?s = (s', r)" using 2(1) by simp
          then show ?thesis by (rule remove_worktree_extends) (rule justified)
        qed
        with removals_extend_journal [OF 2(2)] show ?thesis by (rule removals_extend_trans)
      qed simp
    qed
  qed
qed

lemma remove_all_extends:
  assumes texts: "env_texts_ok env" "registry_texts_ok (rx_held ctx)"
  shows "remove_all env ctx bs s = (s', r) \<Longrightarrow> removals_extend (\<lambda>e. \<exists>cand \<in> set bs.
    removal_justified env (rx_scope ctx) (rx_held ctx) (rx_repo_id ctx) (rx_digest ctx) cand e) s s'"
proof (induction bs arbitrary: s)
  case (Cons b bs)
  obtain t res where one: "remove_one env ctx b s = (t, res)" by fastforce
  let ?J = "removal_justified env (rx_scope ctx) (rx_held ctx) (rx_repo_id ctx) (rx_digest ctx)"
  have first: "removals_extend (\<lambda>e. \<exists>cand \<in> set (b # bs). ?J cand e) s t"
    by (rule removals_extend_mono [OF remove_one_extends [OF texts one]]) simp
  show ?case
  proof (cases res)
    case None
    then have "remove_all env ctx bs t = (s', r)" using Cons.prems one by simp
    then have "removals_extend (\<lambda>e. \<exists>cand \<in> set (b # bs). ?J cand e) t s'"
      by (rule removals_extend_mono [OF Cons.IH]) simp
    with first show ?thesis by (rule removals_extend_trans)
  qed (use Cons.prems one first in simp)
qed simp

lemma apply_under_fence_extends:
  assumes texts: "env_texts_ok env"
    and run: "apply_under_fence env scope ctx bs s = (s', r)"
    and ctx: "\<And>held. rx_scope (ctx held) = scope \<and> rx_held (ctx held) = held \<and> rx_repo_id (ctx held) = repo \<and>
      rx_digest (ctx held) = digest"
  shows "removals_extend (\<lambda>e. \<exists>held. \<exists>cand \<in> set bs. removal_justified env scope held repo digest cand e) s s'"
proof -
  obtain w fence where f: "ke_acquire env (is_checkout scope) (is_ledger scope) (ks_world s) = (w, fence)" by fastforce
  show ?thesis
  proof (cases fence)
    case (Inl e)
    then show ?thesis using run f by (auto simp: apply_under_fence_def removals_extend_def)
  next
    case (Inr held)
    obtain w' opened where w': "ke_open env (is_ledger scope) w = (w', opened)" by fastforce
    let ?s = "s\<lparr>ks_world := w'\<rparr>"
    have held: "registry_texts_ok held" using texts f Inr unfolding env_texts_ok_def by blast
    show ?thesis
    proof (cases opened)
      case (Inl e)
      then show ?thesis using run f Inr w' by (auto simp: apply_under_fence_def removals_extend_def)
    next
      case opened: (Inr u)
      then have "remove_all env (ctx held) bs ?s = (s', r)" using run f Inr w' by (simp add: apply_under_fence_def)
      from remove_all_extends [OF texts _ this] held ctx [of held]
      have "removals_extend (\<lambda>e. \<exists>cand \<in> set bs. removal_justified env scope held repo digest cand e) ?s s'"
        by simp
      then have "removals_extend
          (\<lambda>e. \<exists>held. \<exists>cand \<in> set bs. removal_justified env scope held repo digest cand e) ?s s'"
        by (rule removals_extend_mono) blast
      then show ?thesis by (simp add: removals_extend_def)
    qed
  qed
qed

text \<open>The facts the digest was issued for: entries and observations whose verdict has that digest.\<close>

definition digest_covers ::
  "'w cleanup_env \<Rightarrow> string \<Rightarrow> string option \<Rightarrow> observed_cleanup \<Rightarrow> before \<Rightarrow> bool" where
  "digest_covers env digest only observed0 cand \<longleftrightarrow>
     (\<exists>entries observations bound.
        bound = verdict (ke_sha256 env) entries (observed0\<lparr>oc_observations := observations\<rparr>) \<and>
        cp_digest bound = digest \<and> cand \<in> set (eligible_rows only bound entries observations))"

section \<open>A sample run\<close>

definition sample_row :: before where
  "sample_row = (classify_one True sample_owned, sample_clean)"

definition sample_env :: "bool \<Rightarrow> bool cleanup_env" where
  "sample_env works =
     \<lparr>ke_sha256 = sample_sha, ke_encode = (\<lambda>_. ''token''),
      ke_decode = (\<lambda>_. Some \<lparr>tk_candidate = sample_row, tk_aliases = []\<rparr>),
      ke_host = sample_host, ke_exists = (\<lambda>_ _. True), ke_is_file = (\<lambda>_ _. True),
      ke_schema = (\<lambda>_ _. Inr (Some 8)), ke_validate = (\<lambda>_ _ _. Inr ()),
      ke_acquire = (\<lambda>_ _ w. (w, Inr sample_registry)), ke_open = (\<lambda>_ w. (w, Inr ())),
      ke_writable = (\<lambda>_. True), ke_remove = (\<lambda>_ _ w. if works then (True, True) else (w, False))\<rparr>"

definition sample_start :: "bool cleanup_state" where
  "sample_start = \<lparr>ks_world = False, ks_journal = [], ks_removals = []\<rparr>"

lemma sample_env_texts: "env_texts_ok (sample_env works)"
  by (simp add: env_texts_ok_def sample_env_def sample_texts sample_held_texts)

lemma sample_entries_eq: "sample_entries = map (classify_one True) [sample_child, sample_owned, sample_listed]"
  by code_simp

lemma eligible_for_head:
  "list_ex (eligible_for e) cs \<longleftrightarrow>
     (ie_lifecycle_id e, ie_source e, ie_location e, CE_Eligible) \<in> set (map candidate_head cs)"
  by (auto simp: list_ex_iff eligible_for_def candidate_head_def image_iff) (metis+)?

lemma sample_fields:
  "ob_lifecycle_id sample_child = None" "ob_source sample_child = Src_ConfiguredEntry"
  "ob_lifecycle_id sample_owned = Some ''gen''" "ob_source sample_owned = Src_Generation"
  "ob_location sample_owned = Some sample_location"
  "ob_lifecycle_id sample_listed = None" "ob_source sample_listed = Src_GitWorktree"
  by (simp_all add: sample_child_def configured_observation_def sample_owned_def sample_listed_def)

lemma classify_one_lifecycle [simp]: "ie_lifecycle_id (classify_one c m) = ob_lifecycle_id m"
  by (simp add: classify_one_def Let_def split_beta)

lemma sample_eligible: "eligible_rows None (verdict sample_sha sample_entries sample_observed) sample_entries
    [sample_clean, sample_clean, sample_clean] = [sample_row]"
  by (simp add: eligible_rows_def eligible_for_head sample_verdict)
   (simp add: sample_entries_eq selected_def sample_fields sample_row_def)

lemma sample_digest: "cp_digest (verdict sample_sha es ob) = sample_identity"
  by (simp add: verdict_def cleanup_preview_of_def cleanup_policy_def digest_of_def sample_sha_def Let_def)

lemma sample_place:
  "candidate_path (sample_host False) sample_scope (fst sample_row) (Some sample_registry) = Some (path_of ''/r/w/g'')"
  by code_simp

lemma sample_registered: "registered (sample_host False) sample_scope (path_of ''/r/w/g'') = Inr True"
  by code_simp

lemma sample_path_safe: "path_safe (sample_host False) sample_scope (path_of ''/r/w/g'')"
  by code_simp

lemma sample_valid:
  assumes "rx_scope ctx = sample_scope" "rx_held ctx = sample_registry"
  shows "still_valid sample_sha (sample_host False) ctx sample_row"
proof -
  have pv: "preview_with (sample_host False) sample_scope (Some sample_registry) = (sample_entries, sample_observed)"
    by (rule sample_preview) simp
  have ne: "classify_one True sample_child \<noteq> fst sample_row"
  proof
    assume "classify_one True sample_child = fst sample_row"
    then have "ie_source (classify_one True sample_child) = ie_source (fst sample_row)" by simp
    then show False by (simp add: sample_row_def sample_fields)
  qed
  have "find_position (\<lambda>e. e = fst sample_row) sample_entries = Some 1"
    using ne by (simp add: sample_entries_eq sample_row_def)
  moreover have "oc_observations sample_observed ! 1 = snd sample_row"
    by (simp add: sample_observed_def sample_row_def)
  moreover have "list_ex (eligible_for (fst sample_row)) (cp_candidates (verdict sample_sha sample_entries sample_observed))"
    unfolding eligible_for_head sample_verdict by (simp add: sample_row_def sample_fields)
  ultimately show ?thesis by (simp add: still_valid_def assms pv)
qed

definition sample_after :: "bool \<Rightarrow> bool cleanup_state" where
  "sample_after works =
     \<lparr>ks_world = works,
      ks_journal = map (\<lambda>step. \<lparr>jr_repo_id = ''repo'', jr_digest = sample_identity,
        jr_candidate_key = sample_identity, jr_step = step, jr_before_token = ''token''\<rparr>)
          [''intent'', if works then ''completed'' else ''blocked''],
      ks_removals = [(False, [\<lparr>jr_repo_id = ''repo'', jr_digest = sample_identity,
        jr_candidate_key = sample_identity, jr_step = ''intent'', jr_before_token = ''token''\<rparr>],
        path_of ''/r/w/g'')]\<rparr>"

lemma sample_remove_one:
  assumes "rx_scope ctx = sample_scope" "rx_held ctx = sample_registry" "rx_found ctx = []"
    "rx_fault ctx = None" "rx_repo_id ctx = ''repo''" "rx_digest ctx = sample_identity"
  shows "remove_one (sample_env works) ctx sample_row sample_start =
    (if works then (sample_after True, None)
     else stop_with ctx ''git-remove-failed'' [''git-remove''] (sample_after False))"
  using sample_valid [OF assms(1,2)]
  by (cases works)
    (simp_all add: remove_one_def Let_def assms sample_place sample_registered sample_path_safe
      sample_start_def sample_env_def write_step_def remove_worktree_def journal_put_def sample_after_def
      sample_sha_def)

lemma sample_apply:
  "\<exists>report. apply_cleanup (sample_env works) sample_scope sample_identity None None sample_start =
     (sample_after works, Inr (report
        \<lparr>ka_apply := works, ka_status := (if works then ''completed'' else ''git-remove-failed''),
         ka_reasons := (if works then [] else [''git-remove''])\<rparr>))"
proof -
  let ?e = "sample_env works" and ?report = "blank_report (verdict sample_sha sample_entries sample_observed)"
  have shape: "digest_shape sample_identity" by code_simp
  have pv: "preview_with (sample_host False) sample_scope None = (sample_entries, sample_observed)"
    by (rule sample_preview) simp
  have j: "read_journal ?e sample_scope ''repo'' sample_identity sample_start = Inr []"
    by (simp add: read_journal_def sample_env_def sample_start_def journal_groups_def)
  have c: "safe_common_dir (sample_host False) (path_of ''/r'') = Some (path_of ''/r/.git'')" by code_simp
  have f: "oc_observations sample_observed = [sample_clean, sample_clean, sample_clean]"
    "oc_repository_id sample_observed = ''repo''" by (simp_all add: sample_observed_def)
  have same: "sample_observed\<lparr>oc_observations := [sample_clean, sample_clean, sample_clean]\<rparr> = sample_observed"
    by (simp add: sample_observed_def)
  have env: "ke_host ?e w = sample_host w" "ke_sha256 ?e = sample_sha" "ke_is_file ?e w p = True"
    "ke_acquire ?e a b w = (w, Inr sample_registry)" "ke_open ?e b w = (w, Inr ())" for w p a b
    by (simp_all add: sample_env_def)
  have w: "ks_world sample_start = False" "sample_start\<lparr>ks_world := False\<rparr> = sample_start"
    by (simp_all add: sample_start_def)
  let ?ctx = "\<lparr>rx_scope = sample_scope, rx_repo_id = ''repo'', rx_digest = sample_identity,
    rx_held = sample_registry, rx_entries = sample_entries,
    rx_observations = [sample_clean, sample_clean, sample_clean], rx_found = [], rx_fault = None,
    rx_report = ?report\<rparr>"
  have "apply_cleanup ?e sample_scope sample_identity None None sample_start =
      apply_reconciled ?e sample_scope sample_identity None None sample_observed True ?report
        ((sample_entries, [sample_clean, sample_clean, sample_clean]), []) sample_start"
    by (simp add: apply_cleanup_def shape env w pv j f)
  also have "\<dots> = remove_all ?e ?ctx [sample_row] sample_start"
    by (simp add: apply_reconciled_def Let_def env w same sample_digest sample_eligible c f sample_scope_fields
        apply_under_fence_def)
  finally have run: "apply_cleanup ?e sample_scope sample_identity None None sample_start =
      remove_all ?e ?ctx [sample_row] sample_start" .
  have one: "remove_one ?e ?ctx sample_row sample_start =
    (if works then (sample_after True, None)
     else stop_with ?ctx ''git-remove-failed'' [''git-remove''] (sample_after False))"
    by (rule sample_remove_one) simp_all
  have result: "remove_all ?e ?ctx [sample_row] sample_start = (sample_after works, Inr (?report
      \<lparr>ka_apply := works, ka_status := (if works then ''completed'' else ''git-remove-failed''),
       ka_reasons := (if works then [] else [''git-remove''])\<rparr>))"
  proof (cases works)
    case True
    with one show ?thesis by (simp add: blank_report_def)
  next
    case False
    with one show ?thesis by (simp add: stop_with_def blank_report_def)
  qed
  show ?thesis unfolding run result by blast
qed

section \<open>Guarded removal\<close>

text \<open>
  C9. The removal of directories is guarded: every \<open>git worktree remove\<close> that \<open>apply_cleanup\<close> runs
  is for a candidate that the preview with the given digest called eligible, and in the world and
  the journal of that very call the path is where a ledger record with a proved identity puts
  it, nothing on the way to it is a link, it lies inside its root and inside the checkout, git
  reports nothing in it and its commit is still reachable, the entry and its observation are the
  ones the digest covers, git lists it, it is neither the checkout nor a parent of the ledger or
  of the common directory, and the intent to remove it is already journaled. The journal only
  grows. The decoders build every text with its checked constructor.
\<close>

theorem removals_are_guarded:
  assumes texts: "env_texts_ok env"
    and run: "apply_cleanup env scope digest fault only s = (s', r)"
  shows "set (ks_journal s) \<subseteq> set (ks_journal s') \<and>
     (\<exists>new. ks_removals s' = ks_removals s @ new \<and>
        (\<forall>e \<in> set new. \<exists>held cand.
           digest_covers env digest only (snd (preview_with (ke_host env (ks_world s)) scope None)) cand \<and>
           removal_justified env scope held
             (oc_repository_id (snd (preview_with (ke_host env (ks_world s)) scope None))) digest cand e))"
proof -
  let ?h = "ke_host env (ks_world s)"
  obtain entries observed where pv: "preview_with ?h scope None = (entries, observed)" by fastforce
  let ?P = "\<lambda>e. \<exists>held cand. digest_covers env digest only observed cand \<and>
    removal_justified env scope held (oc_repository_id observed) digest cand e"
  have "removals_extend ?P s s'"
  proof (cases "s' = s")
    case False
    then obtain journal st where st: "reconcile_all env ?h scope journal ((entries, oc_observations observed), []) = Rec_Go st"
      and rest: "apply_reconciled env scope digest fault only observed (journal = [])
        (blank_report (verdict (ke_sha256 env) entries observed)) st s = (s', r)"
      using run pv
      by (auto simp: apply_cleanup_def Let_def split: if_splits sum.splits reconcile_outcome.splits)
    obtain es obs found where st': "st = ((es, obs), found)" by (metis surj_pair)
    let ?bound = "verdict (ke_sha256 env) es (observed\<lparr>oc_observations := obs\<rparr>)"
    from rest False st' have digest: "cp_digest ?bound = digest"
      by (auto simp: apply_reconciled_def Let_def split: if_splits)
    from rest False st' digest obtain ctx where "apply_under_fence env scope ctx (eligible_rows only ?bound es obs) s = (s', r)"
      and "\<And>held. rx_scope (ctx held) = scope \<and> rx_held (ctx held) = held \<and>
        rx_repo_id (ctx held) = oc_repository_id observed \<and> rx_digest (ctx held) = digest"
      by (auto simp: apply_reconciled_def Let_def split: if_splits option.splits)
    note extends = apply_under_fence_extends [OF texts this]
    have "digest_covers env digest only observed cand" if "cand \<in> set (eligible_rows only ?bound es obs)" for cand
      unfolding digest_covers_def using digest that by blast
    then show ?thesis by (intro removals_extend_mono [OF extends]) blast
  qed simp
  then show ?thesis unfolding removals_extend_def pv by (auto simp: list_all_iff)
qed

theorem removals_are_guarded_witness:
  "\<exists>report held cand. apply_cleanup (sample_env True) sample_scope sample_identity None None sample_start =
      (sample_after True, Inr report) \<and> ka_apply report \<and>
     removal_justified (sample_env True) sample_scope held ''repo'' sample_identity cand
       (hd (ks_removals (sample_after True)))"
proof -
  obtain report where run: "apply_cleanup (sample_env True) sample_scope sample_identity None None sample_start =
      (sample_after True, Inr (report\<lparr>ka_apply := True, ka_status := ''completed'', ka_reasons := []\<rparr>))"
    using sample_apply [of True] by auto
  have pv: "preview_with (ke_host (sample_env True) (ks_world sample_start)) sample_scope None =
      (sample_entries, sample_observed)"
    using sample_preview [of None] by (simp add: sample_env_def sample_start_def)
  have id: "oc_repository_id sample_observed = ''repo''" by (simp add: sample_observed_def)
  obtain new where new: "ks_removals (sample_after True) = ks_removals sample_start @ new"
    and each: "\<forall>e \<in> set new. \<exists>held cand. digest_covers (sample_env True) sample_identity None sample_observed cand \<and>
      removal_justified (sample_env True) sample_scope held ''repo'' sample_identity cand e"
    using removals_are_guarded [OF sample_env_texts run] unfolding pv snd_conv id by blast
  have "hd (ks_removals (sample_after True)) \<in> set new"
    using new by (cases new) (simp_all add: sample_after_def sample_start_def)
  with each obtain held cand where "removal_justified (sample_env True) sample_scope held ''repo'' sample_identity cand
      (hd (ks_removals (sample_after True)))" by blast
  with run show ?thesis
    by (intro exI [of _ "report\<lparr>ka_apply := True, ka_status := ''completed'', ka_reasons := []\<rparr>"]
        exI [of _ held] exI [of _ cand]) simp
qed

section \<open>A blocked removal stays blocked\<close>

lemma reconcile_one_blocked: "reconcile_one env h scope (key, ''blocked'', token) st \<noteq> Rec_Go st'"
  by (cases st; cases "fst st")
    (simp add: reconcile_one_def Let_def split: option.splits io.splits sum.splits)

lemma reconcile_all_blocked:
  "(key, ''blocked'', token) \<in> set rows \<Longrightarrow> reconcile_all env h scope rows st \<noteq> Rec_Go st'"
proof (induction rows arbitrary: st)
  case (Cons row rows)
  show ?case
  proof (cases "reconcile_one env h scope row st")
    case (Rec_Go x)
    then have "row \<noteq> (key, ''blocked'', token)" using reconcile_one_blocked by metis
    then have "(key, ''blocked'', token) \<in> set rows" using Cons.prems by simp
    from Cons.IH [OF this, of x] Rec_Go show ?thesis by simp
  qed simp_all
qed simp

lemma journal_groups_blocked:
  assumes "row \<in> set journal" "jr_repo_id row = repo" "jr_digest row = digest" "jr_step row = ''blocked''"
  shows "\<exists>key token. (key, ''blocked'', token) \<in> set (journal_groups repo digest journal)"
proof -
  let ?rows = "filter (\<lambda>r. jr_repo_id r = repo \<and> jr_digest r = digest) journal"
  let ?k = "jr_candidate_key row" and ?t = "jr_before_token row"
  have "group_step (filter (\<lambda>r. jr_candidate_key r = ?k \<and> jr_before_token r = ?t) ?rows) = ''blocked''"
    using assms by (auto simp: group_step_def list_ex_iff)
  moreover have "(?k, ?t) \<in> set (sort (remdups (map (\<lambda>r. (jr_candidate_key r, jr_before_token r)) ?rows)))"
    using assms by auto
  ultimately have "(?k, ''blocked'', ?t) \<in> set (journal_groups repo digest journal)"
    unfolding journal_groups_def Let_def set_map by (force intro: rev_image_eqI)
  then show ?thesis by blast
qed

definition blocking_reasons :: "string set" where
  "blocking_reasons = {''revalidation'', ''unsafe-path'', ''unregistered'', ''git-remove''}"

definition blocked_row :: "lifecycle_id \<Rightarrow> string \<Rightarrow> 'w cleanup_state \<Rightarrow> bool" where
  "blocked_row repo digest s \<longleftrightarrow>
     (\<exists>row \<in> set (ks_journal s). jr_repo_id row = repo \<and> jr_digest row = digest \<and> jr_step row = ''blocked'')"

definition blocks :: "store_error + cleanup_apply \<Rightarrow> bool" where
  "blocks r \<longleftrightarrow> (case r of Inl _ \<Rightarrow> False | Inr rep \<Rightarrow> set (ka_reasons rep) \<inter> blocking_reasons \<noteq> {})"

lemma blocked_write:
  assumes "write_step env ctx key ''blocked'' token s (stop_with ctx status reasons) = (s', Some r)"
    and "blocks r"
  shows "blocked_row (rx_repo_id ctx) (rx_digest ctx) s'"
  using assms(1)
proof (cases rule: write_step_cases)
  case (2 j)
  then have "s' = s\<lparr>ks_journal := j\<rparr>" using stop_with_state by blast
  with 2(3) show ?thesis by (auto simp: blocked_row_def)
qed (use assms(2) in \<open>simp add: blocks_def\<close>)

lemma stop_with_blocks:
  "stop_with ctx status reasons s = (s', Some r) \<Longrightarrow> ka_reasons (rx_report ctx) = [] \<Longrightarrow>
     blocks r \<longleftrightarrow> set reasons \<inter> blocking_reasons \<noteq> {}"
  by (auto simp: stop_with_def blocks_def)

lemma quiet_write:
  assumes "write_step env ctx key step token s k = (s', Some r)" and "blocks r"
    and "\<And>j. k (s\<lparr>ks_journal := j\<rparr>) = (s', Some r) \<Longrightarrow> Q"
  shows Q
  using assms(1) by (cases rule: write_step_cases) (use assms in \<open>auto simp: blocks_def\<close>)

lemma remove_worktree_blocks:
  assumes "remove_worktree env ctx key token p s = (s', Some r)" and "blocks r"
    and "ka_reasons (rx_report ctx) = []"
  shows "blocked_row (rx_repo_id ctx) (rx_digest ctx) s'"
proof -
  obtain w ok where w: "ke_remove env (is_checkout (rx_scope ctx)) p (ks_world s) = (w, ok)" by fastforce
  let ?t = "s\<lparr>ks_world := w, ks_removals := ks_removals s @ [(ks_world s, ks_journal s, p)]\<rparr>"
  show ?thesis
  proof (cases ok)
    case False
    then have "write_step env ctx key ''blocked'' token ?t
        (stop_with ctx ''git-remove-failed'' [''git-remove'']) = (s', Some r)"
      using assms(1) w by (simp add: remove_worktree_def)
    then show ?thesis using assms(2) by (rule blocked_write)
  next
    case True
    then show ?thesis
      using assms w stop_with_blocks [OF _ assms(3), of "''interrupted''" "[]" ?t s' r]
      by (cases "rx_fault ctx = Some AfterRemove")
        (auto simp: remove_worktree_def elim: quiet_write)
  qed
qed

lemma remove_one_blocks:
  assumes run: "remove_one env ctx cand s = (s', Some r)" and b: "blocks r"
    and q: "ka_reasons (rx_report ctx) = []"
  shows "blocked_row (rx_repo_id ctx) (rx_digest ctx) s'"
proof -
  let ?h = "ke_host env (ks_world s)"
  let ?place = "candidate_path ?h (rx_scope ctx) (fst cand) (Some (rx_held ctx))"
  let ?token = "ke_encode env \<lparr>tk_candidate = cand, tk_aliases = aliases_of ?h ctx cand ?place\<rparr>"
  let ?valid = "still_valid (ke_sha256 env) ?h ctx cand"
  have f: "find (\<lambda>r. kr_candidate r = cand) (rx_found ctx) = None"
    using run b by (cases "find (\<lambda>r. kr_candidate r = cand) (rx_found ctx)")
      (auto simp: remove_one_def Let_def elim: quiet_write)
  have a: "\<not> list_ex (\<lambda>r. cand \<in> set (kr_aliases r)) (rx_found ctx)"
    using run f by (auto simp: remove_one_def Let_def)
  obtain p where p: "?place = Some p"
    using run f a stop_with_blocks [OF _ q, of "''recovery-required''" "[''candidate-path'']" s s' r] b
    by (cases ?place) (auto simp: remove_one_def Let_def blocking_reasons_def)
  obtain listed where l: "registered ?h (rx_scope ctx) p = Inr listed"
    using run f a p b by (cases "registered ?h (rx_scope ctx) p") (auto simp: remove_one_def Let_def blocks_def)
  let ?safe = "path_safe ?h (rx_scope ctx) p"
  show ?thesis
  proof (cases "?valid \<and> ?safe \<and> listed")
    case False
    with run f a p l have "write_step env ctx (ke_sha256 env ?token) ''blocked'' ?token s
        (stop_with ctx ''recovery-required'' (blocked_reasons ?valid ?safe listed)) = (s', Some r)"
      by (simp add: remove_one_def Let_def)
    then show ?thesis using b by (rule blocked_write)
  next
    case True
    with run f a p l have "write_step env ctx (ke_sha256 env ?token) ''intent'' ?token s (\<lambda>s'.
        if rx_fault ctx = Some AfterIntent then stop_with ctx ''interrupted'' [] s'
        else remove_worktree env ctx (ke_sha256 env ?token) ?token p s') = (s', Some r)"
      by (simp add: remove_one_def Let_def)
    then show ?thesis
    proof (rule quiet_write [OF _ b])
      fix j
      let ?s = "s\<lparr>ks_journal := j\<rparr>"
      assume k: "(if rx_fault ctx = Some AfterIntent then stop_with ctx ''interrupted'' [] ?s
        else remove_worktree env ctx (ke_sha256 env ?token) ?token p ?s) = (s', Some r)"
      show ?thesis
      proof (cases "rx_fault ctx = Some AfterIntent")
        case True
        then show ?thesis using k b stop_with_blocks [OF _ q, of "''interrupted''" "[]" ?s s' r] by simp
      next
        case False
        then have "remove_worktree env ctx (ke_sha256 env ?token) ?token p ?s = (s', Some r)" using k by simp
        then show ?thesis using b q by (rule remove_worktree_blocks)
      qed
    qed
  qed
qed

lemma remove_all_blocks:
  "remove_all env ctx bs s = (s', r) \<Longrightarrow> blocks r \<Longrightarrow> ka_reasons (rx_report ctx) = [] \<Longrightarrow>
     blocked_row (rx_repo_id ctx) (rx_digest ctx) s'"
proof (induction bs arbitrary: s)
  case Nil
  then show ?case by (auto simp: blocks_def)
next
  case (Cons b bs)
  obtain t res where one: "remove_one env ctx b s = (t, res)" by fastforce
  show ?case
  proof (cases res)
    case None
    then show ?thesis using Cons one by simp
  next
    case (Some x)
    then have "remove_one env ctx b s = (s', Some r)" using Cons.prems one by simp
    then show ?thesis using Cons.prems(2,3) by (rule remove_one_blocks)
  qed
qed

lemma apply_blocks:
  assumes run: "apply_cleanup env scope digest fault only s = (s', r)" and b: "blocks r"
  shows "blocked_row (oc_repository_id (snd (preview_with (ke_host env (ks_world s)) scope None))) digest s'"
proof -
  let ?h = "ke_host env (ks_world s)"
  obtain entries observed where pv: "preview_with ?h scope None = (entries, observed)" by fastforce
  let ?report = "blank_report (verdict (ke_sha256 env) entries observed)"
  have quiet: "\<not> blocks (Inl e)" "\<not> blocks (Inr ?report)" "\<not> blocks (Inr (recovery ?report))"
    "\<not> blocks (Inr (stale_report je ?report))" for e je
    by (simp_all add: blocks_def blank_report_def recovery_def stale_report_def blocking_reasons_def)
  from run pv b quiet obtain je st where rest: "apply_reconciled env scope digest fault only observed je ?report st s = (s', r)"
    by (auto simp: apply_cleanup_def Let_def split: if_splits sum.splits reconcile_outcome.splits)
  obtain es obs found where st': "st = ((es, obs), found)" by (metis surj_pair)
  let ?bound = "verdict (ke_sha256 env) es (observed\<lparr>oc_observations := obs\<rparr>)"
  from rest b quiet st' obtain ctx bs where u: "apply_under_fence env scope ctx bs s = (s', r)"
    and ctx: "\<And>held. rx_repo_id (ctx held) = oc_repository_id observed \<and> rx_digest (ctx held) = digest \<and>
      rx_report (ctx held) = ?report"
    by (auto simp: apply_reconciled_def Let_def split: if_splits option.splits)
  obtain held w where "remove_all env (ctx held) bs (s\<lparr>ks_world := w\<rparr>) = (s', r)"
    using u b quiet(1) by (auto simp: apply_under_fence_def split_beta Let_def split: sum.splits)
  from remove_all_blocks [OF this b] ctx [of held] pv show ?thesis by (simp add: blank_report_def)
qed

lemma blocked_row_stops:
  assumes row: "blocked_row (oc_repository_id (snd (preview_with (ke_host env (ks_world s)) scope None))) digest s"
    and v8: "ke_exists env (ks_world s) (is_ledger scope)" "ke_schema env (ks_world s) (is_ledger scope) = Inr (Some 8)"
    and run: "apply_cleanup env scope digest fault only s = (s', r)"
  shows "s' = s \<and> (\<forall>rep. r = Inr rep \<longrightarrow> \<not> ka_apply rep \<and> ka_status rep = ''recovery-required'')"
proof -
  let ?h = "ke_host env (ks_world s)"
  obtain entries observed where pv: "preview_with ?h scope None = (entries, observed)" by fastforce
  let ?groups = "journal_groups (oc_repository_id observed) digest (ks_journal s)"
  obtain key token where g: "(key, ''blocked'', token) \<in> set ?groups"
    using row pv journal_groups_blocked by (fastforce simp: blocked_row_def)
  have no: "reconcile_all env ?h scope ?groups ((entries, oc_observations observed), []) \<noteq> Rec_Go x" for x
    using reconcile_all_blocked [OF g] .
  show ?thesis
  proof (cases "ke_validate env (ks_world s) (is_ledger scope) 8")
    case (Inl e)
    then show ?thesis using run pv v8 by (auto simp: apply_cleanup_def read_journal_def split: if_splits)
  next
    case (Inr u)
    then have j: "read_journal env scope (oc_repository_id observed) digest s = Inr ?groups"
      using v8 by (simp add: read_journal_def)
    show ?thesis
    proof (cases "reconcile_all env ?h scope ?groups ((entries, oc_observations observed), [])")
      case (Rec_Go x)
      then show ?thesis using no by blast
    qed (use run pv j in \<open>auto simp: apply_cleanup_def recovery_def blank_report_def split: if_splits\<close>)
  qed
qed

text \<open>
  C23. A removal that was blocked stays blocked: once \<open>apply_cleanup\<close> reports that a candidate failed
  its revalidation, lies on an unsafe path, is unknown to git or could not be removed by git,
  every later call with the same digest in the same repository changes nothing and answers that
  recovery is required, whatever the machine looks like by then. The ledger has to be readable
  at its current version, which the first call migrated it to.
\<close>

theorem blocked_removal_is_final:
  assumes first: "apply_cleanup env scope digest fault only s = (s1, r1)" and blocked: "blocks r1"
    and later: "set (ks_journal s1) \<subseteq> set (ks_journal s2)"
    and repo: "oc_repository_id (snd (preview_with (ke_host env (ks_world s2)) scope None)) =
      oc_repository_id (snd (preview_with (ke_host env (ks_world s)) scope None))"
    and v8: "ke_exists env (ks_world s2) (is_ledger scope)"
      "ke_schema env (ks_world s2) (is_ledger scope) = Inr (Some 8)"
    and second: "apply_cleanup env scope digest fault' only' s2 = (s3, r2)"
  shows "s3 = s2 \<and> (\<forall>rep. r2 = Inr rep \<longrightarrow> \<not> ka_apply rep \<and> ka_status rep = ''recovery-required'')"
proof -
  have "blocked_row (oc_repository_id (snd (preview_with (ke_host env (ks_world s2)) scope None))) digest s2"
    using apply_blocks [OF first blocked] later by (auto simp: blocked_row_def repo)
  then show ?thesis using v8 second by (rule blocked_row_stops)
qed

theorem blocked_removal_is_final_witness:
  "fst (apply_cleanup (sample_env False) sample_scope sample_identity None None (sample_after False)) =
     sample_after False \<and>
   (\<exists>r. apply_cleanup (sample_env False) sample_scope sample_identity None None sample_start =
     (sample_after False, r) \<and> blocks r)"
proof -
  obtain report where run: "apply_cleanup (sample_env False) sample_scope sample_identity None None sample_start =
      (sample_after False, Inr (report\<lparr>ka_apply := False, ka_status := ''git-remove-failed'', ka_reasons := [''git-remove'']\<rparr>))"
    (is "_ = (_, ?r)")
    using sample_apply [of False] by auto
  have b: "blocks ?r" by (simp add: blocks_def blocking_reasons_def)
  have world: "ks_world (sample_after False) = ks_world sample_start" by (simp add: sample_after_def sample_start_def)
  have v8: "ke_exists (sample_env False) w p" "ke_schema (sample_env False) w p = Inr (Some 8)" for w p
    by (simp_all add: sample_env_def)
  obtain s3 r2 where second: "apply_cleanup (sample_env False) sample_scope sample_identity None None (sample_after False) = (s3, r2)"
    by fastforce
  from blocked_removal_is_final [OF run b subset_refl _ v8 second] world
  have final: "s3 = sample_after False" by simp
  from second final run b show ?thesis by auto
qed

end
