(* ===== verification/Adapter_Adoption.thy ===== *)
theory Adapter_Adoption
  imports Adapter_Cleanup Adapter_Lifecycle
begin

text \<open>
  Digest-bound adoption of legacy runs, \<open>meshloop-adapters/src/workspace/adoption.rs\<close>.

  A run that the migration marked as unbound is adopted when its generations prove where it
  lives: the marker is deleted and a binding to that place is inserted, for all proven runs in
  one transaction. The machine is one \<open>host\<close> for the whole call; a transaction that is dropped
  leaves the ledger as it was.
\<close>

section \<open>Reports\<close>

record adoption_pin =
  ap_graph_id :: string
  ap_generation_id :: string
  ap_root_alias :: string
  ap_relative_path :: string

record adoption_hold =
  ah_graph_id :: string
  ah_reason :: string

record adoption_report =
  an_apply :: bool
  an_digest :: string
  an_status :: string
  an_adopted :: "adoption_pin list"
  an_retained :: "adoption_hold list"

record proven =
  pw_graph_id :: string
  pw_generation_id :: string
  pw_repository_id :: string
  pw_root_alias :: root_alias
  pw_relative_path :: relative_path
  pw_layout_version :: u32

text \<open>
  What a query gives of the rows it asks for: nothing when it cannot be prepared or started, and
  otherwise each row that can be read, without the others: the code skips a row whose column
  cannot be read, and a generation whose payload does not decode.
\<close>

record 'a row_read =
  rq_prepared :: bool
  rq_row :: "'a \<Rightarrow> 'a option"

definition read_rows :: "'a row_read \<Rightarrow> 'a list \<Rightarrow> 'a list" where
  "read_rows rq rows = (if rq_prepared rq then List.map_filter (rq_row rq) rows else [])"

definition reads_every :: "'a row_read \<Rightarrow> 'a list \<Rightarrow> bool" where
  "reads_every rq rows \<longleftrightarrow> rq_prepared rq \<and> list_all (\<lambda>x. rq_row rq x = Some x) rows"

text \<open>
  \<open>ad_open_read\<close> and \<open>ad_open_write\<close> tell whether opening the ledger succeeds. The decision reads
  the markers, the runs and the generations once; the transaction reads the generations
  again for every pin, \<open>ad_proofs\<close> by its position.
\<close>

record adoption_env =
  ad_host :: host
  ad_is_file :: "path \<Rightarrow> bool"
  ad_open_read :: bool
  ad_acquire :: "path \<Rightarrow> path \<Rightarrow> store_error + registry_view"
  ad_open_write :: bool
  ad_commit :: bool
  ad_marked :: "string row_read"
  ad_runs :: "string row_read"
  ad_generations :: "generation_record row_read"
  ad_proofs :: "nat \<Rightarrow> generation_record row_read"

definition adoption_failed :: store_error where
  "adoption_failed = StoreIo ''adoption operation failed''"

definition hold :: "string \<Rightarrow> string \<Rightarrow> adoption_hold" where
  "hold graph reason = \<lparr>ah_graph_id = graph, ah_reason = reason\<rparr>"

abbreviation tab :: string where "tab \<equiv> [CHR 0x09]"

definition adoption_material :: "string \<Rightarrow> adoption_pin list \<Rightarrow> adoption_hold list \<Rightarrow> string" where
  "adoption_material repo adopted retained =
     ''repository'' @ tab @ repo @ [lf] @
     concat (map (\<lambda>p. ''adopt'' @ tab @ ap_graph_id p @ tab @ ap_generation_id p @ tab @
       ap_root_alias p @ tab @ ap_relative_path p @ [lf]) adopted) @
     concat (map (\<lambda>h. ''retain'' @ tab @ ah_graph_id h @ tab @ ah_reason h @ [lf]) retained)"

definition adoption_digest ::
  "(string \<Rightarrow> string) \<Rightarrow> string \<Rightarrow> adoption_pin list \<Rightarrow> adoption_hold list \<Rightarrow> string" where
  "adoption_digest sha repo adopted retained = sha (adoption_material repo adopted retained)"

definition empty_adoption :: "(string \<Rightarrow> string) \<Rightarrow> string \<Rightarrow> adoption_report" where
  "empty_adoption sha status =
     \<lparr>an_apply = False,
      an_digest = sha (''repository'' @ tab @ [lf] @ ''status'' @ tab @ status @ [lf]),
      an_status = status, an_adopted = [], an_retained = []\<rparr>"

section \<open>Proving where a run lives\<close>

definition prove_generation ::
  "host \<Rightarrow> registry_view \<Rightarrow> path \<Rightarrow> generation_record \<Rightarrow> string + proven" where
  "prove_generation h registry checkout g =
     (if gn_repository_id g \<noteq> rr_id (rv_repository registry) then Inl ''identity-unverified''
      else (case map_of (rv_roots registry) (gn_root_alias g) of
              None \<Rightarrow> Inl ''unverified-location''
            | Some r \<Rightarrow>
                if \<not> live_root h r then Inl ''identity-unverified''
                else (let p = join_relative (rt_path r) (gn_relative_path g)
                      in if p = checkout \<or> path_starts_with checkout p then Inl ''unsafe-path''
                         else (case probe_path h p of
                                 Probe_Missing \<Rightarrow> Inl ''path-missing''
                               | Probe_Reparse _ \<Rightarrow> Inl ''unsafe-path''
                               | Probe_Inaccessible \<Rightarrow> Inl ''path-inaccessible''
                               | Probe_Present \<Rightarrow>
                                   (case h_canonicalize h p of
                                      None \<Rightarrow> Inl ''path-inaccessible''
                                    | Some canonical \<Rightarrow>
                                        (case h_canonicalize h (rt_path r) of
                                           None \<Rightarrow> Inl ''identity-unverified''
                                         | Some root_canonical \<Rightarrow>
                                             if \<not> path_starts_with canonical root_canonical
                                             then Inl ''unsafe-path''
                                             else Inr
                                               \<lparr>pw_graph_id = gn_graph_id g,
                                                pw_generation_id = gn_id g,
                                                pw_repository_id = gn_repository_id g,
                                                pw_root_alias = gn_root_alias g,
                                                pw_relative_path = gn_relative_path g,
                                                pw_layout_version = gn_layout_version g\<rparr>))))))"

definition prove_graph ::
  "host \<Rightarrow> registry_view \<Rightarrow> path \<Rightarrow> generation_record list \<Rightarrow> string + proven" where
  "prove_graph h registry checkout mine =
     try_res (map_res (prove_generation h registry checkout) mine) (\<lambda>proofs.
       case sort_key pw_generation_id proofs of
         [] \<Rightarrow> Inl ''unverified-location''
       | first # others \<Rightarrow>
           if list_ex (\<lambda>row. pw_root_alias row \<noteq> pw_root_alias first) (first # others)
           then Inl ''ambiguous-root'' else Inr first)"

definition load_generations :: "generation_record row_read \<Rightarrow> ledger \<Rightarrow> generation_record list" where
  "load_generations rq lg = read_rows rq (sort_key gn_id (lg_generations lg))"

definition generations_of_graph ::
  "generation_record row_read \<Rightarrow> ledger \<Rightarrow> string \<Rightarrow> generation_record list" where
  "generations_of_graph rq lg graph = filter (\<lambda>g. gn_graph_id g = graph) (load_generations rq lg)"

section \<open>Deciding\<close>

definition pin_of :: "proven \<Rightarrow> adoption_pin" where
  "pin_of p =
     \<lparr>ap_graph_id = pw_graph_id p, ap_generation_id = pw_generation_id p,
      ap_root_alias = pw_root_alias p, ap_relative_path = pw_relative_path p\<rparr>"

definition decide_graph ::
  "host \<Rightarrow> registry_view \<Rightarrow> path \<Rightarrow> generation_record row_read \<Rightarrow> ledger \<Rightarrow> string list \<Rightarrow> string \<Rightarrow>
    (adoption_pin + adoption_hold) option" where
  "decide_graph h registry checkout rq lg marked graph =
     (let mine = generations_of_graph rq lg graph
      in if graph \<notin> set marked then
           (if mine = [] then Some (Inr (hold graph ''unverified-location'')) else None)
         else if mine = [] then Some (Inr (hold graph ''unverified-location''))
         else (case prove_graph h registry checkout mine of
                 Inr p \<Rightarrow> Some (Inl (pin_of p))
               | Inl reason \<Rightarrow> Some (Inr (hold graph reason))))"

definition adoption_decisions ::
  "adoption_env \<Rightarrow> registry_view \<Rightarrow> path \<Rightarrow> ledger \<Rightarrow> (adoption_pin + adoption_hold) list" where
  "adoption_decisions env registry checkout lg =
     (let marked = read_rows (ad_marked env) (sort (db_legacy_runs (lg_store lg)));
          runs = read_rows (ad_runs env) (sort (map rd_graph_id (db_runs (lg_store lg))))
      in List.map_filter (decide_graph (ad_host env) registry checkout (ad_generations env) lg marked)
           (rev (remdups (rev (runs @ marked)))))"

definition lefts :: "('a + 'b) list \<Rightarrow> 'a list" where
  "lefts xs = List.map_filter (\<lambda>x. case x of Inl a \<Rightarrow> Some a | Inr _ \<Rightarrow> None) xs"

definition rights :: "('a + 'b) list \<Rightarrow> 'b list" where
  "rights xs = List.map_filter (\<lambda>x. case x of Inl _ \<Rightarrow> None | Inr b \<Rightarrow> Some b) xs"

definition decide_adoption ::
  "adoption_env \<Rightarrow> registry_view \<Rightarrow> inventory_scope \<Rightarrow> ledger \<Rightarrow> adoption_report" where
  "decide_adoption env registry scope lg =
     (let ds = adoption_decisions env registry (is_checkout scope) lg;
          adopted = sort_key ap_graph_id (lefts ds);
          retained = sort_key ah_graph_id (rights ds)
      in \<lparr>an_apply = False,
          an_digest = adoption_digest (h_sha256 (ad_host env)) (rr_id (rv_repository registry)) adopted retained,
          an_status = ''preview'', an_adopted = adopted, an_retained = retained\<rparr>)"

section \<open>Applying\<close>

definition load_proven ::
  "host \<Rightarrow> registry_view \<Rightarrow> path \<Rightarrow> generation_record row_read \<Rightarrow> ledger \<Rightarrow> adoption_pin \<Rightarrow>
    proven option" where
  "load_proven h registry checkout rq lg pin =
     (case prove_graph h registry checkout (generations_of_graph rq lg (ap_graph_id pin)) of
        Inr p \<Rightarrow>
          if pw_generation_id p = ap_generation_id pin \<and> pw_root_alias p = ap_root_alias pin \<and>
             pw_relative_path p = ap_relative_path pin
          then Some p else None
      | Inl _ \<Rightarrow> None)"

definition adopted_binding :: "proven \<Rightarrow> store_error + run_binding" where
  "adopted_binding p =
     (case (GraphId_new (pw_graph_id p), LifecycleId_new (pw_repository_id p)) of
        (Inr graph, Inr repo) \<Rightarrow>
          Inr \<lparr>rb_graph_id = graph, rb_repository_id = repo,
               rb_location = \<lparr>pl_root_alias = pw_root_alias p, pl_relative_path = pw_relative_path p\<rparr>,
               rb_layout_version = pw_layout_version p,
               rb_active_generation = None, rb_current_revision = None\<rparr>
      | _ \<Rightarrow> Inl adoption_failed)"

definition unmark_run :: "string \<Rightarrow> ledger \<Rightarrow> ledger" where
  "unmark_run graph lg =
     lg\<lparr>lg_store := (lg_store lg)\<lparr>db_legacy_runs := filter (\<lambda>g. g \<noteq> graph) (db_legacy_runs (lg_store lg))\<rparr>\<rparr>"

definition bind_adopted :: "run_binding \<Rightarrow> ledger \<Rightarrow> store_error + ledger" where
  "bind_adopted b lg =
     try_res (insert_row adoption_failed rb_graph_id
         (run_exists lg (rb_graph_id b) \<and> repository_exists lg (rb_repository_id b) \<and>
          root_exists lg (rb_repository_id b) (pl_root_alias (rb_location b))) b (lg_bindings lg)) (\<lambda>rows.
       Inr (lg\<lparr>lg_bindings := rows,
              lg_store := (lg_store lg)\<lparr>db_bindings := db_bindings (lg_store lg) @ [rb_graph_id b]\<rparr>\<rparr>))"

text \<open>\<open>Inr None\<close> is the early return of a stale report, with the transaction dropped.\<close>

fun adopt_pins ::
  "host \<Rightarrow> registry_view \<Rightarrow> path \<Rightarrow> (nat \<Rightarrow> generation_record row_read) \<Rightarrow> adoption_pin list \<Rightarrow> ledger \<Rightarrow>
    store_error + ledger option" where
  "adopt_pins h registry checkout reads [] lg = Inr (Some lg)"
| "adopt_pins h registry checkout reads (pin # pins) lg =
     (case load_proven h registry checkout (reads 0) lg pin of
        None \<Rightarrow> Inr None
      | Some p \<Rightarrow>
          if count_list (db_legacy_runs (lg_store lg)) (pw_graph_id p) \<noteq> 1 then Inr None
          else try_res (adopted_binding p) (\<lambda>b.
               try_res (bind_adopted b (unmark_run (pw_graph_id p) lg)) (\<lambda>lg'.
                 adopt_pins h registry checkout (\<lambda>i. reads (Suc i)) pins lg')))"

definition adopt_under_fence ::
  "adoption_env \<Rightarrow> inventory_scope \<Rightarrow> string option \<Rightarrow> registry_view \<Rightarrow> ledger \<Rightarrow>
    ledger \<times> (store_error + adoption_report)" where
  "adopt_under_fence env scope digest registry lg =
     (let report = decide_adoption env registry scope lg
      in if digest \<noteq> Some (an_digest report) \<or> an_adopted report = [] then
           (lg, Inr (report\<lparr>an_apply := False,
              an_status := (if digest \<noteq> Some (an_digest report) then ''stale'' else an_status report)\<rparr>))
         else if \<not> ad_open_write env then (lg, Inl adoption_failed)
         else (case adopt_pins (ad_host env) registry (is_checkout scope) (ad_proofs env) (an_adopted report) lg of
                 Inl e \<Rightarrow> (lg, Inl e)
               | Inr None \<Rightarrow> (lg, Inr (report\<lparr>an_apply := False, an_status := ''stale''\<rparr>))
               | Inr (Some lg') \<Rightarrow>
                   if \<not> ad_commit env then (lg, Inl adoption_failed)
                   else (lg', Inr (report\<lparr>an_apply := True, an_status := ''adopted''\<rparr>))))"

definition apply_adoption ::
  "adoption_env \<Rightarrow> inventory_scope \<Rightarrow> string option \<Rightarrow> bool \<Rightarrow> ledger \<Rightarrow>
    ledger \<times> (store_error + adoption_report)" where
  "apply_adoption env scope digest apply0 lg =
     (let h = ad_host env; sha = h_sha256 h
      in if apply0 \<and> \<not> (case digest of None \<Rightarrow> False | Some d \<Rightarrow> length d = 64 \<and> list_all hex_char d)
         then (lg, Inl (StoreIo ''invalid digest''))
         else (case safe_common_dir h (is_checkout scope) of
                 None \<Rightarrow> (lg, Inr (empty_adoption sha ''git-unavailable''))
               | Some common \<Rightarrow>
                   (let registry_path = path_join common (path_of REGISTRY)
                    in if \<not> ad_is_file env registry_path then (lg, Inr (empty_adoption sha ''fence-missing''))
                       else if \<not> ad_is_file env (is_ledger scope)
                       then (lg, Inr (empty_adoption sha ''ledger-missing''))
                       else if \<not> ad_open_read env then (lg, Inl adoption_failed)
                       else if \<not> apply0 then
                         (case read_registry h registry_path of
                            Inl e \<Rightarrow> (lg, Inl e)
                          | Inr None \<Rightarrow> (lg, Inl adoption_failed)
                          | Inr (Some registry) \<Rightarrow> (lg, Inr (decide_adoption env registry scope lg)))
                       else (case ad_acquire env (is_checkout scope) (is_ledger scope) of
                               Inl e \<Rightarrow> (lg, Inl e)
                             | Inr registry \<Rightarrow> adopt_under_fence env scope digest registry lg))))"

section \<open>What an adoption does\<close>

text \<open>A generation whose directory exists where the registry puts it.\<close>

definition generation_proved :: "host \<Rightarrow> registry_view \<Rightarrow> path \<Rightarrow> generation_record \<Rightarrow> bool" where
  "generation_proved h registry checkout g \<longleftrightarrow>
     gn_repository_id g = rr_id (rv_repository registry) \<and>
     (\<exists>r canonical root_canonical.
        map_of (rv_roots registry) (gn_root_alias g) = Some r \<and> live_root h r \<and>
        (let p = join_relative (rt_path r) (gn_relative_path g)
         in p \<noteq> checkout \<and> \<not> path_starts_with checkout p \<and> probe_path h p = Probe_Present \<and>
            h_canonicalize h p = Some canonical \<and> h_canonicalize h (rt_path r) = Some root_canonical \<and>
            path_starts_with canonical root_canonical))"

text \<open>The binding of a run whose generations, as far as they could be read, all prove it.\<close>

definition binding_proved ::
  "host \<Rightarrow> registry_view \<Rightarrow> path \<Rightarrow> generation_record row_read \<Rightarrow> ledger \<Rightarrow> run_binding \<Rightarrow> bool" where
  "binding_proved h registry checkout rq lg b \<longleftrightarrow>
     rb_repository_id b = rr_id (rv_repository registry) \<and> rb_active_generation b = None \<and>
     rb_current_revision b = None \<and>
     (\<exists>g \<in> set (load_generations rq lg). gn_graph_id g = rb_graph_id b \<and>
        rb_location b = \<lparr>pl_root_alias = gn_root_alias g, pl_relative_path = gn_relative_path g\<rparr>) \<and>
     (\<forall>g \<in> set (load_generations rq lg). gn_graph_id g = rb_graph_id b \<longrightarrow>
        generation_proved h registry checkout g \<and> gn_root_alias g = pl_root_alias (rb_location b))"

lemma prove_generation_Inr:
  assumes "prove_generation h registry checkout g = Inr p"
  shows "generation_proved h registry checkout g \<and>
    p = \<lparr>pw_graph_id = gn_graph_id g, pw_generation_id = gn_id g, pw_repository_id = gn_repository_id g,
      pw_root_alias = gn_root_alias g, pw_relative_path = gn_relative_path g,
      pw_layout_version = gn_layout_version g\<rparr>"
  using assms
  by (auto simp: prove_generation_def generation_proved_def Let_def
      split: if_splits option.splits path_probe.splits)

lemma map_res_each: "map_res f xs = Inr ys \<Longrightarrow> list_all2 (\<lambda>x y. f x = Inr y) xs ys"
  by (induction xs arbitrary: ys) (auto simp: try_res_eq_Inr)

lemma prove_graph_Inr:
  assumes "prove_graph h registry checkout mine = Inr p"
  shows "(\<exists>g \<in> set mine. prove_generation h registry checkout g = Inr p) \<and>
    (\<forall>g \<in> set mine. generation_proved h registry checkout g \<and> gn_root_alias g = pw_root_alias p)"
proof -
  obtain proofs where m: "map_res (prove_generation h registry checkout) mine = Inr proofs"
    and c: "(case sort_key pw_generation_id proofs of [] \<Rightarrow> Inl ''unverified-location''
      | first # others \<Rightarrow>
          if list_ex (\<lambda>row. pw_root_alias row \<noteq> pw_root_alias first) (first # others)
          then Inl ''ambiguous-root'' else Inr first) = Inr p"
    using assms unfolding prove_graph_def try_res_eq_Inr by blast
  obtain others where s: "sort_key pw_generation_id proofs = p # others"
    and same: "\<forall>row \<in> set (p # others). pw_root_alias row = pw_root_alias p"
    using c by (cases "sort_key pw_generation_id proofs") (auto simp: list_ex_iff split: if_splits)
  have proofs: "set proofs = set (p # others)" using s by (metis set_sort)
  note each = map_res_each [OF m]
  have "p \<in> set proofs" using proofs by simp
  then obtain i where i: "i < length proofs" "p = proofs ! i" by (auto simp: in_set_conv_nth)
  then have "mine ! i \<in> set mine" "prove_generation h registry checkout (mine ! i) = Inr p"
    using each by (simp_all add: list_all2_conv_all_nth)
  moreover have "generation_proved h registry checkout g \<and> gn_root_alias g = pw_root_alias p" if "g \<in> set mine" for g
  proof -
    obtain j where j: "j < length mine" "g = mine ! j" using \<open>g \<in> set mine\<close> by (auto simp: in_set_conv_nth)
    then have q: "prove_generation h registry checkout g = Inr (proofs ! j)" "proofs ! j \<in> set proofs"
      using each by (simp_all add: list_all2_conv_all_nth)
    then show ?thesis using prove_generation_Inr [OF q(1)] same proofs by auto
  qed
  ultimately show ?thesis by blast
qed

lemma set_generations_of_graph:
  "g \<in> set (generations_of_graph rq lg graph) \<longleftrightarrow> g \<in> set (load_generations rq lg) \<and> gn_graph_id g = graph"
  by (auto simp: generations_of_graph_def)

lemma map_filter_all: "list_all (\<lambda>x. f x = Some x) xs \<Longrightarrow> List.map_filter f xs = xs"
  by (induction xs) (auto simp: List.map_filter_simps)

lemma read_everything: "reads_every rq (lg_generations lg) \<Longrightarrow> set (load_generations rq lg) = set (lg_generations lg)"
  by (subst load_generations_def) (simp add: reads_every_def read_rows_def map_filter_all list_all_iff)

lemma load_proven_Some:
  assumes "load_proven h registry checkout rq lg pin = Some p" and "adopted_binding p = Inr b"
  shows "rb_graph_id b = ap_graph_id pin \<and> pw_graph_id p = ap_graph_id pin \<and>
    binding_proved h registry checkout rq lg b"
proof -
  have pg: "prove_graph h registry checkout (generations_of_graph rq lg (ap_graph_id pin)) = Inr p"
    using assms(1) by (auto simp: load_proven_def split: sum.splits if_splits)
  obtain g where g: "g \<in> set (load_generations rq lg)" "gn_graph_id g = ap_graph_id pin"
    "prove_generation h registry checkout g = Inr p"
    using prove_graph_Inr [OF pg] by (auto simp: set_generations_of_graph)
  have b: "b = \<lparr>rb_graph_id = pw_graph_id p, rb_repository_id = pw_repository_id p,
      rb_location = \<lparr>pl_root_alias = pw_root_alias p, pl_relative_path = pw_relative_path p\<rparr>,
      rb_layout_version = pw_layout_version p, rb_active_generation = None, rb_current_revision = None\<rparr>"
    using assms(2) by (auto simp: adopted_binding_def text_type_news split: sum.splits)
  have gp: "generation_proved h registry checkout g"
    and p: "p = \<lparr>pw_graph_id = gn_graph_id g, pw_generation_id = gn_id g, pw_repository_id = gn_repository_id g,
      pw_root_alias = gn_root_alias g, pw_relative_path = gn_relative_path g,
      pw_layout_version = gn_layout_version g\<rparr>"
    using prove_generation_Inr [OF g(3)] by blast+
  have fields: "rb_graph_id b = ap_graph_id pin" "pw_graph_id p = ap_graph_id pin"
    "rb_repository_id b = gn_repository_id g" "rb_active_generation b = None" "rb_current_revision b = None"
    "rb_location b = \<lparr>pl_root_alias = gn_root_alias g, pl_relative_path = gn_relative_path g\<rparr>"
    using b p g(2) by simp_all
  moreover have "gn_repository_id g = rr_id (rv_repository registry)" using gp by (simp add: generation_proved_def)
  moreover have "generation_proved h registry checkout x \<and> gn_root_alias x = pl_root_alias (rb_location b)"
    if "x \<in> set (load_generations rq lg)" "gn_graph_id x = rb_graph_id b" for x
  proof -
    have "x \<in> set (generations_of_graph rq lg (ap_graph_id pin))"
      using that fields(1) by (simp add: set_generations_of_graph)
    with prove_graph_Inr [OF pg] p fields(6) show ?thesis by simp
  qed
  ultimately show ?thesis using g(1,2) unfolding binding_proved_def by metis
qed

definition adopted_ledger :: "run_binding list \<Rightarrow> ledger \<Rightarrow> ledger" where
  "adopted_ledger new lg =
     lg\<lparr>lg_bindings := lg_bindings lg @ new,
        lg_store := (lg_store lg)
          \<lparr>db_bindings := db_bindings (lg_store lg) @ map rb_graph_id new,
           db_legacy_runs := filter (\<lambda>g. g \<notin> rb_graph_id ` set new) (db_legacy_runs (lg_store lg))\<rparr>\<rparr>"

lemma adopted_ledger_Nil: "adopted_ledger [] lg = lg"
  by (simp add: adopted_ledger_def)

lemma bind_adopted_Inr:
  assumes "bind_adopted b (unmark_run (rb_graph_id b) lg) = Inr lg'"
  shows "lg' = adopted_ledger [b] lg \<and> run_exists lg (rb_graph_id b) \<and> rb_graph_id b \<notin> rb_graph_id ` set (lg_bindings lg)"
  using assms
  by (auto simp: bind_adopted_def try_res_eq_Inr insert_row_Inr unmark_run_def adopted_ledger_def run_exists_def)

lemma adopted_ledger_append: "adopted_ledger bs (adopted_ledger [b] lg) = adopted_ledger (b # bs) lg"
  by (auto simp: adopted_ledger_def intro: filter_cong)

definition adoptable :: "ledger \<Rightarrow> run_binding \<Rightarrow> bool" where
  "adoptable lg b \<longleftrightarrow>
     rb_graph_id b \<in> set (db_legacy_runs (lg_store lg)) \<and> run_exists lg (rb_graph_id b) \<and>
     rb_graph_id b \<notin> rb_graph_id ` set (lg_bindings lg)"

lemma adoptable_back: "adoptable (adopted_ledger [b] lg) c \<Longrightarrow> adoptable lg c \<and> rb_graph_id c \<noteq> rb_graph_id b"
  by (auto simp: adoptable_def adopted_ledger_def run_exists_def)

lemma binding_proved_adopted [simp]:
  "binding_proved h registry checkout rq (adopted_ledger bs lg) b = binding_proved h registry checkout rq lg b"
  by (simp add: binding_proved_def adopted_ledger_def load_generations_def)

lemma adopt_pins_Some:
  "adopt_pins h registry checkout reads pins lg = Inr (Some lg') \<Longrightarrow>
     \<exists>new. lg' = adopted_ledger new lg \<and> map rb_graph_id new = map ap_graph_id pins \<and>
       distinct (map rb_graph_id new) \<and> (\<forall>b \<in> set new. adoptable lg b) \<and>
       (\<forall>i < length new. binding_proved h registry checkout (reads i) lg (new ! i))"
proof (induction pins arbitrary: lg reads)
  case Nil
  then show ?case by (intro exI [of _ "[]"]) (simp add: adopted_ledger_Nil)
next
  case (Cons pin pins)
  let ?reads = "\<lambda>i. reads (Suc i)"
  obtain p b lg1 where p: "load_proven h registry checkout (reads 0) lg pin = Some p"
    and c: "count_list (db_legacy_runs (lg_store lg)) (pw_graph_id p) = 1"
    and b: "adopted_binding p = Inr b" and lg1: "bind_adopted b (unmark_run (pw_graph_id p) lg) = Inr lg1"
    and rest: "adopt_pins h registry checkout ?reads pins lg1 = Inr (Some lg')"
    using Cons.prems by (auto simp: try_res_eq_Inr split: option.splits if_splits)
  note lp = load_proven_Some [OF p b]
  have g: "pw_graph_id p = rb_graph_id b" using lp by simp
  have l1: "lg1 = adopted_ledger [b] lg" "run_exists lg (rb_graph_id b)"
    "rb_graph_id b \<notin> rb_graph_id ` set (lg_bindings lg)"
    using bind_adopted_Inr [OF lg1 [unfolded g]] by blast+
  have "rb_graph_id b \<in> set (db_legacy_runs (lg_store lg))"
    using c g by (metis count_list_0_iff zero_neq_one)
  then have ab: "adoptable lg b" using l1 by (simp add: adoptable_def)
  obtain new where new: "lg' = adopted_ledger new lg1" "map rb_graph_id new = map ap_graph_id pins"
    "distinct (map rb_graph_id new)" "\<forall>x \<in> set new. adoptable lg1 x"
    "\<forall>i < length new. binding_proved h registry checkout (?reads i) lg1 (new ! i)"
    using Cons.IH [OF rest] by blast
  have older: "adoptable lg x \<and> rb_graph_id x \<noteq> rb_graph_id b" if "x \<in> set new" for x
    using new(4) that adoptable_back by (fastforce simp: l1(1))
  have "rb_graph_id b \<notin> set (map rb_graph_id new)" using older by fastforce
  then have "distinct (map rb_graph_id (b # new))" using new(3) by simp
  moreover have "lg' = adopted_ledger (b # new) lg" using new(1) l1(1) by (simp add: adopted_ledger_append)
  moreover have "map rb_graph_id (b # new) = map ap_graph_id (pin # pins)" using new(2) lp by simp
  moreover have "\<forall>x \<in> set (b # new). adoptable lg x" using ab older by simp
  moreover have "binding_proved h registry checkout (reads i) lg ((b # new) ! i)" if "i < length (b # new)" for i
    using that lp new(5) l1(1) by (cases i) simp_all
  ultimately show ?case by blast
qed


definition legacy_ledger :: ledger where
  "legacy_ledger = sample_ledger
     \<lparr>lg_store := empty_store
        \<lparr>db_runs := [\<lparr>rd_graph_id = ''g-1'', rd_plan_state = ''PlanAccepted'', rd_run_base = ''b'',
           rd_integrate_ref = ''r'', rd_plan_json = ''p'', rd_plan_id = ''i'', rd_created_at = ''t'',
           rd_review_note = None\<rparr>],
         db_legacy_runs := [''g-1'']\<rparr>,
      lg_roots := [(''main'', \<lparr>ro_repository_id = ''repo'', ro_alias = ''main'',
        ro_native_identity = sample_identity\<rparr>)]\<rparr>"

definition sample_rows :: "'a row_read" where
  "sample_rows = \<lparr>rq_prepared = True, rq_row = Some\<rparr>"

definition sample_adoption :: adoption_env where
  "sample_adoption =
     \<lparr>ad_host = sample_host False, ad_is_file = (\<lambda>_. True), ad_open_read = True,
      ad_acquire = (\<lambda>_ _. Inr sample_registry), ad_open_write = True, ad_commit = True,
      ad_marked = sample_rows, ad_runs = sample_rows, ad_generations = sample_rows,
      ad_proofs = (\<lambda>_. sample_rows)\<rparr>"

lemma sample_adopted:
  "db_legacy_runs (lg_store (fst (apply_adoption sample_adoption sample_scope (Some sample_identity) True legacy_ledger))) = []"
  by code_simp


text \<open>
  A generation whose payload does not decode does not keep its run from being adopted: the same
  call adopts the run beside a second generation, in a directory that is not there, when the
  second cannot be read, and retains it when it can.
\<close>

definition two_generations :: ledger where
  "two_generations = legacy_ledger
     \<lparr>lg_generations := lg_generations legacy_ledger @
        [(hd (lg_generations legacy_ledger))\<lparr>gn_id := ''lost'', gn_relative_path := ''gone''\<rparr>]\<rparr>"

definition first_row_only :: "generation_record row_read" where
  "first_row_only = \<lparr>rq_prepared = True, rq_row = (\<lambda>g. if gn_id g = ''lost'' then None else Some g)\<rparr>"

definition unread_adoption :: adoption_env where
  "unread_adoption = sample_adoption\<lparr>ad_generations := first_row_only, ad_proofs := (\<lambda>_. first_row_only)\<rparr>"

lemma undecodable_generation_is_skipped:
  "db_legacy_runs (lg_store (fst (apply_adoption unread_adoption sample_scope (Some sample_identity) True two_generations))) = []"
  "db_legacy_runs (lg_store (fst (apply_adoption sample_adoption sample_scope (Some sample_identity) True two_generations))) = [''g-1'']"
  by code_simp+

end
