(* ===== verification/Adapter_Harness.thy ===== *)
theory Adapter_Harness
  imports Adapter_Host Adapter_Redact Engine_Agent
begin

text \<open>
  Harnesses as child processes, \<open>crates/meshloop-adapters/src/harness.rs\<close>: the arguments of a
  dispatch, the bounded capture of the two output streams, and the registry of running attempts
  with its permits. Every section that runs under the registry's mutex is one action, so a session
  is any interleaving of such sections, of the reader threads and of other harness objects that
  share the process-wide permit counter. What the operating system answers is part of an action.

  A permit is a number, the identity of its \<open>Arc\<close>; a child process is named by the permit it was
  started under. A poisoned mutex is left out: no code panics while it holds the mutex.
\<close>

section \<open>Arguments of a dispatch\<close>

datatype prompt_via = ViaFile | ViaArg | ViaStdin

definition prompt_via_parse :: "string \<Rightarrow> prompt_via option" where
  "prompt_via_parse value =
     (if value = ''file'' then Some ViaFile
      else if value = ''arg'' then Some ViaArg
      else if value = ''stdin'' then Some ViaStdin
      else None)"

record cli_harness_config =
  hc_name :: string
  hc_executable :: string
  hc_version_args :: "string list"
  hc_probe_timeout :: duration
  hc_invoke_args_template :: "string list"
  hc_prompt_via :: prompt_via

definition MAX_ARG_INVOCATION_BYTES :: nat where "MAX_ARG_INVOCATION_BYTES = 30000"

definition ARG_TOO_LONG :: string where "ARG_TOO_LONG = ''the prompt is too long for an argument''"

definition placeholder_value :: "string \<Rightarrow> string \<Rightarrow> string option \<Rightarrow> string \<Rightarrow> string option" where
  "placeholder_value prompt_file model_ref prompt token =
     (if token = ''{prompt_file}'' then Some prompt_file
      else if token = ''{model_ref}'' then Some model_ref
      else if token = ''{prompt}'' then prompt
      else None)"

function substitute_arg :: "string \<Rightarrow> string \<Rightarrow> string \<Rightarrow> string option \<Rightarrow> string" where
  "substitute_arg template prompt_file model_ref prompt =
     (case split_once CHR ''{'' template of
        None \<Rightarrow> template
      | Some (out, after) \<Rightarrow>
          (case split_once CHR ''}'' after of
             None \<Rightarrow> out @ CHR ''{'' # after
           | Some (inner, rest) \<Rightarrow>
               (let token = CHR ''{'' # inner @ [CHR ''}'']
                in out @ (case placeholder_value prompt_file model_ref prompt token of
                            Some v \<Rightarrow> v | None \<Rightarrow> token) @
                     substitute_arg rest prompt_file model_ref prompt)))"
  by pat_completeness auto
termination
  by (relation "measure (\<lambda>(t, _). length t)") (auto simp: split_once_Some)

declare substitute_arg.simps [simp del]

definition render_invoke_args ::
  "string list \<Rightarrow> prompt_via \<Rightarrow> string \<Rightarrow> string \<Rightarrow> string \<Rightarrow> string list" where
  "render_invoke_args template via prompt_file model_ref prompt =
     (let text = (case via of ViaFile \<Rightarrow> None | _ \<Rightarrow> Some prompt)
      in map (\<lambda>a. substitute_arg a prompt_file model_ref text) template)"

text \<open>\<open>usize::saturating_add\<close>; \<open>1 + arg.len()\<close> cannot overflow for a text in memory.\<close>

definition joined_invocation_len :: "string \<Rightarrow> string list \<Rightarrow> nat" where
  "joined_invocation_len executable args =
     foldl (\<lambda>n a. min (2 ^ 64 - 1) (n + (1 + length a))) (length executable) args"

section \<open>Capture of an output stream\<close>

definition CAPTURE_SLOTS :: nat where "CAPTURE_SLOTS = 16"
definition STREAM_LIMIT :: nat where "STREAM_LIMIT = 4 * 1024 * 1024"

definition capture_fault :: harness_error where
  "capture_fault = ProcessFault ''harness-output-capture-failed''"

datatype capture_failure = OutputOverflow | OutputRead | OutputUtf8

fun capture_failure_error :: "capture_failure \<Rightarrow> harness_error" where
  "capture_failure_error OutputOverflow = ProcessFault ''harness-output-overflow''"
| "capture_failure_error OutputRead = ProcessFault ''harness-output-read-failed''"
| "capture_failure_error OutputUtf8 = ProcessFault ''harness-output-invalid-utf8''"

text \<open>
  A reader thread: the bytes read so far, or its result. A thread that panicked, or that could not
  be started, holds no permit and has no result.
\<close>

datatype reader = Reading string | Ended "capture_failure + string" | NoReader

datatype pipe_read = PipeChunk string | PipeEof | PipeError

definition reader_read :: "string \<Rightarrow> pipe_read \<Rightarrow> reader" where
  "reader_read bytes r =
     (case r of
        PipeError \<Rightarrow> Ended (Inl OutputRead)
      | PipeEof \<Rightarrow>
          (case from_utf8 bytes of None \<Rightarrow> Ended (Inl OutputUtf8) | Some s \<Rightarrow> Ended (Inr s))
      | PipeChunk chunk \<Rightarrow>
          if length bytes + length chunk > STREAM_LIMIT then Ended (Inl OutputOverflow)
          else Reading (bytes @ chunk))"

record stream_capture =
  ct_stdout :: reader
  ct_stderr :: reader
  ct_failed :: "capture_failure option"

datatype stream = Stdout | Stderr

fun is_reading :: "reader \<Rightarrow> bool" where
  "is_reading (Reading _) = True"
| "is_reading _ = False"

text \<open>One read of a reader thread; a failure is stored for both streams (\<open>failed.store\<close>).\<close>

definition capture_read :: "stream \<Rightarrow> pipe_read \<Rightarrow> stream_capture \<Rightarrow> stream_capture" where
  "capture_read st r c =
     (let old = (case st of Stdout \<Rightarrow> ct_stdout c | Stderr \<Rightarrow> ct_stderr c)
      in case old of
           Reading bytes \<Rightarrow>
             (let new = reader_read bytes r;
                  failed = (case new of Ended (Inl f) \<Rightarrow> Some f | _ \<Rightarrow> ct_failed c)
              in (case st of Stdout \<Rightarrow> c\<lparr>ct_stdout := new, ct_failed := failed\<rparr>
                  | Stderr \<Rightarrow> c\<lparr>ct_stderr := new, ct_failed := failed\<rparr>))
         | _ \<Rightarrow> c)"

definition capture_finished :: "stream_capture \<Rightarrow> bool" where
  "capture_finished c \<longleftrightarrow> \<not> is_reading (ct_stdout c) \<and> \<not> is_reading (ct_stderr c)"

text \<open>\<open>join\<close> on a finished reader; the code joins only after \<open>finished\<close>.\<close>

definition reader_join :: "reader \<Rightarrow> harness_error + string" where
  "reader_join r =
     (case r of
        Ended (Inr s) \<Rightarrow> Inr s
      | Ended (Inl f) \<Rightarrow> Inl (capture_failure_error f)
      | _ \<Rightarrow> Inl (ProcessFault ''harness-output-reader-failed''))"

definition capture_outcome :: "stream_capture \<Rightarrow> harness_error + string \<times> string" where
  "capture_outcome c =
     try_res (reader_join (ct_stdout c)) (\<lambda>out.
     try_res (reader_join (ct_stderr c)) (\<lambda>err. Inr (out, err)))"

section \<open>The registry of running attempts\<close>

type_synonym permit = nat

text \<open>An exit status has a code, or none when a signal ended the process.\<close>

type_synonym exit_status = "i32 option"

record running_child =
  rc_cancellation_attempted :: bool
  rc_child :: "u32 option"
  rc_timeout :: duration
  rc_start :: nat
  rc_status :: "exit_status option"

record slot =
  sl_permit :: permit
  sl_running :: "running_child option"

text \<open>
  What a call holds between two sections under the mutex: \<open>invoke\<close> its permit, \<open>cancel_owned\<close> the
  permit and the entry it has taken out of the slot.
\<close>

datatype flight = Launching | Retained running_child

text \<open>
  \<open>hs_captures\<close> is the static counter, \<open>hs_foreign\<close> the permits of other owners, \<open>hs_attempt\<close> the
  attempt a permit was reserved for. The last four fields are a record of what was done to
  the children, for the statements: \<open>hs_spawned\<close> the permits under which a child was started,
  \<open>hs_killed\<close> those whose tree was killed, \<open>hs_exited\<close> those whose exit was observed.
\<close>

record harness_state =
  hs_captures :: nat
  hs_foreign :: nat
  hs_next :: permit
  hs_attempt :: "permit \<Rightarrow> u32"
  hs_registry :: "u32 \<rightharpoonup> slot"
  hs_flights :: "permit \<rightharpoonup> flight"
  hs_captured :: "permit \<rightharpoonup> stream_capture"
  hs_spawned :: "permit set"
  hs_killed :: "permit set"
  hs_exited :: "permit set"

definition harness_init :: "nat \<Rightarrow> harness_state" where
  "harness_init foreign =
     \<lparr>hs_captures = foreign, hs_foreign = foreign, hs_next = 0, hs_attempt = (\<lambda>_. 0),
      hs_registry = Map.empty, hs_flights = Map.empty, hs_captured = Map.empty,
      hs_spawned = {}, hs_killed = {}, hs_exited = {}\<rparr>"

text \<open>The slot of the permit's attempt, when it is still this permit's slot.\<close>

definition own_slot :: "harness_state \<Rightarrow> permit \<Rightarrow> slot option" where
  "own_slot hs t =
     (case hs_registry hs (hs_attempt hs t) of
        Some s \<Rightarrow> if sl_permit s = t then Some s else None
      | None \<Rightarrow> None)"

definition reserved_slot :: "harness_state \<Rightarrow> permit \<Rightarrow> bool" where
  "reserved_slot hs t = (case own_slot hs t of Some s \<Rightarrow> sl_running s = None | None \<Rightarrow> False)"

text \<open>An \<open>Arc\<close> of the permit is alive: in the slot, in a call, or in a reader thread.\<close>

definition permit_alive :: "harness_state \<Rightarrow> permit \<Rightarrow> bool" where
  "permit_alive hs t \<longleftrightarrow>
     own_slot hs t \<noteq> None \<or> hs_flights hs t \<noteq> None \<or>
     (case hs_captured hs t of Some c \<Rightarrow> \<not> capture_finished c | None \<Rightarrow> False)"

text \<open>\<open>impl Drop for CapturePermit\<close>: the counter goes down for each permit whose last \<open>Arc\<close> is gone.\<close>

definition drop_permits :: "harness_state \<Rightarrow> harness_state \<Rightarrow> harness_state" where
  "drop_permits old new =
     new\<lparr>hs_captures := hs_captures new -
        length (filter (\<lambda>t. permit_alive old t \<and> \<not> permit_alive new t) [0..<hs_next old])\<rparr>"

definition kill_child :: "permit \<Rightarrow> running_child \<Rightarrow> harness_state \<Rightarrow> harness_state" where
  "kill_child t r hs = (if rc_child r = None then hs else hs\<lparr>hs_killed := insert t (hs_killed hs)\<rparr>)"

definition see_exit :: "permit \<Rightarrow> harness_state \<Rightarrow> harness_state" where
  "see_exit t hs = hs\<lparr>hs_exited := insert t (hs_exited hs)\<rparr>"

subsection \<open>Invoke\<close>

definition invoke_args :: "cli_harness_config \<Rightarrow> agent_spec \<Rightarrow> string list" where
  "invoke_args cfg spec =
     render_invoke_args (hc_invoke_args_template cfg) (hc_prompt_via cfg)
       (as_worktree_path spec @ ''/.meshloop-prompt-'' @ show_word (as_attempt_id spec))
       (as_model_ref spec) (as_prompt spec)"

text \<open>The first section of \<open>invoke\<close>: checks, permit, and a slot without a child.\<close>

definition invoke_reserve ::
  "cli_harness_config \<Rightarrow> agent_spec \<Rightarrow> harness_state \<Rightarrow> (harness_error + permit) \<times> harness_state" where
  "invoke_reserve cfg spec hs =
     (if hc_invoke_args_template cfg = [] then (Inl HarnessUnsupported, hs)
      else if hc_prompt_via cfg = ViaArg \<and>
          joined_invocation_len (hc_executable cfg) (invoke_args cfg spec) > MAX_ARG_INVOCATION_BYTES
        then (Inl (ProcessFault ARG_TOO_LONG), hs)
      else if \<not> hs_captures hs < CAPTURE_SLOTS
        then (Inl (ProcessFault ''harness-output-capacity-blocked''), hs)
      else if hs_registry hs (as_attempt_id spec) \<noteq> None then (Inl capture_fault, hs)
      else (let t = hs_next hs; key = as_attempt_id spec
            in (Inr t, hs\<lparr>hs_captures := hs_captures hs + 1, hs_next := t + 1,
                  hs_attempt := (hs_attempt hs)(t := key),
                  hs_registry := (hs_registry hs)(key \<mapsto> \<lparr>sl_permit = t, sl_running = None\<rparr>),
                  hs_flights := (hs_flights hs)(t \<mapsto> Launching)\<rparr>)))"

text \<open>
  What the launch between the two sections meets: the prompt file written, the process spawned,
  each reader thread started, the prompt written to stdin.
\<close>

record launch_answer =
  la_prompt_file :: "string + unit"
  la_spawn :: "string + u32"
  la_readers :: "bool \<times> bool"
  la_stdin :: "string + unit"
  la_now :: nat

definition start_reader :: "bool \<Rightarrow> reader" where
  "start_reader ok = (if ok then Reading [] else NoReader)"

text \<open>
  The launch: the child and its capture come into being even when a later step fails, in which
  case the tree is killed.
\<close>

definition launch ::
  "cli_harness_config \<Rightarrow> agent_spec \<Rightarrow> launch_answer \<Rightarrow> permit \<Rightarrow> harness_state \<Rightarrow>
    (harness_error + running_child) \<times> harness_state" where
  "launch cfg spec ans t hs =
     (case la_prompt_file ans of
        Inl e \<Rightarrow> (Inl (ProcessFault e), hs)
      | Inr _ \<Rightarrow>
          (case la_spawn ans of
             Inl e \<Rightarrow> (Inl (ProcessFault e), hs)
           | Inr pid \<Rightarrow>
               (let r = \<lparr>rc_cancellation_attempted = False, rc_child = Some pid, rc_timeout = as_timeout spec,
                         rc_start = la_now ans, rc_status = None\<rparr>;
                    hs1 = hs\<lparr>hs_spawned := insert t (hs_spawned hs),
                       hs_captured := (hs_captured hs)(t \<mapsto>
                         \<lparr>ct_stdout = start_reader (fst (la_readers ans)),
                          ct_stderr = start_reader (snd (la_readers ans)), ct_failed = None\<rparr>)\<rparr>
                in if la_readers ans \<noteq> (True, True) then (Inl capture_fault, kill_child t r hs1)
                   else if hc_prompt_via cfg = ViaStdin then
                     (case la_stdin ans of
                        Inl e \<Rightarrow> (Inl (ProcessFault e), kill_child t r hs1)
                      | Inr _ \<Rightarrow> (Inr r, hs1))
                   else (Inr r, hs1))))"

definition set_slot :: "permit \<Rightarrow> slot option \<Rightarrow> harness_state \<Rightarrow> harness_state" where
  "set_slot t s hs = hs\<lparr>hs_registry := (hs_registry hs)(hs_attempt hs t := s)\<rparr>"

definition end_flight :: "permit \<Rightarrow> harness_state \<Rightarrow> harness_state" where
  "end_flight t hs = hs\<lparr>hs_flights := (hs_flights hs)(t := None)\<rparr>"

text \<open>
  The second section of \<open>invoke\<close>: the child enters the slot only if the slot is still the one it
  was reserved as; otherwise it is killed. A failed launch gives the slot back.
\<close>

definition invoke_finish ::
  "cli_harness_config \<Rightarrow> agent_spec \<Rightarrow> launch_answer \<Rightarrow> permit \<Rightarrow> harness_state \<Rightarrow>
    (harness_error + harness_handle) \<times> harness_state" where
  "invoke_finish cfg spec ans t hs =
     (case launch cfg spec ans t hs of
        (Inl e, hs1) \<Rightarrow>
          (Inl e, end_flight t (if reserved_slot hs1 t then set_slot t None hs1 else hs1))
      | (Inr r, hs1) \<Rightarrow>
          if reserved_slot hs1 t then
            (Inr \<lparr>hh_attempt_id = as_attempt_id spec, hh_pid = rc_child r, hh_pane_id = None\<rparr>,
             end_flight t (set_slot t (Some \<lparr>sl_permit = t, sl_running = Some r\<rparr>) hs1))
          else (Inl capture_fault, end_flight t (kill_child t r hs1)))"

subsection \<open>Owned cancellation\<close>

definition retain_take :: "harness_handle \<Rightarrow> harness_state \<Rightarrow> (harness_error + permit) \<times> harness_state" where
  "retain_take h hs =
     (case hs_registry hs (hh_attempt_id h) of
        None \<Rightarrow> (Inl HarnessUnsupported, hs)
      | Some s \<Rightarrow>
          (case sl_running s of
             None \<Rightarrow> (Inl HarnessUnsupported, hs)
           | Some r \<Rightarrow>
               if hh_pid h \<noteq> rc_child r \<or> hh_pane_id h \<noteq> None then (Inl HarnessUnsupported, hs)
               else (Inr (sl_permit s),
                     hs\<lparr>hs_registry := (hs_registry hs)(hh_attempt_id h \<mapsto> s\<lparr>sl_running := None\<rparr>),
                        hs_flights := (hs_flights hs)(sl_permit s \<mapsto> Retained r)\<rparr>)))"

datatype platform = Posix | Windows

text \<open>
  What the operating system answers to a cancellation: \<open>try_wait\<close> after the kill on POSIX,
  \<open>terminate_and_observe\<close> (the status, and whether the job is empty) on Windows.
\<close>

record cancel_answer =
  ca_try_wait :: "exit_status option option"
  ca_terminate :: "(exit_status \<times> bool) option"

definition cancel_operation ::
  "platform \<Rightarrow> cancel_answer \<Rightarrow> permit \<Rightarrow> running_child \<Rightarrow> harness_state \<Rightarrow>
    (harness_error + unit) \<times> running_child \<times> harness_state" where
  "cancel_operation pf ans t r hs =
     (if rc_cancellation_attempted r then (Inl HarnessUnsupported, r, hs)
      else (let r1 = r\<lparr>rc_cancellation_attempted := True\<rparr>
            in if rc_child r1 = None then (Inl HarnessUnsupported, r1, hs)
               else case pf of
                 Posix \<Rightarrow>
                   if rc_status r1 = None then
                     (case ca_try_wait ans of
                        None \<Rightarrow> (Inl capture_fault, r1, kill_child t r1 hs)
                      | Some None \<Rightarrow> (Inl HarnessUnsupported, r1, kill_child t r1 hs)
                      | Some (Some st) \<Rightarrow>
                          (Inl HarnessUnsupported, r1\<lparr>rc_status := Some st, rc_child := None\<rparr>,
                           see_exit t (kill_child t r1 hs)))
                   else (Inl HarnessUnsupported, r1\<lparr>rc_child := None\<rparr>, hs)
               | Windows \<Rightarrow>
                   (case ca_terminate ans of
                      None \<Rightarrow> (Inl (ProcessFault ''owned-tree-quiescence-unproved''), r1, kill_child t r1 hs)
                    | Some (st, job_empty) \<Rightarrow>
                        if \<not> job_empty then (Inl HarnessUnsupported, r1, kill_child t r1 hs)
                        else (Inr (), r1\<lparr>rc_status := Some st\<rparr>, see_exit t (kill_child t r1 hs)))))"

text \<open>
  The second section: the entry goes back into the slot it was taken from; if that slot is gone
  the entry is dropped, which on Windows closes the job and so kills what is left.
\<close>

definition retain_put ::
  "platform \<Rightarrow> cancel_answer \<Rightarrow> permit \<Rightarrow> harness_state \<Rightarrow> (harness_error + unit) \<times> harness_state" where
  "retain_put pf ans t hs =
     (case hs_flights hs t of
        Some (Retained r0) \<Rightarrow>
          (let (result, r, hs1) = cancel_operation pf ans t r0 hs
           in if reserved_slot hs1 t then
                (result, end_flight t (set_slot t (Some \<lparr>sl_permit = t, sl_running = Some r\<rparr>) hs1))
              else (Inl capture_fault,
                    end_flight t (if pf = Windows then kill_child t r hs1 else hs1)))
      | _ \<Rightarrow> (Inl capture_fault, hs))"

subsection \<open>Liveness, cancellation and collection\<close>

definition session_live :: "harness_handle \<Rightarrow> harness_state \<Rightarrow> live_check" where
  "session_live h hs =
     (case hs_registry hs (hh_attempt_id h) of
        None \<Rightarrow> Dead
      | Some s \<Rightarrow> (case sl_running s of Some _ \<Rightarrow> Live | None \<Rightarrow> Ambiguous))"

text \<open>An attempt that is not registered may have an orphan: \<open>kill_orphaned_tree\<close> acts outside this state.\<close>

definition harness_cancel :: "harness_handle \<Rightarrow> harness_state \<Rightarrow> harness_state" where
  "harness_cancel h hs =
     (case hs_registry hs (hh_attempt_id h) of
        None \<Rightarrow> hs
      | Some s \<Rightarrow>
          (let hs1 = hs\<lparr>hs_registry := (hs_registry hs)(hh_attempt_id h := None)\<rparr>
           in case sl_running s of None \<Rightarrow> hs1 | Some r \<Rightarrow> kill_child (sl_permit s) r hs1))"

record collect_answer =
  co_try_wait :: "exit_status option option"
  co_now :: nat

definition remove_and_kill ::
  "u32 \<Rightarrow> slot \<Rightarrow> running_child \<Rightarrow> harness_state \<Rightarrow> harness_state" where
  "remove_and_kill key s r hs =
     kill_child (sl_permit s) r (hs\<lparr>hs_registry := (hs_registry hs)(key := None)\<rparr>)"

definition CAPACITY_RETRY :: duration where "CAPACITY_RETRY = 60 * 10 ^ 9"

text \<open>A finished attempt: its exit status and both outputs, or the error they give.\<close>

definition finished_outcome :: "exit_status \<Rightarrow> stream_capture \<Rightarrow> harness_error + harness_outcome option" where
  "finished_outcome st c =
     try_res (capture_outcome c) (\<lambda>(out, err).
       if str_contains (to_ascii_lowercase err) ''capacity exhausted'' then Inl (CapacityExhausted CAPACITY_RETRY)
       else Inr (Some \<lparr>ho_exit_code = (case st of Some c \<Rightarrow> c | None \<Rightarrow> -1),
              ho_output_redacted = redact out, ho_stderr_redacted = redact err,
              ho_worktree_changed = False\<rparr>))"

text \<open>The exit status after the poll; \<open>None\<close> when \<open>try_wait\<close> failed.\<close>

definition poll_status :: "collect_answer \<Rightarrow> running_child \<Rightarrow> exit_status option option" where
  "poll_status ans r =
     (if rc_status r = None \<and> rc_child r \<noteq> None then co_try_wait ans else Some (rc_status r))"

definition try_collect ::
  "collect_answer \<Rightarrow> harness_handle \<Rightarrow> harness_state \<Rightarrow>
    (harness_error + harness_outcome option) \<times> harness_state" where
  "try_collect ans h hs =
     (let key = hh_attempt_id h
      in case hs_registry hs key of
           None \<Rightarrow> (Inl capture_fault, hs)
         | Some s \<Rightarrow>
             (case (sl_running s, hs_captured hs (sl_permit s)) of
                (Some r, Some c) \<Rightarrow>
                  (case ct_failed c of
                     Some f \<Rightarrow> (Inl (capture_failure_error f), remove_and_kill key s r hs)
                   | None \<Rightarrow>
                       (case poll_status ans r of
                          None \<Rightarrow> (Inl capture_fault, remove_and_kill key s r hs)
                        | Some status \<Rightarrow>
                            (let r1 = r\<lparr>rc_status := status\<rparr>;
                                 s1 = s\<lparr>sl_running := Some r1\<rparr>;
                                 hs1 = (if status = None then hs else see_exit (sl_permit s) hs)
                                         \<lparr>hs_registry := (hs_registry hs)(key \<mapsto> s1)\<rparr>
                             in if status \<noteq> None \<and> capture_finished c then
                                  (finished_outcome (the status) c,
                                   hs1\<lparr>hs_registry := (hs_registry hs)(key := None)\<rparr>)
                                else if co_now ans - rc_start r \<ge> rc_timeout r then
                                  (Inl (if status \<noteq> None then ProcessFault ''harness-output-eof-timeout''
                                        else Timeout), remove_and_kill key s1 r1 hs1)
                                else (Inr None, hs1))))
              | _ \<Rightarrow> (Inr None, hs)))"

text \<open>\<open>collect\<close> polls until there is an answer; \<open>None\<close> is a call that still polls.\<close>

fun harness_collect ::
  "collect_answer list \<Rightarrow> harness_handle \<Rightarrow> harness_state \<Rightarrow>
    (harness_error + harness_outcome) option \<times> harness_state" where
  "harness_collect [] h hs = (None, hs)"
| "harness_collect (ans # rest) h hs =
     (case try_collect ans h hs of
        (Inl e, hs1) \<Rightarrow> (Some (Inl e), hs1)
      | (Inr (Some out), hs1) \<Rightarrow> (Some (Inr out), hs1)
      | (Inr None, hs1) \<Rightarrow> harness_collect rest h hs1)"

subsection \<open>Actions\<close>

datatype harness_action =
    InvokeReserve cli_harness_config agent_spec
  | InvokeFinish cli_harness_config agent_spec launch_answer permit
  | RetainTake harness_handle
  | RetainPut platform cancel_answer permit
  | Cancel harness_handle
  | TryCollect collect_answer harness_handle
  | ReaderRead permit stream pipe_read
  | ForeignReserve
  | ForeignRelease

text \<open>\<open>invoke\<close> goes on only with the permit it holds.\<close>

fun harness_section :: "harness_action \<Rightarrow> harness_state \<Rightarrow> harness_state" where
  "harness_section (InvokeReserve cfg spec) hs = snd (invoke_reserve cfg spec hs)"
| "harness_section (InvokeFinish cfg spec ans t) hs =
     (if hs_flights hs t = Some Launching then snd (invoke_finish cfg spec ans t hs) else hs)"
| "harness_section (RetainTake h) hs = snd (retain_take h hs)"
| "harness_section (RetainPut pf ans t) hs = snd (retain_put pf ans t hs)"
| "harness_section (Cancel h) hs = harness_cancel h hs"
| "harness_section (TryCollect ans h) hs = snd (try_collect ans h hs)"
| "harness_section (ReaderRead t st r) hs =
     (case hs_captured hs t of
        None \<Rightarrow> hs
      | Some c \<Rightarrow> hs\<lparr>hs_captured := (hs_captured hs)(t \<mapsto> capture_read st r c)\<rparr>)"
| "harness_section ForeignReserve hs =
     (if hs_captures hs < CAPTURE_SLOTS
      then hs\<lparr>hs_captures := hs_captures hs + 1, hs_foreign := hs_foreign hs + 1\<rparr> else hs)"
| "harness_section ForeignRelease hs =
     (if hs_foreign hs = 0 then hs
      else hs\<lparr>hs_captures := hs_captures hs - 1, hs_foreign := hs_foreign hs - 1\<rparr>)"

definition harness_step :: "harness_action \<Rightarrow> harness_state \<Rightarrow> harness_state" where
  "harness_step a hs = drop_permits hs (harness_section a hs)"

inductive harness_reach :: "harness_state \<Rightarrow> bool" where
  harness_start: "n \<le> CAPTURE_SLOTS \<Longrightarrow> harness_reach (harness_init n)"
| harness_next: "harness_reach hs \<Longrightarrow> harness_reach (harness_step a hs)"

section \<open>One permit at a time\<close>

text \<open>
  Each section changes what belongs to one permit only. \<open>permit_view\<close> is everything that belongs to a permit,
  \<open>view_update\<close> says that a section changed the view of one permit and nothing else.
\<close>

record permit_view =
  pv_slot :: "slot option"
  pv_flight :: "flight option"
  pv_capture :: "stream_capture option"
  pv_spawned :: bool
  pv_killed :: bool
  pv_exited :: bool

definition view_of :: "harness_state \<Rightarrow> permit \<Rightarrow> permit_view" where
  "view_of hs t =
     \<lparr>pv_slot = own_slot hs t, pv_flight = hs_flights hs t, pv_capture = hs_captured hs t,
      pv_spawned = (t \<in> hs_spawned hs), pv_killed = (t \<in> hs_killed hs), pv_exited = (t \<in> hs_exited hs)\<rparr>"

definition view_alive :: "permit_view \<Rightarrow> bool" where
  "view_alive v \<longleftrightarrow> pv_slot v \<noteq> None \<or> pv_flight v \<noteq> None \<or>
     (case pv_capture v of Some c \<Rightarrow> \<not> capture_finished c | None \<Rightarrow> False)"

lemma permit_alive_view: "permit_alive hs t = view_alive (view_of hs t)"
  by (simp add: permit_alive_def view_alive_def view_of_def)

definition registry_ok :: "harness_state \<Rightarrow> bool" where
  "registry_ok hs \<longleftrightarrow>
     (\<forall>k s. hs_registry hs k = Some s \<longrightarrow> sl_permit s < hs_next hs \<and> hs_attempt hs (sl_permit s) = k)"

definition view_update :: "harness_state \<Rightarrow> harness_state \<Rightarrow> permit \<Rightarrow> permit_view \<Rightarrow> bool" where
  "view_update hs hs' t v \<longleftrightarrow>
     hs_next hs' = hs_next hs \<and> hs_attempt hs' = hs_attempt hs \<and> hs_captures hs' = hs_captures hs \<and>
     hs_foreign hs' = hs_foreign hs \<and> registry_ok hs' \<and>
     (\<forall>u. view_of hs' u = (if u = t then v else view_of hs u))"

lemma view_update_trans:
  "view_update hs hs1 t v1 \<Longrightarrow> view_update hs1 hs2 t v2 \<Longrightarrow> view_update hs hs2 t v2"
  by (simp add: view_update_def)

lemma view_update_refl: "registry_ok hs \<Longrightarrow> view_update hs hs t (view_of hs t)"
  by (simp add: view_update_def)

lemma view_update_ok: "view_update hs hs' t v \<Longrightarrow> registry_ok hs'"
  by (simp add: view_update_def)

lemma view_update_view: "view_update hs hs' t v \<Longrightarrow> view_of hs' t = v"
  by (simp add: view_update_def)

lemma own_slot_registry:
  "registry_ok hs \<Longrightarrow> hs_registry hs k = Some s \<Longrightarrow>
     own_slot hs (sl_permit s) = Some s \<and> sl_permit s < hs_next hs \<and> hs_attempt hs (sl_permit s) = k"
  by (auto simp: registry_ok_def own_slot_def)

lemma own_slot_Some:
  "own_slot hs t = Some s \<longleftrightarrow> hs_registry hs (hs_attempt hs t) = Some s \<and> sl_permit s = t"
  by (auto simp: own_slot_def split: option.splits if_splits)

lemma kill_child_view:
  "registry_ok hs \<Longrightarrow> view_update hs (kill_child t r hs) t
     ((view_of hs t)\<lparr>pv_killed := pv_killed (view_of hs t) \<or> rc_child r \<noteq> None\<rparr>)"
  by (auto simp: kill_child_def view_update_def view_of_def own_slot_def registry_ok_def)

lemma see_exit_view:
  "registry_ok hs \<Longrightarrow> view_update hs (see_exit t hs) t ((view_of hs t)\<lparr>pv_exited := True\<rparr>)"
  by (auto simp: see_exit_def view_update_def view_of_def own_slot_def registry_ok_def)

lemma end_flight_view:
  "registry_ok hs \<Longrightarrow> view_update hs (end_flight t hs) t ((view_of hs t)\<lparr>pv_flight := None\<rparr>)"
  by (auto simp: end_flight_def view_update_def view_of_def own_slot_def registry_ok_def)

lemma registry_update_view:
  assumes "registry_ok hs" "own_slot hs t = Some s" "\<And>x. s' = Some x \<Longrightarrow> sl_permit x = t"
  shows "view_update hs (hs\<lparr>hs_registry := (hs_registry hs)(hs_attempt hs t := s')\<rparr>) t
     ((view_of hs t)\<lparr>pv_slot := s'\<rparr>)"
proof -
  let ?hs = "hs\<lparr>hs_registry := (hs_registry hs)(hs_attempt hs t := s')\<rparr>"
  have t: "t < hs_next hs" "hs_registry hs (hs_attempt hs t) = Some s" "sl_permit s = t"
    using assms(1,2) by (auto simp: own_slot_Some registry_ok_def)
  have "own_slot ?hs u = (if u = t then s' else own_slot hs u)" for u
    using assms(3) t by (cases s') (auto simp: own_slot_def)
  moreover have "registry_ok ?hs"
    using assms(1,3) t by (auto simp: registry_ok_def)
  ultimately show ?thesis by (simp add: view_update_def view_of_def)
qed

lemma set_slot_view:
  "registry_ok hs \<Longrightarrow> own_slot hs t = Some s \<Longrightarrow> (\<And>x. s' = Some x \<Longrightarrow> sl_permit x = t) \<Longrightarrow>
     view_update hs (set_slot t s' hs) t ((view_of hs t)\<lparr>pv_slot := s'\<rparr>)"
  unfolding set_slot_def by (rule registry_update_view)

section \<open>What holds of every permit\<close>

definition entry_ok :: "permit_view \<Rightarrow> running_child \<Rightarrow> bool" where
  "entry_ok v r \<longleftrightarrow> pv_spawned v \<and> pv_capture v \<noteq> None \<and>
     (rc_child r = None \<longrightarrow> pv_exited v) \<and> (rc_status r \<noteq> None \<longrightarrow> pv_exited v) \<and>
     (rc_cancellation_attempted r \<longrightarrow> pv_killed v \<or> pv_exited v)"

definition view_running :: "permit_view \<Rightarrow> running_child option" where
  "view_running v =
     (case pv_flight v of
        Some (Retained r) \<Rightarrow> Some r
      | _ \<Rightarrow> (case pv_slot v of Some s \<Rightarrow> sl_running s | None \<Rightarrow> None))"

definition view_ok :: "permit_view \<Rightarrow> bool" where
  "view_ok v \<longleftrightarrow>
     (\<forall>s r. pv_slot v = Some s \<and> sl_running s = Some r \<longrightarrow> pv_flight v = None) \<and>
     (\<forall>r. view_running v = Some r \<longrightarrow> entry_ok v r) \<and>
     (pv_flight v = Some Launching \<longrightarrow> \<not> pv_spawned v) \<and>
     (pv_capture v \<noteq> None \<longrightarrow> pv_spawned v) \<and>
     (pv_spawned v \<longrightarrow> (\<exists>r. view_running v = Some r \<and> rc_child r \<noteq> None) \<or> pv_killed v \<or> pv_exited v)"

definition no_view :: permit_view where
  "no_view = \<lparr>pv_slot = None, pv_flight = None, pv_capture = None, pv_spawned = False,
     pv_killed = False, pv_exited = False\<rparr>"

definition harness_inv :: "harness_state \<Rightarrow> bool" where
  "harness_inv hs \<longleftrightarrow> registry_ok hs \<and> (\<forall>t. view_ok (view_of hs t)) \<and>
     (\<forall>t \<ge> hs_next hs. view_of hs t = no_view)"

text \<open>The effects a section can have.\<close>

inductive harness_effect :: "harness_state \<Rightarrow> harness_state \<Rightarrow> bool" where
  effect_none: "harness_effect hs hs"
| effect_view: "view_update hs hs' t v \<Longrightarrow> t < hs_next hs \<Longrightarrow> view_ok v \<Longrightarrow>
    (view_alive v \<Longrightarrow> view_alive (view_of hs t)) \<Longrightarrow> 
    (pv_slot v \<noteq> None \<or> pv_flight v \<noteq> None \<Longrightarrow> pv_slot (view_of hs t) \<noteq> None \<or> pv_flight (view_of hs t) \<noteq> None) \<Longrightarrow>
    harness_effect hs hs'"
| effect_reserve: "hs_captures hs < CAPTURE_SLOTS \<Longrightarrow> hs_next hs' = Suc (hs_next hs) \<Longrightarrow>
    hs_captures hs' = Suc (hs_captures hs) \<Longrightarrow> hs_foreign hs' = hs_foreign hs \<Longrightarrow> registry_ok hs' \<Longrightarrow>
    view_of hs' (hs_next hs) = no_view\<lparr>pv_slot := Some \<lparr>sl_permit = hs_next hs, sl_running = None\<rparr>,
      pv_flight := Some Launching\<rparr> \<Longrightarrow>
    (\<And>t. t \<noteq> hs_next hs \<Longrightarrow> view_of hs' t = view_of hs t) \<Longrightarrow> harness_effect hs hs'"
| effect_foreign: "hs_captures hs' + hs_foreign hs = hs_captures hs + hs_foreign hs' \<Longrightarrow>
    hs_captures hs' \<le> max CAPTURE_SLOTS (hs_captures hs) \<Longrightarrow> hs_next hs' = hs_next hs \<Longrightarrow>
    registry_ok hs' \<Longrightarrow> (\<And>t. view_of hs' t = view_of hs t) \<Longrightarrow> harness_effect hs hs'"

lemma harness_invD:
  assumes "harness_inv hs"
  shows "registry_ok hs" "view_ok (view_of hs t)" "hs_next hs \<le> t \<Longrightarrow> view_of hs t = no_view"
  using assms by (auto simp: harness_inv_def)

lemma slot_facts:
  assumes "harness_inv hs" "hs_registry hs k = Some s"
  shows "own_slot hs (sl_permit s) = Some s" "sl_permit s < hs_next hs" "hs_attempt hs (sl_permit s) = k"
    "pv_slot (view_of hs (sl_permit s)) = Some s"
  using own_slot_registry[OF harness_invD(1)[OF assms(1)] assms(2)] by (auto simp: view_of_def)

lemma flight_bound: "harness_inv hs \<Longrightarrow> hs_flights hs t \<noteq> None \<Longrightarrow> t < hs_next hs"
  using harness_invD(3)[of hs t] by (force simp: view_of_def no_view_def not_less)

lemma capture_bound: "harness_inv hs \<Longrightarrow> hs_captured hs t \<noteq> None \<Longrightarrow> t < hs_next hs"
  using harness_invD(3)[of hs t] by (force simp: view_of_def no_view_def not_less)

lemmas view_defs = view_ok_def entry_ok_def view_running_def

text \<open>A section on a permit that a slot or a call holds.\<close>

lemma effect_held:
  "view_update hs hs' t v \<Longrightarrow> t < hs_next hs \<Longrightarrow>
     pv_slot (view_of hs t) \<noteq> None \<or> pv_flight (view_of hs t) \<noteq> None \<Longrightarrow> view_ok v \<Longrightarrow> harness_effect hs hs'"
  by (erule effect_view) (auto simp: view_alive_def)

lemma reserve_effect:
  assumes "harness_inv hs"
  shows "harness_effect hs (snd (invoke_reserve cfg spec hs))"
proof (cases "fst (invoke_reserve cfg spec hs)")
  case (Inl e)
  then have "snd (invoke_reserve cfg spec hs) = hs"
    by (auto simp: invoke_reserve_def Let_def split: if_splits)
  then show ?thesis by (simp add: effect_none)
next
  case (Inr t)
  let ?n = "hs_next hs" and ?k = "as_attempt_id spec"
  let ?hs = "hs\<lparr>hs_captures := hs_captures hs + 1, hs_next := ?n + 1,
                  hs_attempt := (hs_attempt hs)(?n := ?k),
                  hs_registry := (hs_registry hs)(?k \<mapsto> \<lparr>sl_permit = ?n, sl_running = None\<rparr>),
                  hs_flights := (hs_flights hs)(?n \<mapsto> Launching)\<rparr>"
  have new: "snd (invoke_reserve cfg spec hs) = ?hs" and room: "hs_captures hs < CAPTURE_SLOTS"
    and free: "hs_registry hs ?k = None"
    using Inr by (auto simp: invoke_reserve_def Let_def split: if_splits)
  have reg: "registry_ok hs" and none: "view_of hs ?n = no_view"
    using harness_invD[OF assms] by auto
  have "registry_ok ?hs" using reg by (fastforce simp: registry_ok_def)
  moreover have "view_of ?hs ?n = no_view\<lparr>pv_slot := Some \<lparr>sl_permit = ?n, sl_running = None\<rparr>,
      pv_flight := Some Launching\<rparr>"
    using none by (auto simp: view_of_def no_view_def own_slot_def)
  moreover have "view_of ?hs t = view_of hs t" if "t \<noteq> ?n" for t
    using that free by (auto simp: view_of_def own_slot_def split: option.splits)
  ultimately show ?thesis unfolding new using room by (intro effect_reserve) auto
qed

lemma launch_view:
  assumes "registry_ok hs" "launch cfg spec ans t hs = (res, hs1)"
  shows "\<exists>v. view_update hs hs1 t v \<and> pv_slot v = own_slot hs t \<and> pv_flight v = hs_flights hs t \<and>
    pv_exited v = (t \<in> hs_exited hs) \<and>
    (case res of
       Inr r \<Rightarrow> pv_spawned v \<and> pv_capture v \<noteq> None \<and> rc_child r \<noteq> None \<and> rc_status r = None \<and>
         \<not> rc_cancellation_attempted r
     | Inl _ \<Rightarrow> v = view_of hs t \<or> pv_spawned v \<and> pv_killed v)"
proof -
  let ?hs = "hs\<lparr>hs_spawned := insert t (hs_spawned hs),
       hs_captured := (hs_captured hs)(t \<mapsto>
         \<lparr>ct_stdout = start_reader (fst (la_readers ans)),
          ct_stderr = start_reader (snd (la_readers ans)), ct_failed = None\<rparr>)\<rparr>"
  let ?v = "view_of ?hs t"
  have base: "view_update hs ?hs t ?v"
    using assms(1) by (auto simp: view_update_def view_of_def own_slot_def registry_ok_def)
  note kill = view_update_trans[OF base kill_child_view[OF view_update_ok[OF base]]]
  have v: "pv_slot ?v = own_slot hs t" "pv_flight ?v = hs_flights hs t" "pv_spawned ?v" "pv_capture ?v \<noteq> None"
    "pv_exited ?v = (t \<in> hs_exited hs)"
    by (auto simp: view_of_def own_slot_def)
  show ?thesis
  proof (cases res)
    case (Inr r)
    then have "hs1 = ?hs" "rc_child r \<noteq> None" "rc_status r = None" "\<not> rc_cancellation_attempted r"
      using assms(2) by (auto simp: launch_def Let_def split: sum.splits if_splits)
    with base v Inr show ?thesis by (intro exI[of _ ?v]) simp
  next
    case (Inl e)
    then have "hs1 = hs \<or> (\<exists>r. hs1 = kill_child t r ?hs \<and> rc_child r \<noteq> None)"
      using assms(2) by (auto simp: launch_def Let_def split: sum.splits if_splits)
    then show ?thesis
    proof
      assume "hs1 = hs"
      with Inl view_update_refl[OF assms(1), of t] show ?thesis
        by (intro exI[of _ "view_of hs t"]) (simp add: view_of_def)
    next
      assume "\<exists>r. hs1 = kill_child t r ?hs \<and> rc_child r \<noteq> None"
      then obtain r where "hs1 = kill_child t r ?hs" "rc_child r \<noteq> None" by blast
      with Inl v kill[of r] show ?thesis
        by (intro exI[of _ "?v\<lparr>pv_killed := pv_killed ?v \<or> rc_child r \<noteq> None\<rparr>"]) simp
    qed
  qed
qed

lemma reserved_slot_Some:
  "reserved_slot hs t \<Longrightarrow> \<exists>s. own_slot hs t = Some s \<and> sl_running s = None"
  by (auto simp: reserved_slot_def split: option.splits)

lemma finish_effect:
  assumes inv: "harness_inv hs" and fl: "hs_flights hs t = Some Launching"
  shows "harness_effect hs (snd (invoke_finish cfg spec ans t hs))"
proof -
  obtain res hs1 where l: "launch cfg spec ans t hs = (res, hs1)" by fastforce
  obtain v where v: "view_update hs hs1 t v" "pv_slot v = own_slot hs t" "pv_flight v = Some Launching"
    "pv_exited v = (t \<in> hs_exited hs)"
    and res: "case res of
       Inr r \<Rightarrow> pv_spawned v \<and> pv_capture v \<noteq> None \<and> rc_child r \<noteq> None \<and> rc_status r = None \<and>
         \<not> rc_cancellation_attempted r
     | Inl _ \<Rightarrow> v = view_of hs t \<or> pv_spawned v \<and> pv_killed v"
    using launch_view[OF harness_invD(1)[OF inv] l] fl by auto
  have v1: "view_of hs1 t = v" and reg: "registry_ok hs1"
    using view_update_view[OF v(1)] view_update_ok[OF v(1)] by auto
  have t: "t < hs_next hs" using flight_bound[OF inv] fl by simp
  have held: "pv_slot (view_of hs t) \<noteq> None \<or> pv_flight (view_of hs t) \<noteq> None"
    using fl by (simp add: view_of_def)
  have old: "view_ok (view_of hs t)" using harness_invD(2)[OF inv] .
  have no_run: "view_running v = None" if "sl_running s = None" "pv_slot v = Some s" for s
    using that v(3) by (simp add: view_running_def)
  have slot_none: "sl_running s = None" if "pv_slot v = Some s" for s
    using that v(2) fl old by (auto simp: view_defs view_of_def)
  have own: "own_slot hs1 t = pv_slot v" using v1 by (auto simp: view_of_def)
  show ?thesis
  proof (cases res)
    case (Inl e)
    show ?thesis
    proof (cases "reserved_slot hs1 t")
      case True
      then obtain s where s: "own_slot hs1 t = Some s" using reserved_slot_Some by blast
      have u: "view_update hs (end_flight t (set_slot t None hs1)) t (v\<lparr>pv_slot := None, pv_flight := None\<rparr>)"
        using view_update_trans[OF v(1) set_slot_view[OF reg s, of None]]
          end_flight_view[OF view_update_ok[OF set_slot_view[OF reg s, of None]], of t]
          view_update_view[OF set_slot_view[OF reg s, of None]] v1 view_update_trans by fastforce
      have "view_ok (v\<lparr>pv_slot := None, pv_flight := None\<rparr>)"
        using res Inl old fl by (auto simp: view_defs view_of_def split: option.splits)
      with u t held show ?thesis
        using l True Inl by (simp add: invoke_finish_def effect_held)
    next
      case False
      have u: "view_update hs (end_flight t hs1) t (v\<lparr>pv_flight := None\<rparr>)"
        using view_update_trans[OF v(1) end_flight_view[OF reg]] v1 by simp
      have "view_ok (v\<lparr>pv_flight := None\<rparr>)"
        using res Inl old fl slot_none by (auto simp: view_defs view_of_def split: option.splits)
      with u t held show ?thesis
        using l False Inl by (simp add: invoke_finish_def effect_held)
    qed
  next
    case (Inr r)
    show ?thesis
    proof (cases "reserved_slot hs1 t")
      case True
      then obtain s where s: "own_slot hs1 t = Some s" using reserved_slot_Some by blast
      let ?s = "\<lparr>sl_permit = t, sl_running = Some r\<rparr>"
      note ss = set_slot_view[OF reg s, of "Some ?s"]
      have u: "view_update hs (end_flight t (set_slot t (Some ?s) hs1)) t (v\<lparr>pv_slot := Some ?s, pv_flight := None\<rparr>)"
        using view_update_trans[OF v(1) ss] end_flight_view[OF view_update_ok[OF ss], of t]
          view_update_view[OF ss] v1 view_update_trans by fastforce
      have "view_ok (v\<lparr>pv_slot := Some ?s, pv_flight := None\<rparr>)"
        using res Inr by (auto simp: view_defs)
      with u t held show ?thesis
        using l True Inr by (simp add: invoke_finish_def effect_held)
    next
      case False
      note kk = kill_child_view[OF reg, of t r]
      have u: "view_update hs (end_flight t (kill_child t r hs1)) t
          (v\<lparr>pv_killed := pv_killed v \<or> rc_child r \<noteq> None, pv_flight := None\<rparr>)"
        using view_update_trans[OF v(1) kk] end_flight_view[OF view_update_ok[OF kk], of t]
          view_update_view[OF kk] v1 view_update_trans by fastforce
      have "view_ok (v\<lparr>pv_killed := pv_killed v \<or> rc_child r \<noteq> None, pv_flight := None\<rparr>)"
        using res Inr slot_none by (auto simp: view_defs split: option.splits)
      with u t held show ?thesis
        using l False Inr by (simp add: invoke_finish_def effect_held)
    qed
  qed
qed

lemma take_effect:
  assumes inv: "harness_inv hs"
  shows "harness_effect hs (snd (retain_take h hs))"
proof (cases "retain_take h hs")
  case (Pair res hs')
  show ?thesis
  proof (cases res)
    case (Inl e)
    with Pair have "hs' = hs" by (auto simp: retain_take_def split: option.splits if_splits)
    with Pair show ?thesis by (simp add: effect_none)
  next
    case (Inr t)
    then obtain s r where s: "hs_registry hs (hh_attempt_id h) = Some s" "sl_running s = Some r" "t = sl_permit s"
      and hs': "hs' = hs\<lparr>hs_registry := (hs_registry hs)(hh_attempt_id h \<mapsto> s\<lparr>sl_running := None\<rparr>),
                        hs_flights := (hs_flights hs)(t \<mapsto> Retained r)\<rparr>"
      using Pair by (auto simp: retain_take_def split: option.splits if_splits)
    note sf = slot_facts[OF inv s(1)]
    let ?v = "view_of hs t"
    let ?hs1 = "hs\<lparr>hs_registry := (hs_registry hs)(hs_attempt hs t := Some (s\<lparr>sl_running := None\<rparr>))\<rparr>"
    have u1: "view_update hs ?hs1 t (?v\<lparr>pv_slot := Some (s\<lparr>sl_running := None\<rparr>)\<rparr>)"
      using sf s(3) by (intro registry_update_view[OF harness_invD(1)[OF inv]]) auto
    have "view_update ?hs1 (?hs1\<lparr>hs_flights := (hs_flights hs)(t \<mapsto> Retained r)\<rparr>) t
        ((view_of ?hs1 t)\<lparr>pv_flight := Some (Retained r)\<rparr>)"
      using view_update_ok[OF u1] by (auto simp: view_update_def view_of_def own_slot_def registry_ok_def)
    with u1 have u: "view_update hs hs' t (?v\<lparr>pv_slot := Some (s\<lparr>sl_running := None\<rparr>), pv_flight := Some (Retained r)\<rparr>)"
      unfolding hs' view_update_view[OF u1] using sf(3) s(3) view_update_trans by fastforce
    have "view_ok (?v\<lparr>pv_slot := Some (s\<lparr>sl_running := None\<rparr>), pv_flight := Some (Retained r)\<rparr>)"
      using harness_invD(2)[OF inv, of t] sf(4) s by (auto simp: view_defs)
    with u sf s(3) show ?thesis unfolding Pair snd_conv by (intro effect_held) auto
  qed
qed

lemma cancel_operation_cases:
  assumes "cancel_operation pf ans t r0 hs = (res, r, hs1)"
  shows "(hs1 = hs \<and> r = r0 \<and> rc_cancellation_attempted r0) \<or>
    (hs1 = hs \<and> r = r0\<lparr>rc_cancellation_attempted := True\<rparr> \<and> rc_child r0 = None) \<or>
    (hs1 = hs \<and> r = r0\<lparr>rc_cancellation_attempted := True, rc_child := None\<rparr> \<and> rc_status r0 \<noteq> None) \<or>
    (hs1 = kill_child t (r0\<lparr>rc_cancellation_attempted := True\<rparr>) hs \<and> r = r0\<lparr>rc_cancellation_attempted := True\<rparr> \<and>
       rc_child r0 \<noteq> None) \<or>
    (\<exists>st. hs1 = see_exit t (kill_child t (r0\<lparr>rc_cancellation_attempted := True\<rparr>) hs) \<and>
       r = r0\<lparr>rc_cancellation_attempted := True, rc_status := Some st, rc_child := None\<rparr>) \<or>
    (\<exists>st. hs1 = see_exit t (kill_child t (r0\<lparr>rc_cancellation_attempted := True\<rparr>) hs) \<and>
       r = r0\<lparr>rc_cancellation_attempted := True, rc_status := Some st\<rparr>)"
proof (cases "rc_cancellation_attempted r0 \<or> rc_child r0 = None")
  case True
  then show ?thesis using assms by (auto simp: cancel_operation_def Let_def split: if_splits)
next
  case False
  then obtain pid where n: "\<not> rc_cancellation_attempted r0" "rc_child r0 = Some pid" by auto
  show ?thesis
  proof (cases pf)
    case Posix
    show ?thesis
    proof (cases "rc_status r0 = None")
      case True
      consider "ca_try_wait ans = None" | "ca_try_wait ans = Some None" | st where "ca_try_wait ans = Some (Some st)"
        by (cases "ca_try_wait ans") auto
      then show ?thesis using assms n Posix True by cases (auto simp: cancel_operation_def Let_def)
    next
      case attended: False
      then show ?thesis using assms n Posix by (auto simp: cancel_operation_def Let_def)
    qed
  next
    case Windows
    show ?thesis
    proof (cases "ca_terminate ans")
      case None
      then show ?thesis using assms n Windows by (auto simp: cancel_operation_def Let_def)
    next
      case (Some p)
      obtain st empty where "p = (st, empty)" by fastforce
      then show ?thesis using assms n Windows Some by (cases empty) (auto simp: cancel_operation_def Let_def)
    qed
  qed
qed

lemma cancel_operation_view:
  assumes "registry_ok hs" "cancel_operation pf ans t r0 hs = (res, r, hs1)" "entry_ok (view_of hs t) r0"
  shows "\<exists>v. view_update hs hs1 t v \<and> pv_slot v = own_slot hs t \<and> pv_flight v = hs_flights hs t \<and>
    entry_ok v r \<and> (pv_killed v \<or> pv_exited v)"
proof -
  define r1 where "r1 = r0\<lparr>rc_cancellation_attempted := True\<rparr>"
  note k = kill_child_view[OF assms(1), of t r1]
  note e = view_update_trans[OF k see_exit_view[OF view_update_ok[OF k]], unfolded view_update_view[OF k]]
  have eo: "pv_spawned (view_of hs t)" "pv_capture (view_of hs t) \<noteq> None"
    "rc_child r0 = None \<longrightarrow> pv_exited (view_of hs t)" "rc_status r0 \<noteq> None \<longrightarrow> pv_exited (view_of hs t)"
    "rc_cancellation_attempted r0 \<longrightarrow> pv_killed (view_of hs t) \<or> pv_exited (view_of hs t)"
    using assms(3) by (auto simp: entry_ok_def)
  have vs: "pv_slot (view_of hs t) = own_slot hs t" "pv_flight (view_of hs t) = hs_flights hs t"
    by (simp_all add: view_of_def)
  consider "hs1 = hs" "r = r0" "rc_cancellation_attempted r0"
    | "hs1 = hs" "r = r1" "rc_child r0 = None"
    | "hs1 = hs" "r = r1\<lparr>rc_child := None\<rparr>" "rc_status r0 \<noteq> None"
    | "hs1 = kill_child t r1 hs" "r = r1" "rc_child r0 \<noteq> None"
    | st where "hs1 = see_exit t (kill_child t r1 hs)" "r = r1\<lparr>rc_status := Some st, rc_child := None\<rparr>"
    | st where "hs1 = see_exit t (kill_child t r1 hs)" "r = r1\<lparr>rc_status := Some st\<rparr>"
    using cancel_operation_cases[OF assms(2)] unfolding r1_def by fast
  then show ?thesis
  proof cases
    case 1
    then show ?thesis using eo vs view_update_refl[OF assms(1), of t]
      by (intro exI[of _ "view_of hs t"]) (auto simp: entry_ok_def)
  next
    case 2
    then show ?thesis using eo vs view_update_refl[OF assms(1), of t]
      by (intro exI[of _ "view_of hs t"]) (auto simp: entry_ok_def r1_def)
  next
    case 3
    then show ?thesis using eo vs view_update_refl[OF assms(1), of t]
      by (intro exI[of _ "view_of hs t"]) (auto simp: entry_ok_def r1_def)
  next
    case 4
    then have "rc_child r1 \<noteq> None" by (simp add: r1_def)
    then show ?thesis using 4 eo vs k
      by (intro exI[of _ "(view_of hs t)\<lparr>pv_killed := pv_killed (view_of hs t) \<or> rc_child r1 \<noteq> None\<rparr>"])
        (auto simp: entry_ok_def r1_def)
  next
    case 5
    then show ?thesis using eo vs e
      by (intro exI[of _ "((view_of hs t)\<lparr>pv_killed := pv_killed (view_of hs t) \<or> rc_child r1 \<noteq> None\<rparr>)\<lparr>pv_exited := True\<rparr>"])
        (auto simp: entry_ok_def r1_def)
  next
    case 6
    then show ?thesis using eo vs e
      by (intro exI[of _ "((view_of hs t)\<lparr>pv_killed := pv_killed (view_of hs t) \<or> rc_child r1 \<noteq> None\<rparr>)\<lparr>pv_exited := True\<rparr>"])
        (auto simp: entry_ok_def r1_def)
  qed
qed

lemma put_effect:
  assumes inv: "harness_inv hs"
  shows "harness_effect hs (snd (retain_put pf ans t hs))"
proof (cases "\<exists>r0. hs_flights hs t = Some (Retained r0)")
  case False
  then have "snd (retain_put pf ans t hs) = hs" by (auto simp: retain_put_def split: option.splits flight.splits)
  then show ?thesis by (simp add: effect_none)
next
  case True
  then obtain r0 where fl: "hs_flights hs t = Some (Retained r0)" by blast
  obtain res r hs1 where op: "cancel_operation pf ans t r0 hs = (res, r, hs1)" by (cases "cancel_operation pf ans t r0 hs")
  have old: "view_ok (view_of hs t)" using harness_invD(2)[OF inv] .
  then have eo: "entry_ok (view_of hs t) r0" using fl by (auto simp: view_ok_def view_running_def view_of_def)
  obtain v where v: "view_update hs hs1 t v" "pv_slot v = own_slot hs t" "pv_flight v = Some (Retained r0)"
    "entry_ok v r" "pv_killed v \<or> pv_exited v"
    using cancel_operation_view[OF harness_invD(1)[OF inv] op eo] fl by auto
  have v1: "view_of hs1 t = v" and reg: "registry_ok hs1"
    using view_update_view[OF v(1)] view_update_ok[OF v(1)] by auto
  have t: "t < hs_next hs" using flight_bound[OF inv] fl by simp
  have held: "pv_slot (view_of hs t) \<noteq> None \<or> pv_flight (view_of hs t) \<noteq> None"
    using fl by (simp add: view_of_def)
  have slot_none: "sl_running s = None" if "pv_slot v = Some s" for s
    using that v(2) fl old by (cases "sl_running s") (auto simp: view_ok_def view_of_def)
  show ?thesis
  proof (cases "reserved_slot hs1 t")
    case True
    then obtain s where s: "own_slot hs1 t = Some s" using reserved_slot_Some by blast
    let ?s = "\<lparr>sl_permit = t, sl_running = Some r\<rparr>"
    note ss = set_slot_view[OF reg s, of "Some ?s"]
    have u: "view_update hs (end_flight t (set_slot t (Some ?s) hs1)) t (v\<lparr>pv_slot := Some ?s, pv_flight := None\<rparr>)"
      using view_update_trans[OF v(1) ss] end_flight_view[OF view_update_ok[OF ss], of t]
        view_update_view[OF ss] v1 view_update_trans by fastforce
    have "view_ok (v\<lparr>pv_slot := Some ?s, pv_flight := None\<rparr>)"
      using v(4,5) by (auto simp: view_defs)
    with u t held show ?thesis
      using op True fl by (simp add: retain_put_def effect_held)
  next
    case False
    let ?hs2 = "if pf = Windows then kill_child t r hs1 else hs1"
    note kk = kill_child_view[OF reg, of t r]
    obtain v2 where v2: "view_update hs ?hs2 t v2" "pv_slot v2 = pv_slot v" "pv_flight v2 = pv_flight v"
      "pv_spawned v2 = pv_spawned v" "pv_killed v2 \<or> pv_exited v2"
      using view_update_trans[OF v(1) kk] v(1,5) v1 by (cases "pf = Windows") auto
    have u: "view_update hs (end_flight t ?hs2) t (v2\<lparr>pv_flight := None\<rparr>)"
      using view_update_trans[OF v2(1) end_flight_view[OF view_update_ok[OF v2(1)]]]
      unfolding view_update_view[OF v2(1)] .
    have "view_ok (v2\<lparr>pv_flight := None\<rparr>)"
      using v2(2-5) v(4) slot_none by (auto simp: view_defs split: option.splits)
    with u t held show ?thesis
      using op False fl by (simp add: retain_put_def effect_held)
  qed
qed

lemma registry_removed:
  assumes inv: "harness_inv hs" and s: "hs_registry hs k = Some s"
  shows "view_update hs (hs\<lparr>hs_registry := (hs_registry hs)(k := None)\<rparr>) (sl_permit s)
    ((view_of hs (sl_permit s))\<lparr>pv_slot := None\<rparr>)"
  using registry_update_view[OF harness_invD(1)[OF inv] slot_facts(1)[OF inv s], of None] slot_facts(3)[OF inv s]
  by simp

lemma slot_entry_ok:
  assumes inv: "harness_inv hs" and s: "hs_registry hs k = Some s" "sl_running s = Some r"
  shows "entry_ok (view_of hs (sl_permit s)) r" "hs_flights hs (sl_permit s) = None"
proof -
  have ok: "view_ok (view_of hs (sl_permit s))" by (rule harness_invD(2)[OF inv])
  have sl: "pv_slot (view_of hs (sl_permit s)) = Some s" by (rule slot_facts(4)[OF inv s(1)])
  show fl: "hs_flights hs (sl_permit s) = None" using ok sl s(2) by (auto simp: view_ok_def view_of_def)
  show "entry_ok (view_of hs (sl_permit s)) r" using ok sl s(2) fl by (auto simp: view_defs view_of_def)
qed

text \<open>A slot with an entry is removed and the entry's child, if it still has one, killed.\<close>

lemma removed_killed_view:
  assumes "registry_ok hs" "own_slot hs t = Some s" "entry_ok (view_of hs t) r" "hs_flights hs t = None"
  shows "\<exists>v. view_update hs (kill_child t r (hs\<lparr>hs_registry := (hs_registry hs)(hs_attempt hs t := None)\<rparr>)) t v \<and>
    view_ok v"
proof -
  let ?hs = "hs\<lparr>hs_registry := (hs_registry hs)(hs_attempt hs t := None)\<rparr>"
  have u: "view_update hs ?hs t ((view_of hs t)\<lparr>pv_slot := None\<rparr>)"
    using assms(1,2) by (intro registry_update_view) auto
  note k = view_update_trans[OF u kill_child_view[OF view_update_ok[OF u], of t r], unfolded view_update_view[OF u]]
  show ?thesis
    using k assms(3,4) by (intro exI conjI) (auto simp: view_defs view_of_def)
qed

lemma cancel_effect:
  assumes inv: "harness_inv hs"
  shows "harness_effect hs (harness_cancel h hs)"
proof (cases "hs_registry hs (hh_attempt_id h)")
  case None
  then show ?thesis by (simp add: harness_cancel_def effect_none)
next
  case (Some s)
  let ?t = "sl_permit s"
  note sf = slot_facts[OF inv Some]
  show ?thesis
  proof (cases "sl_running s")
    case None
    have ok: "view_ok ((view_of hs ?t)\<lparr>pv_slot := None\<rparr>)"
      using harness_invD(2)[OF inv, of ?t] sf(4) None by (auto simp: view_defs split: option.splits flight.splits)
    show ?thesis
      using effect_held[OF registry_removed[OF inv Some] sf(2) _ ok] sf(4) Some None
      by (simp add: harness_cancel_def Let_def)
  next
    case running: (Some r)
    obtain v where v: "view_update hs (kill_child ?t r (hs\<lparr>hs_registry := (hs_registry hs)(hs_attempt hs ?t := None)\<rparr>)) ?t v"
      "view_ok v"
      using removed_killed_view[OF harness_invD(1)[OF inv] sf(1) slot_entry_ok[OF inv Some running]] by blast
    show ?thesis
      using effect_held[OF v(1) sf(2) _ v(2)] sf(3,4) Some running by (simp add: harness_cancel_def Let_def)
  qed
qed

lemma remove_and_kill_effect:
  assumes inv: "harness_inv hs" and s: "hs_registry hs k = Some s" "sl_running s = Some r"
  shows "harness_effect hs (remove_and_kill k s r hs)"
proof -
  note sf = slot_facts[OF inv s(1)]
  obtain v where v: "view_update hs (remove_and_kill k s r hs) (sl_permit s) v" "view_ok v"
    using removed_killed_view[OF harness_invD(1)[OF inv] sf(1) slot_entry_ok[OF inv s]] sf(3)
    unfolding remove_and_kill_def by auto
  show ?thesis using effect_held[OF v(1) sf(2) _ v(2)] sf(4) by simp
qed

lemma collect_effect:
  assumes inv: "harness_inv hs"
  shows "harness_effect hs (snd (try_collect ans h hs))"
proof (cases "\<exists>s r c. hs_registry hs (hh_attempt_id h) = Some s \<and> sl_running s = Some r \<and> hs_captured hs (sl_permit s) = Some c")
  case False
  then have "snd (try_collect ans h hs) = hs"
    by (auto simp: try_collect_def Let_def split: option.splits)
  then show ?thesis by (simp add: effect_none)
next
  case True
  then obtain s r c where s: "hs_registry hs (hh_attempt_id h) = Some s" and r: "sl_running s = Some r"
    and c: "hs_captured hs (sl_permit s) = Some c" by blast
  let ?t = "sl_permit s" and ?k = "hh_attempt_id h"
  note sf = slot_facts[OF inv s] and eo = slot_entry_ok[OF inv s r]
  note kill = remove_and_kill_effect[OF inv s r]
  show ?thesis
  proof (cases "ct_failed c = None \<and> poll_status ans r \<noteq> None")
    case False
    then show ?thesis using s r c kill by (auto simp: try_collect_def Let_def split: option.splits)
  next
    case True
    then obtain status where p: "ct_failed c = None" "poll_status ans r = Some status" by blast
    let ?r = "r\<lparr>rc_status := status\<rparr>" and ?s = "s\<lparr>sl_running := Some (r\<lparr>rc_status := status\<rparr>)\<rparr>"
    let ?seen = "if status = None then hs else see_exit ?t hs"
    let ?hs1 = "?seen\<lparr>hs_registry := (hs_registry hs)(?k \<mapsto> ?s)\<rparr>"
    define v where "v = (view_of hs ?t)\<lparr>pv_exited := pv_exited (view_of hs ?t) \<or> status \<noteq> None, pv_slot := Some ?s\<rparr>"
    have seen: "view_update hs ?seen ?t ((view_of hs ?t)\<lparr>pv_exited := pv_exited (view_of hs ?t) \<or> status \<noteq> None\<rparr>)"
      using see_exit_view[OF harness_invD(1)[OF inv], of ?t] view_update_refl[OF harness_invD(1)[OF inv], of ?t] by auto
    have slot: "own_slot ?seen ?t = Some s" and reg: "hs_registry ?seen = hs_registry hs"
      and att: "hs_attempt ?seen ?t = ?k"
      using sf(1,3) by (auto simp: see_exit_def own_slot_def)
    have u1: "view_update hs ?hs1 ?t v"
      using view_update_trans[OF seen registry_update_view[OF view_update_ok[OF seen] slot, of "Some ?s"]]
        view_update_view[OF seen] unfolding reg att v_def by simp
    have eo1: "entry_ok v ?r"
      using eo(1) p(2) by (auto simp: entry_ok_def v_def poll_status_def split: if_splits)
    have fl: "pv_flight v = None" using eo(2) by (simp add: v_def view_of_def)
    have ok1: "view_ok v" using eo1 fl by (auto simp: view_ok_def view_running_def entry_ok_def v_def)
    have slot1: "own_slot ?hs1 ?t = Some ?s" using view_update_view[OF u1] by (auto simp: v_def view_of_def)
    have att1: "hs_attempt ?hs1 ?t = ?k" and flight1: "hs_flights ?hs1 ?t = None"
      using sf(3) eo(2) by (auto simp: see_exit_def)
    have held: "pv_slot (view_of hs ?t) \<noteq> None \<or> pv_flight (view_of hs ?t) \<noteq> None" using sf(4) by simp
    obtain v2 where v2: "view_update ?hs1 (kill_child ?t ?r (?hs1\<lparr>hs_registry := (hs_registry ?hs1)(hs_attempt ?hs1 ?t := None)\<rparr>)) ?t v2"
      "view_ok v2"
      using removed_killed_view[OF view_update_ok[OF u1] slot1 _ flight1, of ?r] eo1 view_update_view[OF u1] by auto
    have killed: "harness_effect hs (remove_and_kill ?k ?s ?r ?hs1)"
      using effect_held[OF view_update_trans[OF u1 v2(1)] sf(2) held v2(2)] att1 unfolding remove_and_kill_def by simp
    have u3: "view_update hs (?hs1\<lparr>hs_registry := (hs_registry hs)(?k := None)\<rparr>) ?t (v\<lparr>pv_slot := None\<rparr>)"
      using view_update_trans[OF u1 registry_update_view[OF view_update_ok[OF u1] slot1, of None]]
        view_update_view[OF u1] att1 by simp
    have ok3: "view_ok (v\<lparr>pv_slot := None\<rparr>)" if "status \<noteq> None"
      using that eo1 fl by (auto simp: view_ok_def view_running_def entry_ok_def v_def)
    show ?thesis
    proof (cases "status \<noteq> None \<and> capture_finished c")
      case True
      then have "snd (try_collect ans h hs) = ?hs1\<lparr>hs_registry := (hs_registry hs)(?k := None)\<rparr>"
        using s r c p by (simp add: try_collect_def Let_def)
      then show ?thesis using effect_held[OF u3 sf(2) held ok3] True by simp
    next
      case False
      then have "snd (try_collect ans h hs) = ?hs1 \<or> snd (try_collect ans h hs) = remove_and_kill ?k ?s ?r ?hs1"
        using s r c p by (auto simp: try_collect_def Let_def)
      then show ?thesis using effect_held[OF u1 sf(2) held ok1] killed by auto
    qed
  qed
qed

lemma read_effect:
  assumes inv: "harness_inv hs" and c: "hs_captured hs t = Some c"
  shows "harness_effect hs (hs\<lparr>hs_captured := (hs_captured hs)(t \<mapsto> capture_read st r c)\<rparr>)"
proof -
  let ?hs = "hs\<lparr>hs_captured := (hs_captured hs)(t \<mapsto> capture_read st r c)\<rparr>"
  let ?v = "(view_of hs t)\<lparr>pv_capture := Some (capture_read st r c)\<rparr>"
  have u: "view_update hs ?hs t ?v"
    using harness_invD(1)[OF inv] by (auto simp: view_update_def view_of_def own_slot_def registry_ok_def)
  have old: "view_ok (view_of hs t)" "pv_capture (view_of hs t) = Some c"
    using harness_invD(2)[OF inv] c by (simp_all add: view_of_def [of hs t, THEN arg_cong [where f = pv_capture]])
  have "view_running ?v = view_running (view_of hs t)"
    by (auto simp: view_running_def split: option.splits flight.splits)
  then have ok: "view_ok ?v" using old by (auto simp: view_ok_def entry_ok_def)
  have "capture_finished c \<Longrightarrow> capture_finished (capture_read st r c)"
    by (cases st; cases "ct_stdout c"; cases "ct_stderr c") (auto simp: capture_read_def capture_finished_def)
  then have "view_alive ?v \<Longrightarrow> view_alive (view_of hs t)" using old(2) by (auto simp: view_alive_def)
  moreover have "t < hs_next hs" using capture_bound[OF inv] c by simp
  ultimately show ?thesis using ok u by (intro effect_view[OF u]) auto
qed

lemma section_effect:
  assumes inv: "harness_inv hs" and n: "hs_foreign hs \<le> hs_captures hs"
  shows "harness_effect hs (harness_section a hs)"
proof (cases a)
  case (InvokeFinish cfg spec ans t)
  then show ?thesis using finish_effect[OF inv] by (simp add: effect_none)
next
  case (ReaderRead t st r)
  then show ?thesis using read_effect[OF inv] by (simp add: effect_none split: option.splits)
next
  case ForeignReserve
  have "registry_ok hs" by (rule harness_invD(1)[OF inv])
  then have "harness_effect hs (hs\<lparr>hs_captures := hs_captures hs + 1, hs_foreign := hs_foreign hs + 1\<rparr>)"
    if "hs_captures hs < CAPTURE_SLOTS"
    using that by (intro effect_foreign) (auto simp: registry_ok_def view_of_def own_slot_def)
  then show ?thesis using ForeignReserve by (simp add: effect_none)
next
  case ForeignRelease
  have "registry_ok hs" by (rule harness_invD(1)[OF inv])
  then have "harness_effect hs (hs\<lparr>hs_captures := hs_captures hs - 1, hs_foreign := hs_foreign hs - 1\<rparr>)"
    if "hs_foreign hs \<noteq> 0"
    using that n by (intro effect_foreign) (auto simp: registry_ok_def view_of_def own_slot_def)
  then show ?thesis using ForeignRelease by (simp add: effect_none)
qed (simp_all add: reserve_effect take_effect put_effect cancel_effect collect_effect inv)

section \<open>What every session keeps\<close>

lemma drop_permits_fields [simp]:
  "hs_next (drop_permits old new) = hs_next new" "hs_foreign (drop_permits old new) = hs_foreign new"
  "hs_registry (drop_permits old new) = hs_registry new" "hs_captured (drop_permits old new) = hs_captured new"
  "hs_flights (drop_permits old new) = hs_flights new" "hs_attempt (drop_permits old new) = hs_attempt new"
  by (simp_all add: drop_permits_def)

lemma drop_permits_view [simp]: "view_of (drop_permits old new) t = view_of new t"
  by (simp add: drop_permits_def view_of_def own_slot_def)

lemma drop_permits_ok [simp]: "registry_ok (drop_permits old new) = registry_ok new"
  by (simp add: drop_permits_def registry_ok_def)

lemma drop_permits_alive [simp]: "permit_alive (drop_permits old new) = permit_alive new"
  by (intro ext) (simp add: permit_alive_view)

lemma harness_inv_drop [simp]: "harness_inv (drop_permits old new) = harness_inv new"
  by (simp add: harness_inv_def)

lemma effect_inv:
  assumes "harness_effect hs hs'" "harness_inv hs"
  shows "harness_inv hs'"
  using assms
proof (cases rule: harness_effect.cases)
  case (effect_view t v)
  then show ?thesis using assms(2) by (auto simp: harness_inv_def view_update_def)
next
  case effect_reserve
  have "view_ok (view_of hs' (hs_next hs))" by (simp add: effect_reserve view_defs no_view_def)
  moreover have "view_of hs' t = no_view" if "hs_next hs' \<le> t" for t
    using that effect_reserve assms(2) by (simp add: harness_inv_def)
  moreover have "view_ok (view_of hs' t)" if "t \<noteq> hs_next hs" for t
    using that effect_reserve assms(2) by (simp add: harness_inv_def)
  ultimately show ?thesis using effect_reserve(5) unfolding harness_inv_def by metis
next
  case effect_foreign
  then show ?thesis using assms(2) by (simp add: harness_inv_def)
qed (use assms in simp)

definition live_permits :: "harness_state \<Rightarrow> nat" where
  "live_permits hs = length (filter (permit_alive hs) [0..<hs_next hs])"

definition permits_counted :: "harness_state \<Rightarrow> bool" where
  "permits_counted hs \<longleftrightarrow> hs_captures hs = hs_foreign hs + live_permits hs \<and> hs_captures hs \<le> CAPTURE_SLOTS"

lemma filter_split:
  "(\<And>x. x \<in> set xs \<Longrightarrow> Q x \<Longrightarrow> P x) \<Longrightarrow>
     length (filter P xs) = length (filter Q xs) + length (filter (\<lambda>x. P x \<and> \<not> Q x) xs)"
  by (induction xs) auto

lemma effect_counted:
  assumes "harness_effect hs hs'" "permits_counted hs" "harness_inv hs"
  shows "permits_counted (drop_permits hs hs')"
  using assms(1)
proof (cases rule: harness_effect.cases)
  case effect_none
  have "drop_permits hs hs = hs" by (simp add: drop_permits_def)
  with effect_none assms(2) show ?thesis by simp
next
  case (effect_view t v)
  have alive: "permit_alive hs' u \<Longrightarrow> permit_alive hs u" for u
    using effect_view(1,4) by (cases "u = t") (auto simp: permit_alive_view view_update_def)
  have same: "hs_next hs' = hs_next hs" "hs_captures hs' = hs_captures hs" "hs_foreign hs' = hs_foreign hs"
    using effect_view(1) by (auto simp: view_update_def)
  have "live_permits hs = length (filter (permit_alive hs') [0..<hs_next hs]) +
      length (filter (\<lambda>t. permit_alive hs t \<and> \<not> permit_alive hs' t) [0..<hs_next hs])"
    unfolding live_permits_def by (rule filter_split) (rule alive)
  moreover have "live_permits (drop_permits hs hs') = length (filter (permit_alive hs') [0..<hs_next hs])"
    by (simp add: live_permits_def same)
  moreover have "hs_captures (drop_permits hs hs') = hs_captures hs -
      length (filter (\<lambda>t. permit_alive hs t \<and> \<not> permit_alive hs' t) [0..<hs_next hs])"
    by (simp add: drop_permits_def same)
  ultimately show ?thesis using assms(2) same by (simp add: permits_counted_def)
next
  case effect_reserve
  have old: "permit_alive hs' t = permit_alive hs t" if "t < hs_next hs" for t
    using effect_reserve(7) that by (simp add: permit_alive_view)
  then have none: "filter (\<lambda>t. permit_alive hs t \<and> \<not> permit_alive hs' t) [0..<hs_next hs] = []"
    by (auto simp: filter_empty_conv)
  have "permit_alive hs' (hs_next hs)" by (simp add: permit_alive_view effect_reserve(6) view_alive_def)
  moreover have "filter (permit_alive hs') [0..<hs_next hs] = filter (permit_alive hs) [0..<hs_next hs]"
    by (rule filter_cong) (auto simp: old)
  ultimately have "live_permits hs' = Suc (live_permits hs)" by (simp add: live_permits_def effect_reserve(2))
  moreover have "drop_permits hs hs' = hs'" by (simp add: drop_permits_def none)
  ultimately show ?thesis using assms(2) effect_reserve(1,3,4) by (simp add: permits_counted_def)
next
  case effect_foreign
  have alive: "permit_alive hs' = permit_alive hs" by (intro ext) (simp add: permit_alive_view effect_foreign(5))
  have "drop_permits hs hs' = hs'" by (simp add: drop_permits_def alive)
  moreover have "live_permits hs' = live_permits hs" by (simp add: live_permits_def alive effect_foreign(3))
  ultimately show ?thesis using assms(2) effect_foreign(1,2) by (simp add: permits_counted_def)
qed

definition permit_held :: "harness_state \<Rightarrow> permit \<Rightarrow> bool" where
  "permit_held hs t \<longleftrightarrow> own_slot hs t \<noteq> None \<or> hs_flights hs t \<noteq> None"

lemma effect_held_back:
  assumes "harness_effect hs hs'" "t < hs_next hs" "permit_held hs' t"
  shows "permit_held hs t"
proof -
  have held: "permit_held x t \<longleftrightarrow> pv_slot (view_of x t) \<noteq> None \<or> pv_flight (view_of x t) \<noteq> None" for x
    by (simp add: permit_held_def view_of_def)
  from assms(1) show ?thesis
  proof (cases rule: harness_effect.cases)
    case (effect_view u v)
    then show ?thesis using assms(3) unfolding held view_update_def by (cases "t = u") auto
  qed (use assms in \<open>auto simp: held\<close>)
qed

lemma effect_next: "harness_effect hs hs' \<Longrightarrow> hs_next hs \<le> hs_next hs'"
  by (cases rule: harness_effect.cases) (auto simp: view_update_def)

subsection \<open>Bounded output\<close>

fun reader_small :: "reader \<Rightarrow> bool" where
  "reader_small (Reading bytes) = (length bytes \<le> STREAM_LIMIT)"
| "reader_small (Ended (Inr s)) = (length s \<le> STREAM_LIMIT)"
| "reader_small _ = True"

definition capture_small :: "stream_capture \<Rightarrow> bool" where
  "capture_small c \<longleftrightarrow> reader_small (ct_stdout c) \<and> reader_small (ct_stderr c)"

lemma reader_read_small: "length bytes \<le> STREAM_LIMIT \<Longrightarrow> reader_small (reader_read bytes r)"
  by (cases r) (auto simp: reader_read_def from_utf8_def)

lemma capture_read_small: "capture_small c \<Longrightarrow> capture_small (capture_read st r c)"
  by (cases st; cases "ct_stdout c"; cases "ct_stderr c")
    (auto simp: capture_small_def capture_read_def Let_def reader_read_small)

lemma captured_simps [simp]:
  "hs_captured (kill_child t r hs) = hs_captured hs" "hs_captured (see_exit t hs) = hs_captured hs"
  "hs_captured (end_flight t hs) = hs_captured hs" "hs_captured (set_slot t s hs) = hs_captured hs"
  by (simp_all add: kill_child_def see_exit_def end_flight_def set_slot_def)

definition captures_small :: "harness_state \<Rightarrow> bool" where
  "captures_small hs \<longleftrightarrow> (\<forall>t c. hs_captured hs t = Some c \<longrightarrow> capture_small c)"

lemma cancel_captured: "hs_captured (snd (snd (cancel_operation pf ans t r hs))) = hs_captured hs"
proof -
  obtain res r1 hs1 where op: "cancel_operation pf ans t r hs = (res, r1, hs1)"
    by (cases "cancel_operation pf ans t r hs")
  from cancel_operation_cases[OF op] show ?thesis unfolding op by auto
qed

lemma launch_small:
  assumes "captures_small hs" shows "captures_small (snd (launch cfg spec ans t hs))"
proof -
  have "reader_small (start_reader b)" for b by (simp add: start_reader_def)
  then show ?thesis using assms
    by (auto simp: launch_def captures_small_def capture_small_def Let_def split: sum.splits)
qed

lemma finish_small:
  assumes "captures_small hs" shows "captures_small (snd (invoke_finish cfg spec ans t hs))"
proof -
  obtain res hs1 where l: "launch cfg spec ans t hs = (res, hs1)" by fastforce
  then have "captures_small hs1" using launch_small[OF assms, of cfg spec ans t] by simp
  then show ?thesis by (cases res) (simp_all add: invoke_finish_def l captures_small_def)
qed

lemma put_captured: "hs_captured (snd (retain_put pf ans t hs)) = hs_captured hs"
proof -
  have "hs_captured (snd (retain_put pf ans t hs)) = hs_captured hs" if "hs_flights hs t = Some (Retained r)" for r
    using that cancel_captured[of pf ans t r hs] by (auto simp: retain_put_def split: prod.splits)
  then show ?thesis by (auto simp: retain_put_def split: option.splits flight.splits)
qed

lemma collect_captured: "hs_captured (snd (try_collect ans h hs)) = hs_captured hs"
  by (auto simp: try_collect_def Let_def remove_and_kill_def split: option.splits)

lemma section_small:
  assumes "captures_small hs" shows "captures_small (harness_section a hs)"
proof (cases a)
  case (InvokeReserve cfg spec)
  then show ?thesis using assms by (auto simp: invoke_reserve_def captures_small_def Let_def)
next
  case (InvokeFinish cfg spec ans t)
  then show ?thesis using assms finish_small by simp
next
  case (RetainTake h)
  then show ?thesis using assms by (auto simp: retain_take_def captures_small_def split: option.splits)
next
  case (RetainPut pf ans t)
  then show ?thesis using assms by (simp add: captures_small_def put_captured)
next
  case (Cancel h)
  then show ?thesis using assms by (auto simp: harness_cancel_def captures_small_def Let_def split: option.splits)
next
  case (TryCollect ans h)
  then show ?thesis using assms by (simp add: captures_small_def collect_captured)
next
  case (ReaderRead t st r)
  then show ?thesis using assms capture_read_small by (auto simp: captures_small_def split: option.splits)
qed (use assms in \<open>auto simp: captures_small_def\<close>)

section \<open>Sessions\<close>

lemma harness_reach_inv:
  assumes "harness_reach hs"
  shows "harness_inv hs \<and> permits_counted hs \<and> captures_small hs"
  using assms
proof (induction rule: harness_reach.induct)
  case (harness_start n)
  have "view_of (harness_init n) t = no_view" for t
    by (simp add: view_of_def no_view_def own_slot_def harness_init_def)
  moreover have "view_ok no_view" by (simp add: view_defs no_view_def)
  ultimately show ?case using harness_start
    by (simp add: harness_inv_def permits_counted_def captures_small_def registry_ok_def live_permits_def harness_init_def)
next
  case (harness_next hs a)
  then have "hs_foreign hs \<le> hs_captures hs" by (simp add: permits_counted_def)
  then have eff: "harness_effect hs (harness_section a hs)" using harness_next section_effect by blast
  have "captures_small (drop_permits hs (harness_section a hs))"
    using section_small[of hs a] harness_next by (simp add: captures_small_def)
  with effect_inv[OF eff] effect_counted[OF eff] harness_next show ?case
    unfolding harness_step_def by simp
qed

lemma step_held_back:
  assumes "harness_reach hs" "t < hs_next hs" "permit_held (harness_step a hs) t"
  shows "permit_held hs t"
proof -
  have "harness_effect hs (harness_section a hs)"
    using harness_reach_inv[OF assms(1)] section_effect by (auto simp: permits_counted_def)
  moreover have "permit_held (harness_section a hs) t"
    using assms(3) by (simp add: harness_step_def permit_held_def own_slot_def)
  ultimately show ?thesis using effect_held_back assms(2) by blast
qed

definition harness_run :: "harness_action list \<Rightarrow> harness_state \<Rightarrow> harness_state" where
  "harness_run acts hs = foldl (\<lambda>s a. harness_step a s) hs acts"

lemma harness_run_Cons: "harness_run (a # acts) hs = harness_run acts (harness_step a hs)"
  by (simp add: harness_run_def)

lemma harness_run_reach: "harness_reach hs \<Longrightarrow> harness_reach (harness_run acts hs)"
  by (induction acts arbitrary: hs) (auto simp: harness_run_Cons harness_next simp: harness_run_def [of "[]"])

lemma gone_stays_gone:
  "harness_reach hs \<Longrightarrow> t < hs_next hs \<Longrightarrow> \<not> permit_held hs t \<Longrightarrow> \<not> permit_held (harness_run acts hs) t"
proof (induction acts arbitrary: hs)
  case (Cons a acts)
  have "harness_effect hs (harness_section a hs)"
    using harness_reach_inv[OF Cons.prems(1)] section_effect by (auto simp: permits_counted_def)
  then have "t < hs_next (harness_step a hs)"
    using effect_next Cons.prems(2) by (fastforce simp: harness_step_def)
  with Cons show ?case using step_held_back harness_next unfolding harness_run_Cons by blast
qed (simp add: harness_run_def)

text \<open>A child somebody still owns: its entry is in a slot or in a cancellation under way.\<close>

definition child_held :: "harness_state \<Rightarrow> permit \<Rightarrow> bool" where
  "child_held hs t \<longleftrightarrow>
     (\<exists>s r. own_slot hs t = Some s \<and> sl_running s = Some r \<and> rc_child r \<noteq> None) \<or>
     (\<exists>r. hs_flights hs t = Some (Retained r) \<and> rc_child r \<noteq> None)"

lemma spawned_accounted:
  assumes "harness_inv hs" "t \<in> hs_spawned hs"
  shows "child_held hs t \<or> t \<in> hs_killed hs \<or> t \<in> hs_exited hs"
proof -
  have "view_ok (view_of hs t)" by (rule harness_invD(2)[OF assms(1)])
  then consider r where "view_running (view_of hs t) = Some r" "rc_child r \<noteq> None" | "t \<in> hs_killed hs \<or> t \<in> hs_exited hs"
    using assms(2) by (auto simp: view_ok_def view_of_def)
  then show ?thesis
    by cases (auto simp: child_held_def view_running_def view_of_def split: option.splits flight.splits)
qed

text \<open>What is true when an outcome is handed out: the attempt ended, both streams were read to their end, and it is gone.\<close>

definition collected_from ::
  "harness_state \<Rightarrow> harness_handle \<Rightarrow> harness_outcome \<Rightarrow> harness_state \<Rightarrow> bool" where
  "collected_from hs h out hs' \<longleftrightarrow>
     (\<exists>s c content errs. hs_registry hs (hh_attempt_id h) = Some s \<and> hs_captured hs (sl_permit s) = Some c \<and>
        ct_failed c = None \<and> ct_stdout c = Ended (Inr content) \<and> ct_stderr c = Ended (Inr errs) \<and>
        length content \<le> STREAM_LIMIT \<and> length errs \<le> STREAM_LIMIT \<and>
        ho_output_redacted out = redact content \<and> ho_stderr_redacted out = redact errs \<and>
        sl_permit s \<in> hs_exited hs' \<and> hs_registry hs' (hh_attempt_id h) = None)"

lemma reader_join_Inr: "reader_join r = Inr s \<Longrightarrow> r = Ended (Inr s)"
  by (auto simp: reader_join_def split: reader.splits sum.splits)

lemma try_collect_outcome:
  assumes inv: "harness_inv hs" and small: "captures_small hs"
    and run: "try_collect ans h hs = (Inr (Some out), hs')"
  shows "collected_from hs h out hs'"
proof -
  obtain s r c where s: "hs_registry hs (hh_attempt_id h) = Some s" "sl_running s = Some r"
    "hs_captured hs (sl_permit s) = Some c"
    using run by (auto simp: try_collect_def Let_def split: option.splits)
  obtain status where p: "ct_failed c = None" "poll_status ans r = Some status"
    using run s by (auto simp: try_collect_def Let_def split: option.splits)
  have fin: "status \<noteq> None" "finished_outcome (the status) c = Inr (Some out)"
    using run s p by (auto simp: try_collect_def Let_def split: if_splits)
  have hs': "hs_registry hs' (hh_attempt_id h) = None" "sl_permit s \<in> hs_exited hs'"
    using run s p fin by (auto simp: try_collect_def Let_def see_exit_def split: if_splits)
  obtain content errs where "ct_stdout c = Ended (Inr content)" "ct_stderr c = Ended (Inr errs)"
    "ho_output_redacted out = redact content" "ho_stderr_redacted out = redact errs"
    using fin(2) by (auto simp: finished_outcome_def capture_outcome_def try_res_eq_Inr dest!: reader_join_Inr split: if_splits)
  moreover have "capture_small c" using small s(3) by (auto simp: captures_small_def)
  ultimately show ?thesis using s p hs' unfolding collected_from_def capture_small_def by fastforce
qed


definition fixture_config :: cli_harness_config where
  "fixture_config =
     \<lparr>hc_name = ''fixture'', hc_executable = ''/bin/fixture'', hc_version_args = [], hc_probe_timeout = 1,
      hc_invoke_args_template = [''--prompt'', ''{prompt_file}''], hc_prompt_via = ViaFile\<rparr>"

definition fixture_spec :: agent_spec where
  "fixture_spec =
     \<lparr>as_task_id = 1, as_attempt_id = 7, as_harness = ''fixture'', as_model_ref = ''m'',
      as_worktree_path = ''/w'', as_prompt = ''p'', as_timeout = 5\<rparr>"

definition fixture_launch :: launch_answer where
  "fixture_launch =
     \<lparr>la_prompt_file = Inr (), la_spawn = Inr 42, la_readers = (True, True), la_stdin = Inr (), la_now = 0\<rparr>"

definition fixture_handle :: harness_handle where
  "fixture_handle = \<lparr>hh_attempt_id = 7, hh_pid = Some 42, hh_pane_id = None\<rparr>"

definition launched :: harness_state where
  "launched = harness_run [InvokeReserve fixture_config fixture_spec,
     InvokeFinish fixture_config fixture_spec fixture_launch 0] (harness_init 0)"

definition drained :: harness_state where
  "drained = harness_run [ReaderRead 0 Stdout PipeEof, ReaderRead 0 Stderr PipeEof] launched"

definition exited :: collect_answer where
  "exited = \<lparr>co_try_wait = Some (Some (Some 0)), co_now = 9\<rparr>"

lemma drained_reach: "harness_reach drained"
  unfolding drained_def launched_def by (intro harness_run_reach harness_start) simp

lemma fixture_runs:
  "fst (try_collect exited fixture_handle drained) =
     Inr (Some \<lparr>ho_exit_code = 0, ho_output_redacted = [], ho_stderr_redacted = [], ho_worktree_changed = False\<rparr>)"
  "hs_spawned drained = {0}" "hs_killed drained = {}" "hs_exited drained = {}" "hs_captures drained = 1"
  by code_simp+


text \<open>
  A child whose exit was observed can be signalled again: when its streams stay open past the
  timeout, \<open>try_collect\<close> kills the tree of a process that was already reaped.
\<close>

definition open_streams :: harness_state where
  "open_streams = harness_run [TryCollect \<lparr>co_try_wait = Some (Some (Some 0)), co_now = 1\<rparr> fixture_handle] launched"

lemma reaped_child_is_killed:
  "0 \<in> hs_exited open_streams" "0 \<notin> hs_killed open_streams"
  "0 \<in> hs_killed (snd (try_collect \<lparr>co_try_wait = None, co_now = 9\<rparr> fixture_handle open_streams))"
  by code_simp+

section \<open>Arguments\<close>

text \<open>The text of a prompt reaches the arguments only when the configuration asks for it.\<close>

lemma file_prompt_not_in_args:
  "render_invoke_args template ViaFile prompt_file model_ref prompt =
     render_invoke_args template ViaFile prompt_file model_ref other"
  by (simp add: render_invoke_args_def)

text \<open>
  A template is a sequence of plain texts and tokens that does not depend on the values; each
  token is filled once and what it is filled with is not scanned again.
\<close>

datatype segment = Plain string | Token string

function segments :: "string \<Rightarrow> segment list" where
  "segments template =
     (case split_once CHR ''{'' template of
        None \<Rightarrow> [Plain template]
      | Some (out, after) \<Rightarrow>
          (case split_once CHR ''}'' after of
             None \<Rightarrow> [Plain (out @ CHR ''{'' # after)]
           | Some (inner, rest) \<Rightarrow> Plain out # Token (CHR ''{'' # inner @ [CHR ''}'']) # segments rest))"
  by pat_completeness auto
termination
  by (relation "measure length") (auto simp: split_once_Some)

declare segments.simps [simp del]

fun segment_text :: "(string \<Rightarrow> string option) \<Rightarrow> segment \<Rightarrow> string" where
  "segment_text fill (Plain s) = s"
| "segment_text fill (Token t) = (case fill t of Some v \<Rightarrow> v | None \<Rightarrow> t)"

lemma segments_template: "concat (map (segment_text (\<lambda>_. None)) (segments template)) = template"
proof (induction template rule: segments.induct)
  case (1 template)
  then show ?case by (subst segments.simps) (auto simp: split_once_Some split: option.splits)
qed

lemma substitute_segments:
  "substitute_arg template prompt_file model_ref prompt =
     concat (map (segment_text (placeholder_value prompt_file model_ref prompt)) (segments template))"
proof (induction template rule: segments.induct)
  case (1 template)
  then show ?case
    by (subst segments.simps, subst substitute_arg.simps) (auto simp: Let_def split: option.splits)
qed

section \<open>The probe\<close>

text \<open>
  \<open>probe\<close> runs the version call of a harness. Its answers are lists: what each poll of the process, and then
  each poll of the two readers, found and how long the call had taken by then. \<open>None\<close> is a probe that
  still polls after the last of them.
\<close>

record probe_poll =
  pp_failed :: "capture_failure option"
  pp_wait :: "exit_status option option"
  pp_elapsed :: duration

record probe_answer =
  pb_permit :: bool
  pb_spawn :: bool
  pb_readers :: bool
  pb_polls :: "probe_poll list"
  pb_drain :: "(bool \<times> duration) list"
  pb_capture :: stream_capture

datatype probe_end = ProbeFault harness_error | ProbeTimeout | ProbeExit exit_status

fun probe_wait :: "cli_harness_config \<Rightarrow> probe_poll list \<Rightarrow> probe_end option" where
  "probe_wait cfg [] = None"
| "probe_wait cfg (p # ps) =
     (case pp_failed p of
        Some f \<Rightarrow> Some (ProbeFault (capture_failure_error f))
      | None \<Rightarrow>
          (case pp_wait p of
             None \<Rightarrow> Some (ProbeFault capture_fault)
           | Some (Some st) \<Rightarrow> Some (ProbeExit st)
           | Some None \<Rightarrow>
               if pp_elapsed p \<ge> hc_probe_timeout cfg then Some ProbeTimeout else probe_wait cfg ps))"

fun probe_drain :: "cli_harness_config \<Rightarrow> (bool \<times> duration) list \<Rightarrow> (harness_error + unit) option" where
  "probe_drain cfg [] = None"
| "probe_drain cfg ((finished, elapsed) # ds) =
     (if finished then Some (Inr ())
      else if elapsed \<ge> hc_probe_timeout cfg then Some (Inl (ProcessFault ''harness-output-eof-timeout''))
      else probe_drain cfg ds)"

definition probe_profile :: "cli_harness_config \<Rightarrow> exit_status \<Rightarrow> string \<times> string \<Rightarrow> harness_profile" where
  "probe_profile cfg st output =
     (if st \<noteq> Some 0 then
        (let detail = redact (trim (snd output));
             code = (case st of Some c \<Rightarrow> sint c | None \<Rightarrow> -1)
         in (profile_unsupported (hc_name cfg)
               (''version call exited with '' @ show_int code @
                (if detail = [] then [] else '': '' @ detail)))\<lparr>hp_version := detail\<rparr>)
      else (let noninteractive = hc_invoke_args_template cfg \<noteq> []
            in \<lparr>hp_harness = hc_name cfg, hp_version = trim (fst output), hp_compatibility = Compatible,
                hp_noninteractive = noninteractive, hp_structured_output = False, hp_cancellation = True,
                hp_reason = (if noninteractive then None
                  else Some ''no invoke_args_template configured; cannot dispatch non-interactively'')\<rparr>))"

definition harness_probe ::
  "cli_harness_config \<Rightarrow> probe_answer \<Rightarrow> (harness_error + harness_profile) option" where
  "harness_probe cfg a =
     (if \<not> pb_permit a then Some (Inl (ProcessFault ''harness-output-capacity-blocked''))
      else if \<not> pb_spawn a then Some (Inl capture_fault)
      else if \<not> pb_readers a then Some (Inl capture_fault)
      else (case probe_wait cfg (pb_polls a) of
              None \<Rightarrow> None
            | Some (ProbeFault e) \<Rightarrow> Some (Inl e)
            | Some ProbeTimeout \<Rightarrow> Some (Inr (profile_unsupported (hc_name cfg) ''probe timed out''))
            | Some (ProbeExit st) \<Rightarrow>
                (case probe_drain cfg (pb_drain a) of
                   None \<Rightarrow> None
                 | Some (Inl e) \<Rightarrow> Some (Inl e)
                 | Some (Inr _) \<Rightarrow>
                     Some (try_res (capture_outcome (pb_capture a)) (\<lambda>out. Inr (probe_profile cfg st out))))))"

text \<open>A harness can be dispatched to only if its version call ended with success and arguments are configured.\<close>

lemma probe_wait_exit: "probe_wait cfg ps = Some (ProbeExit st) \<Longrightarrow> \<exists>p \<in> set ps. pp_wait p = Some (Some st)"
  by (induction ps) (auto split: option.splits if_splits)

lemma probe_dispatchable:
  assumes "harness_probe cfg a = Some (Inr p)" "is_dispatchable p"
  shows "(\<exists>q \<in> set (pb_polls a). pp_wait q = Some (Some (Some 0))) \<and> hc_invoke_args_template cfg \<noteq> [] \<and>
    (\<exists>out err. ct_stdout (pb_capture a) = Ended (Inr out) \<and> ct_stderr (pb_capture a) = Ended (Inr err) \<and>
       hp_version p = trim out)"
proof -
  obtain st out where st: "probe_wait cfg (pb_polls a) = Some (ProbeExit st)"
    and out: "capture_outcome (pb_capture a) = Inr out" "p = probe_profile cfg st out"
    using assms
    by (auto simp: harness_probe_def try_res_eq_Inr unsupported_not_dispatchable
        split: if_splits option.splits probe_end.splits sum.splits)
  have "st = Some 0" "hc_invoke_args_template cfg \<noteq> []"
    using assms(2) unfolding out(2)
    by (auto simp: probe_profile_def is_dispatchable_def profile_unsupported_def Let_def split: if_splits)
  moreover have "ct_stdout (pb_capture a) = Ended (Inr (fst out))" "ct_stderr (pb_capture a) = Ended (Inr (snd out))"
    using out(1) by (auto simp: capture_outcome_def try_res_eq_Inr dest!: reader_join_Inr)
  ultimately show ?thesis using probe_wait_exit[OF st] out(2) by (auto simp: probe_profile_def Let_def)
qed

text \<open>The probe ends once a poll finds the timeout passed, whatever the process does.\<close>

lemma probe_wait_ends:
  "\<exists>p \<in> set ps. pp_elapsed p \<ge> hc_probe_timeout cfg \<Longrightarrow> probe_wait cfg ps \<noteq> None"
  by (induction ps) (auto split: option.splits)

end
