(* ===== verification/Spec2Isabelle.thy ===== *)
theory Spec2Isabelle
  imports Domain_State Domain_Decision Domain_Evidence Domain_Capability Domain_Digest Domain_Role
    Engine_Converge Engine_Router Engine_Planner Engine_Verify Adapter_Store Engine_Run_Operator
    Engine_Run_Loop Engine_Inventory Engine_Delivery Adapter_Redact Adapter_Ledger_Plans
    Adapter_Ledger_Work Adapter_Ledger_Guard Engine_Run_Views Adapter_Cleanup_Apply Adapter_Adoption
    Engine_Orchestrate Adapter_Harness
begin

text \<open>
  A verification library for meshloop, a Rust program that lets coding agents work on the tasks of
  a plan in git worktrees, checks what they produce, asks a human where the plan says so, and merges
  what was accepted.

  \<^bold>\<open>The program.\<close> \<open>crates/meshloop-domain\<close> holds values and pure rules: the state machines
  of tasks and plans, plans as graphs of tasks, evidence, circuit breakers, diagnostics.
  \<open>crates/meshloop-engine\<close> holds the logic: the repair session of an attempt (\<open>converge.rs\<close>), the
  choice of a harness (\<open>router.rs\<close>, \<open>orchestrator.rs\<close>), decomposition of an objective (\<open>planner.rs\<close>),
  checks of a diff (\<open>verify.rs\<close>), replay of the event log (\<open>recovery.rs\<close>) and the run loop
  (\<open>run_loop.rs\<close>), which drives everything through the traits of \<open>ports.rs\<close>.
  \<open>crates/meshloop-adapters\<close> implements the ports; its \<open>store.rs\<close> is the SQLite database in which all
  durable state lives. The run loop keeps no task state of its own: at every tick it replays the
  records of the active graph, does the first thing that can be done, appends the record of it, and
  returns. Beside it, the generation ledger (\<open>adapters/src/workspace\<close>) records in the same database
  who owns which worktree, which revision of a plan was authorised, what a driver process does and
  which cancellations were asked for; inventories, cleanup previews, delivery proofs and maintenance
  plans are pure decisions over what is observed.

  \<^bold>\<open>Theories.\<close>
  \<^item> \<open>Meshloop_Prelude\<close>: words, ASCII text and decimal printing, results (\<open>try_res\<close>), lists, and the
    collections \<open>codec_simps\<close> and others. \<open>Rust_Float\<close>: \<open>f64\<close> as finite, infinite or NaN values with
    the comparisons the code uses, exact and without rounding.
  \<^item> \<open>Domain_State\<close> (\<open>state.rs\<close>), \<open>Domain_Graph\<close> (\<open>task_graph.rs\<close>, \<open>policy.rs\<close>), \<open>Domain_Decision\<close>,
    \<open>Domain_Evidence\<close>, \<open>Domain_Capability\<close>, \<open>Domain_Digest\<close>, \<open>Domain_Role\<close>, \<open>Domain_Diagnostic\<close>: the
    domain crate, one theory per module, its enums as datatypes and its structs as records.
  \<^item> \<open>Domain_Workspace\<close> (\<open>domain/src/workspace.rs\<close>): the validated text types, records and stable codes
    of the ledger. \<open>Domain_Cleanup\<close> (\<open>domain/src/cleanup.rs\<close>): the cleanup decision and its digest.
  \<^item> \<open>Engine_Inventory\<close> (\<open>engine/src/workspace/inventory.rs\<close>, \<open>cleanup.rs\<close>) and \<open>Engine_Delivery\<close>
    (\<open>delivery.rs\<close>, \<open>maintenance.rs\<close>): classification of observations, cleanup previews, delivery
    receipts, maintenance plans. \<open>Adapter_Redact\<close> (\<open>adapters/src/redact.rs\<close>): redaction of stored text.
  \<^item> \<open>Engine_Ports\<close> (records, errors and in-memory stores of \<open>ports.rs\<close>, and the locales for an event
    log, an evidence store and feedback counters), \<open>Engine_Recovery\<close>, \<open>Engine_Converge\<close>,
    \<open>Engine_Agent\<close>, \<open>Engine_Verify\<close>, \<open>Engine_Router\<close>, \<open>Engine_Planner\<close>: the engine crate.
  \<^item> \<open>Adapter_Store\<close>: \<open>store.rs\<close>. A database is a record with one list of rows per table, columns are
    text where SQLite holds text, and every method is a function to an error or a new database. The
    locales of \<open>Engine_Ports\<close> are interpreted here.
  \<^item> \<open>Adapter_Ledger\<close> (\<open>adapters/src/workspace/ledger.rs\<close>) and \<open>Adapter_Lifecycle\<close> (\<open>runtime.rs\<close>): the
    lifecycle tables as a record beside the database of \<open>Adapter_Store\<close>, the checks of the fence of
    a repository, and every operation as a function to an error or a new pair of the two.
  \<^item> \<open>Adapter_Ledger_Rows\<close>: every operation of the ledger is a sequence of single statements, given by
    the inductive relation \<open>row_step\<close> with the facts its transaction has checked; the locales
    \<open>row_invariant\<close> and \<open>row_history\<close> lift what one statement keeps to operations and sessions.
    \<open>Adapter_Ledger_Sample\<close>: a session evaluated step by step. \<open>Adapter_Ledger_Inv\<close> (unique keys,
    append-only tables), \<open>Adapter_Ledger_Plans\<close> (approvals, plans, scoped events), \<open>Adapter_Ledger_Work\<close>
    (operations, attempts), \<open>Adapter_Ledger_Guard\<close> (fences, drivers, cancellations) and
    \<open>Adapter_Ledger_Chain\<close> (the revisions behind an active generation) interpret them.
  \<^item> \<open>Engine_Read\<close> (\<open>engine/src/workspace/read.rs\<close>): observation of a run through the ledger, the captured
    selection and the frame of a bound run. \<open>Engine_Run_Views\<close>: \<open>status\<close>, \<open>attempts\<close> and \<open>run_summary\<close>
    of \<open>run_loop.rs\<close> for other runs, in the monad of the run loop.
  \<^item> \<open>Adapter_Host\<close>: the machine as the adapters see it, a record of answers of the file system and of git
    to the questions the code asks, paths as lists of components, and the registry of repositories as
    \<open>adapters/src/workspace.rs\<close> reads it. Over it, \<open>Adapter_Inventory\<close> (\<open>workspace/inventory.rs\<close>, the
    collector of observations), \<open>Adapter_Cleanup\<close> and \<open>Adapter_Cleanup_Apply\<close> (\<open>workspace/cleanup.rs\<close>,
    the safety observations of a preview and the removal with its journal) and \<open>Adapter_Adoption\<close>
    (\<open>workspace/adoption.rs\<close>, runs from before the ledger taken over into it).
  \<^item> \<open>Engine_Orchestrate\<close> (\<open>engine/src/orchestrate.rs\<close>): the review of an attempt by two models in panes
    of their own, over a transport that acts on an abstract world.
  \<^item> \<open>Adapter_Harness\<close> (\<open>adapters/src/harness.rs\<close>): harnesses as child processes. The registry of attempts,
    its permits and the reader threads are one state; every section of code that runs under the mutex of
    the registry is one action with the answers of the operating system, and a session is any sequence of actions.
  \<^item> \<open>Engine_Run_State\<close>: the types of \<open>run_loop.rs\<close>, its ports as records of functions over an abstract
    world, and the methods' monad: a method maps a state (database, pending outcomes, active graph,
    world) to an error or a value and a new state, also when it fails, since writes made before an
    error stay. Before each statement the world may make SQLite refuse it.
  \<^item> \<open>Engine_Run_Attempt\<close>: paths, admission, appending to the log, deterministic checks, micro-repair,
    the repair loop and \<open>verify_attempt\<close>. \<open>Engine_Run_Tick\<close>: the phases of \<open>tick\<close> in the order of the
    code, dispatch, and \<open>loop_until_idle\<close>. \<open>Engine_Run_Control\<close>: starting, staging, deciding and
    mutating plans, resuming, restarting, cancelling, accepting, landing, deliverables and export.
  \<^item> \<open>Engine_Run_Logic\<close>: the judgements the run loop is reasoned with. \<open>quiet\<close> (no event, no plan),
    \<open>emits P\<close> (only records that satisfy P), \<open>runs\<close> (what the log says afterwards); further ones are
    \<open>yields\<close>, \<open>reads\<close>, \<open>hoare\<close>, \<open>same_plans\<close>, \<open>anchored\<close>, \<open>clean\<close>. Each has one rule per construct of
    the monad, so that the lemma on a method is its definition unfolded and the rules applied.
  \<^item> \<open>Engine_Run_Session\<close>, \<open>Engine_Run_Gate\<close>, \<open>Engine_Run_Operator\<close>, \<open>Engine_Run_Loop\<close>: sessions of
    operations over one database, and the properties of the operations.

  \<^bold>\<open>What is shown.\<close> Of the domain: which runs of the task machine exist and what they must have
  passed; validation accepts exactly the well-formed acyclic graphs, some task is always ready,
  mutations keep graphs valid; parsing and printing of ids agree; diagnostics are compared as sets. Of the engine:
  repair sessions end and their decisions are justified; routing selects exactly the candidates that
  pass the filters, in order; tiers are only filled in or raised; a model review passes only under
  its conditions; replay accepts exactly the legal logs. Of the store: round trips of every table
  the engine reads, and what a reset removes. Of the run loop: in every session, whatever the ports
  answer and wherever a statement fails, the log stays sound and every task earned its state
  (\<open>Engine_Run_Session\<close>); a tick works on accepted plans only, answers truthfully, respects the
  worker limit and never accepts in the place of a human (\<open>Engine_Run_Tick\<close>); the plan gate refines
  an abstract machine (\<open>Engine_Run_Gate\<close>); mutation, acceptance, cancellation, restart and
  deliverables do what they say, and plan operations fail cleanly (\<open>Engine_Run_Operator\<close>); the loop
  goes on only after a transition or for a live worker, and stops for true reasons (\<open>Engine_Run_Loop\<close>). Of workspaces: what is offered for removal is
  owned, present, idle and clean, and a preview is bound to the facts it was computed from
  (\<open>Domain_Cleanup\<close>, \<open>Engine_Inventory\<close>); an apply removes a directory only when the world and the
  journal of that very call justify it, and a blocked removal stays blocked (\<open>Adapter_Cleanup\<close>,
  \<open>Adapter_Cleanup_Apply\<close>); an adoption binds exactly the runs it reports, to directories every generation
  it could read proves, or leaves the ledger alone (\<open>Adapter_Adoption\<close>); a delivery passes only when git proves it, and a maintenance
  plan removes nothing that carries evidence (\<open>Engine_Delivery\<close>); relative paths stay below their
  base (\<open>Domain_Workspace\<close>); redacted text carries no secret (\<open>Adapter_Redact\<close>). Of the ledger, in
  every session of its operations: only the owner of the repository writes; nothing recorded is
  taken back; a bound run stores the plan of its current revision, and every scoped event is under
  a revision that a human approved; steps of operations are consecutive and attempts new; queued
  cancellations reach the driver they name; a bound run refuses the writes of the unscoped store. A
  bound run with an active generation can always be observed, frames show that generation only,
  and the status of a run tells truthfully what each task waits for. Of model reviews
  (\<open>Engine_Orchestrate\<close>): they come from two models in panes that are not the supervisor's, count as
  complete only when answered so, and never accept anything. Of harness processes
  (\<open>Adapter_Harness\<close>), in every interleaving: permits are counted and bounded, every child is owned, killed or
  seen to exit, a removed attempt never comes back, and an outcome is complete.

  \<^bold>\<open>Fuel.\<close> \<open>repair_loop\<close> has \<open>repair_fuel\<close>, one more than the rounds of the default budget;
  \<open>repair_loop_total\<close> shows that it suffices. \<open>closure_loop\<close> has \<open>closure_fuel\<close>, the tagged nodes plus
  all dependency entries; \<open>needed_found\<close> shows that it suffices. \<open>loop_until_idle\<close> may wait for a
  live worker for ever, so its fuel is an argument and running out of it is the answer \<open>None\<close>; an
  answer found with some fuel is the answer for every larger one.

  \<^bold>\<open>Parameters.\<close> Code that is not part of the repository enters as an argument with its documented
  behaviour as a named hypothesis: petgraph's \<open>toposort\<close> (\<open>topo_spec\<close>, shown to hold for Kahn's
  algorithm), \<open>serde_json\<close> on plans (\<open>plan_codec_ok\<close>: a plan read back has the ids that were
  written), SHA-256 and \<open>DefaultHasher\<close> (no hypothesis), the clock, and the answers of the file system and of git (the records \<open>host\<close> and
  \<open>workspace_port\<close>). The text
  that \<open>{:?}\<close> gives for values that only reach a message is a parameter too.

  \<^bold>\<open>Not modelled.\<close> Of the ledger: the migrations of \<open>schema.rs\<close> and the client that waits for a
  cancellation; the acquisition of the lock file of a repository and the rewriting of its registry in
  \<open>adapters/src/workspace.rs\<close>; Windows path forms (a path is its components after a root); the
  evidence pack \<open>write_pack\<close> writes to disk; \<open>plan\<close> of the run loop, which drives the owned planner;
  three of the router's score signals, which need the rounding of IEEE arithmetic and are an arbitrary
  score here; the context crate (tree-sitter skeletons, quantised vectors); drivers of git and of
  processes (a child process of \<open>Adapter_Harness\<close> is what the operating system answers, and a poisoned
  mutex is left out); the command line, the MCP server, build automation and the JavaScript providers.
\<close>

end
